(* ===== verification/Prelude.thy ===== *)
theory Prelude
  imports Main
begin

text \<open>
  Shared vocabulary of the development: the errors the JavaScript code throws, results as
  sums (\<^term>\<open>Inl\<close> for a throw, \<^term>\<open>Inr\<close> for a return), sequencing of fallible calls, and
  the generic lemmas on lists and maps that several components use.
\<close>

named_theorems res_simps \<open>evaluation of fallible calls\<close>
named_theorems money_defs \<open>definitions of the cent arithmetic\<close>

section \<open>Errors and results\<close>

text \<open>
  An error carries what callers can observe: its class and message, or for an
  application error (\<open>lib/errors.js\<close>) its code and HTTP status.
\<close>

datatype js_error =
    TypeError string
  | RangeError string
  | PlainError string
  | AppError string nat

type_synonym 'a res = "js_error + 'a"

definition ebind :: "'e + 'a \<Rightarrow> ('a \<Rightarrow> 'e + 'b) \<Rightarrow> 'e + 'b" where
  "ebind m f = (case m of Inl e \<Rightarrow> Inl e | Inr x \<Rightarrow> f x)"

lemma ebind_simps [simp]:
  "ebind (Inl e) f = Inl e" "ebind (Inr x) f = f x"
  by (simp_all add: ebind_def)

lemma ebind_eq_Inr [res_simps]:
  "ebind m f = Inr y \<longleftrightarrow> (\<exists>x. m = Inr x \<and> f x = Inr y)"
  by (cases m) auto

lemma ebind_eq_Inl [res_simps]:
  "ebind m f = Inl e \<longleftrightarrow> m = Inl e \<or> (\<exists>x. m = Inr x \<and> f x = Inl e)"
  by (cases m) auto

lemma ebind_cong [fundef_cong]:
  "m = m' \<Longrightarrow> (\<And>x. m' = Inr x \<Longrightarrow> f x = g x) \<Longrightarrow> ebind m f = ebind m' g"
  by (cases m') auto

text \<open>\<open>xs.map(f)\<close> where \<open>f\<close> may throw: the first throw wins.\<close>

fun emap :: "('a \<Rightarrow> 'e + 'b) \<Rightarrow> 'a list \<Rightarrow> 'e + 'b list" where
  "emap f [] = Inr []"
| "emap f (x # xs) = ebind (f x) (\<lambda>y. ebind (emap f xs) (\<lambda>ys. Inr (y # ys)))"

lemma emap_Inr_iff:
  "emap f xs = Inr ys \<longleftrightarrow> list_all2 (\<lambda>x y. f x = Inr y) xs ys"
  by (induction xs arbitrary: ys) (auto simp: list_all2_Cons1 res_simps)

lemma emap_length: "emap f xs = Inr ys \<Longrightarrow> length ys = length xs"
  by (auto simp: emap_Inr_iff dest: list_all2_lengthD)

lemma emap_member:
  "emap f xs = Inr ys \<Longrightarrow> y \<in> set ys \<Longrightarrow> \<exists>x \<in> set xs. f x = Inr y"
  by (induction xs arbitrary: ys) (auto simp: res_simps)

lemma emap_member':
  "emap f xs = Inr ys \<Longrightarrow> x \<in> set xs \<Longrightarrow> \<exists>y \<in> set ys. f x = Inr y"
  by (induction xs arbitrary: ys) (auto simp: res_simps)

text \<open>A loop over a list whose body may throw.\<close>

fun efold :: "('s \<Rightarrow> 'a \<Rightarrow> 'e + 's) \<Rightarrow> 's \<Rightarrow> 'a list \<Rightarrow> 'e + 's" where
  "efold f s [] = Inr s"
| "efold f s (x # xs) = ebind (f s x) (\<lambda>s'. efold f s' xs)"

lemma efold_invariant:
  "efold f s xs = Inr s' \<Longrightarrow> P s \<Longrightarrow> (\<And>s x t. x \<in> set xs \<Longrightarrow> f s x = Inr t \<Longrightarrow> P s \<Longrightarrow> P t) \<Longrightarrow> P s'"
proof (induction xs arbitrary: s)
  case (Cons x xs)
  then show ?case by (auto simp: res_simps)
qed simp

lemma efold_append: "efold f s (xs @ ys) = ebind (efold f s xs) (\<lambda>t. efold f t ys)"
  by (induction xs arbitrary: s) (auto simp: ebind_def split: sum.splits)

section \<open>Lists\<close>

lemma sum_list_replicate_int [simp]: "sum_list (replicate n (c::int)) = int n * c"
  by (induction n) (simp_all add: algebra_simps)

lemma find_SomeD: "find P xs = Some x \<Longrightarrow> P x \<and> x \<in> set xs"
  by (auto simp: find_Some_iff)

text \<open>\<open>[...new Set(xs)]\<close>: the distinct elements in the order of their first occurrence.\<close>

fun js_dedupe :: "'a list \<Rightarrow> 'a list" where
  "js_dedupe [] = []"
| "js_dedupe (x # xs) = x # filter (\<lambda>y. y \<noteq> x) (js_dedupe xs)"

lemma set_js_dedupe [simp]: "set (js_dedupe xs) = set xs"
  by (induction xs) auto

lemma distinct_js_dedupe [simp]: "distinct (js_dedupe xs)"
  by (induction xs) auto

lemma js_dedupe_eq_Nil [simp]: "js_dedupe xs = [] \<longleftrightarrow> xs = []"
  by (cases xs) auto

end
