(* ===== verification/Binary64.thy ===== *)
theory Binary64
  imports Complex_Main Prelude "HOL-Library.Log_Nat"
begin

text \<open>
  The numbers of JavaScript: IEEE binary64 values with round to nearest, ties to even.
  A finite non-zero value (and \<open>+0\<close>) is the rational it denotes; \<open>-0\<close>, the infinities and
  \<open>NaN\<close> have constructors of their own, so \<open>Object.is\<close> is equality. The operations compute,
  and the error bound of rounding is what the money routines rest on.
\<close>

datatype jsnum = NaN | PosInf | NegInf | NegZero | Fin rat

section \<open>Rounding\<close>

text \<open>The greatest \<open>e\<close> with \<open>2 powi e \<le> x\<close>, from the bit lengths of numerator and denominator.\<close>

definition ilog2 :: "rat \<Rightarrow> int" where
  "ilog2 x = (case quotient_of x of (p, q) \<Rightarrow>
     let d = bitlen p - bitlen q in if 2 powi d \<le> x then d else d - 1)"

definition round_half_even :: "rat \<Rightarrow> int" where
  "round_half_even y =
     (let f = \<lfloor>y\<rfloor>; r = y - of_int f in
      if r < 1/2 then f else if 1/2 < r then f + 1 else if even f then f else f + 1)"

text \<open>The exponent of the last place of the binade of \<open>x\<close>; subnormals share the least one.\<close>

definition ulp_exp :: "rat \<Rightarrow> int" where
  "ulp_exp x = max (ilog2 \<bar>x\<bar> - 52) (- 1074)"

definition round_rat :: "rat \<Rightarrow> rat" where
  "round_rat x = (if x = 0 then 0
     else of_int (round_half_even (x / 2 powi ulp_exp x)) * 2 powi ulp_exp x)"

definition round64 :: "rat \<Rightarrow> jsnum" where
  "round64 x =
     (let r = round_rat x in
      if 2 powi 1024 \<le> r then PosInf
      else if r \<le> - (2 powi 1024) then NegInf
      else if r = 0 \<and> x < 0 then NegZero
      else Fin r)"

section \<open>Operations\<close>

fun js_neg_sign :: "jsnum \<Rightarrow> bool" where
  "js_neg_sign (Fin q) = (q < 0)"
| "js_neg_sign NegZero = True"
| "js_neg_sign NegInf = True"
| "js_neg_sign _ = False"

definition js_zero :: "bool \<Rightarrow> jsnum" where
  "js_zero neg = (if neg then NegZero else Fin 0)"

definition js_inf :: "bool \<Rightarrow> jsnum" where
  "js_inf neg = (if neg then NegInf else PosInf)"

fun js_is_zero :: "jsnum \<Rightarrow> bool" where
  "js_is_zero (Fin q) = (q = 0)"
| "js_is_zero NegZero = True"
| "js_is_zero _ = False"

fun js_is_inf :: "jsnum \<Rightarrow> bool" where
  "js_is_inf PosInf = True"
| "js_is_inf NegInf = True"
| "js_is_inf _ = False"

fun js_val :: "jsnum \<Rightarrow> rat" where
  "js_val (Fin q) = q"
| "js_val _ = 0"

text \<open>\<open>a * b\<close> and \<open>a / b\<close>.\<close>

definition js_mul :: "jsnum \<Rightarrow> jsnum \<Rightarrow> jsnum" where
  "js_mul a b =
     (let neg = (js_neg_sign a \<noteq> js_neg_sign b) in
      if a = NaN \<or> b = NaN then NaN
      else if js_is_inf a \<or> js_is_inf b
           then (if js_is_zero a \<or> js_is_zero b then NaN else js_inf neg)
      else if js_is_zero a \<or> js_is_zero b then js_zero neg
      else round64 (js_val a * js_val b))"

definition js_div :: "jsnum \<Rightarrow> jsnum \<Rightarrow> jsnum" where
  "js_div a b =
     (let neg = (js_neg_sign a \<noteq> js_neg_sign b) in
      if a = NaN \<or> b = NaN then NaN
      else if js_is_inf a then (if js_is_inf b then NaN else js_inf neg)
      else if js_is_inf b then js_zero neg
      else if js_is_zero b then (if js_is_zero a then NaN else js_inf neg)
      else if js_is_zero a then js_zero neg
      else round64 (js_val a / js_val b))"

text \<open>\<open>Math.round\<close> rounds halves up and keeps the sign of a zero result.\<close>

fun js_round :: "jsnum \<Rightarrow> jsnum" where
  "js_round (Fin q) = (let r = \<lfloor>q + 1/2\<rfloor> in if r = 0 \<and> q < 0 then NegZero else Fin (of_int r))"
| "js_round x = x"

fun js_floor :: "jsnum \<Rightarrow> jsnum" where
  "js_floor (Fin q) = Fin (of_int \<lfloor>q\<rfloor>)"
| "js_floor x = x"

fun js_ceil :: "jsnum \<Rightarrow> jsnum" where
  "js_ceil (Fin q) = (let r = \<lceil>q\<rceil> in if r = 0 \<and> q < 0 then NegZero else Fin (of_int r))"
| "js_ceil x = x"

fun js_abs :: "jsnum \<Rightarrow> jsnum" where
  "js_abs (Fin q) = Fin \<bar>q\<bar>"
| "js_abs NegZero = Fin 0"
| "js_abs NegInf = PosInf"
| "js_abs x = x"

fun js_is_finite :: "jsnum \<Rightarrow> bool" where
  "js_is_finite (Fin q) = True"
| "js_is_finite NegZero = True"
| "js_is_finite _ = False"

definition max_safe :: int where
  "max_safe = 2 ^ 53 - 1"

text \<open>\<open>Number.isSafeInteger\<close> on a value already known to be an integer, and on any number.\<close>

definition safe_int :: "int \<Rightarrow> bool" where
  "safe_int c \<longleftrightarrow> \<bar>c\<bar> \<le> max_safe"

fun js_safe_integer :: "jsnum \<Rightarrow> bool" where
  "js_safe_integer (Fin q) = (q = of_int \<lfloor>q\<rfloor> \<and> safe_int \<lfloor>q\<rfloor>)"
| "js_safe_integer NegZero = True"
| "js_safe_integer _ = False"

fun js_to_int :: "jsnum \<Rightarrow> int" where
  "js_to_int (Fin q) = \<lfloor>q\<rfloor>"
| "js_to_int _ = 0"

abbreviation js_of_int :: "int \<Rightarrow> jsnum" where
  "js_of_int c \<equiv> Fin (of_int c)"

text \<open>The values a binary64 variable can hold.\<close>

fun js_wf :: "jsnum \<Rightarrow> bool" where
  "js_wf (Fin q) = (round64 q = Fin q)"
| "js_wf _ = True"

section \<open>The rounding error\<close>

lemma safe_to_int: "js_safe_integer n \<Longrightarrow> safe_int (js_to_int n)"
  by (cases n) (auto simp: safe_int_def max_safe_def)

lemma powi_pos [simp]: "(0::rat) < 2 powi e"
  by (simp add: zero_less_power_int)

lemma powi_add: "(2::rat) powi (a + b) = 2 powi a * 2 powi b"
  by (simp add: power_int_add)

lemma powi_mono_less [simp]: "(2::rat) powi a < 2 powi b \<longleftrightarrow> a < b"
  by (metis one_less_numeral_iff power_int_strict_increasing order_less_asym linorder_neqE
      semiring_norm(76))

lemma powi_mono_le [simp]: "(2::rat) powi a \<le> 2 powi b \<longleftrightarrow> a \<le> b"
  by (simp add: not_less [symmetric])

lemma ilog2_bounds:
  assumes "0 < x"
  shows "2 powi ilog2 x \<le> x" and "x < 2 powi (ilog2 x + 1)"
proof -
  obtain p q where pq: "quotient_of x = (p, q)" by force
  then have q: "0 < q" and x: "x = of_int p / of_int q"
    by (auto intro: quotient_of_denom_pos quotient_of_div)
  with assms have p: "0 < p" by (simp add: zero_less_divide_iff)
  have conv: "(of_int (2 ^ nat k) :: rat) = 2 powi k" if "0 \<le> k" for k
    using that by (simp add: power_int_def)
  have bnd: "2 powi (bitlen y - 1) \<le> (of_int y :: rat) \<and> (of_int y :: rat) < 2 powi bitlen y"
    if "0 < y" for y
  proof -
    have b: "0 \<le> bitlen y - 1" using that bitlen_eq_zero_iff [of y] bitlen_nonneg [of y] by linarith
    from bitlen_bounds [OF that] have "2 ^ nat (bitlen y - 1) \<le> y" "y < 2 ^ nat (bitlen y)" by auto
    then have "(of_int (2 ^ nat (bitlen y - 1)) :: rat) \<le> of_int y"
      "(of_int y :: rat) < of_int (2 ^ nat (bitlen y))"
      using of_int_le_iff [where 'a = rat] of_int_less_iff [where 'a = rat] by blast+
    with b show ?thesis by (simp only: conv)
  qed
  let ?d = "bitlen p - bitlen q"
  have lo: "2 powi (?d - 1) \<le> x"
  proof -
    have "2 powi (?d - 1) * (of_int q :: rat) \<le> 2 powi (?d - 1) * 2 powi bitlen q"
      using bnd [OF q] by (intro mult_left_mono) auto
    also have "\<dots> = 2 powi (bitlen p - 1)" by (simp flip: powi_add)
    also have "\<dots> \<le> of_int p" using bnd [OF p] by simp
    finally show ?thesis using q by (simp add: x pos_le_divide_eq)
  qed
  have hi: "x < 2 powi (?d + 1)"
  proof -
    have "(of_int p :: rat) < 2 powi bitlen p" using bnd [OF p] by simp
    also have "\<dots> = 2 powi (?d + 1) * 2 powi (bitlen q - 1)" by (simp flip: powi_add)
    also have "\<dots> \<le> 2 powi (?d + 1) * of_int q" using bnd [OF q] by (intro mult_left_mono) auto
    finally show ?thesis using q by (simp add: x pos_divide_less_eq)
  qed
  show "2 powi ilog2 x \<le> x" and "x < 2 powi (ilog2 x + 1)"
    using lo hi by (auto simp: ilog2_def pq Let_def)
qed

lemma ilog2_eq:
  assumes "2 powi e \<le> x" "x < 2 powi (e + 1)"
  shows "ilog2 x = e"
proof -
  have "0 < x" using assms(1) powi_pos [of e] by linarith
  from ilog2_bounds [OF this] have "2 powi ilog2 x \<le> x" "x < 2 powi (ilog2 x + 1)" .
  then have "(2::rat) powi e < 2 powi (ilog2 x + 1)" "(2::rat) powi ilog2 x < 2 powi (e + 1)"
    using assms by linarith+
  then have "e < ilog2 x + 1" "ilog2 x < e + 1"
    by (simp_all only: powi_mono_less)
  then show ?thesis by simp
qed

lemma round_half_even_error: "\<bar>of_int (round_half_even y) - y\<bar> \<le> 1/2"
  using of_int_floor_le [of y] floor_correct [of y]
  unfolding round_half_even_def Let_def by (auto simp: abs_le_iff)

lemma round_half_even_ge: "of_int j \<le> y \<Longrightarrow> j \<le> round_half_even y"
  unfolding round_half_even_def Let_def by (auto simp flip: le_floor_iff)

lemma round_half_even_le: "y \<le> of_int j \<Longrightarrow> round_half_even y \<le> j"
proof -
  assume y: "y \<le> of_int j"
  show ?thesis
  proof (cases "y = of_int j")
    case True
    then show ?thesis by (simp add: round_half_even_def Let_def)
  next
    case False
    with y have "\<lfloor>y\<rfloor> < j" by (simp add: floor_less_iff)
    then show ?thesis by (simp add: round_half_even_def Let_def)
  qed
qed

lemma round_half_even_of_int [simp]: "round_half_even (of_int j) = j"
  by (simp add: round_half_even_def)

lemma round_rat_0 [simp]: "round_rat 0 = 0"
  by (simp add: round_rat_def)

lemma round_rat_error:
  "\<bar>round_rat x - x\<bar> \<le> 2 powi ulp_exp x / 2"
proof (cases "x = 0")
  case False
  let ?u = "(2::rat) powi ulp_exp x"
  have "round_rat x - x = (of_int (round_half_even (x / ?u)) - x / ?u) * ?u"
    using False by (simp add: round_rat_def algebra_simps)
  then have "\<bar>round_rat x - x\<bar> = \<bar>of_int (round_half_even (x / ?u)) - x / ?u\<bar> * ?u"
    by (simp add: abs_mult)
  also have "\<dots> \<le> 1/2 * ?u"
    by (intro mult_right_mono round_half_even_error) simp
  finally show ?thesis by simp
qed simp

text \<open>In the normal range the error is at most one part in \<open>2 ^ 53\<close>.\<close>

lemma ulp_exp_normal:
  assumes "2 powi (- 1022) \<le> \<bar>x\<bar>"
  shows "ulp_exp x = ilog2 \<bar>x\<bar> - 52" and "2 powi ulp_exp x \<le> \<bar>x\<bar> * 2 powi (- 52)"
proof -
  have pos: "0 < \<bar>x\<bar>" using assms powi_pos [of "- 1022"] by linarith
  have "(2::rat) powi (- 1022) < 2 powi (ilog2 \<bar>x\<bar> + 1)"
    using assms ilog2_bounds(2) [OF pos] by linarith
  then have "- 1022 < ilog2 \<bar>x\<bar> + 1" by (simp only: powi_mono_less)
  then show e: "ulp_exp x = ilog2 \<bar>x\<bar> - 52" by (simp add: ulp_exp_def)
  have "(2::rat) powi ulp_exp x = 2 powi ilog2 \<bar>x\<bar> * 2 powi (- 52)"
    unfolding e powi_add [symmetric] by simp
  then show "2 powi ulp_exp x \<le> \<bar>x\<bar> * 2 powi (- 52)"
    using ilog2_bounds(1) [OF pos] by (simp add: mult_right_mono)
qed

lemma round_rat_relative_error:
  assumes "2 powi (- 1022) \<le> \<bar>x\<bar>"
  shows "\<bar>round_rat x - x\<bar> \<le> \<bar>x\<bar> * 2 powi (- 53)"
proof -
  have "\<bar>round_rat x - x\<bar> \<le> 2 powi ulp_exp x / 2" by (rule round_rat_error)
  also have "\<dots> \<le> (\<bar>x\<bar> * 2 powi (- 52)) / 2"
    using ulp_exp_normal(2) [OF assms] by simp
  also have "\<dots> = \<bar>x\<bar> * 2 powi (- 53)" by (simp add: power_int_def power_divide)
  finally show ?thesis .
qed

text \<open>Rounding is sign-symmetric, and exact on the integers of at most 53 bits.\<close>

lemma ulp_exp_uminus [simp]: "ulp_exp (- x) = ulp_exp x"
  by (simp add: ulp_exp_def)

lemma round_half_even_uminus: "round_half_even (- y) = - round_half_even y"
proof (cases "y = of_int \<lfloor>y\<rfloor>")
  case True
  then show ?thesis by (metis of_int_minus round_half_even_of_int)
next
  case False
  then have "\<lceil>y\<rceil> = \<lfloor>y\<rfloor> + 1" by (metis ceiling_altdef)
  then have "\<lfloor>- y\<rfloor> = - \<lfloor>y\<rfloor> - 1" by (simp add: floor_minus)
  then show ?thesis by (auto simp: round_half_even_def Let_def)
qed

lemma round_rat_uminus: "round_rat (- x) = - round_rat x"
  by (simp add: round_rat_def round_half_even_uminus)

lemma ulp_exp_le_0:
  assumes "\<bar>x\<bar> < 2 ^ 53"
  shows "ulp_exp x \<le> 0"
proof (cases "x = 0")
  case True
  have "bitlen 1 = 1" by (simp add: compute_bitlen)
  with True show ?thesis by (simp add: ulp_exp_def ilog2_def Let_def)
next
  case False
  then have "(2::rat) powi ilog2 \<bar>x\<bar> \<le> \<bar>x\<bar>" by (intro ilog2_bounds) simp
  with assms have "(2::rat) powi ilog2 \<bar>x\<bar> < 2 powi 53" by (simp add: power_int_def)
  then show ?thesis by (simp only: powi_mono_less) (simp add: ulp_exp_def)
qed

lemma of_int_mult_powi:
  assumes "e \<le> 0"
  shows "(of_int j :: rat) / 2 powi e = of_int (j * 2 ^ nat (- e))"
  using assms by (simp add: power_int_def field_simps)

lemma round_rat_between:
  assumes "\<bar>x\<bar> < 2 ^ 53"
  shows "of_int j \<le> x \<Longrightarrow> of_int j \<le> round_rat x" and "x \<le> of_int j \<Longrightarrow> round_rat x \<le> of_int j"
proof -
  let ?u = "(2::rat) powi ulp_exp x"
  note j = of_int_mult_powi [OF ulp_exp_le_0 [OF assms], of j]
  have conv: "(of_int j :: rat) = of_int (j * 2 ^ nat (- ulp_exp x)) * ?u"
    unfolding j [symmetric] by simp
  show "of_int j \<le> round_rat x" if "of_int j \<le> x"
  proof (cases "x = 0")
    case False
    from that have "of_int j / ?u \<le> x / ?u" by (simp add: divide_right_mono)
    then have "j * 2 ^ nat (- ulp_exp x) \<le> round_half_even (x / ?u)"
      unfolding j by (rule round_half_even_ge)
    then show ?thesis
      using False by (subst conv) (simp only: round_rat_def, simp add: mult_right_mono del: of_int_mult)
  qed (use that in simp)
  show "round_rat x \<le> of_int j" if "x \<le> of_int j"
  proof (cases "x = 0")
    case False
    from that have "x / ?u \<le> of_int j / ?u" by (simp add: divide_right_mono)
    then have "round_half_even (x / ?u) \<le> j * 2 ^ nat (- ulp_exp x)"
      unfolding j by (rule round_half_even_le)
    then show ?thesis
      using False by (subst conv) (simp only: round_rat_def, simp add: mult_right_mono del: of_int_mult)
  qed (use that in simp)
qed

lemma round_rat_of_int:
  assumes "\<bar>c\<bar> < 2 ^ 53"
  shows "round_rat (of_int c) = of_int c"
proof -
  have "\<bar>(of_int c :: rat)\<bar> < 2 ^ 53"
    using assms of_int_less_iff [where 'a = rat, of "\<bar>c\<bar>" "2 ^ 53"] by simp
  from round_rat_between [OF this, of c] show ?thesis by (simp add: order_antisym)
qed

text \<open>
  The floored quotient of two safe integers is exact although the quotient is rounded:
  the rounding error is below the distance of \<open>a / b\<close> to the next integer.
\<close>

lemma ulp_div_less:
  assumes "0 < a" "a < 2 ^ 53" "0 < b" "b \<le> 2 ^ 53"
  shows "2 powi ulp_exp (of_int a / of_int b) / 2 < (1 / of_int b :: rat)"
proof -
  let ?x = "(of_int a / of_int b :: rat)"
  have xp: "0 < ?x" using assms by simp
  have a53: "(of_int a :: rat) < 2 ^ 53"
    using assms of_int_less_iff [where 'a = rat, of a "2 ^ 53"] by simp
  have "(2::rat) powi (- 1022) \<le> 2 powi (- 53)" by (simp only: powi_mono_le)
  also have "\<dots> = 1 / of_int (2 ^ 53)" by (simp add: power_int_def power_divide)
  also have "\<dots> \<le> 1 / of_int b"
    using assms(3,4) by (intro divide_left_mono) (simp_all del: of_int_power of_int_numeral)
  also have "\<dots> \<le> ?x" using assms(1,3) by (simp add: divide_right_mono)
  finally have "2 powi ulp_exp ?x \<le> ?x * 2 powi (- 52)"
    using ulp_exp_normal(2) [of ?x] unfolding abs_of_pos [OF xp] by blast
  also have "\<dots> < (2 ^ 53 / of_int b) * 2 powi (- 52)"
    using a53 assms(3)
    by (intro mult_strict_right_mono divide_strict_right_mono) auto
  also have "\<dots> = 2 / of_int b" by (simp add: power_int_def power_divide)
  finally show ?thesis by simp
qed

lemma floor_round_div:
  assumes "0 \<le> a" "a < 2 ^ 53" "0 < b" "b \<le> 2 ^ 53"
  shows "\<lfloor>round_rat (of_int a / of_int b)\<rfloor> = a div b"
proof (rule floor_unique)
  let ?x = "(of_int a / of_int b :: rat)"
  have x0: "0 \<le> ?x" using assms by simp
  have "?x \<le> of_int a" using assms by (simp add: divide_le_eq mult_le_cancel_left1)
  moreover have "(of_int a :: rat) < 2 ^ 53"
    using assms of_int_less_iff [where 'a = rat, of a "2 ^ 53"] by simp
  ultimately have xb: "\<bar>?x\<bar> < 2 ^ 53" using x0 by linarith
  have fl: "\<lfloor>?x\<rfloor> = a div b" by (simp add: floor_divide_of_int_eq)
  show "of_int (a div b) \<le> round_rat ?x"
    using round_rat_between(1) [OF xb, of "a div b"] fl by (metis of_int_floor_le)
  show "round_rat ?x < of_int (a div b) + 1"
  proof (cases "a = 0")
    case False
    with assms have a: "0 < a" and xp: "0 < ?x" by auto
    let ?k = "a div b + 1"
    have gap: "?x + 1 / of_int b \<le> of_int ?k"
    proof -
      have "a mod b + 1 \<le> b" using pos_mod_bound [OF assms(3), of a] by linarith
      moreover have "?k * b = b * (a div b) + b" by (simp add: algebra_simps)
      ultimately have "a + 1 \<le> ?k * b" using mult_div_mod_eq [of b a] by linarith
      then have "(of_int (a + 1) :: rat) \<le> of_int (?k * b)" by (simp only: of_int_le_iff)
      then show ?thesis using assms by (simp add: field_simps)
    qed
    have "2 powi ulp_exp ?x / 2 < (1 / of_int b :: rat)" by (rule ulp_div_less [OF a assms(2-4)])
    with round_rat_error [of ?x] gap show ?thesis by linarith
  qed simp
qed

text \<open>The same for \<open>Math.ceil(a / b)\<close>.\<close>

lemma ceil_round_div:
  assumes "0 \<le> a" "a < 2 ^ 53" "0 < b" "b \<le> 2 ^ 53"
  shows "\<lceil>round_rat (of_int a / of_int b)\<rceil> = - ((- a) div b)"
proof (rule ceiling_unique)
  let ?x = "(of_int a / of_int b :: rat)"
  have ce: "\<lceil>?x\<rceil> = - ((- a) div b)"
    using floor_divide_of_int_eq [where 'a = rat, of "- a" b] by (simp add: ceiling_def)
  have "?x \<le> of_int a" using assms by (simp add: divide_le_eq mult_le_cancel_left1)
  moreover have "(of_int a :: rat) < 2 ^ 53"
    using assms of_int_less_iff [where 'a = rat, of a "2 ^ 53"] by simp
  moreover have "0 \<le> ?x" using assms by simp
  ultimately have xb: "\<bar>?x\<bar> < 2 ^ 53" by linarith
  show "round_rat ?x \<le> of_int (- ((- a) div b))"
    using round_rat_between(2) [OF xb, of "- ((- a) div b)"] ce by (metis le_of_int_ceiling)
  show "of_int (- ((- a) div b)) - 1 < round_rat ?x"
  proof (cases "a mod b = 0")
    case True
    then have "?x = of_int (a div b)" "(- a) div b = - (a div b)"
      using assms(3) by (auto simp: zmod_eq_0_iff zdiv_zminus1_eq_if)
    moreover have "a div b \<le> a" using zdiv_mono2 [of a 1 b] assms by simp
    moreover have "0 \<le> a div b" using assms by (simp add: pos_imp_zdiv_nonneg_iff)
    ultimately show ?thesis using round_rat_of_int [of "a div b"] assms by simp
  next
    case False
    then have k: "- ((- a) div b) = a div b + 1" using assms(3) by (simp add: zdiv_zminus1_eq_if)
    have fl: "\<lfloor>round_rat ?x\<rfloor> = a div b" by (rule floor_round_div [OF assms])
    have "0 < a" using False assms(1) by (cases "a = 0") auto
    then have xp: "0 < ?x" using assms(3) by simp
    have gap: "of_int (a div b) + 1 / of_int b \<le> ?x"
    proof -
      have "1 \<le> a mod b" using False pos_mod_sign [OF assms(3), of a] by linarith
      moreover have "a div b * b = b * (a div b)" by simp
      ultimately have "a div b * b + 1 \<le> a" using mult_div_mod_eq [of b a] by linarith
      then have "(of_int (a div b * b + 1) :: rat) \<le> of_int a" by (simp only: of_int_le_iff)
      then have "of_int (a div b * b + 1) / of_int b \<le> ?x"
        using assms(3) by (simp add: divide_right_mono del: of_int_add of_int_mult)
      then show ?thesis using assms(3) by (simp add: add_divide_distrib)
    qed
    have "2 powi ulp_exp ?x / 2 < (1 / of_int b :: rat)" by (rule ulp_div_less [OF \<open>0 < a\<close> assms(2-4)])
    with round_rat_error [of ?x] gap have "of_int (a div b) < round_rat ?x" by linarith
    then show ?thesis by (simp add: k)
  qed
qed

lemma round64_normal:
  assumes "2 powi (- 1022) \<le> \<bar>x\<bar>" "\<bar>x\<bar> < 2 powi 1000"
  shows "round64 x = Fin (round_rat x)"
proof -
  have e: "\<bar>round_rat x - x\<bar> \<le> \<bar>x\<bar> * 2 powi (- 53)"
    by (rule round_rat_relative_error [OF assms(1)])
  moreover have "\<bar>x\<bar> * 2 powi (- 53) \<le> \<bar>x\<bar> * (1/2)"
    by (intro mult_left_mono) (simp_all add: power_int_def power_divide)
  ultimately have e2: "\<bar>round_rat x - x\<bar> \<le> \<bar>x\<bar> / 2" by simp
  have x0: "0 < \<bar>x\<bar>" using assms(1) powi_pos [of "- 1022"] by linarith
  have "round_rat x \<noteq> 0" using e2 x0 by linarith
  moreover have "\<bar>round_rat x\<bar> < 2 * 2 powi 1000" using e2 assms(2) by linarith
  then have "\<bar>round_rat x\<bar> < 2 powi 1024"
    using powi_add [of 1 1000] powi_mono_less [of 1001 1024] by (simp del: powi_mono_less)
  then have "round_rat x < 2 powi 1024" "- (2 powi 1024) < round_rat x"
    by (simp_all only: abs_less_iff) linarith
  ultimately show ?thesis by (simp only: round64_def Let_def not_le [symmetric] if_False simp_thms)
qed

text \<open>Evaluation of a rounding from the binade and the nearest significand.\<close>

lemma round64_quotient:
  assumes "1 \<le> a" "a < 2 ^ 53" "0 < b" "b \<le> 2 ^ 53"
  shows "round64 (of_int a / of_int b) = Fin (round_rat (of_int a / of_int b))"
proof -
  let ?x = "of_int a / of_int b :: rat"
  note a = assms(1,2)
  have "(2::rat) powi (- 1022) \<le> 2 powi (- 53)" by (simp only: powi_mono_le)
  also have "\<dots> = 1 / of_int (2 ^ 53)" by (simp add: power_int_def power_divide)
  also have "\<dots> \<le> 1 / of_int b"
    using assms(3,4) by (intro divide_left_mono) (simp_all del: of_int_power of_int_numeral)
  also have "\<dots> \<le> ?x" using a assms(3) by (simp add: divide_right_mono)
  finally have lo: "2 powi (- 1022) \<le> \<bar>?x\<bar>" using a assms(3) by simp
  have "?x \<le> of_int a" using assms by (simp add: divide_le_eq mult_le_cancel_left1)
  also have "(of_int a :: rat) < 2 ^ 53"
    using a of_int_less_iff [where 'a = rat, of a "2 ^ 53"] by simp
  also have "(2::rat) ^ 53 \<le> 2 powi 1000"
    using powi_mono_le [of 53 1000] by (simp add: power_int_def del: powi_mono_le)
  finally have "\<bar>?x\<bar> < 2 powi 1000" using assms by simp
  from round64_normal [OF lo this] show ?thesis .
qed

lemma round_rat_eval:
  assumes "2 powi e \<le> x" "x < 2 powi (e + 1)" "- 1022 \<le> e"
  shows "round_rat x = of_int (round_half_even (x / 2 powi (e - 52))) * 2 powi (e - 52)"
proof -
  have x: "0 < x" using assms(1) powi_pos [of e] by linarith
  have "ulp_exp x = e - 52" using ilog2_eq [OF assms(1,2)] assms(3) x by (simp add: ulp_exp_def)
  with x show ?thesis by (simp add: round_rat_def)
qed

lemma round_half_even_near:
  assumes "\<bar>y - of_int k\<bar> < 1/2"
  shows "round_half_even y = k"
proof -
  have "\<bar>of_int (round_half_even y) - of_int k :: rat\<bar> < 1"
    using assms round_half_even_error [of y] by linarith
  then have "\<bar>of_int (round_half_even y - k) :: rat\<bar> < of_int 1" by simp
  then show ?thesis by (simp only: of_int_less_iff flip: of_int_abs)
qed

lemma round_rat_evalI:
  assumes "2 powi e \<le> x" "x < 2 powi (e + 1)" "- 1022 \<le> e"
    and "\<bar>x / 2 powi (e - 52) - of_int k\<bar> < 1/2"
  shows "round_rat x = of_int k * 2 powi (e - 52)"
  using round_rat_eval [OF assms(1-3)] round_half_even_near [OF assms(4)] by simp

end
