(* ===== verification/JsValue.thy ===== *)
theory JsValue
  imports Binary64 "HOL-Library.List_Lexorder" "HOL-Library.Char_ord"
begin

text \<open>
  The dynamically typed values the code inspects with \<open>typeof\<close>, \<open>== null\<close> and
  \<open>hasOwnProperty\<close>: JSON values and \<open>undefined\<close>. An object is the list of its own
  properties in insertion order; strings are lists of code units.
\<close>

datatype jsval =
    JUndef
  | JNull
  | JBool bool
  | JNum jsnum
  | JStr string
  | JArr "jsval list"
  | JObj "(string \<times> jsval) list"

text \<open>\<open>v == null\<close> holds for \<open>null\<close> and \<open>undefined\<close>.\<close>

fun nullish :: "jsval \<Rightarrow> bool" where
  "nullish JUndef = True"
| "nullish JNull = True"
| "nullish _ = False"

text \<open>Truthiness, as \<open>if (v)\<close> and \<open>v || w\<close> test it.\<close>

fun truthy :: "jsval \<Rightarrow> bool" where
  "truthy JUndef = False"
| "truthy JNull = False"
| "truthy (JBool b) = b"
| "truthy (JNum n) = (n \<noteq> NaN \<and> \<not> js_is_zero n)"
| "truthy (JStr s) = (s \<noteq> [])"
| "truthy _ = True"

fun is_object :: "jsval \<Rightarrow> bool" where
  "is_object (JObj _) = True"
| "is_object _ = False"

text \<open>\<open>v.k\<close> on an object (\<open>undefined\<close> where absent) and \<open>hasOwnProperty\<close>.\<close>

fun jget :: "jsval \<Rightarrow> string \<Rightarrow> jsval" where
  "jget (JObj ps) k = (case map_of ps k of None \<Rightarrow> JUndef | Some v \<Rightarrow> v)"
| "jget _ k = JUndef"

fun jhas :: "jsval \<Rightarrow> string \<Rightarrow> bool" where
  "jhas (JObj ps) k = (k \<in> fst ` set ps)"
| "jhas _ k = False"

text \<open>\<open>a || b\<close> for a text that may be missing.\<close>

definition text_or :: "string option \<Rightarrow> string \<Rightarrow> string" where
  "text_or a b = (case a of None \<Rightarrow> b | Some s \<Rightarrow> if s = [] then b else s)"

definition text_or_none :: "string option \<Rightarrow> string option" where
  "text_or_none a = (if a = Some [] then None else a)"

end
