(* ===== verification/JsString.thy ===== *)
theory JsString
  imports JsValue
begin

text \<open>
  Strings of the code: decimal digits and their values, and the \<open>String.prototype\<close> methods
  it calls (\<open>trim\<close>, \<open>toLowerCase\<close>, \<open>toUpperCase\<close>, \<open>split\<close> on one character, \<open>indexOf\<close>, \<open>includes\<close>,
  \<open>Number.parseInt\<close> in base ten). A character is one code unit below 256.
\<close>

section \<open>Digits\<close>

definition digit_char :: "nat \<Rightarrow> char" where
  "digit_char n = char_of (48 + n)"

definition digit_val :: "char \<Rightarrow> nat" where
  "digit_val c = of_char c - 48"

definition is_digit :: "char \<Rightarrow> bool" where
  "is_digit c \<longleftrightarrow> 48 \<le> (of_char c :: nat) \<and> (of_char c :: nat) \<le> 57"

fun dec :: "nat \<Rightarrow> string" where
  "dec n = (if n < 10 then [digit_char n] else dec (n div 10) @ [digit_char (n mod 10)])"

declare dec.simps [simp del]

definition dec_int :: "int \<Rightarrow> string" where
  "dec_int i = (if i < 0 then CHR ''-'' # dec (nat (- i)) else dec (nat i))"

definition dec_val :: "string \<Rightarrow> nat" where
  "dec_val s = foldl (\<lambda>n c. 10 * n + digit_val c) 0 s"

definition pad2 :: "int \<Rightarrow> string" where
  "pad2 i = (let s = dec_int i in if length s < 2 then CHR ''0'' # s else s)"

section \<open>Methods\<close>

definition js_space :: "char \<Rightarrow> bool" where
  "js_space c \<longleftrightarrow> (let n = of_char c :: nat in 9 \<le> n \<and> n \<le> 13 \<or> n = 32 \<or> n = 160)"

definition js_trim :: "string \<Rightarrow> string" where
  "js_trim s = rev (dropWhile js_space (rev (dropWhile js_space s)))"

definition js_lower_char :: "char \<Rightarrow> char" where
  "js_lower_char c =
     (let n = of_char c :: nat in
      if 65 \<le> n \<and> n \<le> 90 \<or> 192 \<le> n \<and> n \<le> 222 \<and> n \<noteq> 215 then char_of (n + 32) else c)"

definition js_lower :: "string \<Rightarrow> string" where
  "js_lower s = map js_lower_char s"

fun js_split :: "char \<Rightarrow> string \<Rightarrow> string list" where
  "js_split sep [] = [[]]"
| "js_split sep (c # s) =
     (case js_split sep s of
        [] \<Rightarrow> [[c]]
      | w # ws \<Rightarrow> if c = sep then [] # w # ws else (c # w) # ws)"

fun js_index_of :: "char \<Rightarrow> string \<Rightarrow> nat option" where
  "js_index_of c [] = None"
| "js_index_of c (e # s) = (if e = c then Some 0 else map_option Suc (js_index_of c s))"

text \<open>\<open>s.includes(p)\<close>, which an unanchored regular expression without operators tests too.\<close>

fun js_includes :: "string \<Rightarrow> string \<Rightarrow> bool" where
  "js_includes p [] = (p = [])"
| "js_includes p (c # s) = (take (length p) (c # s) = p \<or> js_includes p s)"

text \<open>\<open>toUpperCase\<close>; characters without an upper case below 256 are left alone, and one has two.\<close>

definition js_upper :: "string \<Rightarrow> string" where
  "js_upper s = concat (map (\<lambda>c. let n = of_char c :: nat in
     if 97 \<le> n \<and> n \<le> 122 \<or> 224 \<le> n \<and> n \<le> 254 \<and> n \<noteq> 247 then [char_of (n - 32)]
     else if n = 223 then ''SS'' else [c]) s)"

text \<open>\<open>Number.parseInt(s, 10)\<close>: blanks, a sign, the longest run of digits; \<open>NaN\<close> without one.\<close>

definition js_parse_int :: "string \<Rightarrow> jsnum" where
  "js_parse_int s =
     (let s1 = dropWhile js_space s;
          neg = (s1 \<noteq> [] \<and> hd s1 = CHR ''-'');
          s2 = (if s1 \<noteq> [] \<and> (hd s1 = CHR ''-'' \<or> hd s1 = CHR ''+'') then tl s1 else s1);
          ds = takeWhile is_digit s2
      in if ds = [] then NaN
         else if dec_val ds = 0 then (if neg then NegZero else Fin 0)
         else round64 (of_int ((if neg then - 1 else 1) * int (dec_val ds))))"

section \<open>Decimal strings\<close>

lemma digit_char_simps [simp]:
  assumes "n < 10"
  shows "digit_val (digit_char n) = n" "is_digit (digit_char n)"
proof -
  have "of_char (char_of (48 + n) :: char) = 48 + n" using assms by (simp add: of_char_of)
  then show "digit_val (digit_char n) = n" "is_digit (digit_char n)"
    using assms by (simp_all add: digit_val_def digit_char_def is_digit_def)
qed

lemma is_digit_val: "is_digit c \<Longrightarrow> digit_val c < 10"
  unfolding is_digit_def digit_val_def by linarith

lemma is_digit_char: "is_digit c \<Longrightarrow> digit_char (digit_val c) = c"
  by (simp add: is_digit_def digit_val_def digit_char_def)

lemma dec_val_Nil [simp]: "dec_val [] = 0"
  by (simp add: dec_val_def)

lemma dec_val_snoc [simp]: "dec_val (s @ [c]) = 10 * dec_val s + digit_val c"
  by (simp add: dec_val_def)

lemma dec_val_dec [simp]: "dec_val (dec n) = n"
proof (induction n rule: dec.induct)
  case (1 n)
  then show ?case
    using dec_val_snoc [of "[]" "digit_char n"] by (subst dec.simps) auto
qed

lemma dec_digits [simp]: "list_all is_digit (dec n)"
proof (induction n rule: dec.induct)
  case (1 n)
  then show ?case by (subst dec.simps) auto
qed

lemma dec_length:
  "10 ^ k \<le> n \<Longrightarrow> n < 10 ^ Suc k \<Longrightarrow> length (dec n) = Suc k"
proof (induction k arbitrary: n)
  case 0
  then show ?case by (subst dec.simps) simp
next
  case (Suc k)
  then have "length (dec (n div 10)) = Suc k"
    by (intro Suc.IH) (simp_all add: less_mult_imp_div_less algebra_simps)
  moreover have "\<not> n < 10"
    using Suc.prems(1) one_le_power [of "10::nat" k] unfolding power_Suc by linarith
  ultimately show ?case by (subst dec.simps) simp
qed

lemma dec_val_less: "list_all is_digit s \<Longrightarrow> dec_val s < 10 ^ length s"
proof (induction s rule: rev_induct)
  case (snoc c s)
  then have "dec_val s < 10 ^ length s" "digit_val c < 10" by (auto intro: is_digit_val)
  then show ?case by simp
qed simp

lemma dec_val_inj:
  "length s = length t \<Longrightarrow> list_all is_digit s \<Longrightarrow> list_all is_digit t \<Longrightarrow> dec_val s = dec_val t \<Longrightarrow> s = t"
proof (induction s arbitrary: t rule: rev_induct)
  case (snoc c s)
  then obtain t' e where t: "t = t' @ [e]" by (cases t rule: rev_cases) auto
  from snoc.prems t have d: "digit_val c < 10" "digit_val e < 10" "is_digit c" "is_digit e"
    by (auto intro: is_digit_val)
  from snoc.prems t have "10 * dec_val s + digit_val c = 10 * dec_val t' + digit_val e" by simp
  with d have "digit_val c = digit_val e" "dec_val s = dec_val t'" by presburger+
  with snoc t d show ?case by (metis is_digit_char length_append_singleton list_all_append nat.inject)
qed simp

lemma pad2_digits:
  assumes "0 \<le> i" "i < 100"
  shows "length (pad2 i) = 2" "list_all is_digit (pad2 i)" "int (dec_val (pad2 i)) = i"
proof -
  have dec: "dec_int i = dec (nat i)" using assms by (simp add: dec_int_def)
  have z: "is_digit (CHR ''0'')" "digit_val (CHR ''0'') = 0" by (simp_all add: is_digit_def digit_val_def)
  have "length (pad2 i) = 2 \<and> list_all is_digit (pad2 i) \<and> int (dec_val (pad2 i)) = i"
  proof (cases "i < 10")
    case True
    then have "dec (nat i) = [digit_char (nat i)]" using assms by (subst dec.simps) auto
    moreover have "dec_val [CHR ''0'', digit_char (nat i)] = nat i"
      using dec_val_snoc [of "[CHR ''0'']" "digit_char (nat i)"] dec_val_snoc [of "[]" "CHR ''0''"] True assms z
      by simp
    ultimately show ?thesis using True assms z by (simp add: pad2_def dec Let_def)
  next
    case False
    then have "length (dec (nat i)) = 2" using assms dec_length [of 1 "nat i"] by simp
    then show ?thesis using assms by (simp add: pad2_def dec Let_def)
  qed
  then show "length (pad2 i) = 2" "list_all is_digit (pad2 i)" "int (dec_val (pad2 i)) = i" by auto
qed

lemma year4_digits:
  assumes "1000 \<le> y" "y \<le> 9999"
  shows "length (dec_int y) = 4" "list_all is_digit (dec_int y)" "int (dec_val (dec_int y)) = y"
  using assms dec_length [of 3 "nat y"] by (simp_all add: dec_int_def)

section \<open>The order of digit strings\<close>

lemma append_less_append:
  fixes a b c d :: "'a::linorder list"
  shows "length a = length c \<Longrightarrow> a @ b < c @ d \<longleftrightarrow> a < c \<or> a = c \<and> b < d"
  by (induction a c rule: list_induct2) auto

lemma dec_val_Cons: "dec_val (c # s) = digit_val c * 10 ^ length s + dec_val s"
proof (induction s rule: rev_induct)
  case Nil
  show ?case using dec_val_snoc [of "[]" c] by simp
next
  case (snoc e s)
  have "dec_val (c # s @ [e]) = 10 * dec_val (c # s) + digit_val e"
    using dec_val_snoc [of "c # s" e] by simp
  with snoc show ?case by (simp add: algebra_simps)
qed

lemma digit_less: "is_digit c \<Longrightarrow> is_digit e \<Longrightarrow> c < e \<longleftrightarrow> digit_val c < digit_val e"
  by (auto simp: less_char_def digit_val_def is_digit_def)

lemma dec_val_order:
  "length s = length t \<Longrightarrow> list_all is_digit s \<Longrightarrow> list_all is_digit t \<Longrightarrow>
     s < t \<longleftrightarrow> dec_val s < dec_val t"
proof (induction s t rule: list_induct2)
  case (Cons c s e t)
  let ?N = "10 ^ length s :: nat"
  have l: "dec_val s < ?N" "dec_val t < ?N" using Cons dec_val_less [of s] dec_val_less [of t] by auto
  have lt: "digit_val a * ?N + u < digit_val b * ?N + v" if "digit_val a < digit_val b" "u < ?N" for a b u v
  proof -
    have "digit_val a * ?N + u < (digit_val a + 1) * ?N" using that by simp
    also have "\<dots> \<le> digit_val b * ?N" using that by (intro mult_right_mono) simp_all
    finally show ?thesis by simp
  qed
  have ce: "is_digit c" "is_digit e" using Cons.prems by auto
  consider "digit_val c < digit_val e" | "digit_val e < digit_val c" | "c = e"
    using ce by (metis is_digit_char nat_neq_iff)
  then show ?case
    using Cons l ce lt [of c e "dec_val s" "dec_val t"] lt [of e c "dec_val t" "dec_val s"]
    by cases (auto simp: dec_val_Cons digit_less)
qed simp

end
