(* ===== verification/Money.thy ===== *)
theory Money
  imports JsValue
begin

text \<open>
  \<open>finance-dashboard/lib/domain/money.js\<close> and \<open>forecast-money.js\<close>: dollar amounts are
  binary64 numbers, all arithmetic is on integer cents. Cents are \<^typ>\<open>int\<close> with the
  safe-integer checks of the code written out.
\<close>

section \<open>Definitions\<close>

definition toCents_num :: "jsnum \<Rightarrow> int res" where
  "toCents_num v =
     (if \<not> js_is_finite v then Inl (TypeError ''money value must be a finite number'')
      else if v = NegZero then Inl (RangeError ''money value must not be negative zero'')
      else let cents = js_round (js_mul v (Fin 100)) in
           if \<not> js_safe_integer cents
           then Inl (RangeError ''money value is outside the safe integer range'')
           else if js_div cents (Fin 100) \<noteq> v
           then Inl (RangeError ''money value has more than two decimal places'')
           else Inr (js_to_int cents))"

fun toCents :: "jsval \<Rightarrow> int res" where
  "toCents (JNum v) = toCents_num v"
| "toCents _ = Inl (TypeError ''money value must be a finite number'')"

definition fromCents_num :: "jsnum \<Rightarrow> jsnum res" where
  "fromCents_num c =
     (if \<not> js_safe_integer c then Inl (TypeError ''cents must be a safe integer'')
      else Inr (js_div c (Fin 100)))"

definition fromCents :: "int \<Rightarrow> jsnum res" where
  "fromCents c = fromCents_num (js_of_int c)"

text \<open>\<open>values.reduce\<close> with its two checks, the accumulator first.\<close>

fun sum_from :: "int \<Rightarrow> int list \<Rightarrow> int res" where
  "sum_from acc [] = Inr acc"
| "sum_from acc (v # vs) =
     (if \<not> safe_int v then Inl (TypeError ''cents must be safe integers'')
      else if \<not> safe_int (acc + v)
           then Inl (RangeError ''cent sum is outside the safe integer range'')
      else sum_from (acc + v) vs)"

definition sumCents :: "int list \<Rightarrow> int res" where
  "sumCents values = sum_from 0 values"

definition roundDollars :: "jsnum \<Rightarrow> jsnum res" where
  "roundDollars v = fromCents_num (js_round (js_mul v (Fin 100)))"

text \<open>\<open>forecast-money.js\<close>: every failure becomes one validation error.\<close>

definition forecast_money_error :: js_error where
  "forecast_money_error = AppError ''FORECAST_MONEY_INVALID'' 400"

fun requireForecastMoneyCents :: "jsval \<Rightarrow> int res" where
  "requireForecastMoneyCents (JNum v) =
     (if \<not> js_is_finite v then Inl forecast_money_error
      else case toCents_num v of Inl _ \<Rightarrow> Inl forecast_money_error | Inr c \<Rightarrow> Inr c)"
| "requireForecastMoneyCents _ = Inl forecast_money_error"

definition sumOperatingCashBalanceCents :: "jsval list \<Rightarrow> int res" where
  "sumOperatingCashBalanceCents balances =
     ebind (emap requireForecastMoneyCents balances)
       (\<lambda>cs. case sumCents cs of Inl _ \<Rightarrow> Inl forecast_money_error | Inr c \<Rightarrow> Inr c)"

definition forecastIncomeEventCents :: "jsnum \<Rightarrow> int res" where
  "forecastIncomeEventCents amountDollars = requireForecastMoneyCents (JNum (js_abs amountDollars))"

definition forecastBillEventCents :: "jsnum \<Rightarrow> int res" where
  "forecastBillEventCents amountDollars =
     ebind (requireForecastMoneyCents (JNum (js_abs amountDollars))) (\<lambda>c. Inr (- c))"

section \<open>Addition of numbers\<close>

definition js_add :: "jsnum \<Rightarrow> jsnum \<Rightarrow> jsnum" where
  "js_add a b =
     (if a = NaN \<or> b = NaN then NaN
      else if js_is_inf a then (if js_is_inf b \<and> a \<noteq> b then NaN else a)
      else if js_is_inf b then b
      else if js_is_zero a \<and> js_is_zero b then js_zero (js_neg_sign a \<and> js_neg_sign b)
      else round64 (js_val a + js_val b))"

fun js_neg :: "jsnum \<Rightarrow> jsnum" where
  "js_neg (Fin q) = (if q = 0 then NegZero else Fin (- q))"
| "js_neg NegZero = Fin 0"
| "js_neg PosInf = NegInf"
| "js_neg NegInf = PosInf"
| "js_neg NaN = NaN"

definition js_sub :: "jsnum \<Rightarrow> jsnum \<Rightarrow> jsnum" where
  "js_sub a b = js_add a (js_neg b)"

section \<open>Sums\<close>

lemma sum_from_Inr: "sum_from t vs = Inr r \<Longrightarrow> r = t + sum_list vs"
  by (induction t vs rule: sum_from.induct) (auto split: if_splits)

lemma sum_from_Inr_iff:
  "sum_from t vs = Inr r \<longleftrightarrow>
     r = t + sum_list vs \<and> (\<forall>v\<in>set vs. safe_int v) \<and>
     (\<forall>n\<le>length vs. 0 < n \<longrightarrow> safe_int (t + sum_list (take n vs)))"
proof (induction vs arbitrary: t)
  case (Cons v vs)
  have "(\<forall>n\<le>length (v # vs). 0 < n \<longrightarrow> safe_int (t + sum_list (take n (v # vs)))) \<longleftrightarrow>
      safe_int (t + v) \<and> (\<forall>n\<le>length vs. 0 < n \<longrightarrow> safe_int (t + v + sum_list (take n vs)))"
    (is "?l \<longleftrightarrow> ?r")
  proof
    assume l: ?l
    from l have "safe_int (t + v)" by (auto dest: spec [of _ 1])
    moreover have "safe_int (t + v + sum_list (take n vs))" if "n \<le> length vs" for n
      using l [THEN spec, of "Suc n"] that by (simp add: add.assoc)
    ultimately show ?r by blast
  next
    assume r: ?r
    show ?l
    proof (intro allI impI)
      fix n assume "n \<le> length (v # vs)" "0 < n"
      then obtain m where "n = Suc m" "m \<le> length vs" by (cases n) auto
      with r show "safe_int (t + sum_list (take n (v # vs)))"
        by (cases "m = 0") (auto simp: add.assoc)
    qed
  qed
  with Cons.IH [of "t + v"] show ?case by (auto simp: add.assoc)
qed auto

lemma sumCents_Inr: "sumCents vs = Inr r \<Longrightarrow> r = sum_list vs"
  by (auto simp: sumCents_def dest!: sum_from_Inr)

lemma sumCents_safe: "sumCents vs = Inr r \<Longrightarrow> safe_int r"
  by (cases "vs = []") (auto simp: sumCents_def sum_from_Inr_iff safe_int_def max_safe_def)

text \<open>A sum of same-signed terms succeeds exactly when its total is safe.\<close>

lemma sumCents_nonneg:
  assumes "\<forall>v\<in>set vs. 0 \<le> v" "safe_int (sum_list vs)"
  shows "sumCents vs = Inr (sum_list vs)"
proof -
  have le: "0 \<le> sum_list (take n vs) \<and> sum_list (take n vs) \<le> sum_list vs" for n
  proof -
    have "sum_list vs = sum_list (take n vs) + sum_list (drop n vs)"
      by (metis append_take_drop_id sum_list_append)
    moreover have "0 \<le> sum_list (take n vs)" "0 \<le> sum_list (drop n vs)"
      using assms(1) by (auto intro!: sum_list_nonneg dest: in_set_takeD in_set_dropD)
    ultimately show ?thesis by linarith
  qed
  have "v \<le> sum_list vs" if "v \<in> set vs" for v
    using that assms(1) by (auto intro: member_le_sum_list)
  with assms le show ?thesis
    by (auto simp: sumCents_def sum_from_Inr_iff safe_int_def) (metis abs_of_nonneg order_trans)+
qed

section \<open>Cents and dollars\<close>

lemma js_mul_Fin [simp]:
  "x \<noteq> 0 \<Longrightarrow> y \<noteq> 0 \<Longrightarrow> js_mul (Fin x) (Fin y) = round64 (x * y)"
  by (simp add: js_mul_def)

lemma js_div_Fin [simp]:
  "x \<noteq> 0 \<Longrightarrow> y \<noteq> 0 \<Longrightarrow> js_div (Fin x) (Fin y) = round64 (x / y)"
  by (simp add: js_div_def)

lemma toCents_num_Inr_iff:
  "toCents_num v = Inr c \<longleftrightarrow>
     js_is_finite v \<and> v \<noteq> NegZero \<and> js_safe_integer (js_round (js_mul v (Fin 100))) \<and>
     js_div (js_round (js_mul v (Fin 100))) (Fin 100) = v \<and> c = js_to_int (js_round (js_mul v (Fin 100)))"
  by (auto simp: toCents_num_def Let_def)



text \<open>Whole dollars of a safe magnitude are exact.\<close>

lemma round64_of_int:
  assumes "\<bar>c\<bar> < 2 ^ 53"
  shows "round64 (of_int c) = Fin (of_int c)"
proof (cases "c = 0")
  case False
  have "(2::rat) powi (- 1022) \<le> 2 powi 0" by (simp only: powi_mono_le)
  also have "\<dots> \<le> \<bar>of_int c\<bar>" using False by (simp flip: of_int_abs)
  finally have lo: "(2::rat) powi (- 1022) \<le> \<bar>of_int c\<bar>" .
  have "\<bar>of_int c :: rat\<bar> < 2 ^ 53" using assms of_int_less_iff [where 'a = rat, of "\<bar>c\<bar>" "2 ^ 53"] by simp
  also have "(2::rat) ^ 53 \<le> 2 powi 1000"
    using powi_mono_le [of 53 1000] by (simp add: power_int_def del: powi_mono_le)
  finally show ?thesis using round64_normal [OF lo] round_rat_of_int [OF assms] by simp
qed (simp add: round64_def Let_def)

lemma js_add_exact:
  assumes "js_safe_integer x" "safe_int a" "safe_int (a + js_to_int x)"
  shows "js_add (js_of_int a) x = js_of_int (a + js_to_int x)"
proof -
  have x: "x = NegZero \<or> (\<exists>z. x = Fin (of_int z))" using assms(1) by (cases x) auto
  have "round64 (of_int (a + js_to_int x)) = Fin (of_int (a + js_to_int x))"
    using assms(3) by (intro round64_of_int) (simp add: safe_int_def max_safe_def)
  then show ?thesis using x by (auto simp: js_add_def js_zero_def)
qed

lemma js_neg_safe: "js_safe_integer x \<Longrightarrow> js_safe_integer (js_neg x) \<and> js_to_int (js_neg x) = - js_to_int x"
proof (cases x)
  case (Fin q)
  assume "js_safe_integer x"
  then obtain z where "q = of_int z" "safe_int z" using Fin by auto
  then show ?thesis using Fin by (auto simp: safe_int_def simp flip: of_int_minus)
qed (auto simp: safe_int_def max_safe_def)

lemma js_sub_exact:
  assumes "js_safe_integer x" "safe_int a" "safe_int (a - js_to_int x)"
  shows "js_sub (js_of_int a) x = js_of_int (a - js_to_int x)"
  using js_add_exact [of "js_neg x" a] js_neg_safe [OF assms(1)] assms by (simp add: js_sub_def)

lemma toCents_whole:
  assumes "\<bar>100 * d\<bar> < 2 ^ 53"
  shows "toCents_num (Fin (of_int d)) = Inr (100 * d)"
proof (cases "d = 0")
  case False
  have m: "js_mul (Fin (of_int d)) (Fin 100) = Fin (of_int (100 * d))"
    using False round64_of_int [OF assms] by (simp add: mult.commute)
  have q: "js_div (Fin (of_int (100 * d))) (Fin 100) = Fin (of_int d)"
    using False round64_of_int [of d] assms by simp
  have "js_round (Fin (of_int (100 * d))) = Fin (of_int (100 * d))"
  proof -
    have "\<lfloor>of_int c + 1/2 :: rat\<rfloor> = c" for c :: int by linarith
    from this [of "100 * d"] show ?thesis using False by (simp add: Let_def del: of_int_mult)
  qed
  with m q assms show ?thesis by (simp add: toCents_num_def Let_def safe_int_def max_safe_def del: of_int_mult)
qed (simp add: toCents_num_def js_mul_def js_zero_def js_div_def safe_int_def max_safe_def Let_def
    floor_eq_iff)

lemma round_near_int:
  fixes s :: rat
  assumes "\<bar>s - of_int c\<bar> < 1/2"
  shows "\<lfloor>s + 1/2\<rfloor> = c"
  using assms by (intro floor_unique) linarith+

lemma cents_error:
  fixes c :: int
  assumes "c \<noteq> 0" "\<bar>c\<bar> < 2 ^ 51"
  defines "x \<equiv> (of_int c / 100 :: rat)"
  shows "round64 x = Fin (round_rat x)" "round_rat x \<noteq> 0"
    and "\<bar>round_rat (round_rat x * 100) - of_int c\<bar> < 1/2"
    and "round64 (round_rat x * 100) = Fin (round_rat (round_rat x * 100))"
proof -
  let ?u = "2 powi (- 53) :: rat"
  have u: "?u = 1 / 2 ^ 53" by (simp add: power_int_def power_divide)
  have c1: "1 \<le> \<bar>of_int c :: rat\<bar>" using assms(1) by (simp flip: of_int_abs)
  have c51: "\<bar>of_int c :: rat\<bar> \<le> 2 ^ 51 - 1"
  proof -
    have "\<bar>c\<bar> \<le> 2 ^ 51 - 1" using assms(2) by simp
    then have "(of_int \<bar>c\<bar> :: rat) \<le> of_int (2 ^ 51 - 1)" by (simp only: of_int_le_iff)
    then show ?thesis by simp
  qed
  have small: "(2::rat) powi (- 1022) \<le> 1 / 256"
    using powi_mono_le [of "- 1022" "- 8"] by (simp add: power_int_def power_divide del: powi_mono_le)
  have big: "(2::rat) ^ 59 \<le> 2 powi 1000"
    using powi_mono_le [of 59 1000] by (simp add: power_int_def del: powi_mono_le)
  have xlo: "1 / 100 \<le> \<bar>x\<bar>" and xhi: "\<bar>x\<bar> < 2 ^ 59" using c1 c51 by (auto simp: x_def abs_divide)
  have n1: "2 powi (- 1022) \<le> \<bar>x\<bar>" "\<bar>x\<bar> < 2 powi 1000"
    using xlo small less_le_trans [OF xhi big] by linarith+
  show r1: "round64 x = Fin (round_rat x)" by (rule round64_normal [OF n1])
  have e1: "\<bar>round_rat x - x\<bar> \<le> \<bar>x\<bar> * ?u" by (rule round_rat_relative_error [OF n1(1)])
  then have e1': "\<bar>round_rat x - x\<bar> \<le> \<bar>x\<bar> / 2 ^ 53" by (simp add: u)
  let ?y = "round_rat x * 100"
  have "?y - of_int c = (round_rat x - x) * 100" by (simp add: x_def algebra_simps)
  then have "\<bar>?y - of_int c\<bar> = \<bar>round_rat x - x\<bar> * 100" by (simp only: abs_mult abs_numeral)
  moreover have "\<bar>x\<bar> * 100 = \<bar>of_int c :: rat\<bar>" by (simp add: x_def abs_divide)
  ultimately have e2: "\<bar>?y - of_int c\<bar> \<le> \<bar>of_int c\<bar> / 2 ^ 53" using e1' by simp
  have q: "\<bar>of_int c :: rat\<bar> / 2 ^ 53 \<le> (2 ^ 51 - 1) / 2 ^ 53" using c51 by (rule divide_right_mono) simp
  then have "\<bar>?y - of_int c\<bar> \<le> 1/4" using e2 by simp
  then have ylo: "1 / 2 \<le> \<bar>?y\<bar>" and yhi: "\<bar>?y\<bar> \<le> 2 ^ 51" using c1 c51 by linarith+
  then show "round_rat x \<noteq> 0" by auto
  from yhi have "\<bar>?y\<bar> < 2 ^ 59" by simp
  from less_le_trans [OF this big] ylo small
  have n2: "2 powi (- 1022) \<le> \<bar>?y\<bar>" "\<bar>?y\<bar> < 2 powi 1000" by linarith+
  show "round64 ?y = Fin (round_rat ?y)" by (rule round64_normal [OF n2])
  have "\<bar>round_rat ?y - ?y\<bar> \<le> \<bar>?y\<bar> * ?u" by (rule round_rat_relative_error [OF n2(1)])
  then have "\<bar>round_rat ?y - ?y\<bar> \<le> \<bar>?y\<bar> / 2 ^ 53" by (simp add: u)
  moreover have "\<bar>?y\<bar> \<le> \<bar>of_int c\<bar> + \<bar>of_int c\<bar> / 2 ^ 53" using e2 by linarith
  ultimately have "\<bar>round_rat ?y - ?y\<bar> \<le> (\<bar>of_int c\<bar> + \<bar>of_int c\<bar> / 2 ^ 53) / 2 ^ 53" by simp
  also have "\<dots> \<le> (2 ^ 51 - 1 + (2 ^ 51 - 1) / 2 ^ 53) / 2 ^ 53"
    using c51 q by (intro divide_right_mono add_mono) simp_all
  finally have "\<bar>round_rat ?y - of_int c\<bar> \<le>
      (2 ^ 51 - 1 + (2 ^ 51 - 1) / 2 ^ 53) / 2 ^ 53 + (2 ^ 51 - 1) / 2 ^ 53"
    using order_trans [OF e2 q] by linarith
  also have "\<dots> < 1/2" by simp
  finally show "\<bar>round_rat ?y - of_int c\<bar> < 1/2" .
qed

lemma cents_roundtrip:
  assumes "\<bar>c\<bar> < 2 ^ 51"
  shows "\<exists>d. fromCents c = Inr d \<and> toCents (JNum d) = Inr c"
proof (cases "c = 0")
  case True
  have "\<lfloor>1 / 2 :: rat\<rfloor> = 0" by (simp add: floor_eq_iff)
  with True show ?thesis
    by (simp add: Let_def fromCents_def fromCents_num_def safe_int_def max_safe_def toCents_num_def
        js_mul_def js_div_def js_zero_def)
next
  case False
  let ?x = "of_int c / 100 :: rat" and ?r = "round_rat (of_int c / 100)"
  note e = cents_error [OF False assms]
  have safe: "safe_int c" using assms by (simp add: safe_int_def max_safe_def)
  have d: "js_div (Fin (of_int c)) (Fin 100) = Fin ?r" using False e(1) by simp
  have m: "js_mul (Fin ?r) (Fin 100) = Fin (round_rat (?r * 100))" using e(2,4) by simp
  have "js_round (Fin (round_rat (?r * 100))) = Fin (of_int c)"
    using round_near_int [OF e(3)] False by (simp add: Let_def)
  then have "toCents_num (Fin ?r) = Inr c"
    by (simp only: toCents_num_def m d) (simp add: safe d)
  with d safe show ?thesis by (auto simp: fromCents_def fromCents_num_def)
qed

text \<open>
  C31: round trip of the double representation: for every amount below \<open>2 ^ 51\<close> cents (more
  than twenty-two trillion dollars) \<open>toCents\<close> accepts what \<open>fromCents\<close> produced and returns
  the same cents, with both the division and the multiplication rounded to binary64.
\<close>

theorem toCents_fromCents:
  assumes "\<bar>c\<bar> < 2 ^ 51"
  shows "\<exists>d. fromCents c = Inr d \<and> toCents (JNum d) = Inr c"
  using assms by (rule cents_roundtrip)

theorem toCents_fromCents_witness:
  "\<exists>d. fromCents 123456 = Inr d \<and> toCents (JNum d) = Inr 123456"
  by (rule toCents_fromCents) simp

text \<open>
  the safe-integer guard alone does not make dollars faithful: above \<open>2 ^ 52\<close> cents two
  consecutive safe amounts print as the same double, so one of them is lost on the way back.
\<close>

theorem fromCents_collision:
  "safe_int 9007199254740973 \<and> safe_int 9007199254740974 \<and>
   fromCents 9007199254740973 = fromCents 9007199254740974"
proof -
  have "round_rat (9007199254740973 / 100) = of_int 5764607523034223 * 2 powi (46 - 52)"
    "round_rat (9007199254740974 / 100) = of_int 5764607523034223 * 2 powi (46 - 52)"
    by (rule round_rat_evalI; simp add: power_int_def power_divide)+
  then have "round64 (9007199254740973 / 100) = round64 (9007199254740974 / 100)"
    by (simp add: round64_def)
  then show ?thesis
    by (simp add: safe_int_def max_safe_def fromCents_def fromCents_num_def)
qed
end
