(* ===== verification/DateOnly.thy ===== *)
theory DateOnly
  imports JsString
begin

text \<open>
  \<open>finance-dashboard/lib/date-only.js\<close>: calendar dates as \<open>YYYY-MM-DD\<close> strings. The
  calendar of \<open>Date\<close> (the proleptic Gregorian one of ECMAScript: \<open>DayFromYear\<close>,
  \<open>MonthFromTime\<close>, \<open>MakeDay\<close>) is defined first, then the string functions over it. Day
  numbers count from 1970-01-01; dates outside the range of \<open>Date\<close> (a hundred million
  days) are not distinguished.
\<close>

section \<open>The calendar of ECMAScript\<close>

definition day_from_year :: "int \<Rightarrow> int" where
  "day_from_year y =
     365 * (y - 1970) + (y - 1969) div 4 - (y - 1901) div 100 + (y - 1601) div 400"

definition leap_year :: "int \<Rightarrow> bool" where
  "leap_year y \<longleftrightarrow> y mod 4 = 0 \<and> (y mod 100 \<noteq> 0 \<or> y mod 400 = 0)"

definition leap_day :: "bool \<Rightarrow> int" where
  "leap_day l = (if l then 1 else 0)"

text \<open>First day of month \<open>m\<close> (from 0) within its year, and the month of a day of the year.\<close>

definition month_start :: "bool \<Rightarrow> int \<Rightarrow> int" where
  "month_start l m =
     (if m \<le> 0 then 0 else if m = 1 then 31
      else (if m = 2 then 59 else if m = 3 then 90 else if m = 4 then 120
        else if m = 5 then 151 else if m = 6 then 181 else if m = 7 then 212
        else if m = 8 then 243 else if m = 9 then 273 else if m = 10 then 304
        else if m = 11 then 334 else 365) + leap_day l)"

definition month_of :: "bool \<Rightarrow> int \<Rightarrow> int" where
  "month_of l d =
     (if d < 31 then 0
      else let e = d - leap_day l in
        if e < 59 then 1 else if e < 90 then 2 else if e < 120 then 3 else if e < 151 then 4
        else if e < 181 then 5 else if e < 212 then 6 else if e < 243 then 7
        else if e < 273 then 8 else if e < 304 then 9 else if e < 334 then 10 else 11)"

text \<open>The year of a day number: an estimate from the mean year, off by at most one.\<close>

definition year_of_day :: "int \<Rightarrow> int" where
  "year_of_day n =
     (let y = 1970 + (400 * n) div 146097 in
      if n < day_from_year y then y - 1
      else if day_from_year (y + 1) \<le> n then y + 1
      else y)"

definition civil_of_day :: "int \<Rightarrow> int \<times> int \<times> int" where
  "civil_of_day n =
     (let y = year_of_day n; d = n - day_from_year y; m = month_of (leap_year y) d in
      (y, m, d - month_start (leap_year y) m + 1))"

text \<open>\<open>MakeDay\<close>, and \<open>Date.UTC\<close> with its reading of the years 0 to 99 as 1900 to 1999.\<close>

definition make_day :: "int \<Rightarrow> int \<Rightarrow> int \<Rightarrow> int" where
  "make_day y m d =
     (let ym = y + m div 12; mn = m mod 12 in
      day_from_year ym + month_start (leap_year ym) mn + d - 1)"

definition date_utc :: "int \<Rightarrow> int \<Rightarrow> int \<Rightarrow> int" where
  "date_utc y m d = make_day (if 0 \<le> y \<and> y \<le> 99 then 1900 + y else y) m d"

section \<open>The functions of date-only.js\<close>

record ymd =
  ymd_year :: int
  ymd_month :: int
  ymd_day :: int
  ymd_date :: int

definition parseYMD :: "string \<Rightarrow> ymd res" where
  "parseYMD s =
     (if length s = 10 \<and> s ! 4 = CHR ''-'' \<and> s ! 7 = CHR ''-'' \<and>
         list_all is_digit (take 4 s @ take 2 (drop 5 s) @ drop 8 s)
      then let year = int (dec_val (take 4 s)); month = int (dec_val (take 2 (drop 5 s)));
               day = int (dec_val (drop 8 s));
               date = date_utc year (month - 1) day;
               (y, m, d) = civil_of_day date
           in if y \<noteq> year \<or> m \<noteq> month - 1 \<or> d \<noteq> day
              then Inl (PlainError ''date must be a real calendar date'')
              else Inr \<lparr>ymd_year = year, ymd_month = month, ymd_day = day, ymd_date = date\<rparr>
      else Inl (PlainError ''date must be YYYY-MM-DD''))"

definition isDateOnly :: "string \<Rightarrow> bool" where
  "isDateOnly s = (case parseYMD s of Inl _ \<Rightarrow> False | Inr _ \<Rightarrow> True)"

definition formatUTCDate :: "int \<Rightarrow> string" where
  "formatUTCDate n =
     (case civil_of_day n of (y, m, d) \<Rightarrow>
        dec_int y @ ''-'' @ pad2 (m + 1) @ ''-'' @ pad2 d)"

definition addDays :: "string \<Rightarrow> int \<Rightarrow> string res" where
  "addDays s n = ebind (parseYMD s) (\<lambda>p. Inr (formatUTCDate (ymd_date p + n)))"

definition last_day_of :: "int \<Rightarrow> int \<Rightarrow> int" where
  "last_day_of y m = (case civil_of_day (date_utc y (m + 1) 0) of (_, _, d) \<Rightarrow> d)"

definition addMonths :: "string \<Rightarrow> int \<Rightarrow> string res" where
  "addMonths s n = ebind (parseYMD s) (\<lambda>p.
     case civil_of_day (date_utc (ymd_year p) (ymd_month p - 1 + n) 1) of (ty, tm, _) \<Rightarrow>
       Inr (formatUTCDate (date_utc ty tm (min (ymd_day p) (last_day_of ty tm)))))"

definition daysBetween :: "string \<Rightarrow> string \<Rightarrow> int res" where
  "daysBetween a b = ebind (parseYMD a) (\<lambda>p. ebind (parseYMD b) (\<lambda>q. Inr (ymd_date q - ymd_date p)))"

definition monthStart :: "string \<Rightarrow> string res" where
  "monthStart s = ebind (parseYMD s) (\<lambda>p.
     Inr (dec_int (ymd_year p) @ ''-'' @ pad2 (ymd_month p) @ ''-01''))"

definition monthRange :: "int \<Rightarrow> int \<Rightarrow> string \<times> string \<times> string" where
  "monthRange year monthIndex =
     (let st = date_utc year monthIndex 1; en = date_utc year (monthIndex + 1) 0 in
      case civil_of_day st of (y, m, _) \<Rightarrow>
        (dec_int y @ ''-'' @ pad2 (m + 1), formatUTCDate st, formatUTCDate en))"

text \<open>The month functions share the \<open>YYYY-MM\<close> pattern.\<close>

definition parse_month :: "string \<Rightarrow> (int \<times> int) res" where
  "parse_month s =
     (if length s = 7 \<and> s ! 4 = CHR ''-'' \<and> list_all is_digit (take 4 s @ drop 5 s)
      then Inr (int (dec_val (take 4 s)), int (dec_val (drop 5 s)))
      else Inl (PlainError ''month must be YYYY-MM''))"

definition daysInMonth :: "string \<Rightarrow> int res" where
  "daysInMonth s = ebind (parse_month s) (\<lambda>(y, m).
     case civil_of_day (date_utc y m 0) of (_, _, d) \<Rightarrow> Inr d)"

definition monthEnd :: "string \<Rightarrow> string res" where
  "monthEnd s = ebind (parse_month s) (\<lambda>(y, m).
     case civil_of_day (date_utc y m 0) of (_, _, d) \<Rightarrow>
       Inr (dec_int y @ ''-'' @ pad2 m @ ''-'' @ pad2 d))"

definition shiftMonth :: "string \<Rightarrow> int \<Rightarrow> string res" where
  "shiftMonth s n = ebind (parse_month s) (\<lambda>(y, m).
     case civil_of_day (date_utc y (m - 1 + n) 1) of (ty, tm, _) \<Rightarrow>
       Inr (dec_int ty @ ''-'' @ pad2 (tm + 1)))"

definition startMonthsAgo :: "int \<Rightarrow> string \<Rightarrow> string res" where
  "startMonthsAgo months anchor =
     ebind (shiftMonth (take 7 anchor) (- (months - 1))) (\<lambda>m. Inr (m @ ''-01''))"

datatype reimb_window = Reimb_range string string string | Reimb_lifetime

definition reimbursementWindow :: "string \<Rightarrow> string \<Rightarrow> reimb_window res" where
  "reimbursementWindow rng anchor =
     (if rng = ''mtd'' then ebind (monthStart anchor) (\<lambda>f. Inr (Reimb_range f anchor ''This month''))
      else if rng = ''7d'' then ebind (addDays anchor (- 6)) (\<lambda>f. Inr (Reimb_range f anchor ''Last 7 days''))
      else if rng = ''30d'' then ebind (addDays anchor (- 29)) (\<lambda>f. Inr (Reimb_range f anchor ''Last 30 days''))
      else Inr Reimb_lifetime)"

section \<open>Calendar arithmetic\<close>

lemma div_succ:
  fixes a k :: int
  assumes "0 < k"
  shows "(a + 1) div k = a div k + (if (a + 1) mod k = 0 then 1 else 0)"
proof -
  have lt: "a mod k < k" "0 \<le> a mod k" using assms by simp_all
  show ?thesis
  proof (cases "a mod k + 1 = k")
    case True
    moreover have "k * (a div k + 1) = k * (a div k) + k" by (simp add: distrib_left)
    ultimately have "a + 1 = k * (a div k + 1)" using mult_div_mod_eq [of k a] by linarith
    with assms show ?thesis by simp
  next
    case False
    with lt have "0 \<le> a mod k + 1" "a mod k + 1 < k" by simp_all
    moreover have "a + 1 = k * (a div k) + (a mod k + 1)" using mult_div_mod_eq [of k a] by linarith
    ultimately have "(a + 1) div k = a div k" "(a + 1) mod k = a mod k + 1"
      using int_div_pos_eq [of "a + 1" k "a div k" "a mod k + 1"]
        int_mod_pos_eq [of "a + 1" k "a div k" "a mod k + 1"] by simp_all
    with lt show ?thesis by simp
  qed
qed

lemma leap_sum:
  fixes a b c y :: int
  assumes "P400 \<Longrightarrow> P100" "P100 \<Longrightarrow> P4"
  shows "365 * (y + 1 - 1970) + (a + (if P4 then 1 else 0)) - (b + (if P100 then 1 else 0)) +
      (c + (if P400 then 1 else 0)) =
    365 * (y - 1970) + a - b + c + 365 + (if P4 \<and> (\<not> P100 \<or> P400) then 1 else 0)"
  using assms by auto

lemma day_from_year_Suc:
  "day_from_year (y + 1) = day_from_year y + 365 + leap_day (leap_year y)"
proof -
  have e: "y + 1 - 1969 = y - 1969 + 1" "y + 1 - 1901 = y - 1901 + 1" "y + 1 - 1601 = y - 1601 + 1"
    "y - 1968 = y - 1969 + 1" "y - 1900 = y - 1901 + 1" "y - 1600 = y - 1601 + 1"
    by simp_all
  have s: "(y + 1 - 1969) div 4 = (y - 1969) div 4 + (if (y - 1968) mod 4 = 0 then 1 else 0)"
    "(y + 1 - 1901) div 100 = (y - 1901) div 100 + (if (y - 1900) mod 100 = 0 then 1 else 0)"
    "(y + 1 - 1601) div 400 = (y - 1601) div 400 + (if (y - 1600) mod 400 = 0 then 1 else 0)"
    unfolding e by (rule div_succ, simp only: zero_less_numeral)+
  have z: "y - 1968 + 492 * 4 = y" "y - 1900 + 19 * 100 = y" "y - 1600 + 4 * 400 = y" by simp_all
  have m: "(y - 1968) mod 4 = y mod 4" "(y - 1900) mod 100 = y mod 100" "(y - 1600) mod 400 = y mod 400"
    using mod_mult_self1 [of "y - 1968" 492 4] mod_mult_self1 [of "y - 1900" 19 100]
      mod_mult_self1 [of "y - 1600" 4 400] unfolding z by (simp_all only:)
  have "400 dvd y \<Longrightarrow> 100 dvd y" "100 dvd y \<Longrightarrow> 4 dvd y"
    by (rule dvd_trans [of _ 400], simp, assumption) (rule dvd_trans [of _ 100], simp, assumption)
  then have "y mod 400 = 0 \<Longrightarrow> y mod 100 = 0" "y mod 100 = 0 \<Longrightarrow> y mod 4 = 0"
    by (simp_all only: dvd_eq_mod_eq_0)
  then show ?thesis
    unfolding day_from_year_def leap_year_def leap_day_def s m by (rule leap_sum)
qed

lemma day_from_year_mono: "a < b \<Longrightarrow> day_from_year a + 365 \<le> day_from_year b"
proof (induction b rule: int_gr_induct)
  case base
  then show ?case using day_from_year_Suc [of a] by (simp add: leap_day_def split: if_splits)
next
  case (step b)
  then show ?case using day_from_year_Suc [of b] by (simp add: leap_day_def split: if_splits)
qed

lemma year_estimate:
  fixes n :: int
  defines "y \<equiv> 1970 + (400 * n) div 146097"
  shows "day_from_year (y - 1) \<le> n" "n < day_from_year (y + 2)"
proof -
  define q where "q = (400 * n) div 146097"
  have q: "146097 * q \<le> 400 * n" "400 * n < 146097 * q + 146097"
    using mult_div_mod_eq [of 146097 "400 * n"] pos_mod_bound [of 146097 "400 * n"]
      pos_mod_sign [of 146097 "400 * n"] by (auto simp: q_def)
  have b: "k * (a div k) \<le> a \<and> a < k * (a div k) + k" if "0 < k" for a k :: int
    using mult_div_mod_eq [of k a] pos_mod_bound [OF that, of a] pos_mod_sign [OF that, of a] by linarith
  have y: "y = 1970 + q" by (simp add: y_def q_def)
  show "day_from_year (y - 1) \<le> n"
    using q b [of 4 "y - 1 - 1969"] b [of 100 "y - 1 - 1901"] b [of 400 "y - 1 - 1601"]
    by (simp add: day_from_year_def y)
  show "n < day_from_year (y + 2)"
    using q b [of 4 "y + 2 - 1969"] b [of 100 "y + 2 - 1901"] b [of 400 "y + 2 - 1601"]
    by (simp add: day_from_year_def y)
qed

lemma year_of_day_bounds:
  "day_from_year (year_of_day n) \<le> n" "n < day_from_year (year_of_day n + 1)"
  using year_estimate [of n] by (auto simp: year_of_day_def Let_def add.commute)

lemma year_of_day_eq:
  assumes "day_from_year y \<le> n" "n < day_from_year (y + 1)"
  shows "year_of_day n = y"
proof (rule ccontr)
  assume "year_of_day n \<noteq> y"
  then consider "year_of_day n + 1 \<le> y" | "y + 1 \<le> year_of_day n" by linarith
  then show False
    using assms year_of_day_bounds [of n] day_from_year_mono [of "year_of_day n + 1" y]
      day_from_year_mono [of "y + 1" "year_of_day n"]
    by cases (force simp: le_less)+
qed

definition month_len :: "int \<Rightarrow> int \<Rightarrow> int" where
  "month_len y m = month_start (leap_year y) (m + 1) - month_start (leap_year y) m"

lemma month_cases:
  fixes m :: int
  assumes "0 \<le> m" "m \<le> 11"
  obtains "m = 0" | "m = 1" | "m = 2" | "m = 3" | "m = 4" | "m = 5"
  | "m = 6" | "m = 7" | "m = 8" | "m = 9" | "m = 10" | "m = 11"
proof -
  from assms have "m \<in> {0..11}" by simp
  also have "{0..11::int} = {0,1,2,3,4,5,6,7,8,9,10,11}" by (simp add: atLeastAtMost_insertL [symmetric] simp_from_to)
  finally show ?thesis using that by blast
qed

lemma month_of_bounds:
  assumes "0 \<le> d" "d < 365 + leap_day l"
  shows "0 \<le> month_of l d" "month_of l d \<le> 11"
    "month_start l (month_of l d) \<le> d" "d < month_start l (month_of l d + 1)"
  using assms by (auto simp: month_of_def month_start_def leap_day_def Let_def)

lemma month_of_eq:
  assumes "0 \<le> m" "m \<le> 11" "month_start l m \<le> d" "d < month_start l (m + 1)"
  shows "month_of l d = m"
  using assms(1,2)
  by (cases rule: month_cases; use assms(3,4) in
      \<open>simp add: month_of_def month_start_def leap_day_def Let_def split: if_splits\<close>)

lemma month_start_last: "month_start l 12 = 365 + leap_day l"
  by (simp add: month_start_def)

lemma month_start_le: "0 \<le> m \<Longrightarrow> m \<le> 11 \<Longrightarrow> month_start l (m + 1) \<le> month_start l 12"
  by (erule (1) month_cases) (simp_all add: month_start_def leap_day_def)

lemma month_len_bounds: "0 \<le> m \<Longrightarrow> m \<le> 11 \<Longrightarrow> 28 \<le> month_len y m \<and> month_len y m \<le> 31"
  by (auto elim!: month_cases simp: month_len_def month_start_def leap_day_def)

text \<open>A valid civil date, and the two directions of the correspondence with day numbers.\<close>

definition valid_civil :: "int \<Rightarrow> int \<Rightarrow> int \<Rightarrow> bool" where
  "valid_civil y m d \<longleftrightarrow> 0 \<le> m \<and> m \<le> 11 \<and> 1 \<le> d \<and> d \<le> month_len y m"

lemma make_day_civil:
  assumes "civil_of_day n = (y, m, d)"
  shows "make_day y m d = n" and "valid_civil y m d"
proof -
  let ?l = "leap_year y" and ?d = "n - day_from_year y"
  have y: "y = year_of_day n" and m: "m = month_of ?l ?d" and d: "d = ?d - month_start ?l m + 1"
    using assms by (auto simp: civil_of_day_def Let_def)
  have "0 \<le> ?d" "?d < 365 + leap_day ?l"
    using year_of_day_bounds [of n] day_from_year_Suc [of y] by (auto simp: y)
  note b = month_of_bounds [OF this, folded m]
  with d show "valid_civil y m d" by (simp add: valid_civil_def month_len_def)
  from b(1,2) have "m div 12 = 0" "m mod 12 = m" by auto
  with d show "make_day y m d = n" by (simp add: make_day_def)
qed

lemma civil_make_day:
  assumes "valid_civil y m d"
  shows "civil_of_day (make_day y m d) = (y, m, d)"
proof -
  let ?l = "leap_year y"
  have m: "0 \<le> m" "m \<le> 11" and d: "1 \<le> d" "d \<le> month_len y m"
    using assms by (auto simp: valid_civil_def)
  then have md: "make_day y m d = day_from_year y + month_start ?l m + d - 1"
    by (simp add: make_day_def)
  have hi: "month_start ?l m + d - 1 < month_start ?l (m + 1)" using d by (simp add: month_len_def)
  moreover have "month_start ?l (m + 1) \<le> month_start ?l 12" by (rule month_start_le [OF m])
  moreover have "0 \<le> month_start ?l m" by (simp add: month_start_def leap_day_def)
  ultimately have "year_of_day (make_day y m d) = y"
    using d by (intro year_of_day_eq) (auto simp: md day_from_year_Suc month_start_last)
  moreover have "month_of ?l (month_start ?l m + d - 1) = m"
    using m d hi by (intro month_of_eq) auto
  ultimately show ?thesis
    by (simp add: civil_of_day_def Let_def md algebra_simps)
qed

section \<open>Parsing and printing\<close>

text \<open>The fields of a ten-character date.\<close>

lemma date_fields:
  assumes "length a = 4" "length b = 2" "length c = 2"
  defines "s \<equiv> a @ ''-'' @ b @ ''-'' @ c"
  shows "length s = 10" "s ! 4 = CHR ''-''" "s ! 7 = CHR ''-''"
    "take 4 s = a" "take 2 (drop 5 s) = b" "drop 8 s = c"
  using assms by (simp_all add: nth_append)

lemma date_split:
  assumes "length s = 10" "s ! 4 = CHR ''-''" "s ! 7 = CHR ''-''"
  shows "s = take 4 s @ ''-'' @ take 2 (drop 5 s) @ ''-'' @ drop 8 s"
proof -
  have "s = take 4 s @ s ! 4 # drop 5 s" using assms(1) id_take_nth_drop [of 4 s] by simp
  moreover have "drop 5 s = take 2 (drop 5 s) @ drop 5 s ! 2 # drop 3 (drop 5 s)"
    using assms(1) id_take_nth_drop [of 2 "drop 5 s"] by simp
  ultimately show ?thesis using assms by (metis append_Cons append_Nil drop_drop nth_drop
        numeral_plus_numeral semiring_norm(2-10) le_add1 add.commute)
qed

text \<open>What a successful parse says, and when it succeeds.\<close>

lemma date_utc_make_day: "100 \<le> y \<Longrightarrow> date_utc y m d = make_day y m d"
  by (simp add: date_utc_def)

lemma parseYMD_Inr:
  assumes "parseYMD s = Inr p"
  shows "length s = 10" "s ! 4 = CHR ''-''" "s ! 7 = CHR ''-''"
    "list_all is_digit (take 4 s)" "list_all is_digit (take 2 (drop 5 s))" "list_all is_digit (drop 8 s)"
    "ymd_year p = int (dec_val (take 4 s))" "ymd_month p = int (dec_val (take 2 (drop 5 s)))"
    "ymd_day p = int (dec_val (drop 8 s))" "ymd_date p = date_utc (ymd_year p) (ymd_month p - 1) (ymd_day p)"
    "civil_of_day (ymd_date p) = (ymd_year p, ymd_month p - 1, ymd_day p)"
  using assms by (auto simp: parseYMD_def Let_def split: if_splits prod.splits)

lemma parse_year_ge_100: "parseYMD s = Inr p \<Longrightarrow> 100 \<le> ymd_year p"
proof (rule ccontr)
  assume p: "parseYMD s = Inr p" and "\<not> 100 \<le> ymd_year p"
  moreover from parseYMD_Inr(7) [OF p] have "0 \<le> ymd_year p" by simp
  ultimately have r: "0 \<le> ymd_year p" "ymd_year p \<le> 99" by auto
  let ?m = "ymd_month p - 1"
  from parseYMD_Inr(11) [OF p] have v: "valid_civil (ymd_year p) ?m (ymd_day p)"
    "make_day (ymd_year p) ?m (ymd_day p) = ymd_date p" using make_day_civil by auto
  have "ymd_date p = make_day (1900 + ymd_year p) ?m (ymd_day p)"
    using parseYMD_Inr(10) [OF p] r by (simp add: date_utc_def)
  with v(2) have e: "make_day (ymd_year p) ?m (ymd_day p) = make_day (1900 + ymd_year p) ?m (ymd_day p)"
    by simp
  have m: "?m div 12 = 0" "?m mod 12 = ?m" using v(1) by (auto simp: valid_civil_def)
  have "day_from_year (ymd_year p) + 365 \<le> day_from_year (1900 + ymd_year p)"
    by (rule day_from_year_mono) simp
  moreover have "\<bar>month_start (leap_year (ymd_year p)) ?m - month_start (leap_year (1900 + ymd_year p)) ?m\<bar> \<le> 1"
    by (auto simp: month_start_def leap_day_def)
  ultimately show False using e m by (simp add: make_day_def Let_def)
qed

lemma parse_date: "parseYMD s = Inr p \<Longrightarrow> make_day (ymd_year p) (ymd_month p - 1) (ymd_day p) = ymd_date p"
  "parseYMD s = Inr p \<Longrightarrow> valid_civil (ymd_year p) (ymd_month p - 1) (ymd_day p)"
  using parseYMD_Inr(11) make_day_civil by blast+

lemma parse_formatted:
  assumes "civil_of_day n = (y, m, d)" "1000 \<le> y" "y \<le> 9999"
  shows "parseYMD (formatUTCDate n) =
    Inr \<lparr>ymd_year = y, ymd_month = m + 1, ymd_day = d, ymd_date = n\<rparr>"
proof -
  note v = make_day_civil [OF assms(1)]
  then have b: "0 \<le> m + 1" "m + 1 < 100" "0 \<le> d" "d < 100"
    using month_len_bounds [of m y] by (auto simp: valid_civil_def)
  note Y = year4_digits [OF assms(2,3)] and M = pad2_digits [OF b(1,2)] and D = pad2_digits [OF b(3,4)]
  note f = date_fields [OF Y(1) M(1) D(1)]
  have u: "date_utc y m d = n" using v(1) assms(2) by (simp add: date_utc_make_day)
  have "formatUTCDate n = dec_int y @ ''-'' @ pad2 (m + 1) @ ''-'' @ pad2 d"
    by (simp add: formatUTCDate_def assms(1))
  then show ?thesis
    unfolding parseYMD_def
    by (simp only: f Y M D list_all_append simp_thms if_True if_False Let_def add_diff_cancel_right' u assms(1)
        prod.case)
qed

text \<open>
  C33: printing then parsing a day number: in the four-digit years the string is accepted and
  denotes the same day.
\<close>

theorem parse_format:
  assumes "civil_of_day n = (y, m, d)" "1000 \<le> y" "y \<le> 9999"
  shows "parseYMD (formatUTCDate n) =
    Inr \<lparr>ymd_year = y, ymd_month = m + 1, ymd_day = d, ymd_date = n\<rparr>"
  by (rule parse_formatted [OF assms])

theorem parse_format_witness:
  "civil_of_day 19782 = (2024, 1, 29) \<and>
   parseYMD (formatUTCDate 19782) =
     Inr \<lparr>ymd_year = 2024, ymd_month = 1 + 1, ymd_day = 29, ymd_date = 19782\<rparr>"
proof -
  have c: "civil_of_day 19782 = (2024, 1, 29)"
    by (simp add: civil_of_day_def year_of_day_def day_from_year_def month_of_def month_start_def
        leap_year_def leap_day_def Let_def)
  then show ?thesis using parse_format [OF c] by simp
qed

section \<open>The order of date strings\<close>

lemma civil_order:
  assumes "valid_civil y m d" "valid_civil y' m' d'"
  shows "make_day y m d < make_day y' m' d' \<longleftrightarrow> y < y' \<or> y = y' \<and> (m < m' \<or> m = m' \<and> d < d')"
proof -
  have lt: "make_day a b c < make_day a' b' c'"
    if "valid_civil a b c" "valid_civil a' b' c'" "a < a' \<or> a = a' \<and> (b < b' \<or> b = b' \<and> c < c')"
    for a b c a' b' c'
  proof -
    have m: "0 \<le> b" "b \<le> 11" "0 \<le> b'" "b' \<le> 11" "1 \<le> c" "1 \<le> c'" "c \<le> month_len a b"
      using that by (auto simp: valid_civil_def)
    then have k: "b div 12 = 0" "b mod 12 = b" "b' div 12 = 0" "b' mod 12 = b'" by auto
    from that(3) consider "a < a'" | "a = a'" "b < b'" | "a = a'" "b = b'" "c < c'" by blast
    then show ?thesis
    proof cases
      case 1
      have "month_start (leap_year a) b + c - 1 < 365 + leap_day (leap_year a)"
        using m month_start_le [OF m(1,2), of "leap_year a"]
        by (simp add: month_len_def month_start_last)
      moreover have "0 \<le> month_start (leap_year a') b'" by (simp add: month_start_def leap_day_def)
      moreover have "day_from_year (a + 1) \<le> day_from_year a'"
        using 1 day_from_year_mono [of "a + 1" a'] by (cases "a + 1 = a'") auto
      ultimately show ?thesis using k m by (simp add: make_day_def day_from_year_Suc)
    next
      case 2
      have "month_start (leap_year a) (b + 1) \<le> month_start (leap_year a) b'"
        using m 2 by (auto elim!: month_cases [of b] simp: month_start_def leap_day_def)
      with 2 k m show ?thesis by (simp add: make_day_def month_len_def)
    qed (use k in \<open>simp add: make_day_def\<close>)
  qed
  show ?thesis
    using lt [OF assms] lt [OF assms(2,1)] by (cases "y = y' \<and> m = m' \<and> d = d'") force+
qed

text \<open>
  every component compares dates as strings; on the strings \<open>parseYMD\<close> accepts this is
  the order of the calendar days.
\<close>

theorem date_string_order:
  assumes "parseYMD s = Inr p" "parseYMD t = Inr q"
  shows "s < t \<longleftrightarrow> ymd_date p < ymd_date q"
proof -
  note P = parseYMD_Inr [OF assms(1)] and Q = parseYMD_Inr [OF assms(2)]
  let ?y = "take 4" and ?m = "\<lambda>s::string. take 2 (drop 5 s)" and ?d = "\<lambda>s::string. drop 8 s"
  have L: "length (?y s) = length (?y t)" "length (?m s) = length (?m t)" "length (?d s) = length (?d t)"
    using P(1) Q(1) by simp_all
  note E = dec_val_inj [OF L(1) P(4) Q(4)] dec_val_inj [OF L(2) P(5) Q(5)]
  note O = dec_val_order [OF L(1) P(4) Q(4)] dec_val_order [OF L(2) P(5) Q(5)] dec_val_order [OF L(3) P(6) Q(6)]
  have "s < t \<longleftrightarrow> ?y s @ ''-'' @ ?m s @ ''-'' @ ?d s < ?y t @ ''-'' @ ?m t @ ''-'' @ ?d t"
    using date_split [OF P(1-3)] date_split [OF Q(1-3)] by simp
  also have "\<dots> \<longleftrightarrow> ?y s < ?y t \<or> ?y s = ?y t \<and> (?m s < ?m t \<or> ?m s = ?m t \<and> ?d s < ?d t)"
    using L by (simp add: append_less_append)
  also have "\<dots> \<longleftrightarrow> ymd_year p < ymd_year q \<or> ymd_year p = ymd_year q \<and>
      (ymd_month p - 1 < ymd_month q - 1 \<or> ymd_month p - 1 = ymd_month q - 1 \<and> ymd_day p < ymd_day q)"
    using E O by (auto simp: P(7-9) Q(7-9))
  also have "\<dots> \<longleftrightarrow> ymd_date p < ymd_date q"
    unfolding parse_date(1) [OF assms(1), symmetric] parse_date(1) [OF assms(2), symmetric]
    by (rule civil_order [symmetric]) (rule parse_date(2) [OF assms(1)], rule parse_date(2) [OF assms(2)])
  finally show ?thesis .
qed

theorem date_string_order_witness:
  "parseYMD ''2024-02-29'' = Inr \<lparr>ymd_year = 2024, ymd_month = 2, ymd_day = 29, ymd_date = 19782\<rparr> \<and>
   parseYMD ''2024-10-01'' = Inr \<lparr>ymd_year = 2024, ymd_month = 10, ymd_day = 1, ymd_date = 19997\<rparr> \<and>
   (''2024-02-29'' < ''2024-10-01'') = ((19782::int) < 19997)"
proof -
  have "parseYMD ''2024-02-29'' = Inr \<lparr>ymd_year = 2024, ymd_month = 2, ymd_day = 29, ymd_date = 19782\<rparr>"
    "parseYMD ''2024-10-01'' = Inr \<lparr>ymd_year = 2024, ymd_month = 10, ymd_day = 1, ymd_date = 19997\<rparr>"
    by code_simp+
  with date_string_order [OF this] show ?thesis by simp
qed

lemma format_parse:
  assumes "parseYMD s = Inr p" "1000 \<le> ymd_year p"
  shows "formatUTCDate (ymd_date p) = s"
proof -
  note P = parseYMD_Inr [OF assms(1)]
  have v: "valid_civil (ymd_year p) (ymd_month p - 1) (ymd_day p)" by (rule parse_date(2) [OF assms(1)])
  then have b: "0 \<le> ymd_month p" "ymd_month p < 100" "0 \<le> ymd_day p" "ymd_day p < 100"
    using month_len_bounds [of "ymd_month p - 1" "ymd_year p"] by (auto simp: valid_civil_def)
  have "ymd_year p \<le> 9999" using P(7) dec_val_less [OF P(4)] P(1) by simp
  note Y = year4_digits [OF assms(2) this] and M = pad2_digits [OF b(1,2)] and D = pad2_digits [OF b(3,4)]
  have "dec_int (ymd_year p) = take 4 s" "pad2 (ymd_month p) = take 2 (drop 5 s)" "pad2 (ymd_day p) = drop 8 s"
    using Y M D P(1,4-9) by (auto intro!: dec_val_inj)
  then show ?thesis using date_split [OF P(1-3)] by (simp add: formatUTCDate_def P(11))
qed

text \<open>
  C32: \<open>addDays\<close> moves by exactly that many days: while the result stays in the four-digit
  years it parses, \<open>daysBetween\<close> returns the count, and adding the negative count gives the
  original string back.
\<close>

theorem addDays_exact:
  assumes "parseYMD s = Inr p" "1000 \<le> ymd_year p"
    and "civil_of_day (ymd_date p + k) = (y, m, d)" "1000 \<le> y" "y \<le> 9999"
  shows "\<exists>t. addDays s k = Inr t \<and> daysBetween s t = Inr k \<and> addDays t (- k) = Inr s"
proof -
  have "parseYMD (formatUTCDate (ymd_date p + k)) =
      Inr \<lparr>ymd_year = y, ymd_month = m + 1, ymd_day = d, ymd_date = ymd_date p + k\<rparr>"
    by (rule parse_formatted [OF assms(3-5)])
  moreover have "formatUTCDate (ymd_date p) = s" by (rule format_parse [OF assms(1,2)])
  ultimately show ?thesis by (simp add: addDays_def daysBetween_def assms(1))
qed

theorem addDays_exact_witness:
  "\<exists>t. addDays ''2024-02-28'' 2 = Inr t \<and> daysBetween ''2024-02-28'' t = Inr 2 \<and>
       addDays t (- 2) = Inr ''2024-02-28''"
proof -
  let ?p = "\<lparr>ymd_year = 2024, ymd_month = 2, ymd_day = 28, ymd_date = 19781\<rparr>"
  have "parseYMD ''2024-02-28'' = Inr ?p" by code_simp
  moreover have "civil_of_day (ymd_date ?p + 2) = (2024, 2, 1)" by code_simp
  ultimately show ?thesis by (intro addDays_exact [of _ ?p 2 2024 2 1]) simp_all
qed

lemma last_day_of:
  assumes "0 \<le> m" "m \<le> 11" "1000 \<le> y"
  shows "last_day_of y m = month_len y m"
proof -
  have "make_day y (m + 1) 0 = make_day y m (month_len y m)"
  proof (cases "m = 11")
    case True
    then show ?thesis
      by (simp add: make_day_def day_from_year_Suc month_len_def month_start_last)
        (simp add: month_start_def)
  next
    case False
    with assms have "(m + 1) div 12 = 0" "(m + 1) mod 12 = m + 1" "m div 12 = 0" "m mod 12 = m" by auto
    then show ?thesis by (simp add: make_day_def month_len_def)
  qed
  moreover have "valid_civil y m (month_len y m)"
    using assms month_len_bounds [of m y] by (simp add: valid_civil_def)
  ultimately show ?thesis
    using assms civil_make_day [of y m "month_len y m"] by (simp add: last_day_of_def date_utc_make_day)
qed

text \<open>
  \<open>addMonths\<close> lands in the month that many months away and keeps the day of the month,
  clamped to the length of that month.
\<close>

theorem addMonths_clamps:
  assumes "parseYMD s = Inr p" "ymd_month p - 1 + k = 12 * (y - ymd_year p) + m"
    and "0 \<le> m" "m \<le> 11" "1000 \<le> y" "y \<le> 9999"
  shows "\<exists>t. addMonths s k = Inr t \<and>
    parseYMD t = Inr \<lparr>ymd_year = y, ymd_month = m + 1,
      ymd_day = min (ymd_day p) (month_len y m),
      ymd_date = make_day y m (min (ymd_day p) (month_len y m))\<rparr>"
proof -
  let ?d = "min (ymd_day p) (month_len y m)"
  have yp: "100 \<le> ymd_year p" by (rule parse_year_ge_100 [OF assms(1)])
  have "(ymd_month p - 1 + k) div 12 = y - ymd_year p" "(ymd_month p - 1 + k) mod 12 = m"
    unfolding assms(2) using assms(3,4) by (simp_all only: div_mult_self4 mod_mult_self4) simp_all
  then have first: "date_utc (ymd_year p) (ymd_month p - 1 + k) 1 = make_day y m 1"
    using yp assms(3,4) by (simp add: date_utc_make_day make_day_def)
  have len: "28 \<le> month_len y m" using month_len_bounds [of m y] assms by auto
  then have c1: "civil_of_day (make_day y m 1) = (y, m, 1)"
    using assms by (intro civil_make_day) (simp add: valid_civil_def)
  have "1 \<le> ymd_day p" using parse_date(2) [OF assms(1)] by (simp add: valid_civil_def)
  then have "civil_of_day (make_day y m ?d) = (y, m, ?d)"
    using assms len by (intro civil_make_day) (simp add: valid_civil_def)
  from parse_formatted [OF this assms(5,6)] show ?thesis
    using assms(1,5) unfolding addMonths_def
    by (simp only: first c1 ebind_simps prod.case last_day_of [OF assms(3-5)])
      (simp add: date_utc_make_day)
qed

theorem addMonths_clamps_witness:
  "\<exists>t. addMonths ''2024-01-31'' 1 = Inr t \<and>
    parseYMD t = Inr \<lparr>ymd_year = 2024, ymd_month = 1 + 1, ymd_day = min 31 (month_len 2024 1),
      ymd_date = make_day 2024 1 (min 31 (month_len 2024 1))\<rparr>"
proof -
  let ?p = "\<lparr>ymd_year = 2024, ymd_month = 1, ymd_day = 31, ymd_date = 19753\<rparr>"
  have p: "parseYMD ''2024-01-31'' = Inr ?p" by code_simp
  show ?thesis using addMonths_clamps [OF p, of 1 2024 1] by simp
qed

text \<open>\<open>daysInMonth\<close> and \<open>monthEnd\<close> agree with the length of the month.\<close>

lemma daysInMonth_len:
  assumes "parse_month s = Inr (y, m)" "1 \<le> m" "m \<le> 12" "1000 \<le> y"
  shows "daysInMonth s = Inr (month_len y (m - 1))"
  using assms last_day_of [of "m - 1" y] by (simp add: daysInMonth_def last_day_of_def split: prod.splits)

end
