(* ===== verification/CentAllocation.thy ===== *)
theory CentAllocation
  imports Money DateOnly
begin

text \<open>
  \<open>finance-dashboard/lib/domain/cent-allocation.js\<close>: spreading a cent total over days
  (quotient and remainder, the earliest days first), summing category fields, and the daily
  budget forecast built from both. A quotient \<open>absTotal / dayCount\<close> is the rounded binary64
  quotient the code computes. An allocated \<open>-0\<close> is identified with \<open>0\<close>: nothing after
  this point distinguishes them.
\<close>

section \<open>Allocation\<close>

record provenance =
  prov_total :: int
  prov_days :: int

definition assertSafeDayCount :: "int \<Rightarrow> unit res" where
  "assertSafeDayCount dayCount =
     (if dayCount \<le> 0 then Inl (RangeError ''day count must be a positive integer'')
      else if \<not> safe_int dayCount
           then Inl (RangeError ''day count is outside the safe integer range'')
      else if 10000 < dayCount
           then Inl (RangeError ''day count exceeds supported allocation span'')
      else Inr ())"

definition assertSafeTotalCents :: "int \<Rightarrow> unit res" where
  "assertSafeTotalCents totalCents =
     (if \<not> safe_int totalCents then Inl (TypeError ''total cents must be a safe integer'') else Inr ())"

definition js_floor_div :: "int \<Rightarrow> int \<Rightarrow> int" where
  "js_floor_div a b = js_to_int (js_floor (js_div (js_of_int a) (js_of_int b)))"

definition allocateCentsOverDays :: "int \<Rightarrow> int \<Rightarrow> (int list \<times> provenance) res" where
  "allocateCentsOverDays totalCents dayCount =
     ebind (assertSafeTotalCents totalCents) (\<lambda>_. ebind (assertSafeDayCount dayCount) (\<lambda>_.
       let prov = \<lparr>prov_total = totalCents, prov_days = dayCount\<rparr> in
       if totalCents = 0 then Inr (replicate (nat dayCount) 0, prov)
       else let sign = (if totalCents < 0 then -1 else 1);
                absTotal = \<bar>totalCents\<bar>;
                base = js_floor_div absTotal dayCount;
                extra = absTotal mod dayCount
            in Inr (map (\<lambda>i. sign * (base + (if int i < extra then 1 else 0))) [0..<nat dayCount], prov)))"

definition pastAndRemainingCents :: "int list \<Rightarrow> int \<Rightarrow> (int \<times> int \<times> int) res" where
  "pastAndRemainingCents allocs positionIndex =
     (if \<not> list_all safe_int allocs then Inl (TypeError ''allocations must be safe integer cents'')
      else if positionIndex < 0 \<or> int (length allocs) < positionIndex
           then Inl (RangeError ''position index out of range'')
      else ebind (sumCents (take (nat positionIndex) allocs)) (\<lambda>past.
           ebind (sumCents (drop (nat positionIndex) allocs)) (\<lambda>remaining.
           ebind (sumCents allocs) (\<lambda>tot. Inr (past, remaining, tot)))))"

section \<open>Category sums\<close>

fun readCategoryMoneyCents :: "jsval \<Rightarrow> int res" where
  "readCategoryMoneyCents (JNum v) =
     (if \<not> js_is_finite v then Inl (TypeError ''category money field must be finite'')
      else toCents (JNum v))"
| "readCategoryMoneyCents _ = Inl (TypeError ''category money field must be a number'')"

definition readCategoryFieldCents :: "jsval \<Rightarrow> string \<Rightarrow> int res" where
  "readCategoryFieldCents category field =
     (if \<not> truthy category \<or> \<not> jhas category field
      then Inl (TypeError ''category money field is required'')
      else readCategoryMoneyCents (jget category field))"

record cent_sum =
  cs_cents :: "int option"
  cs_complete :: bool
  cs_reasons :: "string list"

definition sum_ok :: "int \<Rightarrow> cent_sum" where
  "sum_ok c = \<lparr>cs_cents = Some c, cs_complete = True, cs_reasons = []\<rparr>"

definition sum_failed :: "string \<Rightarrow> cent_sum" where
  "sum_failed r = \<lparr>cs_cents = None, cs_complete = False, cs_reasons = [r]\<rparr>"

definition trySumCategoryFieldCents :: "jsval list \<Rightarrow> string \<Rightarrow> cent_sum" where
  "trySumCategoryFieldCents categories field =
     (case ebind (emap (\<lambda>c. readCategoryFieldCents c field) categories) sumCents of
        Inr cents \<Rightarrow> sum_ok cents
      | Inl _ \<Rightarrow> sum_failed ''money_input_invalid'')"

fun safe_number :: "jsval \<Rightarrow> int option" where
  "safe_number (JNum n) = (if js_safe_integer n then Some (js_to_int n) else None)"
| "safe_number _ = None"

definition reserve_of_category :: "jsval \<Rightarrow> int res" where
  "reserve_of_category category =
     (case safe_number (jget category ''reserveCents'') of
        Some c \<Rightarrow> Inr c
      | None \<Rightarrow>
          if \<not> nullish (jget category ''remaining'')
          then readCategoryMoneyCents (jget category ''remaining'')
          else Inl (TypeError ''category reserve field is required''))"

definition trySumCategoryReserveCents :: "jsval list \<Rightarrow> cent_sum" where
  "trySumCategoryReserveCents categories =
     (if \<exists>c\<in>set categories. jget c ''resolved'' = JBool False \<or> jget c ''reserveCents'' = JNull
      then sum_failed ''rollover_treatment_unknown''
      else case ebind (emap reserve_of_category categories) sumCents of
             Inr cents \<Rightarrow> sum_ok cents
           | Inl _ \<Rightarrow> sum_failed ''money_input_invalid'')"

definition generic_budget_skip_warning :: string where
  "generic_budget_skip_warning =
     ''Generic budget forecast skipped because category amounts are not safe integer cents.''"

record budget_context =
  bc_target :: cent_sum
  bc_remaining :: cent_sum
  bc_reserve :: cent_sum
  bc_complete :: bool
  bc_reasons :: "string list"
  bc_target_dollars :: "jsnum option"
  bc_remaining_dollars :: "jsnum option"
  bc_warnings :: "string list"

text \<open>\<open>fromCents\<close> of a completed sum; a sum that completed is a safe integer, so it never throws.\<close>

definition sum_dollars :: "bool \<Rightarrow> cent_sum \<Rightarrow> jsnum option" where
  "sum_dollars cmpl s =
     (if \<not> cmpl then None
      else case cs_cents s of None \<Rightarrow> None
           | Some c \<Rightarrow> (case fromCents c of Inl _ \<Rightarrow> None | Inr d \<Rightarrow> Some d))"

definition buildForecastGenericBudgetContext :: "jsval list \<Rightarrow> budget_context" where
  "buildForecastGenericBudgetContext categories =
     (let targetSum = trySumCategoryFieldCents categories ''target'';
          remainingSum = trySumCategoryFieldCents categories ''remaining'';
          reserveSum = trySumCategoryReserveCents categories;
          cmpl = (cs_complete targetSum \<and> cs_complete remainingSum \<and> cs_complete reserveSum);
          reasons_of = (\<lambda>s. if cs_complete s then [] else cs_reasons s)
      in \<lparr>bc_target = targetSum, bc_remaining = remainingSum, bc_reserve = reserveSum,
          bc_complete = cmpl,
          bc_reasons = (if cmpl then []
            else js_dedupe (reasons_of targetSum @ reasons_of remainingSum @ reasons_of reserveSum)),
          bc_target_dollars = sum_dollars cmpl targetSum,
          bc_remaining_dollars = sum_dollars cmpl reserveSum,
          bc_warnings = (if cmpl then [] else [generic_budget_skip_warning])\<rparr>)"

section \<open>The daily budget forecast\<close>

datatype period_kind = Current_month_remaining nat | Full_month_target string

record budget_entry =
  be_date :: string
  be_cents :: int
  be_prov :: provenance
  be_kind :: period_kind

text \<open>
  One pass of the loop body for day \<open>i\<close>: the cache of month allocations is threaded, and the
  entry is absent where the code continues or the amount is zero.
\<close>

definition budget_day ::
  "string \<Rightarrow> string \<Rightarrow> int list \<Rightarrow> int \<Rightarrow> int \<Rightarrow> int \<Rightarrow>
   (string \<rightharpoonup> int list) \<Rightarrow> nat \<Rightarrow> ((string \<rightharpoonup> int list) \<times> budget_entry option) res"
where
  "budget_day today currentMonth currentAlloc daysLeft remainingCents targetCents cache i =
     ebind (addDays today (int i)) (\<lambda>date.
       let month = take 7 date in
       if month = currentMonth then
         (if daysLeft \<le> int i then Inr (cache, None)
          else let c = currentAlloc ! i in
            Inr (cache, if c = 0 then None
              else Some \<lparr>be_date = date, be_cents = c,
                be_prov = \<lparr>prov_total = remainingCents, prov_days = daysLeft\<rparr>,
                be_kind = Current_month_remaining i\<rparr>))
       else if currentMonth < month then
         ebind (daysInMonth month) (\<lambda>len.
         ebind (case cache month of Some a \<Rightarrow> Inr (a, cache)
                | None \<Rightarrow> ebind (allocateCentsOverDays targetCents len)
                    (\<lambda>(a, _). Inr (a, cache(month \<mapsto> a)))) (\<lambda>(alloc, cache').
           let c = alloc ! (dec_val (take 2 (drop 8 date)) - 1) in
           Inr (cache', if c = 0 then None
             else Some \<lparr>be_date = date, be_cents = c,
               be_prov = \<lparr>prov_total = targetCents, prov_days = len\<rparr>,
               be_kind = Full_month_target month\<rparr>)))
       else Inr (cache, None))"

fun budget_loop ::
  "((string \<rightharpoonup> int list) \<Rightarrow> nat \<Rightarrow> ((string \<rightharpoonup> int list) \<times> budget_entry option) res) \<Rightarrow>
   (string \<rightharpoonup> int list) \<Rightarrow> nat list \<Rightarrow> budget_entry list res"
where
  "budget_loop step cache [] = Inr []"
| "budget_loop step cache (i # is) =
     ebind (step cache i) (\<lambda>(cache', e).
     ebind (budget_loop step cache' is) (\<lambda>es.
       Inr (case e of None \<Rightarrow> es | Some x \<Rightarrow> x # es)))"

definition buildForecastBudgetDailyCents ::
  "string \<Rightarrow> int \<Rightarrow> int \<Rightarrow> int \<Rightarrow> budget_entry list res"
where
  "buildForecastBudgetDailyCents today horizonDays currentMonthRemainingCents fullMonthTargetCents =
     ebind (assertSafeTotalCents currentMonthRemainingCents) (\<lambda>_.
     ebind (assertSafeTotalCents fullMonthTargetCents) (\<lambda>_.
       if horizonDays < 0 \<or> \<not> safe_int horizonDays
       then Inl (RangeError ''horizon days must be a non-negative safe integer'')
       else let currentMonth = take 7 today;
                dayOfMonth = int (dec_val (take 2 (drop 8 today)))
            in ebind (daysInMonth currentMonth) (\<lambda>len.
               let daysLeft = max 1 (len - dayOfMonth + 1) in
               ebind (allocateCentsOverDays currentMonthRemainingCents daysLeft) (\<lambda>(alloc, _).
                 budget_loop
                   (budget_day today currentMonth alloc daysLeft
                      currentMonthRemainingCents fullMonthTargetCents)
                   Map.empty [0..<Suc (nat horizonDays)]))))"

section \<open>Conservation\<close>

lemma js_floor_div_exact:
  assumes "0 \<le> a" "safe_int a" "0 < b" "b \<le> 2 ^ 53"
  shows "js_floor_div a b = a div b"
proof (cases "a = 0")
  case False
  have a: "1 \<le> a" "a < 2 ^ 53" using False assms by (auto simp: safe_int_def max_safe_def)
  have "js_floor (js_div (js_of_int a) (js_of_int b)) = Fin (of_int \<lfloor>round_rat (of_int a / of_int b)\<rfloor>)"
    using round64_quotient [OF a assms(3,4)] a assms(3) by simp
  with floor_round_div [OF assms(1) a(2) assms(3,4)] show ?thesis by (simp add: js_floor_div_def)
qed (use assms in \<open>simp add: js_floor_div_def js_div_def js_zero_def\<close>)

lemma sum_list_early:
  "sum_list (map (\<lambda>i. s * (b + (if int i < e then 1 else 0))) [0..<n]) =
     s * (int n * b + min (int n) (max 0 e))"
  for s b e :: int
  by (induction n) (auto simp: algebra_simps min_def max_def)

text \<open>What the day-by-day formula gives, with the exact quotient.\<close>

definition day_share :: "int \<Rightarrow> int \<Rightarrow> nat \<Rightarrow> int" where
  "day_share t n i = sgn t * (\<bar>t\<bar> div n + (if int i < \<bar>t\<bar> mod n then 1 else 0))"

lemma allocate_shares:
  assumes "safe_int t" "0 < n" "n \<le> 10000"
  shows "allocateCentsOverDays t n =
    Inr (map (day_share t n) [0..<nat n], \<lparr>prov_total = t, prov_days = n\<rparr>)"
proof (cases "t = 0")
  case True
  have "map (day_share 0 n) [0..<nat n] = replicate (nat n) 0"
    by (rule nth_equalityI) (simp_all add: day_share_def)
  with True assms show ?thesis
    by (simp add: allocateCentsOverDays_def assertSafeTotalCents_def assertSafeDayCount_def
        safe_int_def max_safe_def)
next
  case False
  have b: "js_floor_div \<bar>t\<bar> n = \<bar>t\<bar> div n"
    using assms by (intro js_floor_div_exact) (auto simp: safe_int_def)
  have "sgn t = (if t < 0 then -1 else 1)" using False by auto
  then have "(\<lambda>i. (if t < 0 then -1 else 1) * (\<bar>t\<bar> div n + (if int i < \<bar>t\<bar> mod n then 1 else 0)))
      = day_share t n"
    by (simp only: day_share_def fun_eq_iff) simp
  with False assms b show ?thesis
    by (simp add: allocateCentsOverDays_def assertSafeTotalCents_def assertSafeDayCount_def
        safe_int_def max_safe_def Let_def)
qed

lemma day_share_sum: "0 < n \<Longrightarrow> sum_list (map (day_share t n) [0..<nat n]) = t"
proof -
  assume n: "0 < n"
  have e: "0 \<le> \<bar>t\<bar> mod n" "\<bar>t\<bar> mod n < n" using n by simp_all
  have "sum_list (map (day_share t n) [0..<nat n]) = sgn t * (n * (\<bar>t\<bar> div n) + \<bar>t\<bar> mod n)"
    unfolding day_share_def [abs_def] sum_list_early
    using n by (simp add: max_absorb2 [OF e(1)] min_absorb2 [OF less_imp_le [OF e(2)]] del: mult_div_mod_eq)
  then show ?thesis by (simp add: sgn_mult_abs)
qed

lemma day_share_abs:
  "0 < n \<Longrightarrow> t \<noteq> 0 \<Longrightarrow> \<bar>day_share t n i\<bar> = \<bar>t\<bar> div n + (if int i < \<bar>t\<bar> mod n then 1 else 0)"
  by (auto simp: day_share_def abs_mult pos_imp_zdiv_nonneg_iff abs_of_nonneg)

lemma sorted_rev_iff: "sorted (rev xs) \<longleftrightarrow> (\<forall>i j. i \<le> j \<longrightarrow> j < length xs \<longrightarrow> xs ! j \<le> xs ! i)"
  for xs :: "'a::linorder list"
proof -
  have "sorted (rev xs) \<longleftrightarrow> sorted_wrt (\<ge>) xs" by (simp add: sorted_wrt_rev)
  then show ?thesis by (auto simp: sorted_wrt_iff_nth_less le_less)
qed

text \<open>
  C29: \<open>allocateCentsOverDays\<close> succeeds exactly on a safe total and one to ten thousand days,
  and then loses no cent: one share per day, the shares add up to the total, each is the
  truncated quotient or one cent more, and no day gets more (in magnitude) than an earlier one.
\<close>

theorem allocate_conserves:
  "case allocateCentsOverDays t n of
     Inl _ \<Rightarrow> \<not> (safe_int t \<and> 0 < n \<and> n \<le> 10000)
   | Inr (as, prov) \<Rightarrow> safe_int t \<and> 0 < n \<and> n \<le> 10000 \<and>
       prov = \<lparr>prov_total = t, prov_days = n\<rparr> \<and> int (length as) = n \<and> sum_list as = t \<and>
       list_all (\<lambda>a. \<bar>a\<bar> = \<bar>t\<bar> div n \<or> \<bar>a\<bar> = \<bar>t\<bar> div n + 1) as \<and> sorted (rev (map abs as))"
proof (cases "safe_int t \<and> 0 < n \<and> n \<le> 10000")
  case True
  let ?as = "map (day_share t n) [0..<nat n]"
  have "list_all (\<lambda>a. \<bar>a\<bar> = \<bar>t\<bar> div n \<or> \<bar>a\<bar> = \<bar>t\<bar> div n + 1) ?as"
  proof (cases "t = 0")
    case True
    then show ?thesis by (auto simp: list_all_iff day_share_def)
  next
    case False
    with True show ?thesis by (auto simp: list_all_iff day_share_abs)
  qed
  moreover have "sorted (rev (map abs ?as))"
  proof (cases "t = 0")
    case True
    then show ?thesis by (auto simp: sorted_rev_iff day_share_def)
  next
    case False
    with True show ?thesis by (auto simp: sorted_rev_iff day_share_abs)
  qed
  ultimately show ?thesis using True by (simp add: allocate_shares day_share_sum)
next
  case False
  then show ?thesis
    by (auto simp: allocateCentsOverDays_def assertSafeTotalCents_def assertSafeDayCount_def)
qed

text \<open>
  the split of an allocation at a position: past and remaining cents are the sums of the
  two parts and always add up to the total.
\<close>

theorem past_remaining_total:
  assumes "pastAndRemainingCents allocs k = Inr (past, remaining, tot)"
  shows "0 \<le> k \<and> k \<le> int (length allocs) \<and> past = sum_list (take (nat k) allocs) \<and>
    remaining = sum_list (drop (nat k) allocs) \<and> tot = past + remaining \<and> tot = sum_list allocs"
proof -
  from assms have "sumCents (take (nat k) allocs) = Inr past" "sumCents (drop (nat k) allocs) = Inr remaining"
    "sumCents allocs = Inr tot" and k: "0 \<le> k" "k \<le> int (length allocs)"
    by (auto simp: pastAndRemainingCents_def res_simps split: if_splits)
  then have "past = sum_list (take (nat k) allocs)" "remaining = sum_list (drop (nat k) allocs)"
    "tot = sum_list allocs" by (simp_all add: sumCents_Inr)
  with k show ?thesis by (simp flip: sum_list_append)
qed

theorem past_remaining_total_witness:
  "pastAndRemainingCents [34, 33, 33] 1 = Inr (34, 66, 100) \<and>
   (100::int) = 34 + 66"
proof -
  have "pastAndRemainingCents [34, 33, 33] 1 = Inr (34, 66, 100)"
    by (simp add: pastAndRemainingCents_def sumCents_def safe_int_def max_safe_def)
  with past_remaining_total [OF this] show ?thesis by simp
qed

end
