(* ===== verification/BudgetForecast.thy ===== *)
theory BudgetForecast
  imports CentAllocation
begin

text \<open>
  Conservation of the daily budget forecast (\<open>buildForecastBudgetDailyCents\<close>): the loop with
  its month cache computes one closed formula per day, and the days of a month that lie inside
  the horizon add up to that month's amount.
\<close>

section \<open>Months as ranges of day numbers\<close>

lemma make_day_first: "make_day y m d = make_day y m 1 + d - 1"
  by (simp add: make_day_def Let_def)

lemma month_window:
  assumes "civil_of_day n = (y', m', d')" "0 \<le> m" "m \<le> 11"
  shows "y' = y \<and> m' = m \<longleftrightarrow> make_day y m 1 \<le> n \<and> n < make_day y m 1 + month_len y m"
proof
  note v = make_day_civil [OF assms(1)]
  assume "y' = y \<and> m' = m"
  with v make_day_first [of y m d'] show "make_day y m 1 \<le> n \<and> n < make_day y m 1 + month_len y m"
    by (simp add: valid_civil_def)
next
  assume r: "make_day y m 1 \<le> n \<and> n < make_day y m 1 + month_len y m"
  let ?d = "n - make_day y m 1 + 1"
  have "valid_civil y m ?d" using r assms by (simp add: valid_civil_def)
  from civil_make_day [OF this] make_day_first [of y m ?d] have "civil_of_day n = (y, m, ?d)" by simp
  with assms(1) show "y' = y \<and> m' = m" by simp
qed

definition month_key :: "int \<Rightarrow> int \<Rightarrow> string" where
  "month_key y m = dec_int y @ ''-'' @ pad2 (m + 1)"

lemma month_key_props:
  assumes "1000 \<le> y" "y \<le> 9999" "0 \<le> m" "m \<le> 11"
  shows "length (month_key y m) = 7" "parse_month (month_key y m) = Inr (y, m + 1)"
    "daysInMonth (month_key y m) = Inr (month_len y m)"
proof -
  have b: "0 \<le> m + 1" "m + 1 < 100" using assms by auto
  note Y = year4_digits [OF assms(1,2)] and M = pad2_digits [OF b]
  show "length (month_key y m) = 7" using Y M by (simp add: month_key_def)
  show p: "parse_month (month_key y m) = Inr (y, m + 1)"
    using Y M by (simp add: parse_month_def month_key_def nth_append)
  show "daysInMonth (month_key y m) = Inr (month_len y m)"
    using daysInMonth_len [OF p] assms by simp
qed

lemma month_key_order:
  assumes "1000 \<le> y" "y \<le> 9999" "0 \<le> m" "m \<le> 11" "1000 \<le> y'" "y' \<le> 9999" "0 \<le> m'" "m' \<le> 11"
  shows "month_key y m = month_key y' m' \<longleftrightarrow> y = y' \<and> m = m'"
    "month_key y m < month_key y' m' \<longleftrightarrow> y < y' \<or> y = y' \<and> m < m'"
proof -
  have b: "0 \<le> m + 1" "m + 1 < 100" "0 \<le> m' + 1" "m' + 1 < 100" using assms by auto
  note Y = year4_digits [OF assms(1,2)] and M = pad2_digits [OF b(1,2)]
    and Y' = year4_digits [OF assms(5,6)] and M' = pad2_digits [OF b(3,4)]
  have "dec_int y = dec_int y' \<Longrightarrow> y = y'" using Y(3) Y'(3) by metis
  moreover have "pad2 (m + 1) = pad2 (m' + 1) \<Longrightarrow> m + 1 = m' + 1" using M(3) M'(3) by metis
  ultimately have e: "dec_int y = dec_int y' \<longleftrightarrow> y = y'" "pad2 (m + 1) = pad2 (m' + 1) \<longleftrightarrow> m = m'"
    by auto
  then show "month_key y m = month_key y' m' \<longleftrightarrow> y = y' \<and> m = m'"
    using Y(1) Y'(1) by (simp add: month_key_def)
  have "dec_int y < dec_int y' \<longleftrightarrow> dec_val (dec_int y) < dec_val (dec_int y')"
    using Y(1) Y'(1) by (intro dec_val_order Y(2) Y'(2)) simp
  also have "\<dots> \<longleftrightarrow> y < y'" using Y(3) Y'(3) of_nat_less_iff [where 'a = int] by metis
  finally have o1: "dec_int y < dec_int y' \<longleftrightarrow> y < y'" .
  have "pad2 (m + 1) < pad2 (m' + 1) \<longleftrightarrow> dec_val (pad2 (m + 1)) < dec_val (pad2 (m' + 1))"
    using M(1) M'(1) by (intro dec_val_order M(2) M'(2)) simp
  also have "\<dots> \<longleftrightarrow> m < m'" using M(3) M'(3) by linarith
  finally have o2: "pad2 (m + 1) < pad2 (m' + 1) \<longleftrightarrow> m < m'" .
  have "month_key y m < month_key y' m' \<longleftrightarrow>
      dec_int y < dec_int y' \<or> dec_int y = dec_int y' \<and> pad2 (m + 1) < pad2 (m' + 1)"
    unfolding month_key_def using Y(1) Y'(1) by (subst append_less_append) auto
  then show "month_key y m < month_key y' m' \<longleftrightarrow> y < y' \<or> y = y' \<and> m < m'"
    by (simp only: o1 o2 e)
qed

lemma format_month:
  assumes "civil_of_day n = (y, m, d)" "1000 \<le> y" "y \<le> 9999"
  shows "take 7 (formatUTCDate n) = month_key y m" "int (dec_val (take 2 (drop 8 (formatUTCDate n)))) = d"
proof -
  have "0 \<le> m + 1" "m + 1 < 100" "0 \<le> d" "d < 100"
    using make_day_civil(2) [OF assms(1)] month_len_bounds [of m y] by (auto simp: valid_civil_def)
  note M = pad2_digits [OF this(1,2)] and D = pad2_digits [OF this(3,4)]
  note Y = year4_digits [OF assms(2,3)]
  show "take 7 (formatUTCDate n) = month_key y m" "int (dec_val (take 2 (drop 8 (formatUTCDate n)))) = d"
    using Y M D by (simp_all add: formatUTCDate_def assms(1) month_key_def)
qed

section \<open>One day of the loop\<close>

text \<open>The amount and the entry of day \<open>i\<close> in closed form; \<open>n\<close> is the day number of today.\<close>

definition day_amount :: "int \<Rightarrow> int \<Rightarrow> int \<Rightarrow> int \<Rightarrow> int" where
  "day_amount n remaining target i =
     (case (civil_of_day n, civil_of_day (n + i)) of ((y0, m0, d0), (y, m, d)) \<Rightarrow>
        if y = y0 \<and> m = m0 then day_share remaining (month_len y0 m0 - d0 + 1) (nat i)
        else day_share target (month_len y m) (nat (d - 1)))"

definition cache_ok :: "int \<Rightarrow> (string \<rightharpoonup> int list) \<Rightarrow> bool" where
  "cache_ok target cache \<longleftrightarrow> (\<forall>y m a. 1000 \<le> y \<longrightarrow> y \<le> 9999 \<longrightarrow> 0 \<le> m \<longrightarrow> m \<le> 11 \<longrightarrow>
     cache (month_key y m) = Some a \<longrightarrow> a = map (day_share target (month_len y m)) [0..<nat (month_len y m)])"

lemma cache_ok_empty: "cache_ok target Map.empty"
  by (simp add: cache_ok_def)

lemma cache_ok_upd:
  assumes "cache_ok target cache" "1000 \<le> y" "y \<le> 9999" "0 \<le> m" "m \<le> 11"
  shows "cache_ok target (cache(month_key y m \<mapsto> map (day_share target (month_len y m)) [0..<nat (month_len y m)]))"
  unfolding cache_ok_def
proof (intro allI impI)
  fix y' m' a
  assume r: "1000 \<le> y'" "y' \<le> 9999" "0 \<le> m'" "m' \<le> 11"
    and "(cache(month_key y m \<mapsto> map (day_share target (month_len y m)) [0..<nat (month_len y m)])) (month_key y' m') = Some a"
  then show "a = map (day_share target (month_len y' m')) [0..<nat (month_len y' m')]"
    using assms month_key_order(1) [OF r assms(2-5)]
    by (auto simp: cache_ok_def split: if_splits)
qed

lemma alloc_month:
  assumes "safe_int t" "0 \<le> m" "m \<le> 11"
  shows "allocateCentsOverDays t (month_len y m) =
    Inr (map (day_share t (month_len y m)) [0..<nat (month_len y m)],
      \<lparr>prov_total = t, prov_days = month_len y m\<rparr>)"
  using assms month_len_bounds [OF assms(2,3), of y] by (intro allocate_shares) auto

lemma budget_day_step:
  assumes p: "parseYMD today = Inr p" "1000 \<le> ymd_year p"
    and c: "civil_of_day (ymd_date p + int i) = (y, m, d)" "y \<le> 9999"
    and s: "safe_int r" "safe_int t" "cache_ok t cache"
  defines "left \<equiv> month_len (ymd_year p) (ymd_month p - 1) - ymd_day p + 1"
  shows "\<exists>cache' e. budget_day today (take 7 today) (map (day_share r left) [0..<nat left]) left r t cache i
      = Inr (cache', e) \<and> cache_ok t cache' \<and>
      (let a = day_amount (ymd_date p) r t (int i) in
        if a = 0 then e = None
        else \<exists>x. e = Some x \<and> be_cents x = a \<and> be_date x = formatUTCDate (ymd_date p + int i) \<and>
          take 7 (be_date x) = month_key y m)"
proof -
  note P = parseYMD_Inr [OF p(1)] and v0 = parse_date(2) [OF p(1)] and n0 = parse_date(1) [OF p(1)]
  note v = make_day_civil [OF c(1)]
  let ?n = "ymd_date p" and ?y0 = "ymd_year p" and ?m0 = "ymd_month p - 1"
  have b0: "0 \<le> ?m0" "?m0 \<le> 11" "1 \<le> ymd_day p" using v0 by (auto simp: valid_civil_def)
  have b: "0 \<le> m" "m \<le> 11" "1 \<le> d" "d \<le> month_len y m" using v(2) by (auto simp: valid_civil_def)
  have "?n \<le> ?n + int i" by simp
  then have ge: "?y0 < y \<or> ?y0 = y \<and> ?m0 \<le> m"
    using civil_order [OF v(2) v0] unfolding v(1) n0 by force
  with p(2) have y: "1000 \<le> y" by auto
  have y0: "?y0 \<le> 9999" using P(7) dec_val_less [OF P(4)] P(1) by simp
  have date: "addDays today (int i) = Inr (formatUTCDate (?n + int i))" by (simp add: addDays_def p(1))
  note fm = format_month [OF c(1) y c(2)]
  have tod: "take 7 today = month_key ?y0 ?m0"
    using format_month(1) [OF P(11) p(2) y0] format_parse [OF p] by simp
  note ord = month_key_order [OF y c(2) b(1,2) p(2) y0 b0(1,2)]
    month_key_order(2) [OF p(2) y0 b0(1,2) y c(2) b(1,2)]
  show ?thesis
  proof (cases "y = ?y0 \<and> m = ?m0")
    case True
    have "?n + int i < make_day ?y0 ?m0 1 + month_len ?y0 ?m0"
      using month_window [OF c(1) b0(1,2)] True by blast
    then have lt: "int i < left" using n0 make_day_first [of ?y0 ?m0 "ymd_day p"] by (simp add: left_def)
    have "day_amount ?n r t (int i) = day_share r left i"
      using True by (simp add: day_amount_def P(11) c(1) left_def)
    with lt True s(3) show ?thesis by (simp add: budget_day_def date fm tod Let_def)
  next
    case False
    then have m: "month_key y m \<noteq> month_key ?y0 ?m0" "month_key ?y0 ?m0 < month_key y m"
      using ord ge by auto
    let ?a = "map (day_share t (month_len y m)) [0..<nat (month_len y m)]"
    have amt: "day_amount ?n r t (int i) = day_share t (month_len y m) (nat (d - 1))"
      using False by (auto simp: day_amount_def P(11) c(1))
    have dv: "dec_val (take 2 (drop 8 (formatUTCDate (?n + int i)))) - 1 = nat (d - 1)"
      using fm(2) by linarith
    have "?a ! nat (d - 1) = day_amount ?n r t (int i)" using b by (simp add: amt)
    moreover have "cache (month_key y m) = None \<or> cache (month_key y m) = Some ?a"
      using s(3) y c(2) b by (cases "cache (month_key y m)") (auto simp: cache_ok_def)
    ultimately show ?thesis
      using m s cache_ok_upd [OF s(3) y c(2) b(1,2)] dv month_key_props(3) [OF y c(2) b(1,2)]
        alloc_month [OF s(2) b(1,2)]
      by (cases "day_amount ?n r t (int i) = 0"; elim disjE) (simp_all add: budget_day_def date fm(1) tod Let_def)
  qed
qed

section \<open>The whole loop\<close>

lemma budget_loop_sums:
  assumes "\<And>cache i. cache_ok t cache \<Longrightarrow> i \<in> set js \<Longrightarrow>
      \<exists>cache' e. step cache i = Inr (cache', e) \<and> cache_ok t cache' \<and>
        (if A i = 0 then e = None else \<exists>x. e = Some x \<and> be_cents x = A i \<and> take 7 (be_date x) = K i)"
    and "cache_ok t cache"
  shows "\<exists>es. budget_loop step cache js = Inr es \<and>
    (\<forall>k. sum_list (map be_cents (filter (\<lambda>x. take 7 (be_date x) = k) es)) =
         sum_list (map A (filter (\<lambda>i. K i = k) js)))"
  using assms
proof (induction js arbitrary: cache)
  case (Cons i js)
  obtain cache' e where s: "step cache i = Inr (cache', e)" "cache_ok t cache'"
      "if A i = 0 then e = None else \<exists>x. e = Some x \<and> be_cents x = A i \<and> take 7 (be_date x) = K i"
    using Cons.prems(1) [of cache i] Cons.prems(2) by auto
  obtain es where "budget_loop step cache' js = Inr es"
      "\<And>k. sum_list (map be_cents (filter (\<lambda>x. take 7 (be_date x) = k) es)) =
         sum_list (map A (filter (\<lambda>i. K i = k) js))"
    using Cons.IH [OF Cons.prems(1) s(2)] by auto
  with s show ?case by (cases "A i = 0") auto
qed simp

lemma sum_window:
  fixes g :: "nat \<Rightarrow> int"
  assumes "a + b \<le> Suc h" "\<And>i. i \<le> h \<Longrightarrow> P i \<longleftrightarrow> a \<le> i \<and> i < a + b"
  shows "sum_list (map g (filter P [0..<Suc h])) = sum_list (map (\<lambda>j. g (a + j)) [0..<b])"
proof -
  obtain c where c: "Suc h = a + b + c" using assms(1) le_Suc_ex by blast
  have "[0..<Suc h] = [0..<a] @ [a..<a + b] @ [a + b..<Suc h]"
    unfolding c using upt_add_eq_append [of 0 a b] upt_add_eq_append [of 0 "a + b" c] by simp
  moreover have "filter P [0..<a] = []" "filter P [a + b..<Suc h] = []"
    using assms by (auto simp: filter_empty_conv)
  moreover have "filter P [a..<a + b] = [a..<a + b]" using assms by (intro filter_True) auto
  ultimately have "filter P [0..<Suc h] = [a..<a + b]" by simp
  also have "[a..<a + b] = map (\<lambda>j. a + j) [0..<b]" by (simp add: map_add_upt add.commute)
  finally show ?thesis by (simp add: comp_def)
qed

lemma budget_entries:
  assumes p: "parseYMD today = Inr p" "1000 \<le> ymd_year p"
    and h: "0 \<le> h" "safe_int h" "civil_of_day (ymd_date p + h) = (ye, me, de)" "ye \<le> 9999"
    and s: "safe_int r" "safe_int t"
  shows "\<exists>es. buildForecastBudgetDailyCents today h r t = Inr es \<and>
    (\<forall>k. sum_list (map be_cents (filter (\<lambda>x. take 7 (be_date x) = k) es)) =
         sum_list (map (\<lambda>i. day_amount (ymd_date p) r t (int i))
           (filter (\<lambda>i. (case civil_of_day (ymd_date p + int i) of (y, m, d) \<Rightarrow> month_key y m) = k) [0..<Suc (nat h)])))"
proof -
  note P = parseYMD_Inr [OF p(1)] and v0 = parse_date(2) [OF p(1)]
  let ?y = "ymd_year p" and ?m = "ymd_month p - 1"
  define left where "left = month_len ?y ?m - ymd_day p + 1"
  have b: "0 \<le> ?m" "?m \<le> 11" "1 \<le> ymd_day p" "ymd_day p \<le> month_len ?y ?m"
    using v0 by (auto simp: valid_civil_def)
  have l: "1 \<le> left" "left \<le> 10000" using b month_len_bounds [of ?m ?y] by (auto simp: left_def)
  have y0: "?y \<le> 9999" using P(7) dec_val_less [OF P(4)] P(1) by simp
  have ft: "formatUTCDate (ymd_date p) = today" using format_parse [OF p] .
  note fm = format_month [OF P(11) p(2) y0, unfolded ft]
  have dl: "daysInMonth (take 7 today) = Inr (month_len ?y ?m)"
    unfolding fm(1) by (rule month_key_props(3) [OF p(2) y0 b(1,2)])
  let ?step = "budget_day today (take 7 today) (map (day_share r left) [0..<nat left]) left r t"
  have "buildForecastBudgetDailyCents today h r t = budget_loop ?step Map.empty [0..<Suc (nat h)]"
    using s h(1,2) l fm(2) allocate_shares [OF s(1), of left]
    by (simp add: buildForecastBudgetDailyCents_def assertSafeTotalCents_def dl left_def [symmetric] max_absorb2 del: upt_Suc)
  moreover have "\<exists>cache' e. ?step cache i = Inr (cache', e) \<and> cache_ok t cache' \<and>
      (if day_amount (ymd_date p) r t (int i) = 0 then e = None
       else \<exists>x. e = Some x \<and> be_cents x = day_amount (ymd_date p) r t (int i) \<and>
         take 7 (be_date x) = (case civil_of_day (ymd_date p + int i) of (y, m, d) \<Rightarrow> month_key y m))"
    if "cache_ok t cache" "i \<in> set [0..<Suc (nat h)]" for cache i
  proof -
    obtain y m d where c: "civil_of_day (ymd_date p + int i) = (y, m, d)" by (cases "civil_of_day (ymd_date p + int i)")
    have "ymd_date p + int i \<le> ymd_date p + h" using that h(1) by auto
    then have "y \<le> 9999"
      using civil_order [OF make_day_civil(2) [OF h(3)] make_day_civil(2) [OF c]] h(4)
      unfolding make_day_civil(1) [OF c] make_day_civil(1) [OF h(3)] by linarith
    from budget_day_step [OF p c this s that(1)] show ?thesis
      by (auto simp: left_def Let_def c split: if_splits)
  qed
  ultimately show ?thesis
    using budget_loop_sums [OF _ cache_ok_empty, where step = ?step and t = t and js = "[0..<Suc (nat h)]"
      and A = "\<lambda>i. day_amount (ymd_date p) r t (int i)"
      and K = "\<lambda>i. case civil_of_day (ymd_date p + int i) of (y, m, d) \<Rightarrow> month_key y m"] by simp
qed

lemma month_of_horizon:
  assumes p: "parseYMD today = Inr p" "1000 \<le> ymd_year p"
    and h: "0 \<le> h" "civil_of_day (ymd_date p + h) = (ye, me, de)" "ye \<le> 9999" "i \<le> nat h"
    and m: "0 \<le> m" "m \<le> 11" and y: "1000 \<le> y" "y \<le> 9999"
  shows "(case civil_of_day (ymd_date p + int i) of (y, m, d) \<Rightarrow> month_key y m) = month_key y m \<longleftrightarrow>
    make_day y m 1 \<le> ymd_date p + int i \<and> ymd_date p + int i < make_day y m 1 + month_len y m"
proof -
  obtain y' m' d' where c: "civil_of_day (ymd_date p + int i) = (y', m', d')"
    by (cases "civil_of_day (ymd_date p + int i)")
  note v = make_day_civil [OF c] and v0 = parse_date(2) [OF p(1)] and ve = make_day_civil [OF h(2)]
  have "y' \<le> 9999" using civil_order [OF ve(2) v(2)] h(1,3,4) unfolding v(1) ve(1) by linarith
  moreover have "1000 \<le> y'"
    using civil_order [OF v(2) v0] p(2) unfolding v(1) parse_date(1) [OF p(1)] by linarith
  moreover have "0 \<le> m'" "m' \<le> 11" using v(2) by (auto simp: valid_civil_def)
  ultimately show ?thesis using month_key_order(1) [of y' m' y m] m y month_window [OF c m, of y] by (simp add: c)
qed

lemma future_shares:
  assumes p: "parseYMD today = Inr p" and m: "0 \<le> m" "m \<le> 11"
    and f: "ymd_date p < make_day y m 1" and j: "j < nat (month_len y m)"
  shows "day_amount (ymd_date p) r t (int (nat (make_day y m 1 - ymd_date p) + j)) = day_share t (month_len y m) j"
proof -
  note P = parseYMD_Inr [OF p] and v0 = parse_date(2) [OF p]
  let ?n = "ymd_date p" and ?f = "make_day y m 1"
  have n: "?n + int (nat (?f - ?n) + j) = ?f + int j" using f by simp
  obtain y' m' d' where c: "civil_of_day (?f + int j) = (y', m', d')" by (cases "civil_of_day (?f + int j)")
  have e: "y' = y" "m' = m" using month_window [OF c m, of y] j by auto
  then have d: "d' = int j + 1" using make_day_civil(1) [OF c] make_day_first [of y m d'] by simp
  have "\<not> (y = ymd_year p \<and> m = ymd_month p - 1)"
    using month_window [OF P(11) m, of y] f by auto
  then show ?thesis unfolding day_amount_def P(11) n c e d prod.case by (simp only: if_False) simp
qed

text \<open>
  The daily budget entries of a complete month add up to that month's amount: the current month
  to what remains of its budget, every later month inside the horizon to the full target.
\<close>

theorem budget_months_conserved:
  assumes p: "parseYMD today = Inr p" "1000 \<le> ymd_year p"
    and h: "0 \<le> h" "safe_int h" "civil_of_day (ymd_date p + h) = (ye, me, de)" "ye \<le> 9999"
    and s: "safe_int r" "safe_int t"
    and m: "0 \<le> m" "m \<le> 11" and y: "1000 \<le> y" "y \<le> 9999"
    and inside: "make_day y m (month_len y m) \<le> ymd_date p + h"
  shows "\<exists>es. buildForecastBudgetDailyCents today h r t = Inr es \<and>
    (y = ymd_year p \<and> m = ymd_month p - 1 \<longrightarrow>
       sum_list (map be_cents (filter (\<lambda>x. take 7 (be_date x) = month_key y m) es)) = r) \<and>
    (ymd_date p < make_day y m 1 \<longrightarrow>
       sum_list (map be_cents (filter (\<lambda>x. take 7 (be_date x) = month_key y m) es)) = t)"
proof -
  let ?n = "ymd_date p" and ?f = "make_day y m 1" and ?l = "month_len y m"
  let ?A = "\<lambda>i. day_amount ?n r t (int i)"
  let ?K = "\<lambda>i. case civil_of_day (?n + int i) of (y, m, d) \<Rightarrow> month_key y m"
  note P = parseYMD_Inr [OF p(1)] and v0 = parse_date(2) [OF p(1)] and n0 = parse_date(1) [OF p(1)]
  have len: "1 \<le> ?l" using month_len_bounds [OF m, of y] by simp
  obtain es where es: "buildForecastBudgetDailyCents today h r t = Inr es"
    and sums: "sum_list (map be_cents (filter (\<lambda>x. take 7 (be_date x) = month_key y m) es)) =
      sum_list (map ?A (filter (\<lambda>i. ?K i = month_key y m) [0..<Suc (nat h)]))"
    using budget_entries [OF p h s] by blast
  have K: "?K i = month_key y m \<longleftrightarrow> ?f \<le> ?n + int i \<and> ?n + int i < ?f + ?l" if "i \<le> nat h" for i
    using month_of_horizon [OF p h(1,3,4) that m y] .
  have last: "?f + ?l \<le> ?n + h + 1" using inside make_day_first [of y m ?l] by simp
  have r: "sum_list (map ?A (filter (\<lambda>i. ?K i = month_key y m) [0..<Suc (nat h)])) = r"
    if "y = ymd_year p" "m = ymd_month p - 1"
  proof -
    define left where "left = ?l - ymd_day p + 1"
    have v: "1 \<le> ymd_day p" "ymd_day p \<le> ?l" using v0 that by (auto simp: valid_civil_def)
    then have f: "?f + ymd_day p = ?n + 1" and l: "1 \<le> left"
      using n0 make_day_first [of y m "ymd_day p"] that by (auto simp: left_def)
    have win: "?K i = month_key y m \<longleftrightarrow> 0 \<le> i \<and> i < 0 + nat left" if "i \<le> nat h" for i
      unfolding K [OF that] using f v by (auto simp: left_def)
    have "sum_list (map ?A (filter (\<lambda>i. ?K i = month_key y m) [0..<Suc (nat h)]))
        = sum_list (map (\<lambda>j. ?A (0 + j)) [0..<nat left])"
      using f l last by (intro sum_window win) (auto simp: left_def)
    also have "\<dots> = sum_list (map (day_share r left) [0..<nat left])"
    proof (intro arg_cong [where f = sum_list] map_cong refl)
      fix j assume "j \<in> set [0..<nat left]"
      then have w: "?f \<le> ?n + int j \<and> ?n + int j < ?f + ?l"
        using f v by (auto simp: left_def)
      obtain y' m' d' where c: "civil_of_day (?n + int j) = (y', m', d')" by (cases "civil_of_day (?n + int j)")
      then have "y' = y" "m' = m" using month_window [OF c m, of y] w by simp_all
      then have "y' = ymd_year p \<and> m' = ymd_month p - 1"
        "month_len (ymd_year p) (ymd_month p - 1) - ymd_day p + 1 = left"
        using that by (simp_all add: left_def)
      then show "?A (0 + j) = day_share r left j" by (simp add: day_amount_def P(11) c)
    qed
    also have "\<dots> = r" using l by (intro day_share_sum) simp
    finally show ?thesis .
  qed
  have "sum_list (map ?A (filter (\<lambda>i. ?K i = month_key y m) [0..<Suc (nat h)])) = t" if "?n < ?f"
  proof -
    have "sum_list (map ?A (filter (\<lambda>i. ?K i = month_key y m) [0..<Suc (nat h)]))
        = sum_list (map (\<lambda>j. ?A (nat (?f - ?n) + j)) [0..<nat ?l])"
      using that last len K by (intro sum_window) auto
    also have "\<dots> = sum_list (map (day_share t ?l) [0..<nat ?l])"
      using future_shares [OF p(1) m that] by (intro arg_cong [where f = sum_list] map_cong refl) auto
    also have "\<dots> = t" using len by (intro day_share_sum) simp
    finally show ?thesis .
  qed
  with es sums r show ?thesis by auto
qed

theorem budget_months_conserved_witness:
  "\<exists>es. buildForecastBudgetDailyCents ''2024-01-30'' 31 (- 501) 100000 = Inr es \<and>
    sum_list (map be_cents (filter (\<lambda>x. take 7 (be_date x) = month_key 2024 1) es)) = 100000"
proof -
  let ?p = "\<lparr>ymd_year = 2024, ymd_month = 1, ymd_day = 30, ymd_date = 19752\<rparr>"
  have "parseYMD ''2024-01-30'' = Inr ?p" by code_simp
  moreover have "civil_of_day (ymd_date ?p + 31) = (2024, 2, 1)" by code_simp
  moreover have "make_day 2024 1 (month_len 2024 1) \<le> ymd_date ?p + 31" "ymd_date ?p < make_day 2024 1 1"
    by code_simp+
  ultimately show ?thesis
    using budget_months_conserved [of _ ?p 31 2024 2 1 "- 501" 100000 1 2024] by (simp add: safe_int_def max_safe_def)
qed

end
