(* ===== verification/AdmissionConfig.thy ===== *)
theory AdmissionConfig
  imports JsString
begin

text \<open>
  \<open>finance-dashboard/lib/admission-limits-config.js\<close>: the limits of the request admission
  controller, their defaults, their reading from the environment (a map from variable names to
  strings) and their validation.
\<close>

section \<open>The configuration\<close>

definition MAX_PRINCIPAL_ENTRIES_CAP :: int where
  "MAX_PRINCIPAL_ENTRIES_CAP = 4096"

record admission_config =
  mutationGlobalPending :: int
  mutationGlobalRunning :: int
  mutationPrincipalPending :: int
  mutationPrincipalRunning :: int
  readGlobalPending :: int
  readGlobalRunning :: int
  readPrincipalPending :: int
  readPrincipalRunning :: int
  lightweightGlobalPending :: int
  lightweightGlobalRunning :: int
  lightweightPrincipalPending :: int
  lightweightPrincipalRunning :: int
  maxPendingDepth :: int
  maxPrincipalEntries :: int
  controlReserve :: int
  recoveryReserve :: int
  cheapReserve :: int
  maxWaitMs :: int
  maxPendingAgeMs :: int
  defaultEndpointWeight :: int
  maxEndpointWeight :: int
  endpointWeights :: "(string \<times> int) list"

definition DEFAULTS :: admission_config where
  "DEFAULTS =
     \<lparr>mutationGlobalPending = 32, mutationGlobalRunning = 1,
      mutationPrincipalPending = 8, mutationPrincipalRunning = 1,
      readGlobalPending = 48, readGlobalRunning = 4,
      readPrincipalPending = 12, readPrincipalRunning = 2,
      lightweightGlobalPending = 16, lightweightGlobalRunning = 4,
      lightweightPrincipalPending = 8, lightweightPrincipalRunning = 2,
      maxPendingDepth = 64, maxPrincipalEntries = 256,
      controlReserve = 4, recoveryReserve = 4, cheapReserve = 8,
      maxWaitMs = 30000, maxPendingAgeMs = 60000,
      defaultEndpointWeight = 1, maxEndpointWeight = 8, endpointWeights = []\<rparr>"

section \<open>Reading the environment\<close>

definition parseNonNegativeInt :: "string option \<Rightarrow> string \<Rightarrow> bool \<Rightarrow> int option res" where
  "parseNonNegativeInt raw fieldName allowZero =
     (case raw of None \<Rightarrow> Inr None
      | Some s \<Rightarrow>
          if s = [] then Inr None
          else let parsed = js_parse_int s in
            if \<not> js_is_finite parsed \<or> js_to_int parsed < 0 \<or> \<not> allowZero \<and> js_to_int parsed < 1
            then Inl (PlainError (fieldName @
              (if allowZero then '' must be a non-negative integer'' else '' must be a positive integer'')))
            else Inr (Some (js_to_int parsed)))"

definition parsePositiveInt :: "string option \<Rightarrow> string \<Rightarrow> int option res" where
  "parsePositiveInt raw fieldName = parseNonNegativeInt raw fieldName False"

text \<open>The character class \<open>[a-z0-9._/-]\<close>.\<close>

definition endpoint_char :: "char \<Rightarrow> bool" where
  "endpoint_char c \<longleftrightarrow> (let n = of_char c :: nat in
     97 \<le> n \<and> n \<le> 122 \<or> is_digit c \<or> c \<in> set ''._/-'')"

definition parse_weight_entry :: "int \<Rightarrow> (string \<times> int) list \<Rightarrow> string \<Rightarrow> (string \<times> int) list res" where
  "parse_weight_entry maxWeight weights entry =
     (let trimmed = js_trim entry;
          malformed = PlainError ''FINANCE_ADMISSION_ENDPOINT_WEIGHTS entries must be endpoint:weight''
      in if trimmed = [] then Inr weights
         else case js_index_of (CHR '':'') trimmed of
           None \<Rightarrow> Inl malformed
         | Some colon \<Rightarrow>
             if colon = 0 \<or> length trimmed \<le> colon + 1 then Inl malformed
             else let endpoint = js_lower (js_trim (take colon trimmed)) in
               ebind (parsePositiveInt (Some (js_trim (drop (colon + 1) trimmed)))
                        ''FINANCE_ADMISSION_ENDPOINT_WEIGHTS weight'') (\<lambda>weight.
               if \<not> (list_all endpoint_char endpoint \<and> 1 \<le> length endpoint \<and> length endpoint \<le> 64)
               then Inl (PlainError ''FINANCE_ADMISSION_ENDPOINT_WEIGHTS endpoint is malformed'')
               else case weight of
                 None \<Rightarrow> Inr weights
               | Some w \<Rightarrow>
                   if maxWeight < w
                   then Inl (PlainError ''FINANCE_ADMISSION_ENDPOINT_WEIGHTS weight exceeds max'')
                   else Inr ((endpoint, w) # filter (\<lambda>(e, _). e \<noteq> endpoint) weights)))"

fun parse_weight_entries :: "int \<Rightarrow> (string \<times> int) list \<Rightarrow> string list \<Rightarrow> (string \<times> int) list res" where
  "parse_weight_entries maxWeight weights [] = Inr weights"
| "parse_weight_entries maxWeight weights (e # es) =
     ebind (parse_weight_entry maxWeight weights e) (\<lambda>ws. parse_weight_entries maxWeight ws es)"

definition parseEndpointWeights :: "string option \<Rightarrow> int \<Rightarrow> (string \<times> int) list res" where
  "parseEndpointWeights raw maxWeight =
     (case raw of None \<Rightarrow> Inr []
      | Some s \<Rightarrow> if js_trim s = [] then Inr []
                  else parse_weight_entries maxWeight [] (js_split (CHR '','') s))"

section \<open>Validation\<close>

text \<open>The checks of \<open>validateConfig\<close>, in their order; the first that fails throws.\<close>

definition config_checks :: "admission_config \<Rightarrow> (bool \<times> string) list" where
  "config_checks c =
     [(mutationGlobalPending c < mutationGlobalRunning c,
         ''mutation global running cannot exceed global pending''),
      (mutationPrincipalPending c < mutationPrincipalRunning c,
         ''mutation principal running cannot exceed principal pending''),
      (readGlobalPending c < readGlobalRunning c,
         ''read global running cannot exceed global pending''),
      (readPrincipalPending c < readPrincipalRunning c,
         ''read principal running cannot exceed principal pending''),
      (lightweightGlobalPending c < lightweightGlobalRunning c,
         ''lightweight global running cannot exceed global pending''),
      (lightweightPrincipalPending c < lightweightPrincipalRunning c,
         ''lightweight principal running cannot exceed principal pending''),
      (MAX_PRINCIPAL_ENTRIES_CAP < maxPrincipalEntries c,
         ''maxPrincipalEntries cannot exceed 4096''),
      (mutationGlobalPending c \<le> controlReserve c \<and> 0 < controlReserve c,
         ''control reserve must be smaller than mutation global pending''),
      (readGlobalPending c \<le> controlReserve c \<and> 0 < controlReserve c,
         ''control reserve must be smaller than read global pending''),
      (mutationGlobalPending c \<le> recoveryReserve c \<and> 0 < recoveryReserve c,
         ''recovery reserve must be smaller than mutation global pending''),
      (readGlobalPending c \<le> cheapReserve c \<and> 0 < cheapReserve c,
         ''cheap reserve must be smaller than read global pending''),
      (mutationGlobalPending c - controlReserve c - recoveryReserve c < mutationGlobalRunning c,
         ''mutation ordinary capacity is smaller than global running''),
      (readGlobalPending c - controlReserve c - cheapReserve c < readGlobalRunning c,
         ''read ordinary capacity is smaller than global running''),
      (maxPendingDepth c < mutationGlobalRunning c,
         ''max pending depth must be at least mutation global running''),
      (maxPendingDepth c < readGlobalRunning c,
         ''max pending depth must be at least read global running''),
      (maxPendingDepth c < lightweightGlobalRunning c,
         ''max pending depth must be at least lightweight global running'')]"

definition validateConfig :: "admission_config \<Rightarrow> admission_config res" where
  "validateConfig c =
     (case find fst (config_checks c) of
        Some (_, msg) \<Rightarrow> Inl (PlainError msg)
      | None \<Rightarrow> Inr c)"

text \<open>
  \<open>INT_FIELDS\<close> with \<open>ENV_MAP\<close>: the environment variable of a field, whether it is one of the
  reserves (which may be zero), and the assignment \<open>config[field] = parsed\<close>.
\<close>

type_synonym config_field = "string \<times> bool \<times> (int \<Rightarrow> admission_config \<Rightarrow> admission_config)"

definition int_fields :: "config_field list" where
  "int_fields =
     [(''FINANCE_ADMISSION_MUTATION_GLOBAL_PENDING'', False, \<lambda>v c. c\<lparr>mutationGlobalPending := v\<rparr>),
      (''FINANCE_ADMISSION_MUTATION_GLOBAL_RUNNING'', False, \<lambda>v c. c\<lparr>mutationGlobalRunning := v\<rparr>),
      (''FINANCE_ADMISSION_MUTATION_PRINCIPAL_PENDING'', False, \<lambda>v c. c\<lparr>mutationPrincipalPending := v\<rparr>),
      (''FINANCE_ADMISSION_MUTATION_PRINCIPAL_RUNNING'', False, \<lambda>v c. c\<lparr>mutationPrincipalRunning := v\<rparr>),
      (''FINANCE_ADMISSION_READ_GLOBAL_PENDING'', False, \<lambda>v c. c\<lparr>readGlobalPending := v\<rparr>),
      (''FINANCE_ADMISSION_READ_GLOBAL_RUNNING'', False, \<lambda>v c. c\<lparr>readGlobalRunning := v\<rparr>),
      (''FINANCE_ADMISSION_READ_PRINCIPAL_PENDING'', False, \<lambda>v c. c\<lparr>readPrincipalPending := v\<rparr>),
      (''FINANCE_ADMISSION_READ_PRINCIPAL_RUNNING'', False, \<lambda>v c. c\<lparr>readPrincipalRunning := v\<rparr>),
      (''FINANCE_ADMISSION_LIGHTWEIGHT_GLOBAL_PENDING'', False, \<lambda>v c. c\<lparr>lightweightGlobalPending := v\<rparr>),
      (''FINANCE_ADMISSION_LIGHTWEIGHT_GLOBAL_RUNNING'', False, \<lambda>v c. c\<lparr>lightweightGlobalRunning := v\<rparr>),
      (''FINANCE_ADMISSION_LIGHTWEIGHT_PRINCIPAL_PENDING'', False, \<lambda>v c. c\<lparr>lightweightPrincipalPending := v\<rparr>),
      (''FINANCE_ADMISSION_LIGHTWEIGHT_PRINCIPAL_RUNNING'', False, \<lambda>v c. c\<lparr>lightweightPrincipalRunning := v\<rparr>),
      (''FINANCE_ADMISSION_MAX_PENDING_DEPTH'', False, \<lambda>v c. c\<lparr>maxPendingDepth := v\<rparr>),
      (''FINANCE_ADMISSION_MAX_PRINCIPAL_ENTRIES'', False, \<lambda>v c. c\<lparr>maxPrincipalEntries := v\<rparr>),
      (''FINANCE_ADMISSION_CONTROL_RESERVE'', True, \<lambda>v c. c\<lparr>controlReserve := v\<rparr>),
      (''FINANCE_ADMISSION_RECOVERY_RESERVE'', True, \<lambda>v c. c\<lparr>recoveryReserve := v\<rparr>),
      (''FINANCE_ADMISSION_CHEAP_RESERVE'', True, \<lambda>v c. c\<lparr>cheapReserve := v\<rparr>),
      (''FINANCE_ADMISSION_MAX_WAIT_MS'', False, \<lambda>v c. c\<lparr>maxWaitMs := v\<rparr>),
      (''FINANCE_ADMISSION_MAX_PENDING_AGE_MS'', False, \<lambda>v c. c\<lparr>maxPendingAgeMs := v\<rparr>),
      (''FINANCE_ADMISSION_DEFAULT_ENDPOINT_WEIGHT'', False, \<lambda>v c. c\<lparr>defaultEndpointWeight := v\<rparr>),
      (''FINANCE_ADMISSION_MAX_ENDPOINT_WEIGHT'', False, \<lambda>v c. c\<lparr>maxEndpointWeight := v\<rparr>)]"

fun read_fields :: "(string \<Rightarrow> string option) \<Rightarrow> config_field list \<Rightarrow> admission_config \<Rightarrow> admission_config res" where
  "read_fields env [] c = Inr c"
| "read_fields env ((name, reserve, set_field) # fs) c =
     ebind (parseNonNegativeInt (env name) name reserve) (\<lambda>parsed.
     read_fields env fs (case parsed of None \<Rightarrow> c | Some v \<Rightarrow> set_field v c))"

definition loadAdmissionLimitsConfig :: "(string \<Rightarrow> string option) \<Rightarrow> admission_config res" where
  "loadAdmissionLimitsConfig env =
     ebind (read_fields env int_fields DEFAULTS) (\<lambda>c.
     ebind (parseEndpointWeights (env ''FINANCE_ADMISSION_ENDPOINT_WEIGHTS'') (maxEndpointWeight c)) (\<lambda>ws.
     validateConfig (c\<lparr>endpointWeights := ws\<rparr>)))"

section \<open>What a loaded configuration guarantees\<close>

definition positive_fields :: "admission_config \<Rightarrow> bool" where
  "positive_fields c \<longleftrightarrow>
     1 \<le> mutationGlobalPending c \<and> 1 \<le> mutationGlobalRunning c \<and>
     1 \<le> mutationPrincipalPending c \<and> 1 \<le> mutationPrincipalRunning c \<and>
     1 \<le> readGlobalPending c \<and> 1 \<le> readGlobalRunning c \<and>
     1 \<le> readPrincipalPending c \<and> 1 \<le> readPrincipalRunning c \<and>
     1 \<le> lightweightGlobalPending c \<and> 1 \<le> lightweightGlobalRunning c \<and>
     1 \<le> lightweightPrincipalPending c \<and> 1 \<le> lightweightPrincipalRunning c \<and>
     1 \<le> maxPendingDepth c \<and> 1 \<le> maxPrincipalEntries c \<and>
     0 \<le> controlReserve c \<and> 0 \<le> recoveryReserve c \<and> 0 \<le> cheapReserve c \<and>
     1 \<le> maxWaitMs c \<and> 1 \<le> maxPendingAgeMs c \<and>
     1 \<le> defaultEndpointWeight c \<and> 1 \<le> maxEndpointWeight c"

definition weights_ok :: "int \<Rightarrow> (string \<times> int) list \<Rightarrow> bool" where
  "weights_ok m ws \<longleftrightarrow> list_all (\<lambda>(e, w). 1 \<le> w \<and> w \<le> m \<and> list_all endpoint_char e \<and>
     1 \<le> length e \<and> length e \<le> 64) ws \<and> distinct (map fst ws)"

lemma parse_int_bounds:
  "parseNonNegativeInt raw name allowZero = Inr (Some v) \<Longrightarrow> (if allowZero then 0 else 1) \<le> v"
  by (auto simp: parseNonNegativeInt_def Let_def split: option.splits if_splits)

lemma read_fields_positive:
  assumes "list_all (\<lambda>(_, reserve, set_field).
      \<forall>v c. positive_fields c \<longrightarrow> (if reserve then 0 else 1) \<le> v \<longrightarrow>
        positive_fields (set_field v c) \<and> endpointWeights (set_field v c) = endpointWeights c) fs"
    and "read_fields env fs c = Inr c'" "positive_fields c"
  shows "positive_fields c' \<and> endpointWeights c' = endpointWeights c"
  using assms
proof (induction env fs c rule: read_fields.induct)
  case (2 env name reserve set_field fs c)
  then obtain parsed where p: "parseNonNegativeInt (env name) name reserve = Inr parsed"
    and r: "read_fields env fs (case parsed of None \<Rightarrow> c | Some v \<Rightarrow> set_field v c) = Inr c'"
    by (auto simp: res_simps)
  let ?d = "case parsed of None \<Rightarrow> c | Some v \<Rightarrow> set_field v c"
  have "positive_fields ?d \<and> endpointWeights ?d = endpointWeights c"
    using 2(2,4) p parse_int_bounds by (cases parsed) (fastforce)+
  with 2(1) [OF p _ r] 2(2) show ?case by simp
qed simp

lemma int_fields_positive:
  "list_all (\<lambda>(_, reserve, set_field).
      \<forall>v c. positive_fields c \<longrightarrow> (if reserve then 0 else 1) \<le> v \<longrightarrow>
        positive_fields (set_field v c) \<and> endpointWeights (set_field v c) = endpointWeights c) int_fields"
  by (simp add: int_fields_def positive_fields_def)

lemma weights_ok_insert:
  assumes "weights_ok m ws" "1 \<le> w" "w \<le> m"
    and "list_all endpoint_char e \<and> 1 \<le> length e \<and> length e \<le> 64"
  shows "weights_ok m ((e, w) # filter (\<lambda>(e', _). e' \<noteq> e) ws)"
  using assms by (auto simp: weights_ok_def list_all_iff intro: distinct_map_filter)

lemma weight_entry_ok:
  assumes "parse_weight_entry m ws entry = Inr ws'" "weights_ok m ws"
  shows "weights_ok m ws'"
proof (cases "ws' = ws")
  case False
  let ?t = "js_trim entry"
  obtain k where k: "js_index_of (CHR '':'') ?t = Some k"
    using assms False by (auto simp: parse_weight_entry_def Let_def split: option.splits if_splits)
  define e where "e = js_lower (js_trim (take k ?t))"
  obtain w where "parsePositiveInt (Some (js_trim (drop (k + 1) ?t))) ''FINANCE_ADMISSION_ENDPOINT_WEIGHTS weight'' = Inr (Some w)"
    and e: "list_all endpoint_char e \<and> 1 \<le> length e \<and> length e \<le> 64" and w: "w \<le> m"
    and ws': "ws' = (e, w) # filter (\<lambda>(e', _). e' \<noteq> e) ws"
    using assms False k unfolding parse_weight_entry_def Let_def
    by (simp add: res_simps split: if_splits) (auto simp: e_def split: option.splits if_splits)
  then show ?thesis
    using weights_ok_insert [OF assms(2)] parse_int_bounds by (fastforce simp: parsePositiveInt_def)
qed (use assms in simp)

lemma weight_entries_ok:
  "parse_weight_entries m ws es = Inr ws' \<Longrightarrow> weights_ok m ws \<Longrightarrow> weights_ok m ws'"
  by (induction m ws es rule: parse_weight_entries.induct) (auto simp: res_simps dest: weight_entry_ok)

lemma loaded_config_facts:
  assumes "loadAdmissionLimitsConfig env = Inr c"
  shows "positive_fields c" "weights_ok (maxEndpointWeight c) (endpointWeights c)"
    "list_all (\<lambda>(b, _). \<not> b) (config_checks c)"
    "mutationGlobalRunning c \<le> mutationGlobalPending c - controlReserve c - recoveryReserve c"
    "readGlobalRunning c \<le> readGlobalPending c - controlReserve c - cheapReserve c"
proof -
  from assms obtain c0 ws where r: "read_fields env int_fields DEFAULTS = Inr c0"
    and w: "parseEndpointWeights (env ''FINANCE_ADMISSION_ENDPOINT_WEIGHTS'') (maxEndpointWeight c0) = Inr ws"
    and v: "validateConfig (c0\<lparr>endpointWeights := ws\<rparr>) = Inr c"
    by (auto simp: loadAdmissionLimitsConfig_def res_simps)
  have "positive_fields DEFAULTS" by (simp add: DEFAULTS_def positive_fields_def)
  then have p: "positive_fields c0" using read_fields_positive [OF int_fields_positive r] by simp
  have "weights_ok (maxEndpointWeight c0) []" by (simp add: weights_ok_def)
  then have ws: "weights_ok (maxEndpointWeight c0) ws"
    using w weight_entries_ok by (auto simp: parseEndpointWeights_def split: option.splits if_splits)
  have c: "c = c0\<lparr>endpointWeights := ws\<rparr>" and f: "find fst (config_checks c) = None"
    using v by (auto simp: validateConfig_def split: option.splits)
  from f show l: "list_all (\<lambda>(b, _). \<not> b) (config_checks c)" by (auto simp: find_None_iff list_all_iff)
  show "positive_fields c" "weights_ok (maxEndpointWeight c) (endpointWeights c)"
    using p ws by (simp_all add: c positive_fields_def)
  show "mutationGlobalRunning c \<le> mutationGlobalPending c - controlReserve c - recoveryReserve c"
    "readGlobalRunning c \<le> readGlobalPending c - controlReserve c - cheapReserve c"
    using l by (simp_all add: config_checks_def)
qed

text \<open>
  Loading the configuration throws or gives limits that fit together: every limit is positive,
  no lane runs more than it may keep pending, the capacity that the reserves leave for ordinary
  traffic covers a full lane, and every endpoint weight lies between one and the maximum.
\<close>

theorem loaded_config_sound:
  "case loadAdmissionLimitsConfig env of
     Inl _ \<Rightarrow> True
   | Inr c \<Rightarrow> positive_fields c \<and> maxPrincipalEntries c \<le> 4096 \<and>
       mutationGlobalRunning c \<le> mutationGlobalPending c - controlReserve c - recoveryReserve c \<and>
       readGlobalRunning c \<le> readGlobalPending c - controlReserve c - cheapReserve c \<and>
       lightweightGlobalRunning c \<le> lightweightGlobalPending c \<and>
       max (mutationGlobalRunning c) (max (readGlobalRunning c) (lightweightGlobalRunning c)) \<le> maxPendingDepth c \<and>
       mutationPrincipalRunning c \<le> mutationPrincipalPending c \<and>
       readPrincipalRunning c \<le> readPrincipalPending c \<and>
       lightweightPrincipalRunning c \<le> lightweightPrincipalPending c \<and>
       weights_ok (maxEndpointWeight c) (endpointWeights c)"
proof (cases "loadAdmissionLimitsConfig env")
  case (Inr c)
  note f = loaded_config_facts [OF Inr]
  from f(3) f(1,2) show ?thesis
    unfolding Inr sum.case by (simp add: config_checks_def MAX_PRINCIPAL_ENTRIES_CAP_def)
qed simp

end
