(* ===== verification/RequestAdmission.thy ===== *)
theory RequestAdmission
  imports AdmissionConfig "HOL-Library.AList" "HOL-Library.Multiset"
begin

text \<open>
  \<open>finance-dashboard/lib/request-admission.js\<close>: the admission controller. A request asks for a
  lane; it is started, queued behind its principal's other requests, or refused. Releasing a
  ticket promotes waiters, reserved traffic classes first, then principals in round robin.

  A JavaScript \<open>Map\<close> is an association list in insertion order (\<^const>\<open>AList.update\<close> keeps the
  place of a key, \<^const>\<open>AList.delete\<close> and a new key put it at the end). Tickets are objects that
  the code aliases, so they live in a store and are named by their address. A waiter's deferred
  promise is named by the waiter's number. The clock is an argument of each operation.
\<close>

section \<open>State\<close>

datatype traffic = Ordinary | Control | Recovery | Cheap

datatype lane = Mutation | Read_lane | Lightweight

record lane_limits =
  ll_globalPending :: int
  ll_globalRunning :: int
  ll_principalPending :: int
  ll_principalRunning :: int
  ll_classReserve :: "traffic \<Rightarrow> int option"
  ll_ordinaryCap :: int

definition laneLimits :: "admission_config \<Rightarrow> lane \<Rightarrow> lane_limits" where
  "laneLimits c lane = (case lane of
     Mutation \<Rightarrow>
       \<lparr>ll_globalPending = mutationGlobalPending c, ll_globalRunning = mutationGlobalRunning c,
        ll_principalPending = mutationPrincipalPending c, ll_principalRunning = mutationPrincipalRunning c,
        ll_classReserve = Map.empty(Control \<mapsto> controlReserve c, Recovery \<mapsto> recoveryReserve c),
        ll_ordinaryCap = mutationGlobalPending c - controlReserve c - recoveryReserve c\<rparr>
   | Lightweight \<Rightarrow>
       \<lparr>ll_globalPending = lightweightGlobalPending c, ll_globalRunning = lightweightGlobalRunning c,
        ll_principalPending = lightweightPrincipalPending c, ll_principalRunning = lightweightPrincipalRunning c,
        ll_classReserve = Map.empty,
        ll_ordinaryCap = lightweightGlobalPending c\<rparr>
   | Read_lane \<Rightarrow>
       \<lparr>ll_globalPending = readGlobalPending c, ll_globalRunning = readGlobalRunning c,
        ll_principalPending = readPrincipalPending c, ll_principalRunning = readPrincipalRunning c,
        ll_classReserve = Map.empty(Control \<mapsto> controlReserve c, Cheap \<mapsto> cheapReserve c),
        ll_ordinaryCap = readGlobalPending c - controlReserve c - cheapReserve c\<rparr>)"

record bucket =
  bk_pending :: int
  bk_running :: int
  bk_lastAccess :: int

record waiter =
  w_id :: nat
  w_lane :: lane
  w_principal :: string
  w_weight :: int
  w_endpoint :: string
  w_class :: traffic
  w_enqueuedAt :: int

record lane_state =
  ls_pending :: int
  ls_running :: int
  ls_classPending :: "traffic \<Rightarrow> int"
  ls_classRunning :: "traffic \<Rightarrow> int"
  ls_principals :: "(string \<times> bucket) list"
  ls_waiters :: "(string \<times> waiter list) list"
  ls_rr :: "string list"
  ls_cursor :: nat
  ls_waiterCount :: int

definition createLaneState :: lane_state where
  "createLaneState =
     \<lparr>ls_pending = 0, ls_running = 0, ls_classPending = \<lambda>_. 0, ls_classRunning = \<lambda>_. 0,
      ls_principals = [], ls_waiters = [], ls_rr = [], ls_cursor = 0, ls_waiterCount = 0\<rparr>"

section \<open>Principals and their buckets\<close>

definition bucketIsActive :: "bucket \<Rightarrow> bool" where
  "bucketIsActive b \<longleftrightarrow> 0 < bk_pending b \<or> 0 < bk_running b"

text \<open>The inactive bucket that was used least recently, the first of them on a tie.\<close>

fun evict_scan :: "(string \<times> bucket) list \<Rightarrow> (string \<times> int) option \<Rightarrow> (string \<times> int) option" where
  "evict_scan [] best = best"
| "evict_scan ((key, b) # ps) best =
     evict_scan ps
       (if bucketIsActive b then best
        else case best of None \<Rightarrow> Some (key, bk_lastAccess b)
             | Some (_, access) \<Rightarrow> if bk_lastAccess b < access then Some (key, bk_lastAccess b) else best)"

text \<open>
  \<open>_touchPrincipalBucket\<close>, followed by \<open>bucket.pending += weight\<close> of its only caller
  \<open>_reserve\<close>; \<open>None\<close> where the map of principals is full of active ones.
\<close>

definition touchPrincipalBucket ::
  "admission_config \<Rightarrow> int \<Rightarrow> string \<Rightarrow> (string \<times> bucket) list \<Rightarrow> (bucket \<times> (string \<times> bucket) list) option"
where
  "touchPrincipalBucket cfg now prin ps =
     (case map_of ps prin of
        Some b \<Rightarrow> let b' = b\<lparr>bk_lastAccess := now\<rparr> in
          Some (b', AList.update prin b' (AList.delete prin ps))
      | None \<Rightarrow>
          let fresh = \<lparr>bk_pending = 0, bk_running = 0, bk_lastAccess = now\<rparr> in
          if int (length ps) \<ge> maxPrincipalEntries cfg
          then (case evict_scan ps None of
                  None \<Rightarrow> None
                | Some (key, _) \<Rightarrow> Some (fresh, AList.update prin fresh (AList.delete key ps)))
          else Some (fresh, AList.update prin fresh ps))"

definition bucket_of :: "lane_state \<Rightarrow> string \<Rightarrow> bucket option" where
  "bucket_of ls p = map_of (ls_principals ls) p"

definition endpointWeight :: "admission_config \<Rightarrow> string \<Rightarrow> int" where
  "endpointWeight cfg endpoint =
     (case map_of (endpointWeights cfg) (js_lower endpoint) of
        Some w \<Rightarrow> w | None \<Rightarrow> defaultEndpointWeight cfg)"

section \<open>Capacity checks\<close>

definition classLimit :: "lane_limits \<Rightarrow> traffic \<Rightarrow> int" where
  "classLimit lims c =
     (if c = Ordinary then ll_ordinaryCap lims
      else case ll_classReserve lims c of Some r \<Rightarrow> r | None \<Rightarrow> ll_globalPending lims)"

definition canAddRunning :: "lane_state \<Rightarrow> lane_limits \<Rightarrow> traffic \<Rightarrow> int \<Rightarrow> bool" where
  "canAddRunning ls lims c w =
     (if c = Ordinary then ls_classRunning ls Ordinary + w \<le> ll_globalRunning lims
      else case ll_classReserve lims c of
             Some r \<Rightarrow> if 0 < r then ls_classRunning ls c + w \<le> r
                       else ls_running ls + w \<le> ll_globalRunning lims
           | None \<Rightarrow> ls_running ls + w \<le> ll_globalRunning lims)"

definition canAdmitClass :: "lane_state \<Rightarrow> lane_limits \<Rightarrow> traffic \<Rightarrow> int \<Rightarrow> bool" where
  "canAdmitClass ls lims c w \<longleftrightarrow> ls_classPending ls c + ls_classRunning ls c + w \<le> classLimit lims c"

definition principalCanAddPending :: "lane_state \<Rightarrow> lane_limits \<Rightarrow> string \<Rightarrow> int \<Rightarrow> bool" where
  "principalCanAddPending ls lims p w \<longleftrightarrow>
     (case bucket_of ls p of Some b \<Rightarrow> bk_pending b | None \<Rightarrow> 0) + w \<le> ll_principalPending lims"

definition principalCanAddRunning :: "lane_state \<Rightarrow> lane_limits \<Rightarrow> string \<Rightarrow> int \<Rightarrow> bool" where
  "principalCanAddRunning ls lims p w \<longleftrightarrow>
     (case bucket_of ls p of Some b \<Rightarrow> bk_running b | None \<Rightarrow> 0) + w \<le> ll_principalRunning lims"

definition canPromoteWaiter :: "lane_state \<Rightarrow> lane_limits \<Rightarrow> waiter \<Rightarrow> bool" where
  "canPromoteWaiter ls lims w \<longleftrightarrow>
     canAddRunning ls lims (w_class w) (w_weight w) \<and>
     principalCanAddRunning ls lims (w_principal w) (w_weight w)"

definition canStartNow :: "admission_config \<Rightarrow> lane_state \<Rightarrow> lane_limits \<Rightarrow> string \<Rightarrow> int \<Rightarrow> traffic \<Rightarrow> bool" where
  "canStartNow cfg ls lims p w c \<longleftrightarrow>
     ls_pending ls + w \<le> ll_globalPending lims \<and>
     canAddRunning ls lims c w \<and>
     canAdmitClass ls lims c w \<and>
     principalCanAddPending ls lims p w \<and>
     principalCanAddRunning ls lims p w \<and>
     ls_pending ls + ls_running ls + w \<le> maxPendingDepth cfg"

definition canQueue :: "admission_config \<Rightarrow> lane_state \<Rightarrow> lane_limits \<Rightarrow> string \<Rightarrow> int \<Rightarrow> traffic \<Rightarrow> bool" where
  "canQueue cfg ls lims p w c \<longleftrightarrow>
     ls_pending ls + w \<le> ll_globalPending lims \<and>
     canAdmitClass ls lims c w \<and>
     principalCanAddPending ls lims p w \<and>
     ls_pending ls + ls_running ls + w \<le> maxPendingDepth cfg"

section \<open>Counters\<close>

definition reserve :: "admission_config \<Rightarrow> int \<Rightarrow> string \<Rightarrow> int \<Rightarrow> traffic \<Rightarrow> lane_state \<Rightarrow> lane_state option" where
  "reserve cfg now p w c ls =
     (case touchPrincipalBucket cfg now p (ls_principals ls) of
        None \<Rightarrow> None
      | Some (b, ps) \<Rightarrow> Some (ls\<lparr>
          ls_pending := ls_pending ls + w,
          ls_classPending := (ls_classPending ls)(c := ls_classPending ls c + w),
          ls_principals := AList.update p (b\<lparr>bk_pending := bk_pending b + w\<rparr>) ps\<rparr>))"

text \<open>An update of the principal's bucket where it exists.\<close>

definition with_bucket :: "string \<Rightarrow> (bucket \<Rightarrow> bucket) \<Rightarrow> lane_state \<Rightarrow> lane_state" where
  "with_bucket p f ls =
     (case bucket_of ls p of None \<Rightarrow> ls
      | Some b \<Rightarrow> ls\<lparr>ls_principals := AList.update p (f b) (ls_principals ls)\<rparr>)"

definition promoteToRunning :: "int \<Rightarrow> string \<Rightarrow> int \<Rightarrow> traffic \<Rightarrow> lane_state \<Rightarrow> lane_state" where
  "promoteToRunning now p w c ls =
     with_bucket p (\<lambda>b. \<lparr>bk_pending = bk_pending b - w, bk_running = bk_running b + w, bk_lastAccess = now\<rparr>)
       (ls\<lparr>ls_pending := ls_pending ls - w,
           ls_running := ls_running ls + w,
           ls_classPending := (ls_classPending ls)(c := ls_classPending ls c - w),
           ls_classRunning := (ls_classRunning ls)(c := ls_classRunning ls c + w)\<rparr>)"

definition releasePending :: "int \<Rightarrow> string \<Rightarrow> int \<Rightarrow> traffic \<Rightarrow> lane_state \<Rightarrow> lane_state" where
  "releasePending now p w c ls =
     with_bucket p (\<lambda>b. b\<lparr>bk_pending := max 0 (bk_pending b - w), bk_lastAccess := now\<rparr>)
       (ls\<lparr>ls_pending := max 0 (ls_pending ls - w),
           ls_classPending := (ls_classPending ls)(c := max 0 (ls_classPending ls c - w))\<rparr>)"

definition releaseRunning :: "int \<Rightarrow> string \<Rightarrow> int \<Rightarrow> traffic \<Rightarrow> lane_state \<Rightarrow> lane_state" where
  "releaseRunning now p w c ls =
     with_bucket p (\<lambda>b. b\<lparr>bk_running := max 0 (bk_running b - w), bk_lastAccess := now\<rparr>)
       (ls\<lparr>ls_running := max 0 (ls_running ls - w),
           ls_classRunning := (ls_classRunning ls)(c := max 0 (ls_classRunning ls c - w))\<rparr>)"

section \<open>The queues of a lane\<close>

text \<open>\<open>_removeWaiter\<close>; \<open>None\<close> where it returns false.\<close>

definition removeWaiter :: "lane_state \<Rightarrow> waiter \<Rightarrow> lane_state option" where
  "removeWaiter ls w =
     (case map_of (ls_waiters ls) (w_principal w) of
        None \<Rightarrow> None
      | Some queue \<Rightarrow>
          if w \<notin> set queue then None
          else let queue' = remove1 w queue;
                   ls' = ls\<lparr>ls_waiterCount := ls_waiterCount ls - 1\<rparr>
            in if queue' \<noteq> []
               then Some (ls'\<lparr>ls_waiters := AList.update (w_principal w) queue' (ls_waiters ls)\<rparr>)
               else let ls'' = ls'\<lparr>ls_waiters := AList.delete (w_principal w) (ls_waiters ls)\<rparr>
                 in if w_principal w \<in> set (ls_rr ls)
                    then let rr = remove1 (w_principal w) (ls_rr ls)
                      in Some (ls''\<lparr>ls_rr := rr,
                           ls_cursor := (if ls_cursor ls \<ge> length rr then 0 else ls_cursor ls)\<rparr>)
                    else Some ls'')"

definition enqueueWaiter :: "lane_state \<Rightarrow> waiter \<Rightarrow> lane_state" where
  "enqueueWaiter ls w =
     (case map_of (ls_waiters ls) (w_principal w) of
        Some queue \<Rightarrow> ls\<lparr>ls_waiters := AList.update (w_principal w) (queue @ [w]) (ls_waiters ls),
                        ls_waiterCount := ls_waiterCount ls + 1\<rparr>
      | None \<Rightarrow> ls\<lparr>ls_waiters := AList.update (w_principal w) [w] (ls_waiters ls),
                  ls_rr := ls_rr ls @ [w_principal w],
                  ls_waiterCount := ls_waiterCount ls + 1\<rparr>)"

text \<open>The effect of \<open>_removeWaiter\<close> and \<open>_resolveWaiter\<close> on the lane.\<close>

definition start_waiter :: "int \<Rightarrow> lane_state \<Rightarrow> waiter \<Rightarrow> lane_state" where
  "start_waiter now ls w =
     promoteToRunning now (w_principal w) (w_weight w) (w_class w)
       (case removeWaiter ls w of Some ls' \<Rightarrow> ls' | None \<Rightarrow> ls)"

text \<open>\<open>_drainLaneForClass\<close>: the waiter it starts, \<open>None\<close> where it returns false.\<close>

definition class_candidate :: "lane_limits \<Rightarrow> traffic \<Rightarrow> lane_state \<Rightarrow> waiter option" where
  "class_candidate lims c ls =
     map_option (\<lambda>(_, queue). hd queue)
       (find (\<lambda>(_, queue). queue \<noteq> [] \<and> w_class (hd queue) = c \<and> canPromoteWaiter ls lims (hd queue))
         (ls_waiters ls))"

definition drainLaneForClass ::
  "lane_limits \<Rightarrow> int \<Rightarrow> traffic \<Rightarrow> lane_state \<Rightarrow> (lane_state \<times> waiter) option"
where
  "drainLaneForClass lims now c ls =
     map_option (\<lambda>w. (start_waiter now ls w, w)) (class_candidate lims c ls)"

text \<open>
  The loops of \<open>_drainLane\<close>. Each returns the waiters it started, in order. The first argument
  bounds the number of passes; the number of waiters is enough, see \<open>drain_lane_done\<close>.
\<close>

fun drain_class_loop ::
  "nat \<Rightarrow> lane_limits \<Rightarrow> int \<Rightarrow> traffic \<Rightarrow> lane_state \<Rightarrow> lane_state \<times> waiter list"
where
  "drain_class_loop 0 lims now c ls = (ls, [])"
| "drain_class_loop (Suc n) lims now c ls =
     (case drainLaneForClass lims now c ls of
        None \<Rightarrow> (ls, [])
      | Some (ls', w) \<Rightarrow> (let (ls'', ws) = drain_class_loop n lims now c ls' in (ls'', w # ws)))"

fun drain_rr_loop ::
  "nat \<Rightarrow> lane_limits \<Rightarrow> int \<Rightarrow> nat \<Rightarrow> nat \<Rightarrow> lane_state \<Rightarrow> lane_state \<times> waiter list"
where
  "drain_rr_loop 0 lims now maxScans scanned ls = (ls, [])"
| "drain_rr_loop (Suc n) lims now maxScans scanned ls =
     (if \<not> (0 < ls_waiterCount ls \<and> scanned < maxScans) \<or> ls_rr ls = [] then (ls, [])
      else let idx = ls_cursor ls mod length (ls_rr ls);
               prin = ls_rr ls ! idx;
               ls1 = ls\<lparr>ls_cursor := (idx + 1) mod length (ls_rr ls)\<rparr>
        in case map_of (ls_waiters ls1) prin of
             None \<Rightarrow> drain_rr_loop n lims now maxScans (Suc scanned) ls1
           | Some [] \<Rightarrow> drain_rr_loop n lims now maxScans (Suc scanned) ls1
           | Some (w # _) \<Rightarrow>
               if \<not> canPromoteWaiter ls1 lims w
               then drain_rr_loop n lims now maxScans (Suc scanned) ls1
               else let (ls2, ws) = drain_rr_loop n lims now maxScans 0 (start_waiter now ls1 w)
                 in (ls2, w # ws))"

definition rr_fuel :: "lane_state \<Rightarrow> nat" where
  "rr_fuel ls = Suc (nat (ls_waiterCount ls)) * Suc (length (ls_rr ls))"

definition drainLaneRoundRobin :: "lane_limits \<Rightarrow> int \<Rightarrow> lane_state \<Rightarrow> lane_state \<times> waiter list" where
  "drainLaneRoundRobin lims now ls =
     (if ls_waiterCount ls = 0 \<or> ls_rr ls = [] then (ls, [])
      else drain_rr_loop (rr_fuel ls) lims now (length (ls_rr ls)) 0 ls)"

definition drain_class :: "lane_limits \<Rightarrow> int \<Rightarrow> traffic \<Rightarrow> lane_state \<Rightarrow> lane_state \<times> waiter list" where
  "drain_class lims now c ls = drain_class_loop (Suc (nat (ls_waiterCount ls))) lims now c ls"

text \<open>One pass of the outer loop: the reserved classes in order, then the round robin.\<close>

definition drain_pass :: "lane_limits \<Rightarrow> int \<Rightarrow> lane_state \<Rightarrow> lane_state \<times> waiter list" where
  "drain_pass lims now ls =
     (let (ls1, ws1) = drain_class lims now Control ls;
          (ls2, ws2) = drain_class lims now Recovery ls1;
          (ls3, ws3) = drain_class lims now Cheap ls2;
          (ls4, ws4) = drainLaneRoundRobin lims now ls3
      in (ls4, ws1 @ ws2 @ ws3 @ ws4))"

fun drain_loop :: "nat \<Rightarrow> lane_limits \<Rightarrow> int \<Rightarrow> lane_state \<Rightarrow> lane_state \<times> waiter list" where
  "drain_loop 0 lims now ls = (ls, [])"
| "drain_loop (Suc n) lims now ls =
     (if ls_waiterCount ls \<le> 0 then (ls, [])
      else let (ls', ws) = drain_pass lims now ls in
        if ws = [] then (ls', [])
        else let (ls'', ws') = drain_loop n lims now ls' in (ls'', ws @ ws'))"

definition drain_lane :: "lane_limits \<Rightarrow> int \<Rightarrow> lane_state \<Rightarrow> lane_state \<times> waiter list" where
  "drain_lane lims now ls = drain_loop (Suc (nat (ls_waiterCount ls))) lims now ls"

section \<open>The counters count the claims\<close>

text \<open>
  A claim is what a waiter or a running ticket takes of the lane: principal, weight, class. The
  counters of a lane are the sums over two multisets of claims, the waiting and the running.
\<close>

type_synonym claim = "string \<times> int \<times> traffic"

definition weight_sum :: "claim multiset \<Rightarrow> int" where
  "weight_sum M = (\<Sum>(p, w, c)\<in>#M. w)"

definition on_class :: "traffic \<Rightarrow> claim multiset \<Rightarrow> int" where
  "on_class c M = weight_sum (filter_mset (\<lambda>(_, _, c'). c' = c) M)"

definition on_principal :: "string \<Rightarrow> claim multiset \<Rightarrow> int" where
  "on_principal p M = weight_sum (filter_mset (\<lambda>(p', _, _). p' = p) M)"

definition usage :: "lane_state \<Rightarrow> string \<Rightarrow> int \<times> int" where
  "usage ls p = (case bucket_of ls p of None \<Rightarrow> (0, 0) | Some b \<Rightarrow> (bk_pending b, bk_running b))"

definition heavy :: "claim multiset \<Rightarrow> bool" where
  "heavy M \<longleftrightarrow> (\<forall>(p, w, c)\<in>#M. 1 \<le> w)"

definition counts :: "lane_state \<Rightarrow> claim multiset \<Rightarrow> claim multiset \<Rightarrow> bool" where
  "counts ls W T \<longleftrightarrow>
     ls_pending ls = weight_sum W \<and> ls_running ls = weight_sum T \<and>
     (\<forall>c. ls_classPending ls c = on_class c W) \<and> (\<forall>c. ls_classRunning ls c = on_class c T) \<and>
     (\<forall>p. usage ls p = (on_principal p W, on_principal p T)) \<and>
     heavy W \<and> heavy T \<and> distinct (map fst (ls_principals ls))"

lemma sums_empty [simp]:
  "weight_sum {#} = 0" "on_class c {#} = 0" "on_principal p {#} = 0" "heavy {#}"
  by (simp_all add: weight_sum_def on_class_def on_principal_def heavy_def)

lemma sums_add [simp]:
  "weight_sum (add_mset (p, w, c) M) = w + weight_sum M"
  "on_class c' (add_mset (p, w, c) M) = (if c' = c then w else 0) + on_class c' M"
  "on_principal p' (add_mset (p, w, c) M) = (if p' = p then w else 0) + on_principal p' M"
  "heavy (add_mset (p, w, c) M) \<longleftrightarrow> 1 \<le> w \<and> heavy M"
  by (auto simp: weight_sum_def on_class_def on_principal_def heavy_def)

lemma weight_sum_nonneg: "heavy M \<Longrightarrow> 0 \<le> weight_sum M"
  by (induction M) auto

lemma heavy_filter: "heavy M \<Longrightarrow> heavy (filter_mset P M)"
  by (auto simp: heavy_def)

lemma sums_nonneg:
  "heavy M \<Longrightarrow> 0 \<le> weight_sum M" "heavy M \<Longrightarrow> 0 \<le> on_class c M" "heavy M \<Longrightarrow> 0 \<le> on_principal p M"
  by (simp_all add: weight_sum_nonneg on_class_def on_principal_def heavy_filter)

lemma sums_le:
  "heavy M \<Longrightarrow> on_class c M \<le> weight_sum M" "heavy M \<Longrightarrow> on_principal p M \<le> weight_sum M"
  by (induction M) auto

lemma counts_init: "counts createLaneState {#} {#}"
  by (simp add: counts_def createLaneState_def usage_def bucket_of_def)

section \<open>Effect of the counter updates\<close>

lemma bucket_of_update [simp]:
  "bucket_of (ls\<lparr>ls_principals := AList.update p b (ls_principals ls)\<rparr>) = (bucket_of ls)(p \<mapsto> b)"
  by (simp add: bucket_of_def fun_eq_iff update_conv')

lemma evict_scan_inactive:
  "evict_scan ps best = Some (k, a) \<Longrightarrow> best = Some (k, a) \<or> (\<exists>b. (k, b) \<in> set ps \<and> \<not> bucketIsActive b)"
proof (induction ps best rule: evict_scan.induct)
  case (2 key b ps best)
  let ?best = "if bucketIsActive b then best
        else case best of None \<Rightarrow> Some (key, bk_lastAccess b)
             | Some (_, access) \<Rightarrow> if bk_lastAccess b < access then Some (key, bk_lastAccess b) else best"
  have "?best = best \<or> \<not> bucketIsActive b \<and> ?best = Some (key, bk_lastAccess b)"
    by (auto split: option.splits)
  with 2 show ?case by auto
qed simp

lemma touch_usage:
  assumes "touchPrincipalBucket cfg now p ps = Some (b, ps')" "distinct (map fst ps)"
    and nn: "\<And>q b. map_of ps q = Some b \<Longrightarrow> 0 \<le> bk_pending b \<and> 0 \<le> bk_running b"
  shows "map_of ps' p = Some b" "distinct (map fst ps')"
    and "(bk_pending b, bk_running b) =
      (case map_of ps p of None \<Rightarrow> (0, 0) | Some b \<Rightarrow> (bk_pending b, bk_running b))"
    and "q \<noteq> p \<Longrightarrow> (case map_of ps' q of None \<Rightarrow> (0, 0) | Some b \<Rightarrow> (bk_pending b, bk_running b)) =
      (case map_of ps q of None \<Rightarrow> (0, 0) | Some b \<Rightarrow> (bk_pending b, bk_running b))"
proof -
  have "map_of ps' p = Some b \<and> distinct (map fst ps') \<and> (bk_pending b, bk_running b) =
      (case map_of ps p of None \<Rightarrow> (0, 0) | Some b \<Rightarrow> (bk_pending b, bk_running b)) \<and>
      (q \<noteq> p \<longrightarrow> (case map_of ps' q of None \<Rightarrow> (0, 0) | Some b \<Rightarrow> (bk_pending b, bk_running b)) =
      (case map_of ps q of None \<Rightarrow> (0, 0) | Some b \<Rightarrow> (bk_pending b, bk_running b)))"
  proof (cases "map_of ps p")
    case (Some b0)
    with assms show ?thesis
      by (auto simp: touchPrincipalBucket_def Let_def update_conv' delete_conv' distinct_update distinct_delete)
  next
    case None
    show ?thesis
    proof (cases "evict_scan ps None")
      case (Some ka)
      then obtain k a where k: "evict_scan ps None = Some (k, a)" by (cases ka) auto
      from evict_scan_inactive [OF k] obtain c where c: "(k, c) \<in> set ps" "\<not> bucketIsActive c" by auto
      then have m: "map_of ps k = Some c" using assms(2) by simp
      have z: "bk_pending c = 0" "bk_running c = 0" using c(2) nn [OF m] by (auto simp: bucketIsActive_def)
      from None k assms show ?thesis
        by (auto simp: touchPrincipalBucket_def Let_def update_conv' delete_conv' distinct_update distinct_delete
            m z split: if_splits)
    next
      case None
      with \<open>map_of ps p = None\<close> assms show ?thesis
        by (auto simp: touchPrincipalBucket_def Let_def update_conv' distinct_update split: if_splits)
    qed
  qed
  then show "map_of ps' p = Some b" "distinct (map fst ps')" "(bk_pending b, bk_running b) =
      (case map_of ps p of None \<Rightarrow> (0, 0) | Some b \<Rightarrow> (bk_pending b, bk_running b))"
    "q \<noteq> p \<Longrightarrow> (case map_of ps' q of None \<Rightarrow> (0, 0) | Some b \<Rightarrow> (bk_pending b, bk_running b)) =
      (case map_of ps q of None \<Rightarrow> (0, 0) | Some b \<Rightarrow> (bk_pending b, bk_running b))" by blast+
qed

lemma usage_eq: "usage ls p = (x, y) \<longleftrightarrow>
    (case bucket_of ls p of None \<Rightarrow> x = 0 \<and> y = 0 | Some b \<Rightarrow> bk_pending b = x \<and> bk_running b = y)"
  by (auto simp: usage_def split: option.splits)

lemma counts_bucket_nonneg:
  assumes "counts ls W T" "bucket_of ls p = Some b"
  shows "0 \<le> bk_pending b \<and> 0 \<le> bk_running b"
  using assms sums_nonneg(3) [of W p] sums_nonneg(3) [of T p] by (auto simp: counts_def usage_eq split: option.splits)

lemma counts_reserve:
  assumes "counts ls W T" "reserve cfg now p w c ls = Some ls'" "1 \<le> w"
  shows "counts ls' (add_mset (p, w, c) W) T"
proof -
  obtain b ps where t: "touchPrincipalBucket cfg now p (ls_principals ls) = Some (b, ps)"
    and ls': "ls' = ls\<lparr>ls_pending := ls_pending ls + w,
          ls_classPending := (ls_classPending ls)(c := ls_classPending ls c + w),
          ls_principals := AList.update p (b\<lparr>bk_pending := bk_pending b + w\<rparr>) ps\<rparr>"
    using assms(2) by (auto simp: reserve_def split: option.splits)
  have d: "distinct (map fst (ls_principals ls))" and u: "\<And>q. usage ls q = (on_principal q W, on_principal q T)"
    using assms(1) by (auto simp: counts_def)
  have nn: "\<And>q b. map_of (ls_principals ls) q = Some b \<Longrightarrow> 0 \<le> bk_pending b \<and> 0 \<le> bk_running b"
    using counts_bucket_nonneg [OF assms(1)] by (simp add: bucket_of_def)
  note tu = touch_usage [OF t d nn]
  have "usage ls' q = (on_principal q (add_mset (p, w, c) W), on_principal q T)" for q
  proof (cases "q = p")
    case True
    then show ?thesis using u [of p] tu(3)
      by (auto simp: usage_def bucket_of_def ls' update_conv' split: option.splits)
  next
    case False
    then show ?thesis using u [of q] touch_usage(4) [OF t d nn False]
      by (simp add: usage_def bucket_of_def ls' update_conv')
  qed
  then show ?thesis using assms(1,3) tu(2) by (auto simp: counts_def ls' distinct_update)
qed

lemma usage_with_bucket:
  "usage (with_bucket p f ls) q =
    (if q = p then (case bucket_of ls p of None \<Rightarrow> (0, 0) | Some b \<Rightarrow> (bk_pending (f b), bk_running (f b)))
     else usage ls q)"
  by (auto simp: with_bucket_def usage_def split: option.splits)

lemma with_bucket_fields [simp]:
  "ls_pending (with_bucket p f ls) = ls_pending ls" "ls_running (with_bucket p f ls) = ls_running ls"
  "ls_classPending (with_bucket p f ls) = ls_classPending ls"
  "ls_classRunning (with_bucket p f ls) = ls_classRunning ls"
  "ls_waiters (with_bucket p f ls) = ls_waiters ls" "ls_rr (with_bucket p f ls) = ls_rr ls"
  "ls_cursor (with_bucket p f ls) = ls_cursor ls" "ls_waiterCount (with_bucket p f ls) = ls_waiterCount ls"
  "map fst (ls_principals (with_bucket p f ls)) = map fst (ls_principals ls)"
  by (auto simp: with_bucket_def bucket_of_def update_keys map_of_eq_None_iff split: option.splits)

lemma usage_cong: "ls_principals ls = ls_principals ls' \<Longrightarrow> usage ls = usage ls'"
  by (simp add: usage_def bucket_of_def fun_eq_iff)

lemma usage_fields [simp]:
  "usage (ls\<lparr>ls_pending := a\<rparr>) = usage ls" "usage (ls\<lparr>ls_running := a\<rparr>) = usage ls"
  "usage (ls\<lparr>ls_classPending := f\<rparr>) = usage ls" "usage (ls\<lparr>ls_classRunning := f\<rparr>) = usage ls"
  "usage (ls\<lparr>ls_waiters := ws\<rparr>) = usage ls" "usage (ls\<lparr>ls_rr := r\<rparr>) = usage ls"
  "usage (ls\<lparr>ls_cursor := n\<rparr>) = usage ls" "usage (ls\<lparr>ls_waiterCount := a\<rparr>) = usage ls"
  by (rule usage_cong; simp)+

lemma bucket_of_fields [simp]:
  "bucket_of (ls\<lparr>ls_pending := a\<rparr>) = bucket_of ls" "bucket_of (ls\<lparr>ls_running := a\<rparr>) = bucket_of ls"
  "bucket_of (ls\<lparr>ls_classPending := f\<rparr>) = bucket_of ls" "bucket_of (ls\<lparr>ls_classRunning := f\<rparr>) = bucket_of ls"
  "bucket_of (ls\<lparr>ls_waiters := ws\<rparr>) = bucket_of ls" "bucket_of (ls\<lparr>ls_rr := r\<rparr>) = bucket_of ls"
  "bucket_of (ls\<lparr>ls_cursor := n\<rparr>) = bucket_of ls" "bucket_of (ls\<lparr>ls_waiterCount := a\<rparr>) = bucket_of ls"
  by (simp_all add: bucket_of_def fun_eq_iff)

text \<open>The bucket of a principal with a claim exists.\<close>

lemma counts_bucket:
  assumes "counts ls W T" "(p, w, c) \<in># W + T"
  obtains b where "bucket_of ls p = Some b" "bk_pending b = on_principal p W" "bk_running b = on_principal p T"
proof -
  have u: "usage ls p = (on_principal p W, on_principal p T)" and h: "heavy W" "heavy T"
    using assms(1) by (auto simp: counts_def)
  have "1 \<le> on_principal p M" if H: "heavy M" and m: "(p, w, c) \<in># M" for M
  proof -
    obtain M' where "M = add_mset (p, w, c) M'" using multi_member_split [OF m] by blast
    then show ?thesis using H sums_nonneg(3) [of M' p] by simp
  qed
  then have "usage ls p \<noteq> (0, 0)" using assms(2) h sums_nonneg(3) [of W p] sums_nonneg(3) [of T p] u by fastforce
  then show ?thesis using u that by (auto simp: usage_def split: option.splits)
qed

lemma counts_promote:
  assumes "counts ls (add_mset (p, w, c) W) T"
  shows "counts (promoteToRunning now p w c ls) W (add_mset (p, w, c) T)"
proof -
  obtain b where "bucket_of ls p = Some b" "bk_pending b = w + on_principal p W" "bk_running b = on_principal p T"
    using counts_bucket [OF assms, of p w c] by auto
  then show ?thesis using assms by (auto simp: counts_def promoteToRunning_def usage_with_bucket)
qed

lemma counts_releasePending:
  assumes "counts ls (add_mset (p, w, c) W) T"
  shows "counts (releasePending now p w c ls) W T"
proof -
  have h: "heavy W" using assms by (simp add: counts_def)
  obtain b where "bucket_of ls p = Some b" "bk_pending b = w + on_principal p W" "bk_running b = on_principal p T"
    using counts_bucket [OF assms, of p w c] by auto
  then show ?thesis using assms sums_nonneg [OF h] by (auto simp: counts_def releasePending_def usage_with_bucket)
qed

lemma counts_releaseRunning:
  assumes "counts ls W (add_mset (p, w, c) T)"
  shows "counts (releaseRunning now p w c ls) W T"
proof -
  have h: "heavy T" using assms by (simp add: counts_def)
  obtain b where "bucket_of ls p = Some b" "bk_pending b = on_principal p W" "bk_running b = w + on_principal p T"
    using counts_bucket [OF assms, of p w c] by auto
  then show ?thesis using assms sums_nonneg [OF h] by (auto simp: counts_def releaseRunning_def usage_with_bucket)
qed

section \<open>The waiters of a lane\<close>

definition claim_of :: "waiter \<Rightarrow> claim" where
  "claim_of w = (w_principal w, w_weight w, w_class w)"

definition all_waiters :: "lane_state \<Rightarrow> waiter list" where
  "all_waiters ls = concat (map snd (ls_waiters ls))"

definition waiting :: "lane_state \<Rightarrow> claim multiset" where
  "waiting ls = mset (map claim_of (all_waiters ls))"

definition queue_ok :: "lane_state \<Rightarrow> bool" where
  "queue_ok ls \<longleftrightarrow>
     distinct (map fst (ls_waiters ls)) \<and> ls_rr ls = map fst (ls_waiters ls) \<and>
     (\<forall>(p, queue)\<in>set (ls_waiters ls). queue \<noteq> [] \<and> (\<forall>w\<in>set queue. w_principal w = p)) \<and>
     ls_waiterCount ls = int (length (all_waiters ls))"

lemma queue_ok_init: "queue_ok createLaneState" "waiting createLaneState = {#}"
  by (simp_all add: queue_ok_def createLaneState_def all_waiters_def waiting_def)

lemma waiting_cong:
  "ls_waiters ls' = ls_waiters ls \<Longrightarrow> waiting ls' = waiting ls"
  by (simp add: waiting_def all_waiters_def)

lemma queue_ok_cong:
  "ls_waiters ls' = ls_waiters ls \<Longrightarrow> ls_rr ls' = ls_rr ls \<Longrightarrow> ls_waiterCount ls' = ls_waiterCount ls \<Longrightarrow>
     queue_ok ls' = queue_ok ls"
  by (simp add: queue_ok_def all_waiters_def)

lemma concat_delete:
  "distinct (map fst al) \<Longrightarrow> map_of al k = Some q \<Longrightarrow>
     mset (concat (map snd al)) = mset q + mset (concat (map snd (AList.delete k al)))"
proof (induction al)
  case (Cons kv al)
  show ?case
  proof (cases "fst kv = k")
    case True
    then have "AList.delete k al = al" using Cons.prems(1) by (intro AList.delete_id) auto
    with True Cons.prems show ?thesis by (cases kv) auto
  next
    case False
    with Cons show ?thesis by (cases kv) auto
  qed
qed simp

lemma concat_update:
  "distinct (map fst al) \<Longrightarrow>
     mset (concat (map snd (AList.update k q al))) = mset q + mset (concat (map snd (AList.delete k al)))"
proof (induction al)
  case (Cons kv al)
  show ?case
  proof (cases "fst kv = k")
    case True
    then have "AList.delete k al = al" using Cons.prems(1) by (intro AList.delete_id) auto
    with True show ?thesis by (cases kv) auto
  next
    case False
    with Cons show ?thesis by (cases kv) auto
  qed
qed simp

lemma in_update: "(p, q) \<in> set (AList.update k v al) \<Longrightarrow> (p, q) = (k, v) \<or> (p, q) \<in> set al"
  by (induction al) (auto split: if_splits)

lemma in_delete: "(p, q) \<in> set (AList.delete k al) \<Longrightarrow> (p, q) \<in> set al"
  by (induction al) (auto split: if_splits)

lemma queue_entry:
  assumes "queue_ok ls" "map_of (ls_waiters ls) p = Some queue"
  shows "queue \<noteq> []" "\<And>w. w \<in> set queue \<Longrightarrow> w_principal w = p" "set queue \<subseteq> set (all_waiters ls)"
proof -
  have i: "(p, queue) \<in> set (ls_waiters ls)" using assms(2) by (rule map_of_SomeD)
  with assms(1) show "queue \<noteq> []" "\<And>w. w \<in> set queue \<Longrightarrow> w_principal w = p" by (auto simp: queue_ok_def)
  from i show "set queue \<subseteq> set (all_waiters ls)" by (auto simp: all_waiters_def)
qed

text \<open>Removing a waiter takes it out of its queue and touches no counter but the number of waiters.\<close>

lemma removeWaiter_ok:
  assumes q: "queue_ok ls" and r: "removeWaiter ls w = Some ls'"
  shows "queue_ok ls'" "mset (all_waiters ls) = add_mset w (mset (all_waiters ls'))"
    "ls_pending ls' = ls_pending ls \<and> ls_running ls' = ls_running ls \<and>
     ls_classPending ls' = ls_classPending ls \<and> ls_classRunning ls' = ls_classRunning ls \<and>
     ls_principals ls' = ls_principals ls"
proof -
  obtain queue where m: "map_of (ls_waiters ls) (w_principal w) = Some queue" and w: "w \<in> set queue"
    using r by (auto simp: removeWaiter_def split: option.splits if_splits)
  note e = queue_entry [OF q m]
  let ?p = "w_principal w" and ?ws = "ls_waiters ls"
  have d: "distinct (map fst ?ws)" and rr: "ls_rr ls = map fst ?ws"
    and all: "\<And>p queue. (p, queue) \<in> set ?ws \<Longrightarrow> queue \<noteq> [] \<and> (\<forall>w\<in>set queue. w_principal w = p)"
    and n: "ls_waiterCount ls = int (length (all_waiters ls))" using q by (auto simp: queue_ok_def)
  have pin: "?p \<in> fst ` set ?ws" using map_of_SomeD [OF m] by force
  have K: "map fst (AList.update ?p q ?ws) = map fst ?ws" for q using pin by (simp add: update_keys)
  have K': "map fst (AList.delete ?p ?ws) = remove1 ?p (ls_rr ls)"
    using d by (simp add: delete_keys distinct_remove1_removeAll rr)
  have pr: "?p \<in> set (ls_rr ls)" using pin by (simp add: rr)
  have wa: "ls_waiters ls' = (if remove1 w queue \<noteq> [] then AList.update ?p (remove1 w queue) ?ws else AList.delete ?p ?ws)"
    and rr1: "ls_rr ls' = (if remove1 w queue \<noteq> [] then ls_rr ls else remove1 ?p (ls_rr ls))"
    and c': "ls_waiterCount ls' = ls_waiterCount ls - 1"
    using r m w pr by (auto simp: removeWaiter_def Let_def split: if_splits)
  have rr': "ls_rr ls' = map fst (ls_waiters ls')" using K K' by (simp add: wa rr1 rr)
  show "ls_pending ls' = ls_pending ls \<and> ls_running ls' = ls_running ls \<and>
     ls_classPending ls' = ls_classPending ls \<and> ls_classRunning ls' = ls_classRunning ls \<and>
     ls_principals ls' = ls_principals ls"
    using r m w by (auto simp: removeWaiter_def Let_def split: if_splits)
  have "mset queue = add_mset w (mset (remove1 w queue))" using w by simp
  then show ms: "mset (all_waiters ls) = add_mset w (mset (all_waiters ls'))"
    using concat_delete [OF d m] concat_update [OF d, of ?p "remove1 w queue"]
    by (cases "remove1 w queue = []") (simp_all add: all_waiters_def wa del: mset_remove1)
  have "length (all_waiters ls) = Suc (length (all_waiters ls'))"
    using arg_cong [OF ms, of size] by simp
  moreover have "queue' \<noteq> [] \<and> (\<forall>v\<in>set queue'. w_principal v = p)" if "(p, queue') \<in> set (ls_waiters ls')" for p queue'
  proof -
    have "(p, queue') = (?p, remove1 w queue) \<and> remove1 w queue \<noteq> [] \<or> (p, queue') \<in> set ?ws"
    proof (cases "remove1 w queue = []")
      case True
      with that have "(p, queue') \<in> set (AList.delete ?p ?ws)" by (simp add: wa)
      then show ?thesis by (blast dest: in_delete)
    next
      case False
      with that have "(p, queue') \<in> set (AList.update ?p (remove1 w queue) ?ws)" by (simp add: wa)
      from in_update [OF this] False show ?thesis by blast
    qed
    then show ?thesis
    proof (elim disjE)
      assume h: "(p, queue') = (?p, remove1 w queue) \<and> remove1 w queue \<noteq> []"
      have "w_principal v = ?p" if "v \<in> set queue'" for v
        using that h set_remove1_subset [of w queue] by (intro e(2)) auto
      moreover from h have "p = ?p" "queue' \<noteq> []" by simp_all
      ultimately show ?thesis by simp
    next
      assume "(p, queue') \<in> set ?ws"
      from all [OF this] show ?thesis .
    qed
  qed
  moreover have "distinct (map fst (ls_waiters ls'))" using d by (simp add: wa distinct_update distinct_delete)
  ultimately show "queue_ok ls'" using n unfolding queue_ok_def rr' c' by fastforce
qed

lemma removeWaiter_Some:
  assumes "queue_ok ls" "w \<in> set (all_waiters ls)"
  obtains ls' where "removeWaiter ls w = Some ls'"
proof -
  obtain p queue where pq: "(p, queue) \<in> set (ls_waiters ls)" "w \<in> set queue"
    using assms(2) by (auto simp: all_waiters_def)
  with assms(1) have "map_of (ls_waiters ls) (w_principal w) = Some queue"
    by (auto simp: queue_ok_def)
  with pq have "removeWaiter ls w \<noteq> None" by (auto simp: removeWaiter_def Let_def split: if_splits)
  with that show ?thesis by blast
qed

lemma enqueueWaiter_ok:
  assumes q: "queue_ok ls"
  shows "queue_ok (enqueueWaiter ls w)"
    "mset (all_waiters (enqueueWaiter ls w)) = add_mset w (mset (all_waiters ls))"
    "ls_pending (enqueueWaiter ls w) = ls_pending ls \<and> ls_running (enqueueWaiter ls w) = ls_running ls \<and>
     ls_classPending (enqueueWaiter ls w) = ls_classPending ls \<and>
     ls_classRunning (enqueueWaiter ls w) = ls_classRunning ls \<and>
     ls_principals (enqueueWaiter ls w) = ls_principals ls"
proof -
  let ?p = "w_principal w" and ?ws = "ls_waiters ls"
  have d: "distinct (map fst ?ws)" and rr: "ls_rr ls = map fst ?ws"
    and all: "\<And>p queue. (p, queue) \<in> set ?ws \<Longrightarrow> queue \<noteq> [] \<and> (\<forall>w\<in>set queue. w_principal w = p)"
    and n: "ls_waiterCount ls = int (length (all_waiters ls))" using q by (auto simp: queue_ok_def)
  define queue where "queue = (case map_of ?ws ?p of Some q \<Rightarrow> q | None \<Rightarrow> [])"
  have wa: "ls_waiters (enqueueWaiter ls w) = AList.update ?p (queue @ [w]) ?ws"
    by (simp add: enqueueWaiter_def queue_def split: option.splits)
  have qu: "\<forall>v\<in>set queue. w_principal v = ?p"
  proof (cases "map_of ?ws ?p")
    case (Some q0)
    with all [OF map_of_SomeD [OF Some]] show ?thesis by (simp add: queue_def)
  qed (simp add: queue_def)
  have rr': "ls_rr (enqueueWaiter ls w) = map fst (ls_waiters (enqueueWaiter ls w))"
    by (auto simp: enqueueWaiter_def rr update_keys map_of_eq_None_iff dest: map_of_SomeD split: option.splits)
  show ms: "mset (all_waiters (enqueueWaiter ls w)) = add_mset w (mset (all_waiters ls))"
  proof (cases "map_of ?ws ?p")
    case None
    then have "AList.delete ?p ?ws = ?ws" by (intro AList.delete_id) (simp add: map_of_eq_None_iff)
    with None show ?thesis using concat_update [OF d, of ?p "[w]"] by (simp add: all_waiters_def wa queue_def)
  next
    case (Some q0)
    then show ?thesis using concat_update [OF d, of ?p "q0 @ [w]"] concat_delete [OF d Some]
      by (simp add: all_waiters_def wa queue_def)
  qed
  have "length (all_waiters (enqueueWaiter ls w)) = Suc (length (all_waiters ls))"
    using arg_cong [OF ms, of size] by simp
  moreover have "ls_waiterCount (enqueueWaiter ls w) = ls_waiterCount ls + 1"
    by (simp add: enqueueWaiter_def split: option.splits)
  moreover have "queue' \<noteq> [] \<and> (\<forall>v\<in>set queue'. w_principal v = p)"
    if "(p, queue') \<in> set (ls_waiters (enqueueWaiter ls w))" for p queue'
    using that all [of p queue'] qu by (auto simp: wa dest!: in_update)
  ultimately show "queue_ok (enqueueWaiter ls w)"
    using d n rr' unfolding queue_ok_def by (simp add: wa distinct_update) blast
  show "ls_pending (enqueueWaiter ls w) = ls_pending ls \<and> ls_running (enqueueWaiter ls w) = ls_running ls \<and>
     ls_classPending (enqueueWaiter ls w) = ls_classPending ls \<and>
     ls_classRunning (enqueueWaiter ls w) = ls_classRunning ls \<and>
     ls_principals (enqueueWaiter ls w) = ls_principals ls"
    by (simp add: enqueueWaiter_def split: option.splits)
qed

section \<open>The invariant of a lane\<close>

text \<open>The running weight a class may reach.\<close>

definition runningCap :: "lane_limits \<Rightarrow> traffic \<Rightarrow> int" where
  "runningCap lims c =
     (if c = Ordinary then ll_globalRunning lims
      else case ll_classReserve lims c of
             Some r \<Rightarrow> if 0 < r then r else ll_globalRunning lims
           | None \<Rightarrow> ll_globalRunning lims)"

definition within_limits :: "admission_config \<Rightarrow> lane_limits \<Rightarrow> claim multiset \<Rightarrow> claim multiset \<Rightarrow> bool" where
  "within_limits cfg lims W T \<longleftrightarrow>
     weight_sum W \<le> ll_globalPending lims \<and>
     weight_sum W + weight_sum T \<le> maxPendingDepth cfg \<and>
     (\<forall>c. on_class c W + on_class c T \<le> classLimit lims c) \<and>
     (\<forall>c. on_class c T \<le> runningCap lims c) \<and>
     (\<forall>p. on_principal p W \<le> ll_principalPending lims) \<and>
     (\<forall>p. on_principal p T \<le> ll_principalRunning lims)"

definition lane_ok :: "admission_config \<Rightarrow> lane_limits \<Rightarrow> claim multiset \<Rightarrow> lane_state \<Rightarrow> bool" where
  "lane_ok cfg lims T ls \<longleftrightarrow>
     queue_ok ls \<and> counts ls (waiting ls) T \<and> within_limits cfg lims (waiting ls) T"

lemma canAddRunning_cap:
  assumes "counts ls W T" "canAddRunning ls lims c w"
  shows "on_class c T + w \<le> runningCap lims c"
proof -
  have "on_class c T \<le> weight_sum T" using assms(1) sums_le(1) by (auto simp: counts_def)
  with assms show ?thesis
    by (auto simp: canAddRunning_def runningCap_def counts_def split: if_splits option.splits)
qed

lemma principal_checks:
  assumes "counts ls W T"
  shows "principalCanAddPending ls lims p w \<longleftrightarrow> on_principal p W + w \<le> ll_principalPending lims"
    "principalCanAddRunning ls lims p w \<longleftrightarrow> on_principal p T + w \<le> ll_principalRunning lims"
proof -
  have "usage ls p = (on_principal p W, on_principal p T)" using assms by (simp add: counts_def)
  then show "principalCanAddPending ls lims p w \<longleftrightarrow> on_principal p W + w \<le> ll_principalPending lims"
    "principalCanAddRunning ls lims p w \<longleftrightarrow> on_principal p T + w \<le> ll_principalRunning lims"
    by (auto simp: usage_def principalCanAddPending_def principalCanAddRunning_def split: option.splits)
qed

text \<open>Starting a queued waiter that may be promoted keeps the invariant; its claim now runs.\<close>

lemma counts_cong:
  "ls_pending ls' = ls_pending ls \<and> ls_running ls' = ls_running ls \<and>
     ls_classPending ls' = ls_classPending ls \<and> ls_classRunning ls' = ls_classRunning ls \<and>
     ls_principals ls' = ls_principals ls \<Longrightarrow> counts ls' W T = counts ls W T"
  by (simp add: counts_def usage_def bucket_of_def)

lemma start_waiter_ok:
  assumes ok: "lane_ok cfg lims T ls" and w: "w \<in> set (all_waiters ls)" and can: "canPromoteWaiter ls lims w"
  shows "lane_ok cfg lims (add_mset (claim_of w) T) (start_waiter now ls w)"
    "mset (all_waiters ls) = add_mset w (mset (all_waiters (start_waiter now ls w)))"
proof -
  have q: "queue_ok ls" and c: "counts ls (waiting ls) T" and l: "within_limits cfg lims (waiting ls) T"
    using ok by (auto simp: lane_ok_def)
  obtain ls' where r: "removeWaiter ls w = Some ls'" using removeWaiter_Some [OF q w] .
  note ro = removeWaiter_ok [OF q r]
  let ?p = "w_principal w" and ?w = "w_weight w" and ?c = "w_class w"
  let ?ls = "promoteToRunning now ?p ?w ?c ls'"
  have s: "start_waiter now ls w = ?ls" by (simp add: start_waiter_def r)
  have same: "ls_waiters ?ls = ls_waiters ls'" "ls_rr ?ls = ls_rr ls'" "ls_waiterCount ?ls = ls_waiterCount ls'"
    by (simp_all add: promoteToRunning_def)
  have W: "waiting ls = add_mset (?p, ?w, ?c) (waiting ls')"
    unfolding waiting_def mset_map ro(2) by (simp add: claim_of_def)
  have "counts ls' (add_mset (?p, ?w, ?c) (waiting ls')) T" using c counts_cong [OF ro(3)] W by simp
  from counts_promote [OF this] have c': "counts ?ls (waiting ls') (add_mset (?p, ?w, ?c) T)" .
  have h: "heavy (waiting ls')" and w1: "1 \<le> ?w" using c' by (simp_all add: counts_def)
  have L: "weight_sum (waiting ls) \<le> ll_globalPending lims"
    "weight_sum (waiting ls) + weight_sum T \<le> maxPendingDepth cfg"
    "\<And>c. on_class c (waiting ls) + on_class c T \<le> classLimit lims c"
    "\<And>c. on_class c T \<le> runningCap lims c"
    "\<And>p. on_principal p (waiting ls) \<le> ll_principalPending lims"
    "\<And>p. on_principal p T \<le> ll_principalRunning lims"
    using l by (simp_all add: within_limits_def)
  have can': "on_class ?c T + ?w \<le> runningCap lims ?c" "on_principal ?p T + ?w \<le> ll_principalRunning lims"
    using can canAddRunning_cap [OF c] principal_checks(2) [OF c] by (simp_all add: canPromoteWaiter_def)
  have "within_limits cfg lims (waiting ls') (add_mset (?p, ?w, ?c) T)"
    unfolding within_limits_def
  proof (intro conjI allI)
    fix d
    show "on_class d (waiting ls') + on_class d (add_mset (?p, ?w, ?c) T) \<le> classLimit lims d"
      using L(3) [of d] by (simp add: W)
    show "on_class d (add_mset (?p, ?w, ?c) T) \<le> runningCap lims d"
      using L(4) [of d] can'(1) by simp
  next
    fix p
    show "on_principal p (waiting ls') \<le> ll_principalPending lims" using L(5) [of p] w1 by (simp add: W split: if_splits)
    show "on_principal p (add_mset (?p, ?w, ?c) T) \<le> ll_principalRunning lims" using L(6) [of p] can'(2) by simp
  qed (use L(1,2) w1 in \<open>simp_all add: W\<close>)
  with c' ro(1) queue_ok_cong [OF same] waiting_cong [OF same(1)]
  show "lane_ok cfg lims (add_mset (claim_of w) T) (start_waiter now ls w)"
    by (simp add: lane_ok_def s claim_of_def)
  show "mset (all_waiters ls) = add_mset w (mset (all_waiters (start_waiter now ls w)))"
    using ro(2) same by (simp add: s all_waiters_def)
qed

section \<open>Draining\<close>

text \<open>What every drain does: it moves the claims of the waiters it starts, and nothing else.\<close>

definition moves :: "admission_config \<Rightarrow> lane_limits \<Rightarrow> lane_state \<Rightarrow> lane_state \<times> waiter list \<Rightarrow> bool" where
  "moves cfg lims ls r \<longleftrightarrow>
     (\<forall>T. lane_ok cfg lims T ls \<longrightarrow>
        lane_ok cfg lims (T + mset (map claim_of (snd r))) (fst r) \<and>
        mset (all_waiters ls) = mset (snd r) + mset (all_waiters (fst r)))"

lemma moves_refl: "moves cfg lims ls (ls, [])"
  by (simp add: moves_def)

lemma moves_trans:
  assumes "moves cfg lims ls (ls', ws)" "moves cfg lims ls' (ls'', ws')"
  shows "moves cfg lims ls (ls'', ws @ ws')"
  unfolding moves_def fst_conv snd_conv
proof (intro allI impI)
  fix T assume "lane_ok cfg lims T ls"
  then have a: "lane_ok cfg lims (T + mset (map claim_of ws)) ls'" "mset (all_waiters ls) = mset ws + mset (all_waiters ls')"
    using assms(1) by (auto simp: moves_def)
  then have "lane_ok cfg lims (T + mset (map claim_of ws) + mset (map claim_of ws')) ls''"
    "mset (all_waiters ls') = mset ws' + mset (all_waiters ls'')"
    using assms(2) by (auto simp: moves_def)
  with a show "lane_ok cfg lims (T + mset (map claim_of (ws @ ws'))) ls'' \<and>
      mset (all_waiters ls) = mset (ws @ ws') + mset (all_waiters ls'')"
    by (simp add: ac_simps)
qed

lemma moves_start:
  assumes "queue_ok ls \<Longrightarrow> w \<in> set (all_waiters ls)" "canPromoteWaiter ls lims w"
  shows "moves cfg lims ls (start_waiter now ls w, [w])"
  using assms start_waiter_ok by (simp add: moves_def lane_ok_def) blast

lemma all_waiters_cursor [simp]: "all_waiters (ls\<lparr>ls_cursor := n\<rparr>) = all_waiters ls"
  "waiting (ls\<lparr>ls_cursor := n\<rparr>) = waiting ls"
  by (simp_all add: all_waiters_def waiting_def)

lemma lane_ok_cursor [simp]: "lane_ok cfg lims T (ls\<lparr>ls_cursor := n\<rparr>) = lane_ok cfg lims T ls"
  by (simp add: lane_ok_def queue_ok_def counts_def)

lemma canPromote_cursor [simp]: "canPromoteWaiter (ls\<lparr>ls_cursor := n\<rparr>) lims w = canPromoteWaiter ls lims w"
  by (simp add: canPromoteWaiter_def canAddRunning_def principalCanAddRunning_def split: option.splits)

lemma moves_cursor: "moves cfg lims (ls\<lparr>ls_cursor := n\<rparr>) r \<Longrightarrow> moves cfg lims ls r"
  by (simp add: moves_def)

lemma candidate:
  assumes "class_candidate lims c ls = Some w"
  shows "w \<in> set (all_waiters ls)" "w_class w = c" "canPromoteWaiter ls lims w"
  using assms by (auto simp: class_candidate_def all_waiters_def find_Some_iff hd_in_set
      dest!: nth_mem intro!: bexI [of _ "(_, _)"])

lemma drain_class_moves: "moves cfg lims ls (drain_class_loop n lims now c ls)"
proof (induction n arbitrary: ls)
  case (Suc n)
  show ?case
  proof (cases "class_candidate lims c ls")
    case (Some w)
    obtain ls' ws where r: "drain_class_loop n lims now c (start_waiter now ls w) = (ls', ws)" by fastforce
    have "moves cfg lims ls (start_waiter now ls w, [w])" using candidate [OF Some] by (intro moves_start)
    moreover have "moves cfg lims (start_waiter now ls w) (ls', ws)" using Suc [of "start_waiter now ls w"] r by simp
    ultimately show ?thesis using moves_trans by (fastforce simp: drainLaneForClass_def Some r)
  qed (simp add: drainLaneForClass_def moves_refl)
qed (simp add: moves_refl)

lemma drain_rr_moves: "moves cfg lims ls (drain_rr_loop n lims now m k ls)"
proof (induction n lims now m k ls rule: drain_rr_loop.induct)
  case (2 n lims now m k ls)
  show ?case
  proof (cases "\<not> (0 < ls_waiterCount ls \<and> k < m) \<or> ls_rr ls = []")
    case False
    let ?idx = "ls_cursor ls mod length (ls_rr ls)"
    let ?p = "ls_rr ls ! ?idx"
    let ?ls = "ls\<lparr>ls_cursor := (?idx + 1) mod length (ls_rr ls)\<rparr>"
    note IH = 2 [OF False refl refl refl]
    show ?thesis
    proof (cases "map_of (ls_waiters ?ls) ?p")
      case None
      with IH(1) False show ?thesis by (auto simp: Let_def intro: moves_cursor)
    next
      case (Some queue)
      show ?thesis
      proof (cases queue)
        case Nil
        with IH(2) Some False show ?thesis by (auto simp: Let_def intro: moves_cursor)
      next
        case (Cons w rest)
        show ?thesis
        proof (cases "canPromoteWaiter ?ls lims w")
          case True
          obtain ls' ws where r: "drain_rr_loop n lims now m 0 (start_waiter now ?ls w) = (ls', ws)" by fastforce
          have "w \<in> set (all_waiters ?ls)"
            using map_of_SomeD [OF Some] Cons by (force simp: all_waiters_def)
          then have "moves cfg lims ?ls (start_waiter now ?ls w, [w])" using True by (intro moves_start)
          moreover have "moves cfg lims (start_waiter now ?ls w) (ls', ws)"
            using IH(4) [OF Some Cons] True r by simp
          ultimately have "moves cfg lims ?ls (ls', [w] @ ws)" by (rule moves_trans)
          then have "moves cfg lims ls (ls', w # ws)" using moves_cursor by simp
          with True Some Cons False r show ?thesis by (simp add: Let_def)
        next
          case np: False
          with IH(3) [OF Some Cons] Some Cons False show ?thesis by (auto simp: Let_def intro: moves_cursor)
        qed
      qed
    qed
  qed (auto simp: moves_refl)
qed (simp add: moves_refl)

lemma drain_pass_moves: "moves cfg lims ls (drain_pass lims now ls)"
proof -
  obtain ls1 ws1 where 1: "drain_class lims now Control ls = (ls1, ws1)" by fastforce
  obtain ls2 ws2 where 2: "drain_class lims now Recovery ls1 = (ls2, ws2)" by fastforce
  obtain ls3 ws3 where 3: "drain_class lims now Cheap ls2 = (ls3, ws3)" by fastforce
  obtain ls4 ws4 where 4: "drainLaneRoundRobin lims now ls3 = (ls4, ws4)" by fastforce
  have "moves cfg lims ls (ls1, ws1)" "moves cfg lims ls1 (ls2, ws2)" "moves cfg lims ls2 (ls3, ws3)"
    using drain_class_moves by (metis 1 2 3 drain_class_def)+
  moreover have "moves cfg lims ls3 (ls4, ws4)"
    using drain_rr_moves moves_refl by (metis 4 drainLaneRoundRobin_def)
  ultimately have "moves cfg lims ls (ls4, ws1 @ ws2 @ ws3 @ ws4)" by (meson moves_trans)
  then show ?thesis by (simp add: drain_pass_def 1 2 3 4)
qed

lemma drain_loop_moves: "moves cfg lims ls (drain_loop n lims now ls)"
proof (induction n arbitrary: ls)
  case (Suc n)
  obtain ls' ws where p: "drain_pass lims now ls = (ls', ws)" by fastforce
  obtain ls'' ws' where r: "drain_loop n lims now ls' = (ls'', ws')" by fastforce
  have 1: "moves cfg lims ls (ls', ws)" using drain_pass_moves [of cfg lims ls now] p by simp
  have "moves cfg lims ls' (ls'', ws')" using Suc [of ls'] r by simp
  from moves_trans [OF 1 this] 1 show ?case by (cases "ws = []") (simp_all add: p r moves_refl)
qed (simp add: moves_refl)

lemma drain_lane_moves: "moves cfg lims ls (drain_lane lims now ls)"
  unfolding drain_lane_def by (rule drain_loop_moves)

section \<open>The loops end, and leave no waiter that could start\<close>

definition head_blocked :: "lane_limits \<Rightarrow> lane_state \<Rightarrow> string \<Rightarrow> bool" where
  "head_blocked lims ls p \<longleftrightarrow>
     (case map_of (ls_waiters ls) p of Some (w # _) \<Rightarrow> \<not> canPromoteWaiter ls lims w | _ \<Rightarrow> True)"

lemma head_blocked_cursor [simp]: "head_blocked lims (ls\<lparr>ls_cursor := n\<rparr>) p = head_blocked lims ls p"
  by (simp add: head_blocked_def split: option.splits list.splits)

lemma class_loop_idle: "drain_class_loop (Suc n) lims now c ls = (ls', []) \<Longrightarrow> ls' = ls"
  by (auto simp: drainLaneForClass_def split: option.splits prod.splits)

lemma moves_shrinks:
  assumes "lane_ok cfg lims T ls" "moves cfg lims ls (ls', ws)"
  shows "length (all_waiters ls) = length ws + length (all_waiters ls')"
    "lane_ok cfg lims (T + mset (map claim_of ws)) ls'"
proof -
  have m: "mset (all_waiters ls) = mset ws + mset (all_waiters ls')"
    using assms by (auto simp: moves_def)
  show "length (all_waiters ls) = length ws + length (all_waiters ls')"
    using arg_cong [OF m, of size] by simp
  show "lane_ok cfg lims (T + mset (map claim_of ws)) ls'" using assms by (auto simp: moves_def)
qed

lemma lane_ok_count: "lane_ok cfg lims T ls \<Longrightarrow> ls_waiterCount ls = int (length (all_waiters ls))"
  by (simp add: lane_ok_def queue_ok_def)

text \<open>With more passes than waiters the loop over one class ends because no candidate is left.\<close>

lemma drain_class_done:
  assumes "lane_ok cfg lims T ls" "length (all_waiters ls) < n"
  shows "class_candidate lims c (fst (drain_class_loop n lims now c ls)) = None"
  using assms
proof (induction n arbitrary: ls T)
  case (Suc n)
  show ?case
  proof (cases "class_candidate lims c ls")
    case (Some w)
    have "moves cfg lims ls (start_waiter now ls w, [w])" using candidate [OF Some] by (intro moves_start)
    from moves_shrinks [OF Suc.prems(1) this] Suc.prems(2)
    have "class_candidate lims c (fst (drain_class_loop n lims now c (start_waiter now ls w))) = None"
      by (intro Suc.IH) auto
    then show ?thesis
      by (cases "drain_class_loop n lims now c (start_waiter now ls w)") (simp add: drainLaneForClass_def Some)
  qed (simp add: drainLaneForClass_def)
qed simp

lemma drain_rr_step:
  assumes "0 < ls_waiterCount ls" "k < m" "ls_rr ls \<noteq> []"
  defines "idx \<equiv> ls_cursor ls mod length (ls_rr ls)"
  defines "ls1 \<equiv> ls\<lparr>ls_cursor := (idx + 1) mod length (ls_rr ls)\<rparr>"
  shows "head_blocked lims ls (ls_rr ls ! idx) \<Longrightarrow>
      drain_rr_loop (Suc n) lims now m k ls = drain_rr_loop n lims now m (Suc k) ls1"
    "\<not> head_blocked lims ls (ls_rr ls ! idx) \<Longrightarrow> \<exists>w. w \<in> set (all_waiters ls) \<and> canPromoteWaiter ls lims w \<and>
      (\<forall>n. drain_rr_loop (Suc n) lims now m k ls =
        (let (ls2, ws) = drain_rr_loop n lims now m 0 (start_waiter now ls1 w) in (ls2, w # ws)))"
proof -
  show "head_blocked lims ls (ls_rr ls ! idx) \<Longrightarrow>
      drain_rr_loop (Suc n) lims now m k ls = drain_rr_loop n lims now m (Suc k) ls1"
    using assms(1-3) by (auto simp: head_blocked_def Let_def ls1_def idx_def split: option.splits list.splits)
  assume nb: "\<not> head_blocked lims ls (ls_rr ls ! idx)"
  then obtain w rest where m: "map_of (ls_waiters ls) (ls_rr ls ! idx) = Some (w # rest)" "canPromoteWaiter ls lims w"
    by (auto simp: head_blocked_def split: option.splits list.splits)
  from map_of_SomeD [OF this(1)] have "w \<in> set (all_waiters ls)" by (force simp: all_waiters_def)
  with m show "\<exists>w. w \<in> set (all_waiters ls) \<and> canPromoteWaiter ls lims w \<and>
      (\<forall>n. drain_rr_loop (Suc n) lims now m k ls =
        (let (ls2, ws) = drain_rr_loop n lims now m 0 (start_waiter now ls1 w) in (ls2, w # ws)))"
    using assms(1-3) by (intro exI [of _ w]) (auto simp: Let_def ls1_def idx_def)
qed

lemma drain_rr_starts:
  assumes "0 < ls_waiterCount ls" "k < m" "ls_rr ls \<noteq> []"
    and "\<not> head_blocked lims ls (ls_rr ls ! (ls_cursor ls mod length (ls_rr ls)))"
  shows "snd (drain_rr_loop (Suc n) lims now m k ls) \<noteq> []"
proof -
  let ?ls = "ls\<lparr>ls_cursor := (ls_cursor ls mod length (ls_rr ls) + 1) mod length (ls_rr ls)\<rparr>"
  obtain w where w: "drain_rr_loop (Suc n) lims now m k ls =
      (let (ls2, ws) = drain_rr_loop n lims now m 0 (start_waiter now ?ls w) in (ls2, w # ws))"
    using drain_rr_step(2) [OF assms] by blast
  show ?thesis unfolding w by (simp add: Let_def case_prod_beta)
qed

lemma drain_rr_stop:
  "\<not> (0 < ls_waiterCount ls \<and> k < m \<and> ls_rr ls \<noteq> []) \<Longrightarrow> drain_rr_loop n lims now m k ls = (ls, [])"
  by (cases n) auto

declare drain_rr_loop.simps(2) [simp del] drain_class_loop.simps(2) [simp del]

text \<open>More passes than \<open>rr_fuel\<close> change nothing.\<close>

lemma drain_rr_fuel:
  assumes "lane_ok cfg lims T ls" "length (all_waiters ls) * Suc m + (m - k) < n"
  shows "drain_rr_loop (Suc n) lims now m k ls = drain_rr_loop n lims now m k ls"
  using assms
proof (induction n arbitrary: ls T k)
  case (Suc n)
  show ?case
  proof (cases "0 < ls_waiterCount ls \<and> k < m \<and> ls_rr ls \<noteq> []")
    case True
    let ?idx = "ls_cursor ls mod length (ls_rr ls)"
    let ?ls = "ls\<lparr>ls_cursor := (?idx + 1) mod length (ls_rr ls)\<rparr>"
    from True have t: "0 < ls_waiterCount ls" "k < m" "ls_rr ls \<noteq> []" by auto
    have ok: "lane_ok cfg lims T ?ls" using Suc.prems(1) by simp
    show ?thesis
    proof (cases "head_blocked lims ls (ls_rr ls ! ?idx)")
      case b: True
      have "length (all_waiters ?ls) * Suc m + (m - Suc k) < n" using Suc.prems(2) t(2) by simp
      from Suc.IH [OF ok this] show ?thesis using drain_rr_step(1) [OF t b] by simp
    next
      case False
      from drain_rr_step(2) [OF t False] obtain w where w: "w \<in> set (all_waiters ls)" "canPromoteWaiter ls lims w" and
        s: "\<And>n. drain_rr_loop (Suc n) lims now m k ls =
          (let (ls2, ws) = drain_rr_loop n lims now m 0 (start_waiter now ?ls w) in (ls2, w # ws))"
        by blast
      have "moves cfg lims ?ls (start_waiter now ?ls w, [w])" using w by (intro moves_start) auto
      note sh = moves_shrinks [OF ok this]
      have "length (all_waiters (start_waiter now ?ls w)) * Suc m + (m - 0) < n"
        using Suc.prems(2) sh(1) t(2) by simp
      from Suc.IH [OF sh(2) this] show ?thesis by (simp add: s)
    qed
  qed (simp add: drain_rr_stop)
qed simp

lemma drain_rr_enough:
  assumes "lane_ok cfg lims T ls" "length (all_waiters ls) * Suc m + (m - k) < n"
  shows "drain_rr_loop (n + i) lims now m k ls = drain_rr_loop n lims now m k ls"
proof (induction i)
  case (Suc i)
  have "length (all_waiters ls) * Suc m + (m - k) < n + i" using assms(2) by simp
  from drain_rr_fuel [OF assms(1) this] Suc show ?case by simp
qed simp

text \<open>A scan that starts nobody has seen every principal's first waiter, and all are blocked.\<close>

lemma drain_rr_idle:
  assumes "drain_rr_loop n lims now (length (ls_rr ls)) k ls = (ls', [])"
    and "0 < ls_waiterCount ls" "length (ls_rr ls) - k < n" "j < length (ls_rr ls) - k"
  shows "head_blocked lims ls (ls_rr ls ! ((ls_cursor ls + j) mod length (ls_rr ls)))"
  using assms
proof (induction n arbitrary: ls k j)
  case (Suc n)
  let ?m = "length (ls_rr ls)"
  let ?idx = "ls_cursor ls mod ?m"
  let ?ls = "ls\<lparr>ls_cursor := (?idx + 1) mod ?m\<rparr>"
  have t: "k < ?m" "ls_rr ls \<noteq> []" using Suc.prems(4) by auto
  show ?case
  proof (cases "head_blocked lims ls (ls_rr ls ! ?idx)")
    case b: True
    show ?thesis
    proof (cases j)
      case 0
      with b show ?thesis by simp
    next
      case (Suc i)
      have "drain_rr_loop n lims now (length (ls_rr ?ls)) (Suc k) ?ls = (ls', [])"
        using drain_rr_step(1) [OF Suc.prems(2) t b] Suc.prems(1) by simp
      then have "head_blocked lims ?ls (ls_rr ?ls ! ((ls_cursor ?ls + i) mod length (ls_rr ?ls)))"
        using Suc.prems \<open>j = Suc i\<close> by (intro Suc.IH) auto
      moreover have "((?idx + 1) mod ?m + i) mod ?m = (ls_cursor ls + j) mod ?m"
        unfolding \<open>j = Suc i\<close> by (simp add: mod_simps)
      ultimately show ?thesis by simp
    qed
  next
    case False
    from drain_rr_starts [OF Suc.prems(2) t False] Suc.prems(1) show ?thesis by (metis snd_conv)
  qed
qed simp

lemma rr_loop_idle_state: "drain_rr_loop n lims now m k ls = (ls', []) \<Longrightarrow> \<exists>c. ls' = ls\<lparr>ls_cursor := c\<rparr>"
proof (induction n arbitrary: k ls)
  case 0
  then have "ls' = ls\<lparr>ls_cursor := ls_cursor ls\<rparr>" by simp
  then show ?case ..
next
  case (Suc n)
  show ?case
  proof (cases "0 < ls_waiterCount ls \<and> k < m \<and> ls_rr ls \<noteq> []")
    case True
    then have t: "0 < ls_waiterCount ls" "k < m" "ls_rr ls \<noteq> []" by auto
    let ?idx = "ls_cursor ls mod length (ls_rr ls)"
    show ?thesis
    proof (cases "head_blocked lims ls (ls_rr ls ! ?idx)")
      case b: True
      from Suc.prems Suc.IH drain_rr_step(1) [OF t b] show ?thesis by fastforce
    next
      case False
      from drain_rr_starts [OF t False] Suc.prems show ?thesis by (metis snd_conv)
    qed
  next
    case False
    with Suc.prems have "ls' = ls\<lparr>ls_cursor := ls_cursor ls\<rparr>" by (simp add: drain_rr_stop)
    then show ?thesis ..
  qed
qed

lemma rr_idle_state: "drainLaneRoundRobin lims now ls = (ls', []) \<Longrightarrow> \<exists>c. ls' = ls\<lparr>ls_cursor := c\<rparr>"
  using rr_loop_idle_state [of _ lims now _ 0 ls ls'] rr_loop_idle_state [of 0 lims now 0 0 ls ls]
  by (auto simp: drainLaneRoundRobin_def split: if_splits)

lemma drain_class_idle: "drain_class lims now c ls = (ls', []) \<Longrightarrow> ls' = ls"
  unfolding drain_class_def by (rule class_loop_idle)

lemma round_robin_idle:
  assumes ok: "lane_ok cfg lims T ls" and r: "drainLaneRoundRobin lims now ls = (ls', [])"
    and i: "i < length (ls_rr ls)"
  shows "head_blocked lims ls (ls_rr ls ! i)"
proof -
  let ?m = "length (ls_rr ls)"
  have "(ls_rr ls ! i) \<in> fst ` set (ls_waiters ls)"
    using ok nth_mem [OF i] by (simp add: lane_ok_def queue_ok_def)
  then obtain queue where "(ls_rr ls ! i, queue) \<in> set (ls_waiters ls)" by auto
  with ok have "all_waiters ls \<noteq> []" by (force simp: lane_ok_def queue_ok_def all_waiters_def)
  then have c: "0 < ls_waiterCount ls" using lane_ok_count [OF ok] by simp
  then have l: "drain_rr_loop (rr_fuel ls) lims now ?m 0 ls = (ls', [])"
    using r c i by (metis drainLaneRoundRobin_def length_0_conv less_irrefl not_less_zero)
  let ?c = "ls_cursor ls mod ?m"
  define j where "j = (i + (?m - ?c)) mod ?m"
  have m: "0 < ?m" using i by linarith
  have "?m - 0 < rr_fuel ls" using c by (simp add: rr_fuel_def)
  moreover have "j < ?m - 0" using m by (simp add: j_def)
  ultimately have "head_blocked lims ls (ls_rr ls ! ((ls_cursor ls + j) mod ?m))"
    using drain_rr_idle [OF l c] by blast
  moreover have "(ls_cursor ls + j) mod ?m = i"
  proof -
    have "?c < ?m" using m by simp
    have "(ls_cursor ls + j) mod ?m = (?c + (i + (?m - ?c))) mod ?m" by (simp add: j_def mod_simps)
    also have "?c + (i + (?m - ?c)) = i + ?m" using \<open>?c < ?m\<close> by simp
    finally show ?thesis using i by simp
  qed
  ultimately show ?thesis by simp
qed

lemma drain_pass_idle:
  assumes ok: "lane_ok cfg lims T ls" and r: "drain_pass lims now ls = (ls', [])"
    and p: "(p, queue) \<in> set (ls_waiters ls')"
  shows "head_blocked lims ls' p"
proof -
  have rr: "drainLaneRoundRobin lims now ls = (ls', [])"
    using r by (auto simp: drain_pass_def split: prod.splits dest!: drain_class_idle)
  have cur: "\<exists>c. ls' = ls\<lparr>ls_cursor := c\<rparr>" using rr_idle_state [OF rr] .
  then have w: "ls_waiters ls' = ls_waiters ls" and h: "head_blocked lims ls' p = head_blocked lims ls p" by auto
  have "p \<in> set (ls_rr ls)" using ok p w by (force simp: lane_ok_def queue_ok_def)
  then obtain i where "i < length (ls_rr ls)" "ls_rr ls ! i = p" by (auto simp: in_set_conv_nth)
  with round_robin_idle [OF ok rr] h show ?thesis by metis
qed

lemma drain_loop_done:
  assumes "lane_ok cfg lims T ls" "length (all_waiters ls) < n"
    and "(p, queue) \<in> set (ls_waiters (fst (drain_loop n lims now ls)))"
  shows "head_blocked lims (fst (drain_loop n lims now ls)) p"
  using assms
proof (induction n arbitrary: ls T)
  case (Suc n)
  obtain ls' ws where ps: "drain_pass lims now ls = (ls', ws)" by fastforce
  show ?case
  proof (cases "ls_waiterCount ls \<le> 0")
    case True
    then have "all_waiters ls = []" using lane_ok_count [OF Suc.prems(1)] by simp
    with Suc.prems True have False by (fastforce simp: lane_ok_def queue_ok_def all_waiters_def)
    then show ?thesis ..
  next
    case False
    show ?thesis
    proof (cases "ws = []")
      case True
      with drain_pass_idle [OF Suc.prems(1), of now ls'] ps Suc.prems(3) False show ?thesis by simp
    next
      case ne: False
      have "moves cfg lims ls (ls', ws)" using drain_pass_moves [of cfg lims ls now] ps by simp
      note sh = moves_shrinks [OF Suc.prems(1) this]
      have e: "fst (drain_loop (Suc n) lims now ls) = fst (drain_loop n lims now ls')"
        using False ne ps by (simp split: prod.splits)
      have "length (all_waiters ls') < n" using sh(1) ne Suc.prems(2) by (cases ws) auto
      from Suc.IH [OF sh(2) this] Suc.prems(3) show ?thesis unfolding e by blast
    qed
  qed
qed simp

lemma drain_lane_done:
  assumes "lane_ok cfg lims T ls" "(p, queue) \<in> set (ls_waiters (fst (drain_lane lims now ls)))"
  shows "head_blocked lims (fst (drain_lane lims now ls)) p"
  using drain_loop_done [of cfg lims T ls "Suc (nat (ls_waiterCount ls))"] assms lane_ok_count [OF assms(1)]
  by (simp add: drain_lane_def del: drain_loop.simps)

end
