(* ===== verification/AdmissionController.thy ===== *)
theory AdmissionController
  imports RequestAdmission
begin

text \<open>
  The controller of \<open>finance-dashboard/lib/request-admission.js\<close> over its three lanes: acquiring,
  the timers and abort handler of a waiting request, release, close, and the acquisition of a
  mutation that first looks into the operation journal.
\<close>

section \<open>State\<close>

text \<open>
  A ticket object. \<open>release\<close> is a closure over a ticket; its field here is the address of that
  ticket. A ticket that \<open>_makeTicket\<close> returns closes over itself, while the value a waiter is
  resolved with is a copy (\<open>{...ticket, ticket}\<close>) whose \<open>release\<close> closes over the original.
\<close>

record ticket =
  tk_lane :: lane
  tk_principal :: string
  tk_weight :: int
  tk_endpoint :: string
  tk_class :: traffic
  tk_startedAt :: int
  tk_released :: bool
  tk_release :: nat

record adm_stats =
  overloadRejections :: nat
  principalMapRejections :: nat
  waitTimeouts :: nat
  waitAborts :: nat
  pendingAgeTimeouts :: nat
  recoveryPeeks :: nat
  recoveryReplays :: nat
  cacheHitAdmissions :: nat
  controlAdmissions :: nat
  cheapAdmissions :: nat
  lightweightAdmissions :: nat
  idempotentReleases :: nat

datatype adm_error =
    Overloaded (ov_retryAfter: int) (ov_lane: lane) (ov_endpoint: string) (ov_class: traffic) (ov_keyReuse: bool)
  | Unavailable string
  | Unknown_lane string

record controller =
  ct_config :: admission_config
  ct_closed :: bool
  ct_lanes :: "lane \<Rightarrow> lane_state"
  ct_stats :: adm_stats
  ct_tickets :: "ticket list"
  ct_nextWaiter :: nat
  ct_settled :: "(nat \<times> (adm_error + nat)) list"

definition new_controller :: "admission_config \<Rightarrow> controller" where
  "new_controller cfg =
     \<lparr>ct_config = cfg, ct_closed = False, ct_lanes = \<lambda>_. createLaneState,
      ct_stats = \<lparr>overloadRejections = 0, principalMapRejections = 0, waitTimeouts = 0, waitAborts = 0,
        pendingAgeTimeouts = 0, recoveryPeeks = 0, recoveryReplays = 0, cacheHitAdmissions = 0,
        controlAdmissions = 0, cheapAdmissions = 0, lightweightAdmissions = 0, idempotentReleases = 0\<rparr>,
      ct_tickets = [], ct_nextWaiter = 0, ct_settled = []\<rparr>"

definition lane_of_string :: "string \<Rightarrow> lane option" where
  "lane_of_string s =
     (if s = ''mutation'' then Some Mutation else if s = ''read'' then Some Read_lane
      else if s = ''lightweight'' then Some Lightweight else None)"

abbreviation upd_stats :: "(adm_stats \<Rightarrow> adm_stats) \<Rightarrow> controller \<Rightarrow> controller" where
  "upd_stats f ct \<equiv> ct\<lparr>ct_stats := f (ct_stats ct)\<rparr>"

abbreviation set_lane :: "lane \<Rightarrow> lane_state \<Rightarrow> controller \<Rightarrow> controller" where
  "set_lane L ls ct \<equiv> ct\<lparr>ct_lanes := (ct_lanes ct)(L := ls)\<rparr>"

section \<open>Errors and tickets\<close>

text \<open>\<open>_overloadError\<close> counts a rejection; \<open>admissionOverloadRequiresKeyReuse\<close> with the source \<open>admission\<close>.\<close>

definition admissionOverloadRequiresKeyReuse :: "lane \<Rightarrow> traffic \<Rightarrow> bool" where
  "admissionOverloadRequiresKeyReuse L c \<longleftrightarrow> L = Mutation \<or> c = Recovery"

definition overloadError :: "int \<Rightarrow> lane \<Rightarrow> string \<Rightarrow> traffic \<Rightarrow> controller \<Rightarrow> controller \<times> adm_error" where
  "overloadError retry L endpoint c ct =
     (upd_stats (\<lambda>s. s\<lparr>overloadRejections := overloadRejections s + 1\<rparr>) ct,
      Overloaded retry L endpoint c (admissionOverloadRequiresKeyReuse L c))"

definition makeTicket :: "lane \<Rightarrow> string \<Rightarrow> int \<Rightarrow> string \<Rightarrow> traffic \<Rightarrow> int \<Rightarrow> controller \<Rightarrow> controller \<times> nat" where
  "makeTicket L p w endpoint c now ct =
     (let a = length (ct_tickets ct) in
      (ct\<lparr>ct_tickets := ct_tickets ct @
        [\<lparr>tk_lane = L, tk_principal = p, tk_weight = w, tk_endpoint = endpoint, tk_class = c,
          tk_startedAt = now, tk_released = False, tk_release = a\<rparr>]\<rparr>, a))"

text \<open>
  What \<open>_resolveWaiter\<close> does beside the counters: the ticket, and the copy of it that the promise
  is resolved with.
\<close>

definition resolve_waiter :: "int \<Rightarrow> waiter \<Rightarrow> controller \<Rightarrow> controller" where
  "resolve_waiter now w ct =
     (let (ct1, a) = makeTicket (w_lane w) (w_principal w) (w_weight w) (w_endpoint w) (w_class w) now ct;
          copy = length (ct_tickets ct1)
      in ct1\<lparr>ct_tickets := ct_tickets ct1 @ [ct_tickets ct1 ! a],
             ct_settled := ct_settled ct1 @ [(w_id w, Inr copy)]\<rparr>)"

section \<open>Acquiring\<close>

datatype acquired =
    Bypass
  | Admitted nat
  | Waiting waiter
  | Refused adm_error

definition effective_weight :: "admission_config \<Rightarrow> int \<Rightarrow> int" where
  "effective_weight cfg w = max 1 (min (maxEndpointWeight cfg) w)"

definition count_admission :: "lane \<Rightarrow> traffic \<Rightarrow> controller \<Rightarrow> controller" where
  "count_admission L c ct =
     upd_stats (\<lambda>s. s\<lparr>
       controlAdmissions := controlAdmissions s + (if c = Control then 1 else 0),
       cheapAdmissions := cheapAdmissions s + (if c = Cheap then 1 else 0),
       lightweightAdmissions := lightweightAdmissions s + (if L = Lightweight then 1 else 0)\<rparr>) ct"

text \<open>
  \<open>acquire\<close> up to the point where it returns, throws or awaits the waiter's promise. \<open>aborted\<close> is
  \<open>signal?.aborted\<close> when it is called.
\<close>

definition acquire ::
  "string \<Rightarrow> string \<Rightarrow> string \<Rightarrow> int \<Rightarrow> traffic \<Rightarrow> bool \<Rightarrow> int \<Rightarrow> controller \<Rightarrow> controller \<times> acquired"
where
  "acquire lane_name p endpoint weight c aborted now ct =
     (if ct_closed ct then (ct, Refused (Unavailable ''Request admission is closed''))
      else if lane_name = ''none'' then (ct, Bypass)
      else case lane_of_string lane_name of
        None \<Rightarrow> (ct, Refused (Unknown_lane lane_name))
      | Some L \<Rightarrow>
        (let cfg = ct_config ct; ls = ct_lanes ct L; lims = laneLimits cfg L; w = effective_weight cfg weight in
         if aborted
         then (upd_stats (\<lambda>s. s\<lparr>waitAborts := waitAborts s + 1\<rparr>) ct,
               Refused (Unavailable ''Client aborted before admission started''))
         else let ct1 = count_admission L c ct in
           if canStartNow cfg ls lims p w c
           then (case reserve cfg now p w c ls of
                   None \<Rightarrow>
                     (let (ct2, e) = overloadError 1 L endpoint c
                        (upd_stats (\<lambda>s. s\<lparr>principalMapRejections := principalMapRejections s + 1\<rparr>) ct1)
                      in (ct2, Refused e))
                 | Some ls1 \<Rightarrow>
                     (let (ct2, a) = makeTicket L p w endpoint c now
                        (set_lane L (promoteToRunning now p w c ls1) ct1)
                      in (ct2, Admitted a)))
           else if \<not> canQueue cfg ls lims p w c
           then (let (ct2, e) = overloadError 1 L endpoint c ct1 in (ct2, Refused e))
           else let waiter = \<lparr>w_id = ct_nextWaiter ct, w_lane = L, w_principal = p, w_weight = w,
                              w_endpoint = endpoint, w_class = c, w_enqueuedAt = now\<rparr>
             in case reserve cfg now p w c ls of
                  None \<Rightarrow>
                    (let (ct2, e) = overloadError 1 L endpoint c
                       (upd_stats (\<lambda>s. s\<lparr>principalMapRejections := principalMapRejections s + 1\<rparr>) ct1)
                     in (ct2, Refused e))
                | Some ls1 \<Rightarrow>
                    (set_lane L (enqueueWaiter ls1 waiter) (ct1\<lparr>ct_nextWaiter := ct_nextWaiter ct + 1\<rparr>),
                     Waiting waiter)))"

section \<open>The handlers of a waiting request\<close>

text \<open>What the three handlers share: the waiter leaves the queue and its pending claim is dropped.\<close>

definition drop_waiter :: "int \<Rightarrow> waiter \<Rightarrow> controller \<Rightarrow> controller option" where
  "drop_waiter now w ct =
     (case removeWaiter (ct_lanes ct (w_lane w)) w of
        None \<Rightarrow> None
      | Some ls \<Rightarrow> Some (set_lane (w_lane w)
          (releasePending now (w_principal w) (w_weight w) (w_class w) ls) ct))"

definition settle :: "waiter \<Rightarrow> adm_error + nat \<Rightarrow> controller \<Rightarrow> controller" where
  "settle w r ct = ct\<lparr>ct_settled := ct_settled ct @ [(w_id w, r)]\<rparr>"

definition onAbort :: "int \<Rightarrow> waiter \<Rightarrow> controller \<Rightarrow> controller" where
  "onAbort now w ct =
     (case drop_waiter now w ct of
        None \<Rightarrow> ct
      | Some ct1 \<Rightarrow> settle w (Inl (Unavailable ''Client aborted before admission started''))
          (upd_stats (\<lambda>s. s\<lparr>waitAborts := waitAborts s + 1\<rparr>) ct1))"

definition onWaitTimer :: "int \<Rightarrow> int \<Rightarrow> waiter \<Rightarrow> controller \<Rightarrow> controller" where
  "onWaitTimer maxWait now w ct =
     (case drop_waiter now w ct of
        None \<Rightarrow> ct
      | Some ct1 \<Rightarrow>
          (let (ct2, e) = overloadError (max 1 (- ((- maxWait) div 1000))) (w_lane w) (w_endpoint w) (w_class w)
             (upd_stats (\<lambda>s. s\<lparr>waitTimeouts := waitTimeouts s + 1\<rparr>) ct1)
           in settle w (Inl e) ct2))"

definition onAgeTimer :: "int \<Rightarrow> waiter \<Rightarrow> controller \<Rightarrow> controller" where
  "onAgeTimer now w ct =
     (if now - w_enqueuedAt w < maxPendingAgeMs (ct_config ct) then ct
      else case drop_waiter now w ct of
        None \<Rightarrow> ct
      | Some ct1 \<Rightarrow>
          (let (ct2, e) = overloadError 1 (w_lane w) (w_endpoint w) (w_class w)
             (upd_stats (\<lambda>s. s\<lparr>pendingAgeTimeouts := pendingAgeTimeouts s + 1\<rparr>) ct1)
           in settle w (Inl e) ct2))"

section \<open>Releasing\<close>

definition drainLane :: "int \<Rightarrow> lane \<Rightarrow> controller \<Rightarrow> controller" where
  "drainLane now L ct =
     (let (ls, started) = drain_lane (laneLimits (ct_config ct) L) now (ct_lanes ct L)
      in fold (resolve_waiter now) started (set_lane L ls ct))"

text \<open>The part of \<open>release\<close> before it drains: the ticket is marked, its running claim dropped.\<close>

definition give_back :: "int \<Rightarrow> nat \<Rightarrow> controller \<Rightarrow> controller" where
  "give_back now a ct =
     (let tk = ct_tickets ct ! a in
      set_lane (tk_lane tk)
        (releaseRunning now (tk_principal tk) (tk_weight tk) (tk_class tk) (ct_lanes ct (tk_lane tk)))
        (ct\<lparr>ct_tickets := (ct_tickets ct)[a := tk\<lparr>tk_released := True\<rparr>]\<rparr>))"

definition release :: "int \<Rightarrow> nat \<Rightarrow> controller \<Rightarrow> controller" where
  "release now a ct =
     (let tk = ct_tickets ct ! a in
      if tk_released tk
      then upd_stats (\<lambda>s. s\<lparr>idempotentReleases := idempotentReleases s + 1\<rparr>) ct
      else drainLane now (tk_lane tk) (give_back now a ct))"

text \<open>\<open>ticket.release()\<close>: the call goes to the ticket the closure holds.\<close>

definition call_release :: "int \<Rightarrow> nat \<Rightarrow> controller \<Rightarrow> controller" where
  "call_release now a ct = release now (tk_release (ct_tickets ct ! a)) ct"

section \<open>Closing\<close>

definition close_lane :: "int \<Rightarrow> lane_state \<Rightarrow> lane_state" where
  "close_lane now ls =
     (fold (\<lambda>w s. releasePending now (w_principal w) (w_weight w) (w_class w)
              (s\<lparr>ls_waiterCount := ls_waiterCount s - 1\<rparr>)) (all_waiters ls) ls)
       \<lparr>ls_waiters := [], ls_rr := [], ls_cursor := 0\<rparr>"

definition closeAdmission :: "int \<Rightarrow> controller \<Rightarrow> controller" where
  "closeAdmission now ct =
     (let rejected = concat (map (\<lambda>L. all_waiters (ct_lanes ct L)) [Mutation, Read_lane, Lightweight])
      in ct\<lparr>ct_closed := True, ct_lanes := (\<lambda>L. close_lane now (ct_lanes ct L)),
            ct_settled := ct_settled ct @
              map (\<lambda>w. (w_id w, Inl (Unavailable ''Request admission is closed''))) rejected\<rparr>)"

section \<open>A mutation with a look into the journal\<close>

definition convertTrafficClass :: "nat \<Rightarrow> traffic \<Rightarrow> controller \<Rightarrow> controller" where
  "convertTrafficClass a c ct =
     (let tk = ct_tickets ct ! a in
      if tk_class tk = c then ct
      else let ls = ct_lanes ct (tk_lane tk);
               freed = (ls_classRunning ls)(tk_class tk := max 0 (ls_classRunning ls (tk_class tk) - tk_weight tk))
        in (set_lane (tk_lane tk) (ls\<lparr>ls_classRunning := freed(c := freed c + tk_weight tk)\<rparr>) ct)
             \<lparr>ct_tickets := (ct_tickets ct)[a := tk\<lparr>tk_class := c\<rparr>]\<rparr>)"

definition start_peek :: "string \<Rightarrow> string \<Rightarrow> int \<Rightarrow> bool \<Rightarrow> int \<Rightarrow> controller \<Rightarrow> controller \<times> acquired" where
  "start_peek p endpoint weight aborted now ct =
     acquire ''mutation'' p endpoint weight Recovery aborted now
       (upd_stats (\<lambda>s. s\<lparr>recoveryPeeks := recoveryPeeks s + 1\<rparr>) ct)"

datatype 'j peeked =
    Recovered nat 'j
  | Ordinary_mode nat
  | Peek_refused adm_error
  | Peek_threw string

text \<open>
  \<open>acquireMutationWithJournalPeek\<close> from the return of \<open>acquire\<close> on; \<open>a\<close> is the address of what
  it returned and \<open>journal\<close> is the outcome of \<open>peekJournal()\<close>.
\<close>

definition finish_peek ::
  "nat \<Rightarrow> string + 'j option \<Rightarrow> string \<Rightarrow> int \<Rightarrow> controller \<Rightarrow> controller \<times> 'j peeked"
where
  "finish_peek a journal endpoint now ct =
     (case journal of
        Inl e \<Rightarrow> (call_release now a ct, Peek_threw e)
      | Inr (Some existing) \<Rightarrow>
          (upd_stats (\<lambda>s. s\<lparr>recoveryReplays := recoveryReplays s + 1\<rparr>) ct, Recovered a existing)
      | Inr None \<Rightarrow>
          (let ls = ct_lanes ct Mutation; lims = laneLimits (ct_config ct) Mutation;
               w = tk_weight (ct_tickets ct ! a)
           in if \<not> canAddRunning ls lims Ordinary w \<or> \<not> canAdmitClass ls lims Ordinary w
              then (let (ct1, e) = overloadError 1 Mutation endpoint Ordinary (call_release now a ct)
                    in (ct1, Peek_refused e))
              else (convertTrafficClass a Ordinary ct, Ordinary_mode a)))"

section \<open>The invariant of the controller\<close>

definition ticket_claim :: "ticket \<Rightarrow> claim" where
  "ticket_claim tk = (tk_principal tk, tk_weight tk, tk_class tk)"

text \<open>The tickets that hold capacity of a lane: the originals (not the copies) not yet released.\<close>

definition is_live :: "ticket list \<Rightarrow> lane \<Rightarrow> nat \<Rightarrow> bool" where
  "is_live tks L a \<longleftrightarrow> tk_release (tks ! a) = a \<and> tk_lane (tks ! a) = L \<and> \<not> tk_released (tks ! a)"

definition live :: "ticket list \<Rightarrow> lane \<Rightarrow> claim multiset" where
  "live tks L = mset (map (\<lambda>a. ticket_claim (tks ! a)) (filter (is_live tks L) [0..<length tks]))"

definition waiter_ids :: "controller \<Rightarrow> nat multiset" where
  "waiter_ids ct = mset (map w_id (all_waiters (ct_lanes ct Mutation) @ all_waiters (ct_lanes ct Read_lane) @
     all_waiters (ct_lanes ct Lightweight)))"

definition tickets_ok :: "ticket list \<Rightarrow> bool" where
  "tickets_ok tks \<longleftrightarrow> (\<forall>a<length tks. tk_release (tks ! a) < length tks \<and>
     tk_release (tks ! tk_release (tks ! a)) = tk_release (tks ! a))"

definition lanes_ok :: "controller \<Rightarrow> bool" where
  "lanes_ok ct \<longleftrightarrow>
     (\<forall>L. lane_ok (ct_config ct) (laneLimits (ct_config ct) L) (live (ct_tickets ct) L) (ct_lanes ct L) \<and>
          (\<forall>w\<in>set (all_waiters (ct_lanes ct L)). w_lane w = L))"

definition settled_once :: "controller \<Rightarrow> bool" where
  "settled_once ct \<longleftrightarrow>
     waiter_ids ct + mset (map fst (ct_settled ct)) = mset [0..<ct_nextWaiter ct]"

definition ctrl_ok :: "controller \<Rightarrow> bool" where
  "ctrl_ok ct \<longleftrightarrow> lanes_ok ct \<and> tickets_ok (ct_tickets ct) \<and> settled_once ct"

lemma live_append:
  "live (tks @ [tk]) L =
     (if tk_release tk = length tks \<and> tk_lane tk = L \<and> \<not> tk_released tk then {#ticket_claim tk#} else {#})
     + live tks L"
proof -
  have p: "map (\<lambda>a. ticket_claim ((tks @ [tk]) ! a)) (filter (is_live (tks @ [tk]) L) [0..<length tks]) =
      map (\<lambda>a. ticket_claim (tks ! a)) (filter (is_live tks L) [0..<length tks])"
    by (intro map_cong filter_cong) (auto simp: is_live_def nth_append)
  have n: "is_live (tks @ [tk]) L (length tks) \<longleftrightarrow>
      tk_release tk = length tks \<and> tk_lane tk = L \<and> \<not> tk_released tk"
    by (simp add: is_live_def)
  show ?thesis unfolding live_def length_append_singleton upt_Suc_append [OF le0] filter_append map_append p
    by (simp add: n)
qed

lemma live_update:
  assumes "a < length tks" "is_live tks (tk_lane (tks ! a)) a" "tk_release tk = a" "tk_lane tk = tk_lane (tks ! a)"
  obtains R where "live tks (tk_lane (tks ! a)) = add_mset (ticket_claim (tks ! a)) R"
    "live (tks[a := tk]) (tk_lane (tks ! a)) = (if tk_released tk then R else add_mset (ticket_claim tk) R)"
    "\<And>L. L \<noteq> tk_lane (tks ! a) \<Longrightarrow> live (tks[a := tk]) L = live tks L"
proof -
  let ?f = "\<lambda>tks L is. mset (map (\<lambda>a. ticket_claim (tks ! a)) (filter (is_live tks L) is))"
  have split: "[0..<length tks] = [0..<a] @ a # [Suc a..<length tks]"
    using assms(1) by (metis append_Cons append_Nil le_add1 less_imp_add_positive upt_add_eq_append upt_conv_Cons zero_le)
  have same: "?f (tks[a := tk]) L is = ?f tks L is" if "a \<notin> set is" for L "is"
    using that by (induction "is") (auto simp: is_live_def)
  let ?L = "tk_lane (tks ! a)"
  show ?thesis
  proof (rule that)
    show "live tks ?L = add_mset (ticket_claim (tks ! a)) (?f tks ?L [0..<a] + ?f tks ?L [Suc a..<length tks])"
      using assms(2) by (simp add: live_def split)
    show "live (tks[a := tk]) ?L = (if tk_released tk then ?f tks ?L [0..<a] + ?f tks ?L [Suc a..<length tks]
        else add_mset (ticket_claim tk) (?f tks ?L [0..<a] + ?f tks ?L [Suc a..<length tks]))"
      using assms same [of "[0..<a]" ?L] same [of "[Suc a..<length tks]" ?L]
      by (simp add: live_def split) (simp add: is_live_def)
    show "live (tks[a := tk]) L = live tks L" if "L \<noteq> ?L" for L
      using assms that same [of "[0..<a]" L] same [of "[Suc a..<length tks]" L]
      by (simp add: live_def split) (simp add: is_live_def)
  qed
qed

section \<open>Effect of the parts on tickets and promises\<close>

lemma stats_irrelevant [simp]:
  "lanes_ok (ct\<lparr>ct_stats := s\<rparr>) = lanes_ok ct" "settled_once (ct\<lparr>ct_stats := s\<rparr>) = settled_once ct"
  "ctrl_ok (ct\<lparr>ct_stats := s\<rparr>) = ctrl_ok ct"
  by (simp_all add: lanes_ok_def settled_once_def waiter_ids_def ctrl_ok_def)

lemma overloadError_ok [simp]: "ctrl_ok (fst (overloadError r L e c ct)) = ctrl_ok ct"
  by (simp add: overloadError_def)

text \<open>Resolving waiters adds one live ticket for each and settles each promise.\<close>

lemma resolve_waiter_fields:
  "ct_lanes (resolve_waiter now w ct) = ct_lanes ct" "ct_config (resolve_waiter now w ct) = ct_config ct"
  "ct_nextWaiter (resolve_waiter now w ct) = ct_nextWaiter ct"
  "map fst (ct_settled (resolve_waiter now w ct)) = map fst (ct_settled ct) @ [w_id w]"
  by (simp_all add: resolve_waiter_def makeTicket_def Let_def)

lemma resolve_waiter_live:
  "live (ct_tickets (resolve_waiter now w ct)) L =
     (if w_lane w = L then add_mset (claim_of w) (live (ct_tickets ct) L) else live (ct_tickets ct) L)"
proof -
  obtain tk where "ct_tickets (resolve_waiter now w ct) = (ct_tickets ct @ [tk]) @ [tk]"
      "tk_release tk = length (ct_tickets ct)" "tk_lane tk = w_lane w" "\<not> tk_released tk" "ticket_claim tk = claim_of w"
    by (simp add: resolve_waiter_def makeTicket_def Let_def ticket_claim_def claim_of_def)
  then show ?thesis by (simp only: live_append) simp
qed

lemma resolve_waiter_tickets: "tickets_ok (ct_tickets ct) \<Longrightarrow> tickets_ok (ct_tickets (resolve_waiter now w ct))"
  by (auto simp: resolve_waiter_def makeTicket_def Let_def tickets_ok_def nth_append less_Suc_eq)

lemma resolve_waiters:
  fixes now :: int
  assumes "\<And>w. w \<in> set ws \<Longrightarrow> w_lane w = L" "tickets_ok (ct_tickets ct)"
  defines "ct' \<equiv> fold (resolve_waiter now) ws ct"
  shows "ct_lanes ct' = ct_lanes ct" "ct_config ct' = ct_config ct" "ct_nextWaiter ct' = ct_nextWaiter ct"
    "map fst (ct_settled ct') = map fst (ct_settled ct) @ map w_id ws"
    "live (ct_tickets ct') L' = (if L' = L then mset (map claim_of ws) else {#}) + live (ct_tickets ct) L'"
    "tickets_ok (ct_tickets ct')"
  unfolding ct'_def using assms(1,2)
  by (induction ws arbitrary: ct) (auto simp: resolve_waiter_fields resolve_waiter_live resolve_waiter_tickets)

section \<open>Effect of the operations on one lane\<close>

lemma within_drop:
  "within_limits cfg lims (add_mset (p, w, c) W) T \<Longrightarrow> 1 \<le> w \<Longrightarrow> within_limits cfg lims W T"
  "within_limits cfg lims W (add_mset (p, w, c) T) \<Longrightarrow> 1 \<le> w \<Longrightarrow> within_limits cfg lims W T"
  unfolding within_limits_def by (simp_all split: if_splits) (smt (verit) add_left_mono)+

lemma within_none: "heavy W \<Longrightarrow> within_limits cfg lims W T \<Longrightarrow> within_limits cfg lims {#} T"
proof (induction W)
  case (add x W)
  obtain p w c where "x = (p, w, c)" by (cases x)
  with add within_drop(1) show ?case by simp
qed

lemma reserve_fields:
  assumes "reserve cfg now p w c ls = Some ls'"
  shows "ls_waiters ls' = ls_waiters ls" "ls_rr ls' = ls_rr ls" "ls_waiterCount ls' = ls_waiterCount ls"
  using assms by (auto simp: reserve_def split: option.splits)

lemma start_now_ok:
  assumes ok: "lane_ok cfg lims T ls" and can: "canStartNow cfg ls lims p w c"
    and r: "reserve cfg now p w c ls = Some ls1" and w: "1 \<le> w"
  shows "lane_ok cfg lims (add_mset (p, w, c) T) (promoteToRunning now p w c ls1)"
    "all_waiters (promoteToRunning now p w c ls1) = all_waiters ls"
proof -
  let ?ls = "promoteToRunning now p w c ls1"
  have q: "queue_ok ls" and c: "counts ls (waiting ls) T" and l: "within_limits cfg lims (waiting ls) T"
    using ok by (auto simp: lane_ok_def)
  have same: "ls_waiters ?ls = ls_waiters ls" "ls_rr ?ls = ls_rr ls" "ls_waiterCount ?ls = ls_waiterCount ls"
    using reserve_fields [OF r] by (simp_all add: promoteToRunning_def)
  have c': "counts ?ls (waiting ls) (add_mset (p, w, c) T)"
    using counts_promote [OF counts_reserve [OF c r w]] .
  have cl: "on_class c (waiting ls) + on_class c T + w \<le> classLimit lims c" "on_class c T + w \<le> runningCap lims c"
    "on_principal p T + w \<le> ll_principalRunning lims"
    "weight_sum (waiting ls) + weight_sum T + w \<le> maxPendingDepth cfg"
    using can canAddRunning_cap [OF c] principal_checks(2) [OF c] c
    by (simp_all add: canStartNow_def canAdmitClass_def counts_def)
  have "within_limits cfg lims (waiting ls) (add_mset (p, w, c) T)"
    using l cl by (simp add: within_limits_def)
  with c' q queue_ok_cong [OF same] waiting_cong [OF same(1)]
  show "lane_ok cfg lims (add_mset (p, w, c) T) ?ls" by (simp add: lane_ok_def)
  show "all_waiters ?ls = all_waiters ls" using same by (simp add: all_waiters_def)
qed

lemma enqueue_lane_ok:
  assumes ok: "lane_ok cfg lims T ls" and can: "canQueue cfg ls lims p w c"
    and r: "reserve cfg now p w c ls = Some ls1" and w: "1 \<le> w" and v: "claim_of v = (p, w, c)"
  shows "lane_ok cfg lims T (enqueueWaiter ls1 v)"
    "mset (all_waiters (enqueueWaiter ls1 v)) = add_mset v (mset (all_waiters ls))"
proof -
  have q: "queue_ok ls" and c: "counts ls (waiting ls) T" and l: "within_limits cfg lims (waiting ls) T"
    using ok by (auto simp: lane_ok_def)
  note same = reserve_fields [OF r]
  have q1: "queue_ok ls1" using q queue_ok_cong [OF same] by simp
  note e = enqueueWaiter_ok [OF q1, of v]
  have aw: "all_waiters ls1 = all_waiters ls" using same by (simp add: all_waiters_def)
  show m: "mset (all_waiters (enqueueWaiter ls1 v)) = add_mset v (mset (all_waiters ls))" using e(2) aw by simp
  have W: "waiting (enqueueWaiter ls1 v) = add_mset (p, w, c) (waiting ls)"
    unfolding waiting_def mset_map m using v by simp
  have c': "counts (enqueueWaiter ls1 v) (waiting (enqueueWaiter ls1 v)) T"
    using counts_reserve [OF c r w] counts_cong [OF e(3)] W by simp
  have cl: "on_class c (waiting ls) + on_class c T + w \<le> classLimit lims c"
    "on_principal p (waiting ls) + w \<le> ll_principalPending lims"
    "weight_sum (waiting ls) + w \<le> ll_globalPending lims"
    "weight_sum (waiting ls) + weight_sum T + w \<le> maxPendingDepth cfg"
    using can principal_checks(1) [OF c] c by (simp_all add: canQueue_def canAdmitClass_def counts_def)
  have "within_limits cfg lims (add_mset (p, w, c) (waiting ls)) T"
    using l cl by (simp add: within_limits_def)
  with c' e(1) W show "lane_ok cfg lims T (enqueueWaiter ls1 v)" by (simp add: lane_ok_def)
qed

lemma drop_lane_ok:
  fixes now :: int
  assumes ok: "lane_ok cfg lims T ls" and r: "removeWaiter ls v = Some ls'"
  defines "ls'' \<equiv> releasePending now (w_principal v) (w_weight v) (w_class v) ls'"
  shows "lane_ok cfg lims T ls''" "mset (all_waiters ls) = add_mset v (mset (all_waiters ls''))"
proof -
  have q: "queue_ok ls" and c: "counts ls (waiting ls) T" and l: "within_limits cfg lims (waiting ls) T"
    using ok by (auto simp: lane_ok_def)
  note ro = removeWaiter_ok [OF q r]
  have same: "ls_waiters ls'' = ls_waiters ls'" "ls_rr ls'' = ls_rr ls'" "ls_waiterCount ls'' = ls_waiterCount ls'"
    by (simp_all add: ls''_def releasePending_def)
  have W: "waiting ls = add_mset (w_principal v, w_weight v, w_class v) (waiting ls')"
    unfolding waiting_def mset_map ro(2) by (simp add: claim_of_def)
  have "counts ls' (add_mset (w_principal v, w_weight v, w_class v) (waiting ls')) T"
    using c counts_cong [OF ro(3)] W by simp
  from counts_releasePending [OF this] have c': "counts ls'' (waiting ls') T" by (simp add: ls''_def)
  have "1 \<le> w_weight v" using c W by (simp add: counts_def)
  with l W have "within_limits cfg lims (waiting ls') T" using within_drop(1) by simp
  with c' ro(1) queue_ok_cong [OF same] waiting_cong [OF same(1)] show "lane_ok cfg lims T ls''"
    by (simp add: lane_ok_def)
  show "mset (all_waiters ls) = add_mset v (mset (all_waiters ls''))" using ro(2) same by (simp add: all_waiters_def)
qed

lemma release_lane_ok:
  assumes ok: "lane_ok cfg lims (add_mset (p, w, c) T) ls"
  shows "lane_ok cfg lims T (releaseRunning now p w c ls)"
    "all_waiters (releaseRunning now p w c ls) = all_waiters ls"
proof -
  let ?ls = "releaseRunning now p w c ls"
  have q: "queue_ok ls" and c: "counts ls (waiting ls) (add_mset (p, w, c) T)"
    and l: "within_limits cfg lims (waiting ls) (add_mset (p, w, c) T)" using ok by (auto simp: lane_ok_def)
  have same: "ls_waiters ?ls = ls_waiters ls" "ls_rr ?ls = ls_rr ls" "ls_waiterCount ?ls = ls_waiterCount ls"
    by (simp_all add: releaseRunning_def)
  have "1 \<le> w" using c by (simp add: counts_def)
  then show "lane_ok cfg lims T ?ls"
    using q counts_releaseRunning [OF c] within_drop(2) [OF l] queue_ok_cong [OF same] waiting_cong [OF same(1)]
    by (simp add: lane_ok_def)
  show "all_waiters ?ls = all_waiters ls" using same by (simp add: all_waiters_def)
qed

lemma convert_lane_ok:
  assumes ok: "lane_ok cfg lims (add_mset (p, w, c) T) ls" and ne: "c \<noteq> d"
    and can: "canAddRunning ls lims d w" "canAdmitClass ls lims d w"
  defines "freed \<equiv> (ls_classRunning ls)(c := max 0 (ls_classRunning ls c - w))"
  defines "ls' \<equiv> ls\<lparr>ls_classRunning := freed(d := freed d + w)\<rparr>"
  shows "lane_ok cfg lims (add_mset (p, w, d) T) ls'" "all_waiters ls' = all_waiters ls"
proof -
  have q: "queue_ok ls" and c: "counts ls (waiting ls) (add_mset (p, w, c) T)"
    and l: "within_limits cfg lims (waiting ls) (add_mset (p, w, c) T)" using ok by (auto simp: lane_ok_def)
  have same: "ls_waiters ls' = ls_waiters ls" "ls_rr ls' = ls_rr ls" "ls_waiterCount ls' = ls_waiterCount ls"
    by (simp_all add: ls'_def)
  have h: "heavy T" "1 \<le> w" using c by (simp_all add: counts_def)
  have c': "counts ls' (waiting ls) (add_mset (p, w, d) T)"
    using c ne sums_nonneg(2) [OF h(1)] unfolding counts_def ls'_def freed_def by simp
  have d: "on_class d (waiting ls) + on_class d T + w \<le> classLimit lims d" "on_class d T + w \<le> runningCap lims d"
    using can canAddRunning_cap [OF c can(1)] c ne by (simp_all add: canAdmitClass_def counts_def)
  have "within_limits cfg lims (waiting ls) (add_mset (p, w, d) T)"
    unfolding within_limits_def
  proof (intro conjI allI)
    fix e
    show "on_class e (waiting ls) + on_class e (add_mset (p, w, d) T) \<le> classLimit lims e"
    proof (cases "e = d")
      case False
      have "on_class e (waiting ls) + on_class e (add_mset (p, w, c) T) \<le> classLimit lims e"
        using l by (simp add: within_limits_def)
      with False h show ?thesis by (simp split: if_splits)
    qed (use d in simp)
    show "on_class e (add_mset (p, w, d) T) \<le> runningCap lims e"
    proof (cases "e = d")
      case False
      have "on_class e (add_mset (p, w, c) T) \<le> runningCap lims e" using l by (simp add: within_limits_def)
      with False h show ?thesis by (simp split: if_splits)
    qed (use d in simp)
  qed (use l in \<open>simp_all add: within_limits_def\<close>)
  with c' q queue_ok_cong [OF same] waiting_cong [OF same(1)]
  show "lane_ok cfg lims (add_mset (p, w, d) T) ls'" by (simp add: lane_ok_def)
  show "all_waiters ls' = all_waiters ls" using same by (simp add: all_waiters_def)
qed

lemma close_fold:
  fixes now :: int
  defines "step \<equiv> (\<lambda>w s. releasePending now (w_principal w) (w_weight w) (w_class w)
              (s\<lparr>ls_waiterCount := ls_waiterCount s - 1\<rparr>))"
  assumes "counts s (mset (map claim_of ws)) T"
  shows "counts (fold step ws s) {#} T \<and>
    ls_waiterCount (fold step ws s) = ls_waiterCount s - int (length ws)"
  using assms(2)
proof (induction ws arbitrary: s)
  case (Cons w ws)
  let ?s = "s\<lparr>ls_waiterCount := ls_waiterCount s - 1\<rparr>"
  have "counts ?s (add_mset (claim_of w) (mset (map claim_of ws))) T"
    using Cons.prems counts_cong [of ?s s] by simp
  then have "counts (step w s) (mset (map claim_of ws)) T"
    unfolding step_def claim_of_def by (rule counts_releasePending)
  note IH = Cons.IH [OF this]
  moreover have "ls_waiterCount (step w s) = ls_waiterCount s - 1" by (simp add: step_def releasePending_def)
  ultimately show ?case by simp
qed simp_all

lemma close_lane_ok:
  assumes ok: "lane_ok cfg lims T ls"
  shows "lane_ok cfg lims T (close_lane now ls)" "all_waiters (close_lane now ls) = []"
proof -
  let ?step = "\<lambda>w s. releasePending now (w_principal w) (w_weight w) (w_class w)
              (s\<lparr>ls_waiterCount := ls_waiterCount s - 1\<rparr>)"
  let ?s = "fold ?step (all_waiters ls) ls"
  have c: "counts ls (waiting ls) T" and l: "within_limits cfg lims (waiting ls) T"
    and n: "ls_waiterCount ls = int (length (all_waiters ls))"
    using ok by (auto simp: lane_ok_def queue_ok_def)
  note f = close_fold [OF c [unfolded waiting_def], of now, THEN conjunct1]
    close_fold [OF c [unfolded waiting_def], of now, THEN conjunct2]
  have W: "waiting (close_lane now ls) = {#}" by (simp add: waiting_def all_waiters_def close_lane_def)
  have "counts (close_lane now ls) {#} T" using f(1) by (simp add: close_lane_def counts_def)
  moreover have "queue_ok (close_lane now ls)" using f(2) n by (simp add: queue_ok_def all_waiters_def close_lane_def)
  moreover have "within_limits cfg lims {#} T"
  proof -
    have "heavy (waiting ls)" using c by (simp add: counts_def)
    then show ?thesis using l by (rule within_none)
  qed
  ultimately show "lane_ok cfg lims T (close_lane now ls)" by (simp add: lane_ok_def W)
  show "all_waiters (close_lane now ls) = []" by (simp add: all_waiters_def close_lane_def)
qed

section \<open>Every operation keeps the invariant\<close>

abbreviation queued_ids :: "controller \<Rightarrow> lane \<Rightarrow> nat multiset" where
  "queued_ids ct L \<equiv> image_mset w_id (mset (all_waiters (ct_lanes ct L)))"

lemma waiter_ids_eq:
  "waiter_ids ct = queued_ids ct Mutation + queued_ids ct Read_lane + queued_ids ct Lightweight"
  by (simp add: waiter_ids_def)

lemma mset_balance:
  fixes N A R S :: "'a multiset"
  assumes "N = A + R + S" "A' + S' + N = A + S + N'"
  shows "A' + R + S' = N'"
proof -
  have "(A + S) + (A' + R + S') = (A + S) + N'" using assms(2) unfolding assms(1) by (simp add: ac_simps)
  then show ?thesis by (simp only: add_left_cancel)
qed

lemma ctrl_okI:
  assumes ok: "ctrl_ok ct" and cfg: "ct_config ct' = ct_config ct" and t: "tickets_ok (ct_tickets ct')"
    and other: "\<And>L'. L' \<noteq> L \<Longrightarrow> ct_lanes ct' L' = ct_lanes ct L' \<and> live (ct_tickets ct') L' = live (ct_tickets ct) L'"
    and lane: "lane_ok (ct_config ct) (laneLimits (ct_config ct) L) (live (ct_tickets ct') L) (ct_lanes ct' L)"
    and wl: "\<And>w. w \<in> set (all_waiters (ct_lanes ct' L)) \<Longrightarrow> w_lane w = L"
    and ids: "queued_ids ct' L + mset (map fst (ct_settled ct')) + mset [0..<ct_nextWaiter ct] =
      queued_ids ct L + mset (map fst (ct_settled ct)) + mset [0..<ct_nextWaiter ct']"
  shows "ctrl_ok ct'"
proof -
  have "lanes_ok ct'" unfolding lanes_ok_def cfg
  proof
    fix L'
    show "lane_ok (ct_config ct) (laneLimits (ct_config ct) L') (live (ct_tickets ct') L') (ct_lanes ct' L') \<and>
        (\<forall>w\<in>set (all_waiters (ct_lanes ct' L')). w_lane w = L')"
    proof (cases "L' = L")
      case True
      with lane wl show ?thesis by simp
    next
      case False
      have "lanes_ok ct" using ok by (simp add: ctrl_ok_def)
      with other [OF False] show ?thesis by (simp add: lanes_ok_def)
    qed
  qed
  moreover have "settled_once ct'"
  proof -
    have s: "queued_ids ct Mutation + queued_ids ct Read_lane + queued_ids ct Lightweight +
        mset (map fst (ct_settled ct)) = mset [0..<ct_nextWaiter ct]"
      using ok by (simp add: ctrl_ok_def settled_once_def waiter_ids_eq)
    have o: "queued_ids ct' L' = queued_ids ct L'" if "L' \<noteq> L" for L' using other [OF that] by simp
    define R where "R = (case L of Mutation \<Rightarrow> queued_ids ct Read_lane + queued_ids ct Lightweight
      | Read_lane \<Rightarrow> queued_ids ct Mutation + queued_ids ct Lightweight
      | Lightweight \<Rightarrow> queued_ids ct Mutation + queued_ids ct Read_lane)"
    have R: "waiter_ids ct = queued_ids ct L + R" "waiter_ids ct' = queued_ids ct' L + R"
      using o [of Mutation] o [of Read_lane] o [of Lightweight] unfolding waiter_ids_eq R_def
      by (cases L; simp add: ac_simps)+
    have "mset [0..<ct_nextWaiter ct] = queued_ids ct L + R + mset (map fst (ct_settled ct))"
      using s R(1) unfolding waiter_ids_eq by simp
    from mset_balance [OF this ids] show ?thesis unfolding settled_once_def R(2) .
  qed
  ultimately show ?thesis using t by (simp add: ctrl_ok_def)
qed

lemma ctrl_lane:
  assumes "ctrl_ok ct"
  shows "lane_ok (ct_config ct) (laneLimits (ct_config ct) L) (live (ct_tickets ct) L) (ct_lanes ct L)"
    "w \<in> set (all_waiters (ct_lanes ct L)) \<Longrightarrow> w_lane w = L" "tickets_ok (ct_tickets ct)"
  using assms by (auto simp: ctrl_ok_def lanes_ok_def)

lemma effective_weight_pos: "1 \<le> effective_weight cfg w"
  by (simp add: effective_weight_def)

lemma tickets_ok_append:
  "tickets_ok tks \<Longrightarrow> tk_release tk = length tks \<Longrightarrow> tickets_ok (tks @ [tk])"
  by (auto simp: tickets_ok_def nth_append less_Suc_eq)

lemma admit_ok:
  assumes ok: "ctrl_ok ct" and w: "1 \<le> w"
    and can: "canStartNow (ct_config ct) (ct_lanes ct L) (laneLimits (ct_config ct) L) p w c"
    and r: "reserve (ct_config ct) now p w c (ct_lanes ct L) = Some ls1"
  shows "ctrl_ok (fst (makeTicket L p w e c now (set_lane L (promoteToRunning now p w c ls1) ct)))"
proof -
  note s = start_now_ok [OF ctrl_lane(1) [OF ok] can r w]
  show ?thesis
    by (rule ctrl_okI [OF ok, where L = L])
      (use s ctrl_lane(2,3) [OF ok] in \<open>auto simp: makeTicket_def Let_def live_append ticket_claim_def
        intro!: tickets_ok_append\<close>)
qed

lemma wait_ok:
  assumes ok: "ctrl_ok ct" and w: "1 \<le> w"
    and can: "canQueue (ct_config ct) (ct_lanes ct L) (laneLimits (ct_config ct) L) p w c"
    and r: "reserve (ct_config ct) now p w c (ct_lanes ct L) = Some ls1"
    and v: "claim_of v = (p, w, c)" "w_lane v = L" "w_id v = ct_nextWaiter ct"
  shows "ctrl_ok (set_lane L (enqueueWaiter ls1 v) (ct\<lparr>ct_nextWaiter := ct_nextWaiter ct + 1\<rparr>))"
proof -
  note e = enqueue_lane_ok [OF ctrl_lane(1) [OF ok] can r w v(1)]
  have "set (all_waiters (enqueueWaiter ls1 v)) = insert v (set (all_waiters (ct_lanes ct L)))"
    using arg_cong [OF e(2), of set_mset] by simp
  then show ?thesis
    by (intro ctrl_okI [OF ok, where L = L]) (use e v ctrl_lane(2,3) [OF ok] in auto)
qed

lemma acquire_ok:
  assumes ok: "ctrl_ok ct"
  shows "ctrl_ok (fst (acquire name p endpoint weight c aborted now ct))"
proof (cases "ct_closed ct \<or> name = ''none'' \<or> lane_of_string name = None \<or> aborted")
  case True
  then show ?thesis using ok by (auto simp: acquire_def Let_def split: option.splits)
next
  case False
  then obtain L where L: "lane_of_string name = Some L" and n: "\<not> ct_closed ct" "name \<noteq> ''none''" "\<not> aborted" by auto
  let ?w = "effective_weight (ct_config ct) weight"
  let ?cfg = "ct_config ct" and ?ls = "ct_lanes ct L"
  let ?lims = "laneLimits ?cfg L"
  define ct1 where "ct1 = count_admission L c ct"
  have ok1: "ctrl_ok ct1" and f: "ct_config ct1 = ?cfg" "ct_lanes ct1 = ct_lanes ct" "ct_nextWaiter ct1 = ct_nextWaiter ct"
    using ok by (simp_all add: ct1_def count_admission_def)
  note w = effective_weight_pos [of ?cfg weight]
  note unf = acquire_def Let_def n L if_False if_True option.case ct1_def [symmetric]
  consider (start) "canStartNow ?cfg ?ls ?lims p ?w c" | (full) "\<not> canStartNow ?cfg ?ls ?lims p ?w c" "\<not> canQueue ?cfg ?ls ?lims p ?w c"
    | (queue) "\<not> canStartNow ?cfg ?ls ?lims p ?w c" "canQueue ?cfg ?ls ?lims p ?w c" by blast
  then show ?thesis
  proof cases
    case start
    show ?thesis
    proof (cases "reserve ?cfg now p ?w c ?ls")
      case None
      with start ok1 n L show ?thesis by (simp add: acquire_def Let_def ct1_def [symmetric] case_prod_beta)
    next
      case (Some ls1)
      with start n L admit_ok [OF ok1 w, of L p c now ls1 endpoint] f show ?thesis
        by (simp add: acquire_def Let_def ct1_def [symmetric] case_prod_beta)
    qed
  next
    case full
    with ok1 n L show ?thesis by (simp add: acquire_def Let_def ct1_def [symmetric] case_prod_beta)
  next
    case queue
    show ?thesis
    proof (cases "reserve ?cfg now p ?w c ?ls")
      case None
      with queue ok1 n L show ?thesis by (simp add: acquire_def Let_def ct1_def [symmetric] case_prod_beta)
    next
      case (Some ls1)
      let ?v = "\<lparr>w_id = ct_nextWaiter ct, w_lane = L, w_principal = p, w_weight = ?w,
                              w_endpoint = endpoint, w_class = c, w_enqueuedAt = now\<rparr>"
      have "ctrl_ok (set_lane L (enqueueWaiter ls1 ?v) (ct1\<lparr>ct_nextWaiter := ct_nextWaiter ct1 + 1\<rparr>))"
        using queue Some f by (intro wait_ok [OF ok1 w, of L p c now]) (simp_all add: claim_of_def)
      with queue n L Some f show ?thesis by (simp add: acquire_def Let_def ct1_def [symmetric])
    qed
  qed
qed

lemma drop_ok:
  assumes ok: "ctrl_ok ct" and d: "drop_waiter now w ct = Some ct1"
  shows "ctrl_ok (settle w r (ct1\<lparr>ct_stats := s\<rparr>))"
proof -
  obtain ls where rm: "removeWaiter (ct_lanes ct (w_lane w)) w = Some ls"
    and ct1: "ct1 = set_lane (w_lane w) (releasePending now (w_principal w) (w_weight w) (w_class w) ls) ct"
    using d by (auto simp: drop_waiter_def split: option.splits)
  note dl = drop_lane_ok [OF ctrl_lane(1) [OF ok] rm, of now]
  have "set (all_waiters (releasePending now (w_principal w) (w_weight w) (w_class w) ls))
      \<subseteq> set (all_waiters (ct_lanes ct (w_lane w)))"
    using arg_cong [OF dl(2), of set_mset] by auto
  then show ?thesis
    by (intro ctrl_okI [OF ok, where L = "w_lane w"]) (use dl ctrl_lane(2,3) [OF ok] in \<open>auto simp: settle_def ct1\<close>)
qed

lemma handlers_ok:
  assumes "ctrl_ok ct"
  shows "ctrl_ok (onAbort now w ct)" "ctrl_ok (onWaitTimer mw now w ct)" "ctrl_ok (onAgeTimer now w ct)"
  using assms drop_ok [OF assms]
  by (auto simp: onAbort_def onWaitTimer_def onAgeTimer_def overloadError_def split: option.splits)

text \<open>The counterpart of a drained lane: one live ticket and one settled promise for each started waiter.\<close>

lemma drainLane_ok:
  assumes ok: "ctrl_ok ct"
  shows "ctrl_ok (drainLane now L ct)"
proof -
  note lane = ctrl_lane(1) [OF ok, of L] and wl = ctrl_lane(2) [OF ok] and t = ctrl_lane(3) [OF ok]
  obtain ls ws where d: "drain_lane (laneLimits (ct_config ct) L) now (ct_lanes ct L) = (ls, ws)" by fastforce
  have mv: "moves (ct_config ct) (laneLimits (ct_config ct) L) (ct_lanes ct L) (ls, ws)"
    using drain_lane_moves [of "ct_config ct" _ "ct_lanes ct L" now] d by metis
  then have m: "mset (all_waiters (ct_lanes ct L)) = mset ws + mset (all_waiters ls)"
    using lane by (auto simp: moves_def)
  from moves_shrinks(2) [OF lane mv]
  have lk: "lane_ok (ct_config ct) (laneLimits (ct_config ct) L) (live (ct_tickets ct) L + mset (map claim_of ws)) ls" .
  have sub: "set ws \<subseteq> set (all_waiters (ct_lanes ct L))" "set (all_waiters ls) \<subseteq> set (all_waiters (ct_lanes ct L))"
    using arg_cong [OF m, of set_mset] by auto
  let ?ct = "fold (resolve_waiter now) ws (set_lane L ls ct)"
  have wL: "\<And>w. w \<in> set ws \<Longrightarrow> w_lane w = L" using sub wl by blast
  note f = resolve_waiters [where ws = ws and L = L and ct = "set_lane L ls ct" and now = now, OF wL, simplified, OF t]
  have "ctrl_ok ?ct"
  proof (rule ctrl_okI [OF ok, where L = L])
    show "queued_ids ?ct L + mset (map fst (ct_settled ?ct)) + mset [0..<ct_nextWaiter ct] =
        queued_ids ct L + mset (map fst (ct_settled ct)) + mset [0..<ct_nextWaiter ?ct]"
      using m f by (simp add: ac_simps)
  qed (use f t wl sub lk in \<open>auto simp: ac_simps\<close>)
  then show ?thesis by (simp add: drainLane_def d)
qed

lemma give_back_ok:
  assumes ok: "ctrl_ok ct" and a: "a < length (ct_tickets ct)" and own: "tk_release (ct_tickets ct ! a) = a"
    and False: "\<not> tk_released (ct_tickets ct ! a)"
  shows "ctrl_ok (give_back now a ct)"
proof -
  let ?tk = "ct_tickets ct ! a"
  let ?L = "tk_lane ?tk"
  let ?ls = "releaseRunning now (tk_principal ?tk) (tk_weight ?tk) (tk_class ?tk) (ct_lanes ct ?L)"
  let ?ct = "set_lane ?L ?ls (ct\<lparr>ct_tickets := (ct_tickets ct)[a := ?tk\<lparr>tk_released := True\<rparr>]\<rparr>)"
  have il: "is_live (ct_tickets ct) ?L a" using own False by (simp add: is_live_def)
  obtain R where R: "live (ct_tickets ct) ?L = add_mset (ticket_claim ?tk) R"
    "live ((ct_tickets ct)[a := ?tk\<lparr>tk_released := True\<rparr>]) ?L = R"
    "\<And>L. L \<noteq> ?L \<Longrightarrow> live ((ct_tickets ct)[a := ?tk\<lparr>tk_released := True\<rparr>]) L = live (ct_tickets ct) L"
    using live_update [OF a il, of "?tk\<lparr>tk_released := True\<rparr>"] own by auto
  have "lane_ok (ct_config ct) (laneLimits (ct_config ct) ?L) (add_mset (tk_principal ?tk, tk_weight ?tk, tk_class ?tk) R)
      (ct_lanes ct ?L)"
    using ctrl_lane(1) [OF ok, of ?L] R(1) by (simp add: ticket_claim_def)
  note rl = release_lane_ok [OF this, of now]
  have "tickets_ok ((ct_tickets ct)[a := ?tk\<lparr>tk_released := True\<rparr>])"
    using ctrl_lane(3) [OF ok] own a by (auto simp: tickets_ok_def nth_list_update)
  then have "ctrl_ok ?ct"
    by (intro ctrl_okI [OF ok, where L = ?L]) (use rl R ctrl_lane(2) [OF ok] in auto)
  then show ?thesis by (simp add: give_back_def Let_def)
qed

lemma release_ok:
  assumes "ctrl_ok ct" "a < length (ct_tickets ct)" "tk_release (ct_tickets ct ! a) = a"
  shows "ctrl_ok (release now a ct)"
  using assms drainLane_ok [OF give_back_ok [OF assms]] by (simp add: release_def Let_def)

lemma drainLane_lane: "ct_lanes (drainLane now L ct) L = fst (drain_lane (laneLimits (ct_config ct) L) now (ct_lanes ct L))"
proof -
  have "ct_lanes (fold (resolve_waiter now) ws c) = ct_lanes c" for ws c
    by (induction ws arbitrary: c) (simp_all add: resolve_waiter_fields)
  then show ?thesis by (simp add: drainLane_def split: prod.splits)
qed

lemma call_release_ok:
  assumes "ctrl_ok ct" "a < length (ct_tickets ct)"
  shows "ctrl_ok (call_release now a ct)"
  unfolding call_release_def
  using assms ctrl_lane(3) [OF assms(1)] by (intro release_ok) (auto simp: tickets_ok_def)

lemma closeAdmission_ok:
  assumes ok: "ctrl_ok ct"
  shows "ctrl_ok (closeAdmission now ct)"
proof -
  have "lanes_ok (closeAdmission now ct)"
    using close_lane_ok [OF ctrl_lane(1) [OF ok]] by (simp add: lanes_ok_def closeAdmission_def)
  moreover have "settled_once (closeAdmission now ct)"
    using ok close_lane_ok(2) [OF ctrl_lane(1) [OF ok]]
    by (simp add: ctrl_ok_def settled_once_def waiter_ids_eq closeAdmission_def comp_def ac_simps)
  ultimately show ?thesis using ctrl_lane(3) [OF ok] by (simp add: ctrl_ok_def closeAdmission_def)
qed

text \<open>
  The look into the journal converts the class of what \<open>acquire\<close> returned. On an original
  ticket that keeps the invariant.
\<close>

lemma convert_ok:
  assumes ok: "ctrl_ok ct" and a: "a < length (ct_tickets ct)"
    and live: "is_live (ct_tickets ct) Mutation a"
    and can: "canAddRunning (ct_lanes ct Mutation) (laneLimits (ct_config ct) Mutation) c (tk_weight (ct_tickets ct ! a))"
      "canAdmitClass (ct_lanes ct Mutation) (laneLimits (ct_config ct) Mutation) c (tk_weight (ct_tickets ct ! a))"
  shows "ctrl_ok (convertTrafficClass a c ct)"
proof (cases "tk_class (ct_tickets ct ! a) = c")
  case True
  with ok show ?thesis by (simp add: convertTrafficClass_def)
next
  case ne: False
  let ?tk = "ct_tickets ct ! a"
  have L: "tk_lane ?tk = Mutation" "tk_release ?tk = a" "\<not> tk_released ?tk" using live by (auto simp: is_live_def)
  have il: "is_live (ct_tickets ct) (tk_lane ?tk) a" using live L by simp
  obtain R where R: "live (ct_tickets ct) Mutation = add_mset (ticket_claim ?tk) R"
    "live ((ct_tickets ct)[a := ?tk\<lparr>tk_class := c\<rparr>]) Mutation = add_mset (ticket_claim (?tk\<lparr>tk_class := c\<rparr>)) R"
    "\<And>L. L \<noteq> Mutation \<Longrightarrow> live ((ct_tickets ct)[a := ?tk\<lparr>tk_class := c\<rparr>]) L = live (ct_tickets ct) L"
    using live_update [OF a il, of "?tk\<lparr>tk_class := c\<rparr>"] L by auto
  have "lane_ok (ct_config ct) (laneLimits (ct_config ct) Mutation)
      (add_mset (tk_principal ?tk, tk_weight ?tk, tk_class ?tk) R) (ct_lanes ct Mutation)"
    using ctrl_lane(1) [OF ok, of Mutation] R(1) by (simp add: ticket_claim_def)
  note cl = convert_lane_ok [OF this ne can]
  have "tickets_ok ((ct_tickets ct)[a := ?tk\<lparr>tk_class := c\<rparr>])"
    using ctrl_lane(3) [OF ok] L a by (auto simp: tickets_ok_def nth_list_update)
  then show ?thesis
    by (intro ctrl_okI [OF ok, where L = Mutation])
      (use cl R L ne ctrl_lane(2) [OF ok] in \<open>auto simp: convertTrafficClass_def Let_def ticket_claim_def\<close>)
qed

lemma finish_peek_ok:
  assumes "ctrl_ok ct" "a < length (ct_tickets ct)" "is_live (ct_tickets ct) Mutation a"
  shows "ctrl_ok (fst (finish_peek a journal endpoint now ct))"
  using assms call_release_ok [OF assms(1,2)] convert_ok [OF assms]
  by (auto simp: finish_peek_def Let_def overloadError_def split: sum.splits option.splits)

section \<open>Reachable controllers\<close>

text \<open>
  The steps of a controller: every entry point of the class, the timer and abort handlers, and
  the rest of a journal look for which \<open>acquire\<close> returned an original ticket.
\<close>

inductive adm_step :: "controller \<Rightarrow> controller \<Rightarrow> bool" where
  step_acquire: "adm_step ct (fst (acquire name p endpoint weight c aborted now ct))"
| step_start_peek: "adm_step ct (fst (start_peek p endpoint weight aborted now ct))"
| step_finish_peek: "a < length (ct_tickets ct) \<Longrightarrow> is_live (ct_tickets ct) Mutation a \<Longrightarrow>
    adm_step ct (fst (finish_peek a (journal :: string + jsval option) endpoint now ct))"
| step_release: "a < length (ct_tickets ct) \<Longrightarrow> adm_step ct (call_release now a ct)"
| step_abort: "adm_step ct (onAbort now w ct)"
| step_wait: "adm_step ct (onWaitTimer maxWait now w ct)"
| step_age: "adm_step ct (onAgeTimer now w ct)"
| step_close: "adm_step ct (closeAdmission now ct)"

inductive adm_reachable :: "admission_config \<Rightarrow> controller \<Rightarrow> bool" for cfg where
  reach_new: "adm_reachable cfg (new_controller cfg)"
| reach_step: "adm_reachable cfg ct \<Longrightarrow> adm_step ct ct' \<Longrightarrow> adm_reachable cfg ct'"

inductive_cases adm_stepE: "adm_step ct ct'"

lemma adm_step_ok: "adm_step ct ct' \<Longrightarrow> ctrl_ok ct \<Longrightarrow> ctrl_ok ct'"
proof (induction rule: adm_step.induct)
  case (step_start_peek ct p endpoint weight aborted now)
  then show ?case unfolding start_peek_def by (intro acquire_ok) simp
qed (auto intro: acquire_ok finish_peek_ok call_release_ok handlers_ok closeAdmission_ok)

lemma new_controller_ok:
  assumes "loadAdmissionLimitsConfig env = Inr cfg"
  shows "ctrl_ok (new_controller cfg)"
proof -
  have c: "positive_fields cfg"
    "mutationGlobalRunning cfg \<le> mutationGlobalPending cfg - controlReserve cfg - recoveryReserve cfg"
    "readGlobalRunning cfg \<le> readGlobalPending cfg - controlReserve cfg - cheapReserve cfg"
    using loaded_config_facts [OF assms] by auto
  have "within_limits cfg (laneLimits cfg L) {#} {#}" for L
    using c by (cases L) (auto simp: within_limits_def laneLimits_def positive_fields_def classLimit_def runningCap_def
        split: option.splits)
  then have "lane_ok cfg (laneLimits cfg L) {#} createLaneState" for L
    by (simp add: lane_ok_def queue_ok_init counts_init)
  then show ?thesis
    by (simp add: ctrl_ok_def lanes_ok_def new_controller_def live_def tickets_ok_def settled_once_def waiter_ids_def)
       (simp add: createLaneState_def all_waiters_def)
qed

lemma fold_config: "ct_config (fold (resolve_waiter now) ws ct) = ct_config ct"
  by (induction ws arbitrary: ct) (simp_all add: resolve_waiter_fields)

lemma drainLane_config [simp]: "ct_config (drainLane now L ct) = ct_config ct"
  by (simp add: drainLane_def fold_config split: prod.splits)

lemma release_config [simp]: "ct_config (call_release now a ct) = ct_config ct"
  by (simp add: call_release_def release_def give_back_def Let_def)

lemma acquire_config [simp]: "ct_config (fst (acquire name p e w c aborted now ct)) = ct_config ct"
  by (simp add: acquire_def Let_def count_admission_def overloadError_def makeTicket_def split: option.splits)

lemma drop_config: "drop_waiter now w ct = Some ct' \<Longrightarrow> ct_config ct' = ct_config ct"
  by (auto simp: drop_waiter_def split: option.splits)

lemma step_config: "adm_step ct ct' \<Longrightarrow> ct_config ct' = ct_config ct"
  by (induction rule: adm_step.induct)
     (auto simp: start_peek_def finish_peek_def Let_def overloadError_def convertTrafficClass_def onAbort_def
        onWaitTimer_def onAgeTimer_def settle_def closeAdmission_def split: sum.splits option.splits dest: drop_config)

lemma reachable_ok:
  assumes "loadAdmissionLimitsConfig env = Inr cfg" "adm_reachable cfg ct"
  shows "ctrl_ok ct" "ct_config ct = cfg"
proof -
  have "ctrl_ok ct \<and> ct_config ct = cfg" using assms(2)
  proof (induction rule: adm_reachable.induct)
    case reach_new
    show ?case using new_controller_ok [OF assms(1)] by (simp add: new_controller_def)
  next
    case (reach_step ct ct')
    then show ?case using adm_step_ok step_config by blast
  qed
  then show "ctrl_ok ct" "ct_config ct = cfg" by auto
qed

lemma lane_UNIV: "(UNIV :: lane set) = {Mutation, Read_lane, Lightweight}"
proof -
  have "L \<in> {Mutation, Read_lane, Lightweight}" for L by (cases L) simp_all
  then show ?thesis by blast
qed

lemma mset_upt_split:
  assumes "M + mset xs = mset [0..<n]"
  shows "distinct xs" "set_mset M \<union> set xs = {..<n}" "set_mset M \<inter> set xs = {}"
proof -
  obtain ys where ys: "mset ys = M" using ex_mset by blast
  then have m: "mset (ys @ xs) = mset [0..<n]" using assms by simp
  then have "distinct (ys @ xs)" using mset_eq_imp_distinct_iff distinct_upt by blast
  then show "distinct xs" "set_mset M \<inter> set xs = {}" using ys by auto
  show "set_mset M \<union> set xs = {..<n}" using mset_eq_setD [OF m] ys by auto
qed

section \<open>Properties\<close>





section \<open>Witnesses\<close>

lemma read_fields_none: "read_fields (\<lambda>_. None) fs c = Inr c"
proof (induction fs)
  case (Cons f fs)
  obtain n r s where "f = (n, r, s)" by (cases f)
  with Cons show ?case by (simp add: parseNonNegativeInt_def)
qed simp

lemma checks_default: "find fst (config_checks DEFAULTS) = None"
  by (simp add: find_None_iff config_checks_def DEFAULTS_def MAX_PRINCIPAL_ENTRIES_CAP_def del: list.set)

lemma load_default: "loadAdmissionLimitsConfig (\<lambda>_. None) = Inr DEFAULTS"
proof -
  have "DEFAULTS\<lparr>endpointWeights := []\<rparr> = DEFAULTS" by (simp add: DEFAULTS_def)
  then show ?thesis
    by (simp add: loadAdmissionLimitsConfig_def read_fields_none parseEndpointWeights_def validateConfig_def
        checks_default)
qed

definition sample_run :: controller where
  "sample_run = fst (acquire ''read'' ''u'' ''get /reconciliation'' 2 Ordinary False 5 (new_controller DEFAULTS))"

definition sample_wait :: controller where
  "sample_wait = fst (acquire ''read'' ''u'' ''get /report.csv'' 1 Ordinary False 6 sample_run)"

lemma sample_reachable: "adm_reachable DEFAULTS sample_run" "adm_reachable DEFAULTS sample_wait"
proof -
  show r: "adm_reachable DEFAULTS sample_run"
    unfolding sample_run_def by (rule reach_step [OF reach_new step_acquire])
  show "adm_reachable DEFAULTS sample_wait"
    unfolding sample_wait_def by (rule reach_step [OF r step_acquire])
qed

lemma sample_values:
  "live (ct_tickets sample_wait) Read_lane = {#(''u'', 2, Ordinary)#}"
  "waiting (ct_lanes sample_wait Read_lane) = {#(''u'', 1, Ordinary)#}"
  by code_simp+




text \<open>Three requests of weight one each, two of them running, and then a wait for weight two.\<close>

definition sample_busy :: controller where
  "sample_busy = fst (acquire ''read'' ''u'' ''get /report.csv'' 2 Ordinary False 3
     (fst (acquire ''read'' ''u'' ''get /tags'' 1 Ordinary False 2
     (fst (acquire ''read'' ''u'' ''get /events'' 1 Ordinary False 1 (new_controller DEFAULTS))))))"

lemma sample_busy_reachable: "adm_reachable DEFAULTS sample_busy"
  unfolding sample_busy_def by (intro reach_step [OF _ step_acquire] reach_new)


section \<open>A run that leaks\<close>

text \<open>
  Two mutations of one principal under the default limits. The second waits behind the first;
  the release of the first starts it, so what \<open>acquire\<close> returns to it is the copy. The look into
  the journal finds nothing and converts the class of the copy. Both are released.
\<close>

definition leak_run :: controller where
  "leak_run =
     (let ct0 = new_controller DEFAULTS;
          (ct1, r1) = start_peek ''u'' ''post /budgets'' 1 False 0 ct0;
          (ct2, m1) = finish_peek 0 (Inr None :: string + jsval option) ''post /budgets'' 1 ct1;
          (ct3, r2) = start_peek ''u'' ''post /budgets'' 1 False 2 ct2;
          ct4 = call_release 3 0 ct3;
          (ct5, m2) = finish_peek 2 (Inr None :: string + jsval option) ''post /budgets'' 4 ct4
      in call_release 5 2 ct5)"

lemma leak_run_value:
  "ls_classRunning (ct_lanes leak_run Mutation) Ordinary = 1"
  "ls_running (ct_lanes leak_run Mutation) = 0"
  "all_waiters (ct_lanes leak_run Mutation) = []"
  "map tk_released (ct_tickets leak_run) = [True, True, False]"
  "map fst (ct_settled leak_run) = [0]"
  by code_simp+


definition abort_run :: controller where
  "abort_run =
     (let ct1 = call_release 5 0 (fst (acquire ''read'' ''u'' ''get /trends'' 1 Ordinary False 4 sample_busy))
      in onAbort 6 (hd (all_waiters (ct_lanes ct1 Read_lane))) ct1)"

text \<open>
  Dropping a waiter does not drain. When the first waiter of a principal aborts (or
  times out), the one behind it stays queued although it could run.
\<close>

theorem abort_leaves_startable_waiter:
  "list_all (canPromoteWaiter (ct_lanes abort_run Read_lane) (laneLimits DEFAULTS Read_lane))
     (all_waiters (ct_lanes abort_run Read_lane)) \<and>
   map w_id (all_waiters (ct_lanes abort_run Read_lane)) = [1] \<and> map fst (ct_settled abort_run) = [0]"
  by code_simp

end
