(* ===== verification/OperationJournal.thy ===== *)
theory OperationJournal
  imports JsString "HOL-Library.AList" "HOL-Library.Multiset"
begin

text \<open>
  The operation journal: \<open>finance-dashboard/lib/operation-journal.js\<close>, with the error issues of
  \<open>lib/request-issues.js\<close> and the proof bindings of \<open>lib/operation-journal-proof.js\<close>.

  A journal maps idempotency keys to operations that move through phases. The file system, the
  clock, \<open>Date.parse\<close> and the request digest (SHA-256 of the canonical request) are fields of an
  environment. A write is rejected where the store's validator rejects the state, and may fail
  for reasons of its own (\<open>je_fault\<close>).
\<close>

section \<open>JSON values\<close>

text \<open>
  \<open>JSON.parse(JSON.stringify(v))\<close>: what a durable value keeps. Members without a JSON
  representation disappear from objects and become null elsewhere.
\<close>

fun json_num :: "jsnum \<Rightarrow> jsval" where
  "json_num (Fin q) = JNum (Fin q)"
| "json_num NegZero = JNum (Fin 0)"
| "json_num _ = JNull"

fun json_value :: "jsval \<Rightarrow> jsval" where
  "json_value JUndef = JNull"
| "json_value (JNum n) = json_num n"
| "json_value (JArr xs) = JArr (map json_value xs)"
| "json_value (JObj ps) = JObj (map (\<lambda>(k, v). (k, json_value v)) (filter (\<lambda>(k, v). v \<noteq> JUndef) ps))"
| "json_value v = v"

text \<open>\<open>sortJson\<close>: the members of every object in the order of their keys.\<close>

fun sort_json :: "jsval \<Rightarrow> jsval" where
  "sort_json (JArr xs) = JArr (map sort_json xs)"
| "sort_json (JObj ps) = JObj (sort_key fst (map (\<lambda>(k, v). (k, sort_json v)) ps))"
| "sort_json v = v"

text \<open>
  \<open>canonicalJson(l) === canonicalJson(r)\<close>. Printing a sorted JSON value is injective, so the
  comparison of the two strings is that of the values they print.
\<close>

definition equivalent :: "jsval \<Rightarrow> jsval \<Rightarrow> bool" where
  "equivalent l r \<longleftrightarrow> sort_json (json_value l) = sort_json (json_value r)"

section \<open>Requests\<close>

record request =
  rq_method :: string
  rq_path :: string
  rq_query :: "(string \<times> string) list"
  rq_body :: jsval

text \<open>\<open>queryPairs\<close> on the pairs of the query string: sorted by key, the order of equal keys kept.\<close>

definition queryPairs :: "(string \<times> string) list \<Rightarrow> (string \<times> string) list" where
  "queryPairs qs = sort_key fst qs"

text \<open>
  \<open>normalizedRequest\<close>; the path is the \<open>pathname\<close> the URL parser gives, so it is kept as it is.
\<close>

definition normalizedRequest :: "request \<Rightarrow> request" where
  "normalizedRequest r =
     \<lparr>rq_method = js_upper (rq_method r), rq_path = (if rq_path r = [] then ''/'' else rq_path r),
      rq_query = queryPairs (rq_query r),
      rq_body = (if rq_body r = JUndef then JNull else rq_body r)\<rparr>"

section \<open>Errors\<close>

record issue =
  is_path :: string
  is_message :: string
  is_code :: "string option"

record durable_error =
  de_code :: string
  de_message :: string
  de_status :: int
  de_issues :: "(string \<times> string) list option"

text \<open>What a handler throws: code, message, an integral status, issues, and its class.\<close>

record thrown =
  th_code :: "string option"
  th_message :: "string option"
  th_status :: "int option"
  th_issues :: "issue list"
  th_known :: bool

definition matches_any :: "string list \<Rightarrow> string \<Rightarrow> bool" where
  "matches_any ws s \<longleftrightarrow> list_ex (\<lambda>w. js_includes w (js_lower s)) ws"

definition sanitizeIssuePath :: "string \<Rightarrow> string" where
  "sanitizeIssuePath path =
     (let v = js_trim path in
      if v = [] \<or> matches_any [''base64'', ''secret'', ''token'', ''password'', ''authorization'', ''image''] v
      then ''body''
      else let top = takeWhile (\<lambda>c. c \<notin> set ''.[]'') v in if top = [] then ''request'' else top)"

definition sanitizeIssueMessage :: "issue \<Rightarrow> string" where
  "sanitizeIssueMessage i =
     (if is_code i = Some ''unrecognized_keys'' then ''unknown fields are not allowed''
      else let m = (if is_message i = [] then ''invalid value'' else is_message i) in
        if matches_any [''base64'', ''receipt image'', ''image bytes''] m then ''invalid receipt image encoding''
        else if matches_any [''too large'', ''exceeds the maximum''] m
        then ''payload exceeds the maximum allowed size''
        else if matches_any [''unknown fields are not allowed''] m then ''unknown fields are not allowed''
        else if matches_any [''request body is not allowed'', ''query parameters are not allowed''] m then m
        else let r = (case js_index_of (CHR '':'') m of
                        Some (Suc k) \<Rightarrow> dropWhile js_space (drop (Suc (Suc k)) m)
                      | _ \<Rightarrow> m);
                 v = js_trim r
          in if v = [] then ''invalid value'' else v)"

definition sanitizeIssues :: "issue list \<Rightarrow> (string \<times> string) list" where
  "sanitizeIssues = map (\<lambda>i. (sanitizeIssuePath (is_path i), sanitizeIssueMessage i))"

definition code_char :: "char \<Rightarrow> bool" where
  "code_char c \<longleftrightarrow> (let n = of_char c :: nat in 65 \<le> n \<and> n \<le> 90) \<or> is_digit c \<or> c \<in> set ''_:-''"

definition control_char :: "char \<Rightarrow> bool" where
  "control_char c \<longleftrightarrow> (let n = of_char c :: nat in n \<le> 31 \<or> 127 \<le> n \<and> n \<le> 159)"

text \<open>\<open>replace(/\s+/g, ' ')\<close>.\<close>

fun squeeze :: "string \<Rightarrow> string" where
  "squeeze [] = []"
| "squeeze [c] = [if js_space c then CHR '' '' else c]"
| "squeeze (c # d # s) =
     (if js_space c \<and> js_space d then squeeze (d # s)
      else (if js_space c then CHR '' '' else c) # squeeze (d # s))"

definition sanitizeError :: "thrown \<Rightarrow> durable_error" where
  "sanitizeError e =
     (let rawCode = js_upper (case th_code e of Some (c # cs) \<Rightarrow> c # cs | _ \<Rightarrow> ''OPERATION_FAILED'');
          code = take 64 (map (\<lambda>c. if code_char c then c else CHR ''_'') rawCode);
          text = (case th_message e of Some (c # cs) \<Rightarrow> c # cs
                  | _ \<Rightarrow> ''Operation failed before local application'');
          rawMessage = js_trim (squeeze (map (\<lambda>c. if control_char c then CHR '' '' else c) text));
          message = take 240 (if rawMessage = [] then ''Operation failed before local application'' else rawMessage);
          status = (case th_status e of Some s \<Rightarrow> if 400 \<le> s \<and> s \<le> 599 then s else 400 | None \<Rightarrow> 400)
      in \<lparr>de_code = (if code = [] then ''OPERATION_FAILED'' else code), de_message = message, de_status = status,
          de_issues = (if th_issues e = [] then None else Some (take 8 (sanitizeIssues (th_issues e))))\<rparr>)"

definition validIssue :: "string \<times> string \<Rightarrow> bool" where
  "validIssue = (\<lambda>(path, message).
     1 \<le> length path \<and> length path \<le> 32 \<and> 1 \<le> length message \<and> length message \<le> 160 \<and>
     \<not> matches_any [''base64'', ''secret'', ''token'', ''password''] path \<and>
     \<not> matches_any [''base64'', ''secret'', ''token'', ''password''] message)"

definition validIssues :: "(string \<times> string) list option \<Rightarrow> bool" where
  "validIssues v = (case v of None \<Rightarrow> True
     | Some is \<Rightarrow> is \<noteq> [] \<and> length is \<le> 8 \<and> list_all validIssue is)"

definition validError :: "durable_error \<Rightarrow> bool" where
  "validError e \<longleftrightarrow>
     1 \<le> length (de_code e) \<and> length (de_code e) \<le> 64 \<and> list_all code_char (de_code e) \<and>
     1 \<le> length (de_message e) \<and> length (de_message e) \<le> 240 \<and>
     list_all (\<lambda>c. \<not> control_char c) (de_message e) \<and>
     400 \<le> de_status e \<and> de_status e \<le> 599 \<and> validIssues (de_issues e)"

section \<open>Operations and their validity\<close>

datatype phase = Started | Local_applied | Sync_unknown | Completed | Failed

text \<open>
  A journal record; a field that may be absent is an option. \<open>op_phase\<close> is a \<open>phase\<close> where the
  stored string is one of \<open>PHASES\<close>.
\<close>

record operation =
  op_key :: "string option"
  op_recordVersion :: "int option"
  op_fingerprint :: string
  op_fingerprintVersion :: "int option"
  op_method :: string
  op_route :: string
  op_status :: string
  op_phase :: "phase option"
  op_startedAt :: "string option"
  op_updatedAt :: "string option"
  op_completedAt :: "string option"
  op_localAppliedAt :: "string option"
  op_syncStartedAt :: "string option"
  op_provisionalResult :: "jsval option"
  op_result :: "jsval option"
  op_error :: "durable_error option"
  op_knownBeforeApply :: "bool option"

type_synonym operations = "(string \<times> operation) list"

definition key_re :: "string \<Rightarrow> bool" where
  "key_re s \<longleftrightarrow> 8 \<le> length s \<and> length s \<le> 128 \<and>
     list_all (\<lambda>c. let n = of_char c :: nat in
       65 \<le> n \<and> n \<le> 90 \<or> 97 \<le> n \<and> n \<le> 122 \<or> is_digit c \<or> c \<in> set ''._:-'') s"

definition hash_re :: "string \<Rightarrow> bool" where
  "hash_re s \<longleftrightarrow> length s = 64 \<and>
     list_all (\<lambda>c. is_digit c \<or> (let n = of_char c :: nat in 97 \<le> n \<and> n \<le> 102)) s"

definition validLegacyOperation :: "string \<Rightarrow> operation \<Rightarrow> bool" where
  "validLegacyOperation key op \<longleftrightarrow>
     op_recordVersion op = None \<and> op_phase op = None \<and> op_fingerprintVersion op = None \<and>
     (op_key op = None \<or> op_key op = Some [] \<or> op_key op = Some key) \<and>
     hash_re (op_fingerprint op) \<and>
     op_status op \<in> set [''started'', ''completed'', ''failed'']"

definition validVersionedOperation :: "string \<Rightarrow> operation \<Rightarrow> bool" where
  "validVersionedOperation key op \<longleftrightarrow>
     op_recordVersion op = Some 2 \<and> op_fingerprintVersion op = Some 2 \<and> op_key op = Some key \<and>
     hash_re (op_fingerprint op) \<and>
     (case op_phase op of
        None \<Rightarrow> False
      | Some Started \<Rightarrow>
          op_status op = ''started'' \<and> op_provisionalResult op = None \<and> op_localAppliedAt op = None \<and>
          op_syncStartedAt op = None \<and> op_result op = None \<and> op_error op = None
      | Some Local_applied \<Rightarrow>
          op_status op = ''started'' \<and> op_provisionalResult op \<noteq> None \<and> op_localAppliedAt op \<noteq> None \<and>
          op_syncStartedAt op = None \<and> op_result op = None \<and> op_error op = None
      | Some Sync_unknown \<Rightarrow>
          op_status op = ''started'' \<and> op_provisionalResult op \<noteq> None \<and> op_localAppliedAt op \<noteq> None \<and>
          op_syncStartedAt op \<noteq> None \<and> op_result op = None \<and> op_error op = None
      | Some Completed \<Rightarrow>
          op_status op = ''completed'' \<and> op_result op \<noteq> None \<and> op_provisionalResult op \<noteq> None \<and>
          op_localAppliedAt op \<noteq> None \<and> op_error op = None \<and> op_knownBeforeApply op \<noteq> Some True
      | Some Failed \<Rightarrow>
          op_status op = ''failed'' \<and> op_knownBeforeApply op = Some True \<and>
          (case op_error op of None \<Rightarrow> False | Some e \<Rightarrow> validError e) \<and>
          op_provisionalResult op = None \<and> op_localAppliedAt op = None \<and>
          op_syncStartedAt op = None \<and> op_result op = None)"

definition validState :: "operations \<Rightarrow> bool" where
  "validState ops \<longleftrightarrow> list_all (\<lambda>(key, op).
     key_re key \<and> (validVersionedOperation key op \<or> validLegacyOperation key op)) ops"

definition isVersioned :: "operation \<Rightarrow> bool" where
  "isVersioned op \<longleftrightarrow> op_recordVersion op = Some 2"

definition isKnownFailed :: "operation \<Rightarrow> bool" where
  "isKnownFailed op \<longleftrightarrow> isVersioned op \<and> op_phase op = Some Failed \<and> op_status op = ''failed'' \<and>
     op_knownBeforeApply op = Some True"

definition isCompleted :: "operation \<Rightarrow> bool" where
  "isCompleted op \<longleftrightarrow> op_status op = ''completed'' \<and> (\<not> isVersioned op \<or> op_phase op = Some Completed)"

definition isLegacyAmbiguous :: "operation \<Rightarrow> bool" where
  "isLegacyAmbiguous op \<longleftrightarrow> \<not> isVersioned op \<and> (op_status op = ''started'' \<or> op_status op = ''failed'')"

definition operationPhase :: "operation \<Rightarrow> phase" where
  "operationPhase op =
     (if isVersioned op then (case op_phase op of Some p \<Rightarrow> p | None \<Rightarrow> Started)
      else if isCompleted op then Completed else Started)"

definition isTerminal :: "operation \<Rightarrow> bool" where
  "isTerminal op \<longleftrightarrow> isCompleted op \<or> isKnownFailed op"

definition countNonterminalOperations :: "operations \<Rightarrow> nat" where
  "countNonterminalOperations ops = length (filter (\<lambda>(_, op). \<not> isTerminal op) ops)"

section \<open>The journal\<close>

record jenv =
  je_clock :: "nat \<Rightarrow> string"
  je_fault :: "nat \<Rightarrow> bool"
  je_parse :: "string \<Rightarrow> int option"
  je_digest :: "request \<Rightarrow> string"
  je_legacy_digest :: "request \<Rightarrow> string"

text \<open>
  The journal file and its limit. \<open>j_writes\<close> numbers the writes, so that the environment can
  say which fail and what time it is.
\<close>

record journal =
  j_operations :: operations
  j_maxNonterminal :: nat
  j_writes :: nat

definition MAX_TERMINAL_ENTRIES :: nat where
  "MAX_TERMINAL_ENTRIES = 1000"

text \<open>
  \<open>terminalTime\<close>: the first of three stamps that is not empty, parsed. A list with no element is
  minus infinity, which sorts before every time.
\<close>

definition terminalTime :: "jenv \<Rightarrow> operation \<Rightarrow> int list" where
  "terminalTime env op =
     (let stamps = filter (\<lambda>s. s \<noteq> [])
            (List.map_filter id [op_completedAt op, op_updatedAt op, op_startedAt op])
      in case je_parse env (if stamps = [] then [] else hd stamps) of None \<Rightarrow> [] | Some t \<Rightarrow> [t])"

text \<open>The terminal entries, oldest first and by key among equals.\<close>

definition by_age :: "jenv \<Rightarrow> operations \<Rightarrow> operations" where
  "by_age env ops = sort_key (\<lambda>(_, op). terminalTime env op) (sort_key fst ops)"

definition prune :: "jenv \<Rightarrow> operations \<Rightarrow> operations" where
  "prune env ops =
     (let terminal = filter (\<lambda>(_, op). isTerminal op) ops in
      if MAX_TERMINAL_ENTRIES < length terminal
      then let gone = map fst (take (length terminal - MAX_TERMINAL_ENTRIES) (by_age env terminal))
        in filter (\<lambda>(k, _). k \<notin> set gone) ops
      else ops)"

definition write_error :: js_error where
  "write_error = PlainError ''operation journal write failed''"

definition writePruned :: "jenv \<Rightarrow> operations \<Rightarrow> journal \<Rightarrow> journal \<times> unit res" where
  "writePruned env ops j =
     (let ops' = prune env ops; n = j_writes j in
      if je_fault env n \<or> \<not> validState ops' then (j\<lparr>j_writes := Suc n\<rparr>, Inl write_error)
      else (j\<lparr>j_operations := ops', j_writes := Suc n\<rparr>, Inr ()))"

definition get_op :: "string \<Rightarrow> journal \<Rightarrow> operation option" where
  "get_op key j = (if key_re key then map_of (j_operations j) key else None)"

definition transition_invalid :: js_error where
  "transition_invalid = AppError ''OPERATION_TRANSITION_INVALID'' 409"

definition transition_conflict :: js_error where
  "transition_conflict = AppError ''OPERATION_TRANSITION_CONFLICT'' 409"

definition requireVersioned :: "string \<Rightarrow> journal \<Rightarrow> operation res" where
  "requireVersioned key j =
     (case map_of (j_operations j) key of
        None \<Rightarrow> Inl transition_invalid
      | Some op \<Rightarrow> if isVersioned op then Inr op else Inl transition_invalid)"

text \<open>
  Storing an entry and returning \<open>state.operations[key]\<close> afterwards; the entry is absent there
  when the pruning took it.
\<close>

definition store :: "jenv \<Rightarrow> string \<Rightarrow> operation \<Rightarrow> journal \<Rightarrow> journal \<times> operation option res" where
  "store env key op j =
     (let ops = AList.update key op (j_operations j) in
      case writePruned env ops j of
        (j', Inl e) \<Rightarrow> (j', Inl e)
      | (j', Inr _) \<Rightarrow> (j', Inr (map_of (prune env ops) key)))"

record admission =
  ad_existing :: "operation option"
  ad_fingerprint :: string

definition fresh_operation :: "jenv \<Rightarrow> string \<Rightarrow> request \<Rightarrow> string \<Rightarrow> operation" where
  "fresh_operation env key request now =
     \<lparr>op_key = Some key, op_recordVersion = Some 2, op_fingerprint = je_digest env (normalizedRequest request),
      op_fingerprintVersion = Some 2, op_method = rq_method (normalizedRequest request),
      op_route = rq_path (normalizedRequest request),
      op_status = ''started'', op_phase = Some Started, op_startedAt = Some now, op_updatedAt = Some now,
      op_completedAt = None, op_localAppliedAt = None, op_syncStartedAt = None,
      op_provisionalResult = None, op_result = None, op_error = None, op_knownBeforeApply = None\<rparr>"

definition start :: "jenv \<Rightarrow> string \<Rightarrow> request \<Rightarrow> journal \<Rightarrow> journal \<times> admission res" where
  "start env key request j =
     (if \<not> key_re key then (j, Inl (AppError ''IDEMPOTENCY_KEY_REQUIRED'' 400))
      else case map_of (j_operations j) key of
        Some existing \<Rightarrow>
          (let fingerprint = (if op_fingerprintVersion existing = Some 2
                 then je_digest env (normalizedRequest request) else je_legacy_digest env request)
           in if op_fingerprint existing \<noteq> fingerprint
              then (j, Inl (AppError ''IDEMPOTENCY_KEY_REUSED'' 409))
              else (j, Inr \<lparr>ad_existing = Some existing, ad_fingerprint = op_fingerprint existing\<rparr>))
      | None \<Rightarrow>
          if j_maxNonterminal j \<le> countNonterminalOperations (j_operations j)
          then (j, Inl (AppError ''OPERATION_JOURNAL_CAPACITY_EXCEEDED'' 503))
          else let op = fresh_operation env key request (je_clock env (j_writes j)) in
            case store env key op j of
              (j', Inl e) \<Rightarrow> (j', Inl e)
            | (j', Inr _) \<Rightarrow> (j', Inr \<lparr>ad_existing = None, ad_fingerprint = op_fingerprint op\<rparr>))"

definition localApplied :: "jenv \<Rightarrow> string \<Rightarrow> jsval \<Rightarrow> journal \<Rightarrow> journal \<times> operation option res" where
  "localApplied env key provisional j =
     (case requireVersioned key j of
        Inl e \<Rightarrow> (j, Inl e)
      | Inr op \<Rightarrow>
          (let durable = json_value provisional; now = je_clock env (j_writes j) in
           if op_phase op = Some Local_applied
           then if equivalent (case op_provisionalResult op of Some v \<Rightarrow> v | None \<Rightarrow> JUndef) durable
                then (j, Inr (Some op)) else (j, Inl transition_conflict)
           else if op_phase op \<noteq> Some Started then (j, Inl transition_invalid)
           else store env key (op\<lparr>op_status := ''started'', op_phase := Some Local_applied,
             op_provisionalResult := Some durable, op_localAppliedAt := Some now, op_updatedAt := Some now\<rparr>) j))"

definition syncUnknown :: "jenv \<Rightarrow> string \<Rightarrow> journal \<Rightarrow> journal \<times> operation option res" where
  "syncUnknown env key j =
     (case requireVersioned key j of
        Inl e \<Rightarrow> (j, Inl e)
      | Inr op \<Rightarrow>
          (let now = je_clock env (j_writes j) in
           if op_phase op = Some Sync_unknown then (j, Inr (Some op))
           else if op_phase op \<noteq> Some Local_applied then (j, Inl transition_invalid)
           else store env key (op\<lparr>op_status := ''started'', op_phase := Some Sync_unknown,
             op_syncStartedAt := Some now, op_updatedAt := Some now\<rparr>) j))"

definition complete_op :: "jenv \<Rightarrow> string \<Rightarrow> jsval \<Rightarrow> journal \<Rightarrow> journal \<times> operation option res" where
  "complete_op env key result j =
     (case requireVersioned key j of
        Inl e \<Rightarrow> (j, Inl e)
      | Inr op \<Rightarrow>
          (let durable = json_value result; now = je_clock env (j_writes j) in
           if op_phase op = Some Completed
           then if equivalent (case op_result op of Some v \<Rightarrow> v | None \<Rightarrow> JUndef) durable
                then (j, Inr (Some op)) else (j, Inl transition_conflict)
           else if op_phase op \<notin> {Some Local_applied, Some Sync_unknown} then (j, Inl transition_invalid)
           else store env key (op\<lparr>op_status := ''completed'', op_phase := Some Completed,
             op_completedAt := Some now, op_updatedAt := Some now, op_result := Some durable\<rparr>) j))"

record terminal_proof =
  tp_result :: jsval
  tp_fingerprint :: string
  tp_fingerprintVersion :: "int option"

definition reconcileFromTerminalProof ::
  "jenv \<Rightarrow> string \<Rightarrow> terminal_proof option \<Rightarrow> journal \<Rightarrow> journal \<times> operation option res"
where
  "reconcileFromTerminalProof env key proof j =
     (case requireVersioned key j of
        Inl e \<Rightarrow> (j, Inl e)
      | Inr op \<Rightarrow>
        (case proof of
           None \<Rightarrow> (j, Inl transition_invalid)
         | Some pr \<Rightarrow>
           if tp_result pr = JUndef then (j, Inl transition_invalid)
           else if tp_fingerprint pr = [] \<or> tp_fingerprint pr \<noteq> op_fingerprint op \<or>
                   tp_fingerprintVersion pr \<noteq> op_fingerprintVersion op
           then (j, Inl (AppError ''OPERATION_RECONCILE_PROOF_INVALID'' 409))
           else let durable = json_value (tp_result pr); now = je_clock env (j_writes j) in
             if isCompleted op
             then if equivalent (case op_result op of Some v \<Rightarrow> v | None \<Rightarrow> JUndef) durable
                  then (j, Inr (Some op)) else (j, Inl transition_conflict)
             else if isKnownFailed op then (j, Inl transition_invalid)
             else if op_phase op \<notin> {Some Started, Some Local_applied, Some Sync_unknown}
             then (j, Inl transition_invalid)
             else store env key (op\<lparr>op_status := ''completed'', op_phase := Some Completed,
               op_completedAt := Some now, op_updatedAt := Some now, op_result := Some durable,
               op_provisionalResult := (case op_provisionalResult op of None \<Rightarrow> Some durable | Some v \<Rightarrow> Some v),
               op_localAppliedAt := (case op_localAppliedAt op of Some (c # cs) \<Rightarrow> Some (c # cs) | _ \<Rightarrow> Some now)\<rparr>) j))"

definition failBeforeApply :: "jenv \<Rightarrow> string \<Rightarrow> thrown \<Rightarrow> journal \<Rightarrow> journal \<times> operation option res" where
  "failBeforeApply env key err j =
     (case requireVersioned key j of
        Inl e \<Rightarrow> (j, Inl e)
      | Inr op \<Rightarrow>
          (let durable = sanitizeError err; now = je_clock env (j_writes j) in
           if op_phase op = Some Failed
           then if op_error op = Some durable then (j, Inr (Some op)) else (j, Inl transition_conflict)
           else if op_phase op \<noteq> Some Started then (j, Inl transition_invalid)
           else store env key (op\<lparr>op_status := ''failed'', op_phase := Some Failed,
             op_knownBeforeApply := Some True, op_completedAt := Some now, op_updatedAt := Some now,
             op_error := Some durable\<rparr>) j))"

record op_status_view =
  sv_status :: string
  sv_phase :: phase
  sv_terminal :: bool
  sv_outcome :: string
  sv_result :: "jsval option"
  sv_error :: "durable_error option"
  sv_provisionalResult :: "jsval option"
  sv_legacyAmbiguous :: bool

definition op_status_of :: "string \<Rightarrow> journal \<Rightarrow> op_status_view option" where
  "op_status_of key j =
     map_option (\<lambda>op.
       let ph = operationPhase op; knownFailure = isKnownFailed op; cmpl = isCompleted op;
           word = (\<lambda>other. if cmpl then ''completed'' else if knownFailure then ''failed'' else other)
       in \<lparr>sv_status = word ''started'', sv_phase = ph, sv_terminal = (cmpl \<or> knownFailure),
           sv_outcome = word ''unknown'',
           sv_result = (if cmpl then Some (case op_result op of Some v \<Rightarrow> json_value v | None \<Rightarrow> JNull) else None),
           sv_error = (if knownFailure then op_error op else None),
           sv_provisionalResult = (if ph \<in> {Local_applied, Sync_unknown}
             then map_option json_value (op_provisionalResult op) else None),
           sv_legacyAmbiguous = isLegacyAmbiguous op\<rparr>)
     (get_op key j)"

section \<open>Proof bindings\<close>

record binding =
  bi_fingerprint :: string
  bi_fingerprintVersion :: "int option"
  bi_method :: "string option"
  bi_route :: "string option"

definition normalizeJournalBinding :: "binding option \<Rightarrow> binding option" where
  "normalizeJournalBinding b =
     (case b of None \<Rightarrow> None
      | Some bi \<Rightarrow> if bi_fingerprint bi = [] then None
          else Some (bi\<lparr>bi_method := (if bi_method bi = Some [] then None else bi_method bi),
                        bi_route := (if bi_route bi = Some [] then None else bi_route bi)\<rparr>))"

definition journalProofFromOperation :: "operation option \<Rightarrow> binding option" where
  "journalProofFromOperation op =
     (case op of None \<Rightarrow> None
      | Some operation \<Rightarrow>
          if op_fingerprint operation = [] \<or> op_fingerprintVersion operation = None then None
          else Some \<lparr>bi_fingerprint = op_fingerprint operation,
            bi_fingerprintVersion = op_fingerprintVersion operation,
            bi_method = (if op_method operation = [] then None else Some (op_method operation)),
            bi_route = (if op_route operation = [] then None else Some (op_route operation))\<rparr>)"

text \<open>What a saga recorded of the request that started it.\<close>

record saga_binding =
  sb_fingerprint :: string
  sb_fingerprintVersion :: "int option"
  sb_method :: string
  sb_route :: string

text \<open>\<open>a && b && a !== b\<close> on strings.\<close>

definition both_differ :: "string \<Rightarrow> string option \<Rightarrow> bool" where
  "both_differ a b \<longleftrightarrow> a \<noteq> [] \<and> (case b of None \<Rightarrow> False | Some s \<Rightarrow> a \<noteq> s)"

definition journalBindingsMatch ::
  "saga_binding option \<Rightarrow> binding option \<Rightarrow> string \<Rightarrow> string \<Rightarrow> bool"
where
  "journalBindingsMatch saga b expectedMethod expectedRoute =
     (case (normalizeJournalBinding b, saga) of
        (Some n, Some s) \<Rightarrow>
          sb_fingerprint s \<noteq> [] \<and> sb_fingerprint s = bi_fingerprint n \<and>
          sb_fingerprintVersion s = bi_fingerprintVersion n \<and>
          \<not> both_differ (sb_method s) (bi_method n) \<and> \<not> both_differ (sb_route s) (bi_route n) \<and>
          \<not> both_differ expectedMethod (bi_method n) \<and> \<not> both_differ expectedRoute (bi_route n)
      | _ \<Rightarrow> False)"

definition idempotencyKeyReuseError :: js_error where
  "idempotencyKeyReuseError = AppError ''IDEMPOTENCY_KEY_REUSED'' 409"

definition assertJournalBinding ::
  "saga_binding option \<Rightarrow> binding option \<Rightarrow> string \<Rightarrow> string \<Rightarrow> unit res"
where
  "assertJournalBinding saga b expectedMethod expectedRoute =
     (case normalizeJournalBinding b of
        None \<Rightarrow> Inr ()
      | Some n \<Rightarrow>
          if journalBindingsMatch saga (Some n) expectedMethod expectedRoute then Inr ()
          else Inl idempotencyKeyReuseError)"

text \<open>What a prover returns: \<open>ok\<close>, \<open>needsSync\<close>, \<open>status\<close> and the whole result.\<close>

record prover_result =
  pv_ok :: bool
  pv_needsSync :: bool
  pv_status :: "string option"
  pv_value :: jsval

definition terminalProofEnvelope :: "prover_result option \<Rightarrow> binding option \<Rightarrow> terminal_proof option" where
  "terminalProofEnvelope result journalOperation =
     (case result of None \<Rightarrow> None
      | Some r \<Rightarrow>
          if \<not> pv_ok r \<or> pv_needsSync r \<or> (pv_status r \<noteq> None \<and> pv_status r \<noteq> Some ''completed'') then None
          else case normalizeJournalBinding journalOperation of
            None \<Rightarrow> None
          | Some b \<Rightarrow> Some \<lparr>tp_result = pv_value r, tp_fingerprint = bi_fingerprint b,
              tp_fingerprintVersion = bi_fingerprintVersion b\<rparr>)"

text \<open>A prover answers, or throws (\<open>Inl\<close>), which counts as no answer.\<close>

type_synonym prover = "string \<Rightarrow> binding \<Rightarrow> string + prover_result option"

fun first_envelope :: "prover list \<Rightarrow> string \<Rightarrow> binding \<Rightarrow> terminal_proof option" where
  "first_envelope [] key b = None"
| "first_envelope (p # ps) key b =
     (case terminalProofEnvelope (case p key b of Inl _ \<Rightarrow> None | Inr r \<Rightarrow> r) (Some b) of
        Some e \<Rightarrow> Some e
      | None \<Rightarrow> first_envelope ps key b)"

definition composeTerminalProofResolver :: "prover list \<Rightarrow> string \<Rightarrow> operation \<Rightarrow> terminal_proof option" where
  "composeTerminalProofResolver provers key op =
     (case journalProofFromOperation (Some op) of None \<Rightarrow> None | Some b \<Rightarrow> first_envelope provers key b)"

section \<open>Pruning\<close>

definition journal_ok :: "journal \<Rightarrow> bool" where
  "journal_ok j \<longleftrightarrow> distinct (map fst (j_operations j)) \<and> validState (j_operations j) \<and>
     countNonterminalOperations (j_operations j) \<le> j_maxNonterminal j \<and>
     length (filter (\<lambda>(_, op). isTerminal op) (j_operations j)) \<le> MAX_TERMINAL_ENTRIES"

lemma set_by_age [simp]: "set (by_age env ops) = set ops" "length (by_age env ops) = length ops"
  by (simp_all add: by_age_def)

lemma distinct_by_age: "distinct (map fst ops) \<Longrightarrow> distinct (map fst (by_age env ops))"
proof -
  have "mset (map fst (by_age env ops)) = mset (map fst ops)" by (simp add: by_age_def)
  then show "distinct (map fst ops) \<Longrightarrow> distinct (map fst (by_age env ops))"
    using mset_eq_imp_distinct_iff by blast
qed

lemma sorted_by_age: "sorted (map (\<lambda>(_, op). terminalTime env op) (by_age env ops))"
  by (simp add: by_age_def)

text \<open>The keys that pruning drops, and what it does to the map.\<close>

definition pruned_keys :: "jenv \<Rightarrow> operations \<Rightarrow> string set" where
  "pruned_keys env ops =
     (let terminal = filter (\<lambda>(_, op). isTerminal op) ops in
      fst ` set (take (length terminal - MAX_TERMINAL_ENTRIES) (by_age env terminal)))"

lemma prune_eq: "prune env ops = filter (\<lambda>(k, _). k \<notin> pruned_keys env ops) ops"
  by (auto simp: prune_def pruned_keys_def Let_def filter_id_conv)

lemma map_of_filter_keys: "map_of (filter (\<lambda>(k, _). P k) ops) key = (if P key then map_of ops key else None)"
  by (induction ops) auto

lemma map_of_prune: "map_of (prune env ops) key = (if key \<in> pruned_keys env ops then None else map_of ops key)"
  by (simp add: prune_eq map_of_filter_keys)

lemma pruned_terminal:
  assumes "distinct (map fst ops)" "k \<in> pruned_keys env ops" "map_of ops k = Some op"
  shows "isTerminal op"
proof -
  from assms(2) obtain op' where "(k, op') \<in> set ops" "isTerminal op'"
    by (auto simp: pruned_keys_def Let_def dest!: in_set_takeD)
  with assms(1,3) show ?thesis by simp
qed

lemma prune_nonterminal:
  assumes "distinct (map fst ops)"
  shows "filter (\<lambda>(_, op). \<not> isTerminal op) (prune env ops) = filter (\<lambda>(_, op). \<not> isTerminal op) ops"
proof -
  have "k \<notin> pruned_keys env ops" if "(k, op) \<in> set ops" "\<not> isTerminal op" for k op
    using pruned_terminal [OF assms, of k env op] that assms by auto
  then show ?thesis unfolding prune_eq filter_filter by (intro filter_cong) auto
qed

lemma prune_terminal_count:
  assumes d: "distinct (map fst ops)"
  shows "length (filter (\<lambda>(_, op). isTerminal op) (prune env ops)) =
    min MAX_TERMINAL_ENTRIES (length (filter (\<lambda>(_, op). isTerminal op) ops))"
proof -
  let ?t = "filter (\<lambda>(_, op). isTerminal op) ops"
  let ?g = "take (length ?t - MAX_TERMINAL_ENTRIES) (by_age env ?t)"
  have dt: "distinct (map fst ?t)" using d by (simp add: distinct_map_filter)
  have dg: "distinct (map fst ?g)" unfolding take_map [symmetric] by (intro distinct_take distinct_by_age dt)
  have sub: "set ?g \<subseteq> set ?t" by (auto dest: in_set_takeD)
  have "filter (\<lambda>(_, op). isTerminal op) (prune env ops) = filter (\<lambda>kv. fst kv \<notin> fst ` set ?g) ?t"
    unfolding prune_eq filter_filter pruned_keys_def Let_def case_prod_beta
    by (rule filter_cong [OF refl]) (rule conj_commute)
  also have "length \<dots> = length ?t - length (filter (\<lambda>kv. fst kv \<in> fst ` set ?g) ?t)"
    using sum_length_filter_compl [of "\<lambda>kv. fst kv \<in> fst ` set ?g" ?t] by simp
  also have "length (filter (\<lambda>kv. fst kv \<in> fst ` set ?g) ?t) = length ?g"
  proof -
    have "distinct (filter (\<lambda>kv. fst kv \<in> fst ` set ?g) ?t)" using dt by (simp only: distinct_filter distinct_map)
    from distinct_card [OF this]
    have "length (filter (\<lambda>kv. fst kv \<in> fst ` set ?g) ?t) = card {kv \<in> set ?t. fst kv \<in> fst ` set ?g}"
      by (simp only: set_filter)
    also have "{kv \<in> set ?t. fst kv \<in> fst ` set ?g} = set ?g"
    proof -
      have i: "inj_on fst (set ?t)" using dt by (simp only: distinct_map)
      have "kv \<in> set ?g" if "kv \<in> set ?t" "fst kv \<in> fst ` set ?g" for kv
      proof -
        from that(2) obtain kv' where "kv' \<in> set ?g" "fst kv = fst kv'" by blast
        with inj_onD [OF i, of kv kv'] that(1) sub show ?thesis by blast
      qed
      with sub show ?thesis by blast
    qed
    also have "card \<dots> = length ?g" using dg by (simp only: distinct_card distinct_map)
    finally show ?thesis .
  qed
  also have "length ?g = length ?t - MAX_TERMINAL_ENTRIES" by simp
  finally show ?thesis by linarith
qed

section \<open>Effect of a write\<close>

lemma writePruned_cases:
  assumes "writePruned env ops j = (j', r)"
  obtains (failed) "r = Inl write_error" "j_operations j' = j_operations j" "j_maxNonterminal j' = j_maxNonterminal j"
  | (written) "r = Inr ()" "j_operations j' = prune env ops" "validState (prune env ops)"
      "j_maxNonterminal j' = j_maxNonterminal j"
  using assms by (auto simp: writePruned_def Let_def split: if_splits)

lemma store_cases:
  assumes "store env key op j = (j', r)"
  obtains (failed) "r = Inl write_error" "j_operations j' = j_operations j" "j_maxNonterminal j' = j_maxNonterminal j"
  | (stored) "r = Inr (map_of (j_operations j') key)" "j_operations j' = prune env (AList.update key op (j_operations j))"
      "validState (j_operations j')" "j_maxNonterminal j' = j_maxNonterminal j"
proof -
  obtain j1 r1 where w: "writePruned env (AList.update key op (j_operations j)) j = (j1, r1)" by fastforce
  show ?thesis
    using w failed stored assms
    by (cases rule: writePruned_cases [OF w]) (auto simp: store_def Let_def)
qed

lemma store_lookup:
  assumes "store env key op j = (j', Inr r)"
  shows "r = map_of (j_operations j') key" "r = None \<or> r = Some op"
    "k \<noteq> key \<Longrightarrow> map_of (j_operations j') k = None \<or> map_of (j_operations j') k = map_of (j_operations j) k"
  using assms by (cases rule: store_cases [OF assms]; simp add: map_of_prune update_conv' write_error_def split: if_splits)+

lemma update_filter_length:
  assumes "distinct (map fst ops)" "map_of ops key = Some op0" "\<not> P op0"
  shows "length (filter (\<lambda>(_, op). \<not> P op) (AList.update key op ops)) \<le> length (filter (\<lambda>(_, op). \<not> P op) ops)"
  using assms by (induction ops) auto

lemma update_new_length:
  assumes "map_of ops key = None"
  shows "length (filter (\<lambda>(_, op). \<not> P op) (AList.update key op ops)) \<le> Suc (length (filter (\<lambda>(_, op). \<not> P op) ops))"
  using assms by (induction ops) (auto split: if_splits)

text \<open>A stored entry that replaces a nonterminal one, or adds one below the limit, keeps the journal in order.\<close>

lemma store_ok:
  assumes ok: "journal_ok j" and s: "store env key op j = (j', r)"
    and room: "case map_of (j_operations j) key of Some op0 \<Rightarrow> \<not> isTerminal op0
      | None \<Rightarrow> countNonterminalOperations (j_operations j) < j_maxNonterminal j"
  shows "journal_ok j'"
  using s
proof (cases rule: store_cases)
  case failed
  with ok show ?thesis by (simp add: journal_ok_def)
next
  case stored
  let ?ops = "AList.update key op (j_operations j)"
  have d: "distinct (map fst (j_operations j))" and n: "countNonterminalOperations (j_operations j) \<le> j_maxNonterminal j"
    using ok by (auto simp: journal_ok_def)
  then have d': "distinct (map fst ?ops)" by (simp add: distinct_update)
  have "countNonterminalOperations ?ops \<le> j_maxNonterminal j"
  proof (cases "map_of (j_operations j) key")
    case None
    with room n update_new_length [OF None, of isTerminal op] show ?thesis
      by (simp add: countNonterminalOperations_def)
  next
    case (Some op0)
    with room n update_filter_length [OF d Some, of isTerminal op] show ?thesis
      by (simp add: countNonterminalOperations_def)
  qed
  then have "countNonterminalOperations (prune env ?ops) \<le> j_maxNonterminal j"
    by (simp add: countNonterminalOperations_def prune_nonterminal [OF d'])
  moreover have "length (filter (\<lambda>(_, op). isTerminal op) (prune env ?ops)) \<le> MAX_TERMINAL_ENTRIES"
    by (simp add: prune_terminal_count [OF d'])
  moreover have "distinct (map fst (prune env ?ops))" using d' by (simp add: prune_eq distinct_map_filter)
  ultimately show ?thesis using stored by (simp add: journal_ok_def)
qed

section \<open>The transitions\<close>

text \<open>The edges of the phase machine.\<close>

inductive phase_edge :: "phase \<Rightarrow> phase \<Rightarrow> bool" where
  "phase_edge Started Local_applied"
| "phase_edge Started Failed"
| "phase_edge Started Completed"
| "phase_edge Local_applied Sync_unknown"
| "phase_edge Local_applied Completed"
| "phase_edge Sync_unknown Completed"

inductive_simps phase_edge_simps [simp]: "phase_edge a b"

text \<open>One call of the journal.\<close>

inductive journal_step :: "jenv \<Rightarrow> journal \<Rightarrow> journal \<Rightarrow> bool" for env where
  js_start: "journal_step env j (fst (start env key request j))"
| js_local: "journal_step env j (fst (localApplied env key v j))"
| js_sync: "journal_step env j (fst (syncUnknown env key j))"
| js_complete: "journal_step env j (fst (complete_op env key v j))"
| js_reconcile: "journal_step env j (fst (reconcileFromTerminalProof env key proof j))"
| js_fail: "journal_step env j (fst (failBeforeApply env key err j))"

text \<open>
  What every call does to the journal: nothing, or it adds a fresh operation below the limit, or
  it moves a versioned nonterminal operation along an edge.
\<close>

definition keeps_identity :: "operation \<Rightarrow> operation \<Rightarrow> bool" where
  "keeps_identity op op' \<longleftrightarrow>
     op_key op' = op_key op \<and> op_recordVersion op' = op_recordVersion op \<and>
     op_fingerprint op' = op_fingerprint op \<and> op_fingerprintVersion op' = op_fingerprintVersion op \<and>
     op_method op' = op_method op \<and> op_route op' = op_route op \<and> op_startedAt op' = op_startedAt op"

definition keeps_or_moves :: "jenv \<Rightarrow> string \<Rightarrow> journal \<Rightarrow> journal \<times> operation option res \<Rightarrow> bool" where
  "keeps_or_moves env key j res \<longleftrightarrow> fst res = j \<or>
     (\<exists>op op' p p'. res = store env key op' j \<and> map_of (j_operations j) key = Some op \<and> isVersioned op \<and>
        op_phase op = Some p \<and> op_phase op' = Some p' \<and> phase_edge p p' \<and> keeps_identity op op')"

lemma keepsI [intro]: "keeps_or_moves env key j (j, x)"
  by (simp add: keeps_or_moves_def)

lemma movesI:
  assumes "requireVersioned key j = Inr op" "op_phase op = Some p" "op_phase op' = Some p'" "phase_edge p p'"
    "keeps_identity op op'"
  shows "keeps_or_moves env key j (store env key op' j)"
  using assms unfolding keeps_or_moves_def by (fastforce simp: requireVersioned_def split: option.splits if_splits)

lemma movesI':
  assumes "requireVersioned key j = Inr op" "\<exists>p. op_phase op = Some p \<and> phase_edge p p'" "op_phase op' = Some p'"
    "keeps_identity op op'"
  shows "keeps_or_moves env key j (store env key op' j)"
  using assms movesI by blast

lemma transitions_shape:
  "keeps_or_moves env key j (localApplied env key v j)"
  "keeps_or_moves env key j (syncUnknown env key j)"
  "keeps_or_moves env key j (complete_op env key v j)"
  "keeps_or_moves env key j (reconcileFromTerminalProof env key proof j)"
  "keeps_or_moves env key j (failBeforeApply env key err j)"
proof -
  show "keeps_or_moves env key j (localApplied env key v j)"
  proof (cases "requireVersioned key j")
    case (Inr op)
    then show ?thesis
      by (auto simp: localApplied_def Let_def keeps_identity_def intro!: movesI [OF Inr, where p = Started])
  qed (auto simp: localApplied_def)
  show "keeps_or_moves env key j (syncUnknown env key j)"
  proof (cases "requireVersioned key j")
    case (Inr op)
    then show ?thesis
      by (auto simp: syncUnknown_def Let_def keeps_identity_def intro!: movesI [OF Inr, where p = Local_applied])
  qed (auto simp: syncUnknown_def)
  show "keeps_or_moves env key j (complete_op env key v j)"
  proof (cases "requireVersioned key j")
    case (Inr op)
    then show ?thesis
      by (cases "op_phase op") (auto simp: complete_op_def Let_def keeps_identity_def intro!: movesI [OF Inr])
  qed (auto simp: complete_op_def)
  show "keeps_or_moves env key j (reconcileFromTerminalProof env key proof j)"
  proof (cases "requireVersioned key j")
    case (Inr op)
    then show ?thesis
      by (cases "proof"; simp only: reconcileFromTerminalProof_def sum.case option.case Let_def split: if_split)
        (auto simp: keeps_identity_def intro!: movesI' [OF Inr, where p' = Completed])
  qed (auto simp: reconcileFromTerminalProof_def)
  show "keeps_or_moves env key j (failBeforeApply env key err j)"
  proof (cases "requireVersioned key j")
    case (Inr op)
    then show ?thesis
      by (auto simp: failBeforeApply_def Let_def keeps_identity_def intro!: movesI [OF Inr, where p = Started])
  qed (auto simp: failBeforeApply_def)
qed

lemma step_shape:
  assumes "journal_step env j j'"
  obtains (none) "j' = j"
  | (fresh) key op r where "store env key op j = (j', r)" "map_of (j_operations j) key = None"
      "countNonterminalOperations (j_operations j) < j_maxNonterminal j" "op_phase op = Some Started"
  | (move) key op op' r p p' where "store env key op' j = (j', r)" "map_of (j_operations j) key = Some op"
      "isVersioned op" "op_phase op = Some p" "op_phase op' = Some p'" "phase_edge p p'" "keeps_identity op op'"
proof -
  have via: thesis if "keeps_or_moves env key j res" "j' = fst res" for key res
    using that none move unfolding keeps_or_moves_def by (metis prod.collapse)
  from assms show thesis
  proof cases
    case (js_start key request)
    let ?op = "fresh_operation env key request (je_clock env (j_writes j))"
    obtain j1 r where s: "store env key ?op j = (j1, r)" by fastforce
    show ?thesis
    proof (cases "key_re key \<and> map_of (j_operations j) key = None \<and> \<not> j_maxNonterminal j \<le> countNonterminalOperations (j_operations j)")
      case True
      then have "j' = j1" using s js_start by (simp add: start_def Let_def split: sum.splits)
      with True s fresh [of key ?op r] show ?thesis by (simp add: fresh_operation_def)
    next
      case False
      then have "j' = j" using js_start by (auto simp: start_def Let_def split: option.splits)
      then show ?thesis by (rule none)
    qed
  next
    case js_local
    then show ?thesis by (intro via [OF transitions_shape(1)])
  next
    case js_sync
    then show ?thesis by (intro via [OF transitions_shape(2)])
  next
    case js_complete
    then show ?thesis by (intro via [OF transitions_shape(3)])
  next
    case js_reconcile
    then show ?thesis by (intro via [OF transitions_shape(4)])
  next
    case js_fail
    then show ?thesis by (intro via [OF transitions_shape(5)])
  qed
qed

section \<open>Properties\<close>

lemma journal_step_ok: "journal_step env j j' \<Longrightarrow> journal_ok j \<Longrightarrow> journal_ok j' \<and> j_maxNonterminal j' = j_maxNonterminal j"
proof (elim step_shape)
  fix key op r
  assume ok: "journal_ok j" and s: "store env key op j = (j', r)" and n: "map_of (j_operations j) key = None"
    "countNonterminalOperations (j_operations j) < j_maxNonterminal j"
  have "j_maxNonterminal j' = j_maxNonterminal j" by (cases rule: store_cases [OF s]) simp_all
  with store_ok [OF ok s] n show ?thesis by simp
next
  fix key op op' r p p'
  assume ok: "journal_ok j" and s: "store env key op' j = (j', r)" and m: "map_of (j_operations j) key = Some op"
    "isVersioned op" "op_phase op = Some p" "phase_edge p p'"
  have "\<not> isTerminal op" using m by (auto simp: isTerminal_def isCompleted_def isKnownFailed_def)
  moreover have "j_maxNonterminal j' = j_maxNonterminal j" by (cases rule: store_cases [OF s]) simp_all
  ultimately show ?thesis using store_ok [OF ok s] m by simp
qed simp

text \<open>
  C34: Whatever sequence of calls a journal in order receives, with whatever write failures,
  it stays in order: distinct keys, only valid records, at most the allowed number of open
  operations, and at most a thousand terminal ones.
\<close>

theorem journal_stays_ok:
  assumes "(journal_step env)\<^sup>*\<^sup>* j j'" "journal_ok j"
  shows "journal_ok j' \<and> j_maxNonterminal j' = j_maxNonterminal j"
  using assms by (induction rule: rtranclp_induct) (auto dest: journal_step_ok)

definition empty_journal :: journal where
  "empty_journal = \<lparr>j_operations = [], j_maxNonterminal = 1000, j_writes = 0\<rparr>"

lemma empty_journal_ok: "journal_ok empty_journal"
  by (simp add: journal_ok_def empty_journal_def validState_def countNonterminalOperations_def)

definition terminal_count :: "operations \<Rightarrow> nat" where
  "terminal_count ops = length (filter (\<lambda>(_, op). isTerminal op) ops)"

lemma stored_entry:
  assumes "journal_ok j" "store env key op' j = (j', r)"
  shows "map_of (j_operations j') k = (if k = key then Some op' else map_of (j_operations j) k) \<or>
    map_of (j_operations j') k = map_of (j_operations j) k \<or>
    map_of (j_operations j') k = None \<and> terminal_count (j_operations j') = MAX_TERMINAL_ENTRIES"
  using assms(2)
proof (cases rule: store_cases)
  case stored
  let ?ops = "AList.update key op' (j_operations j)"
  have d: "distinct (map fst ?ops)" using assms(1) by (simp add: journal_ok_def distinct_update)
  show ?thesis
  proof (cases "k \<in> pruned_keys env ?ops")
    case True
    then have "MAX_TERMINAL_ENTRIES < length (filter (\<lambda>(_, op). isTerminal op) ?ops)"
      by (auto simp: pruned_keys_def Let_def intro: ccontr)
    with prune_terminal_count [OF d] have "terminal_count (prune env ?ops) = MAX_TERMINAL_ENTRIES"
      by (simp add: terminal_count_def)
    with stored True show ?thesis by (simp add: map_of_prune)
  next
    case False
    with stored show ?thesis by (simp add: map_of_prune update_conv')
  qed
qed simp

lemma entry_step:
  assumes "journal_ok j" "journal_step env j j'"
  shows "case (map_of (j_operations j) key, map_of (j_operations j') key) of
      (None, None) \<Rightarrow> True
    | (None, Some op') \<Rightarrow> op_phase op' = Some Started
    | (Some op, None) \<Rightarrow> terminal_count (j_operations j') = MAX_TERMINAL_ENTRIES
    | (Some op, Some op') \<Rightarrow> op' = op \<or> \<not> isTerminal op \<and> keeps_identity op op' \<and>
        (\<exists>p p'. op_phase op = Some p \<and> op_phase op' = Some p' \<and> phase_edge p p')"
  using assms(2)
proof (cases rule: step_shape)
  case none
  then show ?thesis by (auto split: option.splits)
next
  case (fresh k op r)
  from stored_entry [OF assms(1) fresh(1), of key] fresh(2,4) show ?thesis
    by (cases "k = key") (auto split: option.splits)
next
  case (move k op op' r p p')
  then have "\<not> isTerminal op" by (auto simp: isTerminal_def isCompleted_def isKnownFailed_def)
  with stored_entry [OF assms(1) move(1), of key] move show ?thesis
    by (cases "k = key") (auto simp del: phase_edge_simps split: option.splits)
qed

text \<open>
  C35: One call changes an entry only in these ways: a new key starts; an open operation
  moves along one edge of the phase machine and keeps its key, fingerprint, method, route and
  start; an entry vanishes by pruning, and then a thousand terminal ones remain. So a terminal
  entry is never changed.
\<close>

theorem journal_entry_step:
  assumes "journal_ok j" "journal_step env j j'"
  shows "case (map_of (j_operations j) key, map_of (j_operations j') key) of
      (None, None) \<Rightarrow> True
    | (None, Some op') \<Rightarrow> op_phase op' = Some Started
    | (Some op, None) \<Rightarrow> terminal_count (j_operations j') = MAX_TERMINAL_ENTRIES
    | (Some op, Some op') \<Rightarrow> op' = op \<or> \<not> isTerminal op \<and> keeps_identity op op' \<and>
        (\<exists>p p'. op_phase op = Some p \<and> op_phase op' = Some p' \<and> phase_edge p p')"
  using assms by (rule entry_step)

text \<open>
  Pruning removes terminal operations only, and none that is newer than a terminal
  operation it keeps.
\<close>

theorem prune_oldest_first:
  assumes "distinct (map fst ops)" "map_of ops k = Some op" "map_of (prune env ops) k = None"
  shows "isTerminal op \<and>
    (case map_of (prune env ops) k' of None \<Rightarrow> True
     | Some op' \<Rightarrow> isTerminal op' \<longrightarrow> terminalTime env op \<le> terminalTime env op')"
proof -
  let ?t = "filter (\<lambda>(_, op). isTerminal op) ops"
  let ?n = "length ?t - MAX_TERMINAL_ENTRIES"
  let ?s = "by_age env ?t"
  have k: "k \<in> pruned_keys env ops" using assms(2,3) by (simp add: map_of_prune split: if_splits)
  then obtain o1 where "(k, o1) \<in> set (take ?n ?s)" by (auto simp: pruned_keys_def Let_def)
  moreover from this have "(k, o1) \<in> set ops" by (auto dest: in_set_takeD)
  ultimately have o: "(k, op) \<in> set (take ?n ?s)" using assms(1,2) by simp
  have "terminalTime env op \<le> terminalTime env op'"
    if p: "map_of (prune env ops) k' = Some op'" and tt: "isTerminal op'" for op'
  proof -
    have m: "map_of ops k' = Some op'" "k' \<notin> pruned_keys env ops" using p by (simp_all add: map_of_prune split: if_splits)
    from map_of_SomeD [OF m(1)] tt have "(k', op') \<in> set ?s" by simp
    moreover have "(k', op') \<notin> set (take ?n ?s)" using m(2) by (force simp: pruned_keys_def Let_def)
    ultimately have d: "(k', op') \<in> set (drop ?n ?s)" by (metis Un_iff append_take_drop_id set_append)
    have "sorted (map (\<lambda>(_, op). terminalTime env op) (take ?n ?s @ drop ?n ?s))"
      unfolding append_take_drop_id by (rule sorted_by_age)
    with o d show ?thesis unfolding map_append sorted_append by fastforce
  qed
  with pruned_terminal [OF assms(1) k assms(2)] show ?thesis by (simp split: option.split)
qed

text \<open>The durable form of a value is its own durable form.\<close>

lemma json_value_undef [simp]: "json_value v \<noteq> JUndef"
  by (cases v rule: json_value.cases) (auto elim: json_num.elims simp: json_num.simps)

lemma json_num_idem: "json_value (json_num n) = json_num n"
  by (cases n) simp_all

lemma json_value_idem [simp]: "json_value (json_value v) = json_value v"
proof (induction v rule: json_value.induct)
  case (4 ps)
  let ?g = "\<lambda>(k :: string, v). (k, json_value v)" and ?P = "\<lambda>(k :: string, v). v \<noteq> JUndef"
  let ?qs = "filter ?P ps"
  have i: "json_value (json_value v) = json_value v" if "(k, v) \<in> set ?qs" for k v
    using 4 [of "(k, v)" k v] that by simp
  have "filter ?P (map ?g ?qs) = map ?g ?qs" by (auto simp: filter_id_conv)
  moreover have "map ?g (map ?g ?qs) = map ?g ?qs" using i by auto
  ultimately show ?case by (simp only: json_value.simps)
qed (simp_all add: json_num_idem)

text \<open>
  Completing twice is idempotent: after a completion that stored its entry, completing
  again with an equivalent result gives the stored entry and writes nothing, and with any other
  result it is refused as a conflict.
\<close>

theorem complete_idempotent:
  assumes "complete_op env key v j = (j', Inr (Some op))"
  shows "complete_op env' key v' j' =
    (if equivalent v v' then (j', Inr (Some op)) else (j', Inl transition_conflict))"
proof -
  have e: "equivalent (json_value v) w \<longleftrightarrow> equivalent v w" "equivalent w (json_value v) \<longleftrightarrow> equivalent w v"
    "equivalent v v" for v w
    by (simp_all add: equivalent_def)
  obtain op0 where q: "requireVersioned key j = Inr op0"
    using assms by (cases "requireVersioned key j") (auto simp: complete_op_def)
  then have m0: "map_of (j_operations j) key = Some op0" "isVersioned op0"
    by (auto simp: requireVersioned_def split: option.splits if_splits)
  have s: "map_of (j_operations j') key = Some op \<and> isVersioned op \<and> op_phase op = Some Completed \<and>
      (\<exists>r. op_result op = Some r \<and> equivalent r v) \<or>
      map_of (j_operations j') key = Some op \<and> isVersioned op \<and> op_phase op = Some Completed \<and>
      op_result op = None \<and> equivalent JUndef v"
  proof (cases "op_phase op0 = Some Completed")
    case True
    with assms q m0 show ?thesis
      by (cases "op_result op0") (auto simp: complete_op_def Let_def e split: if_splits)
  next
    case False
    let ?op = "op0\<lparr>op_status := ''completed'', op_phase := Some Completed,
             op_completedAt := Some (je_clock env (j_writes j)), op_updatedAt := Some (je_clock env (j_writes j)),
             op_result := Some (json_value v)\<rparr>"
    have st: "store env key ?op j = (j', Inr (Some op))"
      using assms q False by (auto simp: complete_op_def Let_def split: if_splits)
    from store_lookup(1,2) [OF st] m0 show ?thesis
      by (auto simp: isVersioned_def e)
  qed
  then have rv: "requireVersioned key j' = Inr op" by (auto simp: requireVersioned_def)
  from s show ?thesis
    by (auto simp: complete_op_def rv Let_def e) (auto simp: equivalent_def)
qed


section \<open>Witnesses and sanitized errors\<close>

definition demo_digest :: string where
  "demo_digest = replicate 64 (CHR ''a'')"

definition demo_env :: jenv where
  "demo_env = \<lparr>je_clock = (\<lambda>n. ''2026-01-01''), je_fault = (\<lambda>n. False), je_parse = (\<lambda>s. Some 0),
     je_digest = (\<lambda>r. demo_digest), je_legacy_digest = (\<lambda>r. demo_digest)\<rparr>"

definition demo_request :: request where
  "demo_request = \<lparr>rq_method = ''POST'', rq_path = ''/api/v1/goals'', rq_query = [], rq_body = JNull\<rparr>"

definition demo_key :: string where
  "demo_key = ''key-00001''"

lemma demo_facts [simp]:
  "hash_re demo_digest" "key_re demo_key" "je_clock demo_env n = ''2026-01-01''" "\<not> je_fault demo_env n"
  "je_digest demo_env r = demo_digest" "je_legacy_digest demo_env r = demo_digest" "demo_digest \<noteq> []"
proof -
  show "hash_re demo_digest" by (simp add: hash_re_def demo_digest_def list_all_iff)
  show "key_re demo_key" by code_simp
qed (simp_all add: demo_env_def demo_digest_def)

lemmas run_defs = store_def writePruned_def prune_def MAX_TERMINAL_ENTRIES_def validState_def
  validVersionedOperation_def isTerminal_def isCompleted_def isKnownFailed_def isVersioned_def
  countNonterminalOperations_def requireVersioned_def Let_def

text \<open>A journal with one operation in a given phase, as the calls produce it.\<close>

definition demo_op :: operation where
  "demo_op = fresh_operation demo_env demo_key demo_request ''2026-01-01''"

definition demo_started :: journal where
  "demo_started = \<lparr>j_operations = [(demo_key, demo_op)], j_maxNonterminal = 1000, j_writes = 1\<rparr>"

definition demo_applied_op :: operation where
  "demo_applied_op = demo_op\<lparr>op_phase := Some Local_applied, op_provisionalResult := Some (JBool True),
     op_localAppliedAt := Some ''2026-01-01'', op_updatedAt := Some ''2026-01-01''\<rparr>"

definition demo_applied :: journal where
  "demo_applied = \<lparr>j_operations = [(demo_key, demo_applied_op)], j_maxNonterminal = 1000, j_writes = 2\<rparr>"

lemma demo_start:
  "start demo_env demo_key demo_request empty_journal =
     (demo_started, Inr \<lparr>ad_existing = None, ad_fingerprint = demo_digest\<rparr>)"
  by (simp add: start_def run_defs empty_journal_def demo_started_def demo_op_def fresh_operation_def)

lemma demo_apply:
  "localApplied demo_env demo_key (JBool True) demo_started = (demo_applied, Inr (Some demo_applied_op))"
  by (simp add: localApplied_def run_defs demo_started_def demo_op_def demo_applied_def demo_applied_op_def
    fresh_operation_def)

lemma demo_complete:
  "complete_op demo_env demo_key (JBool True) demo_applied =
     (demo_applied\<lparr>j_operations := [(demo_key, demo_applied_op\<lparr>op_status := ''completed'', op_phase := Some Completed,
        op_completedAt := Some ''2026-01-01'', op_result := Some (JBool True)\<rparr>)], j_writes := 3\<rparr>,
      Inr (Some (demo_applied_op\<lparr>op_status := ''completed'', op_phase := Some Completed,
        op_completedAt := Some ''2026-01-01'', op_result := Some (JBool True)\<rparr>)))"
  by (simp add: complete_op_def run_defs demo_op_def demo_applied_def demo_applied_op_def fresh_operation_def)

lemma demo_steps:
  "journal_step demo_env empty_journal demo_started" "journal_step demo_env demo_started demo_applied"
  by (metis demo_start fst_conv js_start, metis demo_apply fst_conv js_local)

lemma journal_stays_ok_witness: "journal_ok demo_applied \<and> j_maxNonterminal demo_applied = 1000"
proof -
  have "(journal_step demo_env)\<^sup>*\<^sup>* empty_journal demo_applied"
    using demo_steps by (meson rtranclp.simps)
  from journal_stays_ok [OF this empty_journal_ok] show ?thesis by (simp add: empty_journal_def)
qed

lemma demo_started_ok: "journal_ok demo_started"
  using journal_step_ok [OF demo_steps(1) empty_journal_ok] by blast

lemma journal_entry_step_witness:
  "journal_ok demo_started \<and> journal_step demo_env demo_started demo_applied \<and>
   (case (map_of (j_operations demo_started) demo_key, map_of (j_operations demo_applied) demo_key) of
      (None, None) \<Rightarrow> True
    | (None, Some op') \<Rightarrow> op_phase op' = Some Started
    | (Some op, None) \<Rightarrow> terminal_count (j_operations demo_applied) = MAX_TERMINAL_ENTRIES
    | (Some op, Some op') \<Rightarrow> op' = op \<or> \<not> isTerminal op \<and> keeps_identity op op' \<and>
        (\<exists>p p'. op_phase op = Some p \<and> op_phase op' = Some p' \<and> phase_edge p p'))"
  using journal_entry_step [OF demo_started_ok demo_steps(2)] demo_started_ok demo_steps(2) by blast

lemma complete_idempotent_witness:
  "snd (complete_op demo_env demo_key (JBool False) (fst (complete_op demo_env demo_key (JBool True) demo_applied)))
     = Inl transition_conflict"
  using complete_idempotent [OF demo_complete, of demo_env "JBool False"]
  by (simp add: demo_complete equivalent_def)

text \<open>A thousand and one completed operations, of which pruning drops one.\<close>

definition many_ops :: operations where
  "many_ops = map (\<lambda>n. (replicate n (CHR ''a''), demo_applied_op\<lparr>op_status := ''completed'', op_phase := Some Completed\<rparr>))
     [0..<1001]"

lemma many_ops_facts:
  "distinct (map fst many_ops)" "length many_ops = 1001" "filter (\<lambda>(_, op). isTerminal op) many_ops = many_ops"
proof -
  show "distinct (map fst many_ops)"
    by (auto simp: many_ops_def distinct_map inj_on_def o_def dest: arg_cong [where f = length])
  show "filter (\<lambda>(_, op). isTerminal op) many_ops = many_ops"
    by (auto simp: many_ops_def filter_id_conv isTerminal_def isCompleted_def)
qed (simp add: many_ops_def)

lemma prune_oldest_first_witness:
  "\<exists>k op. map_of many_ops k = Some op \<and> map_of (prune demo_env many_ops) k = None \<and> isTerminal op"
proof -
  obtain k op rest where b: "by_age demo_env many_ops = (k, op) # rest"
    using set_by_age(2) [of demo_env many_ops] many_ops_facts(2)
    by (cases "by_age demo_env many_ops") auto
  then have "(k, op) \<in> set many_ops" using set_by_age(1) [of demo_env many_ops] by (metis list.set_intros(1))
  then have m: "map_of many_ops k = Some op" using many_ops_facts(1) by simp
  have n: "map_of (prune demo_env many_ops) k = None"
    by (simp add: map_of_prune pruned_keys_def many_ops_facts MAX_TERMINAL_ENTRIES_def b)
  from prune_oldest_first [OF many_ops_facts(1) m n] m n show ?thesis by blast
qed

text \<open>
  A sanitized error without issues is one the store accepts.
\<close>

lemma squeeze_ok: "list_all (\<lambda>c. \<not> control_char c) s \<Longrightarrow> list_all (\<lambda>c. \<not> control_char c) (squeeze s)"
  by (induction s rule: squeeze.induct) (simp_all add: control_char_def)

lemma set_js_trim: "set (js_trim s) \<subseteq> set s"
  unfolding js_trim_def by (auto dest!: set_dropWhileD)

lemma list_all_subset: "set xs \<subseteq> set ys \<Longrightarrow> list_all P ys \<Longrightarrow> list_all P xs"
  by (auto simp: list_all_iff)

lemma sanitizeError_valid:
  assumes "th_issues e = []"
  shows "validError (sanitizeError e)"
proof -
  let ?blank = "CHR '' ''"
  have b: "\<not> control_char ?blank" "code_char (CHR ''_'')" by (simp_all add: control_char_def code_char_def)
  define raw where "raw = js_upper (case th_code e of Some (c # cs) \<Rightarrow> c # cs | _ \<Rightarrow> ''OPERATION_FAILED'')"
  define code where "code = take 64 (map (\<lambda>c. if code_char c then c else CHR ''_'') raw)"
  have code: "list_all code_char code" "length code \<le> 64"
    using b by (auto simp: code_def list_all_iff dest!: in_set_takeD)
  define msg where "msg = js_trim (squeeze (map (\<lambda>c. if control_char c then ?blank else c)
    (case th_message e of Some (c # cs) \<Rightarrow> c # cs | _ \<Rightarrow> ''Operation failed before local application'')))"
  have "list_all (\<lambda>c. \<not> control_char c) msg"
    unfolding msg_def by (rule list_all_subset [OF set_js_trim], rule squeeze_ok) (auto simp: list_all_iff b)
  then have "list_all (\<lambda>c. \<not> control_char c) (take 240 msg)" by (auto simp: list_all_iff dest: in_set_takeD)
  moreover have "list_all (\<lambda>c. \<not> control_char c) ''Operation failed before local application''"
    "list_all code_char ''OPERATION_FAILED''" by code_simp+
  moreover have "code = [] \<longleftrightarrow> raw = []" by (simp add: code_def)
  ultimately show ?thesis
    using code assms
    by (cases "th_status e")
      (auto simp: sanitizeError_def validError_def validIssues_def Let_def raw_def [symmetric] code_def [symmetric]
        msg_def [symmetric] Suc_le_eq)
qed

text \<open>The error of a request body that fails validation with an unknown enum value.\<close>

definition enum_issue :: issue where
  "enum_issue = \<lparr>is_path = ''kind'',
     is_message = ''Invalid enum value. Expected 'asset' | 'liability', received 'token' '',
     is_code = Some ''invalid_enum_value''\<rparr>"

definition enum_error :: thrown where
  "enum_error = \<lparr>th_code = Some ''INVALID_REQUEST'', th_message = Some ''kind'',
     th_status = Some 400, th_issues = [enum_issue], th_known = True\<rparr>"

lemma enum_error_invalid: "validError (sanitizeError enum_error) = False"
  by code_simp

text \<open>
  A handler error that carries the issue of an unknown enum value is sanitized to an error
  the store's validator refuses when the value contains one of the words it looks for: the failure
  cannot be recorded, and the operation stays started.
\<close>

theorem sanitized_issue_refused:
  "\<not> validError (sanitizeError enum_error) \<and>
   snd (failBeforeApply demo_env demo_key enum_error demo_started) = Inl write_error \<and>
   j_operations (fst (failBeforeApply demo_env demo_key enum_error demo_started)) = [(demo_key, demo_op)] \<and>
   op_phase demo_op = Some Started"
  by (simp add: enum_error_invalid failBeforeApply_def run_defs validLegacyOperation_def demo_started_def demo_op_def
    fresh_operation_def)

text \<open>
  The request that is digested does not depend on the order in which parameters of
  different names appear in the query string.
\<close>

theorem fingerprint_ignores_query_order:
  assumes "mset qs = mset qs'" "\<And>k. filter (\<lambda>p. fst p = k) qs = filter (\<lambda>p. fst p = k) qs'"
  shows "je_digest env (normalizedRequest (r\<lparr>rq_query := qs\<rparr>)) = je_digest env (normalizedRequest (r\<lparr>rq_query := qs'\<rparr>))"
proof -
  have "sort_key fst qs = sort_key fst qs'"
  proof (rule properties_for_sort_key)
    have e: "(\<lambda>p. k = fst p) = (\<lambda>p. fst p = k)" for k :: string by auto
    show "filter (\<lambda>y. fst x = fst y) (sort_key fst qs') = filter (\<lambda>y. fst x = fst y) qs" for x
      unfolding e sort_key_stable using assms(2) by simp
  qed (use assms(1) in simp_all)
  then show ?thesis by (simp add: normalizedRequest_def queryPairs_def)
qed

lemma fingerprint_ignores_query_order_witness:
  "je_digest demo_env (normalizedRequest (demo_request\<lparr>rq_query := [(''b'', ''1''), (''a'', ''2'')]\<rparr>))
   = je_digest demo_env (normalizedRequest (demo_request\<lparr>rq_query := [(''a'', ''2''), (''b'', ''1'')]\<rparr>))"
  by (rule fingerprint_ignores_query_order) auto

end
