(* ===== verification/OperationExecutor.thy ===== *)
theory OperationExecutor
  imports OperationJournal
begin

text \<open>
  The executor of journaled mutations (\<open>finance-dashboard/lib/operation-executor.js\<close>) and the
  reconciliation of a status read (\<open>lib/operation-reconciliation.js\<close>).

  A handler is a tree: it returns, throws, or calls one method of its \<open>OperationContext\<close> and goes
  on with what the call gives it (an error when the call threw, which the handler may catch). The
  mutation queue runs one mutation at a time, so no other call of the journal falls between its steps.
\<close>

section \<open>Handlers and their context\<close>

datatype handler =
    Return jsval
  | Throw thrown
  | Effects handler
  | Checkpoint jsval "thrown option \<Rightarrow> handler"
  | Sync "thrown option" "thrown option \<Rightarrow> handler"

record op_context =
  cx_phase :: phase
  cx_crossed :: bool

text \<open>How a caught error of the journal looks to the code: its class is not one of the marked ones.\<close>

fun thrown_of :: "js_error \<Rightarrow> thrown" where
  "thrown_of (AppError c s) =
     \<lparr>th_code = Some c, th_message = None, th_status = Some (int s), th_issues = [], th_known = False\<rparr>"
| "thrown_of (TypeError m) =
     \<lparr>th_code = None, th_message = Some m, th_status = None, th_issues = [], th_known = False\<rparr>"
| "thrown_of (RangeError m) =
     \<lparr>th_code = None, th_message = Some m, th_status = None, th_issues = [], th_known = False\<rparr>"
| "thrown_of (PlainError m) =
     \<lparr>th_code = None, th_message = Some m, th_status = None, th_issues = [], th_known = False\<rparr>"

definition outcomeUnknown :: thrown where
  "outcomeUnknown =
     \<lparr>th_code = Some ''OUTCOME_UNKNOWN'',
      th_message = Some ''The request outcome is unknown; check operation status before retrying'',
      th_status = Some 409, th_issues = [], th_known = False\<rparr>"

definition terminalFailure :: "operation \<Rightarrow> thrown" where
  "terminalFailure op =
     (let e = op_error op;
          s = (case e of Some d \<Rightarrow> if 400 \<le> de_status d \<and> de_status d \<le> 599 then de_status d else 400 | None \<Rightarrow> 400)
      in \<lparr>th_code = Some (case e of Some d \<Rightarrow> (if de_code d = [] then ''OPERATION_FAILED'' else de_code d)
            | None \<Rightarrow> ''OPERATION_FAILED''),
          th_message = Some (case e of Some d \<Rightarrow>
              (if de_message d = [] then ''The operation failed before local application'' else de_message d)
            | None \<Rightarrow> ''The operation failed before local application''),
          th_status = Some s,
          th_issues = (case e of
              Some d \<Rightarrow> (case de_issues d of
                 Some is \<Rightarrow> map (\<lambda>(p, m). \<lparr>is_path = p, is_message = m, is_code = None\<rparr>) is | None \<Rightarrow> [])
            | None \<Rightarrow> []),
          th_known = False\<rparr>)"

text \<open>
  \<open>OperationContext.localApplied\<close> and \<open>sync\<close>: the boundary is crossed before the local checkpoint is
  written, but only after the sync checkpoint is.
\<close>

definition ctx_localApplied ::
  "jenv \<Rightarrow> string \<Rightarrow> jsval \<Rightarrow> op_context \<Rightarrow> journal \<Rightarrow> journal \<times> op_context \<times> thrown option"
where
  "ctx_localApplied env key v c j =
     (let c1 = c\<lparr>cx_crossed := True\<rparr> in
      case localApplied env key v j of
        (j', Inl e) \<Rightarrow> (j', c1, Some (thrown_of e))
      | (j', Inr _) \<Rightarrow> (j', c1\<lparr>cx_phase := Local_applied\<rparr>, None))"

definition ctx_sync ::
  "jenv \<Rightarrow> string \<Rightarrow> thrown option \<Rightarrow> op_context \<Rightarrow> journal \<Rightarrow> journal \<times> op_context \<times> thrown option"
where
  "ctx_sync env key outcome c j =
     (case syncUnknown env key j of
        (j', Inl e) \<Rightarrow> (j', c, Some (thrown_of e))
      | (j', Inr _) \<Rightarrow> (j', c\<lparr>cx_phase := Sync_unknown, cx_crossed := True\<rparr>, outcome))"

primrec run_handler ::
  "jenv \<Rightarrow> string \<Rightarrow> handler \<Rightarrow> op_context \<Rightarrow> journal \<Rightarrow> journal \<times> op_context \<times> (thrown + jsval)"
where
  "run_handler env key (Return v) c j = (j, c, Inr v)"
| "run_handler env key (Throw e) c j = (j, c, Inl e)"
| "run_handler env key (Effects h) c j = run_handler env key h (c\<lparr>cx_crossed := True\<rparr>) j"
| "run_handler env key (Checkpoint v k) c j =
     (case ctx_localApplied env key v c j of (j', c', r) \<Rightarrow> run_handler env key (k r) c' j')"
| "run_handler env key (Sync outcome k) c j =
     (case ctx_sync env key outcome c j of (j', c', r) \<Rightarrow> run_handler env key (k r) c' j')"

text \<open>
  \<open>applyLocal(mutation)\<close>: effects may exist before the mutation runs; its value is checkpointed, and
  its throw goes to the handler.
\<close>

definition applyLocal :: "thrown + jsval \<Rightarrow> (thrown + jsval \<Rightarrow> handler) \<Rightarrow> handler" where
  "applyLocal mutation k = Effects (case mutation of
     Inl e \<Rightarrow> k (Inl e)
   | Inr v \<Rightarrow> Checkpoint v (\<lambda>r. case r of None \<Rightarrow> k (Inr v) | Some e \<Rightarrow> k (Inl e)))"

section \<open>The executor\<close>

record reply =
  re_result :: jsval
  re_replayed :: bool
  re_reconciled :: bool

type_synonym resolver = "string \<Rightarrow> operation \<Rightarrow> thrown + terminal_proof option"

definition opt_result :: "jsval option \<Rightarrow> jsval" where
  "opt_result r = (case r of None \<Rightarrow> JNull | Some v \<Rightarrow> if v = JUndef then JNull else v)"

text \<open>Reading a property of the entry a write returned, when pruning took the entry.\<close>

definition missing_entry :: thrown where
  "missing_entry = thrown_of (TypeError ''Cannot read properties of undefined'')"

definition tryReconcileExistingOperation ::
  "jenv \<Rightarrow> string \<Rightarrow> operation \<Rightarrow> resolver option \<Rightarrow> journal \<Rightarrow> journal \<times> (thrown + reply option)"
where
  "tryReconcileExistingOperation env key existing resolve j =
     (if isCompleted existing \<or> isKnownFailed existing then (j, Inr None)
      else case resolve of
        None \<Rightarrow> (j, Inr None)
      | Some f \<Rightarrow>
          (case f key existing of
             Inl _ \<Rightarrow> (j, Inr None)
           | Inr None \<Rightarrow> (j, Inr None)
           | Inr (Some pr) \<Rightarrow>
               if tp_result pr = JUndef then (j, Inr None)
               else case reconcileFromTerminalProof env key (Some pr) j of
                 (j', Inl _) \<Rightarrow> (j', Inl outcomeUnknown)
               | (j', Inr None) \<Rightarrow> (j', Inl missing_entry)
               | (j', Inr (Some op)) \<Rightarrow>
                   (j', Inr (Some \<lparr>re_result = opt_result (op_result op), re_replayed = True, re_reconciled = True\<rparr>))))"

definition answer_existing ::
  "jenv \<Rightarrow> string \<Rightarrow> operation \<Rightarrow> resolver option \<Rightarrow> journal \<Rightarrow> journal \<times> (thrown + reply)"
where
  "answer_existing env key existing resolve j =
     (if isCompleted existing
      then (j, Inr \<lparr>re_result = opt_result (op_result existing), re_replayed = True, re_reconciled = False\<rparr>)
      else if isKnownFailed existing then (j, Inl (terminalFailure existing))
      else case tryReconcileExistingOperation env key existing resolve j of
        (j', Inl e) \<Rightarrow> (j', Inl e)
      | (j', Inr (Some r)) \<Rightarrow> (j', Inr r)
      | (j', Inr None) \<Rightarrow> (j', Inl outcomeUnknown))"

definition handler_failed :: "jenv \<Rightarrow> string \<Rightarrow> op_context \<Rightarrow> thrown \<Rightarrow> journal \<Rightarrow> journal \<times> (thrown + reply)" where
  "handler_failed env key c e j =
     (if \<not> cx_crossed c \<and> th_code e = Some ''IDEMPOTENCY_KEY_REUSED'' then (j, Inl e)
      else if \<not> cx_crossed c \<and> th_known e
      then case failBeforeApply env key e j of
          (j', Inl _) \<Rightarrow> (j', Inl outcomeUnknown)
        | (j', Inr None) \<Rightarrow> (j', Inl missing_entry)
        | (j', Inr (Some op)) \<Rightarrow> (j', Inl (terminalFailure op))
      else (j, Inl outcomeUnknown))"

definition handler_returned ::
  "jenv \<Rightarrow> string \<Rightarrow> bool \<Rightarrow> op_context \<Rightarrow> jsval \<Rightarrow> journal \<Rightarrow> journal \<times> (thrown + reply)"
where
  "handler_returned env key requiresCheckpoint c v j =
     (if requiresCheckpoint \<and> cx_phase c = Started then (j, Inl outcomeUnknown)
      else case complete_op env key v j of
        (j', Inl _) \<Rightarrow> (j', Inl outcomeUnknown)
      | (j', Inr None) \<Rightarrow> (j', Inl missing_entry)
      | (j', Inr (Some op)) \<Rightarrow>
          (j', Inr \<lparr>re_result = (case op_result op of Some r \<Rightarrow> r | None \<Rightarrow> JUndef),
            re_replayed = False, re_reconciled = False\<rparr>))"

definition initial_context :: op_context where
  "initial_context = \<lparr>cx_phase = Started, cx_crossed = False\<rparr>"

text \<open>The handler's run on a fresh key; a throw of the validation comes before it.\<close>

definition run_fresh ::
  "jenv \<Rightarrow> string \<Rightarrow> handler \<Rightarrow> bool \<Rightarrow> thrown option \<Rightarrow> journal \<Rightarrow> journal \<times> (thrown + reply)"
where
  "run_fresh env key h requiresCheckpoint preApply j =
     (case preApply of
        Some e \<Rightarrow> handler_failed env key initial_context e j
      | None \<Rightarrow>
          (case run_handler env key h initial_context j of
             (j', c, Inl e) \<Rightarrow> handler_failed env key c e j'
           | (j', c, Inr v) \<Rightarrow> handler_returned env key requiresCheckpoint c v j'))"

definition executeJournaledOperation ::
  "jenv \<Rightarrow> string \<Rightarrow> request \<Rightarrow> handler \<Rightarrow> bool \<Rightarrow> resolver option \<Rightarrow> thrown option \<Rightarrow> journal
    \<Rightarrow> journal \<times> (thrown + reply)"
where
  "executeJournaledOperation env key request h requiresCheckpoint resolve preApply j =
     (case start env key request j of
        (j', Inl e) \<Rightarrow> (j', Inl (thrown_of e))
      | (j', Inr adm) \<Rightarrow>
          (case ad_existing adm of
             Some existing \<Rightarrow> answer_existing env key existing resolve j'
           | None \<Rightarrow> run_fresh env key h requiresCheckpoint preApply j'))"

definition reconcileOperationJournalFromProof ::
  "jenv \<Rightarrow> string \<Rightarrow> resolver option \<Rightarrow> journal \<Rightarrow> journal \<times> op_status_view option"
where
  "reconcileOperationJournalFromProof env key resolve j =
     (case get_op key j of
        None \<Rightarrow> (j, None)
      | Some op \<Rightarrow>
          if isCompleted op \<or> isKnownFailed op then (j, op_status_of key j)
          else case resolve of
            None \<Rightarrow> (j, op_status_of key j)
          | Some f \<Rightarrow>
              (case f key op of
                 Inr (Some pr) \<Rightarrow>
                   if tp_result pr = JUndef then (j, op_status_of key j)
                   else let j' = fst (reconcileFromTerminalProof env key (Some pr) j) in (j', op_status_of key j')
               | _ \<Rightarrow> (j, op_status_of key j)))"

section \<open>The run of a handler\<close>

text \<open>While a handler runs, its entry is open and in the phase its context is in.\<close>

definition open_at :: "string \<Rightarrow> op_context \<Rightarrow> journal \<Rightarrow> bool" where
  "open_at key c j \<longleftrightarrow> journal_ok j \<and>
     (\<exists>op. map_of (j_operations j) key = Some op \<and> isVersioned op \<and> op_phase op = Some (cx_phase c)) \<and>
     cx_phase c \<in> {Started, Local_applied, Sync_unknown} \<and> (cx_phase c \<noteq> Started \<longrightarrow> cx_crossed c)"

lemma open_nonterminal:
  "op_phase op = Some p \<Longrightarrow> p \<in> {Started, Local_applied, Sync_unknown} \<Longrightarrow> isVersioned op \<Longrightarrow> \<not> isTerminal op"
  by (auto simp: isTerminal_def isCompleted_def isKnownFailed_def)

lemma requireVersioned_open:
  "open_at key c j \<Longrightarrow> \<exists>op. requireVersioned key j = Inr op \<and> map_of (j_operations j) key = Some op \<and>
     isVersioned op \<and> op_phase op = Some (cx_phase c) \<and> \<not> isTerminal op"
  unfolding open_at_def using open_nonterminal by (fastforce simp: requireVersioned_def)

lemma store_open:
  assumes "journal_ok j" "store env key op j = (j', r)" "\<not> isTerminal op"
  shows "r = Inl write_error \<and> j_operations j' = j_operations j \<or>
    r = Inr (Some op) \<and> map_of (j_operations j') key = Some op"
  using assms(2)
proof (cases rule: store_cases)
  case stored
  have d: "distinct (map fst (AList.update key op (j_operations j)))"
    using assms(1) by (simp add: journal_ok_def distinct_update)
  have "key \<notin> pruned_keys env (AList.update key op (j_operations j))"
    using pruned_terminal [OF d, of key env op] assms(3) by (auto simp: update_conv')
  then have "map_of (j_operations j') key = Some op" using stored by (simp add: map_of_prune update_conv')
  with stored show ?thesis by simp
qed simp

lemma ctx_localApplied_open:
  assumes "open_at key c j" "ctx_localApplied env key v c j = (j', c', r)"
  shows "open_at key c' j' \<and> cx_crossed c'"
proof -
  obtain op where q: "requireVersioned key j = Inr op" "map_of (j_operations j) key = Some op" "isVersioned op"
      "op_phase op = Some (cx_phase c)" using requireVersioned_open [OF assms(1)] by blast
  obtain j1 r1 where l: "localApplied env key v j = (j1, r1)" by fastforce
  have ok: "journal_ok j1" using journal_step_ok [OF js_local, of j env key v] assms(1) l by (simp add: open_at_def)
  have s: "(case r1 of Inl _ \<Rightarrow> map_of (j_operations j1) key = Some op
      | Inr _ \<Rightarrow> \<exists>op'. map_of (j_operations j1) key = Some op' \<and> isVersioned op' \<and> op_phase op' = Some Local_applied)"
  proof (cases "op_phase op = Some Started")
    case True
    let ?op = "op\<lparr>op_status := ''started'', op_phase := Some Local_applied, op_provisionalResult := Some (json_value v),
      op_localAppliedAt := Some (je_clock env (j_writes j)), op_updatedAt := Some (je_clock env (j_writes j))\<rparr>"
    have st: "store env key ?op j = (j1, r1)" using l q True by (simp add: localApplied_def Let_def)
    have "\<not> isTerminal ?op" using q by (intro open_nonterminal) (auto simp: isVersioned_def)
    from store_open [OF _ st this] assms(1) q show ?thesis by (auto simp: open_at_def isVersioned_def)
  next
    case False
    with l q show ?thesis by (auto simp: localApplied_def Let_def split: if_splits)
  qed
  show ?thesis using assms l ok s q
    by (cases r1) (auto simp: ctx_localApplied_def Let_def open_at_def)
qed

lemma ctx_sync_open:
  assumes "open_at key c j" "ctx_sync env key out c j = (j', c', r)"
  shows "open_at key c' j' \<and> (cx_crossed c \<longrightarrow> cx_crossed c')"
proof -
  obtain op where q: "requireVersioned key j = Inr op" "map_of (j_operations j) key = Some op" "isVersioned op"
      "op_phase op = Some (cx_phase c)" using requireVersioned_open [OF assms(1)] by blast
  obtain j1 r1 where l: "syncUnknown env key j = (j1, r1)" by fastforce
  have ok: "journal_ok j1" using journal_step_ok [OF js_sync, of j env key] assms(1) l by (simp add: open_at_def)
  have s: "(case r1 of Inl _ \<Rightarrow> map_of (j_operations j1) key = Some op
      | Inr _ \<Rightarrow> \<exists>op'. map_of (j_operations j1) key = Some op' \<and> isVersioned op' \<and> op_phase op' = Some Sync_unknown)"
  proof (cases "op_phase op = Some Local_applied")
    case True
    let ?op = "op\<lparr>op_status := ''started'', op_phase := Some Sync_unknown,
      op_syncStartedAt := Some (je_clock env (j_writes j)), op_updatedAt := Some (je_clock env (j_writes j))\<rparr>"
    have st: "store env key ?op j = (j1, r1)" using l q True by (simp add: syncUnknown_def Let_def)
    have "\<not> isTerminal ?op" using q by (intro open_nonterminal) (auto simp: isVersioned_def)
    from store_open [OF _ st this] assms(1) q show ?thesis by (auto simp: open_at_def isVersioned_def)
  next
    case False
    with l q show ?thesis by (auto simp: syncUnknown_def Let_def split: if_splits)
  qed
  show ?thesis using assms l ok s q
    by (cases r1) (auto simp: ctx_sync_def Let_def open_at_def)
qed

lemma run_handler_open:
  "open_at key c j \<Longrightarrow> run_handler env key h c j = (j', c', r) \<Longrightarrow>
     open_at key c' j' \<and> (cx_crossed c \<longrightarrow> cx_crossed c')"
proof (induction h arbitrary: c j)
  case (Effects h)
  from Effects.prems have "open_at key (c\<lparr>cx_crossed := True\<rparr>) j" by (simp add: open_at_def)
  from Effects.IH [OF this] Effects.prems(2) show ?case by simp
next
  case (Checkpoint v k)
  obtain j1 c1 r1 where s: "ctx_localApplied env key v c j = (j1, c1, r1)" by (metis prod_cases3)
  from ctx_localApplied_open [OF Checkpoint.prems(1) s] have o: "open_at key c1 j1" "cx_crossed c1" by simp_all
  from Checkpoint.IH [OF rangeI o(1)] Checkpoint.prems(2) s o(2) show ?case by simp
next
  case (Sync out k)
  obtain j1 c1 r1 where s: "ctx_sync env key out c j = (j1, c1, r1)" by (metis prod_cases3)
  from ctx_sync_open [OF Sync.prems(1) s] have o: "open_at key c1 j1" "cx_crossed c \<longrightarrow> cx_crossed c1" by simp_all
  from Sync.IH [OF rangeI o(1)] Sync.prems(2) s o(2) show ?case by simp
qed simp_all

section \<open>The answer and the entry agree\<close>

definition key_reused :: thrown where
  "key_reused = thrown_of (AppError ''IDEMPOTENCY_KEY_REUSED'' 409)"

definition agrees :: "string \<Rightarrow> operations \<Rightarrow> journal \<Rightarrow> thrown + reply \<Rightarrow> bool" where
  "agrees key before j out \<longleftrightarrow>
     (case (out, map_of (j_operations j) key) of
        (Inr r, Some op) \<Rightarrow> isCompleted op \<and> re_result r = opt_result (op_result op)
      | (Inr r, None) \<Rightarrow> False
      | (Inl e, Some op) \<Rightarrow> e = key_reused \<or> \<not> isTerminal op \<or> isKnownFailed op \<and> e = terminalFailure op
      | (Inl e, None) \<Rightarrow> j_operations j = before \<or> terminal_count (j_operations j) = MAX_TERMINAL_ENTRIES)"

lemma agrees_open: "open_at key c j \<Longrightarrow> agrees key ops j (Inl e)"
  using requireVersioned_open [of key c j] by (auto simp: agrees_def)

lemma store_own:
  assumes "journal_ok j" "store env key op j = (j', Inr r)"
  shows "r = map_of (j_operations j') key \<and> (r = Some op \<or> r = None \<and> terminal_count (j_operations j') = MAX_TERMINAL_ENTRIES)"
proof -
  from store_lookup(1,2) [OF assms(2)] have "r = map_of (j_operations j') key" "r = None \<or> r = Some op" by simp_all
  moreover have "terminal_count (j_operations j') = MAX_TERMINAL_ENTRIES" if "map_of (j_operations j') key = None"
  proof (cases rule: store_cases [OF assms(2)])
    case 2
    let ?ops = "AList.update key op (j_operations j)"
    have d: "distinct (map fst ?ops)" using assms(1) by (simp add: journal_ok_def distinct_update)
    from that 2 have "key \<in> pruned_keys env ?ops" by (simp add: map_of_prune update_conv' split: if_splits)
    then have "MAX_TERMINAL_ENTRIES < length (filter (\<lambda>(_, op). isTerminal op) ?ops)"
      by (auto simp: pruned_keys_def Let_def intro: ccontr)
    with prune_terminal_count [OF d] 2 show ?thesis by (simp add: terminal_count_def)
  qed simp
  ultimately show ?thesis by auto
qed

lemma agrees_unchanged:
  "open_at key c j \<Longrightarrow> j_operations j' = j_operations j \<Longrightarrow> agrees key ops j' (Inl e)"
  using requireVersioned_open [of key c j] by (auto simp: agrees_def)

lemma agrees_missing:
  "map_of (j_operations j) key = None \<Longrightarrow> terminal_count (j_operations j) = MAX_TERMINAL_ENTRIES \<Longrightarrow>
     agrees key ops j (Inl e)"
  by (simp add: agrees_def)

lemma handler_failed_agrees:
  assumes o: "open_at key c j" and h: "handler_failed env key c e j = (j', out)"
  shows "agrees key ops j' out"
proof (cases "cx_crossed c \<or> th_code e = Some ''IDEMPOTENCY_KEY_REUSED'' \<or> \<not> th_known e")
  case True
  then show ?thesis using h agrees_open [OF o] by (auto simp: handler_failed_def split: if_splits)
next
  case False
  obtain op where q: "requireVersioned key j = Inr op" "isVersioned op" "op_phase op = Some (cx_phase c)"
    using requireVersioned_open [OF o] by blast
  have ok: "journal_ok j" and ph: "cx_phase c = Started" using o False by (auto simp: open_at_def)
  obtain j1 r where f: "failBeforeApply env key e j = (j1, r)" by fastforce
  let ?op = "op\<lparr>op_status := ''failed'', op_phase := Some Failed, op_knownBeforeApply := Some True,
    op_completedAt := Some (je_clock env (j_writes j)), op_updatedAt := Some (je_clock env (j_writes j)),
    op_error := Some (sanitizeError e)\<rparr>"
  have st: "store env key ?op j = (j1, r)" using f q ph by (simp add: failBeforeApply_def Let_def)
  have kf: "isKnownFailed ?op" using q by (simp add: isKnownFailed_def isVersioned_def)
  show ?thesis
  proof (cases r)
    case (Inl e')
    then have "j_operations j1 = j_operations j" by (cases rule: store_cases [OF st]) simp_all
    with h f False Inl agrees_unchanged [OF o] show ?thesis by (auto simp: handler_failed_def)
  next
    case (Inr r')
    from store_own [OF ok st [unfolded Inr]] h f False Inr kf show ?thesis
      by (auto simp: handler_failed_def agrees_def)
  qed
qed

lemma complete_cases:
  assumes o: "open_at key c j" and f: "complete_op env key v j = (j', r)"
  obtains (refused) e where "r = Inl e" "j_operations j' = j_operations j"
  | (stored) op' where "r = Inr (map_of (j_operations j') key)"
      "map_of (j_operations j') key = Some op' \<or>
       map_of (j_operations j') key = None \<and> terminal_count (j_operations j') = MAX_TERMINAL_ENTRIES"
      "isCompleted op'" "op_result op' = Some (json_value v)"
proof -
  obtain op where q: "requireVersioned key j = Inr op" "isVersioned op" "op_phase op = Some (cx_phase c)"
    using requireVersioned_open [OF o] by blast
  have ok: "journal_ok j" and ph: "cx_phase c \<in> {Started, Local_applied, Sync_unknown}"
    using o by (auto simp: open_at_def)
  show ?thesis
  proof (cases "cx_phase c = Started")
    case True
    with q f refused show ?thesis by (auto simp: complete_op_def Let_def)
  next
    case False
    let ?op = "op\<lparr>op_status := ''completed'', op_phase := Some Completed,
      op_completedAt := Some (je_clock env (j_writes j)), op_updatedAt := Some (je_clock env (j_writes j)),
      op_result := Some (json_value v)\<rparr>"
    have st: "store env key ?op j = (j', r)" using f q ph False by (auto simp: complete_op_def Let_def)
    show ?thesis
    proof (cases r)
      case (Inl e)
      then have "j_operations j' = j_operations j" by (cases rule: store_cases [OF st]) simp_all
      with Inl show ?thesis by (rule refused)
    next
      case (Inr r')
      from store_own [OF ok st [unfolded Inr]] Inr show ?thesis
        by (intro stored [of ?op]) (auto simp: isCompleted_def)
    qed
  qed
qed

lemma completed_not_failed: "isCompleted op \<Longrightarrow> \<not> isKnownFailed op"
  by (simp add: isCompleted_def isKnownFailed_def)

lemma handler_returned_agrees:
  assumes o: "open_at key c j" and h: "handler_returned env key rc c v j = (j', out)"
  shows "agrees key ops j' out \<and>
    (case map_of (j_operations j') key of None \<Rightarrow> True | Some op \<Rightarrow> \<not> isKnownFailed op)"
proof -
  have nk: "\<not> isKnownFailed op" if "map_of (j_operations j) key = Some op" for op
    using requireVersioned_open [OF o] that by (auto simp: isTerminal_def)
  obtain j1 r where f: "complete_op env key v j = (j1, r)" by fastforce
  show ?thesis
  proof (cases "rc \<and> cx_phase c = Started")
    case True
    with h agrees_open [OF o] nk show ?thesis by (auto simp: handler_returned_def split: option.split)
  next
    case False
    show ?thesis
    proof (cases rule: complete_cases [OF o f])
      case (1 e)
      with h f False nk agrees_unchanged [OF o 1(2)] show ?thesis
        by (auto simp: handler_returned_def split: option.split)
    next
      case (2 op')
      with h f False show ?thesis
        by (auto simp: handler_returned_def agrees_def opt_result_def completed_not_failed)
    qed
  qed
qed

lemma run_fresh_agrees:
  assumes o: "open_at key initial_context j" and r: "run_fresh env key h rc pre j = (j', out)"
  shows "agrees key ops j' out"
proof (cases pre)
  case (Some e)
  with r handler_failed_agrees [OF o] show ?thesis by (simp add: run_fresh_def)
next
  case None
  obtain j1 c1 r1 where h: "run_handler env key h initial_context j = (j1, c1, r1)" by (metis prod_cases3)
  from run_handler_open [OF o h] have "open_at key c1 j1" by simp
  with r None h show ?thesis
    by (cases r1) (auto simp: run_fresh_def dest: handler_failed_agrees handler_returned_agrees)
qed

text \<open>An entry answers a request: its fingerprint is the digest of that request.\<close>

definition entry_for :: "jenv \<Rightarrow> request \<Rightarrow> operation \<Rightarrow> bool" where
  "entry_for env request op \<longleftrightarrow> op_fingerprint op =
     (if op_fingerprintVersion op = Some 2 then je_digest env (normalizedRequest request) else je_legacy_digest env request)"

lemma entry_for_identity: "keeps_identity op op' \<Longrightarrow> entry_for env request op' = entry_for env request op"
  by (simp add: keeps_identity_def entry_for_def)

definition entry_at :: "jenv \<Rightarrow> request \<Rightarrow> string \<Rightarrow> journal \<Rightarrow> bool" where
  "entry_at env request key j \<longleftrightarrow>
     (case map_of (j_operations j) key of None \<Rightarrow> False | Some op \<Rightarrow> entry_for env request op)"

lemma entry_at_step:
  assumes "journal_ok j" "journal_step e j j'" "entry_at env request key j" "map_of (j_operations j') key \<noteq> None"
  shows "entry_at env request key j'"
  using entry_step [OF assms(1,2), of key] assms(3,4) entry_for_identity
  by (auto simp: entry_at_def split: option.splits)

lemma ctx_steps:
  "ctx_localApplied env key v c j = (j', c', r) \<Longrightarrow> journal_step env j j'"
  "ctx_sync env key out c j = (j', c', r) \<Longrightarrow> journal_step env j j'"
  using js_local [of env j key v] js_sync [of env j key]
  by (auto simp: ctx_localApplied_def ctx_sync_def Let_def split: prod.splits sum.splits)

lemma open_at_entry: "open_at key c j \<Longrightarrow> journal_ok j \<and> map_of (j_operations j) key \<noteq> None"
  by (auto simp: open_at_def)

lemma run_handler_entry:
  "open_at key c j \<Longrightarrow> run_handler env key h c j = (j', c', r) \<Longrightarrow> entry_at e request key j \<Longrightarrow> entry_at e request key j'"
proof (induction h arbitrary: c j)
  case (Effects h)
  from Effects.prems have "open_at key (c\<lparr>cx_crossed := True\<rparr>) j" by (simp add: open_at_def)
  from Effects.IH [OF this] Effects.prems show ?case by simp
next
  case (Checkpoint v k)
  obtain j1 c1 r1 where s: "ctx_localApplied env key v c j = (j1, c1, r1)" by (metis prod_cases3)
  from ctx_localApplied_open [OF Checkpoint.prems(1) s] have o: "open_at key c1 j1" by simp
  have "entry_at e request key j1"
    using entry_at_step [OF _ ctx_steps(1) [OF s]] Checkpoint.prems open_at_entry o by blast
  from Checkpoint.IH [OF rangeI o _ this] Checkpoint.prems(2) s show ?case by simp
next
  case (Sync out k)
  obtain j1 c1 r1 where s: "ctx_sync env key out c j = (j1, c1, r1)" by (metis prod_cases3)
  from ctx_sync_open [OF Sync.prems(1) s] have o: "open_at key c1 j1" by simp
  have "entry_at e request key j1"
    using entry_at_step [OF _ ctx_steps(2) [OF s]] Sync.prems open_at_entry o by blast
  from Sync.IH [OF rangeI o _ this] Sync.prems(2) s show ?case by simp
qed simp_all

text \<open>What \<open>start\<close> leaves behind.\<close>

lemma start_cases:
  assumes "journal_ok j" "start env key request j = (j', r)"
  obtains (refused) e where "r = Inl e" "j_operations j' = j_operations j"
      "map_of (j_operations j) key = None \<or> \<not> key_re key \<or> e = AppError ''IDEMPOTENCY_KEY_REUSED'' 409"
  | (existing) op fp where "r = Inr \<lparr>ad_existing = Some op, ad_fingerprint = fp\<rparr>" "j' = j"
      "map_of (j_operations j) key = Some op" "key_re key" "entry_for env request op"
  | (fresh) fp where "r = Inr \<lparr>ad_existing = None, ad_fingerprint = fp\<rparr>" "open_at key initial_context j'"
      "map_of (j_operations j) key = None" "key_re key" "entry_at env request key j'"
proof (cases "key_re key \<and> map_of (j_operations j) key = None \<and>
    \<not> j_maxNonterminal j \<le> countNonterminalOperations (j_operations j)")
  case False
  with assms(2) refused existing show ?thesis
    by (auto simp: start_def Let_def entry_for_def split: if_splits option.splits)
next
  case True
  let ?op = "fresh_operation env key request (je_clock env (j_writes j))"
  obtain j1 r1 where st: "store env key ?op j = (j1, r1)" by fastforce
  have nt: "\<not> isTerminal ?op" "isVersioned ?op" "op_phase ?op = Some Started"
    by (simp_all add: fresh_operation_def isTerminal_def isCompleted_def isKnownFailed_def isVersioned_def)
  have ok: "journal_ok j1" using store_ok [OF assms(1) st] True by simp
  from store_open [OF assms(1) st nt(1)] show ?thesis
  proof (elim disjE conjE)
    assume "r1 = Inl write_error" "j_operations j1 = j_operations j"
    with True st assms(2) show ?thesis by (intro refused) (auto simp: start_def Let_def)
  next
    assume m: "r1 = Inr (Some ?op)" "map_of (j_operations j1) key = Some ?op"
    have "open_at key initial_context j1" using ok m nt by (simp add: open_at_def initial_context_def)
    moreover have "entry_at env request key j1"
      using m by (simp add: entry_at_def entry_for_def fresh_operation_def)
    ultimately show ?thesis using True st m assms(2)
      by (intro fresh) (auto simp: start_def Let_def)
  qed
qed

lemma reconcile_cases:
  assumes "journal_ok j" "map_of (j_operations j) key = Some op" "\<not> isTerminal op"
    "reconcileFromTerminalProof env key (Some pr) j = (j', r)"
  obtains (refused) e where "r = Inl e" "j_operations j' = j_operations j"
  | (stored) op' where "r = Inr (map_of (j_operations j') key)"
      "map_of (j_operations j') key = Some op' \<or>
       map_of (j_operations j') key = None \<and> terminal_count (j_operations j') = MAX_TERMINAL_ENTRIES"
      "isCompleted op'" "op_result op' = Some (json_value (tp_result pr))"
      "tp_fingerprint pr = op_fingerprint op" "tp_fingerprintVersion pr = op_fingerprintVersion op"
      "keeps_identity op op'"
proof (cases "isVersioned op \<and> tp_result pr \<noteq> JUndef \<and> tp_fingerprint pr \<noteq> [] \<and> tp_fingerprint pr = op_fingerprint op \<and>
    tp_fingerprintVersion pr = op_fingerprintVersion op \<and>
    op_phase op \<in> {Some Started, Some Local_applied, Some Sync_unknown}")
  case False
  have "(case reconcileFromTerminalProof env key (Some pr) j of (j1, r1) \<Rightarrow> j1 = j \<and> (\<exists>e. r1 = Inl e))"
    using False assms(2,3)
    by (auto simp: reconcileFromTerminalProof_def requireVersioned_def Let_def isTerminal_def)
  with assms(4) refused show ?thesis by auto
next
  case True
  let ?now = "je_clock env (j_writes j)" and ?d = "json_value (tp_result pr)"
  let ?op = "op\<lparr>op_status := ''completed'', op_phase := Some Completed,
     op_completedAt := Some ?now, op_updatedAt := Some ?now, op_result := Some ?d,
     op_provisionalResult := (case op_provisionalResult op of None \<Rightarrow> Some ?d | Some v \<Rightarrow> Some v),
     op_localAppliedAt := (case op_localAppliedAt op of Some (c # cs) \<Rightarrow> Some (c # cs) | _ \<Rightarrow> Some ?now)\<rparr>"
  have "requireVersioned key j = Inr op" using assms(2) True by (simp add: requireVersioned_def)
  moreover have "op_fingerprint op \<noteq> []" using True by auto
  ultimately have st: "store env key ?op j = (j', r)"
    using True assms(3,4) by (simp add: reconcileFromTerminalProof_def Let_def isTerminal_def)
  show ?thesis
  proof (cases r)
    case (Inl e)
    then have "j_operations j' = j_operations j" by (cases rule: store_cases [OF st]) simp_all
    with Inl show ?thesis by (rule refused)
  next
    case (Inr r')
    from store_own [OF assms(1) st [unfolded Inr]] Inr True show ?thesis
      by (intro stored [of ?op]) (auto simp: isCompleted_def keeps_identity_def)
  qed
qed

lemma answer_existing_agrees:
  assumes "journal_ok j" "map_of (j_operations j) key = Some op" "answer_existing env key op resolve j = (j', out)"
  shows "agrees key ops j' out"
proof (cases "isTerminal op")
  case True
  with assms show ?thesis by (auto simp: answer_existing_def isTerminal_def agrees_def split: if_splits)
next
  case nt: False
  then have q: "\<not> isCompleted op" "\<not> isKnownFailed op" by (simp_all add: isTerminal_def)
  have quiet: "agrees key ops j1 (Inl e)" if "j_operations j1 = j_operations j" for j1 e
    using that assms(2) nt by (simp add: agrees_def)
  show ?thesis
  proof (cases "\<exists>f pr. resolve = Some f \<and> f key op = Inr (Some pr) \<and> tp_result pr \<noteq> JUndef")
    case False
    then have "tryReconcileExistingOperation env key op resolve j = (j, Inr None)"
      by (auto simp: tryReconcileExistingOperation_def split: option.splits sum.splits)
    with assms(3) q quiet show ?thesis by (auto simp: answer_existing_def)
  next
    case True
    then obtain f pr where f: "resolve = Some f" "f key op = Inr (Some pr)" "tp_result pr \<noteq> JUndef" by blast
    obtain j1 r where r: "reconcileFromTerminalProof env key (Some pr) j = (j1, r)" by fastforce
    show ?thesis
    proof (cases rule: reconcile_cases [OF assms(1,2) nt r])
      case (1 e)
      with assms(3) q f r quiet show ?thesis by (auto simp: answer_existing_def tryReconcileExistingOperation_def)
    next
      case (2 op')
      with assms(3) q f r show ?thesis
        by (auto simp: answer_existing_def tryReconcileExistingOperation_def agrees_def)
    qed
  qed
qed

section \<open>Properties\<close>

text \<open>The agreement holds after every call of the executor.\<close>

lemma answer_agrees:
  assumes "journal_ok j" "executeJournaledOperation env key request h rc resolve pre j = (j', out)"
  shows "agrees key (j_operations j) j' out"
proof -
  obtain j1 r where s: "start env key request j = (j1, r)" by fastforce
  show ?thesis
  proof (cases rule: start_cases [OF assms(1) s])
    case (1 e)
    have "list_all (\<lambda>(key, op). key_re key \<and> (validVersionedOperation key op \<or> validLegacyOperation key op)) (j_operations j)"
      using assms(1) by (simp add: journal_ok_def validState_def)
    then have "map_of (j_operations j) key = None" if "\<not> key_re key"
      using that by (auto simp: list_all_iff map_of_eq_None_iff)
    with 1 s assms(2) show ?thesis
      by (auto simp: executeJournaledOperation_def agrees_def key_reused_def split: option.splits)
  next
    case (2 op fp)
    with s assms answer_existing_agrees [OF assms(1) 2(3)] show ?thesis
      by (auto simp: executeJournaledOperation_def)
  next
    case (3 fp)
    with s assms run_fresh_agrees [OF 3(2)] show ?thesis
      by (auto simp: executeJournaledOperation_def)
  qed
qed


lemma start_existing:
  assumes "key_re key" "map_of (j_operations j) key = Some op" "entry_for env request op"
  shows "start env key request j = (j, Inr \<lparr>ad_existing = Some op, ad_fingerprint = op_fingerprint op\<rparr>)"
  using assms by (simp add: start_def entry_for_def Let_def)

text \<open>A write by the executor itself is a step of the journal.\<close>

lemma handler_returned_steps:
  assumes "handler_returned env key rc c v j = (j', out)"
  shows "j' = j \<or> journal_step env j j'"
proof -
  obtain j1 r where r: "complete_op env key v j = (j1, r)" by fastforce
  then have "journal_step env j j1" using js_complete [of env j key v] by simp
  with assms r show ?thesis by (auto simp: handler_returned_def split: if_splits sum.splits option.splits)
qed

lemma answer_existing_steps:
  assumes "answer_existing env key op resolve j = (j', out)"
  shows "j' = j \<or> journal_step env j j'"
proof -
  have s: "journal_step env j j1" if "reconcileFromTerminalProof env key pr j = (j1, r)" for j1 r pr
    using js_reconcile [of env j key pr] that by simp
  from assms show ?thesis
    by (auto simp: answer_existing_def tryReconcileExistingOperation_def dest: s
      split: if_splits prod.splits sum.splits option.splits)
qed

lemma execute_entry:
  assumes ok: "journal_ok j" and e: "executeJournaledOperation env key request h rc resolve pre j = (j', Inr r)"
  shows "key_re key \<and> entry_at env request key j'"
proof -
  have m: "map_of (j_operations j') key \<noteq> None"
    using answer_agrees [OF ok e] by (auto simp: agrees_def split: option.splits)
  obtain j1 r1 where s: "start env key request j = (j1, r1)" by fastforce
  show ?thesis
  proof (cases rule: start_cases [OF ok s])
    case (1 er)
    with s e show ?thesis by (simp add: executeJournaledOperation_def)
  next
    case (2 op fp)
    with s e have a: "answer_existing env key op resolve j = (j', Inr r)"
      by (simp add: executeJournaledOperation_def)
    have "entry_at env request key j" using 2 by (simp add: entry_at_def)
    with answer_existing_steps [OF a] entry_at_step [OF ok] m 2 show ?thesis by blast
  next
    case (3 fp)
    with s e have f: "run_fresh env key h rc pre j1 = (j', Inr r)" by (simp add: executeJournaledOperation_def)
    then have "pre = None" by (cases pre) (auto simp: run_fresh_def handler_failed_def split: if_splits prod.splits sum.splits option.splits)
    obtain j2 c2 r2 where h: "run_handler env key h initial_context j1 = (j2, c2, r2)" by (metis prod_cases3)
    note o = run_handler_open [OF 3(2) h, THEN conjunct1]
    have en: "entry_at env request key j2" by (rule run_handler_entry [OF 3(2) h 3(5)])
    from f h \<open>pre = None\<close> obtain v where "handler_returned env key rc c2 v j2 = (j', Inr r)"
      by (cases r2) (auto simp: run_fresh_def handler_failed_def split: if_splits prod.splits sum.splits option.splits)
    from handler_returned_steps [OF this] show ?thesis
      using entry_at_step [OF _ _ en] open_at_entry [OF o] en m 3(4) by blast
  qed
qed

text \<open>
  A request that was answered with a result is answered with the same result when it is
  sent again, whatever handler, validation or resolver the second request brings: nothing runs and
  nothing is written.
\<close>

theorem retry_replays_result:
  assumes "journal_ok j" "executeJournaledOperation env key request h rc resolve pre j = (j', Inr r)"
    "je_digest env' = je_digest env" "je_legacy_digest env' = je_legacy_digest env"
  shows "executeJournaledOperation env' key request h' rc' resolve' pre' j' =
    (j', Inr \<lparr>re_result = re_result r, re_replayed = True, re_reconciled = False\<rparr>)"
proof -
  from answer_agrees [OF assms(1,2)] obtain op where
    op: "map_of (j_operations j') key = Some op" "isCompleted op" "re_result r = opt_result (op_result op)"
    by (auto simp: agrees_def split: option.splits)
  from execute_entry [OF assms(1,2)] op assms(3,4) have k: "key_re key" "entry_for env' request op"
    by (simp_all add: entry_at_def entry_for_def)
  from start_existing [OF k(1) op(1) k(2)] op(2,3) show ?thesis
    by (simp add: executeJournaledOperation_def answer_existing_def)
qed

text \<open>
  C38: A status read reports an operation as completed that was not only on a proof whose
  fingerprint and version are those of the entry, and then with the result of the proof.
\<close>

theorem reconciled_only_by_matching_proof:
  assumes "journal_ok j" "map_of (j_operations j) key = Some op" "\<not> isCompleted op"
    "reconcileOperationJournalFromProof env key resolve j = (j', Some v)" "sv_outcome v = ''completed''"
  shows "\<exists>f pr. resolve = Some f \<and> f key op = Inr (Some pr) \<and> tp_fingerprint pr = op_fingerprint op \<and>
    tp_fingerprintVersion pr = op_fingerprintVersion op \<and> sv_result v = Some (json_value (tp_result pr))"
proof -
  have g: "get_op key j = Some op" using assms(4) assms(2)
    by (cases "key_re key") (auto simp: get_op_def reconcileOperationJournalFromProof_def)
  have no: "sv_outcome w \<noteq> ''completed''" if "op_status_of key j1 = Some w" "get_op key j1 = Some op" for j1 w
    using that assms(3) by (auto simp: op_status_of_def Let_def split: if_splits)
  show ?thesis
  proof (cases "\<not> isKnownFailed op \<and> (\<exists>f pr. resolve = Some f \<and> f key op = Inr (Some pr) \<and> tp_result pr \<noteq> JUndef)")
    case False
    then have "j' = j \<and> op_status_of key j = Some v" using assms(4) g
      by (auto simp: reconcileOperationJournalFromProof_def split: if_splits option.splits sum.splits)
    with no g assms(5) show ?thesis by blast
  next
    case True
    then obtain f pr where f: "resolve = Some f" "f key op = Inr (Some pr)" "tp_result pr \<noteq> JUndef" by blast
    obtain j1 r where r: "reconcileFromTerminalProof env key (Some pr) j = (j1, r)" by fastforce
    have j1: "j' = j1" "op_status_of key j1 = Some v" using assms(3,4) g f r True
      by (auto simp: reconcileOperationJournalFromProof_def Let_def)
    have nt: "\<not> isTerminal op" using assms(3) True by (simp add: isTerminal_def)
    show ?thesis
    proof (cases rule: reconcile_cases [OF assms(1,2) nt r])
      case (1 e)
      then have "get_op key j1 = Some op" using g by (simp add: get_op_def split: if_splits)
      with no j1 assms(5) show ?thesis by blast
    next
      case (2 op')
      with j1 f show ?thesis by (auto simp: op_status_of_def get_op_def Let_def split: if_splits)
    qed
  qed
qed

text \<open>
  C37: A mutation that runs through \<open>applyLocal\<close> is never recorded as failed before it was
  applied, whatever the handler does around it and afterwards.
\<close>

theorem applied_never_recorded_failed:
  assumes "journal_ok j" "map_of (j_operations j) key = None"
    "executeJournaledOperation env key request (applyLocal mutation k) rc resolve None j = (j', out)"
  shows "case map_of (j_operations j') key of None \<Rightarrow> True | Some op \<Rightarrow> \<not> isKnownFailed op"
proof -
  obtain j1 r where s: "start env key request j = (j1, r)" by fastforce
  show ?thesis
  proof (cases rule: start_cases [OF assms(1) s])
    case (1 e)
    with s assms show ?thesis by (simp add: executeJournaledOperation_def)
  next
    case (3 fp)
    obtain j2 c2 r2 where h: "run_handler env key (applyLocal mutation k) initial_context j1 = (j2, c2, r2)"
      by (metis prod_cases3)
    have "open_at key (initial_context\<lparr>cx_crossed := True\<rparr>) j1" using 3(2) by (simp add: open_at_def)
    from run_handler_open [OF this] h have o: "open_at key c2 j2" "cx_crossed c2" by (auto simp: applyLocal_def)
    show ?thesis
    proof (cases r2)
      case (Inl e)
      with 3 s h o assms(3) requireVersioned_open [OF o(1)] show ?thesis
        by (auto simp: executeJournaledOperation_def run_fresh_def handler_failed_def isTerminal_def)
    next
      case (Inr v)
      with 3 s h assms(3) have hr: "handler_returned env key rc c2 v j2 = (j', out)"
        by (simp add: executeJournaledOperation_def run_fresh_def)
      from handler_returned_agrees [OF o(1) hr] show ?thesis by simp
    qed
  qed (use assms in simp)
qed

section \<open>Witnesses\<close>

definition demo_handler :: handler where
  "demo_handler = applyLocal (Inr (JBool True)) (\<lambda>r. case r of Inr v \<Rightarrow> Return v | Inl e \<Rightarrow> Throw e)"

definition demo_completed_op :: operation where
  "demo_completed_op = demo_applied_op\<lparr>op_status := ''completed'', op_phase := Some Completed,
     op_completedAt := Some ''2026-01-01'', op_result := Some (JBool True)\<rparr>"

definition demo_completed :: journal where
  "demo_completed = demo_applied\<lparr>j_operations := [(demo_key, demo_completed_op)], j_writes := 3\<rparr>"

lemma demo_execute:
  "executeJournaledOperation demo_env demo_key demo_request demo_handler True None None empty_journal =
     (demo_completed, Inr \<lparr>re_result = JBool True, re_replayed = False, re_reconciled = False\<rparr>)"
  by (simp add: executeJournaledOperation_def demo_start run_fresh_def demo_handler_def applyLocal_def
    ctx_localApplied_def demo_apply initial_context_def handler_returned_def demo_complete
    demo_completed_def demo_completed_op_def Let_def)


lemma retry_replays_result_witness:
  "executeJournaledOperation demo_env demo_key demo_request (Throw outcomeUnknown) True None (Some key_reused) demo_completed =
     (demo_completed, Inr \<lparr>re_result = JBool True, re_replayed = True, re_reconciled = False\<rparr>)"
  using retry_replays_result [OF empty_journal_ok demo_execute, of demo_env] by simp

lemma applied_never_recorded_failed_witness:
  "case map_of (j_operations demo_completed) demo_key of None \<Rightarrow> True | Some op \<Rightarrow> \<not> isKnownFailed op"
proof (rule applied_never_recorded_failed [OF empty_journal_ok])
  show "executeJournaledOperation demo_env demo_key demo_request
     (applyLocal (Inr (JBool True)) (\<lambda>r. case r of Inr v \<Rightarrow> Return v | Inl e \<Rightarrow> Throw e)) True None None empty_journal =
     (demo_completed, Inr \<lparr>re_result = JBool True, re_replayed = False, re_reconciled = False\<rparr>)"
    using demo_execute unfolding demo_handler_def .
qed (simp add: empty_journal_def)

definition demo_resolver :: resolver where
  "demo_resolver key op = Inr (Some \<lparr>tp_result = JBool True, tp_fingerprint = demo_digest, tp_fingerprintVersion = Some 2\<rparr>)"

lemma reconciled_only_by_matching_proof_witness:
  "\<exists>v. snd (reconcileOperationJournalFromProof demo_env demo_key (Some demo_resolver) demo_started) = Some v \<and>
    sv_outcome v = ''completed'' \<and> sv_result v = Some (JBool True)"
proof -
  have nc: "\<not> isCompleted demo_op" "\<not> isKnownFailed demo_op"
    by (simp_all add: demo_op_def fresh_operation_def isCompleted_def isKnownFailed_def)
  have m: "map_of (j_operations demo_started) demo_key = Some demo_op" by (simp add: demo_started_def)
  have "\<exists>v. snd (reconcileOperationJournalFromProof demo_env demo_key (Some demo_resolver) demo_started) = Some v \<and>
    sv_outcome v = ''completed''"
    by (simp add: reconcileOperationJournalFromProof_def get_op_def m nc demo_resolver_def)
      (simp add: reconcileFromTerminalProof_def run_defs demo_started_def demo_op_def fresh_operation_def
        op_status_of_def get_op_def)
  then obtain v where v: "reconcileOperationJournalFromProof demo_env demo_key (Some demo_resolver) demo_started =
      (fst (reconcileOperationJournalFromProof demo_env demo_key (Some demo_resolver) demo_started), Some v)"
    "sv_outcome v = ''completed''" by (metis prod.collapse)
  from reconciled_only_by_matching_proof [OF demo_started_ok m nc(1) v] have "sv_result v = Some (JBool True)"
    by (auto simp: demo_resolver_def)
  moreover have "snd (reconcileOperationJournalFromProof demo_env demo_key (Some demo_resolver) demo_started) = Some v"
    by (subst v(1)) simp
  ultimately show ?thesis using v(2) by blast
qed

end
