(* ===== verification/RequestOperation.thy ===== *)
theory RequestOperation
  imports OperationJournal
begin

text \<open>
  The app's side of idempotent mutations: \<open>finance-app/src/lib/request-operation-state.js\<close>.

  A persistent snapshot holds one record per request digest; the machine keeps the requests in
  flight and the status queries in flight. Everything between two awaits of the code is one step.
  The store, the clock, the digest and the key factory are fields of an environment, numbered by
  the reads and writes of the store, so that each of them may fail at any point.
\<close>

section \<open>Errors and their classification\<close>

text \<open>
  What a rejected call carries: \<open>ro_status\<close> is the integer that \<open>Number(error.status)\<close> gives, if it
  gives one; a member that is not a string is absent.
\<close>

record raw_error =
  ro_status :: "int option"
  ro_code :: "string option"
  ro_message :: "string option"
  ro_error :: "string option"
  ro_reuse :: bool

record op_error =
  oe_message :: string
  oe_status :: int
  oe_code :: string
  oe_reuse :: bool

datatype failure = Op_error op_error | Type_error

definition operationError :: "string \<Rightarrow> int \<Rightarrow> string \<Rightarrow> failure" where
  "operationError message status code =
     Op_error \<lparr>oe_message = message, oe_status = status, oe_code = code, oe_reuse = False\<rparr>"

definition outcomeUnknownError :: failure where
  "outcomeUnknownError = operationError
     ''Request outcome is unknown. Check the operation before retrying.'' 409 ''OUTCOME_UNKNOWN''"

definition storageError :: failure where
  "storageError = operationError
     ''Could not safely update pending finance operation state. No automatic retry was sent.'' 500
     ''LOCAL_OPERATION_STORAGE_ERROR''"

definition error_code_re :: "string \<Rightarrow> bool" where
  "error_code_re s \<longleftrightarrow> 1 \<le> length s \<and> length s \<le> 64 \<and> list_all code_char s"

definition str_of :: "string option \<Rightarrow> string" where
  "str_of s = (case s of Some t \<Rightarrow> t | None \<Rightarrow> [])"

record terminal_error =
  te_status :: int
  te_code :: string
  te_message :: string

definition normalizeTerminalError :: "raw_error option \<Rightarrow> terminal_error option" where
  "normalizeTerminalError v =
     (case v of None \<Rightarrow> None
      | Some e \<Rightarrow>
          (let code = str_of (ro_code e); message = str_of (ro_message e) in
           case ro_status e of None \<Rightarrow> None
           | Some status \<Rightarrow>
               if status < 400 \<or> 499 < status \<or> \<not> error_code_re code \<or> message = [] \<or>
                  240 < length message \<or> list_ex control_char message
               then None
               else Some \<lparr>te_status = status, te_code = code, te_message = message\<rparr>))"

definition isRetryableAdmissionError :: "raw_error \<Rightarrow> bool" where
  "isRetryableAdmissionError e \<longleftrightarrow>
     ro_reuse e \<or> ro_status e = Some 429 \<or> ro_status e = Some 503 \<or>
     ro_code e = Some ''ADMISSION_OVERLOADED'' \<or> ro_code e = Some ''ADMISSION_UNAVAILABLE''"

text \<open>What a dispatch resolves to, and what an error it throws is classified as.\<close>

record outcome =
  oc_kind :: string
  oc_result :: "jsval option"
  oc_error :: "raw_error option"

definition classified_error :: "int option \<Rightarrow> string \<Rightarrow> string \<Rightarrow> raw_error" where
  "classified_error status code message =
     \<lparr>ro_status = status, ro_code = Some code, ro_message = Some message, ro_error = None, ro_reuse = False\<rparr>"

definition classifyDirectMutationError :: "raw_error \<Rightarrow> outcome" where
  "classifyDirectMutationError e =
     (let code = str_of (ro_code e);
          message = (case ro_error e of Some m \<Rightarrow> m
            | None \<Rightarrow> (case ro_message e of Some m \<Rightarrow> m | None \<Rightarrow> ''Operation failed''))
      in if isRetryableAdmissionError e
         then \<lparr>oc_kind = ''retry_same_key'', oc_result = None,
           oc_error = Some (classified_error (Some (case ro_status e of Some s \<Rightarrow> s | None \<Rightarrow> 429))
             (if code = [] then ''ADMISSION_OVERLOADED'' else code) message)\<rparr>
         else if (case ro_status e of None \<Rightarrow> False | Some s \<Rightarrow> 400 \<le> s \<and> s \<le> 499 \<and> s \<noteq> 408) \<and>
                 code \<notin> set [[], ''OUTCOME_UNKNOWN'', ''OPERATION_NOT_FOUND'', ''MALFORMED_RESPONSE'']
         then \<lparr>oc_kind = ''failed'', oc_result = None, oc_error = Some (classified_error (ro_status e) code message)\<rparr>
         else \<lparr>oc_kind = ''outcome_unknown'', oc_result = None, oc_error = None\<rparr>)"

record diagnostic =
  dg_code :: string
  dg_status :: int
  dg_timestamp :: int

text \<open>The clock gives an integer, or no finite number.\<close>

definition createRedactedReconciliationDiagnostic :: "raw_error \<Rightarrow> int option \<Rightarrow> diagnostic" where
  "createRedactedReconciliationDiagnostic e now =
     \<lparr>dg_code = (if error_code_re (str_of (ro_code e)) then str_of (ro_code e) else ''RECONCILIATION_FAILED''),
      dg_status = (case ro_status e of Some s \<Rightarrow> if 100 \<le> s \<and> s \<le> 599 then s else 0 | None \<Rightarrow> 0),
      dg_timestamp = (case now of Some t \<Rightarrow> t | None \<Rightarrow> 0)\<rparr>"

text \<open>\<open>get\<close> of the diagnostic store, on the members its text has.\<close>

definition read_diagnostic :: "raw_error \<times> int option \<Rightarrow> diagnostic option" where
  "read_diagnostic = (\<lambda>(e, t).
     (let d = createRedactedReconciliationDiagnostic e t in
      if Some (dg_code d) = ro_code e \<and> Some (dg_status d) = ro_status e \<and> Some (dg_timestamp d) = t
      then Some d else None))"

section \<open>Records and snapshots\<close>

datatype op_state = Prepared | Dispatching | Outcome_unknown

record op_record =
  or_requestDigest :: string
  or_scopeDigest :: string
  or_idempotencyKey :: string
  or_state :: op_state
  or_createdAt :: int
  or_updatedAt :: int
  or_dispatchStartedAt :: "int option"
  or_outcomeUnknownAt :: "int option"

record snapshot =
  sn_generation :: int
  sn_operations :: "(string \<times> op_record) list"

definition validateRecord :: "op_record \<Rightarrow> string \<Rightarrow> bool" where
  "validateRecord r digest \<longleftrightarrow>
     or_requestDigest r = digest \<and> hash_re (or_requestDigest r) \<and> hash_re (or_scopeDigest r) \<and>
     key_re (or_idempotencyKey r) \<and> or_createdAt r \<le> or_updatedAt r \<and>
     (case or_state r of
        Prepared \<Rightarrow> or_dispatchStartedAt r = None \<and> or_outcomeUnknownAt r = None
      | Dispatching \<Rightarrow>
          (case or_dispatchStartedAt r of None \<Rightarrow> False | Some t \<Rightarrow> or_createdAt r \<le> t) \<and>
          or_outcomeUnknownAt r = None
      | Outcome_unknown \<Rightarrow>
          (case or_dispatchStartedAt r of None \<Rightarrow> False
           | Some t \<Rightarrow> or_createdAt r \<le> t \<and>
               (case or_outcomeUnknownAt r of None \<Rightarrow> False | Some u \<Rightarrow> t \<le> u)))"

definition empty_snapshot :: snapshot where
  "empty_snapshot = \<lparr>sn_generation = 0, sn_operations = []\<rparr>"

definition snapshot_keys :: "snapshot \<Rightarrow> string list" where
  "snapshot_keys s = map (or_idempotencyKey \<circ> snd) (sn_operations s)"

definition validateSnapshot :: "snapshot option \<Rightarrow> snapshot option" where
  "validateSnapshot v =
     (case v of None \<Rightarrow> Some empty_snapshot
      | Some s \<Rightarrow>
          if 0 \<le> sn_generation s \<and> sn_generation s \<le> max_safe \<and> list_all (\<lambda>(d, r). validateRecord r d) (sn_operations s) \<and>
             distinct (snapshot_keys s)
          then Some s else None)"

section \<open>The machine\<close>

record op_input =
  in_scopeDigest :: string
  in_method :: string
  in_pathname :: string
  in_query :: "(string \<times> string) list"
  in_body :: jsval

type_synonym identity = "string \<times> string \<times> string \<times> (string \<times> string) list \<times> jsval"

record op_env =
  ev_hash :: "identity \<Rightarrow> string"
  ev_keyFactory :: "string \<Rightarrow> string \<Rightarrow> int \<Rightarrow> int \<Rightarrow> string option"
  ev_clock :: "nat \<Rightarrow> int option"
  ev_readFault :: "nat \<Rightarrow> bool"
  ev_writeFault :: "nat \<Rightarrow> bool"

datatype waiter = Exec | Recon nat op_record

record summary =
  su_checked :: nat
  su_completed :: nat
  su_failed :: nat
  su_unresolved :: nat

text \<open>What the outside sees: dispatches, settled outcomes, and the answers to callers.\<close>

datatype event =
    Sent string string
  | Known string string
  | Busy string string
  | Dropped string
  | Returned string jsval
  | Rejected string failure
  | Reconciled summary
  | Reconcile_failed failure

datatype wait = Await_dispatch | Await_status

record machine =
  mc_store :: "snapshot option"
  mc_tick :: nat
  mc_inFlight :: "(string \<times> (wait \<times> op_record)) list"
  mc_statusInFlight :: "(string \<times> (string \<times> waiter list)) list"
  mc_loops :: "(nat \<times> (op_record list \<times> summary)) list"
  mc_nextLoop :: nat
  mc_log :: "event list"

definition new_machine :: machine where
  "new_machine = \<lparr>mc_store = None, mc_tick = 0, mc_inFlight = [], mc_statusInFlight = [], mc_loops = [],
     mc_nextLoop = 0, mc_log = []\<rparr>"

definition emit :: "event \<Rightarrow> machine \<Rightarrow> machine" where
  "emit e m = m\<lparr>mc_log := e # mc_log m\<rparr>"

definition assertDigest :: "string \<Rightarrow> failure + unit" where
  "assertDigest s = (if hash_re s then Inr () else Inl Type_error)"

definition deriveRequestDigest :: "op_env \<Rightarrow> op_input \<Rightarrow> failure + string" where
  "deriveRequestDigest env i =
     ebind (assertDigest (in_scopeDigest i)) (\<lambda>_.
       let method = js_upper (in_method i) in
       if method = [] then Inl Type_error
       else let digest = ev_hash env (in_scopeDigest i, method,
              (if in_pathname i = [] then ''/'' else in_pathname i), queryPairs (in_query i),
              sort_json (json_value (in_body i)))
         in ebind (assertDigest digest) (\<lambda>_. Inr digest))"

definition readSnapshot :: "op_env \<Rightarrow> machine \<Rightarrow> machine \<times> (failure + snapshot)" where
  "readSnapshot env m =
     (let n = mc_tick m; m' = m\<lparr>mc_tick := Suc n\<rparr> in
      if ev_readFault env n then (m', Inl storageError)
      else case validateSnapshot (mc_store m) of None \<Rightarrow> (m', Inl storageError) | Some s \<Rightarrow> (m', Inr s))"

definition writeSnapshot :: "op_env \<Rightarrow> snapshot \<Rightarrow> machine \<Rightarrow> machine \<times> (failure + unit)" where
  "writeSnapshot env s m =
     (let n = mc_tick m; m' = m\<lparr>mc_tick := Suc n\<rparr> in
      if ev_writeFault env n then (m', Inl storageError) else (m'\<lparr>mc_store := Some s\<rparr>, Inr ()))"

definition timestampAfter :: "op_env \<Rightarrow> machine \<Rightarrow> op_record option \<Rightarrow> failure + int" where
  "timestampAfter env m r =
     (case ev_clock env (mc_tick m) of None \<Rightarrow> Inl Type_error
      | Some t \<Rightarrow> Inr (max t (case r of Some x \<Rightarrow> or_updatedAt x | None \<Rightarrow> t)))"

text \<open>Reading the snapshot and going on with it; writing a record and returning it.\<close>

definition with_snapshot ::
  "op_env \<Rightarrow> machine \<Rightarrow> (snapshot \<Rightarrow> machine \<Rightarrow> machine \<times> (failure + 'a)) \<Rightarrow> machine \<times> (failure + 'a)"
where
  "with_snapshot env m f = (case readSnapshot env m of (m1, Inl e) \<Rightarrow> (m1, Inl e) | (m1, Inr s) \<Rightarrow> f s m1)"

definition put_record :: "op_env \<Rightarrow> snapshot \<Rightarrow> op_record \<Rightarrow> machine \<Rightarrow> machine \<times> (failure + op_record)" where
  "put_record env s r m =
     (case writeSnapshot env (s\<lparr>sn_operations := AList.update (or_requestDigest r) r (sn_operations s)\<rparr>) m of
        (m', Inl e) \<Rightarrow> (m', Inl e) | (m', Inr _) \<Rightarrow> (m', Inr r))"

definition key_unavailable :: "string \<Rightarrow> failure" where
  "key_unavailable message = operationError message 500 ''IDEMPOTENCY_KEY_UNAVAILABLE''"

definition key_collision :: failure where
  "key_collision = operationError
     ''The generated idempotency key is already in use. The mutation was not sent.'' 500 ''IDEMPOTENCY_KEY_COLLISION''"

definition prepareWithIdentity ::
  "op_env \<Rightarrow> string \<Rightarrow> string \<Rightarrow> machine \<Rightarrow> machine \<times> (failure + op_record)"
where
  "prepareWithIdentity env digest scope m = with_snapshot env m (\<lambda>s m1.
     case map_of (sn_operations s) digest of
       Some existing \<Rightarrow> (m1, Inr existing)
     | None \<Rightarrow>
         (case timestampAfter env m1 None of
            Inl e \<Rightarrow> (m1, Inl e)
          | Inr createdAt \<Rightarrow>
              if sn_generation s = max_safe
              then (m1, Inl (key_unavailable ''Could not allocate another idempotency key. The mutation was not sent.''))
              else case ev_keyFactory env digest scope createdAt (sn_generation s + 1) of
                None \<Rightarrow> (m1, Inl (key_unavailable ''Could not generate a secure idempotency key. The mutation was not sent.''))
              | Some key \<Rightarrow>
                  if \<not> key_re key
                  then (m1, Inl (key_unavailable ''Could not generate a valid idempotency key. The mutation was not sent.''))
                  else if list_ex (\<lambda>k. k = key) (snapshot_keys s) then (m1, Inl key_collision)
                  else put_record env (s\<lparr>sn_generation := sn_generation s + 1\<rparr>)
                    \<lparr>or_requestDigest = digest, or_scopeDigest = scope, or_idempotencyKey = key,
                     or_state = Prepared, or_createdAt = createdAt, or_updatedAt = createdAt,
                     or_dispatchStartedAt = None, or_outcomeUnknownAt = None\<rparr> m1))"

definition local_state_error :: failure where
  "local_state_error = operationError ''Pending operation was not found'' 500 ''LOCAL_OPERATION_STATE_ERROR''"

definition not_dispatched_error :: failure where
  "not_dispatched_error = operationError ''Prepared operation has not been dispatched'' 500 ''LOCAL_OPERATION_STATE_ERROR''"

definition markDispatching :: "op_env \<Rightarrow> string \<Rightarrow> machine \<Rightarrow> machine \<times> (failure + op_record)" where
  "markDispatching env digest m = with_snapshot env m (\<lambda>s m1.
     case map_of (sn_operations s) digest of
       None \<Rightarrow> (m1, Inl local_state_error)
     | Some r \<Rightarrow>
         if or_state r \<noteq> Prepared then (m1, Inr r)
         else case timestampAfter env m1 (Some r) of
           Inl e \<Rightarrow> (m1, Inl e)
         | Inr t \<Rightarrow> put_record env s
             (r\<lparr>or_state := Dispatching, or_updatedAt := t, or_dispatchStartedAt := Some t\<rparr>) m1)"

definition markOutcomeUnknown :: "op_env \<Rightarrow> string \<Rightarrow> machine \<Rightarrow> machine \<times> (failure + op_record option)" where
  "markOutcomeUnknown env digest m = with_snapshot env m (\<lambda>s m1.
     case map_of (sn_operations s) digest of
       None \<Rightarrow> (m1, Inr None)
     | Some r \<Rightarrow>
         if or_state r = Prepared then (m1, Inl not_dispatched_error)
         else case timestampAfter env m1 (Some r) of
           Inl e \<Rightarrow> (m1, Inl e)
         | Inr t \<Rightarrow>
             (case put_record env s
                (r\<lparr>or_state := Outcome_unknown, or_updatedAt := t, or_outcomeUnknownAt := Some t\<rparr>) m1 of
                (m2, Inl e) \<Rightarrow> (m2, Inl e) | (m2, Inr r') \<Rightarrow> (m2, Inr (Some r'))))"

definition markPrepared :: "op_env \<Rightarrow> string \<Rightarrow> machine \<Rightarrow> machine \<times> (failure + op_record option)" where
  "markPrepared env digest m = with_snapshot env m (\<lambda>s m1.
     case map_of (sn_operations s) digest of
       None \<Rightarrow> (m1, Inr None)
     | Some r \<Rightarrow>
         (case timestampAfter env m1 (Some r) of
           Inl e \<Rightarrow> (m1, Inl e)
         | Inr t \<Rightarrow>
             (case put_record env s
                (r\<lparr>or_state := Prepared, or_updatedAt := t, or_dispatchStartedAt := None, or_outcomeUnknownAt := None\<rparr>) m1 of
                (m2, Inl e) \<Rightarrow> (m2, Inl e) | (m2, Inr r') \<Rightarrow> (m2, Inr (Some r')))))"

definition clear :: "op_env \<Rightarrow> string \<Rightarrow> machine \<Rightarrow> machine \<times> (failure + unit)" where
  "clear env digest m = with_snapshot env m (\<lambda>s m1.
     case map_of (sn_operations s) digest of
       None \<Rightarrow> (m1, Inr ())
     | Some _ \<Rightarrow> writeSnapshot env (s\<lparr>sn_operations := AList.delete digest (sn_operations s)\<rparr>) m1)"

definition in_scope :: "string option \<Rightarrow> op_record \<Rightarrow> bool" where
  "in_scope scope r \<longleftrightarrow> (case scope of None \<Rightarrow> True | Some d \<Rightarrow> d = [] \<or> or_scopeDigest r = d)"

definition listRecords :: "op_env \<Rightarrow> string option \<Rightarrow> machine \<Rightarrow> machine \<times> (failure + op_record list)" where
  "listRecords env scope m =
     with_snapshot env m (\<lambda>s m1. (m1, Inr (filter (in_scope scope) (map snd (sn_operations s)))))"

section \<open>The asynchronous part\<close>

text \<open>\<open>queryStatusOnce\<close>: a query of the same digest that is pending is joined, whatever key it asks for.\<close>

definition queryStatusOnce :: "op_record \<Rightarrow> waiter \<Rightarrow> machine \<Rightarrow> machine" where
  "queryStatusOnce r w m =
     (let d = or_requestDigest r in
      m\<lparr>mc_statusInFlight := AList.update d
        (case map_of (mc_statusInFlight m) d of
           Some (key, ws) \<Rightarrow> (key, ws @ [w])
         | None \<Rightarrow> (or_idempotencyKey r, [w])) (mc_statusInFlight m)\<rparr>)"

definition await_status :: "op_record \<Rightarrow> machine \<Rightarrow> machine" where
  "await_status r m = (let m1 = queryStatusOnce r Exec m in
     m1\<lparr>mc_inFlight := AList.update (or_requestDigest r) (Await_status, r) (mc_inFlight m1)\<rparr>)"

text \<open>The promise of an execution settles: the caller is answered and the entry of \<open>inFlight\<close> removed.\<close>

definition settle_exec :: "string \<Rightarrow> event \<Rightarrow> machine \<Rightarrow> machine" where
  "settle_exec d e m = emit e (m\<lparr>mc_inFlight := AList.delete d (mc_inFlight m)\<rparr>)"

text \<open>The synchronous part of \<open>runWithIdentity\<close>, up to its first await.\<close>

definition run_prefix :: "op_env \<Rightarrow> string \<Rightarrow> string \<Rightarrow> machine \<Rightarrow> machine" where
  "run_prefix env d scope m =
     (case prepareWithIdentity env d scope m of
        (m1, Inl e) \<Rightarrow> settle_exec d (Rejected d e) m1
      | (m1, Inr r) \<Rightarrow>
          if or_state r \<noteq> Prepared then await_status r m1
          else case markDispatching env (or_requestDigest r) m1 of
            (m2, Inl e) \<Rightarrow> settle_exec d (Rejected d e) m2
          | (m2, Inr r') \<Rightarrow>
              emit (Sent d (or_idempotencyKey r'))
                (m2\<lparr>mc_inFlight := AList.update d (Await_dispatch, r') (mc_inFlight m2)\<rparr>))"

definition execute :: "op_env \<Rightarrow> op_input \<Rightarrow> machine \<Rightarrow> machine" where
  "execute env i m =
     (case deriveRequestDigest env i of
        Inl e \<Rightarrow> emit (Rejected [] e) m
      | Inr d \<Rightarrow>
          if map_of (mc_inFlight m) d \<noteq> None then m
          else run_prefix env d (in_scopeDigest i) m)"

text \<open>An answer of the status endpoint: \<open>None\<close> when the query threw or the value is no object.\<close>

record answer =
  an_status :: string
  an_result :: "jsval option"
  an_error :: "raw_error option"

definition failed_terminally :: "answer option \<Rightarrow> terminal_error option" where
  "failed_terminally a =
     (case a of None \<Rightarrow> None
      | Some x \<Rightarrow> if an_status x = ''failed'' then normalizeTerminalError (an_error x) else None)"

definition completed_with :: "answer option \<Rightarrow> jsval option" where
  "completed_with a =
     (case a of None \<Rightarrow> None | Some x \<Rightarrow> if an_status x = ''completed'' then an_result x else None)"

definition terminal_failure :: "terminal_error \<Rightarrow> failure" where
  "terminal_failure t = operationError (te_message t) (te_status t) (te_code t)"

text \<open>What remains of \<open>resolveStatus\<close> once the status is there; \<open>key\<close> is the key that was asked for.\<close>

definition resume_exec :: "op_env \<Rightarrow> string \<Rightarrow> string \<Rightarrow> answer option \<Rightarrow> machine \<Rightarrow> machine" where
  "resume_exec env d key a m =
     (case completed_with a of
        Some v \<Rightarrow>
          (case clear env d m of
             (m1, Inl e) \<Rightarrow> settle_exec d (Rejected d e) m1
           | (m1, Inr _) \<Rightarrow> settle_exec d (Returned d v) (emit (Known d key) m1))
      | None \<Rightarrow>
          (case failed_terminally a of
             Some t \<Rightarrow>
               (case clear env d m of
                  (m1, Inl e) \<Rightarrow> settle_exec d (Rejected d e) m1
                | (m1, Inr _) \<Rightarrow> settle_exec d (Rejected d (terminal_failure t)) (emit (Known d key) m1))
           | None \<Rightarrow>
               (case markOutcomeUnknown env d m of
                  (m1, Inl e) \<Rightarrow> settle_exec d (Rejected d e) m1
                | (m1, Inr _) \<Rightarrow> settle_exec d (Rejected d outcomeUnknownError) m1)))"

text \<open>What remains of \<open>runWithIdentity\<close> once the dispatch has settled.\<close>

definition retry_failure :: "raw_error option \<Rightarrow> failure" where
  "retry_failure e =
     (case normalizeTerminalError e of
        Some t \<Rightarrow> Op_error \<lparr>oe_message = te_message t, oe_status = te_status t, oe_code = te_code t, oe_reuse = True\<rparr>
      | None \<Rightarrow>
          (case e of None \<Rightarrow> Type_error
           | Some x \<Rightarrow> Op_error
               \<lparr>oe_message = (if str_of (ro_message x) = [] then ''The server is busy. Retry shortly.'' else str_of (ro_message x)),
                oe_status = (case ro_status x of Some s \<Rightarrow> if s = 0 then 429 else s | None \<Rightarrow> 429),
                oe_code = (if str_of (ro_code x) = [] then ''ADMISSION_OVERLOADED'' else str_of (ro_code x)),
                oe_reuse = True\<rparr>))"

definition finish_dispatch :: "op_env \<Rightarrow> string \<Rightarrow> string \<Rightarrow> outcome \<Rightarrow> machine \<Rightarrow> machine" where
  "finish_dispatch env d key oc m =
     (if oc_kind oc = ''completed'' \<and> oc_result oc \<noteq> None
      then case clear env d m of
          (m1, Inl e) \<Rightarrow> settle_exec d (Rejected d e) m1
        | (m1, Inr _) \<Rightarrow> settle_exec d (Returned d (the (oc_result oc))) (emit (Known d key) m1)
      else if oc_kind oc = ''retry_same_key''
      then case markPrepared env d m of
          (m1, Inl e) \<Rightarrow> settle_exec d (Rejected d e) m1
        | (m1, Inr _) \<Rightarrow> settle_exec d (Rejected d (retry_failure (oc_error oc))) (emit (Busy d key) m1)
      else case (if oc_kind oc = ''failed'' then normalizeTerminalError (oc_error oc) else None) of
        Some t \<Rightarrow>
          (case clear env d m of
             (m1, Inl e) \<Rightarrow> settle_exec d (Rejected d e) m1
           | (m1, Inr _) \<Rightarrow> settle_exec d (Rejected d (terminal_failure t)) (emit (Known d key) m1))
      | None \<Rightarrow>
          (case markOutcomeUnknown env d m of
             (m1, Inl e) \<Rightarrow> settle_exec d (Rejected d e) m1
           | (m1, Inr None) \<Rightarrow> settle_exec d (Rejected d Type_error) m1
           | (m1, Inr (Some r)) \<Rightarrow> await_status r m1))"

definition dispatch_settled :: "op_env \<Rightarrow> string \<Rightarrow> raw_error + outcome \<Rightarrow> machine \<Rightarrow> machine" where
  "dispatch_settled env d res m =
     (case map_of (mc_inFlight m) d of
        Some (Await_dispatch, r) \<Rightarrow>
          finish_dispatch env d (or_idempotencyKey r)
            (case res of Inl e \<Rightarrow> classifyDirectMutationError e | Inr oc \<Rightarrow> oc) m
      | _ \<Rightarrow> m)"

text \<open>
  The loop of \<open>reconcileProfile\<close>: it works through the records it listed when it began, skips those in
  flight, and waits for the status of the others one by one.
\<close>

fun recon_advance :: "nat \<Rightarrow> op_record list \<Rightarrow> summary \<Rightarrow> machine \<Rightarrow> machine" where
  "recon_advance i [] su m = emit (Reconciled su) (m\<lparr>mc_loops := AList.delete i (mc_loops m)\<rparr>)"
| "recon_advance i (r # rs) su m =
     (if map_of (mc_inFlight m) (or_requestDigest r) \<noteq> None then recon_advance i rs su m
      else queryStatusOnce r (Recon i r)
        (m\<lparr>mc_loops := AList.update i (rs, su\<lparr>su_checked := Suc (su_checked su)\<rparr>) (mc_loops m)\<rparr>))"

definition recon_abort :: "nat \<Rightarrow> failure \<Rightarrow> machine \<Rightarrow> machine" where
  "recon_abort i e m = emit (Reconcile_failed e) (m\<lparr>mc_loops := AList.delete i (mc_loops m)\<rparr>)"

definition resume_recon :: "op_env \<Rightarrow> nat \<Rightarrow> op_record \<Rightarrow> string \<Rightarrow> answer option \<Rightarrow> machine \<Rightarrow> machine" where
  "resume_recon env i r key a m =
     (let d = or_requestDigest r in
      case map_of (mc_loops m) i of
        None \<Rightarrow> m
      | Some (rs, su) \<Rightarrow>
          if completed_with a \<noteq> None
          then case clear env d m of
              (m1, Inl e) \<Rightarrow> recon_abort i e m1
            | (m1, Inr _) \<Rightarrow> recon_advance i rs (su\<lparr>su_completed := Suc (su_completed su)\<rparr>) (emit (Known d key) m1)
          else if failed_terminally a \<noteq> None
          then case clear env d m of
              (m1, Inl e) \<Rightarrow> recon_abort i e m1
            | (m1, Inr _) \<Rightarrow> recon_advance i rs (su\<lparr>su_failed := Suc (su_failed su)\<rparr>) (emit (Known d key) m1)
          else case markOutcomeUnknown env d m of
              (m1, Inl e) \<Rightarrow> recon_abort i e m1
            | (m1, Inr _) \<Rightarrow> recon_advance i rs (su\<lparr>su_unresolved := Suc (su_unresolved su)\<rparr>) m1)"

definition reconcileProfile :: "op_env \<Rightarrow> string \<Rightarrow> machine \<Rightarrow> machine" where
  "reconcileProfile env scope m =
     (case assertDigest scope of
        Inl e \<Rightarrow> emit (Reconcile_failed e) m
      | Inr _ \<Rightarrow>
          (case listRecords env (Some scope) m of
             (m1, Inl e) \<Rightarrow> emit (Reconcile_failed e) m1
           | (m1, Inr rs) \<Rightarrow>
               recon_advance (mc_nextLoop m1) (filter (\<lambda>r. or_state r \<noteq> Prepared) rs)
                 \<lparr>su_checked = 0, su_completed = 0, su_failed = 0, su_unresolved = 0\<rparr>
                 (m1\<lparr>mc_nextLoop := Suc (mc_nextLoop m1)\<rparr>)))"

text \<open>A status query settles: it leaves the map, and its waiters go on in the order they joined.\<close>

fun resume_all :: "op_env \<Rightarrow> string \<Rightarrow> string \<Rightarrow> answer option \<Rightarrow> waiter list \<Rightarrow> machine \<Rightarrow> machine" where
  "resume_all env d key a [] m = m"
| "resume_all env d key a (Exec # ws) m = resume_all env d key a ws (resume_exec env d key a m)"
| "resume_all env d key a (Recon i r # ws) m = resume_all env d key a ws (resume_recon env i r key a m)"

definition status_settled :: "op_env \<Rightarrow> string \<Rightarrow> answer option \<Rightarrow> machine \<Rightarrow> machine" where
  "status_settled env d a m =
     (case map_of (mc_statusInFlight m) d of
        None \<Rightarrow> m
      | Some (key, ws) \<Rightarrow>
          resume_all env d key a ws (m\<lparr>mc_statusInFlight := AList.delete d (mc_statusInFlight m)\<rparr>))"

definition purge_locked :: failure where
  "purge_locked = operationError
     ''A finance operation may still be running. Reconcile it before changing or deleting this profile.'' 409
     ''UNRESOLVED_OPERATION_PROFILE_LOCK''"

definition prepareProfilePurge :: "op_env \<Rightarrow> string option \<Rightarrow> machine \<Rightarrow> machine \<times> (failure + unit)" where
  "prepareProfilePurge env scope m =
     (if (case scope of None \<Rightarrow> False | Some d \<Rightarrow> d \<noteq> [] \<and> \<not> hash_re d) then (m, Inl Type_error)
      else with_snapshot env m (\<lambda>s m1.
        let matching = filter (\<lambda>(_, r). in_scope scope r) (sn_operations s) in
        if list_ex (\<lambda>(_, r). or_state r \<noteq> Prepared) matching then (m1, Inl purge_locked)
        else if matching = [] then (m1, Inr ())
        else case writeSnapshot env (s\<lparr>sn_operations := filter (\<lambda>(_, r). \<not> in_scope scope r) (sn_operations s)\<rparr>) m1 of
            (m2, Inl e) \<Rightarrow> (m2, Inl e)
          | (m2, Inr _) \<Rightarrow> (fold emit (map (\<lambda>(d, _). Dropped d) matching) m2, Inr ())))"

section \<open>Runs\<close>

datatype stimulus =
    Execute op_input
  | Prepare op_input
  | Dispatch_settled string "raw_error + outcome"
  | Status_settled string "answer option"
  | Reconcile string
  | Purge "string option"
  | Restart

text \<open>A restart keeps the store and forgets everything in flight.\<close>

definition restart :: "machine \<Rightarrow> machine" where
  "restart m = m\<lparr>mc_inFlight := [], mc_statusInFlight := [], mc_loops := []\<rparr>"

fun react :: "op_env \<Rightarrow> stimulus \<Rightarrow> machine \<Rightarrow> machine" where
  "react env (Execute i) m = execute env i m"
| "react env (Prepare i) m =
     (case deriveRequestDigest env i of
        Inl e \<Rightarrow> m
      | Inr d \<Rightarrow> fst (prepareWithIdentity env d (in_scopeDigest i) m))"
| "react env (Dispatch_settled d res) m = dispatch_settled env d res m"
| "react env (Status_settled d a) m = status_settled env d a m"
| "react env (Reconcile scope) m = reconcileProfile env scope m"
| "react env (Purge scope) m = fst (prepareProfilePurge env scope m)"
| "react env Restart m = restart m"

definition run :: "op_env \<Rightarrow> stimulus list \<Rightarrow> machine \<Rightarrow> machine" where
  "run env xs m = fold (react env) xs m"

section \<open>The store stays valid\<close>

text \<open>A record as the machine writes it: valid, and not updated before it was dispatched.\<close>

definition rec_ok :: "op_record \<Rightarrow> string \<Rightarrow> bool" where
  "rec_ok r d \<longleftrightarrow> validateRecord r d \<and>
     (case or_dispatchStartedAt r of None \<Rightarrow> True | Some t \<Rightarrow> t \<le> or_updatedAt r)"

definition snap_ok :: "snapshot \<Rightarrow> bool" where
  "snap_ok s \<longleftrightarrow> 0 \<le> sn_generation s \<and> sn_generation s \<le> max_safe \<and> distinct (map fst (sn_operations s)) \<and>
     distinct (snapshot_keys s) \<and> (\<forall>(d, r) \<in> set (sn_operations s). rec_ok r d)"

definition snap :: "machine \<Rightarrow> snapshot" where
  "snap m = (case mc_store m of None \<Rightarrow> empty_snapshot | Some s \<Rightarrow> s)"

definition recs :: "machine \<Rightarrow> string \<Rightarrow> op_record option" where
  "recs m d = map_of (sn_operations (snap m)) d"

definition store_ok :: "machine \<Rightarrow> bool" where
  "store_ok m \<longleftrightarrow> snap_ok (snap m)"

text \<open>A call of the store changes nothing else of the machine.\<close>

definition frame :: "machine \<Rightarrow> machine \<Rightarrow> bool" where
  "frame m m' \<longleftrightarrow> mc_inFlight m' = mc_inFlight m \<and> mc_statusInFlight m' = mc_statusInFlight m \<and>
     mc_loops m' = mc_loops m \<and> mc_nextLoop m' = mc_nextLoop m \<and> mc_log m' = mc_log m"

lemma empty_snap_ok [simp]: "snap_ok empty_snapshot"
  by (simp add: snap_ok_def empty_snapshot_def snapshot_keys_def max_safe_def)

lemma snap_simps [simp]:
  "snap (emit e m) = snap m" "snap (m\<lparr>mc_tick := n\<rparr>) = snap m" "snap (m\<lparr>mc_inFlight := f\<rparr>) = snap m"
  "snap (m\<lparr>mc_statusInFlight := g\<rparr>) = snap m" "snap (m\<lparr>mc_loops := l\<rparr>) = snap m"
  "snap (m\<lparr>mc_nextLoop := n\<rparr>) = snap m" "snap (m\<lparr>mc_store := Some s\<rparr>) = s" "snap (m\<lparr>mc_log := es\<rparr>) = snap m"
  "snap (settle_exec d e m) = snap m" "snap (queryStatusOnce r w m) = snap m" "snap (await_status r m) = snap m"
  "snap (recon_abort i x m) = snap m" "snap (restart m) = snap m"
  by (simp_all add: snap_def emit_def settle_exec_def queryStatusOnce_def await_status_def recon_abort_def
    restart_def Let_def)

lemma snap_recon_advance [simp]: "snap (recon_advance i rs su m) = snap m"
  by (induction i rs su m rule: recon_advance.induct) simp_all

lemma snap_fold_emit [simp]: "snap (fold emit es m) = snap m"
  by (induction es arbitrary: m) simp_all

lemma snap_ok_valid: "snap_ok (snap m) \<Longrightarrow> validateSnapshot (mc_store m) = Some (snap m)"
  by (auto simp: validateSnapshot_def snap_def snap_ok_def rec_ok_def list_all_iff split: option.splits)

lemma with_snapshot_cases:
  assumes "store_ok m" "with_snapshot env m f = (m', x)"
  obtains (fault) "x = Inl storageError" "m' = m\<lparr>mc_tick := Suc (mc_tick m)\<rparr>"
  | (reads) "f (snap m) (m\<lparr>mc_tick := Suc (mc_tick m)\<rparr>) = (m', x)"
  using assms snap_ok_valid [of m]
  by (auto simp: store_ok_def with_snapshot_def readSnapshot_def Let_def split: if_splits)

lemma map_keys_update:
  "map_of xs d = Some r \<Longrightarrow> f r' = f r \<Longrightarrow> map (f \<circ> snd) (AList.update d r' xs) = map (f \<circ> snd) xs"
  by (induction xs) auto

lemma map_keys_new: "map_of xs d = None \<Longrightarrow> map (f \<circ> snd) (AList.update d r' xs) = map (f \<circ> snd) xs @ [f r']"
  by (induction xs) (auto split: if_splits)

lemma set_update: "set (AList.update d r xs) \<subseteq> insert (d, r) (set xs)"
  by (induction xs) auto

lemma recs_ok: "store_ok m \<Longrightarrow> recs m d = Some r \<Longrightarrow> rec_ok r d \<and> or_requestDigest r = d"
  by (force simp: store_ok_def snap_ok_def recs_def rec_ok_def validateRecord_def dest: map_of_SomeD)

text \<open>Writing a record over the one of the same digest, or a new one with a new key.\<close>

lemma put_record_cases:
  assumes ok: "store_ok m" and p: "put_record env s r m = (m', x)"
    and s: "sn_operations s = sn_operations (snap m)" "0 \<le> sn_generation s" "sn_generation s \<le> max_safe"
    and r: "rec_ok r d" and key: "case recs m d of Some r0 \<Rightarrow> or_idempotencyKey r = or_idempotencyKey r0
      | None \<Rightarrow> or_idempotencyKey r \<notin> set (snapshot_keys (snap m))"
  shows "frame m m' \<and> store_ok m' \<and>
    (x = Inl storageError \<and> snap m' = snap m \<or> x = Inr r \<and> recs m' = (recs m)(d \<mapsto> r))"
proof -
  have rd: "or_requestDigest r = d" using r by (simp add: rec_ok_def validateRecord_def)
  let ?ops = "AList.update d r (sn_operations (snap m))"
  have so: "snap_ok (snap m)" using ok by (simp add: store_ok_def)
  have k: "distinct (snapshot_keys (s\<lparr>sn_operations := ?ops\<rparr>))"
  proof (cases "recs m d")
    case None
    with key so show ?thesis
      by (simp add: snapshot_keys_def recs_def map_keys_new [of _ _ or_idempotencyKey] snap_ok_def)
  next
    case (Some r0)
    with key so show ?thesis
      by (simp add: snapshot_keys_def recs_def map_keys_update [of _ _ _ or_idempotencyKey] snap_ok_def)
  qed
  have a: "\<forall>(d', r') \<in> set ?ops. rec_ok r' d'"
  proof (intro ballI, clarify)
    fix d' r' assume "(d', r') \<in> set ?ops"
    then have "(d', r') = (d, r) \<or> (d', r') \<in> set (sn_operations (snap m))" using set_update by fastforce
    with r so show "rec_ok r' d'" by (auto simp: snap_ok_def)
  qed
  have n: "snap_ok (s\<lparr>sn_operations := ?ops\<rparr>)"
    using so k a s by (simp add: snap_ok_def distinct_update)
  have o2: "snap_ok (snap m)" by (rule so)
  show ?thesis
  proof (cases "ev_writeFault env (mc_tick m)")
    case True
    then show ?thesis using p o2
      by (auto simp: put_record_def writeSnapshot_def Let_def frame_def store_ok_def)
  next
    case False
    then show ?thesis using p n rd s
      by (auto simp: put_record_def writeSnapshot_def Let_def frame_def store_ok_def recs_def update_conv')
  qed
qed

lemma tick_simps [simp]:
  "recs (m\<lparr>mc_tick := n\<rparr>) = recs m" "store_ok (m\<lparr>mc_tick := n\<rparr>) = store_ok m"
  "frame (m\<lparr>mc_tick := n\<rparr>) m' = frame m m'" "frame m (m'\<lparr>mc_tick := n\<rparr>) = frame m m'" "frame m m"
  by (auto simp: recs_def store_ok_def frame_def)

lemma rec_ok_new:
  "hash_re d \<Longrightarrow> hash_re scope \<Longrightarrow> key_re key \<Longrightarrow>
   rec_ok \<lparr>or_requestDigest = d, or_scopeDigest = scope, or_idempotencyKey = key, or_state = Prepared,
     or_createdAt = c, or_updatedAt = c, or_dispatchStartedAt = None, or_outcomeUnknownAt = None\<rparr> d"
  by (simp add: rec_ok_def validateRecord_def)

lemma rec_ok_transitions:
  assumes "rec_ok r d" "or_updatedAt r \<le> t"
  shows "rec_ok (r\<lparr>or_state := Prepared, or_updatedAt := t, or_dispatchStartedAt := None, or_outcomeUnknownAt := None\<rparr>) d"
    "or_state r = Prepared \<Longrightarrow> rec_ok (r\<lparr>or_state := Dispatching, or_updatedAt := t, or_dispatchStartedAt := Some t\<rparr>) d"
    "or_state r \<noteq> Prepared \<Longrightarrow> rec_ok (r\<lparr>or_state := Outcome_unknown, or_updatedAt := t, or_outcomeUnknownAt := Some t\<rparr>) d"
  using assms by (cases "or_state r"; auto simp: rec_ok_def validateRecord_def split: option.splits)+

lemma timestampAfter_ge: "timestampAfter env m (Some r) = Inr t \<Longrightarrow> or_updatedAt r \<le> t"
  by (auto simp: timestampAfter_def split: option.splits)

lemma prepare_cases:
  assumes ok: "store_ok m" and p: "prepareWithIdentity env d scope m = (m', x)" and h: "hash_re d" "hash_re scope"
  shows "frame m m' \<and> store_ok m' \<and>
    (case x of Inl _ \<Rightarrow> snap m' = snap m
     | Inr r \<Rightarrow> recs m d = Some r \<and> snap m' = snap m \<or>
         recs m d = None \<and> or_state r = Prepared \<and> recs m' = (recs m)(d \<mapsto> r))"
proof (cases rule: with_snapshot_cases [OF ok p [unfolded prepareWithIdentity_def]])
  case 1
  then show ?thesis using ok by simp
next
  case 2
  let ?m = "m\<lparr>mc_tick := Suc (mc_tick m)\<rparr>"
  show ?thesis
  proof (cases "recs m d")
    case (Some r)
    with 2 ok show ?thesis by (auto simp: recs_def)
  next
    case None
    show ?thesis
    proof (cases "\<exists>c key. timestampAfter env ?m None = Inr c \<and> sn_generation (snap m) \<noteq> max_safe \<and>
        ev_keyFactory env d scope c (sn_generation (snap m) + 1) = Some key \<and> key_re key \<and>
        \<not> list_ex (\<lambda>k. k = key) (snapshot_keys (snap m))")
      case False
      with 2 None ok show ?thesis
        by (auto simp: recs_def split: sum.splits if_splits option.splits)
    next
      case True
      then obtain c key where c: "timestampAfter env ?m None = Inr c" "sn_generation (snap m) \<noteq> max_safe"
        "ev_keyFactory env d scope c (sn_generation (snap m) + 1) = Some key" "key_re key"
        "\<not> list_ex (\<lambda>k. k = key) (snapshot_keys (snap m))" by blast
      let ?r = "\<lparr>or_requestDigest = d, or_scopeDigest = scope, or_idempotencyKey = key,
         or_state = Prepared, or_createdAt = c, or_updatedAt = c, or_dispatchStartedAt = None, or_outcomeUnknownAt = None\<rparr>"
      have p: "put_record env (snap m\<lparr>sn_generation := sn_generation (snap m) + 1\<rparr>) ?r ?m = (m', x)"
        using 2 None c by (simp add: recs_def)
      have "0 \<le> sn_generation (snap m)" "sn_generation (snap m) < max_safe"
        using ok c(2) by (simp_all add: store_ok_def snap_ok_def)
      then have "frame ?m m' \<and> store_ok m' \<and> (x = Inl storageError \<and> snap m' = snap ?m \<or> x = Inr ?r \<and> recs m' = (recs ?m)(d \<mapsto> ?r))"
        using None c h by (intro put_record_cases [OF _ p]) (simp_all add: ok rec_ok_new list_ex_iff)
      with None show ?thesis by auto
    qed
  qed
qed

lemma markDispatching_cases:
  assumes ok: "store_ok m" and p: "markDispatching env d m = (m', x)"
  shows "frame m m' \<and> store_ok m' \<and>
    (case x of Inl _ \<Rightarrow> snap m' = snap m
     | Inr r' \<Rightarrow> \<exists>r. recs m d = Some r \<and> or_idempotencyKey r' = or_idempotencyKey r \<and> or_state r' \<noteq> Prepared \<and>
         (or_state r \<noteq> Prepared \<and> snap m' = snap m \<or> or_state r = Prepared \<and> recs m' = (recs m)(d \<mapsto> r')))"
proof (cases rule: with_snapshot_cases [OF ok p [unfolded markDispatching_def]])
  case 1
  then show ?thesis using ok by simp
next
  case 2
  let ?m = "m\<lparr>mc_tick := Suc (mc_tick m)\<rparr>"
  show ?thesis
  proof (cases "\<exists>r t. recs m d = Some r \<and> or_state r = Prepared \<and> timestampAfter env ?m (Some r) = Inr t")
    case False
    with 2 ok show ?thesis by (auto simp: recs_def split: option.splits if_splits sum.splits)
  next
    case True
    then obtain r t where r: "recs m d = Some r" "or_state r = Prepared" "timestampAfter env ?m (Some r) = Inr t" by blast
    let ?r = "r\<lparr>or_state := Dispatching, or_updatedAt := t, or_dispatchStartedAt := Some t\<rparr>"
    have p: "put_record env (snap m) ?r ?m = (m', x)" using 2 r by (simp add: recs_def)
    have "rec_ok ?r d" using recs_ok [OF ok r(1)] rec_ok_transitions(2) timestampAfter_ge [OF r(3)] r(2) by blast
    then have "frame ?m m' \<and> store_ok m' \<and> (x = Inl storageError \<and> snap m' = snap ?m \<or> x = Inr ?r \<and> recs m' = (recs ?m)(d \<mapsto> ?r))"
      using r ok by (intro put_record_cases [OF _ p]) (simp_all add: store_ok_def snap_ok_def)
    with r show ?thesis by auto
  qed
qed

lemma markOutcomeUnknown_cases:
  assumes ok: "store_ok m" and p: "markOutcomeUnknown env d m = (m', x)"
  shows "frame m m' \<and> store_ok m' \<and>
    (case x of Inl _ \<Rightarrow> snap m' = snap m
     | Inr None \<Rightarrow> recs m d = None \<and> snap m' = snap m
     | Inr (Some r') \<Rightarrow> \<exists>r. recs m d = Some r \<and> or_idempotencyKey r' = or_idempotencyKey r \<and> or_state r' \<noteq> Prepared \<and>
         or_state r \<noteq> Prepared \<and> or_requestDigest r' = d \<and> recs m' = (recs m)(d \<mapsto> r'))"
proof (cases rule: with_snapshot_cases [OF ok p [unfolded markOutcomeUnknown_def]])
  case 1
  then show ?thesis using ok by simp
next
  case 2
  let ?m = "m\<lparr>mc_tick := Suc (mc_tick m)\<rparr>"
  show ?thesis
  proof (cases "\<exists>r t. recs m d = Some r \<and> or_state r \<noteq> Prepared \<and> timestampAfter env ?m (Some r) = Inr t")
    case False
    with 2 ok show ?thesis by (auto simp: recs_def split: option.splits if_splits sum.splits)
  next
    case True
    then obtain r t where r: "recs m d = Some r" "or_state r \<noteq> Prepared" "timestampAfter env ?m (Some r) = Inr t" by blast
    let ?r = "r\<lparr>or_state := Outcome_unknown, or_updatedAt := t, or_outcomeUnknownAt := Some t\<rparr>"
    obtain m2 x2 where p: "put_record env (snap m) ?r ?m = (m2, x2)" by fastforce
    have e: "m' = m2" "x = (case x2 of Inl e \<Rightarrow> Inl e | Inr r' \<Rightarrow> Inr (Some r'))"
      using 2 r p by (auto simp: recs_def split: sum.splits)
    have "rec_ok ?r d" using recs_ok [OF ok r(1)] rec_ok_transitions(3) timestampAfter_ge [OF r(3)] r(2) by blast
    then have "frame ?m m2 \<and> store_ok m2 \<and> (x2 = Inl storageError \<and> snap m2 = snap ?m \<or> x2 = Inr ?r \<and> recs m2 = (recs ?m)(d \<mapsto> ?r))"
      using r ok by (intro put_record_cases [OF _ p]) (simp_all add: store_ok_def snap_ok_def)
    with r e recs_ok [OF ok r(1)] show ?thesis by auto
  qed
qed

lemma markPrepared_cases:
  assumes ok: "store_ok m" and p: "markPrepared env d m = (m', x)"
  shows "frame m m' \<and> store_ok m' \<and>
    (case x of Inl _ \<Rightarrow> snap m' = snap m
     | Inr None \<Rightarrow> recs m d = None \<and> snap m' = snap m
     | Inr (Some r') \<Rightarrow> \<exists>r. recs m d = Some r \<and> or_idempotencyKey r' = or_idempotencyKey r \<and> or_state r' = Prepared \<and>
         recs m' = (recs m)(d \<mapsto> r'))"
proof (cases rule: with_snapshot_cases [OF ok p [unfolded markPrepared_def]])
  case 1
  then show ?thesis using ok by simp
next
  case 2
  let ?m = "m\<lparr>mc_tick := Suc (mc_tick m)\<rparr>"
  show ?thesis
  proof (cases "\<exists>r t. recs m d = Some r \<and> timestampAfter env ?m (Some r) = Inr t")
    case False
    with 2 ok show ?thesis by (auto simp: recs_def split: option.splits if_splits sum.splits)
  next
    case True
    then obtain r t where r: "recs m d = Some r" "timestampAfter env ?m (Some r) = Inr t" by blast
    let ?r = "r\<lparr>or_state := Prepared, or_updatedAt := t, or_dispatchStartedAt := None, or_outcomeUnknownAt := None\<rparr>"
    obtain m2 x2 where p: "put_record env (snap m) ?r ?m = (m2, x2)" by fastforce
    have e: "m' = m2" "x = (case x2 of Inl e \<Rightarrow> Inl e | Inr r' \<Rightarrow> Inr (Some r'))"
      using 2 r p by (auto simp: recs_def split: sum.splits)
    have "rec_ok ?r d" using recs_ok [OF ok r(1)] rec_ok_transitions(1) timestampAfter_ge [OF r(2)] by blast
    then have "frame ?m m2 \<and> store_ok m2 \<and> (x2 = Inl storageError \<and> snap m2 = snap ?m \<or> x2 = Inr ?r \<and> recs m2 = (recs ?m)(d \<mapsto> ?r))"
      using r ok by (intro put_record_cases [OF _ p]) (simp_all add: store_ok_def snap_ok_def)
    with r e show ?thesis by auto
  qed
qed

lemma snap_ok_delete: "snap_ok s \<Longrightarrow> snap_ok (s\<lparr>sn_operations := filter P (sn_operations s)\<rparr>)"
  by (auto simp: snap_ok_def snapshot_keys_def distinct_map_filter inj_on_def distinct_map intro: distinct_filter)

lemma clear_cases:
  assumes ok: "store_ok m" and p: "clear env d m = (m', x)"
  shows "frame m m' \<and> store_ok m' \<and>
    (case x of Inl _ \<Rightarrow> snap m' = snap m | Inr _ \<Rightarrow> recs m' = (recs m)(d := None))"
proof (cases rule: with_snapshot_cases [OF ok p [unfolded clear_def]])
  case 1
  then show ?thesis using ok by simp
next
  case 2
  have "snap_ok (snap m\<lparr>sn_operations := AList.delete d (sn_operations (snap m))\<rparr>)"
    unfolding AList.delete_eq using ok by (intro snap_ok_delete) (simp add: store_ok_def)
  with 2 ok show ?thesis
    by (cases "recs m d")
      (auto simp: recs_def writeSnapshot_def Let_def store_ok_def frame_def delete_conv' split: if_splits intro!: ext)
qed

lemma map_of_filter_val:
  "distinct (map fst xs) \<Longrightarrow>
   map_of (filter (\<lambda>(_, r). P r) xs) d = (case map_of xs d of None \<Rightarrow> None | Some r \<Rightarrow> if P r then Some r else None)"
  by (induction xs) (auto split: option.splits dest: map_of_SomeD simp: map_of_eq_None_iff image_iff)

lemma purge_cases:
  assumes ok: "store_ok m" and p: "prepareProfilePurge env scope m = (m', x)"
  obtains (kept) "snap m' = snap m" "frame m m'"
  | (purged) ops :: "(string \<times> op_record) list" and m1 where "m' = fold emit (map (\<lambda>(d, _). Dropped d) ops) m1" "frame m m1" "store_ok m1"
      "recs m1 = (\<lambda>d. case recs m d of None \<Rightarrow> None | Some r \<Rightarrow> if in_scope scope r then None else Some r)"
      "\<And>d r. recs m d = Some r \<Longrightarrow> in_scope scope r \<Longrightarrow> or_state r = Prepared"
      "\<And>d. d \<in> fst ` set ops \<longleftrightarrow> (\<exists>r. recs m d = Some r \<and> in_scope scope r)"
proof (cases "case scope of None \<Rightarrow> False | Some d \<Rightarrow> d \<noteq> [] \<and> \<not> hash_re d")
  case True
  then have "m' = m" using p by (simp add: prepareProfilePurge_def)
  then show ?thesis by (intro kept) simp_all
next
  case False
  let ?ops = "filter (\<lambda>(_, r). in_scope scope r) (sn_operations (snap m))"
  let ?s = "snap m\<lparr>sn_operations := filter (\<lambda>(_, r). \<not> in_scope scope r) (sn_operations (snap m))\<rparr>"
  let ?m = "m\<lparr>mc_tick := Suc (mc_tick m)\<rparr>"
  let ?m2 = "m\<lparr>mc_tick := Suc (Suc (mc_tick m)), mc_store := Some ?s\<rparr>"
  have so: "snap_ok (snap m)" using ok by (simp add: store_ok_def)
  then have d: "distinct (map fst (sn_operations (snap m)))" by (simp add: snap_ok_def)
  have w: "with_snapshot env m (\<lambda>s m1.
        let matching = filter (\<lambda>(_, r). in_scope scope r) (sn_operations s) in
        if list_ex (\<lambda>(_, r). or_state r \<noteq> Prepared) matching then (m1, Inl purge_locked)
        else if matching = [] then (m1, Inr ())
        else case writeSnapshot env (s\<lparr>sn_operations := filter (\<lambda>(_, r). \<not> in_scope scope r) (sn_operations s)\<rparr>) m1 of
            (m2, Inl e) \<Rightarrow> (m2, Inl e)
          | (m2, Inr _) \<Rightarrow> (fold emit (map (\<lambda>(d, _). Dropped d) matching) m2, Inr ())) = (m', x)"
    using p False by (simp add: prepareProfilePurge_def)
  have k: ?thesis if "m' = m\<lparr>mc_tick := n\<rparr>" for n using that by (intro kept) simp_all
  show ?thesis
  proof (cases rule: with_snapshot_cases [OF ok w])
    case 1
    from 1(2) show ?thesis by (rule k)
  next
    case 2
    show ?thesis
    proof (cases "list_ex (\<lambda>(_, r). or_state r \<noteq> Prepared) ?ops \<or> ?ops = [] \<or> ev_writeFault env (Suc (mc_tick m))")
      case True
      with 2 have "m' = ?m \<or> m' = m\<lparr>mc_tick := Suc (Suc (mc_tick m))\<rparr>"
        by (auto simp: Let_def writeSnapshot_def split: if_splits)
      with k show ?thesis by blast
    next
      case False
      with 2 have m': "m' = fold emit (map (\<lambda>(d, _). Dropped d) ?ops) ?m2"
        by (simp add: Let_def writeSnapshot_def)
      have mem: "recs m d' = Some r \<longleftrightarrow> (d', r) \<in> set (sn_operations (snap m))" for d' r
        using d by (simp add: recs_def)
      show ?thesis
      proof (rule purged [OF m'])
        show "frame m ?m2" by (simp add: frame_def)
        show "store_ok ?m2" using snap_ok_delete [OF so] by (simp add: store_ok_def)
        show "recs ?m2 = (\<lambda>d. case recs m d of None \<Rightarrow> None | Some r \<Rightarrow> if in_scope scope r then None else Some r)"
          using map_of_filter_val [OF d, of "\<lambda>r. \<not> in_scope scope r"]
          by (auto simp: recs_def split: option.splits intro!: ext)
        show "or_state r = Prepared" if "recs m d = Some r" "in_scope scope r" for d r
          using False that mem by (auto simp: list_ex_iff)
        show "d \<in> fst ` set ?ops \<longleftrightarrow> (\<exists>r. recs m d = Some r \<and> in_scope scope r)" for d
          using mem by force
      qed
    qed
  qed
qed

lemma store_ok_cong: "snap m' = snap m \<Longrightarrow> store_ok m' = store_ok m"
  by (simp add: store_ok_def)

lemma store_ok_simps [simp]:
  "store_ok (emit e m) = store_ok m" "store_ok (m\<lparr>mc_inFlight := f\<rparr>) = store_ok m"
  "store_ok (m\<lparr>mc_statusInFlight := g\<rparr>) = store_ok m" "store_ok (m\<lparr>mc_loops := l\<rparr>) = store_ok m"
  "store_ok (m\<lparr>mc_nextLoop := n\<rparr>) = store_ok m" "store_ok (settle_exec d e m) = store_ok m"
  "store_ok (queryStatusOnce r w m) = store_ok m" "store_ok (await_status r m) = store_ok m"
  "store_ok (recon_advance i rs su m) = store_ok m" "store_ok (recon_abort i x m) = store_ok m"
  "store_ok (restart m) = store_ok m" "store_ok (fold emit es m) = store_ok m"
  by (simp_all add: store_ok_def)

lemma mark_stores:
  "clear env d m = (m1, x) \<Longrightarrow> store_ok m \<Longrightarrow> store_ok m1"
  "markOutcomeUnknown env d m = (m2, y) \<Longrightarrow> store_ok m \<Longrightarrow> store_ok m2"
  "markPrepared env d m = (m3, y) \<Longrightarrow> store_ok m \<Longrightarrow> store_ok m3"
  "markDispatching env d m = (m4, z) \<Longrightarrow> store_ok m \<Longrightarrow> store_ok m4"
  using clear_cases markOutcomeUnknown_cases markPrepared_cases markDispatching_cases by blast+

lemma resume_exec_store: "store_ok m \<Longrightarrow> store_ok (resume_exec env d key a m)"
  by (cases "clear env d m"; cases "markOutcomeUnknown env d m")
    (simp add: resume_exec_def mark_stores split: option.split sum.split)

lemma resume_recon_store: "store_ok m \<Longrightarrow> store_ok (resume_recon env i r key a m)"
  by (cases "clear env (or_requestDigest r) m"; cases "markOutcomeUnknown env (or_requestDigest r) m")
    (simp add: resume_recon_def Let_def mark_stores split: option.split sum.split prod.split)

lemma resume_all_store: "store_ok m \<Longrightarrow> store_ok (resume_all env d key a ws m)"
  by (induction env d key a ws m rule: resume_all.induct) (simp_all add: resume_exec_store resume_recon_store)

lemma finish_dispatch_store: "store_ok m \<Longrightarrow> store_ok (finish_dispatch env d key oc m)"
  by (cases "clear env d m"; cases "markOutcomeUnknown env d m"; cases "markPrepared env d m")
    (simp add: finish_dispatch_def mark_stores split: option.split sum.split)

lemma derived_hashes: "deriveRequestDigest env i = Inr d \<Longrightarrow> hash_re d \<and> hash_re (in_scopeDigest i)"
  by (auto simp: deriveRequestDigest_def assertDigest_def Let_def res_simps split: if_splits)

lemma run_prefix_store:
  assumes "store_ok m" "hash_re d" "hash_re scope"
  shows "store_ok (run_prefix env d scope m)"
proof -
  obtain m1 x where p: "prepareWithIdentity env d scope m = (m1, x)" by fastforce
  from prepare_cases [OF assms(1) p assms(2,3)] have s: "store_ok m1" by simp
  show ?thesis
  proof (cases x)
    case (Inr r)
    obtain m2 y where q: "markDispatching env (or_requestDigest r) m1 = (m2, y)" by fastforce
    with p Inr s markDispatching_cases [OF s q] show ?thesis
      by (auto simp: run_prefix_def split: sum.split)
  qed (use p s in \<open>simp add: run_prefix_def\<close>)
qed

lemma react_store: "store_ok m \<Longrightarrow> store_ok (react env x m)"
proof (induction x)
  case (Execute i)
  then show ?case
    by (auto simp: execute_def split: sum.split dest: derived_hashes intro!: run_prefix_store)
next
  case (Prepare i)
  show ?case
  proof (cases "deriveRequestDigest env i")
    case (Inr d)
    obtain m1 y where p: "prepareWithIdentity env d (in_scopeDigest i) m = (m1, y)" by fastforce
    with prepare_cases [OF Prepare p] derived_hashes [OF Inr] Inr show ?thesis by simp
  qed (use Prepare in simp)
next
  case (Dispatch_settled d r)
  then show ?case by (auto simp: dispatch_settled_def finish_dispatch_store split: option.split wait.split)
next
  case (Status_settled d a)
  then show ?case by (auto simp: status_settled_def resume_all_store split: option.split)
next
  case (Reconcile scope)
  then show ?case
    by (auto simp: reconcileProfile_def listRecords_def with_snapshot_def readSnapshot_def Let_def
      split: sum.split option.split if_splits prod.split)
next
  case (Purge scope)
  obtain m1 y where p: "prepareProfilePurge env scope m = (m1, y)" by fastforce
  have "store_ok m1"
  proof (cases rule: purge_cases [OF Purge p])
    case 1
    then show ?thesis using Purge by (simp add: store_ok_def)
  next
    case (2 ops m0)
    then show ?thesis by simp
  qed
  with p show ?case by simp
next
  case Restart
  then show ?case by simp
qed

lemma run_store: "store_ok m \<Longrightarrow> store_ok (run env xs m)"
  unfolding run_def by (induction xs arbitrary: m) (simp_all add: react_store)

text \<open>
  Whatever happens, with whatever faults of the store, clock and key factory: the stored
  snapshot passes its own validation, so no sequence of calls can lock the app out of its records.
\<close>

theorem stored_snapshot_valid: "validateSnapshot (mc_store (run env xs new_machine)) \<noteq> None"
proof -
  have "store_ok (run env xs new_machine)"
    by (rule run_store) (simp add: store_ok_def snap_def new_machine_def)
  then show ?thesis using snap_ok_valid by (simp add: store_ok_def)
qed

section \<open>At most one unresolved dispatch\<close>

text \<open>
  What a log (newest first) says about a digest: the key it was last sent with, and whether that
  dispatch may still have taken effect. It may until the outcome for that key is known; a refusal
  for lack of room keeps the key and lifts the doubt.
\<close>

fun standing :: "event list \<Rightarrow> string \<Rightarrow> (string \<times> bool) option" where
  "standing [] d = None"
| "standing (Sent d' k # es) d = (if d' = d then Some (k, True) else standing es d)"
| "standing (Known d' k # es) d =
     (if d' = d \<and> map_option fst (standing es d) = Some k then None else standing es d)"
| "standing (Busy d' k # es) d =
     (if d' = d \<and> map_option fst (standing es d) = Some k then Some (k, False) else standing es d)"
| "standing (Dropped d' # es) d =
     (if d' = d \<and> map_option snd (standing es d) = Some False then None else standing es d)"
| "standing (_ # es) d = standing es d"

text \<open>A digest is only sent when nothing stands for it, or with the same key after a refusal.\<close>

fun sends_ok :: "event list \<Rightarrow> bool" where
  "sends_ok [] = True"
| "sends_ok (Sent d k # es) = (standing es d \<in> {None, Some (k, False)} \<and> sends_ok es)"
| "sends_ok (_ # es) = sends_ok es"

definition agree :: "machine \<Rightarrow> string \<Rightarrow> bool" where
  "agree m d \<longleftrightarrow>
     (case recs m d of
        None \<Rightarrow> standing (mc_log m) d = None
      | Some r \<Rightarrow>
          if or_state r = Prepared then standing (mc_log m) d \<in> {None, Some (or_idempotencyKey r, False)}
          else standing (mc_log m) d = Some (or_idempotencyKey r, True))"

definition flight_ok :: "machine \<Rightarrow> string \<Rightarrow> bool" where
  "flight_ok m d \<longleftrightarrow>
     (case map_of (mc_inFlight m) d of
        None \<Rightarrow> map_of (mc_statusInFlight m) d = None
      | Some (w, r) \<Rightarrow>
          (\<exists>r'. recs m d = Some r' \<and> or_state r' \<noteq> Prepared \<and> or_idempotencyKey r' = or_idempotencyKey r) \<and>
          map_of (mc_statusInFlight m) d =
            (if w = Await_status then Some (or_idempotencyKey r, [Exec]) else None))"

definition single_flight :: "machine \<Rightarrow> bool" where
  "single_flight m \<longleftrightarrow> store_ok m \<and> sends_ok (mc_log m) \<and> (\<forall>d. agree m d \<and> flight_ok m d)"

lemma recs_simps [simp]:
  "recs (emit e m) = recs m" "recs (m\<lparr>mc_inFlight := f\<rparr>) = recs m"
  "recs (m\<lparr>mc_statusInFlight := g\<rparr>) = recs m" "recs (settle_exec d e m) = recs m"
  "recs (await_status r m) = recs m" "recs (restart m) = recs m" "recs (fold emit es m) = recs m"
  by (auto simp: recs_def)

lemma recs_cong: "snap m' = snap m \<Longrightarrow> recs m' = recs m"
  by (auto simp: recs_def)

lemma machine_simps [simp]:
  "mc_log (emit e m) = e # mc_log m" "mc_inFlight (emit e m) = mc_inFlight m"
  "mc_statusInFlight (emit e m) = mc_statusInFlight m"
  "mc_log (settle_exec d e m) = e # mc_log m" "mc_statusInFlight (settle_exec d e m) = mc_statusInFlight m"
  "map_of (mc_inFlight (settle_exec d e m)) = (map_of (mc_inFlight m))(d := None)"
  "mc_log (await_status r m) = mc_log m"
  "map_of (mc_inFlight (await_status r m)) = (map_of (mc_inFlight m))(or_requestDigest r \<mapsto> (Await_status, r))"
  by (simp_all add: emit_def settle_exec_def await_status_def queryStatusOnce_def Let_def delete_conv' update_conv')

lemma await_status_query:
  "map_of (mc_statusInFlight m) (or_requestDigest r) = None \<Longrightarrow>
   map_of (mc_statusInFlight (await_status r m)) =
     (map_of (mc_statusInFlight m))(or_requestDigest r \<mapsto> (or_idempotencyKey r, [Exec]))"
  by (simp add: await_status_def queryStatusOnce_def Let_def update_conv')

lemma agree_cong:
  assumes "recs m' d = recs m d" "standing (mc_log m') d = standing (mc_log m) d"
  shows "agree m' d = agree m d"
  unfolding agree_def assms by (rule refl)

lemma flight_ok_cong:
  assumes "recs m' d = recs m d" "map_of (mc_inFlight m') d = map_of (mc_inFlight m) d"
    "map_of (mc_statusInFlight m') d = map_of (mc_statusInFlight m) d"
  shows "flight_ok m' d = flight_ok m d"
  unfolding flight_ok_def assms by (rule refl)

lemma single_flight_cong:
  assumes "single_flight m" "store_ok m'" "sends_ok (mc_log m')"
    "\<And>d. recs m' d = recs m d \<and> standing (mc_log m') d = standing (mc_log m) d \<and>
       map_of (mc_inFlight m') d = map_of (mc_inFlight m) d \<and>
       map_of (mc_statusInFlight m') d = map_of (mc_statusInFlight m) d"
  shows "single_flight m'"
  using assms agree_cong flight_ok_cong unfolding single_flight_def by blast

text \<open>A step about one digest has to be checked at that digest only.\<close>

lemma single_flight_at:
  assumes "single_flight m" "store_ok m'" "sends_ok (mc_log m')"
    "\<And>d'. d' \<noteq> d \<Longrightarrow> recs m' d' = recs m d' \<and> standing (mc_log m') d' = standing (mc_log m) d' \<and>
       map_of (mc_inFlight m') d' = map_of (mc_inFlight m) d' \<and>
       map_of (mc_statusInFlight m') d' = map_of (mc_statusInFlight m) d'"
    "agree m' d" "flight_ok m' d"
  shows "single_flight m'"
  unfolding single_flight_def
proof (intro conjI allI)
  fix d'
  have old: "agree m d'" "flight_ok m d'" using assms(1) by (simp_all add: single_flight_def)
  show "agree m' d'" using old(1) assms(4,5) agree_cong by (cases "d' = d") blast+
  show "flight_ok m' d'" using old(2) assms(4,6) flight_ok_cong by (cases "d' = d") blast+
qed (use assms in simp_all)

lemma resume_exec_single:
  assumes j: "single_flight m" and f: "map_of (mc_statusInFlight m) d = Some (key, ws)"
  shows "ws = [Exec] \<and>
    single_flight (resume_exec env d key a (m\<lparr>mc_statusInFlight := AList.delete d (mc_statusInFlight m)\<rparr>))"
proof -
  have fo: "flight_ok m d" and ag: "agree m d" and so: "store_ok m" and se: "sends_ok (mc_log m)"
    using j by (simp_all add: single_flight_def)
  from fo f obtain r r' where i: "map_of (mc_inFlight m) d = Some (Await_status, r)" "or_idempotencyKey r = key" "ws = [Exec]"
    and r: "recs m d = Some r'" "or_state r' \<noteq> Prepared" "or_idempotencyKey r' = key"
    by (auto simp: flight_ok_def split: option.splits if_splits)
  have st: "standing (mc_log m) d = Some (key, True)" using ag r by (simp add: agree_def)
  let ?m = "m\<lparr>mc_statusInFlight := AList.delete d (mc_statusInFlight m)\<rparr>"
  have so': "store_ok ?m" using so by simp
  have known: "single_flight (settle_exec d e (emit (Known d key) m1))"
    if "clear env d ?m = (m1, Inr u)" "\<And>es. standing (e # es) = standing es" "\<And>es. sends_ok (e # es) = sends_ok es" for m1 u e
    using clear_cases [OF so' that(1)] se st that(2,3) r
    by (intro single_flight_at [OF j, of _ d]) (auto simp: frame_def agree_def flight_ok_def delete_conv')
  have left: "single_flight (settle_exec d (Rejected d e) m1)" if "snap m1 = snap ?m" "frame ?m m1" "store_ok m1" for m1 e
    using that se st r recs_cong [OF that(1)]
    by (intro single_flight_at [OF j, of _ d]) (auto simp: frame_def agree_def flight_ok_def delete_conv')
  have unknown: "single_flight (settle_exec d (Rejected d e) m1)" if "markOutcomeUnknown env d ?m = (m1, y)" for m1 y e
    using markOutcomeUnknown_cases [OF so' that] left [of m1 e] se st r
    by (cases y; cases "projr y")
      (auto intro!: single_flight_at [OF j, of _ d] simp: frame_def agree_def flight_ok_def delete_conv')
  obtain m1 x where c: "clear env d ?m = (m1, x)" by fastforce
  obtain m2 y where u: "markOutcomeUnknown env d ?m = (m2, y)" by fastforce
  have cl: "single_flight (case x of Inl e \<Rightarrow> settle_exec d (Rejected d e) m1
      | Inr _ \<Rightarrow> settle_exec d ev (emit (Known d key) m1))"
    if "\<And>es. standing (ev # es) = standing es" "\<And>es. sends_ok (ev # es) = sends_ok es" for ev
  proof (cases x)
    case (Inl e)
    with clear_cases [OF so' c] left show ?thesis by simp
  next
    case (Inr z)
    with known [OF c [unfolded Inr]] that show ?thesis by simp
  qed
  have "single_flight (resume_exec env d key a ?m)"
    using cl unknown [OF u] by (auto simp: resume_exec_def c u fun_eq_iff split: option.split sum.split)
  with i show ?thesis by simp
qed

lemma finish_dispatch_single:
  assumes j: "single_flight m" and i: "map_of (mc_inFlight m) d = Some (Await_dispatch, r)"
  shows "single_flight (finish_dispatch env d (or_idempotencyKey r) oc m)"
proof -
  let ?key = "or_idempotencyKey r"
  have fo: "flight_ok m d" and ag: "agree m d" and so: "store_ok m" and se: "sends_ok (mc_log m)"
    using j by (simp_all add: single_flight_def)
  from fo i obtain r' where q: "map_of (mc_statusInFlight m) d = None"
    and r: "recs m d = Some r'" "or_state r' \<noteq> Prepared" "or_idempotencyKey r' = ?key"
    by (auto simp: flight_ok_def)
  have st: "standing (mc_log m) d = Some (?key, True)" using ag r by (simp add: agree_def)
  have left: "single_flight (settle_exec d (Rejected d e) m1)" if "snap m1 = snap m" "frame m m1" "store_ok m1" for m1 e
    using that se st r q recs_cong [OF that(1)]
    by (intro single_flight_at [OF j, of _ d]) (auto simp: frame_def agree_def flight_ok_def)
  obtain m1 x where c: "clear env d m = (m1, x)" by fastforce
  obtain m2 y where u: "markOutcomeUnknown env d m = (m2, y)" by fastforce
  obtain m3 z where p: "markPrepared env d m = (m3, z)" by fastforce
  note cc = clear_cases [OF so c] and cu = markOutcomeUnknown_cases [OF so u] and cp = markPrepared_cases [OF so p]
  have cl: "single_flight (case x of Inl e \<Rightarrow> settle_exec d (Rejected d e) m1
      | Inr _ \<Rightarrow> settle_exec d ev (emit (Known d ?key) m1))"
    if "\<And>es. standing (ev # es) = standing es" "\<And>es. sends_ok (ev # es) = sends_ok es" for ev
  proof (cases x)
    case (Inl e)
    with cc left show ?thesis by simp
  next
    case (Inr w)
    have "single_flight (settle_exec d ev (emit (Known d ?key) m1))"
      using cc Inr that se st r q
      by (intro single_flight_at [OF j, of _ d]) (auto simp: frame_def agree_def flight_ok_def)
    with Inr show ?thesis by simp
  qed
  have pr: "single_flight (case z of Inl e \<Rightarrow> settle_exec d (Rejected d e) m3
      | Inr _ \<Rightarrow> settle_exec d (Rejected d f) (emit (Busy d ?key) m3))" for f
  proof (cases z)
    case (Inl e)
    with cp left show ?thesis by simp
  next
    case (Inr w)
    with cp r obtain r2 where r2: "w = Some r2" "or_idempotencyKey r2 = ?key" "or_state r2 = Prepared"
      "recs m3 = (recs m)(d \<mapsto> r2)" by (cases w) auto
    have "single_flight (settle_exec d (Rejected d f) (emit (Busy d ?key) m3))"
      using cp r2 se st q
      by (intro single_flight_at [OF j, of _ d]) (auto simp: frame_def agree_def flight_ok_def)
    with Inr show ?thesis by simp
  qed
  have un: "single_flight (case y of Inl e \<Rightarrow> settle_exec d (Rejected d e) m2
      | Inr None \<Rightarrow> settle_exec d (Rejected d Type_error) m2
      | Inr (Some r) \<Rightarrow> await_status r m2)"
  proof (cases y)
    case (Inl e)
    with cu left show ?thesis by simp
  next
    case (Inr w)
    with cu r obtain r2 where r2: "w = Some r2" "or_idempotencyKey r2 = ?key" "or_state r2 \<noteq> Prepared"
      "or_requestDigest r2 = d" "recs m2 = (recs m)(d \<mapsto> r2)" "frame m m2" "store_ok m2" by (cases w) auto
    have "map_of (mc_statusInFlight m2) d = None" using r2(6) q by (simp add: frame_def)
    with await_status_query [of m2 r2] r2 se st
    have "single_flight (await_status r2 m2)"
      by (intro single_flight_at [OF j, of _ d]) (auto simp: frame_def agree_def flight_ok_def)
    with Inr r2(1) show ?thesis by simp
  qed
  show ?thesis using cl pr un
    by (auto simp: finish_dispatch_def c u p fun_eq_iff split: option.split sum.split)
qed

lemma run_prefix_single:
  assumes j: "single_flight m" and i: "map_of (mc_inFlight m) d = None" and h: "hash_re d" "hash_re scope"
  shows "single_flight (run_prefix env d scope m)"
proof -
  have fo: "flight_ok m d" and ag: "agree m d" and so: "store_ok m" and se: "sends_ok (mc_log m)"
    using j by (simp_all add: single_flight_def)
  have q: "map_of (mc_statusInFlight m) d = None" using fo i by (simp add: flight_ok_def)
  obtain m1 x where p: "prepareWithIdentity env d scope m = (m1, x)" by fastforce
  note cp = prepare_cases [OF so p h]
  show ?thesis
  proof (cases x)
    case (Inl e)
    with cp recs_cong [of m1 m] have s: "recs m1 = recs m" "frame m m1" "store_ok m1" by auto
    have "agree (settle_exec d (Rejected d e) m1) d"
      using ag s by (cases "recs m d") (auto simp: agree_def frame_def)
    with s se q i have "single_flight (settle_exec d (Rejected d e) m1)"
      by (intro single_flight_at [OF j, of _ d]) (auto simp: frame_def flight_ok_def)
    with p Inl show ?thesis by (simp add: run_prefix_def)
  next
    case (Inr r)
    with cp recs_cong [of m1 m] have r: "recs m1 d = Some r" "frame m m1" "store_ok m1"
      "\<And>d'. d' \<noteq> d \<Longrightarrow> recs m1 d' = recs m d'" "recs m d = Some r \<or> recs m d = None \<and> or_state r = Prepared"
      by auto
    have rd: "or_requestDigest r = d" using recs_ok [OF r(3,1)] by simp
    have ag1: "agree m1 d" using ag r by (auto simp: agree_def frame_def)
    show ?thesis
    proof (cases "or_state r = Prepared")
      case False
      have "map_of (mc_statusInFlight m1) d = None" using r(2) q by (simp add: frame_def)
      with await_status_query [of m1 r] rd have
        "single_flight (await_status r m1)" using r ag1 se False
        by (intro single_flight_at [OF j, of _ d]) (auto simp: frame_def agree_def flight_ok_def)
      with p Inr False show ?thesis by (simp add: run_prefix_def)
    next
      case True
      obtain m2 y where k: "markDispatching env d m1 = (m2, y)" by fastforce
      note ck = markDispatching_cases [OF r(3) k]
      show ?thesis
      proof (cases y)
        case (Inl e)
        with ck recs_cong [of m2 m1] r ag1 se q i have
          "single_flight (settle_exec d (Rejected d e) m2)"
          by (intro single_flight_at [OF j, of _ d]) (auto simp: frame_def agree_def flight_ok_def)
        with p Inr True k Inl rd show ?thesis by (simp add: run_prefix_def)
      next
        case (Inr r2)
        with ck r True have r2: "or_idempotencyKey r2 = or_idempotencyKey r" "or_state r2 \<noteq> Prepared"
          "recs m2 = (recs m1)(d \<mapsto> r2)" "frame m1 m2" "store_ok m2" by auto
        have "standing (mc_log m1) d \<in> {None, Some (or_idempotencyKey r, False)}"
          using ag1 r(1) True by (simp add: agree_def)
        with r r2 se q have
          "single_flight (emit (Sent d (or_idempotencyKey r2)) (m2\<lparr>mc_inFlight := AList.update d (Await_dispatch, r2) (mc_inFlight m2)\<rparr>))"
          by (intro single_flight_at [OF j, of _ d]) (auto simp: frame_def agree_def flight_ok_def update_conv')
        with p \<open>x = Inr r\<close> True k Inr rd show ?thesis by (simp add: run_prefix_def)
      qed
    qed
  qed
qed

lemma prepare_single:
  assumes j: "single_flight m" and h: "hash_re d" "hash_re scope"
  shows "single_flight (fst (prepareWithIdentity env d scope m))"
proof -
  have fo: "flight_ok m d" and ag: "agree m d" and so: "store_ok m" and se: "sends_ok (mc_log m)"
    using j by (simp_all add: single_flight_def)
  obtain m1 x where p: "prepareWithIdentity env d scope m = (m1, x)" by fastforce
  note cp = prepare_cases [OF so p h]
  have "frame m m1" "store_ok m1" using cp by simp_all
  moreover have "recs m1 = recs m \<or> (\<exists>r. recs m d = None \<and> or_state r = Prepared \<and> recs m1 = (recs m)(d \<mapsto> r))"
    using cp recs_cong [of m1 m] by (cases x) auto
  ultimately have "single_flight m1"
  proof (elim disjE exE conjE)
    assume "recs m1 = recs m" "frame m m1" "store_ok m1"
    with se show ?thesis by (intro single_flight_cong [OF j]) (simp_all add: frame_def)
  next
    fix r assume "recs m d = None" "or_state r = Prepared" "recs m1 = (recs m)(d \<mapsto> r)" "frame m m1" "store_ok m1"
    with fo ag se show ?thesis
      by (intro single_flight_at [OF j, of _ d]) (auto simp: frame_def agree_def flight_ok_def split: option.splits)
  qed
  with p show ?thesis by simp
qed

lemma standing_dropped:
  "standing (mc_log (fold emit (map (\<lambda>(d, _). Dropped d) ops) m)) d =
     (if d \<in> fst ` set ops \<and> map_option snd (standing (mc_log m) d) = Some False then None else standing (mc_log m) d)"
  by (induction ops arbitrary: m) (auto split: prod.split)

lemma sends_ok_dropped:
  "sends_ok (mc_log (fold emit (map (\<lambda>(d, _). Dropped d) ops) m)) = sends_ok (mc_log m)"
  "mc_inFlight (fold emit es m) = mc_inFlight m" "mc_statusInFlight (fold emit es m) = mc_statusInFlight m"
  by (induction ops arbitrary: m, auto split: prod.split) (induction es arbitrary: m, auto)+

lemma purge_single:
  assumes j: "single_flight m"
  shows "single_flight (fst (prepareProfilePurge env scope m))"
proof -
  have so: "store_ok m" using j by (simp add: single_flight_def)
  obtain m' x where p: "prepareProfilePurge env scope m = (m', x)" by fastforce
  have "single_flight m'"
  proof (cases rule: purge_cases [OF so p])
    case 1
    with j recs_cong [OF 1(1)] store_ok_cong [OF 1(1)] show ?thesis
      by (intro single_flight_cong [OF j]) (simp_all add: frame_def single_flight_def)
  next
    case (2 ops m1)
    have l: "mc_log m1 = mc_log m" "mc_inFlight m1 = mc_inFlight m" "mc_statusInFlight m1 = mc_statusInFlight m"
      using 2(2) by (simp_all add: frame_def)
    have "agree m' d \<and> flight_ok m' d" for d
    proof -
      have o1: "agree m d" "flight_ok m d" using j by (simp_all add: single_flight_def)
      have st: "standing (mc_log m') d = (if d \<in> fst ` set ops \<and> map_option snd (standing (mc_log m) d) = Some False
          then None else standing (mc_log m) d)"
        by (simp only: 2(1) standing_dropped l)
      have r: "recs m' d = (case recs m d of None \<Rightarrow> None | Some r \<Rightarrow> if in_scope scope r then None else Some r)"
        using 2(1,4) by simp
      have f: "mc_inFlight m' = mc_inFlight m" "mc_statusInFlight m' = mc_statusInFlight m"
        using 2(1) l by (simp_all add: sends_ok_dropped)
      show ?thesis
      proof (cases "\<exists>x. recs m d = Some x \<and> in_scope scope x")
        case True
        then obtain x where x: "recs m d = Some x" "in_scope scope x" by blast
        then have "or_state x = Prepared" by (rule 2(5))
        with o1 x st r f 2(6) [of d] show ?thesis
          by (auto simp: agree_def flight_ok_def split: option.splits)
      next
        case False
        then have e: "recs m' d = recs m d" "d \<notin> fst ` set ops" using r 2(6) [of d] by (auto split: option.splits)
        with st have "standing (mc_log m') d = standing (mc_log m) d" by simp
        with e o1 f agree_cong [of m' d m] flight_ok_cong [of m' d m] show ?thesis by simp
      qed
    qed
    moreover have "sends_ok (mc_log m')" using 2(1) l j by (simp add: sends_ok_dropped single_flight_def)
    moreover have "store_ok m'" using 2(1,3) by simp
    ultimately show ?thesis by (simp add: single_flight_def)
  qed
  with p show ?thesis by simp
qed

definition no_reconcile :: "stimulus \<Rightarrow> bool" where
  "no_reconcile x = (case x of Reconcile _ \<Rightarrow> False | _ \<Rightarrow> True)"

lemma emit_single: "single_flight m \<Longrightarrow> single_flight (emit (Rejected d e) m)"
  by (rule single_flight_cong, assumption) (simp_all add: single_flight_def)

lemma react_single:
  assumes j: "single_flight m" and x: "no_reconcile x"
  shows "single_flight (react env x m)"
proof (cases x)
  case (Execute i)
  show ?thesis
  proof (cases "deriveRequestDigest env i")
    case (Inl e)
    with Execute j show ?thesis by (simp add: execute_def emit_single)
  next
    case (Inr d)
    with derived_hashes [OF Inr] Execute j run_prefix_single [OF j] show ?thesis
      by (cases "map_of (mc_inFlight m) d") (simp_all add: execute_def)
  qed
next
  case (Prepare i)
  show ?thesis
  proof (cases "deriveRequestDigest env i")
    case (Inr d)
    with derived_hashes [OF Inr] Prepare j show ?thesis by (simp add: prepare_single)
  qed (use Prepare j in simp)
next
  case (Dispatch_settled d r)
  with j finish_dispatch_single [OF j, of d] show ?thesis
    by (simp add: dispatch_settled_def split: option.split wait.split prod.split)
next
  case (Status_settled d a)
  show ?thesis
  proof (cases "map_of (mc_statusInFlight m) d")
    case (Some kw)
    obtain key ws where kw: "kw = (key, ws)" by fastforce
    from resume_exec_single [OF j Some [unfolded kw]] Some kw Status_settled show ?thesis
      by (simp add: status_settled_def)
  qed (use Status_settled j in \<open>simp add: status_settled_def\<close>)
next
  case (Purge scope)
  with purge_single [OF j] show ?thesis by simp
next
  case Restart
  have "agree (restart m) d = agree m d" for d
    by (rule agree_cong) (simp_all add: restart_def recs_def)
  moreover have "flight_ok (restart m) d" for d by (simp add: restart_def flight_ok_def)
  moreover have "mc_log (restart m) = mc_log m" by (simp add: restart_def)
  ultimately have "single_flight (restart m)" using j by (simp add: single_flight_def)
  with Restart show ?thesis by simp
qed (use x in \<open>simp add: no_reconcile_def\<close>)

lemma run_single:
  "single_flight m \<Longrightarrow> list_all no_reconcile xs \<Longrightarrow> single_flight (run env xs m)"
  unfolding run_def by (induction xs arbitrary: m) (simp_all add: react_single)

lemma new_machine_single: "single_flight new_machine"
  by (simp add: single_flight_def agree_def flight_ok_def recs_def store_ok_def snap_def new_machine_def
    empty_snapshot_def snap_ok_def snapshot_keys_def max_safe_def)


section \<open>Concrete runs\<close>

text \<open>The digests of concrete runs are checked character by character.\<close>

lemma hash_re_code [code]:
  "hash_re s \<longleftrightarrow> length s = 64 \<and> list_all (\<lambda>c. c \<in> set ''0123456789abcdef'') s"
proof -
  have "is_digit c \<or> (let n = of_char c :: nat in 97 \<le> n \<and> n \<le> 102) \<longleftrightarrow> c \<in> set ''0123456789abcdef''" for c
  proof -
    have "\<forall>c \<in> set (enum_class.enum :: char list).
        is_digit c \<or> (let n = of_char c :: nat in 97 \<le> n \<and> n \<le> 102) \<longleftrightarrow> c \<in> set ''0123456789abcdef''"
      by code_simp
    then show ?thesis by (simp add: enum_UNIV)
  qed
  then show ?thesis by (simp only: hash_re_def)
qed

definition demo_hash :: string where
  "demo_hash = replicate 64 (CHR ''0'')"

definition other_hash :: string where
  "other_hash = replicate 64 (CHR ''1'')"

lemma demo_hash_re [simp]: "hash_re demo_hash" "hash_re other_hash" "demo_hash \<noteq> other_hash"
proof -
  show "hash_re demo_hash" "hash_re other_hash" by (simp_all add: hash_re_def demo_hash_def other_hash_def list_all_iff is_digit_def)
  show "demo_hash \<noteq> other_hash" by (simp add: demo_hash_def other_hash_def numeral_eq_Suc)
qed

definition demo_op_env :: op_env where
  "demo_op_env = \<lparr>ev_hash = (\<lambda>(_, _, path, _). if path = ''/a'' then demo_hash else other_hash),
     ev_keyFactory = (\<lambda>_ _ _ g. Some (''key-000'' @ [digit_char (nat g)])),
     ev_clock = (\<lambda>n. Some (int n)), ev_readFault = (\<lambda>_. False), ev_writeFault = (\<lambda>_. False)\<rparr>"

definition demo_input :: "string \<Rightarrow> op_input" where
  "demo_input path = \<lparr>in_scopeDigest = demo_hash, in_method = ''POST'', in_pathname = path, in_query = [], in_body = JNull\<rparr>"

definition lost :: outcome where
  "lost = \<lparr>oc_kind = ''outcome_unknown'', oc_result = None, oc_error = None\<rparr>"

definition completed_answer :: answer where
  "completed_answer = \<lparr>an_status = ''completed'', an_result = Some JNull, an_error = None\<rparr>"

text \<open>
  The app starts with two requests of unknown outcome and reconciles its profile. While the status
  of the first is awaited, the second is resolved by the user's retry, submitted anew under a new
  key, and loses its answer. Then the loop comes to its stale record of the second.
\<close>

definition race :: "stimulus list" where
  "race = [Execute (demo_input ''/b''), Execute (demo_input ''/a''), Restart, Reconcile demo_hash,
     Execute (demo_input ''/a''), Status_settled demo_hash (Some completed_answer),
     Execute (demo_input ''/a''), Dispatch_settled demo_hash (Inr lost), Status_settled demo_hash None,
     Status_settled other_hash (Some completed_answer), Status_settled demo_hash (Some completed_answer),
     Execute (demo_input ''/a'')]"


text \<open>
  With a profile reconciled at the same time it can happen: the loop asks for the key of
  its stale record, and on the answer clears the record of the newer dispatch, whose outcome is
  unknown; the next retry is sent under a fresh key.
\<close>

theorem reconcile_forgets_dispatch:
  "hd (mc_log (run demo_op_env race new_machine)) = Sent demo_hash ''key-0004'' \<and>
   standing (tl (mc_log (run demo_op_env race new_machine))) demo_hash = Some (''key-0003'', True)"
  by (intro conjI; code_simp)

text \<open>A recorded diagnostic is read back as it was redacted.\<close>

lemma diagnostic_roundtrip:
  "read_diagnostic
     (\<lparr>ro_status = Some (dg_status d), ro_code = Some (dg_code d), ro_message = None, ro_error = None, ro_reuse = False\<rparr>,
      Some (dg_timestamp d)) = Some d"
  if "d = createRedactedReconciliationDiagnostic e now"
proof -
  have "error_code_re ''RECONCILIATION_FAILED''" by code_simp
  with that show ?thesis
    by (auto simp: read_diagnostic_def createRedactedReconciliationDiagnostic_def Let_def str_of_def split: option.split)
qed

end
