(* ===== verification/SplitAllocation.thy ===== *)
theory SplitAllocation
  imports CentAllocation
begin

text \<open>
  Splitting a transaction in the app: \<open>finance-app/src/lib/split-allocation.js\<close>. The big integers of
  the code are \<^typ>\<open>int\<close>; the quotient of the equal split is the rounded binary64 quotient.
\<close>

section \<open>Cents and texts\<close>

definition isSafeCents :: "jsnum \<Rightarrow> bool" where
  "isSafeCents v \<longleftrightarrow> js_safe_integer v \<and> v \<noteq> NegZero"

fun dollarsToIntegerCents :: "jsval \<Rightarrow> int option" where
  "dollarsToIntegerCents (JNum v) =
     (if \<not> js_is_finite v \<or> v = NegZero then None
      else let cents = js_round (js_mul v (Fin 100)) in
        if \<not> js_safe_integer cents \<or> js_div cents (Fin 100) \<noteq> v then None else Some (js_to_int cents))"
| "dollarsToIntegerCents _ = None"

definition centsToDollars :: "jsnum \<Rightarrow> jsnum res" where
  "centsToDollars cents =
     (if \<not> isSafeCents cents then Inl (TypeError ''cents must be a safe integer'') else Inr (js_div cents (Fin 100)))"

text \<open>\<open>^\d+(?:\.\d{1,n})?$\<close>, the fraction unbounded where \<open>n\<close> is \<open>None\<close>: its two digit strings.\<close>

definition decimal_text :: "nat option \<Rightarrow> string \<Rightarrow> (string \<times> string) option" where
  "decimal_text n s =
     (let whole = takeWhile is_digit s; rest = dropWhile is_digit s in
      if whole = [] then None
      else case rest of
        [] \<Rightarrow> Some (whole, [])
      | c # fraction \<Rightarrow>
          if c = CHR ''.'' \<and> fraction \<noteq> [] \<and> list_all is_digit fraction \<and>
             (case n of None \<Rightarrow> True | Some k \<Rightarrow> length fraction \<le> k)
          then Some (whole, fraction) else None)"

fun parseStrictSpecificCents :: "jsval \<Rightarrow> int option" where
  "parseStrictSpecificCents (JStr text) =
     (if text = [] \<or> 64 < length text then None
      else case decimal_text (Some 2) text of
        None \<Rightarrow> None
      | Some (whole, fraction) \<Rightarrow>
          (let cents = int (dec_val whole) * 100 + int (dec_val (fraction @ replicate (2 - length fraction) (CHR ''0'')))
           in if cents \<le> max_safe then Some cents else None))"
| "parseStrictSpecificCents _ = None"

fun parseStrictPercent :: "jsval \<Rightarrow> (int \<times> int) option" where
  "parseStrictPercent (JStr text) =
     (if text = [] \<or> 64 < length text then None
      else case decimal_text None text of
        None \<Rightarrow> None
      | Some (whole, fraction) \<Rightarrow>
          (let scale = 10 ^ length fraction;
               numerator = int (dec_val whole) * scale + int (dec_val fraction)
           in if 100 * scale < numerator then None else Some (numerator, scale)))"
| "parseStrictPercent _ = None"

definition roundPositiveRatio :: "int \<Rightarrow> int \<Rightarrow> int" where
  "roundPositiveRatio numerator denominator =
     numerator div denominator + (if denominator \<le> numerator mod denominator * 2 then 1 else 0)"

definition pad_left :: "nat \<Rightarrow> string \<Rightarrow> string" where
  "pad_left n s = replicate (n - length s) (CHR ''0'') @ s"

definition formatSplitDollars :: "jsnum \<Rightarrow> string res" where
  "formatSplitDollars v =
     (if \<not> isSafeCents v then Inl (TypeError ''cents must be a safe integer'')
      else let cents = js_to_int v; magnitude = \<bar>cents\<bar> in
        Inr ((if cents < 0 then ''-'' else []) @ dec (nat (js_floor_div magnitude 100)) @ ''.'' @
             pad_left 2 (dec (nat (magnitude mod 100)))))"

definition formatSplitPercent :: "jsnum \<Rightarrow> jsnum \<Rightarrow> int \<Rightarrow> string res" where
  "formatSplitPercent c t decimalPlaces =
     (if \<not> isSafeCents c \<or> \<not> isSafeCents t \<or> t = Fin 0 then Inr []
      else if decimalPlaces < 0 \<or> 6 < decimalPlaces
      then Inl (RangeError ''decimal places must be an integer from 0 through 6'')
      else let cents = js_to_int c; scale = 10 ^ nat decimalPlaces;
               scaled = roundPositiveRatio (\<bar>cents\<bar> * 100 * scale) \<bar>js_to_int t\<bar>;
               fraction = (if decimalPlaces = 0 then []
                 else rev (dropWhile (\<lambda>d. d = CHR ''0'') (rev (pad_left (nat decimalPlaces) (dec (nat (scaled mod scale)))))))
           in Inr ((if cents < 0 then ''-'' else []) @ dec (nat (scaled div scale)) @
                   (if fraction = [] then [] else CHR ''.'' # fraction)))"

section \<open>The allocation\<close>

record leg =
  leg_amount :: jsval
  leg_percent :: jsval

record split_result =
  sr_parentCents :: "int option"
  sr_legCents :: "int list option"
  sr_displayCents :: "int list option"
  sr_inputValid :: bool
  sr_conservesCents :: bool
  sr_allLegsPositive :: bool
  sr_canSave :: bool

definition invalidAllocation :: "int option \<Rightarrow> split_result" where
  "invalidAllocation parent =
     \<lparr>sr_parentCents = parent, sr_legCents = None, sr_displayCents = None, sr_inputValid = False,
      sr_conservesCents = False, sr_allLegsPositive = False, sr_canSave = False\<rparr>"

definition safeBigIntToNumber :: "int \<Rightarrow> int option" where
  "safeBigIntToNumber v = (if v < - max_safe \<or> max_safe < v then None else Some v)"

definition signedCents :: "int \<Rightarrow> int \<Rightarrow> int" where
  "signedCents v sign = (if v = 0 then 0 else v * sign)"

definition leg_cents :: "string \<Rightarrow> int \<Rightarrow> leg \<Rightarrow> int option" where
  "leg_cents mode totalMagnitude l =
     (if mode = ''specific'' then parseStrictSpecificCents (leg_amount l)
      else case parseStrictPercent (leg_percent l) of
        None \<Rightarrow> None
      | Some (numerator, scale) \<Rightarrow>
          safeBigIntToNumber (roundPositiveRatio (totalMagnitude * numerator) (100 * scale)))"

fun assign_legs :: "string \<Rightarrow> int \<Rightarrow> leg list \<Rightarrow> int list option" where
  "assign_legs mode totalMagnitude [] = Some []"
| "assign_legs mode totalMagnitude (l # ls) =
     (case leg_cents mode totalMagnitude l of
        None \<Rightarrow> None
      | Some c \<Rightarrow> map_option (\<lambda>cs. c # cs) (assign_legs mode totalMagnitude ls))"

definition magnitudes :: "string \<Rightarrow> int \<Rightarrow> leg list \<Rightarrow> int list option" where
  "magnitudes mode totalMagnitude legs =
     (if mode = ''equal''
      then let n = int (length legs); quotient = js_floor_div totalMagnitude n; remainder = totalMagnitude mod n in
        Some (map (\<lambda>i. quotient + (if int i < remainder then 1 else 0)) [0..<length legs])
      else case assign_legs mode totalMagnitude (tl legs) of
        None \<Rightarrow> None
      | Some cs \<Rightarrow> map_option (\<lambda>r. r # cs) (safeBigIntToNumber (totalMagnitude - sum_list cs)))"

definition allocateSplitCents :: "jsnum \<Rightarrow> string \<Rightarrow> leg list \<Rightarrow> split_result" where
  "allocateSplitCents parent mode legs =
     (if \<not> isSafeCents parent then invalidAllocation None
      else let parentCents = js_to_int parent in
        if mode \<notin> set [''equal'', ''specific'', ''percent''] \<or> length legs < 1 \<or> 100 < length legs
        then invalidAllocation (Some parentCents)
        else let sign = (if parentCents < 0 then - 1 else 1) in
          case magnitudes mode \<bar>parentCents\<bar> legs of
            None \<Rightarrow> invalidAllocation (Some parentCents)
          | Some ms \<Rightarrow>
              (let legCents = map (\<lambda>c. signedCents c sign) ms;
                   displayCents = map (\<lambda>c. signedCents c sign) legCents;
                   conserves = (sum_list legCents = parentCents);
                   positive = list_all (\<lambda>c. 0 < c) displayCents
               in \<lparr>sr_parentCents = Some parentCents, sr_legCents = Some legCents, sr_displayCents = Some displayCents,
                   sr_inputValid = True, sr_conservesCents = conserves, sr_allLegsPositive = positive,
                   sr_canSave = (2 \<le> length legs \<and> conserves \<and> positive)\<rparr>))"

section \<open>Conservation\<close>

lemma signedCents_mult [simp]: "signedCents v s = v * s"
  by (simp add: signedCents_def)

lemma sum_signed: "sum_list (map (\<lambda>c. c * s) ms) = sum_list ms * (s::int)"
  by (induction ms) (simp_all add: algebra_simps)

lemma assign_legs_length: "assign_legs mode t ls = Some cs \<Longrightarrow> length cs = length ls"
  by (induction ls arbitrary: cs) (auto split: option.splits)

lemma isSafeCents_int:
  assumes "isSafeCents v"
  shows "v = js_of_int (js_to_int v)" "safe_int (js_to_int v)"
  using assms by (cases v; simp add: isSafeCents_def)+

text \<open>The shares of an equal split, as the day-by-day formula of the dashboard gives them.\<close>

definition equal_share :: "int \<Rightarrow> nat \<Rightarrow> nat \<Rightarrow> int" where
  "equal_share t n i = t div int n + (if int i < t mod int n then 1 else 0)"

lemma equal_magnitudes:
  assumes "0 \<le> t" "safe_int t" "0 < length legs" "length legs \<le> 100"
  shows "magnitudes ''equal'' t legs = Some (map (equal_share t (length legs)) [0..<length legs])"
proof -
  have "js_floor_div t (int (length legs)) = t div int (length legs)"
    using assms by (intro js_floor_div_exact) (auto simp: safe_int_def)
  then show ?thesis by (simp add: magnitudes_def Let_def equal_share_def [abs_def])
qed

lemma magnitudes_sum:
  assumes "0 \<le> t" "safe_int t" "0 < length legs" "length legs \<le> 100" "magnitudes mode t legs = Some ms"
  shows "sum_list ms = t \<and> length ms = length legs"
proof (cases "mode = ''equal''")
  case True
  let ?n = "int (length legs)"
  have e: "0 \<le> t mod ?n" "t mod ?n < ?n" using assms by simp_all
  have "sum_list (map (equal_share t (length legs)) [0..<length legs]) =
      sum_list (map (\<lambda>i. 1 * (t div ?n + (if int i < t mod ?n then 1 else 0))) [0..<length legs])"
    by (simp add: equal_share_def [abs_def])
  also have "\<dots> = t"
    unfolding sum_list_early using e by (simp add: max_absorb2 min_absorb2)
  finally have "sum_list (map (equal_share t (length legs)) [0..<length legs]) = t" .
  moreover have "ms = map (equal_share t (length legs)) [0..<length legs]"
    using assms True equal_magnitudes by simp
  ultimately show ?thesis by simp
next
  case False
  with assms obtain cs where c: "assign_legs mode t (tl legs) = Some cs" "ms = (t - sum_list cs) # cs"
    by (auto simp: magnitudes_def safeBigIntToNumber_def split: option.splits if_splits)
  then show ?thesis using assms(3) assign_legs_length [OF c(1)] by simp
qed

text \<open>
  A split whose input is valid conserves the parent amount to the cent, one leg per input
  leg; and it can be saved exactly when it has at least two legs and every leg carries the sign of
  the parent.
\<close>

theorem split_conserves:
  assumes "sr_inputValid (allocateSplitCents parent mode legs)"
  shows "\<exists>ls. sr_legCents (allocateSplitCents parent mode legs) = Some ls \<and> length ls = length legs \<and>
    sum_list ls = js_to_int parent \<and> sr_conservesCents (allocateSplitCents parent mode legs) \<and>
    (sr_canSave (allocateSplitCents parent mode legs) \<longleftrightarrow>
       2 \<le> length legs \<and> (\<forall>l \<in> set ls. l \<noteq> 0 \<and> sgn l = sgn (js_to_int parent)))"
proof -
  let ?p = "js_to_int parent"
  let ?s = "if ?p < 0 then - 1 else 1 :: int"
  from assms obtain ms where v: "isSafeCents parent" "0 < length legs" "length legs \<le> 100"
    "mode \<in> set [''equal'', ''specific'', ''percent'']" "magnitudes mode \<bar>?p\<bar> legs = Some ms"
    by (auto simp: allocateSplitCents_def invalidAllocation_def Let_def not_less split: if_splits option.splits)
  from isSafeCents_int [OF v(1)] have sp: "safe_int \<bar>?p\<bar>" by (simp add: safe_int_def)
  from magnitudes_sum [OF _ sp v(2,3,5)] have ms: "sum_list ms = \<bar>?p\<bar>" "length ms = length legs" by simp_all
  have r: "allocateSplitCents parent mode legs =
     \<lparr>sr_parentCents = Some ?p, sr_legCents = Some (map (\<lambda>c. c * ?s) ms),
      sr_displayCents = Some (map (\<lambda>c. c * ?s) (map (\<lambda>c. c * ?s) ms)), sr_inputValid = True,
      sr_conservesCents = (sum_list (map (\<lambda>c. c * ?s) ms) = ?p),
      sr_allLegsPositive = list_all (\<lambda>c. 0 < c) (map (\<lambda>c. c * ?s) (map (\<lambda>c. c * ?s) ms)),
      sr_canSave = (2 \<le> length legs \<and> sum_list (map (\<lambda>c. c * ?s) ms) = ?p \<and>
        list_all (\<lambda>c. 0 < c) (map (\<lambda>c. c * ?s) (map (\<lambda>c. c * ?s) ms)))\<rparr>"
    using v by (simp add: allocateSplitCents_def Let_def)
  have c: "sum_list (map (\<lambda>c. c * ?s) ms) = ?p" unfolding sum_signed ms by simp
  have pos: "0 < \<bar>?p\<bar>" if pl: "list_all (\<lambda>c. 0 < c) ms" and n: "2 \<le> length legs"
  proof -
    obtain x xs where x: "ms = x # xs" using n ms(2) by (cases ms) auto
    then have "0 \<le> sum_list xs" using pl by (intro sum_list_nonneg) (auto simp: list_all_iff intro: less_imp_le)
    with x pl ms(1) have "\<bar>?p\<bar> = x + sum_list xs" "0 < x" by simp_all
    with \<open>0 \<le> sum_list xs\<close> show ?thesis by linarith
  qed
  have "2 \<le> length legs \<and> list_all (\<lambda>c. 0 < c) ms \<longleftrightarrow>
      2 \<le> length legs \<and> (\<forall>l \<in> set (map (\<lambda>c. c * ?s) ms). l \<noteq> 0 \<and> sgn l = sgn ?p)"
  proof (cases "?p = 0")
    case True
    with pos show ?thesis using ms(2) by (cases ms) (auto simp: sgn_0_0)
  next
    case False
    then show ?thesis by (auto simp: list_all_iff sgn_if split: if_splits)
  qed
  moreover have mm: "map (\<lambda>c. c * ?s) (map (\<lambda>c. c * ?s) ms) = ms" by (induction ms) auto
  ultimately show ?thesis
    using ms(2) c by (intro exI [of _ "map (\<lambda>c. c * ?s) ms"]) (simp only: r mm split_result.simps length_map, blast)
qed

text \<open>
  An equal split of a safe amount into one to a hundred legs is always valid, its legs
  differ by at most a cent, and the larger ones come first.
\<close>

theorem equal_split_fair:
  assumes "isSafeCents parent" "1 \<le> length legs" "length legs \<le> 100"
  shows "sr_displayCents (allocateSplitCents parent ''equal'' legs) =
    Some (map (equal_share \<bar>js_to_int parent\<bar> (length legs)) [0..<length legs])"
proof -
  let ?p = "js_to_int parent"
  let ?s = "if ?p < 0 then - 1 else 1 :: int"
  have "safe_int \<bar>?p\<bar>" using isSafeCents_int [OF assms(1)] by (simp add: safe_int_def)
  with assms have "magnitudes ''equal'' \<bar>?p\<bar> legs = Some (map (equal_share \<bar>?p\<bar> (length legs)) [0..<length legs])"
    by (intro equal_magnitudes) auto
  with assms show ?thesis by (auto simp: allocateSplitCents_def Let_def)
qed

section \<open>Dollar texts\<close>

lemma takeWhile_digits: "list_all is_digit s \<Longrightarrow> takeWhile is_digit (s @ c # r) = (if is_digit c then s @ takeWhile is_digit (c # r) else s)"
  by (induction s) auto

lemma dropWhile_digits: "list_all is_digit s \<Longrightarrow> \<not> is_digit c \<Longrightarrow> dropWhile is_digit (s @ c # r) = c # r"
  by (induction s) auto

lemma dec_length_le: "n < 10 ^ k \<Longrightarrow> 0 < k \<Longrightarrow> length (dec n) \<le> k"
proof (induction k arbitrary: n)
  case (Suc k)
  show ?case
  proof (cases "n < 10")
    case True
    then show ?thesis by (subst dec.simps) simp
  next
    case False
    then have "k \<noteq> 0" using Suc.prems(1) by (cases k) auto
    then have "length (dec (n div 10)) \<le> k" using Suc by (simp add: less_mult_imp_div_less algebra_simps)
    with False show ?thesis by (subst dec.simps) simp
  qed
qed simp

lemma dec_nonempty [simp]: "dec n \<noteq> []"
  by (subst dec.simps) auto

lemma pad2_dec:
  assumes "n < 100"
  shows "length (pad_left 2 (dec n)) = 2" "list_all is_digit (pad_left 2 (dec n))" "dec_val (pad_left 2 (dec n)) = n"
proof -
  have "length (dec n) = 1 \<or> length (dec n) = 2" using dec_length_le [of n 2] assms
    by (cases "dec n") (auto simp: le_Suc_eq numeral_2_eq_2)
  moreover have z: "is_digit (CHR ''0'')" by (simp add: is_digit_def)
  moreover have "dec_val (CHR ''0'' # s) = dec_val s" for s by (simp add: dec_val_Cons digit_val_def)
  ultimately show "length (pad_left 2 (dec n)) = 2" "list_all is_digit (pad_left 2 (dec n))"
    "dec_val (pad_left 2 (dec n)) = n"
    by (auto simp: pad_left_def numeral_2_eq_2)
qed

text \<open>A printed amount reads back as the cents it was printed from.\<close>

theorem split_dollars_roundtrip:
  assumes "0 \<le> c" "c \<le> max_safe"
  shows "map_sum id (\<lambda>s. parseStrictSpecificCents (JStr s)) (formatSplitDollars (js_of_int c)) = Inr (Some c)"
proof -
  let ?w = "dec (nat (c div 100))" and ?f = "pad_left 2 (dec (nat (c mod 100)))"
  have f: "length ?f = 2" "list_all is_digit ?f" "dec_val ?f = nat (c mod 100)"
    by (simp_all add: pad2_dec nat_less_iff)
  have fl: "js_floor_div c 100 = c div 100" using assms by (intro js_floor_div_exact) (auto simp: safe_int_def)
  have fmt: "formatSplitDollars (js_of_int c) = Inr (?w @ ''.'' @ ?f)"
    using assms fl by (simp add: formatSplitDollars_def isSafeCents_def safe_int_def Let_def)
  have "nat (c div 100) < 10 ^ 15" using assms by (simp add: max_safe_def nat_less_iff)
  then have lw: "length ?w \<le> 15" by (rule dec_length_le) simp
  have nd: "\<not> is_digit (CHR ''.'')" by (simp add: is_digit_def)
  have "decimal_text (Some 2) (?w @ ''.'' @ ?f) = Some (?w, ?f)"
    using f nd by (auto simp: decimal_text_def Let_def takeWhile_digits dropWhile_digits)
  moreover have "int (nat (c div 100)) * 100 + int (nat (c mod 100)) = c"
    using assms by (simp add: pos_imp_zdiv_nonneg_iff)
  ultimately have "parseStrictSpecificCents (JStr (?w @ ''.'' @ ?f)) = Some c"
    using f lw assms by (simp add: Let_def)
  with fmt show ?thesis by simp
qed

section \<open>Witnesses\<close>

lemma split_conserves_witness:
  "sum_list [- 34, - 33, - 33] = js_to_int (js_of_int (- 100)) \<and>
   sr_canSave (allocateSplitCents (js_of_int (- 100)) ''equal'' (replicate 3 \<lparr>leg_amount = JUndef, leg_percent = JUndef\<rparr>))"
proof -
  let ?legs = "replicate 3 \<lparr>leg_amount = JUndef, leg_percent = JUndef\<rparr>"
  have ms: "magnitudes ''equal'' 100 ?legs = Some [34, 33, 33]"
    by (simp add: equal_magnitudes safe_int_def max_safe_def equal_share_def upt_rec numeral_3_eq_3)
  have "sr_inputValid (allocateSplitCents (js_of_int (- 100)) ''equal'' ?legs) \<and>
      sr_legCents (allocateSplitCents (js_of_int (- 100)) ''equal'' ?legs) = Some [- 34, - 33, - 33]"
    using ms by (simp add: allocateSplitCents_def isSafeCents_def safe_int_def max_safe_def Let_def)
  then show ?thesis using split_conserves [of "js_of_int (- 100)" "''equal''" ?legs] by auto
qed

lemma equal_split_fair_witness:
  "sr_displayCents (allocateSplitCents (js_of_int 100) ''equal'' (replicate 3 \<lparr>leg_amount = JUndef, leg_percent = JUndef\<rparr>))
   = Some [34, 33, 33]"
  using equal_split_fair [of "js_of_int 100" "replicate 3 \<lparr>leg_amount = JUndef, leg_percent = JUndef\<rparr>"]
  by (simp add: isSafeCents_def safe_int_def max_safe_def equal_share_def upt_rec numeral_3_eq_3)

lemma split_dollars_roundtrip_witness:
  "map_sum id (\<lambda>s. parseStrictSpecificCents (JStr s)) (formatSplitDollars (js_of_int 123405)) = Inr (Some 123405)"
  by (rule split_dollars_roundtrip) (simp_all add: max_safe_def)

end
