(* ===== verification/BoundedList.thy ===== *)
theory BoundedList
  imports JsValue
begin

text \<open>
  The pages of a list: \<open>finance-dashboard/lib/bounded-list.js\<close>. A limit or an offset is the number that
  \<open>Number\<close> makes of the option; the limits of the server are integers.
\<close>

section \<open>Definitions\<close>

definition boundedString :: "string \<Rightarrow> nat \<Rightarrow> string" where
  "boundedString v maxLength = take maxLength v"

record limits =
  li_default :: int
  li_max :: int
  li_maxOffset :: int

definition default_limits :: limits where
  "default_limits = \<lparr>li_default = 50, li_max = 100, li_maxOffset = 1000000\<rparr>"

definition normalizeBoundedListOptions :: "jsnum \<Rightarrow> jsnum \<Rightarrow> limits \<Rightarrow> int \<times> int" where
  "normalizeBoundedListOptions limit offset l =
     (let p = js_to_int limit; q = js_to_int offset in
      (if js_safe_integer limit \<and> 0 < p then min p (li_max l) else li_default l,
       if js_safe_integer offset \<and> 0 \<le> q then min q (li_maxOffset l) else 0))"

record 'a page =
  pg_items :: "'a list"
  pg_truncated :: bool
  pg_limit :: int
  pg_offset :: int
  pg_nextOffset :: "int option"
  pg_complete :: bool
  pg_total :: int

text \<open>\<open>source.slice(a, b)\<close> for \<open>a\<close> and \<open>b\<close> that are not negative.\<close>

definition js_slice :: "int \<Rightarrow> int \<Rightarrow> 'a list \<Rightarrow> 'a list" where
  "js_slice a b xs = take (nat (b - a)) (drop (nat a) xs)"

definition paginateBoundedList :: "'a list \<Rightarrow> jsnum \<Rightarrow> jsnum \<Rightarrow> limits \<Rightarrow> 'a page" where
  "paginateBoundedList source limit offset l =
     (case normalizeBoundedListOptions limit offset l of (k, off) \<Rightarrow>
        let n = int (length source); stop = min n (off + k); cmpl = (n \<le> stop) in
        \<lparr>pg_items = js_slice off stop source, pg_truncated = (\<not> cmpl), pg_limit = k, pg_offset = off,
         pg_nextOffset = (if cmpl then None else Some stop), pg_complete = cmpl, pg_total = n\<rparr>)"

text \<open>A client that follows \<open>nextOffset\<close>, with fuel for the pages.\<close>

fun fetch_all :: "nat \<Rightarrow> 'a list \<Rightarrow> jsnum \<Rightarrow> int \<Rightarrow> limits \<Rightarrow> 'a list option" where
  "fetch_all 0 source limit off l = None"
| "fetch_all (Suc fuel) source limit off l =
     (let p = paginateBoundedList source limit (js_of_int off) l in
      case pg_nextOffset p of
        None \<Rightarrow> Some (pg_items p)
      | Some next \<Rightarrow> map_option (\<lambda>xs. pg_items p @ xs) (fetch_all fuel source limit next l))"

section \<open>Properties\<close>

definition limits_ok :: "limits \<Rightarrow> bool" where
  "limits_ok l \<longleftrightarrow> 1 \<le> li_default l \<and> 1 \<le> li_max l \<and> li_maxOffset l \<le> max_safe"

lemma limit_pos: "limits_ok l \<Longrightarrow> 1 \<le> fst (normalizeBoundedListOptions limit offset l)"
  by (auto simp: normalizeBoundedListOptions_def limits_ok_def Let_def)

lemma page_of:
  assumes "limits_ok l" "0 \<le> off" "off \<le> li_maxOffset l"
  obtains k where "1 \<le> k"
    "paginateBoundedList source limit (js_of_int off) l =
       (let n = int (length source); stop = min n (off + k); cmpl = (n \<le> stop) in
        \<lparr>pg_items = js_slice off stop source, pg_truncated = (\<not> cmpl), pg_limit = k, pg_offset = off,
         pg_nextOffset = (if cmpl then None else Some stop), pg_complete = cmpl, pg_total = n\<rparr>)"
proof
  show "1 \<le> fst (normalizeBoundedListOptions limit (js_of_int off) l)" using assms(1) by (rule limit_pos)
  have "snd (normalizeBoundedListOptions limit (js_of_int off) l) = off"
    using assms by (simp add: normalizeBoundedListOptions_def Let_def limits_ok_def safe_int_def)
  then show "paginateBoundedList source limit (js_of_int off) l =
       (let n = int (length source); stop = min n (off + fst (normalizeBoundedListOptions limit (js_of_int off) l)); cmpl = (n \<le> stop) in
        \<lparr>pg_items = js_slice off stop source, pg_truncated = (\<not> cmpl), pg_limit = fst (normalizeBoundedListOptions limit (js_of_int off) l), pg_offset = off,
         pg_nextOffset = (if cmpl then None else Some stop), pg_complete = cmpl, pg_total = n\<rparr>)"
    by (simp add: paginateBoundedList_def case_prod_beta)
qed

lemma fetch_from:
  assumes "limits_ok l" "int (length source) \<le> li_maxOffset l" "0 \<le> off" "off \<le> int (length source)"
    "length source < nat off + fuel"
  shows "fetch_all fuel source limit off l = Some (drop (nat off) source)"
  using assms
proof (induction fuel arbitrary: off)
  case (Suc fuel)
  obtain k where k: "1 \<le> k"
    "paginateBoundedList source limit (js_of_int off) l =
       (let n = int (length source); stop = min n (off + k); cmpl = (n \<le> stop) in
        \<lparr>pg_items = js_slice off stop source, pg_truncated = (\<not> cmpl), pg_limit = k, pg_offset = off,
         pg_nextOffset = (if cmpl then None else Some stop), pg_complete = cmpl, pg_total = n\<rparr>)"
    using page_of [of l off source limit] Suc.prems by auto
  show ?case
  proof (cases "int (length source) \<le> off + k")
    case True
    then have "js_slice off (int (length source)) source = drop (nat off) source"
      using Suc.prems by (simp add: js_slice_def nat_diff_distrib)
    with True k show ?thesis by (simp add: Let_def)
  next
    case False
    have "fetch_all fuel source limit (off + k) l = Some (drop (nat (off + k)) source)"
      using Suc.prems False k(1) by (intro Suc.IH) auto
    moreover have "take (nat k) (drop (nat off) source) @ drop (nat (off + k)) source = drop (nat off) source"
      using Suc.prems(3) k(1) append_take_drop_id [of "nat k" "drop (nat off) source"]
      by (simp add: nat_add_distrib add.commute)
    ultimately show ?thesis using False k by (simp add: Let_def js_slice_def)
  qed
qed simp

text \<open>
  A client that follows \<open>nextOffset\<close> comes to an end, after at most one page more than
  there are items whatever limit it asks for, and has then read the list once, in order.
\<close>

theorem pages_cover_list:
  assumes "limits_ok l" "int (length source) \<le> li_maxOffset l"
  shows "fetch_all (Suc (length source)) source limit 0 l = Some source"
  using fetch_from [of l source 0 "Suc (length source)" limit] assms by simp

lemma pages_cover_list_witness:
  "limits_ok default_limits \<and>
   fetch_all (Suc (length [1, 2, 3 :: nat])) [1, 2, 3 :: nat] (js_of_int 2) 0 default_limits = Some [1, 2, 3]"
proof -
  have ok: "limits_ok default_limits" by (simp add: limits_ok_def default_limits_def max_safe_def)
  moreover have "int (length [1, 2, 3 :: nat]) \<le> li_maxOffset default_limits" by (simp add: default_limits_def)
  ultimately show ?thesis using pages_cover_list [of default_limits "[1, 2, 3 :: nat]" "js_of_int 2"] by blast
qed

text \<open>A page holds at most the greatest limit's number of items.\<close>

lemma page_bounded:
  assumes "limits_ok l" "li_default l \<le> li_max l"
  shows "int (length (pg_items (paginateBoundedList source limit offset l))) \<le> li_max l"
proof -
  obtain k off where n: "normalizeBoundedListOptions limit offset l = (k, off)" by fastforce
  then have k: "k \<le> li_max l" "1 \<le> k"
    using assms limit_pos [OF assms(1), of limit offset]
    by (auto simp: normalizeBoundedListOptions_def Let_def split: if_splits)
  have "length (pg_items (paginateBoundedList source limit offset l)) \<le> nat (min (int (length source)) (off + k) - off)"
    by (simp add: paginateBoundedList_def n Let_def js_slice_def)
  also have "\<dots> \<le> nat k" by (intro nat_mono) simp
  finally show ?thesis using k by simp
qed

end
