(* ===== verification/OtaUpdate.thy ===== *)
theory OtaUpdate
  imports JsValue
begin

text \<open>
  Over-the-air updates of the app: the reducer of \<open>finance-app/src/lib/ota-update-state.js\<close>. Times are
  integers (milliseconds). An update id comes from \<open>updateIdFromManifest\<close>, so it is absent or not empty.
  The ellipsis of the labels is written with three dots.
\<close>

section \<open>State\<close>

datatype ota_phase =
    Unsupported | Idle | Checking | Available | Downloading | Downloaded | Prompted | Deferred | Restarting | Error_phase

datatype check_source = Auto | Manual

record ota_state =
  ot_phase :: ota_phase
  ot_updateId :: "string option"
  ot_checkSource :: "check_source option"
  ot_error :: "string option"
  ot_manualStatus :: "string option"
  ot_promptedUpdateId :: "string option"
  ot_deferredUntil :: "int option"

record defer_record =
  df_updateId :: string
  df_deferredUntil :: "int option"

definition readDeferredUntil :: "defer_record option \<Rightarrow> string \<Rightarrow> int \<Rightarrow> int option" where
  "readDeferredUntil rec updateId now =
     (case rec of None \<Rightarrow> None
      | Some r \<Rightarrow> if df_updateId r \<noteq> updateId then None
          else case df_deferredUntil r of None \<Rightarrow> None | Some t \<Rightarrow> if t \<le> now then None else Some t)"

definition blank_state :: "ota_phase \<Rightarrow> ota_state" where
  "blank_state ph = \<lparr>ot_phase = ph, ot_updateId = None, ot_checkSource = None, ot_error = None,
     ot_manualStatus = None, ot_promptedUpdateId = None, ot_deferredUntil = None\<rparr>"

definition createInitialOtaUpdateState ::
  "bool \<Rightarrow> bool \<Rightarrow> string option \<Rightarrow> defer_record option \<Rightarrow> int \<Rightarrow> ota_state"
where
  "createInitialOtaUpdateState supported nativePending updateId deferredRecord now =
     (if \<not> supported then blank_state Unsupported
      else case (nativePending, updateId) of
        (True, Some u) \<Rightarrow> (blank_state Downloaded)
          \<lparr>ot_updateId := Some u, ot_deferredUntil := readDeferredUntil deferredRecord u now\<rparr>
      | _ \<Rightarrow> blank_state Idle)"

definition isBusyPhase :: "ota_phase \<Rightarrow> bool" where
  "isBusyPhase ph \<longleftrightarrow> ph \<in> {Checking, Available, Downloading, Restarting}"

definition canAutoCheck :: "ota_state \<Rightarrow> bool" where
  "canAutoCheck s \<longleftrightarrow> ot_phase s \<noteq> Unsupported \<and> \<not> isBusyPhase (ot_phase s) \<and> ot_phase s \<notin> {Downloaded, Prompted}"

definition canManualCheck :: "ota_state \<Rightarrow> bool" where
  "canManualCheck s \<longleftrightarrow> ot_phase s \<noteq> Unsupported \<and> \<not> isBusyPhase (ot_phase s)"

definition shouldPrompt :: "ota_state \<Rightarrow> bool \<Rightarrow> bool \<Rightarrow> int \<Rightarrow> bool" where
  "shouldPrompt s appActive promptGateOpen now \<longleftrightarrow>
     ot_phase s = Downloaded \<and> ot_updateId s \<noteq> None \<and> ot_promptedUpdateId s \<noteq> ot_updateId s \<and>
     appActive \<and> promptGateOpen \<and>
     (case ot_deferredUntil s of None \<Rightarrow> True | Some t \<Rightarrow> t = 0 \<or> t \<le> now)"

definition getOtaUpdateStatusLabel :: "ota_state \<Rightarrow> string option" where
  "getOtaUpdateStatusLabel s =
     (case ot_phase s of
        Unsupported \<Rightarrow> Some ''OTA runs only in a release (sideloaded) build''
      | Checking \<Rightarrow> Some ''Checking...''
      | Available \<Rightarrow> Some ''Downloading update...''
      | Downloading \<Rightarrow> Some ''Downloading update...''
      | Downloaded \<Rightarrow> Some ''Update downloaded; restart prompt ready''
      | Prompted \<Rightarrow> Some ''Update downloaded; restart prompt ready''
      | Deferred \<Rightarrow> Some ''Update downloaded; restart prompt ready''
      | Restarting \<Rightarrow> Some ''Restarting...''
      | Error_phase \<Rightarrow> Some (case ot_error s of Some (c # cs) \<Rightarrow> c # cs | _ \<Rightarrow> ''Update check failed'')
      | Idle \<Rightarrow> None)"

definition getOtaUpdateDisplayStatus :: "ota_state \<Rightarrow> string option" where
  "getOtaUpdateDisplayStatus s = (case ot_manualStatus s of Some m \<Rightarrow> Some m | None \<Rightarrow> getOtaUpdateStatusLabel s)"

section \<open>The reducer\<close>

datatype ota_event =
    Unsupported_detected
  | Native_pending_detected "string option" "defer_record option"
  | Auto_check_requested "int option"
  | Manual_check_requested
  | Check_succeeded bool "string option" "defer_record option"
  | Download_started
  | Download_succeeded "string option" "defer_record option"
  | Check_failed string
  | Download_failed string
  | Prompt_ready bool bool
  | Prompt_deferred
  | Cooldown_expired
  | Restart_requested
  | Restart_failed string
  | Manual_status_cleared

record ota_options =
  op_now :: int
  op_throttleMs :: int
  op_cooldownMs :: int

definition manual_only :: "ota_state \<Rightarrow> string \<Rightarrow> string option" where
  "manual_only s m = (if ot_checkSource s = Some Manual then Some m else None)"

definition check_failure :: "ota_state \<Rightarrow> string \<Rightarrow> ota_state" where
  "check_failure s message =
     (let m = (if message = [] then ''Update check failed'' else message) in
      s\<lparr>ot_phase := Error_phase, ot_checkSource := None, ot_error := Some m, ot_manualStatus := manual_only s m\<rparr>)"

definition downloaded_state :: "ota_state \<Rightarrow> string \<Rightarrow> string option \<Rightarrow> int option \<Rightarrow> ota_state" where
  "downloaded_state s u m t = s\<lparr>ot_phase := Downloaded, ot_updateId := Some u, ot_checkSource := None,
     ot_error := None, ot_manualStatus := m, ot_promptedUpdateId := None, ot_deferredUntil := t\<rparr>"

definition prompt_ready :: "ota_options \<Rightarrow> bool \<Rightarrow> bool \<Rightarrow> ota_state \<Rightarrow> ota_state" where
  "prompt_ready opt appActive gate s =
     (if \<not> shouldPrompt s appActive gate (op_now opt) then s
      else s\<lparr>ot_phase := Prompted, ot_promptedUpdateId := ot_updateId s\<rparr>)"

definition prompt_deferred :: "ota_options \<Rightarrow> ota_state \<Rightarrow> ota_state" where
  "prompt_deferred opt s =
     (if ot_phase s \<noteq> Prompted then s
      else s\<lparr>ot_phase := Deferred, ot_promptedUpdateId := None,
             ot_deferredUntil := Some (op_now opt + op_cooldownMs opt), ot_manualStatus := None\<rparr>)"

definition cooldown_expired :: "ota_options \<Rightarrow> ota_state \<Rightarrow> ota_state" where
  "cooldown_expired opt s =
     (if ot_phase s \<noteq> Deferred then s
      else if (case ot_deferredUntil s of None \<Rightarrow> False | Some t \<Rightarrow> t \<noteq> 0 \<and> op_now opt < t) then s
      else s\<lparr>ot_phase := Idle, ot_updateId := None, ot_promptedUpdateId := None, ot_deferredUntil := None\<rparr>)"

definition restart_requested :: "ota_state \<Rightarrow> ota_state" where
  "restart_requested s =
     (if ot_phase s \<noteq> Prompted then s
      else s\<lparr>ot_phase := Restarting, ot_promptedUpdateId := None, ot_deferredUntil := None\<rparr>)"

definition restart_failed :: "string \<Rightarrow> ota_state \<Rightarrow> ota_state" where
  "restart_failed message s =
     (if ot_phase s \<noteq> Restarting then s
      else s\<lparr>ot_phase := Downloaded, ot_promptedUpdateId := None, ot_deferredUntil := None,
             ot_error := Some (if message = [] then ''Restart failed'' else message)\<rparr>)"

fun reduceOtaUpdateState :: "ota_options \<Rightarrow> ota_event \<Rightarrow> ota_state \<Rightarrow> ota_state" where
  "reduceOtaUpdateState opt Unsupported_detected s = blank_state Unsupported"
| "reduceOtaUpdateState opt (Native_pending_detected u rec) s =
     (case u of None \<Rightarrow> s
      | Some i \<Rightarrow>
          if ot_phase s = Unsupported \<or> ot_phase s \<in> {Downloaded, Prompted} \<and> ot_updateId s = Some i then s
          else downloaded_state s i None (readDeferredUntil rec i (op_now opt)))"
| "reduceOtaUpdateState opt (Auto_check_requested lastAt) s =
     (if \<not> canAutoCheck s then s
      else if (case lastAt of None \<Rightarrow> False | Some t \<Rightarrow> op_now opt - t < op_throttleMs opt) then s
      else s\<lparr>ot_phase := Checking, ot_checkSource := Some Auto, ot_error := None, ot_manualStatus := None\<rparr>)"
| "reduceOtaUpdateState opt Manual_check_requested s =
     (if ot_phase s = Unsupported
      then s\<lparr>ot_manualStatus := Some ''OTA runs only in a release (sideloaded) build''\<rparr>
      else if ot_phase s \<in> {Downloaded, Prompted}
      then s\<lparr>ot_manualStatus := Some ''Update downloaded; restart prompt ready''\<rparr>
      else if \<not> canManualCheck s then s\<lparr>ot_manualStatus := Some ''Update check already in progress''\<rparr>
      else s\<lparr>ot_phase := Checking, ot_checkSource := Some Manual, ot_error := None,
             ot_manualStatus := Some ''Checking...''\<rparr>)"
| "reduceOtaUpdateState opt (Check_succeeded isAvailable u rec) s =
     (if ot_phase s \<noteq> Checking then s
      else if \<not> isAvailable
      then s\<lparr>ot_phase := Idle, ot_updateId := None, ot_checkSource := None, ot_error := None,
             ot_promptedUpdateId := None, ot_manualStatus := manual_only s ''Up to date''\<rparr>
      else case u of
        None \<Rightarrow> s\<lparr>ot_phase := Error_phase, ot_checkSource := None,
             ot_error := Some ''Update is available but missing an update ID'',
             ot_manualStatus := manual_only s ''Update check failed''\<rparr>
      | Some i \<Rightarrow>
          (case (ot_checkSource s, readDeferredUntil rec i (op_now opt)) of
             (Some Auto, Some t) \<Rightarrow>
               if t = 0 then s\<lparr>ot_phase := Available, ot_updateId := Some i, ot_error := None,
                 ot_promptedUpdateId := None, ot_manualStatus := None\<rparr>
               else s\<lparr>ot_phase := Deferred, ot_updateId := Some i, ot_checkSource := None,
                 ot_promptedUpdateId := None, ot_deferredUntil := Some t, ot_manualStatus := None\<rparr>
           | _ \<Rightarrow> s\<lparr>ot_phase := Available, ot_updateId := Some i, ot_error := None,
               ot_promptedUpdateId := None, ot_manualStatus := manual_only s ''Downloading update...''\<rparr>))"
| "reduceOtaUpdateState opt Download_started s =
     (if ot_phase s \<noteq> Available then s else s\<lparr>ot_phase := Downloading\<rparr>)"
| "reduceOtaUpdateState opt (Download_succeeded u rec) s =
     (if ot_phase s \<noteq> Downloading \<and> ot_phase s \<noteq> Available then s
      else case (case u of Some i \<Rightarrow> Some i | None \<Rightarrow> ot_updateId s) of
        None \<Rightarrow> s\<lparr>ot_phase := Downloaded, ot_updateId := None, ot_checkSource := None, ot_error := None,
          ot_manualStatus := manual_only s ''Update downloaded; restart prompt ready'',
          ot_promptedUpdateId := None, ot_deferredUntil := None\<rparr>
      | Some i \<Rightarrow> downloaded_state s i (manual_only s ''Update downloaded; restart prompt ready'')
          (readDeferredUntil rec i (op_now opt)))"
| "reduceOtaUpdateState opt (Check_failed message) s = check_failure s message"
| "reduceOtaUpdateState opt (Download_failed message) s = check_failure s message"
| "reduceOtaUpdateState opt (Prompt_ready appActive gate) s = prompt_ready opt appActive gate s"
| "reduceOtaUpdateState opt Prompt_deferred s = prompt_deferred opt s"
| "reduceOtaUpdateState opt Cooldown_expired s = cooldown_expired opt s"
| "reduceOtaUpdateState opt Restart_requested s = restart_requested s"
| "reduceOtaUpdateState opt (Restart_failed message) s = restart_failed message s"
| "reduceOtaUpdateState opt Manual_status_cleared s = s\<lparr>ot_manualStatus := None\<rparr>"

fun updateIdFromManifest :: "jsval \<Rightarrow> string option" where
  "updateIdFromManifest (JObj ps) =
     (case jget (JObj ps) ''id'' of JStr (c # cs) \<Rightarrow> Some (c # cs) | _ \<Rightarrow> None)"
| "updateIdFromManifest _ = None"

section \<open>Well-formed states\<close>

definition ota_ok :: "ota_state \<Rightarrow> bool" where
  "ota_ok s \<longleftrightarrow>
     (ot_phase s \<in> {Available, Downloading, Downloaded, Prompted, Deferred, Restarting} \<longrightarrow> ot_updateId s \<noteq> None) \<and>
     (ot_checkSource s \<noteq> None \<longleftrightarrow> ot_phase s \<in> {Checking, Available, Downloading}) \<and>
     (ot_phase s = Prompted \<longrightarrow> ot_promptedUpdateId s = ot_updateId s) \<and>
     (ot_phase s \<in> {Idle, Available, Downloading, Downloaded, Deferred, Restarting} \<longrightarrow> ot_promptedUpdateId s = None) \<and>
     (ot_phase s = Deferred \<longrightarrow> ot_deferredUntil s \<noteq> None) \<and>
     (ot_phase s = Error_phase \<longrightarrow> ot_error s \<noteq> None)"

lemmas ota_defs = blank_state_def canAutoCheck_def canManualCheck_def isBusyPhase_def shouldPrompt_def
  check_failure_def downloaded_state_def prompt_ready_def prompt_deferred_def cooldown_expired_def
  restart_requested_def restart_failed_def Let_def

lemma reduce_ok:
  assumes "ota_ok s"
  shows "ota_ok (reduceOtaUpdateState opt e s)"
proof (cases e)
  case (Native_pending_detected u r)
  then show ?thesis using assms by (cases u) (simp_all add: ota_ok_def ota_defs)
next
  case (Check_succeeded b u r)
  then show ?thesis using assms
    by (cases "ot_phase s = Checking \<and> b"; cases u; cases "ot_checkSource s")
      (auto simp: ota_ok_def split: option.split check_source.split)
next
  case (Download_succeeded u r)
  then show ?thesis using assms
    by (cases u; cases "ot_updateId s") (auto simp: ota_ok_def ota_defs)
next
  case (Prompt_ready a g)
  then show ?thesis using assms by (simp add: ota_ok_def ota_defs)
next
  case Cooldown_expired
  then show ?thesis using assms by (simp add: ota_ok_def ota_defs)
next
  case Manual_check_requested
  then show ?thesis using assms by (auto simp: ota_ok_def ota_defs)
next
  case (Auto_check_requested l)
  then show ?thesis using assms by (auto simp: ota_ok_def ota_defs)
qed (use assms in \<open>simp_all add: ota_ok_def ota_defs\<close>)

definition run_ota :: "(ota_options \<times> ota_event) list \<Rightarrow> ota_state \<Rightarrow> ota_state" where
  "run_ota es s = fold (\<lambda>(opt, e). reduceOtaUpdateState opt e) es s"

lemma run_ota_ok: "ota_ok s \<Longrightarrow> ota_ok (run_ota es s)"
  unfolding run_ota_def by (induction es arbitrary: s) (auto simp: reduce_ok)

text \<open>
  Whatever events arrive in whatever order, the state fits its phase: an update that is
  available, downloading, downloaded, prompted, deferred or restarting has an id, a prompt is for
  the downloaded update, exactly a running check or download has a source, and an error has a text.
\<close>

theorem ota_states_well_formed:
  "ota_ok (run_ota es (createInitialOtaUpdateState supported nativePending updateId deferredRecord now))"
  by (rule run_ota_ok)
    (auto simp: createInitialOtaUpdateState_def ota_ok_def blank_state_def split: option.split bool.split)

section \<open>Deferral\<close>

text \<open>Events whose deferral record is that of the persistence, as long as it has not expired.\<close>

definition carries :: "defer_record \<Rightarrow> ota_event \<Rightarrow> bool" where
  "carries r e = (case e of
     Native_pending_detected _ d \<Rightarrow> d = Some r
   | Check_succeeded _ _ d \<Rightarrow> d = Some r
   | Download_succeeded _ d \<Rightarrow> d = Some r
   | _ \<Rightarrow> True)"

definition held_back :: "string \<Rightarrow> int \<Rightarrow> ota_state \<Rightarrow> bool" where
  "held_back u t s \<longleftrightarrow> (ot_updateId s = Some u \<longrightarrow>
     ot_phase s \<notin> {Prompted, Restarting} \<and> (ot_phase s = Downloaded \<longrightarrow> ot_deferredUntil s = Some t))"

lemma reduce_held_back:
  assumes "held_back u t s" "carries \<lparr>df_updateId = u, df_deferredUntil = Some t\<rparr> e" "op_now opt < t" "t \<noteq> 0"
  shows "held_back u t (reduceOtaUpdateState opt e s)"
  using assms
  by (cases e)
    (auto simp: held_back_def carries_def ota_defs readDeferredUntil_def split: option.splits check_source.splits if_splits)

text \<open>
  An update that was deferred is not prompted again before its cooldown is over, whatever
  checks, downloads, failures and restarts happen meanwhile, as long as the events carry the
  recorded deferral.
\<close>

theorem deferred_update_not_prompted:
  assumes "ot_phase s = Deferred"
    "list_all (\<lambda>(opt, e). op_now opt < t \<and> carries \<lparr>df_updateId = u, df_deferredUntil = Some t\<rparr> e) es" "t \<noteq> 0"
  shows "ot_phase (run_ota es s) = Prompted \<Longrightarrow> ot_updateId (run_ota es s) \<noteq> Some u"
proof -
  have "held_back u t s" using assms(1) by (simp add: held_back_def)
  then have "held_back u t (run_ota es s)"
    using assms(2,3) unfolding run_ota_def by (induction es arbitrary: s) (auto simp: reduce_held_back)
  then show "ot_phase (run_ota es s) = Prompted \<Longrightarrow> ot_updateId (run_ota es s) \<noteq> Some u"
    by (simp add: held_back_def)
qed

definition opt_at :: "int \<Rightarrow> ota_options" where
  "opt_at n = \<lparr>op_now = n, op_throttleMs = 30000, op_cooldownMs = 14400000\<rparr>"

lemma deferred_update_not_prompted_witness:
  "\<exists>es s. ot_phase s = Deferred \<and> ot_updateId s = Some ''u1'' \<and> ot_phase (run_ota es s) = Prompted \<and>
     ot_updateId (run_ota es s) = Some ''u2'' \<and> ot_updateId (run_ota es s) \<noteq> Some ''u1''"
proof -
  define s where "s = (blank_state Deferred)\<lparr>ot_updateId := Some ''u1'', ot_deferredUntil := Some 100\<rparr>"
  define es where "es = [(opt_at 5, Native_pending_detected (Some ''u2'') (Some \<lparr>df_updateId = ''u1'', df_deferredUntil = Some 100\<rparr>)),
    (opt_at 6, Prompt_ready True True)]"
  have r: "ot_phase (run_ota es s) = Prompted" "ot_updateId (run_ota es s) = Some ''u2''"
    unfolding es_def s_def by (simp_all add: run_ota_def opt_at_def ota_defs readDeferredUntil_def)
  have "ot_updateId (run_ota es s) \<noteq> Some ''u1''"
    by (rule deferred_update_not_prompted [OF _ _ _ r(1), of 100])
      (simp_all add: s_def es_def opt_at_def carries_def blank_state_def)
  with r show ?thesis by (intro exI [of _ es] exI [of _ s]) (simp add: s_def blank_state_def)
qed

end
