(* ===== verification/LiabilityCycle.thy ===== *)
theory LiabilityCycle
  imports Money DateOnly JsString
begin

text \<open>
  Credit card liabilities: \<open>finance-dashboard/lib/domain/liability-cycle-partition.js\<close> (how the
  obligation of a cycle is split between transfers, a bill and a residual) and
  \<open>domain/credit-liability-policy.js\<close> (which accounts are covered, and by what obligation).

  Cents are integers. \<open>Date.parse\<close> of a time stamp is a parameter: the millisecond it denotes, if any.
\<close>

section \<open>The partition of a cycle\<close>

definition absCents :: "int \<Rightarrow> int" where
  "absCents v = \<bar>v\<bar>"

text \<open>\<open>new Date(ms).toISOString().slice(0, 10)\<close>; years beyond four digits have a sign and six digits.\<close>

definition iso_date :: "int \<Rightarrow> string" where
  "iso_date ms =
     (case civil_of_day (ms div 86400000) of (y, m, d) \<Rightarrow>
        let pad = (\<lambda>n v. (let s = dec (nat v) in replicate (n - length s) (CHR ''0'') @ s));
            year = (if 0 \<le> y \<and> y \<le> 9999 then pad 4 y
                    else (if y < 0 then CHR ''-'' else CHR ''+'') # pad 6 \<bar>y\<bar>)
        in take 10 (year @ ''-'' @ pad2 (m + 1) @ ''-'' @ pad2 d))"

definition observedDateOnly :: "(string \<Rightarrow> int option) \<Rightarrow> string option \<Rightarrow> string option" where
  "observedDateOnly parse observedAt =
     (case observedAt of None \<Rightarrow> None
      | Some s \<Rightarrow> if s = [] then None else map_option iso_date (parse s))"

definition computeAdjustedObligation :: "string option \<Rightarrow> int \<Rightarrow> int \<Rightarrow> int \<Rightarrow> int res" where
  "computeAdjustedObligation coverageKind obligationCents currentBalanceCents postedPaymentCents =
     (if coverageKind = Some ''current_balance'' then Inr (absCents currentBalanceCents)
      else if coverageKind = Some ''statement''
      then ebind (sumCents [obligationCents, - postedPaymentCents]) (\<lambda>c. Inr (max 0 c))
      else Inr obligationCents)"

record partition =
  pt_futureComponentCents :: int
  pt_billRemainderComponentCents :: int
  pt_residualComponentCents :: int
  pt_totalReservedCents :: int

definition computePartition :: "int \<Rightarrow> int \<Rightarrow> int \<Rightarrow> partition res" where
  "computePartition adjustedObligationCents billCents futureTransferCents =
     (let bill = absCents billCents; future = absCents futureTransferCents;
          obligation = absCents adjustedObligationCents;
          futureComponent = min future obligation;
          billRemainder = min (max (bill - futureComponent) 0) (obligation - futureComponent);
          residual = max (obligation - futureComponent - billRemainder) 0
      in ebind (sumCents [futureComponent, billRemainder, residual]) (\<lambda>c.
           Inr \<lparr>pt_futureComponentCents = futureComponent, pt_billRemainderComponentCents = billRemainder,
                pt_residualComponentCents = residual, pt_totalReservedCents = c\<rparr>))"

record evidence =
  ce_adjustedObligationCents :: int
  ce_billCents :: int
  ce_futureTransferCents :: int
  ce_billDueDate :: "string option"
  ce_liabilityDueDate :: "string option"
  ce_futureTransferDates :: "string list"
  ce_duplicateTransferLinks :: bool
  ce_duplicateBillLinks :: bool
  ce_duplicateEvidenceCollision :: bool

definition issue_if :: "bool \<Rightarrow> string \<Rightarrow> string list" where
  "issue_if b s = (if b then [s] else [])"

text \<open>\<open>a && b && a !== b\<close> on dates, where the empty one is as absent.\<close>

definition present :: "string option \<Rightarrow> bool" where
  "present d \<longleftrightarrow> d \<noteq> None \<and> d \<noteq> Some []"

definition validateCycleEvidence :: "evidence \<Rightarrow> (string list \<times> partition) res" where
  "validateCycleEvidence e =
     (let obligation = absCents (ce_adjustedObligationCents e); bill = absCents (ce_billCents e);
          future = absCents (ce_futureTransferCents e)
      in ebind (computePartition obligation bill future) (\<lambda>p. Inr
        (issue_if (ce_duplicateTransferLinks e \<or> ce_duplicateBillLinks e) ''duplicate_link'' @
         issue_if (ce_duplicateEvidenceCollision e) ''duplicate_evidence_collision'' @
         issue_if (present (ce_billDueDate e) \<and> present (ce_liabilityDueDate e) \<and>
                   ce_billDueDate e \<noteq> ce_liabilityDueDate e) ''due_date_mismatch'' @
         issue_if (obligation < bill) ''bill_exceeds_obligation'' @
         issue_if (obligation < future) ''future_transfer_exceeds_obligation'' @
         concat (map (\<lambda>date. issue_if (present (ce_liabilityDueDate e) \<and>
              (case ce_liabilityDueDate e of None \<Rightarrow> False | Some due \<Rightarrow> due < date)) ''future_transfer_after_due'')
           (ce_futureTransferDates e)) @
         issue_if (0 < obligation \<and> pt_totalReservedCents p \<noteq> obligation) ''partition_sum_mismatch'' @
         issue_if (0 < obligation \<and> pt_totalReservedCents p = 0) ''unpaid_zero_reserve'', p)))"

record cycle =
  cy_cycleKey :: string
  cy_quarantined :: bool
  cy_adjustedObligationCents :: int
  cy_reserved :: "partition option"

definition reserved_parts :: "partition option \<Rightarrow> int list" where
  "reserved_parts r = (case r of None \<Rightarrow> [0, 0, 0]
     | Some p \<Rightarrow> [pt_futureComponentCents p, pt_billRemainderComponentCents p, pt_residualComponentCents p])"

fun verifyCyclePartitionInvariants :: "cycle list \<Rightarrow> string list res" where
  "verifyCyclePartitionInvariants [] = Inr []"
| "verifyCyclePartitionInvariants (c # cs) =
     (if \<not> cy_quarantined c \<and> 0 < cy_adjustedObligationCents c
      then ebind (sumCents (reserved_parts (cy_reserved c))) (\<lambda>reserved.
        ebind (verifyCyclePartitionInvariants cs) (\<lambda>rest. Inr
          (issue_if (reserved \<noteq> cy_adjustedObligationCents c)
             (''cycle '' @ cy_cycleKey c @ '' reserved '' @ dec_int reserved @ '' != obligation '' @
              dec_int (cy_adjustedObligationCents c)) @
           issue_if (reserved = 0) (''cycle '' @ cy_cycleKey c @ '' unpaid with zero reserve'') @ rest)))
      else verifyCyclePartitionInvariants cs)"

section \<open>The coverage policy\<close>

datatype coverage_mode = Mode_unknown | Mode_exclude | Mode_current_balance | Mode_statement

fun normalizeCoverageMode :: "jsval \<Rightarrow> coverage_mode" where
  "normalizeCoverageMode (JStr s) =
     (if s = ''exclude'' then Mode_exclude
      else if s = ''current_balance'' then Mode_current_balance
      else if s = ''statement'' then Mode_statement
      else Mode_unknown)"
| "normalizeCoverageMode _ = Mode_unknown"

definition isPlainObject :: "jsval \<Rightarrow> bool" where
  "isPlainObject = is_object"

text \<open>\<open>/^\d{4}-\d{2}-\d{2}$/\<close> and a string that \<open>Date.parse\<close> accepts.\<close>

fun validIsoDate :: "jsval \<Rightarrow> bool" where
  "validIsoDate (JStr s) =
     (length s = 10 \<and> list_all is_digit (take 4 s) \<and> s ! 4 = CHR ''-'' \<and> list_all is_digit (take 2 (drop 5 s)) \<and>
      s ! 7 = CHR ''-'' \<and> list_all is_digit (drop 8 s))"
| "validIsoDate _ = False"

fun iso_timestamp :: "(string \<Rightarrow> int option) \<Rightarrow> jsval \<Rightarrow> int option" where
  "iso_timestamp parse (JStr s) = parse s"
| "iso_timestamp parse _ = None"

record account =
  ac_id :: string
  ac_closed :: bool
  ac_hidden :: bool
  ac_role :: string
  ac_balance :: jsnum
  ac_financeDate :: "string option"

record policy =
  po_accountId :: string
  po_eligible :: bool
  po_excluded :: bool
  po_mode :: coverage_mode
  po_currentBalanceCents :: "int option"
  po_paymentRecurringKey :: "string option"
  po_fundingAccountId :: "string option"
  po_obligationCents :: "int option"
  po_paymentDueDate :: "string option"
  po_observedAt :: jsval
  po_coverageKind :: "string option"
  po_quarantineReasons :: "string list"

definition bare_policy :: "account \<Rightarrow> bool \<Rightarrow> bool \<Rightarrow> coverage_mode \<Rightarrow> int option \<Rightarrow> string list \<Rightarrow> policy" where
  "bare_policy a eligible excluded mode balance reasons =
     \<lparr>po_accountId = ac_id a, po_eligible = eligible, po_excluded = excluded, po_mode = mode,
      po_currentBalanceCents = balance, po_paymentRecurringKey = None, po_fundingAccountId = None,
      po_obligationCents = None, po_paymentDueDate = None, po_observedAt = JUndef, po_coverageKind = None,
      po_quarantineReasons = reasons\<rparr>"

fun trimmed :: "jsval \<Rightarrow> string" where
  "trimmed (JStr s) = js_trim s"
| "trimmed _ = []"

text \<open>\<open>Number(statement?.balanceCents)\<close> where it is a number; anything else is no safe integer here.\<close>

fun statement_cents :: "jsval \<Rightarrow> jsnum" where
  "statement_cents (JNum n) = n"
| "statement_cents _ = NaN"

definition stale_reason :: "account \<Rightarrow> int option \<Rightarrow> string list res" where
  "stale_reason a observed =
     (case observed of None \<Rightarrow> Inr []
      | Some ms \<Rightarrow>
          (let observedDate = iso_date ms;
               financeDate = (case ac_financeDate a of Some (c # cs) \<Rightarrow> c # cs | _ \<Rightarrow> observedDate)
           in ebind (addDays observedDate 45) (\<lambda>limit. Inr (issue_if (limit < financeDate) ''obligation_source_stale''))))"

definition statement_policy ::
  "(string \<Rightarrow> int option) \<Rightarrow> account \<Rightarrow> int \<Rightarrow> string \<Rightarrow> string \<Rightarrow> jsval \<Rightarrow> policy res"
where
  "statement_policy parse a balance key funding statement =
     (let n = statement_cents (jget statement ''balanceCents''); cents = js_to_int n;
          due = jget statement ''paymentDueDate''; observedAt = jget statement ''observedAt'';
          bad = ''obligation_liability_unresolved''
      in ebind (stale_reason a (iso_timestamp parse observedAt)) (\<lambda>stale.
        let reasons = issue_if (\<not> js_safe_integer n \<or> 0 \<le> cents) bad @ issue_if (\<not> validIsoDate due) bad @
              issue_if (iso_timestamp parse observedAt = None) bad @ stale
        in Inr \<lparr>po_accountId = ac_id a, po_eligible = (reasons = [] \<and> cents < 0), po_excluded = False,
             po_mode = Mode_statement, po_currentBalanceCents = Some balance, po_paymentRecurringKey = Some key,
             po_fundingAccountId = (if funding = [] then None else Some funding),
             po_obligationCents = (if js_safe_integer n then Some \<bar>cents\<bar> else None),
             po_paymentDueDate = (case due of JStr s \<Rightarrow> if validIsoDate due then Some s else None | _ \<Rightarrow> None),
             po_observedAt = (if truthy observedAt then observedAt else JNull),
             po_coverageKind = Some ''statement'', po_quarantineReasons = reasons\<rparr>))"

definition resolveAccountCreditPolicy ::
  "(string \<Rightarrow> int option) \<Rightarrow> account \<Rightarrow> jsval \<Rightarrow> policy res"
where
  "resolveAccountCreditPolicy parse a overrideEntry =
     (let mode = normalizeCoverageMode (jget overrideEntry ''creditLiabilityCoverage'');
          key = trimmed (jget overrideEntry ''paymentRecurringKey'');
          funding = trimmed (jget overrideEntry ''fundingAccountId'');
          entry = jget overrideEntry ''statement'';
          statement = (if isPlainObject entry then entry else JNull)
      in if ac_closed a \<or> ac_hidden a \<or> ac_role a = ''excluded'' \<or> ac_role a \<noteq> ''credit_card''
         then Inr (bare_policy a False True Mode_exclude None [])
         else ebind (toCents_num (if ac_balance a = NaN \<or> js_is_zero (ac_balance a) then Fin 0 else ac_balance a))
           (\<lambda>balance.
              case mode of
                Mode_exclude \<Rightarrow> Inr (bare_policy a False True mode (Some balance) [])
              | Mode_unknown \<Rightarrow> Inr (bare_policy a (balance < 0) False mode (Some balance)
                  (issue_if (balance < 0) ''credit_card_coverage_unknown''))
              | _ \<Rightarrow>
                  if key = [] then Inr (bare_policy a True False mode (Some balance) [''obligation_liability_unresolved''])
                  else if mode = Mode_current_balance
                  then Inr ((bare_policy a (balance < 0) False mode (Some balance) [])
                    \<lparr>po_paymentRecurringKey := Some key,
                     po_fundingAccountId := (if funding = [] then None else Some funding),
                     po_obligationCents := Some (if 0 \<le> balance then 0 else \<bar>balance\<bar>),
                     po_coverageKind := Some ''current_balance''\<rparr>)
                  else statement_policy parse a balance key funding statement))"

record payment_link =
  pl_linked :: bool
  pl_ambiguous :: bool
  pl_item :: "(string \<times> string) option"

text \<open>A recurring item is its key and its status.\<close>

definition resolvePaymentLink :: "(string \<times> string) list \<Rightarrow> string \<Rightarrow> payment_link" where
  "resolvePaymentLink items paymentRecurringKey =
     (let matches = filter (\<lambda>(key, status). key = paymentRecurringKey \<and> status = ''active'') items in
      if length matches \<noteq> 1
      then \<lparr>pl_linked = False, pl_ambiguous = (1 < length matches), pl_item = None\<rparr>
      else \<lparr>pl_linked = True, pl_ambiguous = False, pl_item = Some (hd matches)\<rparr>)"

definition liabilityCycleKey :: "string \<Rightarrow> string \<Rightarrow> string" where
  "liabilityCycleKey accountId dueDate = ''liability-cycle:'' @ accountId @ '':'' @ dueDate"

section \<open>Properties\<close>

lemma partition_arith:
  fixes w b u :: int
  assumes "0 \<le> w" "0 \<le> b" "0 \<le> u"
  defines "f \<equiv> min u w"
  defines "r \<equiv> min (max (b - f) 0) (w - f)"
  defines "s \<equiv> max (w - f - r) 0"
  shows "0 \<le> f \<and> 0 \<le> r \<and> 0 \<le> s \<and> f + r + s = w \<and> f + r = min w (max b u)"
  using assms(1-3) unfolding f_def r_def s_def by (auto simp: min_def max_def)

text \<open>The bill and the transfers never cover a cycle twice.\<close>

lemma computePartition_parts:
  fixes w bill future :: int
  assumes "safe_int w"
  obtains f r s where "computePartition w bill future = Inr \<lparr>pt_futureComponentCents = f,
      pt_billRemainderComponentCents = r, pt_residualComponentCents = s, pt_totalReservedCents = absCents w\<rparr>"
    "0 \<le> f" "0 \<le> r" "0 \<le> s" "f + r + s = absCents w" "f + r = min (absCents w) (max (absCents bill) (absCents future))"
proof -
  define f where "f = min (absCents future) (absCents w)"
  define r where "r = min (max (absCents bill - f) 0) (absCents w - f)"
  define s where "s = max (absCents w - f - r) 0"
  have p: "0 \<le> f \<and> 0 \<le> r \<and> 0 \<le> s \<and> f + r + s = absCents w \<and>
      f + r = min (absCents w) (max (absCents bill) (absCents future))"
    unfolding f_def r_def s_def by (rule partition_arith) (simp_all add: absCents_def)
  then have "safe_int (sum_list [f, r, s])" using assms by (simp add: safe_int_def absCents_def add.assoc)
  then have "sumCents [f, r, s] = Inr (sum_list [f, r, s])" by (rule sumCents_nonneg [rotated]) (use p in simp)
  moreover have "sum_list [f, r, s] = absCents w" using p by simp
  ultimately have "computePartition w bill future = Inr \<lparr>pt_futureComponentCents = f,
      pt_billRemainderComponentCents = r, pt_residualComponentCents = s, pt_totalReservedCents = absCents w\<rparr>"
    by (simp only: computePartition_def Let_def f_def [symmetric] r_def [symmetric] s_def [symmetric] ebind_simps)
  with p that show ?thesis by blast
qed

text \<open>
  The three components of a partition are not negative and add up to the obligation,
  exactly: no bill or transfer, however large, reserves more or less than what is owed, and what is
  covered by both is counted once.
\<close>

theorem partition_reserves_obligation:
  assumes "safe_int w"
  shows "\<exists>p. computePartition w bill future = Inr p \<and> pt_totalReservedCents p = absCents w \<and>
    0 \<le> pt_futureComponentCents p \<and> 0 \<le> pt_billRemainderComponentCents p \<and> 0 \<le> pt_residualComponentCents p \<and>
    pt_futureComponentCents p + pt_billRemainderComponentCents p + pt_residualComponentCents p = absCents w \<and>
    pt_futureComponentCents p + pt_billRemainderComponentCents p = min (absCents w) (max (absCents bill) (absCents future))"
proof -
  obtain f r s where "computePartition w bill future = Inr \<lparr>pt_futureComponentCents = f,
      pt_billRemainderComponentCents = r, pt_residualComponentCents = s, pt_totalReservedCents = absCents w\<rparr>"
    "0 \<le> f" "0 \<le> r" "0 \<le> s" "f + r + s = absCents w" "f + r = min (absCents w) (max (absCents bill) (absCents future))"
    by (rule computePartition_parts [OF assms])
  then show ?thesis by simp
qed

lemma partition_reserves_obligation_witness:
  "\<exists>p. computePartition 50000 (- 30000) 20000 = Inr p \<and> pt_totalReservedCents p = 50000"
proof -
  have "safe_int 50000" "absCents 50000 = 50000" by (simp_all add: safe_int_def max_safe_def absCents_def)
  with partition_reserves_obligation [of 50000 "- 30000" 20000] show ?thesis by metis
qed

lemma in_issue_if [simp]: "x \<in> set (issue_if b s) \<longleftrightarrow> b \<and> x = s"
  by (auto simp: issue_if_def)

lemma issue_if_Nil [simp]: "issue_if b s = [] \<longleftrightarrow> \<not> b"
  by (simp add: issue_if_def)

text \<open>The two sanity checks of the evidence never fire: the partition is right by construction.\<close>

lemma evidence_sums_match:
  assumes "safe_int (ce_adjustedObligationCents e)" "validateCycleEvidence e = Inr (issues, p)"
  shows "''partition_sum_mismatch'' \<notin> set issues \<and> ''unpaid_zero_reserve'' \<notin> set issues"
proof -
  have "safe_int (absCents (ce_adjustedObligationCents e))" using assms(1) by (simp add: safe_int_def absCents_def)
  from computePartition_parts [OF this, of "absCents (ce_billCents e)" "absCents (ce_futureTransferCents e)"]
  obtain q where q: "computePartition (absCents (ce_adjustedObligationCents e)) (absCents (ce_billCents e))
      (absCents (ce_futureTransferCents e)) = Inr q" "pt_totalReservedCents q = absCents (ce_adjustedObligationCents e)"
    by (metis absCents_def abs_idempotent partition.select_convs(4))
  from assms(2) q have i: "issues = issue_if (ce_duplicateTransferLinks e \<or> ce_duplicateBillLinks e) ''duplicate_link'' @
         issue_if (ce_duplicateEvidenceCollision e) ''duplicate_evidence_collision'' @
         issue_if (present (ce_billDueDate e) \<and> present (ce_liabilityDueDate e) \<and>
                   ce_billDueDate e \<noteq> ce_liabilityDueDate e) ''due_date_mismatch'' @
         issue_if (absCents (ce_adjustedObligationCents e) < absCents (ce_billCents e)) ''bill_exceeds_obligation'' @
         issue_if (absCents (ce_adjustedObligationCents e) < absCents (ce_futureTransferCents e)) ''future_transfer_exceeds_obligation'' @
         concat (map (\<lambda>date. issue_if (present (ce_liabilityDueDate e) \<and>
              (case ce_liabilityDueDate e of None \<Rightarrow> False | Some due \<Rightarrow> due < date)) ''future_transfer_after_due'')
           (ce_futureTransferDates e))"
    by (simp add: validateCycleEvidence_def Let_def) (auto simp: issue_if_def)
  show ?thesis unfolding i by simp
qed

text \<open>A cycle whose reserve is its computed partition passes the verification.\<close>

lemma computed_cycles_verify:
  assumes "list_all (\<lambda>c. safe_int (cy_adjustedObligationCents c) \<and>
     (\<exists>b f p. computePartition (cy_adjustedObligationCents c) b f = Inr p \<and> cy_reserved c = Some p)) cs"
  shows "verifyCyclePartitionInvariants cs = Inr []"
  using assms
proof (induction cs)
  case (Cons c cs)
  then obtain b f p where p: "safe_int (cy_adjustedObligationCents c)"
    "computePartition (cy_adjustedObligationCents c) b f = Inr p" "cy_reserved c = Some p" by auto
  have "sumCents (reserved_parts (cy_reserved c)) = Inr (pt_totalReservedCents p)"
    using p(2,3) by (auto simp: computePartition_def Let_def res_simps reserved_parts_def)
  moreover have "pt_totalReservedCents p = absCents (cy_adjustedObligationCents c)"
    using computePartition_parts [OF p(1), of b f] p(2) by (metis Inr_inject partition.select_convs(4))
  ultimately show ?case using Cons by (auto simp: issue_if_def absCents_def)
qed simp

lemma statement_policy_obligation:
  assumes "statement_policy parse a balance key funding statement = Inr p" "po_eligible p" "po_quarantineReasons p = []"
  shows "\<exists>c. po_obligationCents p = Some c \<and> 0 < c \<and> po_paymentRecurringKey p \<noteq> None \<and> \<not> po_excluded p \<and>
    (po_mode p = Mode_current_balance \<and> po_currentBalanceCents p = Some (- c) \<or>
     po_mode p = Mode_statement \<and> po_paymentDueDate p \<noteq> None)"
proof -
  let ?n = "statement_cents (jget statement ''balanceCents'')" and ?due = "jget statement ''paymentDueDate''"
  from assms(1) have p: "po_mode p = Mode_statement" "po_paymentRecurringKey p = Some key" "\<not> po_excluded p"
    "po_obligationCents p = (if js_safe_integer ?n then Some \<bar>js_to_int ?n\<bar> else None)"
    "po_paymentDueDate p = (case ?due of JStr s \<Rightarrow> if validIsoDate ?due then Some s else None | _ \<Rightarrow> None)"
    "po_eligible p \<Longrightarrow> js_to_int ?n < 0"
    "po_quarantineReasons p = [] \<Longrightarrow> js_safe_integer ?n \<and> validIsoDate ?due"
    unfolding statement_policy_def Let_def by (auto simp: res_simps)
  from p(7) assms(3) have "js_safe_integer ?n" "validIsoDate ?due" by simp_all
  moreover obtain s where "?due = JStr s" using calculation(2) by (cases ?due) simp_all
  ultimately show ?thesis using p(1-6) assms(2) by simp
qed

text \<open>
  An account that is eligible and not quarantined owes a definite positive amount: under
  the current balance mode the negated balance, under the statement mode that of a statement that
  is not older than forty-five days.
\<close>

theorem eligible_policy_has_obligation:
  assumes "resolveAccountCreditPolicy parse a entry = Inr p" "po_eligible p" "po_quarantineReasons p = []"
  shows "\<exists>c. po_obligationCents p = Some c \<and> 0 < c \<and> po_paymentRecurringKey p \<noteq> None \<and> \<not> po_excluded p \<and>
    (po_mode p = Mode_current_balance \<and> po_currentBalanceCents p = Some (- c) \<or>
     po_mode p = Mode_statement \<and> po_paymentDueDate p \<noteq> None)"
proof -
  from assms(1,2) have live: "\<not> (ac_closed a \<or> ac_hidden a \<or> ac_role a = ''excluded'' \<or> ac_role a \<noteq> ''credit_card'')"
    by (auto simp: resolveAccountCreditPolicy_def bare_policy_def Let_def split: if_splits)
  define key where "key = trimmed (jget entry ''paymentRecurringKey'')"
  define mode where "mode = normalizeCoverageMode (jget entry ''creditLiabilityCoverage'')"
  from assms(1) live obtain b where b: "(case mode of
                Mode_exclude \<Rightarrow> Inr (bare_policy a False True mode (Some b) [])
              | Mode_unknown \<Rightarrow> Inr (bare_policy a (b < 0) False mode (Some b)
                  (issue_if (b < 0) ''credit_card_coverage_unknown''))
              | _ \<Rightarrow>
                  if key = [] then Inr (bare_policy a True False mode (Some b) [''obligation_liability_unresolved''])
                  else if mode = Mode_current_balance
                  then Inr ((bare_policy a (b < 0) False mode (Some b) [])
                    \<lparr>po_paymentRecurringKey := Some key,
                     po_fundingAccountId := (let funding = trimmed (jget entry ''fundingAccountId'') in if funding = [] then None else Some funding),
                     po_obligationCents := Some (if 0 \<le> b then 0 else \<bar>b\<bar>),
                     po_coverageKind := Some ''current_balance''\<rparr>)
                  else statement_policy parse a b key (trimmed (jget entry ''fundingAccountId''))
                    (if isPlainObject (jget entry ''statement'') then jget entry ''statement'' else JNull)) = Inr p"
    unfolding resolveAccountCreditPolicy_def Let_def key_def mode_def by (auto simp: res_simps)
  show ?thesis
  proof (cases mode)
    case Mode_statement
    show ?thesis
    proof (cases "key = []")
      case True
      with b Mode_statement assms(3) show ?thesis by (auto simp: bare_policy_def)
    next
      case False
      with b Mode_statement have "statement_policy parse a b key (trimmed (jget entry ''fundingAccountId''))
          (if isPlainObject (jget entry ''statement'') then jget entry ''statement'' else JNull) = Inr p" by simp
      then show ?thesis using assms(2,3) by (rule statement_policy_obligation)
    qed
  next
    case Mode_exclude
    with b assms(2) show ?thesis by (auto simp: bare_policy_def)
  next
    case Mode_unknown
    with b assms(2,3) show ?thesis by (auto simp: bare_policy_def issue_if_def)
  next
    case Mode_current_balance
    with b assms(2,3) show ?thesis by (auto simp: bare_policy_def Let_def split: if_splits)
  qed
qed

lemma eligible_policy_has_obligation_witness:
  "\<exists>p. resolveAccountCreditPolicy (\<lambda>_. None)
       \<lparr>ac_id = ''card'', ac_closed = False, ac_hidden = False, ac_role = ''credit_card'', ac_balance = Fin (- 100),
        ac_financeDate = None\<rparr>
       (JObj [(''creditLiabilityCoverage'', JStr ''current_balance''), (''paymentRecurringKey'', JStr ''card-payment'')]) = Inr p \<and>
     po_obligationCents p = Some 10000 \<and> po_paymentRecurringKey p \<noteq> None"
proof -
  let ?r = "resolveAccountCreditPolicy (\<lambda>_. None)
       \<lparr>ac_id = ''card'', ac_closed = False, ac_hidden = False, ac_role = ''credit_card'', ac_balance = Fin (- 100),
        ac_financeDate = None\<rparr>
       (JObj [(''creditLiabilityCoverage'', JStr ''current_balance''), (''paymentRecurringKey'', JStr ''card-payment'')])"
  have "toCents_num (Fin (- 100)) = Inr (- 10000)" using toCents_whole [of "- 100"] by simp
  moreover have "js_trim ''card-payment'' = ''card-payment''" by code_simp
  ultimately have "\<exists>p. ?r = Inr p \<and> po_eligible p \<and> po_quarantineReasons p = [] \<and> po_obligationCents p = Some 10000"
    by (simp add: resolveAccountCreditPolicy_def Let_def bare_policy_def)
  then obtain p where p: "?r = Inr p" "po_eligible p" "po_quarantineReasons p = []" "po_obligationCents p = Some 10000"
    by blast
  from eligible_policy_has_obligation [OF p(1-3)] p show ?thesis by blast
qed

end
