(* ===== verification/BudgetEnvelope.thy ===== *)
theory BudgetEnvelope
  imports Money
begin

text \<open>
  Category envelopes: \<open>finance-dashboard/lib/domain/budget-envelope.js\<close>, from the fields a budget category
  may carry to what it holds, reserves and owes. A category is a JavaScript object.
\<close>

section \<open>Reading a category\<close>

definition ROLLOVER_MODES :: "string list" where
  "ROLLOVER_MODES = [''none'', ''carryover'', ''true_expense'']"

text \<open>\<open>category.rolloverMode || 'none'\<close>; a mode that is no string is no known mode either.\<close>

fun rollover_mode :: "jsval \<Rightarrow> string" where
  "rollover_mode (JStr s) = (if s = [] then ''none'' else s)"
| "rollover_mode v = (if truthy v then ''[object]'' else ''none'')"

definition isRolloverTreatmentResolved :: "string \<Rightarrow> bool \<Rightarrow> bool" where
  "isRolloverTreatmentResolved mode rolloverConfigured \<longleftrightarrow>
     rolloverConfigured \<and> (if mode = [] then ''none'' else mode) \<in> set ROLLOVER_MODES"

definition ends_with :: "string \<Rightarrow> string \<Rightarrow> bool" where
  "ends_with s suffix \<longleftrightarrow> drop (length s - length suffix) s = suffix"

definition read_error :: "string \<Rightarrow> js_error" where
  "read_error field = TypeError (field @ '' must be a finite dollar amount or safe integer cents'')"

fun readCents :: "jsval \<Rightarrow> string \<Rightarrow> int option res" where
  "readCents JUndef field = Inr None"
| "readCents JNull field = Inr None"
| "readCents (JNum n) field =
     (if \<not> js_is_finite n then Inl (read_error field)
      else if ends_with field ''Cents'' \<and> js_safe_integer n then Inr (Some (js_to_int n))
      else ebind (toCents_num n) (\<lambda>c. Inr (Some c)))"
| "readCents _ field = Inl (read_error field)"

text \<open>A field that is known not to be null.\<close>

definition read_present :: "jsval \<Rightarrow> string \<Rightarrow> int res" where
  "read_present category field =
     ebind (readCents (jget category field) field) (\<lambda>c. Inr (case c of Some v \<Rightarrow> v | None \<Rightarrow> 0))"

text \<open>\<open>Math.max(0, v)\<close>, which is not a number for what is not a number.\<close>

fun max_zero :: "jsval \<Rightarrow> jsval" where
  "max_zero (JNum (Fin q)) = JNum (Fin (max 0 q))"
| "max_zero (JNum NegZero) = JNum (Fin 0)"
| "max_zero (JNum NegInf) = JNum (Fin 0)"
| "max_zero (JNum PosInf) = JNum PosInf"
| "max_zero _ = JNum NaN"

record envelope =
  en_balanceCents :: int
  en_spentCents :: int
  en_targetCents :: int
  en_rolloverMode :: string

definition spent_cents :: "jsval \<Rightarrow> int res" where
  "spent_cents category =
     (if \<not> nullish (jget category ''spentCents'') then read_present category ''spentCents''
      else if \<not> nullish (jget category ''spent'')
      then ebind (readCents (max_zero (jget category ''spent'')) ''spent'')
        (\<lambda>c. Inr (case c of Some v \<Rightarrow> v | None \<Rightarrow> 0))
      else Inr 0)"

definition target_cents :: "jsval \<Rightarrow> int res" where
  "target_cents category =
     (if \<not> nullish (jget category ''targetCents'') then read_present category ''targetCents''
      else if \<not> nullish (jget category ''target'') then read_present category ''target''
      else Inr 0)"

definition either_field :: "jsval \<Rightarrow> string \<Rightarrow> string \<Rightarrow> int res" where
  "either_field category centsField dollarField =
     (if \<not> nullish (jget category centsField) then read_present category centsField
      else read_present category dollarField)"

definition resolveCategoryEnvelope :: "jsval \<Rightarrow> envelope res" where
  "resolveCategoryEnvelope category =
     (let mode = rollover_mode (jget category ''rolloverMode'') in
      ebind (spent_cents category) (\<lambda>spent. ebind (target_cents category) (\<lambda>target.
        if \<not> nullish (jget category ''balanceCents'') \<or> \<not> nullish (jget category ''balance'')
        then ebind (either_field category ''balanceCents'' ''balance'') (\<lambda>balance.
          Inr \<lparr>en_balanceCents = balance, en_spentCents = spent, en_targetCents = target, en_rolloverMode = mode\<rparr>)
        else if \<not> nullish (jget category ''remainingCents'') \<or> \<not> nullish (jget category ''remaining'')
        then ebind (either_field category ''remainingCents'' ''remaining'') (\<lambda>remaining.
          Inr \<lparr>en_balanceCents = remaining, en_spentCents = spent,
               en_targetCents = (if 0 < target then target else spent + remaining), en_rolloverMode = ''none''\<rparr>)
        else Inr \<lparr>en_balanceCents = max 0 (target - spent), en_spentCents = spent, en_targetCents = target,
                  en_rolloverMode = mode\<rparr>)))"

definition categoryEnvelopeDebtCents :: "envelope \<Rightarrow> int res" where
  "categoryEnvelopeDebtCents e =
     (if \<not> safe_int (en_balanceCents e) then Inl (TypeError ''balanceCents must be a safe integer'')
      else Inr (if en_balanceCents e < 0 then - en_balanceCents e else 0))"

definition categoryReserveCents :: "envelope \<Rightarrow> int res" where
  "categoryReserveCents e =
     (if en_rolloverMode e = ''none'' then Inr (max 0 (en_targetCents e - en_spentCents e))
      else if en_rolloverMode e \<in> set [''carryover'', ''true_expense'']
      then Inr (if 0 < en_balanceCents e then en_balanceCents e else 0)
      else Inl (PlainError (''unresolved rollover mode: '' @ en_rolloverMode e)))"

record envelope_fields =
  ef_resolved :: bool
  ef_rolloverConfigured :: bool
  ef_rolloverMode :: string
  ef_envelopeCents :: "int option"
  ef_reserveCents :: "int option"
  ef_envelopeDebtCents :: "int option"

definition categoryEnvelopeFields :: "jsval \<Rightarrow> envelope_fields res" where
  "categoryEnvelopeFields category =
     (let configured = (jget category ''rolloverConfigured'' = JBool True);
          mode = rollover_mode (jget category ''rolloverMode'')
      in if \<not> isRolloverTreatmentResolved mode configured
         then Inr \<lparr>ef_resolved = False, ef_rolloverConfigured = configured, ef_rolloverMode = mode,
           ef_envelopeCents = None, ef_reserveCents = None, ef_envelopeDebtCents = None\<rparr>
         else ebind (resolveCategoryEnvelope category) (\<lambda>e. ebind (categoryReserveCents e) (\<lambda>reserve.
           ebind (categoryEnvelopeDebtCents e) (\<lambda>debt.
             Inr \<lparr>ef_resolved = True, ef_rolloverConfigured = configured, ef_rolloverMode = en_rolloverMode e,
               ef_envelopeCents = Some (en_balanceCents e), ef_reserveCents = Some reserve,
               ef_envelopeDebtCents = Some debt\<rparr>))))"

text \<open>\<open>Number(category.remaining)\<close> where it is a number; a text is not converted here.\<close>

fun as_number :: "jsval \<Rightarrow> jsval" where
  "as_number (JNum n) = JNum n"
| "as_number (JBool b) = JNum (Fin (if b then 1 else 0))"
| "as_number _ = JNum NaN"

definition reserve_fallback :: "jsval \<Rightarrow> int option res" where
  "reserve_fallback category =
     (if nullish (jget category ''rolloverMode'') \<and> jget category ''rolloverConfigured'' \<noteq> JBool True \<and>
         \<not> nullish (jget category ''remaining'')
      then ebind (toCents (max_zero (as_number (jget category ''remaining'')))) (\<lambda>c. Inr (Some (max 0 c)))
      else ebind (categoryEnvelopeFields category) (\<lambda>f. Inr (if ef_resolved f then ef_reserveCents f else None)))"

definition categoryReserveCentsFromCategory :: "jsval \<Rightarrow> int option res" where
  "categoryReserveCentsFromCategory category =
     (if jget category ''resolved'' = JBool False \<or> jget category ''reserveCents'' = JNull then Inr None
      else case jget category ''reserveCents'' of
        JNum n \<Rightarrow> if js_safe_integer n then Inr (Some (js_to_int n)) else reserve_fallback category
      | _ \<Rightarrow> reserve_fallback category)"

section \<open>Properties\<close>

text \<open>
  A resolved category reserves and owes amounts that are not negative; its debt is the
  negative part of its envelope, and under a rollover mode its reserve is the positive part, so the
  two account for the envelope exactly. Without rollover the reserve is what is left of the target.
\<close>

theorem envelope_reserve_and_debt:
  assumes "categoryEnvelopeFields category = Inr f" "ef_resolved f"
  shows "\<exists>v r d e. ef_envelopeCents f = Some v \<and> ef_reserveCents f = Some r \<and> ef_envelopeDebtCents f = Some d \<and>
    0 \<le> r \<and> d = max 0 (- v) \<and> resolveCategoryEnvelope category = Inr e \<and>
    (if ef_rolloverMode f = ''none'' then r = max 0 (en_targetCents e - en_spentCents e) else r - d = v)"
  using assms
  by (auto simp: categoryEnvelopeFields_def Let_def res_simps categoryReserveCents_def categoryEnvelopeDebtCents_def
    split: if_splits)

text \<open>Without a configured rollover treatment nothing is said about a category.\<close>

lemma unconfigured_unresolved:
  "jget category ''rolloverConfigured'' \<noteq> JBool True \<Longrightarrow>
   \<exists>f. categoryEnvelopeFields category = Inr f \<and> \<not> ef_resolved f \<and> ef_reserveCents f = None"
  by (simp add: categoryEnvelopeFields_def isRolloverTreatmentResolved_def Let_def)

lemma envelope_reserve_and_debt_witness:
  "\<exists>f. categoryEnvelopeFields (JObj [(''rolloverMode'', JStr ''carryover''), (''rolloverConfigured'', JBool True),
      (''balanceCents'', JNum (js_of_int (- 1250)))]) = Inr f \<and> ef_envelopeDebtCents f = Some 1250"
proof -
  let ?r = "categoryEnvelopeFields (JObj [(''rolloverMode'', JStr ''carryover''), (''rolloverConfigured'', JBool True),
      (''balanceCents'', JNum (js_of_int (- 1250)))])"
  have "(case ?r of Inr f \<Rightarrow> ef_resolved f \<and> ef_envelopeCents f = Some (- 1250) | Inl _ \<Rightarrow> False)" by code_simp
  then obtain f where f: "?r = Inr f" "ef_resolved f" "ef_envelopeCents f = Some (- 1250)"
    by (cases ?r) auto
  from envelope_reserve_and_debt [OF f(1,2)] f show ?thesis by auto
qed

end
