(* ===== verification/SerialQueue.thy ===== *)
theory SerialQueue
  imports Prelude
begin

text \<open>
  The serial queue (\<open>lib/serial-queue.js\<close>) behind the mutation lane, the coordinator of the budget
  engine and the credential store. A task that is accepted is chained behind the tail promise, so
  the queue is the list of the accepted tasks whose tail has not resolved, oldest first; only the
  oldest can be running. Tasks are named by the tickets 0, 1, 2, ... in the order \<open>run\<close> accepted
  them. A task that throws settles like one that returns (\<open>tail.then(execute, execute)\<close>), so its
  outcome plays no part here. What clients rely on is the interface \<open>serial_lane\<close>.
\<close>

section \<open>The interface\<close>

datatype lane_event = Ev_run | Ev_start | Ev_settle | Ev_close

datatype lane_log =
    Log_accepted nat
  | Log_refused js_error
  | Log_started nat
  | Log_settled nat

text \<open>What a sequence of events does to a lane, given by its four operations, and what it logs.\<close>

fun lane_step ::
  "('q \<Rightarrow> (js_error + nat) \<times> 'q) \<Rightarrow> ('q \<Rightarrow> (nat \<times> 'q) option) \<Rightarrow> ('q \<Rightarrow> (nat \<times> 'q) option) \<Rightarrow> ('q \<Rightarrow> 'q) \<Rightarrow>
   lane_event \<Rightarrow> 'q \<Rightarrow> lane_log list \<times> 'q" where
  "lane_step run start settle close Ev_run q =
     (case run q of (Inl e, q') \<Rightarrow> ([Log_refused e], q') | (Inr t, q') \<Rightarrow> ([Log_accepted t], q'))"
| "lane_step run start settle close Ev_start q =
     (case start q of None \<Rightarrow> ([], q) | Some (t, q') \<Rightarrow> ([Log_started t], q'))"
| "lane_step run start settle close Ev_settle q =
     (case settle q of None \<Rightarrow> ([], q) | Some (t, q') \<Rightarrow> ([Log_settled t], q'))"
| "lane_step run start settle close Ev_close q = ([], close q)"

fun lane_exec ::
  "('q \<Rightarrow> (js_error + nat) \<times> 'q) \<Rightarrow> ('q \<Rightarrow> (nat \<times> 'q) option) \<Rightarrow> ('q \<Rightarrow> (nat \<times> 'q) option) \<Rightarrow> ('q \<Rightarrow> 'q) \<Rightarrow>
   lane_event list \<Rightarrow> 'q \<Rightarrow> lane_log list \<times> 'q" where
  "lane_exec run start settle close [] q = ([], q)"
| "lane_exec run start settle close (ev # evs) q =
     (let (l, q') = lane_step run start settle close ev q; (ls, q'') = lane_exec run start settle close evs q'
      in (l @ ls, q''))"

fun log_accepted :: "lane_log list \<Rightarrow> nat list" where
  "log_accepted [] = []"
| "log_accepted (Log_accepted t # ls) = t # log_accepted ls"
| "log_accepted (_ # ls) = log_accepted ls"

fun log_started :: "lane_log list \<Rightarrow> nat list" where
  "log_started [] = []"
| "log_started (Log_started t # ls) = t # log_started ls"
| "log_started (_ # ls) = log_started ls"

fun log_settled :: "lane_log list \<Rightarrow> nat list" where
  "log_settled [] = []"
| "log_settled (Log_settled t # ls) = t # log_settled ls"
| "log_settled (_ # ls) = log_settled ls"

lemma log_append [simp]:
  "log_accepted (xs @ ys) = log_accepted xs @ log_accepted ys"
  "log_started (xs @ ys) = log_started xs @ log_started ys"
  "log_settled (xs @ ys) = log_settled xs @ log_settled ys"
proof -
  show "log_accepted (xs @ ys) = log_accepted xs @ log_accepted ys"
    by (induction xs rule: log_accepted.induct) auto
  show "log_started (xs @ ys) = log_started xs @ log_started ys"
    by (induction xs rule: log_started.induct) auto
  show "log_settled (xs @ ys) = log_settled xs @ log_settled ys"
    by (induction xs rule: log_settled.induct) auto
qed

text \<open>
  A serial lane: it hands out tickets in order, starts the oldest waiting task when none runs, and
  lets go of the running one when it settles.
\<close>

locale serial_lane =
  fixes run :: "'q \<Rightarrow> (js_error + nat) \<times> 'q"
    and start :: "'q \<Rightarrow> (nat \<times> 'q) option"
    and settle :: "'q \<Rightarrow> (nat \<times> 'q) option"
    and close :: "'q \<Rightarrow> 'q"
    and waiting :: "'q \<Rightarrow> nat list"
    and busy :: "'q \<Rightarrow> bool"
    and issued :: "'q \<Rightarrow> nat"
    and ok :: "'q \<Rightarrow> bool"
  assumes run_Inl: "\<lbrakk>ok q; run q = (Inl e, q')\<rbrakk> \<Longrightarrow>
      ok q' \<and> busy q' = busy q \<and> issued q' = issued q \<and> waiting q' = waiting q"
    and run_Inr: "\<lbrakk>ok q; run q = (Inr t, q')\<rbrakk> \<Longrightarrow>
      ok q' \<and> busy q' = busy q \<and> t = issued q \<and> issued q' = Suc t \<and> waiting q' = waiting q @ [t]"
    and start_Some: "\<lbrakk>ok q; start q = Some (t, q')\<rbrakk> \<Longrightarrow>
      ok q' \<and> \<not> busy q \<and> busy q' \<and> issued q' = issued q \<and> waiting q' = waiting q \<and> waiting q \<noteq> [] \<and> t = hd (waiting q)"
    and start_None: "\<lbrakk>ok q; start q = None\<rbrakk> \<Longrightarrow> busy q \<or> waiting q = []"
    and settle_Some: "\<lbrakk>ok q; settle q = Some (t, q')\<rbrakk> \<Longrightarrow>
      ok q' \<and> busy q \<and> \<not> busy q' \<and> issued q' = issued q \<and> waiting q = t # waiting q'"
    and settle_None: "\<lbrakk>ok q; settle q = None\<rbrakk> \<Longrightarrow> \<not> busy q"
    and close_ok: "ok q \<Longrightarrow> ok (close q) \<and> busy (close q) = busy q \<and> issued (close q) = issued q \<and>
      waiting (close q) = waiting q"
    and busy_waiting: "\<lbrakk>ok q; busy q\<rbrakk> \<Longrightarrow> waiting q \<noteq> []"
begin

lemma step_order:
  assumes "ok q" "waiting q = [m..<issued q]" "m \<le> issued q" "lane_step run start settle close ev q = (l, q')"
  shows "ok q' \<and> (\<exists>m'. m' \<le> issued q' \<and> waiting q' = [m'..<issued q'] \<and> issued q \<le> issued q' \<and> m \<le> m' \<and>
    of_bool (busy q) + m \<le> of_bool (busy q') + m' \<and>
    log_accepted l = [issued q..<issued q'] \<and> log_settled l = [m..<m'] \<and>
    log_started l = [of_bool (busy q) + m..<of_bool (busy q') + m'])"
proof (cases ev)
  case Ev_run
  obtain r q2 where r: "run q = (r, q2)" by force
  show ?thesis
  proof (cases r)
    case (Inl e)
    with r assms(4) Ev_run have l: "l = [Log_refused e]" "q' = q2" by simp_all
    from run_Inl [OF assms(1) r [unfolded Inl]] assms(2,3) l show ?thesis by (auto intro!: exI [of _ m])
  next
    case (Inr t)
    with r assms(4) Ev_run have l: "l = [Log_accepted t]" "q' = q2" by simp_all
    from run_Inr [OF assms(1) r [unfolded Inr]] assms(2,3) l show ?thesis by (auto intro!: exI [of _ m])
  qed
next
  case Ev_start
  show ?thesis
  proof (cases "start q")
    case None
    with assms Ev_start show ?thesis by (auto intro!: exI [of _ m])
  next
    case (Some p)
    obtain t q2 where p: "p = (t, q2)" by force
    note s = start_Some [OF assms(1), of t q2]
    from s Some p assms(2) have "t = m" "m < issued q" by auto
    moreover have "l = [Log_started t]" "q' = q2" using assms(4) Some p Ev_start by simp_all
    ultimately show ?thesis using s Some p assms(2,3) by (intro conjI exI [of _ m]) simp_all
  qed
next
  case Ev_settle
  show ?thesis
  proof (cases "settle q")
    case None
    with assms Ev_settle show ?thesis by (auto intro!: exI [of _ m])
  next
    case (Some p)
    obtain t q2 where p: "p = (t, q2)" by force
    note s = settle_Some [OF assms(1), of t q2]
    from s Some p assms(2) have "[m..<issued q] = t # waiting q2" by simp
    then have "t = m" "m < issued q" "waiting q2 = [Suc m..<issued q]" by (auto simp: upt_eq_Cons_conv)
    moreover have "l = [Log_settled t]" "q' = q2" using assms(4) Some p Ev_settle by simp_all
    ultimately show ?thesis using s Some p assms(2,3) by (auto intro!: exI [of _ "Suc m"])
  qed
next
  case Ev_close
  with close_ok [OF assms(1)] assms show ?thesis by (auto intro!: exI [of _ m])
qed

lemma exec_order:
  assumes "ok q" "waiting q = [m..<issued q]" "m \<le> issued q" "lane_exec run start settle close evs q = (l, q')"
  shows "ok q' \<and> (\<exists>m'. m' \<le> issued q' \<and> waiting q' = [m'..<issued q'] \<and> issued q \<le> issued q' \<and> m \<le> m' \<and>
    of_bool (busy q) + m \<le> of_bool (busy q') + m' \<and>
    log_accepted l = [issued q..<issued q'] \<and> log_settled l = [m..<m'] \<and>
    log_started l = [of_bool (busy q) + m..<of_bool (busy q') + m'])"
  using assms
proof (induction evs arbitrary: q m l)
  case (Cons ev evs)
  obtain l1 q1 where s: "lane_step run start settle close ev q = (l1, q1)" by force
  obtain l2 where e: "lane_exec run start settle close evs q1 = (l2, q')" and l: "l = l1 @ l2"
    using Cons.prems(4) s by (auto split: prod.splits)
  obtain m1 where m1: "ok q1" "m1 \<le> issued q1" "waiting q1 = [m1..<issued q1]" "issued q \<le> issued q1" "m \<le> m1"
    "of_bool (busy q) + m \<le> of_bool (busy q1) + m1" "log_accepted l1 = [issued q..<issued q1]"
    "log_settled l1 = [m..<m1]" "log_started l1 = [of_bool (busy q) + m..<of_bool (busy q1) + m1]"
    using step_order [OF Cons.prems(1-3) s] by blast
  obtain m' where m': "ok q'" "m' \<le> issued q'" "waiting q' = [m'..<issued q']" "issued q1 \<le> issued q'" "m1 \<le> m'"
    "of_bool (busy q1) + m1 \<le> of_bool (busy q') + m'" "log_accepted l2 = [issued q1..<issued q']"
    "log_settled l2 = [m1..<m']" "log_started l2 = [of_bool (busy q1) + m1..<of_bool (busy q') + m']"
    using Cons.IH [OF m1(1,3,2) e] by blast
  have upt: "\<lbrakk>a \<le> b; b \<le> c\<rbrakk> \<Longrightarrow> [a..<b] @ [b..<c] = [a..<c]" for a b c :: nat
    by (metis le_add_diff_inverse upt_add_eq_append)
  show ?case
    using m1 m' by (intro conjI exI [of _ m']) (simp_all add: l upt)
next
  case Nil
  then show ?case by (auto intro!: exI [of _ m])
qed

text \<open>Starting and settling once per waiting task empties a lane on which nothing runs.\<close>

lemma serve_drains:
  assumes "ok q" "\<not> busy q"
  shows "\<exists>l q'. lane_exec run start settle close (concat (replicate (length (waiting q)) [Ev_start, Ev_settle])) q = (l, q') \<and>
    ok q' \<and> \<not> busy q' \<and> waiting q' = [] \<and> log_started l = waiting q \<and> log_settled l = waiting q"
  using assms
proof (induction "waiting q" arbitrary: q)
  case (Cons t ts)
  from start_None [OF Cons.prems(1)] Cons.prems(2) Cons.hyps(2) obtain t1 q1 where s: "start q = Some (t1, q1)"
    by (cases "start q") auto
  note s1 = start_Some [OF Cons.prems(1) s]
  then obtain t2 q2 where e: "settle q1 = Some (t2, q2)"
    using settle_None by (cases "settle q1") auto
  note s2 = settle_Some [OF _ e]
  from s1 s2 Cons.hyps(2) have w: "waiting q2 = ts" "t1 = t" "t2 = t" "ok q2" "\<not> busy q2" by (metis list.inject list.sel(1))+
  obtain l q' where "lane_exec run start settle close (concat (replicate (length ts) [Ev_start, Ev_settle])) q2 = (l, q')"
    "ok q'" "\<not> busy q'" "waiting q' = []" "log_started l = ts" "log_settled l = ts"
    using Cons.hyps(1) [of q2] w by auto
  with s e w show ?case by (simp flip: Cons.hyps(2))
qed auto

end

section \<open>The queue\<close>

text \<open>\<open>sq_maxPending = 0\<close> is a queue without a bound.\<close>

record squeue =
  sq_maxPending :: nat
  sq_pending :: nat
  sq_closed :: bool
  sq_rejectedOverCapacity :: nat
  sq_rejectedClosed :: nat
  sq_tail :: "nat list"
  sq_running :: bool
  sq_next :: nat

definition new_queue :: "int \<Rightarrow> squeue" where
  "new_queue maxPending =
     \<lparr>sq_maxPending = (if maxPending > 0 then nat maxPending else 0), sq_pending = 0, sq_closed = False,
      sq_rejectedOverCapacity = 0, sq_rejectedClosed = 0, sq_tail = [], sq_running = False, sq_next = 0\<rparr>"

text \<open>\<open>run\<close>: the refusals reject at once, an accepted task is chained behind the tail.\<close>

definition sq_run :: "squeue \<Rightarrow> (js_error + nat) \<times> squeue" where
  "sq_run q =
     (if sq_closed q
      then (Inl (AppError ''ADMISSION_UNAVAILABLE'' 503), q\<lparr>sq_rejectedClosed := sq_rejectedClosed q + 1\<rparr>)
      else if sq_maxPending q > 0 \<and> sq_pending q \<ge> sq_maxPending q
      then (Inl (AppError ''ADMISSION_OVERLOADED'' 429), q\<lparr>sq_rejectedOverCapacity := sq_rejectedOverCapacity q + 1\<rparr>)
      else (Inr (sq_next q),
            q\<lparr>sq_pending := sq_pending q + 1, sq_tail := sq_tail q @ [sq_next q], sq_next := sq_next q + 1\<rparr>))"

text \<open>The oldest task runs once everything before it has settled.\<close>

definition sq_start :: "squeue \<Rightarrow> (nat \<times> squeue) option" where
  "sq_start q =
     (if sq_running q then None
      else case sq_tail q of [] \<Rightarrow> None | t # _ \<Rightarrow> Some (t, q\<lparr>sq_running := True\<rparr>))"

text \<open>Its result or its error settles the tail; \<open>finally\<close> gives the place back.\<close>

definition sq_settle :: "squeue \<Rightarrow> (nat \<times> squeue) option" where
  "sq_settle q =
     (if \<not> sq_running q then None
      else case sq_tail q of [] \<Rightarrow> None
           | t # ts \<Rightarrow> Some (t, q\<lparr>sq_running := False, sq_tail := ts, sq_pending := sq_pending q - 1\<rparr>))"

definition sq_close :: "squeue \<Rightarrow> squeue" where
  "sq_close q = q\<lparr>sq_closed := True\<rparr>"

definition sq_size :: "squeue \<Rightarrow> nat" where
  "sq_size q = sq_pending q"

text \<open>
  \<open>drain\<close> races the tail at the moment of the call against a timer: it waits for the tasks
  accepted before it and for no later one. \<open>None\<close> is an event list in which neither comes.
\<close>

datatype drain_event = Dr_lane lane_event | Dr_timeout

fun sq_drain :: "nat \<Rightarrow> drain_event list \<Rightarrow> squeue \<Rightarrow> (js_error + unit) option" where
  "sq_drain target evs q =
     (if \<forall>t\<in>set (sq_tail q). target \<le> t then Some (Inr ())
      else case evs of [] \<Rightarrow> None
           | Dr_timeout # _ \<Rightarrow> Some (Inl (AppError ''ADMISSION_UNAVAILABLE'' 503))
           | Dr_lane ev # rest \<Rightarrow> sq_drain target rest (snd (lane_step sq_run sq_start sq_settle sq_close ev q)))"

declare sq_drain.simps [simp del]

definition drain :: "drain_event list \<Rightarrow> squeue \<Rightarrow> (js_error + unit) option" where
  "drain evs q = sq_drain (sq_next q) evs q"

section \<open>The queue is a serial lane\<close>

definition sq_ok :: "squeue \<Rightarrow> bool" where
  "sq_ok q \<longleftrightarrow> sq_pending q = length (sq_tail q) \<and> (sq_running q \<longrightarrow> sq_tail q \<noteq> []) \<and>
     (sq_maxPending q > 0 \<longrightarrow> sq_pending q \<le> sq_maxPending q)"

lemma sq_ok_new [simp]: "sq_ok (new_queue n)"
  by (simp add: sq_ok_def new_queue_def)

interpretation sq: serial_lane sq_run sq_start sq_settle sq_close sq_tail sq_running sq_next sq_ok
  by unfold_locales
    (auto simp: sq_ok_def sq_run_def sq_start_def sq_settle_def sq_close_def split: if_splits list.splits)

lemma lane_exec_maxPending:
  "sq_maxPending (snd (lane_exec sq_run sq_start sq_settle sq_close evs q)) = sq_maxPending q"
proof (induction evs arbitrary: q)
  case (Cons ev evs)
  obtain l q1 where s: "lane_step sq_run sq_start sq_settle sq_close ev q = (l, q1)" by force
  then have "sq_maxPending q1 = sq_maxPending q"
    by (cases ev) (auto simp: sq_run_def sq_start_def sq_settle_def sq_close_def split: list.splits if_splits)
  with Cons.IH [of q1] s show ?case by (auto split: prod.splits)
qed simp

text \<open>A closed queue accepts nothing more.\<close>

lemma closed_accepts_nothing:
  assumes "sq_closed q"
  shows "log_accepted (fst (lane_exec sq_run sq_start sq_settle sq_close evs q)) = []"
  using assms
proof (induction evs arbitrary: q)
  case (Cons ev evs)
  obtain l q1 where s: "lane_step sq_run sq_start sq_settle sq_close ev q = (l, q1)" by force
  with Cons.prems have "sq_closed q1" "log_accepted l = []"
    by (cases ev; auto simp: sq_run_def sq_start_def sq_settle_def sq_close_def split: list.splits if_splits)+
  with Cons.IH [of q1] s show ?case by (auto split: prod.splits)
qed simp

text \<open>
  What \<open>drain\<close> waits for: before the timer fires, the tasks accepted when it was called have all
  settled, and nothing that is accepted later holds it up.
\<close>

abbreviation sq_exec :: "lane_event list \<Rightarrow> squeue \<Rightarrow> squeue" where
  "sq_exec evs q \<equiv> snd (lane_exec sq_run sq_start sq_settle sq_close evs q)"

lemma sq_step_tail:
  assumes "lane_step sq_run sq_start sq_settle sq_close ev q = (l, q1)" "target \<le> sq_next q"
  shows "target \<le> sq_next q1" "(\<forall>t\<in>set (sq_tail q). target \<le> t) \<Longrightarrow> \<forall>t\<in>set (sq_tail q1). target \<le> t"
  using assms
  by (cases ev; auto simp: sq_run_def sq_start_def sq_settle_def sq_close_def split: list.splits if_splits)+

lemma sq_exec_tail:
  assumes "target \<le> sq_next q" "\<forall>t\<in>set (sq_tail q). target \<le> t"
  shows "\<forall>t\<in>set (sq_tail (sq_exec evs q)). target \<le> t"
  using assms
proof (induction evs arbitrary: q)
  case (Cons ev evs)
  obtain l q1 where s: "lane_step sq_run sq_start sq_settle sq_close ev q = (l, q1)" by force
  from Cons.IH [OF sq_step_tail [OF s Cons.prems(1)]] Cons.prems s show ?case by (auto split: prod.splits)
qed simp

lemma sq_drain_iff:
  assumes "target \<le> sq_next q"
  shows "sq_drain target (map Dr_lane evs @ [Dr_timeout]) q =
    Some (if \<forall>t\<in>set (sq_tail (sq_exec evs q)). target \<le> t then Inr ()
          else Inl (AppError ''ADMISSION_UNAVAILABLE'' 503))"
  using assms
proof (induction evs arbitrary: q)
  case Nil
  then show ?case by (simp add: sq_drain.simps)
next
  case (Cons ev evs)
  obtain l q1 where s: "lane_step sq_run sq_start sq_settle sq_close ev q = (l, q1)" by force
  show ?case
  proof (cases "\<forall>t\<in>set (sq_tail q). target \<le> t")
    case True
    with sq_exec_tail [OF Cons.prems True, of "ev # evs"] show ?thesis by (simp add: sq_drain.simps)
  next
    case False
    with Cons.IH [OF sq_step_tail(1) [OF s Cons.prems]] s show ?thesis
      by (subst sq_drain.simps) (auto split: prod.splits)
  qed
qed

section \<open>Properties\<close>

text \<open>
  C40: Whatever sequence of submissions, starts, settlements and closings a queue sees: the
  accepted tasks start in the order of acceptance, each once, the next only after the one before
  has settled, and the pending count is the number of accepted tasks that have not settled, within
  the bound of the queue.
\<close>

theorem queue_runs_in_order:
  "\<exists>l q accepted started settled.
    lane_exec sq_run sq_start sq_settle sq_close evs (new_queue n) = (l, q) \<and>
    log_accepted l = [0..<accepted] \<and> log_started l = [0..<started] \<and> log_settled l = [0..<settled] \<and>
    settled \<le> started \<and> started \<le> min accepted (settled + 1) \<and>
    sq_size q = accepted - settled \<and> sq_tail q = [settled..<accepted] \<and> (n > 0 \<longrightarrow> int (sq_size q) \<le> n)"
proof -
  obtain l q where r: "lane_exec sq_run sq_start sq_settle sq_close evs (new_queue n) = (l, q)" by force
  have n: "sq_tail (new_queue n) = [0..<sq_next (new_queue n)]" "\<not> sq_running (new_queue n)" "sq_next (new_queue n) = 0"
    by (simp_all add: new_queue_def)
  from sq.exec_order [OF sq_ok_new n(1) _ r] n(2,3) obtain m where
    m: "sq_ok q" "m \<le> sq_next q" "sq_tail q = [m..<sq_next q]" "log_accepted l = [0..<sq_next q]"
      "log_settled l = [0..<m]" "log_started l = [0..<of_bool (sq_running q) + m]" by auto
  have "n > 0 \<longrightarrow> sq_maxPending q = nat n"
    using lane_exec_maxPending [of evs "new_queue n"] r by (simp add: new_queue_def)
  with m have "n > 0 \<longrightarrow> int (sq_size q) \<le> n" by (auto simp: sq_ok_def sq_size_def)
  moreover have "of_bool (sq_running q) + m \<le> sq_next q" using m by (auto simp: sq_ok_def)
  ultimately show ?thesis using m r
    by (intro exI [of _ l] exI [of _ q] exI [of _ "sq_next q"] exI [of _ "of_bool (sq_running q) + m"] exI [of _ m])
      (auto simp: sq_ok_def sq_size_def)
qed

lemma queue_runs_in_order_witness:
  "\<exists>l q. lane_exec sq_run sq_start sq_settle sq_close [Ev_run, Ev_run, Ev_start, Ev_run, Ev_settle] (new_queue 2) = (l, q) \<and>
     int (sq_size q) \<le> 2 \<and> log_started l = [0]"
proof -
  let ?r = "lane_exec sq_run sq_start sq_settle sq_close [Ev_run, Ev_run, Ev_start, Ev_run, Ev_settle] (new_queue 2)"
  have "log_started (fst ?r) = [0]" by code_simp
  with queue_runs_in_order [of "[Ev_run, Ev_run, Ev_start, Ev_run, Ev_settle]" 2] show ?thesis by auto
qed

text \<open>
  A drain succeeds exactly when every task accepted before the call settles before its
  timer, whatever is submitted, started or closed meanwhile; it fails with the unavailable error
  otherwise, and never hangs.
\<close>

theorem drain_waits_for_accepted:
  assumes "sq_ok q" "sq_tail q = [m..<sq_next q]" "m \<le> sq_next q"
  shows "drain (map Dr_lane evs @ [Dr_timeout]) q =
    Some (if sq_next q \<le> m + length (log_settled (fst (lane_exec sq_run sq_start sq_settle sq_close evs q))) then Inr ()
          else Inl (AppError ''ADMISSION_UNAVAILABLE'' 503))"
proof -
  obtain l q' where r: "lane_exec sq_run sq_start sq_settle sq_close evs q = (l, q')" by force
  from sq.exec_order [OF assms r] obtain m' where
    m: "m' \<le> sq_next q'" "sq_tail q' = [m'..<sq_next q']" "sq_next q \<le> sq_next q'" "m \<le> m'" "log_settled l = [m..<m']"
    by blast
  from m(1,3) have "(\<forall>t\<in>set (sq_tail q'). sq_next q \<le> t) \<longleftrightarrow> sq_next q \<le> m'" unfolding m(2) by force
  with m show ?thesis by (simp add: drain_def sq_drain_iff r)
qed

lemma drain_waits_for_accepted_witness:
  "drain (map Dr_lane [Ev_start, Ev_settle, Ev_run] @ [Dr_timeout]) (sq_exec [Ev_run] (new_queue 0)) = Some (Inr ())"
proof -
  have "sq_ok (sq_exec [Ev_run] (new_queue 0)) \<and> sq_tail (sq_exec [Ev_run] (new_queue 0)) = [0..<sq_next (sq_exec [Ev_run] (new_queue 0))]"
    "sq_next (sq_exec [Ev_run] (new_queue 0)) \<le> 0 + length (log_settled (fst
       (lane_exec sq_run sq_start sq_settle sq_close [Ev_start, Ev_settle, Ev_run] (sq_exec [Ev_run] (new_queue 0)))))"
    by code_simp+
  with drain_waits_for_accepted [of "sq_exec [Ev_run] (new_queue 0)" 0 "[Ev_start, Ev_settle, Ev_run]"]
  show ?thesis by simp
qed

end
