(* ===== verification/ActualCoordinator.thy ===== *)
theory ActualCoordinator
  imports SerialQueue
begin

text \<open>
  The coordinator of the budget engine (\<open>lib/actual-coordinator.js\<close>): one serial lane for reads,
  writes and recoveries, and a cache of projections stamped with the generation they were computed
  under. The cache handed to \<open>bindCache\<close> is a third party's map with expiry: here a map whose
  entries may vanish at any time. Time stamps of the event log are left out.
\<close>

section \<open>State\<close>

datatype hold_kind = Hold_read | Hold_write | Hold_recover | Hold_shutdown

datatype co_event =
    Rec_invalidate nat "string list option"
  | Rec_stale_fill string nat nat
  | Rec_nested hold_kind string nat
  | Rec_enter hold_kind string "nat option"
  | Rec_leave hold_kind string
  | Rec_stop_admission

record co_stats =
  st_readsStarted :: nat
  st_writesStarted :: nat
  st_recoveriesStarted :: nat
  st_shutdownsStarted :: nat
  st_invalidations :: nat
  st_staleFillsDiscarded :: nat
  st_staleFillRetries :: nat
  st_staleFillExhaustions :: nat
  st_cacheHits :: nat
  st_cacheMisses :: nat
  st_nestedBypasses :: nat
  st_rejectedAfterClose :: nat

text \<open>
  A cache entry is a generation and a value; \<open>None\<close> as the value is \<open>undefined\<close>, which a reader
  cannot tell from a miss. No cache is bound at first.
\<close>

type_synonym 'v entry = "nat \<times> 'v option"

record 'v coord =
  co_queue :: squeue
  co_generation :: nat
  co_boundCache :: "(string \<Rightarrow> 'v entry option) option"
  co_shutdownFinalized :: bool
  co_stats :: co_stats
  co_recent :: "co_event list"

definition no_stats :: co_stats where
  "no_stats = \<lparr>st_readsStarted = 0, st_writesStarted = 0, st_recoveriesStarted = 0, st_shutdownsStarted = 0,
     st_invalidations = 0, st_staleFillsDiscarded = 0, st_staleFillRetries = 0, st_staleFillExhaustions = 0,
     st_cacheHits = 0, st_cacheMisses = 0, st_nestedBypasses = 0, st_rejectedAfterClose = 0\<rparr>"

definition new_coord :: "'v coord" where
  "new_coord = \<lparr>co_queue = new_queue 0, co_generation = 0, co_boundCache = None, co_shutdownFinalized = False,
     co_stats = no_stats, co_recent = []\<rparr>"

definition MAX_NEST_DEPTH :: nat where "MAX_NEST_DEPTH = 32"
definition MAX_STALE_FILL_ATTEMPTS :: nat where "MAX_STALE_FILL_ATTEMPTS = 4"

definition bindCache :: "(string \<Rightarrow> 'v entry option) \<Rightarrow> 'v coord \<Rightarrow> 'v coord" where
  "bindCache cache c = c\<lparr>co_boundCache := Some cache\<rparr>"

section \<open>The event log and the generations\<close>

definition record_event :: "co_event \<Rightarrow> 'v coord \<Rightarrow> 'v coord" where
  "record_event ev c =
     (let recent = co_recent c @ [ev] in c\<lparr>co_recent := if length recent > 64 then tl recent else recent\<rparr>)"

definition bump :: "(co_stats \<Rightarrow> co_stats) \<Rightarrow> 'v coord \<Rightarrow> 'v coord" where
  "bump f c = c\<lparr>co_stats := f (co_stats c)\<rparr>"

text \<open>An empty list of keys is no list of keys: everything is flushed.\<close>

definition invalidateGeneration :: "string list \<Rightarrow> 'v coord \<Rightarrow> 'v coord" where
  "invalidateGeneration keys c =
     (let c1 = c\<lparr>co_generation := co_generation c + 1,
                 co_boundCache := map_option (\<lambda>m. if keys \<noteq> [] then (\<lambda>k. if k \<in> set keys then None else m k)
                                                  else (\<lambda>_. None)) (co_boundCache c)\<rparr>;
          c2 = bump (\<lambda>s. s\<lparr>st_invalidations := st_invalidations s + 1\<rparr>) c1
      in record_event (Rec_invalidate (co_generation c2) (if keys \<noteq> [] then Some keys else None)) c2)"

definition readCacheEntry :: "string \<Rightarrow> 'v coord \<Rightarrow> 'v option" where
  "readCacheEntry key c =
     (case co_boundCache c of None \<Rightarrow> None
      | Some m \<Rightarrow> (case m key of None \<Rightarrow> None
                  | Some (g, v) \<Rightarrow> if g \<noteq> co_generation c then None else v))"

definition publishCacheEntry :: "string \<Rightarrow> 'v option \<Rightarrow> nat \<Rightarrow> 'v coord \<Rightarrow> bool \<times> 'v coord" where
  "publishCacheEntry key v captureGeneration c =
     (case co_boundCache c of None \<Rightarrow> (False, c)
      | Some m \<Rightarrow>
          if captureGeneration \<noteq> co_generation c
          then (False, record_event (Rec_stale_fill key captureGeneration (co_generation c))
                  (bump (\<lambda>s. s\<lparr>st_staleFillsDiscarded := st_staleFillsDiscarded s + 1\<rparr>) c))
          else (True, c\<lparr>co_boundCache := Some (m(key \<mapsto> (captureGeneration, v)))\<rparr>))"

section \<open>Holding the lane\<close>

record job =
  jb_kind :: hold_kind
  jb_invalidateBefore :: bool
  jb_label :: string

text \<open>
  \<open>_runHeld\<close> from outside a hold: a finalized coordinator refuses, otherwise the queue decides. The
  timer of thirty seconds is a matter of the caller alone: when it wins the race the caller gets an
  error, and the task keeps its place in the queue.
\<close>

definition shutdown_error :: js_error where
  "shutdown_error = PlainError ''shutdown is finalized''"

definition run_outside :: "'v coord \<Rightarrow> (js_error + nat) \<times> 'v coord" where
  "run_outside c =
     (if co_shutdownFinalized c
      then (Inl shutdown_error, bump (\<lambda>s. s\<lparr>st_rejectedAfterClose := st_rejectedAfterClose s + 1\<rparr>) c)
      else let (r, q) = sq_run (co_queue c) in (r, c\<lparr>co_queue := q\<rparr>))"

text \<open>What happens when the queue starts a held task, up to its body, and when the body is over.\<close>

definition count_start :: "hold_kind \<Rightarrow> 'v coord \<Rightarrow> 'v coord" where
  "count_start kind c =
     (case kind of
        Hold_read \<Rightarrow> bump (\<lambda>s. s\<lparr>st_readsStarted := st_readsStarted s + 1\<rparr>) c
      | Hold_write \<Rightarrow> bump (\<lambda>s. s\<lparr>st_writesStarted := st_writesStarted s + 1\<rparr>) c
      | Hold_recover \<Rightarrow> bump (\<lambda>s. s\<lparr>st_recoveriesStarted := st_recoveriesStarted s + 1\<rparr>) c
      | Hold_shutdown \<Rightarrow> c)"

definition enter_hold :: "job \<Rightarrow> 'v coord \<Rightarrow> 'v coord" where
  "enter_hold jb c =
     (let c1 = (if jb_invalidateBefore jb then invalidateGeneration [] c else c);
          c2 = count_start (jb_kind jb) c1
      in record_event (Rec_enter (jb_kind jb) (jb_label jb) (Some (co_generation c2))) c2)"

definition leave_hold :: "job \<Rightarrow> 'v coord \<Rightarrow> 'v coord" where
  "leave_hold jb c = record_event (Rec_leave (jb_kind jb) (jb_label jb)) c"

text \<open>
  \<open>_runHeld\<close> inside a hold runs its task at once, one level deeper; past the greatest depth it
  throws and the depth is put back. The depth is the lane's, \<open>nested_leave\<close> its \<open>finally\<close>.
\<close>

definition nested_enter :: "job \<Rightarrow> nat \<Rightarrow> 'v coord \<Rightarrow> (js_error + nat) \<times> 'v coord" where
  "nested_enter jb depth c =
     (if co_shutdownFinalized c
      then (Inl shutdown_error, bump (\<lambda>s. s\<lparr>st_rejectedAfterClose := st_rejectedAfterClose s + 1\<rparr>) c)
      else if depth + 1 > MAX_NEST_DEPTH
      then (Inl (PlainError ''nested coordinator depth exceeded''), c)
      else (Inr (depth + 1),
            record_event (Rec_nested (jb_kind jb) (jb_label jb) (depth + 1))
              (bump (\<lambda>s. s\<lparr>st_nestedBypasses := st_nestedBypasses s + 1\<rparr>) c)))"

definition nested_leave :: "nat \<Rightarrow> nat" where
  "nested_leave depth = depth - 1"

definition read_job :: "string \<Rightarrow> bool \<Rightarrow> job" where
  "read_job label invalidateBefore = \<lparr>jb_kind = Hold_read, jb_invalidateBefore = invalidateBefore, jb_label = label\<rparr>"

text \<open>A write invalidates before its body unless \<open>invalidateBefore\<close> is \<open>false\<close>; a recovery never does.\<close>

definition write_job :: "string \<Rightarrow> bool option \<Rightarrow> job" where
  "write_job label invalidateBefore =
     \<lparr>jb_kind = Hold_write, jb_invalidateBefore = (invalidateBefore \<noteq> Some False), jb_label = label\<rparr>"

definition recover_job :: "string \<Rightarrow> job" where
  "recover_job label = \<lparr>jb_kind = Hold_recover, jb_invalidateBefore = False, jb_label = label\<rparr>"

section \<open>Cached reads\<close>

text \<open>
  The body of the task behind \<open>cachedRead\<close>, with \<open>fn attempt c\<close> for the call of \<open>fn\<close> in an
  attempt: everything that happens to the coordinator while it is awaited, and its result.
  \<open>left\<close> attempts are to go.
\<close>

fun fill_attempts ::
  "nat \<Rightarrow> (nat \<Rightarrow> 'v coord \<Rightarrow> (js_error + 'v option) \<times> 'v coord) \<Rightarrow> string \<Rightarrow> 'v coord \<Rightarrow>
   (js_error + 'v option) \<times> 'v coord" where
  "fill_attempts 0 fn key c =
     (Inl (PlainError ''exhausted stale-fill attempts''),
      bump (\<lambda>s. s\<lparr>st_staleFillExhaustions := st_staleFillExhaustions s + 1\<rparr>) c)"
| "fill_attempts (Suc left) fn key c =
     (case fn (MAX_STALE_FILL_ATTEMPTS - left) c of
        (Inl e, c1) \<Rightarrow> (Inl e, c1)
      | (Inr v, c1) \<Rightarrow>
          (case publishCacheEntry key v (co_generation c) c1 of
             (True, c2) \<Rightarrow> (Inr v, c2)
           | (False, c2) \<Rightarrow>
               let c3 = bump (\<lambda>s. s\<lparr>st_staleFillRetries := st_staleFillRetries s + 1\<rparr>) c2
               in case readCacheEntry key c3 of
                    Some w \<Rightarrow> (Inr (Some w), bump (\<lambda>s. s\<lparr>st_cacheHits := st_cacheHits s + 1\<rparr>) c3)
                  | None \<Rightarrow> fill_attempts left fn key c3))"

definition fill_task ::
  "(nat \<Rightarrow> 'v coord \<Rightarrow> (js_error + 'v option) \<times> 'v coord) \<Rightarrow> string \<Rightarrow> 'v coord \<Rightarrow> (js_error + 'v option) \<times> 'v coord" where
  "fill_task fn key c =
     (case readCacheEntry key c of
        Some v \<Rightarrow> (Inr (Some v), bump (\<lambda>s. s\<lparr>st_cacheHits := st_cacheHits s + 1\<rparr>) c)
      | None \<Rightarrow> fill_attempts MAX_STALE_FILL_ATTEMPTS fn key c)"

text \<open>\<open>cachedRead\<close> until it awaits: a hit answers at once, a miss asks for a read hold.\<close>

definition cached_hit :: "string \<Rightarrow> 'v coord \<Rightarrow> 'v option \<times> 'v coord" where
  "cached_hit key c =
     (case readCacheEntry key c of
        Some v \<Rightarrow> (Some v, bump (\<lambda>s. s\<lparr>st_cacheHits := st_cacheHits s + 1\<rparr>) c)
      | None \<Rightarrow> (None, bump (\<lambda>s. s\<lparr>st_cacheMisses := st_cacheMisses s + 1\<rparr>) c))"

section \<open>Shutdown and health\<close>

definition stopAdmission :: "'v coord \<Rightarrow> 'v coord" where
  "stopAdmission c =
     (if sq_closed (co_queue c) then c
      else record_event Rec_stop_admission (c\<lparr>co_queue := sq_close (co_queue c)\<rparr>))"

text \<open>
  \<open>shutdownHandoff\<close> up to its drain, its entry once the drain has succeeded, and its \<open>finally\<close>,
  which runs whether the task returned or threw.
\<close>

definition shutdown_begin :: "'v coord \<Rightarrow> (js_error + unit) \<times> 'v coord" where
  "shutdown_begin c =
     (if co_shutdownFinalized c then (Inl (PlainError ''shutdown already finalized''), c)
      else (Inr (), stopAdmission c))"

definition shutdown_enter :: "'v coord \<Rightarrow> 'v coord" where
  "shutdown_enter c =
     record_event (Rec_enter Hold_shutdown ''shutdownHandoff'' None)
       (bump (\<lambda>s. s\<lparr>st_shutdownsStarted := st_shutdownsStarted s + 1\<rparr>) c)"

definition shutdown_leave :: "'v coord \<Rightarrow> 'v coord" where
  "shutdown_leave c = record_event (Rec_leave Hold_shutdown ''shutdownHandoff'') (c\<lparr>co_shutdownFinalized := True\<rparr>)"

record health =
  he_generation :: nat
  he_queued :: nat
  he_holdDepth :: nat
  he_holdKind :: "hold_kind option"
  he_closed :: bool
  he_shutdownFinalized :: bool
  he_stats :: co_stats
  he_recent :: "co_event list"

text \<open>\<open>recent.slice(-16)\<close>.\<close>

definition getHealth :: "(nat \<times> hold_kind) option \<Rightarrow> 'v coord \<Rightarrow> health" where
  "getHealth activeLane c =
     \<lparr>he_generation = co_generation c, he_queued = sq_size (co_queue c),
      he_holdDepth = (case activeLane of None \<Rightarrow> 0 | Some (d, _) \<Rightarrow> d), he_holdKind = map_option snd activeLane,
      he_closed = sq_closed (co_queue c), he_shutdownFinalized = co_shutdownFinalized c, he_stats = co_stats c,
      he_recent = drop (length (co_recent c) - 16) (co_recent c)\<rparr>"

section \<open>Filling the cache\<close>

lemma bump_simps [simp]:
  "co_queue (bump f c) = co_queue c" "co_generation (bump f c) = co_generation c"
  "co_boundCache (bump f c) = co_boundCache c" "co_shutdownFinalized (bump f c) = co_shutdownFinalized c"
  "co_recent (bump f c) = co_recent c" "readCacheEntry k (bump f c) = readCacheEntry k c"
  by (simp_all add: bump_def readCacheEntry_def split: option.splits)

lemma record_event_simps [simp]:
  "co_queue (record_event e c) = co_queue c" "co_generation (record_event e c) = co_generation c"
  "co_boundCache (record_event e c) = co_boundCache c"
  "co_shutdownFinalized (record_event e c) = co_shutdownFinalized c"
  "readCacheEntry k (record_event e c) = readCacheEntry k c"
  by (simp_all add: record_event_def readCacheEntry_def Let_def split: option.splits)

lemma invalidate_simps [simp]:
  "co_queue (invalidateGeneration keys c) = co_queue c"
  "co_generation (invalidateGeneration keys c) = Suc (co_generation c)"
  "co_shutdownFinalized (invalidateGeneration keys c) = co_shutdownFinalized c"
  by (simp_all add: invalidateGeneration_def Let_def)

lemma publish_cases:
  assumes "publishCacheEntry key v g c = (b, c')"
  shows "co_queue c' = co_queue c \<and> co_generation c' = co_generation c \<and>
    (b \<longleftrightarrow> g = co_generation c \<and> co_boundCache c \<noteq> None) \<and>
    co_boundCache c' = (if b then Some ((the (co_boundCache c))(key \<mapsto> (g, v))) else co_boundCache c)"
  using assms by (auto simp: publishCacheEntry_def split: option.splits if_splits)

lemma publish_readable:
  "publishCacheEntry key v g c = (True, c') \<Longrightarrow> readCacheEntry key c' = v"
  by (auto simp: publishCacheEntry_def readCacheEntry_def split: option.splits if_splits)

text \<open>
  What \<open>fn\<close> may do to the coordinator while it is awaited: others invalidate, so the generation
  never goes back, and the cache stays bound.
\<close>

definition only_invalidates :: "(nat \<Rightarrow> 'v coord \<Rightarrow> (js_error + 'v option) \<times> 'v coord) \<Rightarrow> bool" where
  "only_invalidates fn \<longleftrightarrow> (\<forall>a c r c'. fn a c = (r, c') \<longrightarrow> co_generation c \<le> co_generation c' \<and>
     (co_boundCache c \<noteq> None \<longrightarrow> co_boundCache c' \<noteq> None))"

lemma fill_attempts_fresh:
  assumes "only_invalidates fn" "fill_attempts n fn key c = (r, c')" "co_boundCache c \<noteq> None"
  shows "co_generation c \<le> co_generation c' \<and>
    (case r of Inr v \<Rightarrow> readCacheEntry key c' = v
     | Inl e \<Rightarrow> co_generation c + n \<le> co_generation c' \<or> (\<exists>a c0 c1. fn a c0 = (Inl e, c1)))"
  using assms(2,3)
proof (induction n arbitrary: c)
  case (Suc n)
  obtain r1 c1 where f: "fn (MAX_STALE_FILL_ATTEMPTS - n) c = (r1, c1)" by force
  have g: "co_generation c \<le> co_generation c1" "co_boundCache c1 \<noteq> None"
    using assms(1) f Suc.prems(2) unfolding only_invalidates_def by blast+
  show ?case
  proof (cases r1)
    case (Inl e)
    with f Suc.prems g show ?thesis by auto
  next
    case (Inr v)
    obtain b c2 where p: "publishCacheEntry key v (co_generation c) c1 = (b, c2)" by force
    note pc = publish_cases [OF p]
    show ?thesis
    proof (cases b)
      case True
      with f Inr p Suc.prems have "r = Inr v" "c' = c2" by auto
      moreover have "readCacheEntry key c2 = v" using p True publish_readable by simp
      ultimately show ?thesis using pc g by simp
    next
      case False
      let ?c3 = "bump (\<lambda>s. s\<lparr>st_staleFillRetries := st_staleFillRetries s + 1\<rparr>) c2"
      from pc False g have up: "co_generation c < co_generation c2" "co_boundCache c2 \<noteq> None" by auto
      show ?thesis
      proof (cases "readCacheEntry key ?c3")
        case None
        with f Inr p False Suc.prems have "fill_attempts n fn key ?c3 = (r, c')" by simp
        from Suc.IH [OF this] up show ?thesis by (auto split: sum.splits)
      next
        case (Some w)
        with f Inr p False Suc.prems have "r = Inr (Some w)" "co_generation c' = co_generation c2" "readCacheEntry key c' = Some w"
          by auto
        with up show ?thesis by simp
      qed
    qed
  qed
qed auto

lemma fill_task_fresh:
  assumes "only_invalidates fn" "fill_task fn key c = (r, c')" "co_boundCache c \<noteq> None"
  shows "case r of Inr v \<Rightarrow> readCacheEntry key c' = v
     | Inl e \<Rightarrow> co_generation c + 4 \<le> co_generation c' \<or> (\<exists>a c0 c1. fn a c0 = (Inl e, c1))"
proof (cases "readCacheEntry key c")
  case None
  with assms(2) have "fill_attempts 4 fn key c = (r, c')" by (simp add: fill_task_def MAX_STALE_FILL_ATTEMPTS_def)
  from fill_attempts_fresh [OF assms(1) this assms(3)] show ?thesis by (auto split: sum.splits)
next
  case (Some v)
  with assms(2) show ?thesis by (auto simp: fill_task_def)
qed

text \<open>Without a bound cache no fill is ever published: after four calls of \<open>fn\<close> the read fails.\<close>

lemma unbound_fill_exhausts:
  assumes "co_boundCache c = None" "\<And>a c. \<exists>v. fn a c = (Inr v, c)"
  shows "\<exists>c'. fill_task fn key c = (Inl (PlainError ''exhausted stale-fill attempts''), c')"
proof -
  have "\<exists>c'. fill_attempts n fn key c = (Inl (PlainError ''exhausted stale-fill attempts''), c')"
    if "co_boundCache c = None" for n and c :: "'a coord" using that
  proof (induction n arbitrary: c)
    case (Suc n)
    obtain v where v: "fn (MAX_STALE_FILL_ATTEMPTS - n) c = (Inr v, c)" using assms(2) by blast
    with Suc show ?case by (simp add: publishCacheEntry_def readCacheEntry_def Let_def)
  qed simp
  from this [OF assms(1)] assms(1) show ?thesis by (simp add: fill_task_def readCacheEntry_def)
qed

section \<open>The whole lane\<close>

text \<open>
  The coordinator with its callers. \<open>view key w\<close> is what \<open>fn\<close> computes for a key from a world \<open>w\<close>
  (the budget and the sidecar files). Held tasks fill the cache and change the world, anybody
  invalidates, entries expire. \<open>sy_debt\<close> marks that the running task has changed the world while
  something computed before was still readable or on its way: the callers' part of the contract
  (\<open>runActualProjectionMutation\<close> in \<open>server.js\<close>, \<open>syncNow\<close> in \<open>dataModule.js\<close>) is that a task does not
  leave its hold like that, nor with a fill still on its way.
\<close>

record 'v fill =
  fi_key :: string
  fi_capture :: nat
  fi_value :: "'v option option"

record ('v, 'w) sys =
  sy_co :: "'v coord"
  sy_jobs :: "nat \<Rightarrow> job"
  sy_hold :: "nat option"
  sy_depth :: nat
  sy_fills :: "'v fill list"
  sy_world :: 'w
  sy_debt :: bool

definition sys_start :: "'w \<Rightarrow> ('v, 'w) sys" where
  "sys_start w = \<lparr>sy_co = bindCache Map.empty new_coord, sy_jobs = (\<lambda>_. read_job [] False), sy_hold = None,
     sy_depth = 0, sy_fills = [], sy_world = w, sy_debt = False\<rparr>"

inductive sys_step :: "(string \<Rightarrow> 'w \<Rightarrow> 'v option) \<Rightarrow> ('v, 'w) sys \<Rightarrow> ('v, 'w) sys \<Rightarrow> bool"
  for view :: "string \<Rightarrow> 'w \<Rightarrow> 'v option" where
  step_call: "run_outside (sy_co s) = (r, c) \<Longrightarrow>
    sys_step view s (s\<lparr>sy_co := c, sy_jobs := (case r of Inr t \<Rightarrow> (sy_jobs s)(t := jb) | Inl _ \<Rightarrow> sy_jobs s)\<rparr>)"
| step_lookup: "sys_step view s (s\<lparr>sy_co := snd (cached_hit key (sy_co s))\<rparr>)"
| step_enter: "\<lbrakk>sq_start (co_queue (sy_co s)) = Some (t, q)\<rbrakk> \<Longrightarrow>
    sys_step view s (s\<lparr>sy_co := enter_hold (sy_jobs s t) (sy_co s\<lparr>co_queue := q\<rparr>), sy_hold := Some t, sy_depth := 0\<rparr>)"
| step_nested: "\<lbrakk>sy_hold s = Some t; nested_enter jb (sy_depth s) (sy_co s) = (r, c)\<rbrakk> \<Longrightarrow>
    sys_step view s (s\<lparr>sy_co := c, sy_depth := (case r of Inr d \<Rightarrow> d | Inl _ \<Rightarrow> sy_depth s)\<rparr>)"
| step_unnest: "\<lbrakk>sy_hold s = Some t; 0 < sy_depth s\<rbrakk> \<Longrightarrow>
    sys_step view s (s\<lparr>sy_depth := nested_leave (sy_depth s)\<rparr>)"
| step_fill: "\<lbrakk>sy_hold s = Some t; readCacheEntry key (sy_co s) = None\<rbrakk> \<Longrightarrow>
    sys_step view s (s\<lparr>sy_fills := \<lparr>fi_key = key, fi_capture = co_generation (sy_co s), fi_value = None\<rparr> # sy_fills s\<rparr>)"
| step_compute: "sy_fills s = xs @ f # ys \<Longrightarrow>
    sys_step view s (s\<lparr>sy_fills := xs @ f\<lparr>fi_value := Some (view (fi_key f) (sy_world s))\<rparr> # ys\<rparr>)"
| step_publish: "\<lbrakk>sy_fills s = xs @ f # ys; fi_value f = Some v;
     publishCacheEntry (fi_key f) v (fi_capture f) (sy_co s) = (b, c)\<rbrakk> \<Longrightarrow>
    sys_step view s (s\<lparr>sy_co := c, sy_fills := xs @ ys\<rparr>)"
| step_fail: "sy_fills s = xs @ f # ys \<Longrightarrow> sys_step view s (s\<lparr>sy_fills := xs @ ys\<rparr>)"
| step_invalidate: "sys_step view s (s\<lparr>sy_co := invalidateGeneration keys (sy_co s), sy_debt := False\<rparr>)"
| step_expire: "co_boundCache (sy_co s) = Some m \<Longrightarrow>
    sys_step view s (s\<lparr>sy_co := (sy_co s)\<lparr>co_boundCache := Some (m(key := None))\<rparr>\<rparr>)"
| step_change: "sy_hold s = Some t \<Longrightarrow>
    sys_step view s (s\<lparr>sy_world := w, sy_debt := sy_debt s \<or> (\<exists>k. readCacheEntry k (sy_co s) \<noteq> None) \<or>
      (\<exists>f\<in>set (sy_fills s). fi_capture f = co_generation (sy_co s))\<rparr>)"
| step_leave: "\<lbrakk>sy_hold s = Some t; sq_settle (co_queue (sy_co s)) = Some (t, q); sy_fills s = []; \<not> sy_debt s\<rbrakk> \<Longrightarrow>
    sys_step view s (s\<lparr>sy_co := (leave_hold (sy_jobs s t) (sy_co s))\<lparr>co_queue := q\<rparr>, sy_hold := None\<rparr>)"
| step_stop: "shutdown_begin (sy_co s) = (r, c) \<Longrightarrow> sys_step view s (s\<lparr>sy_co := c\<rparr>)"
| step_shutdown: "\<lbrakk>sq_closed (co_queue (sy_co s)); sq_tail (co_queue (sy_co s)) = []\<rbrakk> \<Longrightarrow>
    sys_step view s (s\<lparr>sy_co := shutdown_leave (shutdown_enter (sy_co s))\<rparr>)"

inductive sys_reach :: "(string \<Rightarrow> 'w \<Rightarrow> 'v option) \<Rightarrow> ('v, 'w) sys \<Rightarrow> bool" for view where
  reach_start: "sys_reach view (sys_start w)"
| reach_step: "\<lbrakk>sys_reach view s; sys_step view s s'\<rbrakk> \<Longrightarrow> sys_reach view s'"

text \<open>
  The invariant: the running ticket is the head of the queue; nothing is stamped with a later
  generation; between holds nothing is owed; and whatever is stamped with the current generation
  shows the current world.
\<close>

definition lane_ok :: "('v, 'w) sys \<Rightarrow> bool" where
  "lane_ok s \<longleftrightarrow> sq_ok (co_queue (sy_co s)) \<and> (sy_hold s \<noteq> None \<longleftrightarrow> sq_running (co_queue (sy_co s))) \<and>
     (\<forall>t. sy_hold s = Some t \<longrightarrow> t = hd (sq_tail (co_queue (sy_co s)))) \<and>
     (sy_hold s = None \<longrightarrow> sy_fills s = [] \<and> \<not> sy_debt s)"

definition stamps_ok :: "('v, 'w) sys \<Rightarrow> bool" where
  "stamps_ok s \<longleftrightarrow> (\<exists>m. co_boundCache (sy_co s) = Some m \<and> (\<forall>k g v. m k = Some (g, v) \<longrightarrow> g \<le> co_generation (sy_co s))) \<and>
     (\<forall>f\<in>set (sy_fills s). fi_capture f \<le> co_generation (sy_co s))"

definition shows_world :: "(string \<Rightarrow> 'w \<Rightarrow> 'v option) \<Rightarrow> ('v, 'w) sys \<Rightarrow> bool" where
  "shows_world view s \<longleftrightarrow> sy_debt s \<or>
     (\<forall>k v. readCacheEntry k (sy_co s) = Some v \<longrightarrow> view k (sy_world s) = Some v) \<and>
     (\<forall>f\<in>set (sy_fills s). \<forall>v. fi_capture f = co_generation (sy_co s) \<and> fi_value f = Some v \<longrightarrow>
        v = view (fi_key f) (sy_world s))"

lemma readCache_Some:
  "readCacheEntry k c = Some v \<longleftrightarrow> (\<exists>m. co_boundCache c = Some m \<and> m k = Some (co_generation c, Some v))"
  by (auto simp: readCacheEntry_def split: option.splits if_splits)

lemma lookup_simps [simp]:
  "co_queue (snd (cached_hit key c)) = co_queue c" "co_generation (snd (cached_hit key c)) = co_generation c"
  "co_boundCache (snd (cached_hit key c)) = co_boundCache c"
  by (simp_all add: cached_hit_def split: option.splits)

lemma enter_simps [simp]:
  "co_queue (enter_hold jb c) = co_queue c"
  "co_generation (enter_hold jb c) = co_generation c + of_bool (jb_invalidateBefore jb)"
  by (simp_all add: enter_hold_def Let_def count_start_def split: hold_kind.splits)

lemma enter_cache:
  "co_boundCache (enter_hold jb c) = (if jb_invalidateBefore jb then map_option (\<lambda>_ _. None) (co_boundCache c) else co_boundCache c)"
  by (simp add: enter_hold_def Let_def count_start_def invalidateGeneration_def split: hold_kind.splits)

lemma leave_simps [simp]:
  "co_queue (leave_hold jb c) = co_queue c" "co_generation (leave_hold jb c) = co_generation c"
  "co_boundCache (leave_hold jb c) = co_boundCache c"
  by (simp_all add: leave_hold_def)

lemma nested_keeps:
  "nested_enter jb d c = (r, c') \<Longrightarrow>
    co_queue c' = co_queue c \<and> co_generation c' = co_generation c \<and> co_boundCache c' = co_boundCache c"
  by (auto simp: nested_enter_def split: if_splits)

lemma run_outside_keeps:
  "run_outside c = (r, c') \<Longrightarrow> co_generation c' = co_generation c \<and> co_boundCache c' = co_boundCache c \<and>
    (co_queue c' = co_queue c \<or> sq_run (co_queue c) = (r, co_queue c'))"
  by (auto simp: run_outside_def split: if_splits prod.splits)

lemma stop_keeps:
  "shutdown_begin c = (r, c') \<Longrightarrow> co_generation c' = co_generation c \<and> co_boundCache c' = co_boundCache c \<and>
    (co_queue c' = co_queue c \<or> co_queue c' = sq_close (co_queue c))"
  by (auto simp: shutdown_begin_def stopAdmission_def split: if_splits)

lemma shutdown_simps [simp]:
  "co_queue (shutdown_leave (shutdown_enter c)) = co_queue c"
  "co_generation (shutdown_leave (shutdown_enter c)) = co_generation c"
  "co_boundCache (shutdown_leave (shutdown_enter c)) = co_boundCache c"
  by (simp_all add: shutdown_leave_def shutdown_enter_def)

lemma invalidate_cache:
  "co_boundCache c = Some m \<Longrightarrow> \<exists>m'. co_boundCache (invalidateGeneration keys c) = Some m' \<and>
    (\<forall>k. m' k = None \<or> m' k = m k)"
  by (auto simp: invalidateGeneration_def Let_def)

lemma readCache_cong:
  "\<lbrakk>co_generation c' = co_generation c; co_boundCache c' = co_boundCache c\<rbrakk> \<Longrightarrow> readCacheEntry k c' = readCacheEntry k c"
  by (auto simp: readCacheEntry_def split: option.splits)

lemma sq_run_keeps:
  assumes "sq_ok q" "sq_run q = (r, q')"
  shows "sq_ok q' \<and> sq_running q' = sq_running q \<and> (sq_running q \<longrightarrow> hd (sq_tail q') = hd (sq_tail q))"
proof (cases r)
  case (Inl e)
  with sq.run_Inl [OF assms(1)] assms(2) show ?thesis by simp
next
  case (Inr t)
  with sq.run_Inr [OF assms(1)] sq.busy_waiting [OF assms(1)] assms(2) show ?thesis by simp
qed

lemma lane_ok_step:
  assumes "sys_step view s s'" "lane_ok s"
  shows "lane_ok s'"
  using assms
proof (cases rule: sys_step.cases)
  case (step_call r c jb)
  with run_outside_keeps [OF step_call(2)] sq_run_keeps [of "co_queue (sy_co s)" r "co_queue c"] assms(2) show ?thesis
    by (auto simp: lane_ok_def)
next
  case (step_enter t q)
  have "sq_ok (co_queue (sy_co s))" using assms(2) by (simp add: lane_ok_def)
  from sq.start_Some [OF this step_enter(2)] show ?thesis using step_enter(1) by (simp add: lane_ok_def)
next
  case (step_nested t jb r c)
  with nested_keeps [OF step_nested(3)] assms(2) show ?thesis by (simp add: lane_ok_def)
next
  case (step_publish xs f ys v b c)
  with publish_cases [OF step_publish(4)] assms(2) show ?thesis by (auto simp: lane_ok_def)
next
  case (step_leave t q)
  have "sq_ok (co_queue (sy_co s))" using assms(2) by (simp add: lane_ok_def)
  from sq.settle_Some [OF this step_leave(3)] show ?thesis using step_leave(1,4,5) by (simp add: lane_ok_def)
next
  case (step_stop r c)
  with stop_keeps [OF step_stop(2)] sq.close_ok [of "co_queue (sy_co s)"] assms(2) show ?thesis
    by (auto simp: lane_ok_def)
qed (auto simp: lane_ok_def)

lemma stamps_ok_step:
  assumes "sys_step view s s'" "stamps_ok s"
  shows "stamps_ok s'"
proof -
  obtain m where m: "co_boundCache (sy_co s) = Some m" "\<And>k g v. m k = Some (g, v) \<Longrightarrow> g \<le> co_generation (sy_co s)"
    and f: "\<And>f. f \<in> set (sy_fills s) \<Longrightarrow> fi_capture f \<le> co_generation (sy_co s)"
    using assms(2) unfolding stamps_ok_def by blast
  from assms(1) show ?thesis
  proof (cases rule: sys_step.cases)
    case (step_call r c jb)
    with run_outside_keeps [OF step_call(2)] m f show ?thesis by (auto simp: stamps_ok_def)
  next
    case (step_enter t q)
    with m f show ?thesis by (auto simp: stamps_ok_def enter_cache le_SucI)
  next
    case (step_nested t jb r c)
    with nested_keeps [OF step_nested(3)] m f show ?thesis by (auto simp: stamps_ok_def)
  next
    case (step_publish xs f' ys v b c)
    with publish_cases [OF step_publish(4)] m f show ?thesis by (auto simp: stamps_ok_def)
  next
    case (step_invalidate keys)
    with invalidate_cache [OF m(1), of keys] m(2) f show ?thesis
      by (auto simp: stamps_ok_def) (metis le_SucI option.distinct(1))+
  next
    case (step_stop r c)
    with stop_keeps [OF step_stop(2)] m f show ?thesis by (auto simp: stamps_ok_def)
  qed (use m f in \<open>auto simp: stamps_ok_def\<close>)
qed

lemma shows_world_step:
  assumes "sys_step view s s'" "lane_ok s" "stamps_ok s" "shows_world view s"
  shows "shows_world view s'"
proof (cases "sy_debt s'")
  case nd: False
  obtain m where m: "co_boundCache (sy_co s) = Some m" "\<And>k g v. m k = Some (g, v) \<Longrightarrow> g \<le> co_generation (sy_co s)"
    and f: "\<And>f. f \<in> set (sy_fills s) \<Longrightarrow> fi_capture f \<le> co_generation (sy_co s)"
    using assms(3) unfolding stamps_ok_def by blast
  from assms(1) show ?thesis
  proof (cases rule: sys_step.cases)
    case (step_call r c jb)
    with run_outside_keeps [OF step_call(2)] readCache_cong [of c "sy_co s"] assms(4) show ?thesis
      by (auto simp: shows_world_def)
  next
    case (step_lookup key)
    with readCache_cong [of "snd (cached_hit key (sy_co s))" "sy_co s"] assms(4) show ?thesis
      by (auto simp: shows_world_def)
  next
    case (step_enter t q)
    have "sq_ok (co_queue (sy_co s))" using assms(2) by (simp add: lane_ok_def)
    from sq.start_Some [OF this step_enter(2)] assms(2) have "sy_hold s = None" by (auto simp: lane_ok_def)
    with assms(2) have "sy_fills s = []" by (simp add: lane_ok_def)
    with step_enter(1) assms(4) nd m show ?thesis
      by (auto simp: shows_world_def readCache_Some enter_cache)
  next
    case (step_nested t jb r c)
    with nested_keeps [OF step_nested(3)] readCache_cong [of c "sy_co s"] assms(4) show ?thesis
      by (auto simp: shows_world_def)
  next
    case (step_publish xs f' ys v b c)
    from publish_cases [OF step_publish(4)] m(1) have
      "co_generation c = co_generation (sy_co s)" and b: "b \<longleftrightarrow> fi_capture f' = co_generation (sy_co s)"
      and c: "co_boundCache c = Some (if b then m(fi_key f' \<mapsto> (fi_capture f', v)) else m)" by auto
    with step_publish(1-3) assms(4) nd m(1) show ?thesis
      by (auto simp: shows_world_def readCache_Some split: if_splits)
  next
    case (step_invalidate keys)
    from invalidate_cache [OF m(1), of keys] obtain m' where
      m': "co_boundCache (invalidateGeneration keys (sy_co s)) = Some m'" "\<And>k. m' k = None \<or> m' k = m k" by blast
    have "\<not> m' k = Some (Suc (co_generation (sy_co s)), Some v)" for k v
      using m'(2) [of k] m(2) [of k "Suc (co_generation (sy_co s))" "Some v"] by auto
    moreover have "fi_capture f \<noteq> Suc (co_generation (sy_co s))" if "f \<in> set (sy_fills s)" for f
      using f [OF that] by simp
    ultimately show ?thesis using step_invalidate m'(1) by (auto simp: shows_world_def readCache_Some)
  next
    case (step_expire m2 k)
    with assms(4) nd show ?thesis by (auto simp: shows_world_def readCache_Some split: if_splits)
  next
    case (step_change t w)
    with nd assms(4) show ?thesis by (auto simp: shows_world_def)
  next
    case (step_leave t q)
    with readCache_cong [of "sy_co s'" "sy_co s"] assms(4) show ?thesis by (auto simp: shows_world_def)
  next
    case (step_stop r c)
    with stop_keeps [OF step_stop(2)] readCache_cong [of c "sy_co s"] assms(4) show ?thesis
      by (auto simp: shows_world_def)
  next
    case step_shutdown
    with readCache_cong [of "sy_co s'" "sy_co s"] assms(4) show ?thesis by (auto simp: shows_world_def)
  qed (use assms(4) in \<open>auto simp: shows_world_def\<close>)
qed (simp add: shows_world_def)

lemma sys_reach_invariant:
  "sys_reach view s \<Longrightarrow> lane_ok s \<and> stamps_ok s \<and> shows_world view s"
proof (induction rule: sys_reach.induct)
  case (reach_start w)
  have "sq_ok (new_queue 0)" "sq_tail (new_queue 0) = []" "\<not> sq_running (new_queue 0)" by (simp_all add: new_queue_def sq_ok_def)
  then show ?case
    by (simp add: lane_ok_def stamps_ok_def shows_world_def sys_start_def bindCache_def new_coord_def readCacheEntry_def)
next
  case (reach_step s s')
  with lane_ok_step stamps_ok_step shows_world_step show ?case by blast
qed

section \<open>Properties\<close>


lemma filled_run:
  "\<exists>s. sys_reach (\<lambda>_ w. Some w) s \<and> sy_hold s = Some 0 \<and> \<not> sy_debt s \<and> sy_fills s = [] \<and> sy_world s = (7::int) \<and>
     readCacheEntry ''accounts'' (sy_co s) = Some 7"
proof -
  let ?v = "\<lambda>(_::string) (w::int). Some w"
  define s0 :: "(int, int) sys" where "s0 = sys_start 7"
  define c1 where "c1 = snd (run_outside (sy_co s0))"
  define s1 where "s1 = s0\<lparr>sy_co := c1, sy_jobs := (sy_jobs s0)(0 := read_job ''cache:accounts'' False)\<rparr>"
  obtain q where q: "sq_start (co_queue c1) = Some (0, q)"
    by (simp add: c1_def s0_def sys_start_def run_outside_def bindCache_def new_coord_def sq_run_def new_queue_def sq_start_def)
  define s2 where "s2 = s1\<lparr>sy_co := enter_hold (sy_jobs s1 0) (sy_co s1\<lparr>co_queue := q\<rparr>), sy_hold := Some 0, sy_depth := 0\<rparr>"
  define f :: "int fill" where "f = \<lparr>fi_key = ''accounts'', fi_capture = co_generation (sy_co s2), fi_value = None\<rparr>"
  define s3 where "s3 = s2\<lparr>sy_fills := f # sy_fills s2\<rparr>"
  define s4 where "s4 = s3\<lparr>sy_fills := [] @ f\<lparr>fi_value := Some (Some 7)\<rparr> # sy_fills s2\<rparr>"
  obtain b c where p: "publishCacheEntry ''accounts'' (Some 7) (co_generation (sy_co s2)) (sy_co s4) = (b, c)" by force
  define s5 where "s5 = s4\<lparr>sy_co := c, sy_fills := [] @ sy_fills s2\<rparr>"
  have c1: "run_outside (sy_co s0) = (Inr 0, c1)" "co_boundCache c1 = Some Map.empty"
    by (simp_all add: c1_def s0_def sys_start_def run_outside_def bindCache_def new_coord_def sq_run_def new_queue_def)
  have w: "sy_world s0 = 7" "sy_fills s0 = []" "\<not> sy_debt s0" by (simp_all add: s0_def sys_start_def)
  have c2: "co_boundCache (sy_co s2) = Some Map.empty" by (simp add: s2_def s1_def enter_cache c1 read_job_def)
  have r0: "sys_reach ?v s0" unfolding s0_def by (rule reach_start)
  have t0: "sys_step ?v s0 s1"
    using step_call [OF c1(1), of ?v "read_job ''cache:accounts'' False"] by (simp add: s1_def)
  have t1: "sys_step ?v s1 s2" unfolding s2_def by (rule step_enter) (simp add: s1_def q)
  have t2: "sys_step ?v s2 s3" unfolding s3_def f_def
    by (rule step_fill) (simp_all add: s2_def [symmetric] readCacheEntry_def c2, simp add: s2_def)
  have t3: "sys_step ?v s3 s4"
    using step_compute [of s3 "[]" f "sy_fills s2" ?v] w by (simp add: s4_def s3_def s2_def s1_def)
  have t4: "sys_step ?v s4 s5" unfolding s5_def
  proof (rule step_publish)
    show "sy_fills s4 = [] @ f\<lparr>fi_value := Some (Some 7)\<rparr> # sy_fills s2" unfolding s4_def by simp
    show "fi_value (f\<lparr>fi_value := Some (Some 7)\<rparr>) = Some (Some 7)" by simp
    show "publishCacheEntry (fi_key (f\<lparr>fi_value := Some (Some 7)\<rparr>)) (Some 7) (fi_capture (f\<lparr>fi_value := Some (Some 7)\<rparr>)) (sy_co s4) = (b, c)"
      using p by (simp add: f_def)
  qed
  have "sys_reach ?v s5"
    by (rule reach_step [OF reach_step [OF reach_step [OF reach_step [OF reach_step [OF r0 t0] t1] t2] t3] t4])
  moreover have "sy_co s4 = sy_co s2" by (simp add: s4_def s3_def)
  with p c2 have "readCacheEntry ''accounts'' c = Some 7" by (auto simp: publishCacheEntry_def readCacheEntry_def)
  ultimately show ?thesis using w by (intro exI [of _ s5]) (simp add: s5_def s4_def s3_def s2_def s1_def)
qed


text \<open>The debt is real: inside a hold that has changed the world, others still read what was there before.\<close>

lemma stale_until_invalidated:
  "\<exists>s. sys_reach (\<lambda>_ w. Some (w::int)) s \<and> sy_hold s \<noteq> None \<and> fst (cached_hit ''accounts'' (sy_co s)) = Some 7 \<and> sy_world s = 8"
proof -
  obtain s where s: "sys_reach (\<lambda>_ w. Some (w::int)) s" "sy_hold s = Some 0" "readCacheEntry ''accounts'' (sy_co s) = Some 7"
    using filled_run by blast
  define s' where "s' = s\<lparr>sy_world := 8, sy_debt := sy_debt s \<or> (\<exists>k. readCacheEntry k (sy_co s) \<noteq> None) \<or>
      (\<exists>f\<in>set (sy_fills s). fi_capture f = co_generation (sy_co s))\<rparr>"
  have "sys_reach (\<lambda>_ w. Some w) s'" unfolding s'_def by (rule reach_step [OF s(1) step_change [OF s(2)]])
  with s(2,3) show ?thesis by (intro exI [of _ s']) (simp add: s'_def cached_hit_def)
qed

text \<open>
  A cached read, while others only invalidate: what it returns is what the cache shows at
  that moment, and it fails only if \<open>fn\<close> failed or the generation moved in each of the four attempts.
\<close>

theorem cached_read_returns_published:
  assumes "only_invalidates fn" "co_boundCache c \<noteq> None" "fill_task fn key c = (r, c')"
  shows "case r of Inr v \<Rightarrow> readCacheEntry key c' = v
     | Inl e \<Rightarrow> co_generation c + 4 \<le> co_generation c' \<or> (\<exists>a c0 c1. fn a c0 = (Inl e, c1))"
  using assms(1,3,2) by (rule fill_task_fresh)

lemma cached_read_returns_published_witness:
  "\<exists>c'. fill_task (\<lambda>a c. (Inr (Some a), if a < 3 then invalidateGeneration [] c else c)) ''spending''
     (bindCache Map.empty new_coord) = (Inr (Some 3), c') \<and> readCacheEntry ''spending'' c' = Some 3"
proof -
  let ?fn = "\<lambda>a c. (Inr (Some a), if a < 3 then invalidateGeneration [] c else c)"
  let ?c = "bindCache Map.empty new_coord"
  have "only_invalidates ?fn"
    by (simp add: only_invalidates_def invalidateGeneration_def Let_def)
  moreover have "co_boundCache ?c \<noteq> None" by (simp add: bindCache_def)
  moreover obtain c' where "fill_task ?fn ''spending'' ?c = (Inr (Some 3), c')"
    by (simp add: fill_task_def MAX_STALE_FILL_ATTEMPTS_def numeral_eq_Suc bindCache_def new_coord_def readCacheEntry_def
      publishCacheEntry_def invalidateGeneration_def Let_def bump_def record_event_def)
  ultimately show ?thesis using cached_read_returns_published [of ?fn ?c "''spending''" "Inr (Some 3)"] by auto
qed

end
