(* ===== verification/ReimbursementAllocation.thy ===== *)
theory ReimbursementAllocation
  imports Money JsString
begin

text \<open>
  Reimbursement links (\<open>lib/reimbursement-allocation.js\<close>): how many cents of an inflow pay back
  how many cents of an expense, the capacity both sides have left, the version a caller must know to
  change a link, and the upgrade of links stored without explicit cents.
\<close>

section \<open>Links\<close>

text \<open>An absent property is \<open>None\<close>; amounts stay dynamically typed, since the checks are on their type.\<close>

record txn_ref =
  rf_id :: "string option"
  rf_date :: "string option"
  rf_payee :: string
  rf_amount :: jsval
  rf_amountCents :: jsval
  rf_accountId :: "string option"
  rf_account :: string
  rf_imported :: bool
  rf_categoryId :: "string option"
  rf_category :: "string option"

record rlink =
  lk_linkKey :: "string option"
  lk_inflow :: "txn_ref option"
  lk_expense :: "txn_ref option"
  lk_allocationCents :: jsval
  lk_amount :: jsval
  lk_person :: "string option"
  lk_version :: "int option"
  lk_createdAt :: "string option"
  lk_updatedAt :: "string option"

record live_txn =
  lv_id :: "string option"
  lv_date :: "string option"
  lv_payee :: "string option"
  lv_amountCents :: int
  lv_accountId :: "string option"
  lv_accountName :: "string option"
  lv_imported :: bool
  lv_category :: "string option"
  lv_categoryId :: "string option"
  lv_isLeg :: bool
  lv_parentId :: "string option"

definition allocationInvalid :: js_error where
  "allocationInvalid = AppError ''REIMBURSEMENT_ALLOCATION_INVALID'' 409"

definition linkStale :: js_error where
  "linkStale = AppError ''REIMBURSEMENT_LINK_STALE'' 409"

definition legacyAmbiguityBlocked :: js_error where
  "legacyAmbiguityBlocked = AppError ''REIMBURSEMENT_LEGACY_AMBIGUITY_BLOCKED'' 409"

definition allocationFieldsDisagree :: js_error where
  "allocationFieldsDisagree = AppError ''REIMBURSEMENT_ALLOCATION_FIELDS_DISAGREE'' 400"

text \<open>\<open>String(id)\<close>, also of an id that is not there.\<close>

definition id_text :: "string option \<Rightarrow> string" where
  "id_text i = (case i of None \<Rightarrow> ''undefined'' | Some s \<Rightarrow> s)"

definition sameTransactionId :: "string option \<Rightarrow> string option \<Rightarrow> bool" where
  "sameTransactionId l r \<longleftrightarrow> id_text l = id_text r"

definition linkPairKey :: "string option \<Rightarrow> string option \<Rightarrow> string" where
  "linkPairKey inflowId expenseId = id_text inflowId @ '':'' @ id_text expenseId"

text \<open>\<open>link?.inflow?.id\<close> and \<open>link?.expense?.id\<close>.\<close>

definition inflow_id :: "rlink \<Rightarrow> string option" where
  "inflow_id l = (case lk_inflow l of None \<Rightarrow> None | Some r \<Rightarrow> rf_id r)"

definition expense_id :: "rlink \<Rightarrow> string option" where
  "expense_id l = (case lk_expense l of None \<Rightarrow> None | Some r \<Rightarrow> rf_id r)"

definition same_pair :: "string option \<times> string option \<Rightarrow> rlink \<Rightarrow> bool" where
  "same_pair p l \<longleftrightarrow> sameTransactionId (inflow_id l) (fst p) \<and> sameTransactionId (expense_id l) (snd p)"

section \<open>Requested amounts\<close>

fun requireSafeCents :: "jsval \<Rightarrow> int res" where
  "requireSafeCents (JNum n) = (if js_safe_integer n then Inr (js_to_int n) else Inl allocationInvalid)"
| "requireSafeCents _ = Inl allocationInvalid"

text \<open>\<open>Math.abs(toCents(v))\<close>.\<close>

definition abs_cents :: "jsval \<Rightarrow> int res" where
  "abs_cents v = ebind (toCents v) (\<lambda>c. Inr \<bar>c\<bar>)"

definition assertAllocationFieldsAgree :: "jsval \<Rightarrow> jsval \<Rightarrow> unit res" where
  "assertAllocationFieldsAgree allocationCents amount =
     (if nullish allocationCents \<or> nullish amount then Inr ()
      else ebind (requireSafeCents allocationCents) (\<lambda>c.
           ebind (abs_cents amount) (\<lambda>a.
             if c \<noteq> a then Inl allocationFieldsDisagree else Inr ())))"

definition parseRequestedAllocationCents :: "jsval \<Rightarrow> jsval \<Rightarrow> int res" where
  "parseRequestedAllocationCents allocationCents amount =
     ebind (assertAllocationFieldsAgree allocationCents amount) (\<lambda>_.
       if \<not> nullish allocationCents
       then ebind (requireSafeCents allocationCents) (\<lambda>c. if c \<le> 0 then Inl allocationInvalid else Inr c)
       else if \<not> nullish amount
       then ebind (abs_cents amount) (\<lambda>c. if c \<le> 0 then Inl allocationInvalid else Inr c)
       else Inl allocationInvalid)"

section \<open>Stored links\<close>

record classified =
  cl_allocationCents :: "int option"
  cl_trusted :: bool
  cl_ambiguous :: bool
  cl_reason :: string

definition ambiguous_as :: "string \<Rightarrow> classified" where
  "ambiguous_as reason = \<lparr>cl_allocationCents = None, cl_trusted = False, cl_ambiguous = True, cl_reason = reason\<rparr>"

definition trusted_as :: "int \<Rightarrow> string \<Rightarrow> classified" where
  "trusted_as c reason = \<lparr>cl_allocationCents = Some c, cl_trusted = True, cl_ambiguous = False, cl_reason = reason\<rparr>"

definition classifyStoredLink :: "rlink \<Rightarrow> classified res" where
  "classifyStoredLink link =
     (if \<not> nullish (lk_allocationCents link)
      then ebind (requireSafeCents (lk_allocationCents link)) (\<lambda>c.
             Inr (if c \<le> 0 then ambiguous_as ''invalid_stored_cents'' else trusted_as c ''explicit_cents''))
      else if \<not> nullish (lk_amount link)
      then (case abs_cents (lk_amount link) of
              Inl _ \<Rightarrow> Inr (ambiguous_as ''invalid_legacy_amount'')
            | Inr c \<Rightarrow> Inr (if c \<le> 0 then ambiguous_as ''invalid_legacy_amount'' else trusted_as c ''legacy_amount''))
      else Inr (ambiguous_as ''legacy_null''))"

definition trustedLinkedCents :: "rlink \<Rightarrow> int res" where
  "trustedLinkedCents link =
     ebind (classifyStoredLink link) (\<lambda>cl.
       Inr (if cl_trusted cl then (case cl_allocationCents cl of Some c \<Rightarrow> c | None \<Rightarrow> 0) else 0))"

text \<open>The loop of the two sums, over the links it does not skip.\<close>

fun sum_links :: "(rlink \<Rightarrow> bool) \<Rightarrow> int \<Rightarrow> rlink list \<Rightarrow> int res" where
  "sum_links P acc [] = Inr acc"
| "sum_links P acc (l # ls) =
     (if \<not> P l then sum_links P acc ls
      else ebind (trustedLinkedCents l) (\<lambda>c. ebind (sumCents [acc, c]) (\<lambda>t. sum_links P t ls)))"

definition excluded :: "(string option \<times> string option) option \<Rightarrow> rlink \<Rightarrow> bool" where
  "excluded excludePair l \<longleftrightarrow> (case excludePair of None \<Rightarrow> False | Some p \<Rightarrow> same_pair p l)"

definition sumTrustedAllocationsForExpense ::
  "rlink list \<Rightarrow> string option \<Rightarrow> (string option \<times> string option) option \<Rightarrow> int res" where
  "sumTrustedAllocationsForExpense links expenseId excludePair =
     sum_links (\<lambda>l. sameTransactionId (expense_id l) expenseId \<and> \<not> excluded excludePair l) 0 links"

definition sumTrustedAllocationsForInflow ::
  "rlink list \<Rightarrow> string option \<Rightarrow> (string option \<times> string option) option \<Rightarrow> int res" where
  "sumTrustedAllocationsForInflow links inflowId excludePair =
     sum_links (\<lambda>l. sameTransactionId (inflow_id l) inflowId \<and> \<not> excluded excludePair l) 0 links"

fun filter_ambiguous :: "(rlink \<Rightarrow> bool) \<Rightarrow> rlink list \<Rightarrow> rlink list res" where
  "filter_ambiguous P [] = Inr []"
| "filter_ambiguous P (l # ls) =
     ebind (classifyStoredLink l) (\<lambda>cl.
     ebind (filter_ambiguous P ls) (\<lambda>rest.
       Inr (if cl_ambiguous cl \<and> P l then l # rest else rest)))"

definition ambiguousLegacyLinksOnEndpoint ::
  "rlink list \<Rightarrow> string option \<Rightarrow> (string option \<times> string option) option \<Rightarrow> rlink list res" where
  "ambiguousLegacyLinksOnEndpoint links txnId excludePair =
     filter_ambiguous (\<lambda>l. (sameTransactionId (inflow_id l) txnId \<or> sameTransactionId (expense_id l) txnId) \<and>
       \<not> excluded excludePair l) links"

definition assertLegacyAmbiguityAdmission ::
  "rlink list \<Rightarrow> string option \<Rightarrow> string option \<Rightarrow> bool \<Rightarrow> unit res" where
  "assertLegacyAmbiguityAdmission links inflowId expenseId allowSamePairResolution =
     (let exclude = (if allowSamePairResolution then Some (inflowId, expenseId) else None) in
      ebind (ambiguousLegacyLinksOnEndpoint links inflowId exclude) (\<lambda>i.
      ebind (ambiguousLegacyLinksOnEndpoint links expenseId exclude) (\<lambda>e.
        if i \<noteq> [] \<or> e \<noteq> [] then Inl legacyAmbiguityBlocked else Inr ())))"

section \<open>Capacity\<close>

definition absExpenseCents :: "jsval \<Rightarrow> int res" where
  "absExpenseCents v = ebind (requireSafeCents v) (\<lambda>c. if c \<ge> 0 then Inl allocationInvalid else Inr \<bar>c\<bar>)"

definition absInflowCents :: "jsval \<Rightarrow> int res" where
  "absInflowCents v = ebind (requireSafeCents v) (\<lambda>c. if c \<le> 0 then Inl allocationInvalid else Inr c)"

record capacity =
  cp_allocationCents :: int
  cp_inflowRemainingCents :: int
  cp_expenseRemainingCents :: int
  cp_inflowCapCents :: int
  cp_expenseCapCents :: int
  cp_inflowAllocatedCents :: int
  cp_expenseAllocatedCents :: int

definition validateLinkCapacity ::
  "jsval \<Rightarrow> jsval \<Rightarrow> jsval \<Rightarrow> rlink list \<Rightarrow> string option \<Rightarrow> string option \<Rightarrow> capacity res" where
  "validateLinkCapacity allocationCents inflowAmountCents expenseAmountCents existingLinks inflowId expenseId =
     ebind (requireSafeCents allocationCents) (\<lambda>alloc.
     if alloc \<le> 0 then Inl allocationInvalid else
     ebind (absInflowCents inflowAmountCents) (\<lambda>inflowCap.
     ebind (absExpenseCents expenseAmountCents) (\<lambda>expenseCap.
     ebind (sumTrustedAllocationsForInflow existingLinks inflowId (Some (inflowId, expenseId))) (\<lambda>priorInflow.
     ebind (sumTrustedAllocationsForExpense existingLinks expenseId (Some (inflowId, expenseId))) (\<lambda>priorExpense.
       let inflowRemaining = inflowCap - priorInflow; expenseRemaining = expenseCap - priorExpense in
       if alloc > inflowRemaining then Inl allocationInvalid
       else if alloc > expenseRemaining then Inl allocationInvalid
       else Inr \<lparr>cp_allocationCents = alloc, cp_inflowRemainingCents = inflowRemaining - alloc,
                 cp_expenseRemainingCents = expenseRemaining - alloc, cp_inflowCapCents = inflowCap,
                 cp_expenseCapCents = expenseCap, cp_inflowAllocatedCents = priorInflow + alloc,
                 cp_expenseAllocatedCents = priorExpense + alloc\<rparr>)))))"

section \<open>Writing and removing a link\<close>

text \<open>A link without a version that carries an amount counts as version 1.\<close>

definition linkVersion :: "rlink \<Rightarrow> int" where
  "linkVersion l =
     (case lk_version l of Some v \<Rightarrow> v
      | None \<Rightarrow> if \<not> nullish (lk_allocationCents l) \<or> \<not> nullish (lk_amount l) then 1 else 0)"

definition assertExpectedVersion :: "rlink \<Rightarrow> int option \<Rightarrow> unit res" where
  "assertExpectedVersion existingLink expectedVersion =
     (case expectedVersion of None \<Rightarrow> Inr ()
      | Some v \<Rightarrow> if v \<noteq> linkVersion existingLink then Inl linkStale else Inr ())"

text \<open>\<open>x || null\<close> on a string: the empty string counts as absent.\<close>

definition or_null :: "string option \<Rightarrow> string option" where
  "or_null x = (if x = Some [] then None else x)"

definition or_empty :: "string option \<Rightarrow> string" where
  "or_empty x = (case x of None \<Rightarrow> [] | Some s \<Rightarrow> s)"

definition coalesce :: "'a option \<Rightarrow> 'a option \<Rightarrow> 'a option" where
  "coalesce x y = (case x of None \<Rightarrow> y | Some _ \<Rightarrow> x)"

definition txnRefFromLive :: "live_txn \<Rightarrow> txn_ref res" where
  "txnRefFromLive live =
     ebind (fromCents (lv_amountCents live)) (\<lambda>d.
       Inr \<lparr>rf_id = Some (id_text (lv_id live)), rf_date = or_null (lv_date live), rf_payee = or_empty (lv_payee live),
            rf_amount = JNum d, rf_amountCents = JUndef, rf_accountId = or_null (lv_accountId live),
            rf_account = or_empty (lv_accountName live), rf_imported = lv_imported live,
            rf_categoryId = coalesce (lv_categoryId live) (lv_category live), rf_category = None\<rparr>)"

record built_link =
  bl_record :: rlink
  bl_changed :: bool
  bl_idempotent :: bool

text \<open>The new record; \<open>now\<close> is the time stamp.\<close>

definition fresh_link :: "string \<Rightarrow> live_txn \<Rightarrow> live_txn \<Rightarrow> int \<Rightarrow> string option \<Rightarrow> rlink option \<Rightarrow> rlink res" where
  "fresh_link now inflowLive expenseLive allocationCents person existingLink =
     ebind (txnRefFromLive inflowLive) (\<lambda>i.
     ebind (txnRefFromLive expenseLive) (\<lambda>e.
     ebind (fromCents allocationCents) (\<lambda>d.
       Inr \<lparr>lk_linkKey = Some (linkPairKey (lv_id inflowLive) (lv_id expenseLive)), lk_inflow = Some i, lk_expense = Some e,
            lk_allocationCents = JNum (js_of_int allocationCents), lk_amount = JNum d,
            lk_person = coalesce (or_null person) (or_null (case existingLink of None \<Rightarrow> None | Some l \<Rightarrow> lk_person l)),
            lk_version = Some (case existingLink of None \<Rightarrow> 1 | Some l \<Rightarrow> linkVersion l + 1),
            lk_createdAt = Some (case existingLink of None \<Rightarrow> now
                                 | Some l \<Rightarrow> (case or_null (lk_createdAt l) of None \<Rightarrow> now | Some t \<Rightarrow> t)),
            lk_updatedAt = Some now\<rparr>)))"

definition buildExplicitLinkRecord ::
  "string \<Rightarrow> live_txn \<Rightarrow> live_txn \<Rightarrow> int \<Rightarrow> string option \<Rightarrow> rlink option \<Rightarrow> int option \<Rightarrow> built_link res" where
  "buildExplicitLinkRecord now inflowLive expenseLive allocationCents person existingLink expectedVersion =
     (case existingLink of
        None \<Rightarrow> ebind (fresh_link now inflowLive expenseLive allocationCents person None) (\<lambda>r.
                  Inr \<lparr>bl_record = r, bl_changed = True, bl_idempotent = False\<rparr>)
      | Some l \<Rightarrow>
          ebind (assertExpectedVersion l expectedVersion) (\<lambda>_.
          ebind (classifyStoredLink l) (\<lambda>cl.
            if cl_trusted cl \<and> cl_allocationCents cl = Some allocationCents
            then Inr \<lparr>bl_record = l, bl_changed = False, bl_idempotent = True\<rparr>
            else if cl_trusted cl \<and> expectedVersion = None then Inl linkStale
            else ebind (fresh_link now inflowLive expenseLive allocationCents person (Some l)) (\<lambda>r.
                   Inr \<lparr>bl_record = r, bl_changed = True, bl_idempotent = False\<rparr>))))"

text \<open>The first link of the pair is overwritten by the record, which carries every property.\<close>

fun applyLinkRecord :: "rlink list \<Rightarrow> rlink \<Rightarrow> rlink list" where
  "applyLinkRecord [] r = [r]"
| "applyLinkRecord (l # ls) r =
     (if same_pair (inflow_id r, expense_id r) l then r # ls else l # applyLinkRecord ls r)"

definition removeLinkRecord :: "rlink list \<Rightarrow> string option \<Rightarrow> string option \<Rightarrow> rlink list \<times> nat" where
  "removeLinkRecord links inflowId expenseId =
     (let rest = filter (\<lambda>l. \<not> same_pair (inflowId, expenseId) l) links in (rest, length links - length rest))"

definition linkRecordConverged :: "rlink list \<Rightarrow> rlink \<Rightarrow> bool res" where
  "linkRecordConverged links r =
     (case find (same_pair (inflow_id r, expense_id r)) links of
        None \<Rightarrow> Inr False
      | Some l \<Rightarrow> ebind (classifyStoredLink l) (\<lambda>cl.
          Inr (cl_trusted cl \<and>
               (case lk_allocationCents r of JNum n \<Rightarrow> map_option js_of_int (cl_allocationCents cl) = Some n | _ \<Rightarrow> False) \<and>
               lk_version r = Some (linkVersion l))))"

section \<open>Reading and upgrading links\<close>

record endpoint_view =
  ev_ref :: "txn_ref option"
  ev_allocated :: "jsnum option"
  ev_allocatedCents :: "int option"
  ev_trusted :: bool
  ev_ambiguous :: bool
  ev_reason :: string
  ev_linkVersion :: int
  ev_linkKey :: string
  ev_role :: string

definition link_key :: "rlink \<Rightarrow> string" where
  "link_key l = (case or_null (lk_linkKey l) of Some k \<Rightarrow> k | None \<Rightarrow> linkPairKey (inflow_id l) (expense_id l))"

definition enrichEndpointForRead :: "txn_ref option \<Rightarrow> rlink \<Rightarrow> string \<Rightarrow> endpoint_view res" where
  "enrichEndpointForRead ref link role =
     ebind (classifyStoredLink link) (\<lambda>cl.
       let cents = (if cl_trusted cl then cl_allocationCents cl else None) in
       ebind (case cents of None \<Rightarrow> Inr None | Some c \<Rightarrow> ebind (fromCents c) (\<lambda>d. Inr (Some d))) (\<lambda>allocated.
         Inr \<lparr>ev_ref = ref, ev_allocated = allocated, ev_allocatedCents = cents, ev_trusted = cl_trusted cl,
              ev_ambiguous = cl_ambiguous cl, ev_reason = cl_reason cl, ev_linkVersion = linkVersion link,
              ev_linkKey = link_key link, ev_role = role\<rparr>))"

record endpoint_capacity =
  ec_absCapCents :: int
  ec_allocatedTrustedCents :: int
  ec_remainingTrustedCents :: int
  ec_ambiguousLinkCount :: nat
  ec_completeness :: string

definition summarizeEndpointCapacity :: "string option \<Rightarrow> jsval \<Rightarrow> rlink list \<Rightarrow> bool \<Rightarrow> endpoint_capacity res" where
  "summarizeEndpointCapacity txnId txnAmountCents links isInflow =
     ebind (if isInflow then absInflowCents txnAmountCents else absExpenseCents txnAmountCents) (\<lambda>absCap.
     ebind (if isInflow then sumTrustedAllocationsForInflow links txnId None
            else sumTrustedAllocationsForExpense links txnId None) (\<lambda>allocated.
     ebind (filter_ambiguous (\<lambda>l. sameTransactionId (if isInflow then inflow_id l else expense_id l) txnId) links) (\<lambda>amb.
       Inr \<lparr>ec_absCapCents = absCap, ec_allocatedTrustedCents = allocated,
            ec_remainingTrustedCents = absCap - allocated, ec_ambiguousLinkCount = length amb,
            ec_completeness = (if length amb > 0 then ''ambiguous''
                               else if allocated > absCap then ''overallocated'' else ''complete'')\<rparr>)))"

record migration_row =
  mr_linkKey :: string
  mr_inflowId :: "string option"
  mr_expenseId :: "string option"
  mr_inflowDate :: "string option"
  mr_expenseDate :: "string option"
  mr_reason :: string
  mr_createdAt :: "string option"

text \<open>The rows before they are sorted by their key in the collation of the platform.\<close>

fun migration_rows :: "rlink list \<Rightarrow> migration_row list res" where
  "migration_rows [] = Inr []"
| "migration_rows (l # ls) =
     ebind (classifyStoredLink l) (\<lambda>cl.
     ebind (migration_rows ls) (\<lambda>rows.
       Inr (if \<not> cl_ambiguous cl then rows
            else \<lparr>mr_linkKey = linkPairKey (inflow_id l) (expense_id l), mr_inflowId = inflow_id l, mr_expenseId = expense_id l,
                  mr_inflowDate = (case lk_inflow l of None \<Rightarrow> None | Some r \<Rightarrow> rf_date r),
                  mr_expenseDate = (case lk_expense l of None \<Rightarrow> None | Some r \<Rightarrow> rf_date r),
                  mr_reason = cl_reason cl, mr_createdAt = lk_createdAt l\<rparr> # rows)))"

fun insert_row :: "(string \<Rightarrow> string \<Rightarrow> bool) \<Rightarrow> migration_row \<Rightarrow> migration_row list \<Rightarrow> migration_row list" where
  "insert_row before r [] = [r]"
| "insert_row before r (x # xs) = (if before (mr_linkKey x) (mr_linkKey r) then x # insert_row before r xs else r # x # xs)"

definition buildLegacyMigrationReport :: "(string \<Rightarrow> string \<Rightarrow> bool) \<Rightarrow> rlink list \<Rightarrow> (nat \<times> migration_row list) res" where
  "buildLegacyMigrationReport before links =
     ebind (migration_rows links) (\<lambda>rows. Inr (length rows, foldr (insert_row before) rows []))"

definition upgrade_ref :: "txn_ref \<Rightarrow> txn_ref" where
  "upgrade_ref r = (if rf_categoryId r = None \<and> rf_category r \<noteq> None then r\<lparr>rf_categoryId := rf_category r\<rparr> else r)"

definition migrateLinkToSchemaV2 :: "rlink \<Rightarrow> rlink res" where
  "migrateLinkToSchemaV2 link =
     ebind (classifyStoredLink link) (\<lambda>cl.
       let c = (case cl_allocationCents cl of Some c \<Rightarrow> c | None \<Rightarrow> 0);
           n1 = link\<lparr>lk_linkKey := Some (link_key link)\<rparr>;
           n2 = (if cl_trusted cl \<and> nullish (lk_allocationCents n1)
                 then n1\<lparr>lk_allocationCents := JNum (js_of_int c)\<rparr> else n1) in
       ebind (if cl_trusted cl \<and> nullish (lk_amount n2)
              then ebind (fromCents c) (\<lambda>d. Inr (n2\<lparr>lk_amount := JNum d\<rparr>)) else Inr n2) (\<lambda>n3.
         let n4 = (if lk_version n3 = None \<and> cl_trusted cl then n3\<lparr>lk_version := Some 1\<rparr> else n3) in
         Inr (n4\<lparr>lk_inflow := map_option upgrade_ref (lk_inflow n4),
                 lk_expense := map_option upgrade_ref (lk_expense n4)\<rparr>)))"

section \<open>Fingerprints and live checks\<close>

fun js_join :: "string \<Rightarrow> string list \<Rightarrow> string" where
  "js_join sep [] = []"
| "js_join sep [x] = x"
| "js_join sep (x # xs) = x @ sep @ js_join sep xs"

definition endpointAdmissionFingerprint :: "live_txn \<Rightarrow> string" where
  "endpointAdmissionFingerprint live =
     (if or_null (lv_id live) = None then []
      else js_join ''|'' [id_text (lv_id live), or_empty (lv_accountId live), or_empty (lv_date live),
             dec_int (lv_amountCents live), or_empty (lv_category live),
             if lv_isLeg live then or_empty (lv_parentId live) else []])"

definition liveEndpointIdentityFingerprint :: "live_txn \<Rightarrow> string" where
  "liveEndpointIdentityFingerprint live =
     (if or_null (lv_id live) = None then []
      else js_join ''|'' [id_text (lv_id live), or_empty (lv_accountId live), or_empty (lv_date live),
             dec_int (lv_amountCents live)])"

definition stored_amount_text :: "txn_ref \<Rightarrow> bool \<Rightarrow> string" where
  "stored_amount_text ref isExpense =
     (if \<not> nullish (rf_amount ref)
      then (case abs_cents (rf_amount ref) of Inl _ \<Rightarrow> [] | Inr c \<Rightarrow> dec_int (if isExpense then - c else c))
      else (case rf_amountCents ref of
              JNum n \<Rightarrow> if js_safe_integer n then dec_int (js_to_int n) else []
            | _ \<Rightarrow> []))"

definition storedEndpointIdentityFingerprint :: "txn_ref \<Rightarrow> bool \<Rightarrow> string" where
  "storedEndpointIdentityFingerprint ref isExpense =
     (if or_null (rf_id ref) = None then []
      else js_join ''|'' [id_text (rf_id ref), or_empty (rf_accountId ref), or_empty (rf_date ref),
             stored_amount_text ref isExpense])"

datatype endpoint_role = Role_inflow | Role_expense | Role_any

text \<open>\<open>None\<close> is eligible, otherwise the reason.\<close>

definition assess_inflow :: "live_txn \<Rightarrow> string option" where
  "assess_inflow live = (if \<not> lv_amountCents live > 0 then Some ''inflow_sign'' else None)"

definition assess_expense :: "live_txn \<Rightarrow> string option \<Rightarrow> string option" where
  "assess_expense live reimbCategoryId =
     (if \<not> lv_amountCents live < 0 then Some ''expense_sign''
      else case reimbCategoryId of
             None \<Rightarrow> None
           | Some cat \<Rightarrow> (case lv_category live of None \<Rightarrow> Some ''missing_category''
                         | Some c \<Rightarrow> if c \<noteq> cat then Some ''category_mismatch'' else None))"

definition assessLiveReimbursementEndpoint :: "live_txn \<Rightarrow> string option \<Rightarrow> endpoint_role \<Rightarrow> string option" where
  "assessLiveReimbursementEndpoint live reimbCategoryId role =
     (if or_null (lv_id live) = None then Some ''missing_live''
      else case role of
             Role_inflow \<Rightarrow> assess_inflow live
           | Role_expense \<Rightarrow> assess_expense live reimbCategoryId
           | Role_any \<Rightarrow> if lv_amountCents live > 0 then assess_inflow live
                         else if lv_amountCents live < 0 then assess_expense live reimbCategoryId
                         else Some ''zero_amount'')"

section \<open>Sums of trusted allocations\<close>

lemma ambiguous_simps [simp]:
  "cl_allocationCents (ambiguous_as r) = None" "\<not> cl_trusted (ambiguous_as r)" "cl_ambiguous (ambiguous_as r)"
  "cl_allocationCents (trusted_as c r) = Some c" "cl_trusted (trusted_as c r)" "\<not> cl_ambiguous (trusted_as c r)"
  "ambiguous_as r = ambiguous_as r' \<longleftrightarrow> r = r'" "trusted_as c r = trusted_as c' r' \<longleftrightarrow> c = c' \<and> r = r'"
  "ambiguous_as r \<noteq> trusted_as c r'"
  by (simp_all add: ambiguous_as_def trusted_as_def)

lemma classify_cases:
  assumes "classifyStoredLink l = Inr cl"
  shows "(\<exists>r. cl = ambiguous_as r) \<or> (\<exists>c r. cl = trusted_as c r \<and> 0 < c)"
  using assms by (auto simp: classifyStoredLink_def res_simps split: if_splits sum.splits)

definition trusted_value :: "rlink \<Rightarrow> int" where
  "trusted_value l = (case trustedLinkedCents l of Inl _ \<Rightarrow> 0 | Inr c \<Rightarrow> c)"

lemma trusted_value_nonneg [simp]: "0 \<le> trusted_value l"
proof (cases "classifyStoredLink l")
  case (Inr cl)
  with classify_cases [OF Inr] show ?thesis by (auto simp: trusted_value_def trustedLinkedCents_def)
qed (simp add: trusted_value_def trustedLinkedCents_def)

definition linked_total :: "(rlink \<Rightarrow> bool) \<Rightarrow> rlink list \<Rightarrow> int" where
  "linked_total P ls = sum_list (map trusted_value (filter P ls))"

lemma linked_total_simps [simp]:
  "linked_total P [] = 0"
  "linked_total P (l # ls) = (if P l then trusted_value l else 0) + linked_total P ls"
  by (simp_all add: linked_total_def)

lemma linked_total_nonneg [simp]: "0 \<le> linked_total P ls"
  by (induction ls) auto

lemma sum_links_Inr: "sum_links P acc ls = Inr t \<Longrightarrow> t = acc + linked_total P ls"
proof (induction ls arbitrary: acc)
  case (Cons l ls)
  show ?case
  proof (cases "P l")
    case True
    with Cons.prems obtain c u where "trustedLinkedCents l = Inr c" "sumCents [acc, c] = Inr u" "sum_links P u ls = Inr t"
      by (auto simp: res_simps)
    with Cons.IH [of u] sumCents_Inr [of "[acc, c]" u] True show ?thesis by (simp add: trusted_value_def)
  qed (use Cons in simp)
qed simp

lemma linked_total_cong: "(\<And>l. l \<in> set ls \<Longrightarrow> P l = Q l) \<Longrightarrow> linked_total P ls = linked_total Q ls"
  by (induction ls) auto

lemma linked_total_filter: "linked_total P (filter Q ls) = linked_total (\<lambda>l. P l \<and> Q l) ls"
  by (induction ls) auto

text \<open>The links of one inflow, and those of one expense.\<close>

definition of_inflow :: "string option \<Rightarrow> rlink \<Rightarrow> bool" where
  "of_inflow i l \<longleftrightarrow> sameTransactionId (inflow_id l) i"

definition of_expense :: "string option \<Rightarrow> rlink \<Rightarrow> bool" where
  "of_expense e l \<longleftrightarrow> sameTransactionId (expense_id l) e"

definition one_link_per_pair :: "rlink list \<Rightarrow> bool" where
  "one_link_per_pair ls \<longleftrightarrow> distinct (map (\<lambda>l. (id_text (inflow_id l), id_text (expense_id l))) ls)"

lemma same_pair_iff: "same_pair (i, e) l \<longleftrightarrow> of_inflow i l \<and> of_expense e l"
  by (simp add: same_pair_def of_inflow_def of_expense_def)

lemma same_pair_texts:
  "same_pair (i, e) l \<longleftrightarrow> (id_text (inflow_id l), id_text (expense_id l)) = (id_text i, id_text e)"
  by (simp add: same_pair_def sameTransactionId_def)

lemma apply_pairs:
  "set (map (\<lambda>l. (id_text (inflow_id l), id_text (expense_id l))) (applyLinkRecord ls r)) =
   insert (id_text (inflow_id r), id_text (expense_id r)) (set (map (\<lambda>l. (id_text (inflow_id l), id_text (expense_id l))) ls))"
  by (induction ls) (auto simp: same_pair_texts)

lemma apply_one_link_per_pair: "one_link_per_pair ls \<Longrightarrow> one_link_per_pair (applyLinkRecord ls r)"
proof (induction ls)
  case (Cons l ls)
  then show ?case using apply_pairs [of ls r]
    by (auto simp: one_link_per_pair_def same_pair_texts simp del: set_map)
qed (simp add: one_link_per_pair_def)

text \<open>Writing a record replaces the share of its pair by its own, on both sides.\<close>

lemma apply_total:
  assumes "one_link_per_pair ls" and pair: "\<And>l. same_pair (inflow_id r, expense_id r) l \<Longrightarrow> P l = P r"
  shows "linked_total P (applyLinkRecord ls r) =
    linked_total (\<lambda>l. P l \<and> \<not> same_pair (inflow_id r, expense_id r) l) ls + (if P r then trusted_value r else 0)"
  using assms(1)
proof (induction ls)
  case (Cons l ls)
  show ?case
  proof (cases "same_pair (inflow_id r, expense_id r) l")
    case True
    have "\<not> same_pair (inflow_id r, expense_id r) x" if "x \<in> set ls" for x
      using Cons.prems True that unfolding one_link_per_pair_def same_pair_texts by (auto simp: image_iff)
    then have "linked_total (\<lambda>l. P l \<and> \<not> same_pair (inflow_id r, expense_id r) l) ls = linked_total P ls"
      by (intro linked_total_cong) auto
    with True show ?thesis by simp
  next
    case False
    from Cons.prems have "one_link_per_pair ls" by (simp add: one_link_per_pair_def)
    with Cons.IH False show ?thesis by simp
  qed
qed simp

lemma find_apply: "find (same_pair (inflow_id r, expense_id r)) (applyLinkRecord ls r) = Some r"
  by (induction ls) (auto simp: same_pair_texts)

section \<open>Capacity\<close>

lemma requireSafeCents_Inr: "requireSafeCents v = Inr c \<Longrightarrow> safe_int c"
  by (cases v rule: requireSafeCents.cases)
    (auto simp: safe_int_def max_safe_def split: if_splits elim!: js_safe_integer.elims)

lemma validate_Inr:
  assumes "validateLinkCapacity a i e ls inflowId expenseId = Inr cap"
  shows "requireSafeCents a = Inr (cp_allocationCents cap) \<and> 0 < cp_allocationCents cap \<and>
    requireSafeCents i = Inr (cp_inflowCapCents cap) \<and> requireSafeCents e = Inr (- cp_expenseCapCents cap) \<and>
    cp_inflowAllocatedCents cap =
      linked_total (\<lambda>l. of_inflow inflowId l \<and> \<not> same_pair (inflowId, expenseId) l) ls + cp_allocationCents cap \<and>
    cp_expenseAllocatedCents cap =
      linked_total (\<lambda>l. of_expense expenseId l \<and> \<not> same_pair (inflowId, expenseId) l) ls + cp_allocationCents cap \<and>
    cp_inflowAllocatedCents cap + cp_inflowRemainingCents cap = cp_inflowCapCents cap \<and>
    cp_expenseAllocatedCents cap + cp_expenseRemainingCents cap = cp_expenseCapCents cap \<and>
    0 \<le> cp_inflowRemainingCents cap \<and> 0 \<le> cp_expenseRemainingCents cap"
  using assms
  by (auto simp: validateLinkCapacity_def absInflowCents_def absExpenseCents_def res_simps Let_def excluded_def
    sumTrustedAllocationsForInflow_def sumTrustedAllocationsForExpense_def of_inflow_def [abs_def] of_expense_def [abs_def]
    dest!: sum_links_Inr split: if_splits)

lemma id_text_Some [simp]: "id_text (Some s) = s"
  by (simp add: id_text_def)

lemma js_safe_of_int [simp]: "js_safe_integer (js_of_int c) \<longleftrightarrow> safe_int c" "js_to_int (js_of_int c) = c"
  by (simp_all add: safe_int_def max_safe_def)

lemma requireSafeCents_of_int [simp]:
  "requireSafeCents (JNum (js_of_int c)) = (if safe_int c then Inr c else Inl allocationInvalid)"
  by (simp add: safe_int_def max_safe_def)

lemma classify_explicit:
  assumes "lk_allocationCents l = JNum (js_of_int c)" "safe_int c" "0 < c"
  shows "classifyStoredLink l = Inr (trusted_as c ''explicit_cents'')" "trusted_value l = c"
proof -
  show "classifyStoredLink l = Inr (trusted_as c ''explicit_cents'')"
    using assms by (simp add: classifyStoredLink_def del: requireSafeCents.simps)
  then show "trusted_value l = c" by (simp add: trusted_value_def trustedLinkedCents_def)
qed

lemma fresh_link_Inr:
  assumes "fresh_link now i e c person old = Inr r"
  shows "inflow_id r = Some (id_text (lv_id i)) \<and> expense_id r = Some (id_text (lv_id e)) \<and> safe_int c \<and>
    lk_allocationCents r = JNum (js_of_int c) \<and>
    lk_version r = Some (case old of None \<Rightarrow> 1 | Some l \<Rightarrow> linkVersion l + 1) \<and>
    (0 < c \<longrightarrow> classifyStoredLink r = Inr (trusted_as c ''explicit_cents'') \<and> trusted_value r = c)"
proof -
  have F: "inflow_id r = Some (id_text (lv_id i)) \<and> expense_id r = Some (id_text (lv_id e)) \<and> safe_int c \<and>
    lk_allocationCents r = JNum (js_of_int c) \<and> lk_version r = Some (case old of None \<Rightarrow> 1 | Some l \<Rightarrow> linkVersion l + 1)"
    using assms
    by (auto simp: fresh_link_def txnRefFromLive_def res_simps inflow_id_def expense_id_def fromCents_def fromCents_num_def
      safe_int_def max_safe_def split: if_splits)
  with classify_explicit [of r c] show ?thesis by simp
qed

lemma fresh_link_exists:
  assumes "safe_int c" "safe_int (lv_amountCents i)" "safe_int (lv_amountCents e)"
  shows "\<exists>r. fresh_link now i e c person old = Inr r"
  using assms by (simp add: fresh_link_def txnRefFromLive_def fromCents_def fromCents_num_def safe_int_def max_safe_def)

text \<open>The capacity of every transaction, by its id; what was never checked has none.\<close>

definition within_capacity :: "(string \<Rightarrow> int) \<Rightarrow> (string \<Rightarrow> int) \<Rightarrow> rlink list \<Rightarrow> bool" where
  "within_capacity inflowCap expenseCap ls \<longleftrightarrow> one_link_per_pair ls \<and>
     (\<forall>i. linked_total (of_inflow i) ls \<le> max 0 (inflowCap (id_text i))) \<and>
     (\<forall>e. linked_total (of_expense e) ls \<le> max 0 (expenseCap (id_text e)))"

lemma apply_within_capacity:
  assumes "within_capacity inflowCap expenseCap ls"
    and v: "validateLinkCapacity a i e ls inflowId expenseId = Inr cap"
    and r: "id_text (inflow_id r) = id_text inflowId" "id_text (expense_id r) = id_text expenseId"
      "trusted_value r \<le> cp_allocationCents cap"
    and c: "cp_inflowCapCents cap = inflowCap (id_text inflowId)" "cp_expenseCapCents cap = expenseCap (id_text expenseId)"
  shows "within_capacity inflowCap expenseCap (applyLinkRecord ls r)"
proof -
  have pair: "same_pair (inflow_id r, expense_id r) = same_pair (inflowId, expenseId)"
    using r by (auto simp: same_pair_texts fun_eq_iff)
  have one: "one_link_per_pair ls" using assms(1) by (simp add: within_capacity_def)
  note V = validate_Inr [OF v]
  have "linked_total (of_inflow j) (applyLinkRecord ls r) \<le> max 0 (inflowCap (id_text j))" for j
  proof -
    have t: "linked_total (of_inflow j) (applyLinkRecord ls r) =
      linked_total (\<lambda>l. of_inflow j l \<and> \<not> same_pair (inflowId, expenseId) l) ls + (if of_inflow j r then trusted_value r else 0)"
      using apply_total [OF one, of r "of_inflow j"] r by (simp add: pair) (auto simp: same_pair_texts of_inflow_def sameTransactionId_def)
    show ?thesis
    proof (cases "id_text j = id_text inflowId")
      case True
      then have "of_inflow j = of_inflow inflowId" by (simp add: of_inflow_def sameTransactionId_def fun_eq_iff)
      with t V c r True show ?thesis by (auto simp: of_inflow_def sameTransactionId_def)
    next
      case False
      then have "linked_total (\<lambda>l. of_inflow j l \<and> \<not> same_pair (inflowId, expenseId) l) ls = linked_total (of_inflow j) ls"
        by (intro linked_total_cong) (auto simp: same_pair_texts of_inflow_def sameTransactionId_def)
      moreover have "linked_total (of_inflow j) ls \<le> max 0 (inflowCap (id_text j))"
        using assms(1) by (simp add: within_capacity_def)
      ultimately show ?thesis using t False r by (simp add: of_inflow_def sameTransactionId_def)
    qed
  qed
  moreover have "linked_total (of_expense j) (applyLinkRecord ls r) \<le> max 0 (expenseCap (id_text j))" for j
  proof -
    have t: "linked_total (of_expense j) (applyLinkRecord ls r) =
      linked_total (\<lambda>l. of_expense j l \<and> \<not> same_pair (inflowId, expenseId) l) ls + (if of_expense j r then trusted_value r else 0)"
      using apply_total [OF one, of r "of_expense j"] r by (simp add: pair) (auto simp: same_pair_texts of_expense_def sameTransactionId_def)
    show ?thesis
    proof (cases "id_text j = id_text expenseId")
      case True
      then have "of_expense j = of_expense expenseId" by (simp add: of_expense_def sameTransactionId_def fun_eq_iff)
      with t V c r True show ?thesis by (auto simp: of_expense_def sameTransactionId_def)
    next
      case False
      then have "linked_total (\<lambda>l. of_expense j l \<and> \<not> same_pair (inflowId, expenseId) l) ls = linked_total (of_expense j) ls"
        by (intro linked_total_cong) (auto simp: same_pair_texts of_expense_def sameTransactionId_def)
      moreover have "linked_total (of_expense j) ls \<le> max 0 (expenseCap (id_text j))"
        using assms(1) by (simp add: within_capacity_def)
      ultimately show ?thesis using t False r by (simp add: of_expense_def sameTransactionId_def)
    qed
  qed
  ultimately show ?thesis using apply_one_link_per_pair [OF one] by (simp add: within_capacity_def)
qed

lemma linked_total_filter_le: "linked_total P (filter Q ls) \<le> linked_total P ls"
  by (induction ls) (auto simp: trans_le_add1 intro: order_trans)

lemma remove_within_capacity:
  assumes "within_capacity inflowCap expenseCap ls"
  shows "within_capacity inflowCap expenseCap (fst (removeLinkRecord ls i e))"
proof -
  have "one_link_per_pair (filter P ls)" for P
    using assms by (auto simp: within_capacity_def one_link_per_pair_def intro: distinct_map_filter)
  moreover have "linked_total Q (filter P ls) \<le> m" if "linked_total Q ls \<le> m" for P Q m
    using linked_total_filter_le [of Q P ls] that by simp
  ultimately show ?thesis using assms by (simp add: within_capacity_def removeLinkRecord_def Let_def)
qed

section \<open>Properties\<close>

text \<open>
  Admitting a link with the capacity check and writing its record never hands out more
  than a transaction has: for every inflow and every expense the trusted allocations of all its links
  stay within its amount, also when the link replaces an earlier one of the same pair.
\<close>

theorem admitted_link_within_capacity:
  assumes "within_capacity inflowCap expenseCap ls"
    and "validateLinkCapacity (JNum (js_of_int c)) (JNum (js_of_int (lv_amountCents i))) (JNum (js_of_int (lv_amountCents e)))
      ls (lv_id i) (lv_id e) = Inr cap"
    and "fresh_link now i e c person old = Inr r"
    and "inflowCap (id_text (lv_id i)) = lv_amountCents i" "expenseCap (id_text (lv_id e)) = - lv_amountCents e"
  shows "within_capacity inflowCap expenseCap (applyLinkRecord ls r) \<and> linkRecordConverged (applyLinkRecord ls r) r = Inr True"
proof -
  note V = validate_Inr [OF assms(2)]
  note F = fresh_link_Inr [OF assms(3)]
  have c: "cp_allocationCents cap = c" "0 < c" using V by (auto split: if_splits)
  have "within_capacity inflowCap expenseCap (applyLinkRecord ls r)"
  proof (rule apply_within_capacity [OF assms(1,2)])
    show "cp_inflowCapCents cap = inflowCap (id_text (lv_id i))" using V assms(4) by (auto split: if_splits)
    show "cp_expenseCapCents cap = expenseCap (id_text (lv_id e))" using V assms(5) by (auto split: if_splits)
  qed (use F c in auto)
  moreover have "linkRecordConverged (applyLinkRecord ls r) r = Inr True"
    unfolding linkRecordConverged_def find_apply using F c by (simp add: linkVersion_def)
  ultimately show ?thesis by blast
qed

lemma admitted_link_within_capacity_witness:
  "\<exists>r. within_capacity (\<lambda>_. 5000) (\<lambda>_. 3000) (applyLinkRecord [] r) \<and> lk_allocationCents r = JNum (js_of_int 2500)"
proof -
  let ?i = "\<lparr>lv_id = Some ''in'', lv_date = None, lv_payee = None, lv_amountCents = 5000, lv_accountId = None,
    lv_accountName = None, lv_imported = False, lv_category = None, lv_categoryId = None, lv_isLeg = False, lv_parentId = None\<rparr>"
  let ?e = "?i\<lparr>lv_id := Some ''ex'', lv_amountCents := - 3000\<rparr>"
  obtain r where r: "fresh_link [] ?i ?e 2500 None None = Inr r"
    using fresh_link_exists [of 2500 ?i ?e "[]" None None] by (auto simp: safe_int_def max_safe_def)
  have w: "within_capacity (\<lambda>_. 5000) (\<lambda>_. 3000) []" by (simp add: within_capacity_def one_link_per_pair_def)
  have v: "validateLinkCapacity (JNum (js_of_int 2500)) (JNum (js_of_int (lv_amountCents ?i))) (JNum (js_of_int (lv_amountCents ?e)))
      [] (lv_id ?i) (lv_id ?e) = Inr \<lparr>cp_allocationCents = 2500, cp_inflowRemainingCents = 2500, cp_expenseRemainingCents = 500,
        cp_inflowCapCents = 5000, cp_expenseCapCents = 3000, cp_inflowAllocatedCents = 2500, cp_expenseAllocatedCents = 2500\<rparr>"
    by code_simp
  from admitted_link_within_capacity [OF w v r] fresh_link_Inr [OF r] show ?thesis by auto
qed

text \<open>A trusted allocation is only changed by a caller that names the version it saw.\<close>

lemma changed_link_needs_version:
  assumes "buildExplicitLinkRecord now i e c person (Some l) expected = Inr b" "bl_changed b"
    and "classifyStoredLink l = Inr cl" "cl_trusted cl"
  shows "expected = Some (linkVersion l) \<and> lk_version (bl_record b) = Some (linkVersion l + 1)"
proof -
  from assms have "expected \<noteq> None" by (auto simp: buildExplicitLinkRecord_def res_simps split: if_splits)
  with assms show ?thesis
    by (auto simp: buildExplicitLinkRecord_def res_simps assertExpectedVersion_def dest!: fresh_link_Inr split: if_splits)
qed

section \<open>The upgrade of stored links\<close>

lemma abs_cents_safe: "abs_cents v = Inr c \<Longrightarrow> safe_int c"
  by (cases v) (auto simp: abs_cents_def res_simps toCents_num_Inr_iff safe_int_def dest!: safe_to_int)

lemma link_key_not_empty [simp]: "link_key l \<noteq> []"
  by (auto simp: link_key_def or_null_def linkPairKey_def split: option.splits if_splits)

lemma upgrade_ref_idem [simp]: "upgrade_ref (upgrade_ref r) = upgrade_ref r"
  by (simp add: upgrade_ref_def)

lemma link_key_keyed [simp]: "link_key (l\<lparr>lk_linkKey := Some (link_key m)\<rparr>) = link_key m"
  by (simp add: link_key_def [of "l\<lparr>lk_linkKey := Some (link_key m)\<rparr>"] or_null_def)

lemma linkVersion_simps [simp]:
  "linkVersion (l\<lparr>lk_linkKey := k\<rparr>) = linkVersion l" "linkVersion (l\<lparr>lk_inflow := i\<rparr>) = linkVersion l"
  "linkVersion (l\<lparr>lk_expense := e\<rparr>) = linkVersion l" "linkVersion (l\<lparr>lk_version := Some v\<rparr>) = v"
  by (simp_all add: linkVersion_def split: option.splits)

lemma classify_cong:
  "\<lbrakk>lk_allocationCents m = lk_allocationCents l; lk_amount m = lk_amount l\<rbrakk> \<Longrightarrow> classifyStoredLink m = classifyStoredLink l"
  by (simp only: classifyStoredLink_def)

lemma linkVersion_cong:
  "\<lbrakk>lk_allocationCents m = lk_allocationCents l; lk_amount m = lk_amount l; lk_version m = lk_version l\<rbrakk> \<Longrightarrow>
   linkVersion m = linkVersion l"
  by (simp only: linkVersion_def)

lemma classify_simps [simp]:
  "classifyStoredLink (l\<lparr>lk_linkKey := k\<rparr>) = classifyStoredLink l" "classifyStoredLink (l\<lparr>lk_inflow := i\<rparr>) = classifyStoredLink l"
  "classifyStoredLink (l\<lparr>lk_expense := e\<rparr>) = classifyStoredLink l" "classifyStoredLink (l\<lparr>lk_version := v\<rparr>) = classifyStoredLink l"
  by (simp_all add: classifyStoredLink_def)

text \<open>
  The shape of an upgraded link: its amounts are those of the old one, with what the trusted
  allocation implies written out.
\<close>

lemma migrate_Inr:
  assumes "migrateLinkToSchemaV2 l = Inr m" "classifyStoredLink l = Inr cl"
  shows "lk_linkKey m = Some (link_key l) \<and> lk_inflow m = map_option upgrade_ref (lk_inflow l) \<and>
    lk_expense m = map_option upgrade_ref (lk_expense l) \<and> lk_person m = lk_person l \<and>
    lk_createdAt m = lk_createdAt l \<and> lk_updatedAt m = lk_updatedAt l \<and>
    (if cl_trusted cl
     then \<not> nullish (lk_allocationCents m) \<and> \<not> nullish (lk_amount m) \<and> lk_version m = Some (linkVersion l) \<and>
       lk_allocationCents m = (if nullish (lk_allocationCents l) then JNum (js_of_int (the (cl_allocationCents cl))) else lk_allocationCents l)
     else lk_allocationCents m = lk_allocationCents l \<and> lk_amount m = lk_amount l \<and> lk_version m = lk_version l)"
proof (cases "cl_trusted cl")
  case False
  with assms show ?thesis by (auto simp: migrateLinkToSchemaV2_def Let_def res_simps)
next
  case True
  then obtain c r where c: "cl = trusted_as c r" using classify_cases [OF assms(2)] by auto
  have "\<not> nullish (lk_allocationCents l) \<or> \<not> nullish (lk_amount l)"
    using assms(2) c by (auto simp: classifyStoredLink_def)
  then have v: "lk_version l = None \<Longrightarrow> linkVersion l = 1" by (auto simp: linkVersion_def)
  have "lk_version l = Some x \<Longrightarrow> linkVersion l = x" for x by (simp add: linkVersion_def)
  with True c assms v show ?thesis
    by (auto simp: migrateLinkToSchemaV2_def Let_def res_simps split: if_splits)
qed

lemma trusted_amount:
  assumes "classifyStoredLink l = Inr cl" "cl_trusted cl"
  shows "\<exists>c. cl_allocationCents cl = Some c \<and> safe_int c \<and> 0 < c"
  using assms
  by (auto simp: classifyStoredLink_def res_simps dest: requireSafeCents_Inr abs_cents_safe split: if_splits sum.splits)

text \<open>
  The upgrade of a stored link changes neither what it allocates nor whether that is
  trusted, nor the version a caller has to name; and upgrading twice is upgrading once.
\<close>

theorem migration_keeps_link:
  assumes "migrateLinkToSchemaV2 l = Inr m"
  shows "\<exists>cl cl'. classifyStoredLink l = Inr cl \<and> classifyStoredLink m = Inr cl' \<and>
    cl_allocationCents cl' = cl_allocationCents cl \<and> cl_trusted cl' = cl_trusted cl \<and>
    linkVersion m = linkVersion l \<and> migrateLinkToSchemaV2 m = Inr m"
proof -
  obtain cl where cl: "classifyStoredLink l = Inr cl" using assms by (auto simp: migrateLinkToSchemaV2_def res_simps)
  note M = migrate_Inr [OF assms cl]
  have key: "link_key m = link_key l" using M by (simp add: link_key_def [of m] or_null_def)
  have refs: "map_option upgrade_ref (lk_inflow m) = lk_inflow m" "map_option upgrade_ref (lk_expense m) = lk_expense m"
    using M by (simp_all add: option.map_comp comp_def)
  show ?thesis
  proof (cases "cl_trusted cl")
    case False
    with M have same: "classifyStoredLink m = Inr cl" "linkVersion m = linkVersion l"
      using cl classify_cong [of m l] linkVersion_cong [of m l] by simp_all
    moreover have "migrateLinkToSchemaV2 m = Inr m"
      using same False key refs M by (simp add: migrateLinkToSchemaV2_def Let_def)
    ultimately show ?thesis using cl by blast
  next
    case True
    obtain c where c: "cl_allocationCents cl = Some c" "safe_int c" "0 < c" using trusted_amount [OF cl True] by blast
    have "\<exists>r. classifyStoredLink m = Inr (trusted_as c r)"
    proof (cases "nullish (lk_allocationCents l)")
      case True
      with M \<open>cl_trusted cl\<close> c classify_explicit [of m c] show ?thesis by auto
    next
      case False
      with M True have "lk_allocationCents m = lk_allocationCents l" by simp
      with False cl c classify_cases [OF cl] True show ?thesis by (auto simp: classifyStoredLink_def)
    qed
    then obtain r where r: "classifyStoredLink m = Inr (trusted_as c r)" by blast
    have "migrateLinkToSchemaV2 m = Inr m" using M True key refs r by (simp add: migrateLinkToSchemaV2_def Let_def)
    moreover have "linkVersion m = linkVersion l" using M True by (simp add: linkVersion_def)
    ultimately show ?thesis using cl r c True by auto
  qed
qed

lemma migration_keeps_link_witness:
  "\<exists>m. migrateLinkToSchemaV2 \<lparr>lk_linkKey = None, lk_inflow = None, lk_expense = None, lk_allocationCents = JNull,
      lk_amount = JNum (js_of_int 25), lk_person = None, lk_version = None, lk_createdAt = None, lk_updatedAt = None\<rparr> = Inr m \<and>
     linkVersion m = 1 \<and> migrateLinkToSchemaV2 m = Inr m"
proof -
  let ?l = "\<lparr>lk_linkKey = None, lk_inflow = None, lk_expense = None, lk_allocationCents = JNull,
      lk_amount = JNum (js_of_int 25), lk_person = None, lk_version = None, lk_createdAt = None, lk_updatedAt = None\<rparr>"
  have "toCents_num (js_of_int 25) = Inr (100 * 25)" by (rule toCents_whole) simp
  then have "abs_cents (lk_amount ?l) = Inr 2500" by (simp add: abs_cents_def)
  then have "\<exists>m. migrateLinkToSchemaV2 ?l = Inr m"
    by (simp add: migrateLinkToSchemaV2_def classifyStoredLink_def Let_def)
  then obtain m where m: "migrateLinkToSchemaV2 ?l = Inr m" by blast
  have v: "linkVersion ?l = 1" by (simp add: linkVersion_def)
  from migration_keeps_link [OF m] have "linkVersion m = linkVersion ?l" "migrateLinkToSchemaV2 m = Inr m" by blast+
  with m v show ?thesis by metis
qed

text \<open>A reference written from a live transaction has the identity of that transaction.\<close>

lemma stored_fingerprint_of_live:
  assumes "txnRefFromLive live = Inr ref" "or_null (lv_id live) \<noteq> None" "\<bar>lv_amountCents live\<bar> < 2 ^ 51"
    and "isExpense \<longleftrightarrow> lv_amountCents live < 0"
  shows "storedEndpointIdentityFingerprint ref isExpense = liveEndpointIdentityFingerprint live"
proof -
  obtain d where d: "fromCents (lv_amountCents live) = Inr d" "toCents (JNum d) = Inr (lv_amountCents live)"
    using cents_roundtrip [OF assms(3)] by blast
  obtain s where s: "lv_id live = Some s" "s \<noteq> []" using assms(2) by (auto simp: or_null_def split: if_splits)
  have "stored_amount_text ref isExpense = dec_int (lv_amountCents live)"
    using assms(1,4) d by (auto simp: txnRefFromLive_def stored_amount_text_def abs_cents_def)
  moreover have "or_empty (or_null x) = or_empty x" for x by (auto simp: or_null_def or_empty_def)
  moreover have "or_null (Some s) = Some s" using s(2) by (simp add: or_null_def)
  ultimately show ?thesis
    using assms(1) d s
    by (auto simp: txnRefFromLive_def storedEndpointIdentityFingerprint_def liveEndpointIdentityFingerprint_def)
qed

end
