(* ===== verification/ReimbursementAdmission.thy ===== *)
theory ReimbursementAdmission
  imports ReimbursementAllocation
begin

text \<open>
  Finding the live transactions behind a reimbursement link and admitting the link:
  \<open>lib/repayment-transaction-locator.js\<close> and \<open>lib/reimbursement-link-admission.js\<close>. The budget engine is
  the list of its accounts with the transactions each returns for the widest range of dates; a call
  of it that throws is outside the model.
\<close>

section \<open>Locating a transaction\<close>

record txn_row =
  tr_id :: "string option"
  tr_parent_id :: "string option"
  tr_date :: "string option"
  tr_amount :: int
  tr_payee :: "string option"
  tr_imported_payee :: "string option"
  tr_imported :: "bool option"
  tr_category :: "string option"
  tr_account :: "string option"
  tr_accountId :: "string option"
  tr_accountName :: "string option"

text \<open>A row with its \<open>subtransactions\<close>.\<close>

type_synonym parent_row = "txn_row \<times> txn_row list"

text \<open>\<open>a || b\<close> on strings, where an empty string counts as absent.\<close>

definition or_else :: "string option \<Rightarrow> string option \<Rightarrow> string option" where
  "or_else a b = (if or_null a = None then b else a)"

definition enrichSplitLeg :: "txn_row \<Rightarrow> txn_row \<Rightarrow> txn_row" where
  "enrichSplitLeg parent leg =
     leg\<lparr>tr_parent_id := coalesce (tr_parent_id leg) (tr_id parent), tr_date := or_else (tr_date leg) (tr_date parent),
         tr_account := or_else (tr_account leg) (tr_account parent),
         tr_accountId := or_else (tr_accountId leg) (or_else (tr_accountId parent) (tr_account parent)),
         tr_accountName := or_else (tr_accountName leg) (tr_accountName parent)\<rparr>"

record located =
  lo_transaction :: txn_row
  lo_parent :: "txn_row option"
  lo_isLeg :: bool

fun locateExactTransactionId :: "parent_row list \<Rightarrow> string \<Rightarrow> located option" where
  "locateExactTransactionId [] target = None"
| "locateExactTransactionId ((row, legs) # rest) target =
     (if target = [] then None
      else if sameTransactionId (tr_id row) (Some target)
      then Some \<lparr>lo_transaction = row, lo_parent = None, lo_isLeg = False\<rparr>
      else case find (\<lambda>leg. sameTransactionId (tr_id leg) (Some target)) legs of
             Some leg \<Rightarrow> Some \<lparr>lo_transaction = enrichSplitLeg row leg, lo_parent = Some row, lo_isLeg = True\<rparr>
           | None \<Rightarrow> locateExactTransactionId rest target)"

text \<open>Accounts in the order of \<open>Object.entries\<close>, the preferred one first.\<close>

fun first_account :: "(string \<times> parent_row list) list \<Rightarrow> string \<Rightarrow> (string \<times> located) option" where
  "first_account [] target = None"
| "first_account ((acct, rows) # rest) target =
     (case locateExactTransactionId rows target of
        Some l \<Rightarrow> Some (acct, l)
      | None \<Rightarrow> first_account rest target)"

definition locateExactTransactionIdInAccounts ::
  "(string \<times> parent_row list) list \<Rightarrow> string \<Rightarrow> string option \<Rightarrow> (string \<times> located) option" where
  "locateExactTransactionIdInAccounts rowsByAccount target preferredAccountId =
     (case or_null preferredAccountId of
        None \<Rightarrow> first_account rowsByAccount target
      | Some p \<Rightarrow>
          (case locateExactTransactionId (case map_of rowsByAccount p of None \<Rightarrow> [] | Some rows \<Rightarrow> rows) target of
             Some l \<Rightarrow> Some (p, l)
           | None \<Rightarrow> first_account rowsByAccount target))"

text \<open>What the caller already believes of an endpoint.\<close>

record hint =
  hi_payee :: "string option"
  hi_date :: "string option"
  hi_accountId :: "string option"
  hi_account :: "string option"
  hi_accountName :: "string option"
  hi_imported :: bool
  hi_category :: "string option"
  hi_parentId :: "string option"

definition enrichLocated :: "string \<Rightarrow> located \<Rightarrow> (string \<Rightarrow> string option) \<Rightarrow> hint \<Rightarrow> live_txn" where
  "enrichLocated acct l payeeNames h =
     (let t = lo_transaction l;
          known = (case tr_payee t of None \<Rightarrow> None | Some p \<Rightarrow> payeeNames p) in
      \<lparr>lv_id = Some (id_text (tr_id t)), lv_date = or_null (or_else (tr_date t) (hi_date h)),
       lv_payee = Some (or_empty (or_else known (or_else (tr_imported_payee t) (hi_payee h)))),
       lv_amountCents = tr_amount t, lv_accountId = or_null (or_else (Some acct) (hi_accountId h)),
       lv_accountName = Some (or_empty (or_else (tr_account t) (or_else (hi_account h) (hi_accountName h)))),
       lv_imported = (case tr_imported t of Some b \<Rightarrow> b | None \<Rightarrow> hi_imported h),
       lv_category = coalesce (tr_category t) (hi_category h), lv_categoryId = None, lv_isLeg = lo_isLeg l,
       lv_parentId = (if lo_isLeg l then Some (id_text (case lo_parent l of None \<Rightarrow> None | Some p \<Rightarrow> tr_id p)) else hi_parentId h)\<rparr>)"

record engine =
  en_accounts :: "(string \<times> parent_row list) list"
  en_payeeNames :: "string \<Rightarrow> string option"
  en_reimbCategoryId :: "string option"

definition endpointInvalid :: js_error where
  "endpointInvalid = AppError ''REIMBURSEMENT_LINK_ENDPOINT_INVALID'' 409"

definition locateTransactionLive :: "engine \<Rightarrow> string \<Rightarrow> hint \<Rightarrow> live_txn option" where
  "locateTransactionLive e target h =
     (case first_account (en_accounts e) target of
        None \<Rightarrow> None
      | Some (acct, l) \<Rightarrow> Some (enrichLocated acct l (en_payeeNames e) h))"

definition locateEndpoint :: "engine \<Rightarrow> string \<Rightarrow> hint \<Rightarrow> live_txn res" where
  "locateEndpoint e target h =
     (case locateTransactionLive e target h of None \<Rightarrow> Inl endpointInvalid | Some live \<Rightarrow> Inr live)"

section \<open>Admitting a link\<close>

definition resolveManualLinkEndpoints :: "engine \<Rightarrow> string \<Rightarrow> hint \<Rightarrow> string \<Rightarrow> hint \<Rightarrow> (live_txn \<times> live_txn) res" where
  "resolveManualLinkEndpoints e inflowId inflowHint expenseId expenseHint =
     (if inflowId = expenseId then Inl endpointInvalid
      else ebind (locateEndpoint e inflowId inflowHint) (\<lambda>i.
           ebind (locateEndpoint e expenseId expenseHint) (\<lambda>x.
             if \<not> lv_amountCents i > 0 then Inl endpointInvalid
             else if \<not> lv_amountCents x < 0 then Inl endpointInvalid
             else Inr (i, x))))"

text \<open>\<open>String(null)\<close> and \<open>String(undefined)\<close> of a missing category never name one.\<close>

definition assertReimbursementEligible :: "live_txn \<Rightarrow> string option \<Rightarrow> unit res" where
  "assertReimbursementEligible expenseLive reimbCategoryId =
     (case or_null reimbCategoryId of
        None \<Rightarrow> Inl endpointInvalid
      | Some c \<Rightarrow> if (case lv_category expenseLive of None \<Rightarrow> ''null'' | Some s \<Rightarrow> s) \<noteq> c
                  then Inl endpointInvalid else Inr ())"

definition assertLiveEndpointsMatchPrepared :: "live_txn \<Rightarrow> live_txn \<Rightarrow> live_txn \<Rightarrow> live_txn \<Rightarrow> unit res" where
  "assertLiveEndpointsMatchPrepared preparedInflow preparedExpense liveInflow liveExpense =
     (if endpointAdmissionFingerprint preparedInflow \<noteq> endpointAdmissionFingerprint liveInflow \<or>
         endpointAdmissionFingerprint preparedExpense \<noteq> endpointAdmissionFingerprint liveExpense
      then Inl endpointInvalid else Inr ())"

definition find_link :: "rlink list \<Rightarrow> string option \<Rightarrow> string option \<Rightarrow> rlink option" where
  "find_link links inflowId expenseId = find (same_pair (inflowId, expenseId)) links"

record link_request =
  rq_allocationCents :: jsval
  rq_amount :: jsval
  rq_person :: "string option"
  rq_expectedVersion :: "int option"

record link_admission =
  ad_inflowLive :: live_txn
  ad_expenseLive :: live_txn
  ad_allocationCents :: int
  ad_person :: "string option"
  ad_expectedVersion :: "int option"
  ad_existingLink :: "rlink option"
  ad_allowSamePairResolution :: bool

definition amount_of :: "live_txn \<Rightarrow> jsval" where
  "amount_of live = JNum (js_of_int (lv_amountCents live))"

definition buildCapacityAdmission :: "live_txn \<Rightarrow> live_txn \<Rightarrow> int \<Rightarrow> rlink list \<Rightarrow> capacity res" where
  "buildCapacityAdmission i x allocationCents links =
     validateLinkCapacity (JNum (js_of_int allocationCents)) (amount_of i) (amount_of x) links (lv_id i) (lv_id x)"

definition buildManualLinkAdmission ::
  "link_request \<Rightarrow> live_txn \<times> live_txn \<Rightarrow> rlink list \<Rightarrow> string option \<Rightarrow> link_admission res" where
  "buildManualLinkAdmission request resolved existingLinks reimbCategoryId =
     (let i = fst resolved; x = snd resolved in
      ebind (assertReimbursementEligible x reimbCategoryId) (\<lambda>_.
      ebind (parseRequestedAllocationCents (rq_allocationCents request) (rq_amount request)) (\<lambda>cents.
        let existing = find_link existingLinks (lv_id i) (lv_id x) in
        ebind (case existing of None \<Rightarrow> Inr False
               | Some l \<Rightarrow> ebind (classifyStoredLink l) (\<lambda>cl. Inr (cl_ambiguous cl))) (\<lambda>allow.
        ebind (assertLegacyAmbiguityAdmission existingLinks (lv_id i) (lv_id x) allow) (\<lambda>_.
        ebind (buildCapacityAdmission i x cents existingLinks) (\<lambda>cap.
          Inr \<lparr>ad_inflowLive = i, ad_expenseLive = x, ad_allocationCents = cp_allocationCents cap,
               ad_person = or_null (rq_person request), ad_expectedVersion = rq_expectedVersion request,
               ad_existingLink = existing, ad_allowSamePairResolution = allow\<rparr>))))))"

definition admitManualLink ::
  "engine \<Rightarrow> string \<Rightarrow> hint \<Rightarrow> string \<Rightarrow> hint \<Rightarrow> link_request \<Rightarrow> rlink list \<Rightarrow> link_admission res" where
  "admitManualLink e inflowId inflowHint expenseId expenseHint request existingLinks =
     ebind (resolveManualLinkEndpoints e inflowId inflowHint expenseId expenseHint) (\<lambda>resolved.
       buildManualLinkAdmission request resolved existingLinks (en_reimbCategoryId e))"

section \<open>Checking again before the write\<close>

definition hint_of :: "live_txn \<Rightarrow> hint" where
  "hint_of live = \<lparr>hi_payee = lv_payee live, hi_date = lv_date live, hi_accountId = lv_accountId live, hi_account = None,
     hi_accountName = lv_accountName live, hi_imported = lv_imported live, hi_category = lv_category live,
     hi_parentId = lv_parentId live\<rparr>"

definition no_hint :: hint where
  "no_hint = \<lparr>hi_payee = None, hi_date = None, hi_accountId = None, hi_account = None, hi_accountName = None,
     hi_imported = False, hi_category = None, hi_parentId = None\<rparr>"

text \<open>What a saga knows of its link.\<close>

record link_plan =
  lp_allocationCents :: int
  lp_person :: "string option"
  lp_inflowLive :: live_txn
  lp_expenseLive :: live_txn
  lp_allowSamePairResolution :: bool

definition revalidateLinkApply ::
  "engine \<Rightarrow> string \<Rightarrow> string \<Rightarrow> int option \<Rightarrow> link_plan \<Rightarrow> rlink list \<Rightarrow> link_admission res" where
  "revalidateLinkApply e inflowId expenseId expectedVersion p existingLinks =
     ebind (locateEndpoint e inflowId (hint_of (lp_inflowLive p))) (\<lambda>i.
     ebind (locateEndpoint e expenseId (hint_of (lp_expenseLive p))) (\<lambda>x.
     ebind (assertReimbursementEligible x (en_reimbCategoryId e)) (\<lambda>_.
     ebind (assertLiveEndpointsMatchPrepared (lp_inflowLive p) (lp_expenseLive p) i x) (\<lambda>_.
       let existing = find_link existingLinks (lv_id i) (lv_id x) in
       ebind (assertLegacyAmbiguityAdmission existingLinks (lv_id i) (lv_id x) (lp_allowSamePairResolution p)) (\<lambda>_.
       ebind (buildCapacityAdmission i x (lp_allocationCents p) existingLinks) (\<lambda>cap.
         Inr \<lparr>ad_inflowLive = i, ad_expenseLive = x, ad_allocationCents = cp_allocationCents cap, ad_person = lp_person p,
              ad_expectedVersion = expectedVersion, ad_existingLink = existing, ad_allowSamePairResolution = False\<rparr>))))))"

definition revalidateUnlinkApply :: "engine \<Rightarrow> string \<Rightarrow> string \<Rightarrow> rlink list \<Rightarrow> rlink option res" where
  "revalidateUnlinkApply e inflowId expenseId existingLinks =
     ebind (locateEndpoint e inflowId no_hint) (\<lambda>_.
     ebind (locateEndpoint e expenseId no_hint) (\<lambda>_.
       case find_link existingLinks (Some inflowId) (Some expenseId) of
         None \<Rightarrow> Inr None
       | Some l \<Rightarrow> ebind (assertLegacyAmbiguityAdmission existingLinks (Some inflowId) (Some expenseId) True) (\<lambda>_. Inr (Some l))))"

end
