(* ===== verification/ReimbursementSaga.thy ===== *)
theory ReimbursementSaga
  imports ReimbursementAdmission OperationJournal
begin

text \<open>
  The saga that writes or removes a reimbursement link (\<open>lib/reimbursement-link-saga.js\<close>). Two files
  are durable: the links and the sagas. A call is modelled by the durable states it goes through,
  one per write, and its outcome: a crash or a failing write leaves one of them, and \<open>recover\<close> starts
  from what is stored. Nothing else writes these files meanwhile (the mutation lane is held).
\<close>

section \<open>State\<close>

datatype saga_phase = Prepared | Links_pending | Completed

text \<open>The action of a saga; a link carries what was admitted.\<close>

datatype saga_action = Act_link link_plan | Act_unlink

record lsaga =
  ls_id :: string
  ls_phase :: saga_phase
  ls_action :: saga_action
  ls_operationIdentity :: "string option"
  ls_accountId :: "string option"
  ls_inflowId :: string
  ls_expenseId :: string
  ls_expectedVersion :: "int option"
  ls_idempotent :: bool
  ls_pendingRecord :: "rlink option"
  ls_resultVersion :: "int option"
  ls_removed :: "nat option"
  ls_startedAt :: string
  ls_updatedAt :: string
  ls_terminalAt :: "string option"
  ls_binding :: "saga_binding option"

record durable =
  du_links :: "rlink list"
  du_sagas :: "(string \<times> lsaga) list"

text \<open>
  What a call meets: the engine, the clock (the time stamps it reads, in order), the order by which
  finished sagas are kept (latest first, in the collation of the platform), and whether another
  component holds one of the transactions (\<open>assertExternalAvailable\<close>).
\<close>

record lenv =
  le_engine :: engine
  le_clock :: "nat \<Rightarrow> string"
  le_newer :: "lsaga \<Rightarrow> lsaga \<Rightarrow> bool"
  le_external :: "string option \<Rightarrow> string list \<Rightarrow> unit res"

definition TERMINAL_LIMIT :: nat where "TERMINAL_LIMIT = 100"

definition isTerminalSaga :: "lsaga \<Rightarrow> bool" where
  "isTerminalSaga s \<longleftrightarrow> ls_phase s = Completed"

definition sagaOwnedIds :: "lsaga \<Rightarrow> string list" where
  "sagaOwnedIds s = filter (\<lambda>i. i \<noteq> []) [ls_inflowId s, ls_expenseId s]"

definition sagasForOperationKey :: "(string \<times> lsaga) list \<Rightarrow> string \<Rightarrow> lsaga list" where
  "sagasForOperationKey sagas key =
     (if key = [] then [] else filter (\<lambda>s. ls_operationIdentity s = Some key \<or> ls_id s = key) (map snd sagas))"

definition is_link :: "lsaga \<Rightarrow> bool" where
  "is_link s \<longleftrightarrow> (case ls_action s of Act_link _ \<Rightarrow> True | Act_unlink \<Rightarrow> False)"

definition terminalSagaCorrupted :: "lsaga \<Rightarrow> bool" where
  "terminalSagaCorrupted s \<longleftrightarrow> \<not> isTerminalSaga s \<or> or_null (ls_terminalAt s) = None \<or>
     ls_inflowId s = [] \<or> ls_expenseId s = [] \<or>
     (if is_link s then ls_resultVersion s = None else ls_removed s = None)"

definition expectedMethodForAction :: "bool \<Rightarrow> string" where
  "expectedMethodForAction link = (if link then ''POST'' else ''DELETE'')"

section \<open>Writing\<close>

fun insert_saga :: "(lsaga \<Rightarrow> lsaga \<Rightarrow> bool) \<Rightarrow> lsaga \<Rightarrow> lsaga list \<Rightarrow> lsaga list" where
  "insert_saga newer s [] = [s]"
| "insert_saga newer s (x # xs) = (if newer x s then x # insert_saga newer s xs else s # x # xs)"

definition pruneState :: "(lsaga \<Rightarrow> lsaga \<Rightarrow> bool) \<Rightarrow> (string \<times> lsaga) list \<Rightarrow> (string \<times> lsaga) list" where
  "pruneState newer sagas =
     (let values = map snd sagas; active = filter (\<lambda>s. \<not> isTerminalSaga s) values;
          terminal = take TERMINAL_LIMIT (foldr (insert_saga newer) (filter isTerminalSaga values) [])
      in map (\<lambda>s. (ls_id s, s)) (active @ terminal))"

definition writeSaga :: "lenv \<Rightarrow> lsaga \<Rightarrow> durable \<Rightarrow> durable" where
  "writeSaga env s d = d\<lparr>du_sagas := pruneState (le_newer env) (AList.update (ls_id s) s (du_sagas d))\<rparr>"

text \<open>\<open>checkpoint\<close>: the patched saga gets a time stamp, and once it is completed a terminal one.\<close>

definition stamped :: "string \<Rightarrow> lsaga \<Rightarrow> lsaga" where
  "stamped now s =
     (let s1 = s\<lparr>ls_updatedAt := now\<rparr> in
      if isTerminalSaga s1
      then s1\<lparr>ls_terminalAt := Some (case or_null (ls_terminalAt s1) of None \<Rightarrow> now | Some t \<Rightarrow> t)\<rparr> else s1)"

section \<open>Availability and admission by the journal\<close>

definition in_progress :: js_error where
  "in_progress = AppError ''REIMBURSEMENT_LINK_IN_PROGRESS'' 409"

definition activeOwnedIds :: "durable \<Rightarrow> string list" where
  "activeOwnedIds d = concat (map sagaOwnedIds (filter (\<lambda>s. \<not> isTerminalSaga s) (map snd (du_sagas d))))"

definition assertAvailable :: "durable \<Rightarrow> string list \<Rightarrow> unit res" where
  "assertAvailable d ids =
     (if \<exists>s\<in>set (map snd (du_sagas d)). \<not> isTerminalSaga s \<and> (\<exists>i\<in>set ids. i \<in> set (sagaOwnedIds s))
      then Inl in_progress else Inr ())"

definition assertJournalAdmission :: "durable \<Rightarrow> string \<Rightarrow> binding option \<Rightarrow> bool \<Rightarrow> unit res" where
  "assertJournalAdmission d operationKey journalBinding link =
     (case normalizeJournalBinding journalBinding of
        None \<Rightarrow> Inr ()
      | Some b \<Rightarrow>
          if operationKey = [] then Inr ()
          else case sagasForOperationKey (du_sagas d) operationKey of
                 [] \<Rightarrow> Inr ()
               | [s] \<Rightarrow> if is_link s \<noteq> link then Inl idempotencyKeyReuseError
                        else assertJournalBinding (ls_binding s) (Some b) (expectedMethodForAction link) []
               | _ \<Rightarrow> Inl idempotencyKeyReuseError)"

definition bindJournalFields :: "binding option \<Rightarrow> lsaga \<Rightarrow> lsaga" where
  "bindJournalFields journalBinding s =
     (case normalizeJournalBinding journalBinding of
        None \<Rightarrow> s
      | Some b \<Rightarrow> s\<lparr>ls_binding := Some \<lparr>sb_fingerprint = bi_fingerprint b, sb_fingerprintVersion = bi_fingerprintVersion b,
          sb_method = or_empty (bi_method b), sb_route = or_empty (bi_route b)\<rparr>\<rparr>)"

section \<open>Answers\<close>

datatype saga_answer =
    Ans_link string string int string "int option" bool
  | Ans_unlink nat bool

fun answer_idempotent :: "saga_answer \<Rightarrow> saga_answer" where
  "answer_idempotent (Ans_link i x c k v _) = Ans_link i x c k v True"
| "answer_idempotent (Ans_unlink n _) = Ans_unlink n True"

definition saga_link_key :: "lsaga \<Rightarrow> string" where
  "saga_link_key s = linkPairKey (Some (ls_inflowId s)) (Some (ls_expenseId s))"

definition terminalReplay :: "lsaga \<Rightarrow> saga_answer" where
  "terminalReplay s =
     (case ls_action s of
        Act_unlink \<Rightarrow> Ans_unlink (case ls_removed s of None \<Rightarrow> 0 | Some n \<Rightarrow> n) (ls_idempotent s)
      | Act_link p \<Rightarrow> Ans_link (ls_inflowId s) (ls_expenseId s) (lp_allocationCents p) (saga_link_key s)
                        (ls_resultVersion s) (ls_idempotent s))"

definition proveTerminalJournalCompletion :: "durable \<Rightarrow> string \<Rightarrow> binding option \<Rightarrow> saga_answer option" where
  "proveTerminalJournalCompletion d operationKey journalOperation =
     (case journalOperation of
        None \<Rightarrow> None
      | Some b \<Rightarrow>
          if operationKey = [] \<or> bi_fingerprint b = [] \<or> bi_fingerprintVersion b = None then None
          else case sagasForOperationKey (du_sagas d) operationKey of
                 [s] \<Rightarrow> if terminalSagaCorrupted s then None
                        else if journalBindingsMatch (ls_binding s) (Some b) (expectedMethodForAction (is_link s)) []
                        then Some (terminalReplay s) else None
               | _ \<Rightarrow> None)"

section \<open>Driving a saga\<close>

text \<open>A run: the durable states after each write, and the outcome.\<close>

type_synonym 'a run = "durable list \<times> 'a res"

definition not_converged :: js_error where
  "not_converged = PlainError ''reimbursement link sidecar did not converge''"

definition applyPreparedLink :: "lenv \<Rightarrow> lsaga \<Rightarrow> link_plan \<Rightarrow> durable \<Rightarrow> saga_answer run" where
  "applyPreparedLink env s p d =
     (case ebind (revalidateLinkApply (le_engine env) (ls_inflowId s) (ls_expenseId s) (ls_expectedVersion s) p (du_links d))
             (\<lambda>ad. buildExplicitLinkRecord (le_clock env 0) (ad_inflowLive ad) (ad_expenseLive ad)
                     (ad_allocationCents ad) (ad_person ad) (ad_existingLink ad) (ad_expectedVersion ad)) of
        Inl e \<Rightarrow> ([], Inl e)
      | Inr built \<Rightarrow>
          let r = bl_record built;
              s1 = stamped (le_clock env 1) (s\<lparr>ls_phase := Links_pending, ls_pendingRecord := Some r\<rparr>);
              d1 = writeSaga env s1 d;
              d2 = d1\<lparr>du_links := applyLinkRecord (du_links d) r\<rparr> in
          (case linkRecordConverged (du_links d2) r of
             Inl e \<Rightarrow> ([d1, d2], Inl e)
           | Inr False \<Rightarrow> ([d1, d2], Inl not_converged)
           | Inr True \<Rightarrow>
               let s2 = stamped (le_clock env 2)
                          (s1\<lparr>ls_phase := Completed, ls_pendingRecord := None, ls_resultVersion := lk_version r\<rparr>);
                   d3 = writeSaga env s2 d2 in
               ([d1, d2, d3], Inr (Ans_link (ls_inflowId s) (ls_expenseId s) (lp_allocationCents p) (saga_link_key s)
                                     (lk_version r) (ls_idempotent s)))))"

definition applyPreparedUnlink :: "lenv \<Rightarrow> lsaga \<Rightarrow> durable \<Rightarrow> saga_answer run" where
  "applyPreparedUnlink env s d =
     (let s1 = stamped (le_clock env 0) (s\<lparr>ls_phase := Links_pending\<rparr>); d1 = writeSaga env s1 d in
      case revalidateUnlinkApply (le_engine env) (ls_inflowId s) (ls_expenseId s) (du_links d1) of
        Inl e \<Rightarrow> ([d1], Inl e)
      | Inr None \<Rightarrow>
          let s2 = stamped (le_clock env 1) (s1\<lparr>ls_phase := Completed, ls_removed := Some 0\<rparr>) in
          ([d1, writeSaga env s2 d1], Inr (Ans_unlink 0 (ls_idempotent s)))
      | Inr (Some l) \<Rightarrow>
          if ls_expectedVersion s \<noteq> None \<and> ls_expectedVersion s \<noteq> Some (linkVersion l) then ([d1], Inl linkStale)
          else let (rest, removed) = removeLinkRecord (du_links d1) (Some (ls_inflowId s)) (Some (ls_expenseId s));
                   d2 = d1\<lparr>du_links := rest\<rparr>;
                   s2 = stamped (le_clock env 1) (s1\<lparr>ls_phase := Completed, ls_removed := Some removed\<rparr>) in
               ((if removed > 0 then [d1, d2] else [d1]) @ [writeSaga env s2 (if removed > 0 then d2 else d1)],
                Inr (Ans_unlink removed (ls_idempotent s))))"

definition drive :: "lenv \<Rightarrow> lsaga \<Rightarrow> durable \<Rightarrow> saga_answer run" where
  "drive env s d =
     (case le_external env (ls_accountId s) [ls_inflowId s, ls_expenseId s] of
        Inl e \<Rightarrow> ([], Inl e)
      | Inr _ \<Rightarrow>
          if isTerminalSaga s then ([], Inr (terminalReplay s))
          else case ls_action s of
                 Act_unlink \<Rightarrow> applyPreparedUnlink env s d
               | Act_link p \<Rightarrow> applyPreparedLink env s p d)"

text \<open>The durable states a run may be interrupted in, and the one it ends in.\<close>

definition crash_points :: "durable \<Rightarrow> 'a run \<Rightarrow> durable list" where
  "crash_points d r = d # fst r"

definition final_state :: "durable \<Rightarrow> 'a run \<Rightarrow> durable" where
  "final_state d r = last (d # fst r)"

section \<open>Linking, unlinking, recovering\<close>

definition later :: "nat \<Rightarrow> lenv \<Rightarrow> lenv" where
  "later n env = env\<lparr>le_clock := (\<lambda>k. le_clock env (n + k))\<rparr>"

definition finished_as :: "durable \<Rightarrow> string \<Rightarrow> bool \<Rightarrow> string \<Rightarrow> string \<Rightarrow> lsaga option" where
  "finished_as d key link inflowId expenseId =
     find (\<lambda>s. isTerminalSaga s \<and> ls_operationIdentity s = Some key \<and> is_link s = link \<and>
       ls_inflowId s = inflowId \<and> ls_expenseId s = expenseId) (map snd (du_sagas d))"

text \<open>
  What both calls do with an operation identity before anything else: \<open>Some run\<close> answers it from what
  is stored. \<open>newId\<close> stands for the random identity of a call without one.
\<close>

definition resume ::
  "lenv \<Rightarrow> durable \<Rightarrow> string option \<Rightarrow> binding option \<Rightarrow> bool \<Rightarrow> string \<Rightarrow> string \<Rightarrow> saga_answer run option res" where
  "resume env d operationIdentity journalBinding link inflowId expenseId =
     (case or_null operationIdentity of
        None \<Rightarrow> Inr None
      | Some key \<Rightarrow>
          ebind (assertJournalAdmission d key journalBinding link) (\<lambda>_.
            case finished_as d key link inflowId expenseId of
              Some s \<Rightarrow> Inr (Some ([], Inr (answer_idempotent (terminalReplay s))))
            | None \<Rightarrow>
                (case sagasForOperationKey (du_sagas d) key of
                   s # _ \<Rightarrow> if isTerminalSaga s then Inr None else Inr (Some (drive env s d))
                 | [] \<Rightarrow> Inr None)))"

definition link_saga :: "string \<Rightarrow> string \<Rightarrow> string option \<Rightarrow> link_admission \<Rightarrow> lsaga" where
  "link_saga now key operationIdentity ad =
     \<lparr>ls_id = key, ls_phase = Prepared,
      ls_action = Act_link \<lparr>lp_allocationCents = ad_allocationCents ad, lp_person = or_null (ad_person ad),
        lp_inflowLive = ad_inflowLive ad, lp_expenseLive = ad_expenseLive ad,
        lp_allowSamePairResolution = ad_allowSamePairResolution ad\<rparr>,
      ls_operationIdentity = or_null operationIdentity, ls_accountId = Some (case lv_accountId (ad_inflowLive ad) of None \<Rightarrow> ''null'' | Some a \<Rightarrow> a),
      ls_inflowId = id_text (lv_id (ad_inflowLive ad)), ls_expenseId = id_text (lv_id (ad_expenseLive ad)),
      ls_expectedVersion = ad_expectedVersion ad, ls_idempotent = False, ls_pendingRecord = None,
      ls_resultVersion = None, ls_removed = None, ls_startedAt = now, ls_updatedAt = now, ls_terminalAt = None,
      ls_binding = None\<rparr>"

text \<open>The initial write of a saga, then its drive.\<close>

definition start_saga :: "lenv \<Rightarrow> binding option \<Rightarrow> lsaga \<Rightarrow> durable \<Rightarrow> saga_answer run" where
  "start_saga env journalBinding s d =
     (let s1 = bindJournalFields journalBinding s; d1 = writeSaga env s1 d; (ds, r) = drive env s1 d1
      in (d1 # ds, r))"

definition link ::
  "lenv \<Rightarrow> link_admission \<Rightarrow> string option \<Rightarrow> binding option \<Rightarrow> string \<Rightarrow> durable \<Rightarrow> saga_answer run" where
  "link env ad operationIdentity journalBinding newId d =
     (let i = ad_inflowLive ad; x = ad_expenseLive ad; inflowId = id_text (lv_id i); expenseId = id_text (lv_id x) in
      case le_external env (lv_accountId i) [inflowId, expenseId] of
        Inl e \<Rightarrow> ([], Inl e)
      | Inr _ \<Rightarrow>
      (case resume env d operationIdentity journalBinding True inflowId expenseId of
        Inl e \<Rightarrow> ([], Inl e)
      | Inr (Some run) \<Rightarrow> run
      | Inr None \<Rightarrow>
          let existing = find_link (du_links d) (Some inflowId) (Some expenseId) in
          (case buildExplicitLinkRecord (le_clock env 0) i x (ad_allocationCents ad) (ad_person ad) existing (ad_expectedVersion ad) of
             Inl e \<Rightarrow> ([], Inl e)
           | Inr built \<Rightarrow>
               if bl_idempotent built
               then ([], Inr (Ans_link inflowId expenseId (ad_allocationCents ad) (linkPairKey (Some inflowId) (Some expenseId))
                                (map_option linkVersion existing) True))
               else start_saga (later 2 env) journalBinding
                      (link_saga (le_clock env 1) (case or_null operationIdentity of None \<Rightarrow> newId | Some k \<Rightarrow> k)
                        operationIdentity ad) d)))"

definition unlink_saga ::
  "string \<Rightarrow> string \<Rightarrow> string option \<Rightarrow> string option \<Rightarrow> string \<Rightarrow> string \<Rightarrow> int option \<Rightarrow> lsaga" where
  "unlink_saga now key operationIdentity accountId inflowId expenseId expectedVersion =
     \<lparr>ls_id = key, ls_phase = Prepared, ls_action = Act_unlink, ls_operationIdentity = or_null operationIdentity,
      ls_accountId = accountId, ls_inflowId = inflowId, ls_expenseId = expenseId, ls_expectedVersion = expectedVersion,
      ls_idempotent = False, ls_pendingRecord = None, ls_resultVersion = None, ls_removed = None,
      ls_startedAt = now, ls_updatedAt = now, ls_terminalAt = None, ls_binding = None\<rparr>"

text \<open>Unlinking first looks for the link, so a repeated call finds none and answers at once.\<close>

definition unlink ::
  "lenv \<Rightarrow> string \<Rightarrow> string \<Rightarrow> string option \<Rightarrow> int option \<Rightarrow> string option \<Rightarrow> binding option \<Rightarrow> string \<Rightarrow> durable \<Rightarrow>
   saga_answer run" where
  "unlink env inflowId expenseId accountId expectedVersion operationIdentity journalBinding newId d =
     (case le_external env accountId [inflowId, expenseId] of
        Inl e \<Rightarrow> ([], Inl e)
      | Inr _ \<Rightarrow>
      (case find_link (du_links d) (Some inflowId) (Some expenseId) of
         None \<Rightarrow> ([], Inr (Ans_unlink 0 True))
       | Some existing \<Rightarrow>
          (case resume env d operationIdentity journalBinding False inflowId expenseId of
            Inl e \<Rightarrow> ([], Inl e)
          | Inr (Some run) \<Rightarrow> run
          | Inr None \<Rightarrow>
              start_saga (later 1 env) journalBinding
                (unlink_saga (le_clock env 0) (case or_null operationIdentity of None \<Rightarrow> newId | Some k \<Rightarrow> k) operationIdentity
                  (or_else accountId (case lk_inflow existing of None \<Rightarrow> None | Some r \<Rightarrow> or_null (rf_accountId r)))
                  inflowId expenseId expectedVersion) d)))"

text \<open>Every saga that was active at the start is driven once; the errors are collected.\<close>

fun drive_all :: "lenv \<Rightarrow> lsaga list \<Rightarrow> durable \<Rightarrow> durable list \<times> (string \<times> js_error) list" where
  "drive_all env [] d = ([], [])"
| "drive_all env (s # ss) d =
     (let r = drive env s d; rest = drive_all (later 3 env) ss (final_state d r)
      in (fst r @ fst rest, (case snd r of Inl e \<Rightarrow> [(ls_id s, e)] | Inr _ \<Rightarrow> []) @ snd rest))"

definition recover :: "lenv \<Rightarrow> durable \<Rightarrow> durable list \<times> (string \<times> js_error) list" where
  "recover env d = drive_all env (filter (\<lambda>s. \<not> isTerminalSaga s) (map snd (du_sagas d))) d"

record saga_view =
  sv_id :: string
  sv_phase :: saga_phase
  sv_link :: bool
  sv_inflowId :: string
  sv_expenseId :: string

text \<open>\<open>listNonterminalSagas\<close> before it is sorted by id.\<close>

definition listNonterminalSagas :: "durable \<Rightarrow> saga_view list" where
  "listNonterminalSagas d =
     map (\<lambda>s. \<lparr>sv_id = ls_id s, sv_phase = ls_phase s, sv_link = is_link s, sv_inflowId = ls_inflowId s, sv_expenseId = ls_expenseId s\<rparr>)
       (filter (\<lambda>s. \<not> isTerminalSaga s) (map snd (du_sagas d)))"

section \<open>Stored sagas\<close>

definition sagas_ok :: "durable \<Rightarrow> bool" where
  "sagas_ok d \<longleftrightarrow> distinct (map fst (du_sagas d)) \<and> (\<forall>(k, s)\<in>set (du_sagas d). k = ls_id s)"

lemma mset_insert_saga: "mset (insert_saga newer s xs) = add_mset s (mset xs)"
  by (induction xs) auto

lemma mset_sorted_sagas: "mset (foldr (insert_saga newer) xs []) = mset xs"
  by (induction xs) (simp_all add: mset_insert_saga)

lemma set_pruneState:
  "set (pruneState newer sagas) \<subseteq> (\<lambda>s. (ls_id s, s)) ` snd ` set sagas"
  "s \<in> snd ` set sagas \<Longrightarrow> \<not> isTerminalSaga s \<Longrightarrow> (ls_id s, s) \<in> set (pruneState newer sagas)"
proof -
  have "set (foldr (insert_saga newer) (filter isTerminalSaga (map snd sagas)) []) = set (filter isTerminalSaga (map snd sagas))"
    by (metis mset_sorted_sagas set_mset_mset)
  then show "set (pruneState newer sagas) \<subseteq> (\<lambda>s. (ls_id s, s)) ` snd ` set sagas"
    by (auto simp: pruneState_def Let_def dest!: in_set_takeD)
  show "s \<in> snd ` set sagas \<Longrightarrow> \<not> isTerminalSaga s \<Longrightarrow> (ls_id s, s) \<in> set (pruneState newer sagas)"
    by (auto simp: pruneState_def Let_def)
qed

lemma distinct_pruneState:
  assumes "distinct (map (ls_id \<circ> snd) sagas)"
  shows "distinct (map fst (pruneState newer sagas))"
proof -
  let ?T = "foldr (insert_saga newer) (filter isTerminalSaga (map snd sagas)) []"
  let ?A = "filter (\<lambda>s. \<not> isTerminalSaga s) (map snd sagas)"
  have "mset (?A @ ?T) = mset (map snd sagas)"
    by (simp add: mset_sorted_sagas)
  then have "mset (map ls_id (?A @ ?T)) = mset (map ls_id (map snd sagas))" by (metis mset_map)
  with assms have "distinct (map ls_id (?A @ ?T))" by (metis map_map mset_eq_imp_distinct_iff)
  then have "distinct (take (length ?A + TERMINAL_LIMIT) (map ls_id (?A @ ?T)))" by (rule distinct_take)
  then have "distinct (map ls_id (?A @ take TERMINAL_LIMIT ?T))" by (simp add: take_map)
  then show ?thesis by (simp add: pruneState_def Let_def comp_def)
qed

lemma set_update_subset: "set (AList.update k v al) \<subseteq> insert (k, v) (set al)"
  by (induction al) auto

lemma sagas_ok_write:
  assumes "sagas_ok d"
  shows "sagas_ok (writeSaga env s d)"
proof -
  have ids: "\<forall>(k, s)\<in>set (AList.update (ls_id s) s (du_sagas d)). k = ls_id s"
    using assms set_update_subset [of "ls_id s" s "du_sagas d"] by (auto simp: sagas_ok_def)
  have "distinct (map fst (AList.update (ls_id s) s (du_sagas d)))"
    using assms by (simp add: sagas_ok_def distinct_update)
  moreover have "map (ls_id \<circ> snd) (AList.update (ls_id s) s (du_sagas d)) = map fst (AList.update (ls_id s) s (du_sagas d))"
    using ids by (auto intro: map_cong)
  ultimately have "distinct (map (ls_id \<circ> snd) (AList.update (ls_id s) s (du_sagas d)))" by metis
  then have "distinct (map fst (du_sagas (writeSaga env s d)))"
    by (simp add: writeSaga_def distinct_pruneState)
  moreover have "\<forall>(k, s)\<in>set (du_sagas (writeSaga env s d)). k = ls_id s"
    using set_pruneState(1) by (force simp: writeSaga_def)
  ultimately show ?thesis by (simp add: sagas_ok_def)
qed

text \<open>A saga that is written is what is stored under its id; it may only be gone if it is finished.\<close>

lemma stored_after_write:
  assumes "sagas_ok d" "map_of (du_sagas (writeSaga env s d)) (ls_id s) = Some s'"
  shows "s' = s"
proof -
  from assms(2) have "(ls_id s, s') \<in> set (pruneState (le_newer env) (AList.update (ls_id s) s (du_sagas d)))"
    by (auto simp: writeSaga_def dest: map_of_SomeD)
  with set_pruneState(1) have "(ls_id s, s') \<in> (\<lambda>s. (ls_id s, s)) ` snd ` set (AList.update (ls_id s) s (du_sagas d))" by blast
  then obtain k where k: "(k, s') \<in> set (AList.update (ls_id s) s (du_sagas d))" "ls_id s' = ls_id s" by auto
  have d: "distinct (map fst (AList.update (ls_id s) s (du_sagas d)))"
    using assms(1) by (simp add: sagas_ok_def distinct_update)
  have "k = ls_id s"
  proof (cases "(k, s') = (ls_id s, s)")
    case False
    with k(1) set_update_subset [of "ls_id s" s "du_sagas d"] have "(k, s') \<in> set (du_sagas d)" by blast
    with assms(1) k(2) show ?thesis by (auto simp: sagas_ok_def)
  qed simp
  with k(1) d have "map_of (AList.update (ls_id s) s (du_sagas d)) (ls_id s) = Some s'" by (simp add: map_of_is_SomeI)
  then show ?thesis by (simp add: update_conv)
qed

lemma active_stored_after_write:
  assumes "sagas_ok d" "\<not> isTerminalSaga s"
  shows "map_of (du_sagas (writeSaga env s d)) (ls_id s) = Some s"
proof -
  have "s \<in> snd ` set (AList.update (ls_id s) s (du_sagas d))"
    by (metis map_of_SomeD update_conv fun_upd_same image_eqI snd_conv)
  with assms(2) have "(ls_id s, s) \<in> set (du_sagas (writeSaga env s d))"
    using set_pruneState(2) by (auto simp: writeSaga_def)
  with sagas_ok_write [OF assms(1)] show ?thesis by (simp add: sagas_ok_def map_of_is_SomeI)
qed

lemma stamped_simps [simp]:
  "ls_id (stamped now s) = ls_id s" "ls_phase (stamped now s) = ls_phase s" "ls_action (stamped now s) = ls_action s"
  "ls_inflowId (stamped now s) = ls_inflowId s" "ls_expenseId (stamped now s) = ls_expenseId s"
  "ls_accountId (stamped now s) = ls_accountId s" "ls_expectedVersion (stamped now s) = ls_expectedVersion s"
  "ls_idempotent (stamped now s) = ls_idempotent s" "ls_resultVersion (stamped now s) = ls_resultVersion s"
  "isTerminalSaga (stamped now s) = isTerminalSaga s" "saga_link_key (stamped now s) = saga_link_key s"
  by (simp_all add: stamped_def Let_def isTerminalSaga_def saga_link_key_def)

section \<open>Links up to their time stamps\<close>

definition link_core :: "rlink \<Rightarrow> rlink" where
  "link_core l = l\<lparr>lk_createdAt := None, lk_updatedAt := None\<rparr>"

lemma link_core_same:
  assumes "link_core l = link_core l'"
  shows "lk_allocationCents l = lk_allocationCents l'" "lk_amount l = lk_amount l'" "lk_version l = lk_version l'"
    "inflow_id l = inflow_id l'" "expense_id l = expense_id l'" "classifyStoredLink l = classifyStoredLink l'"
    "linkVersion l = linkVersion l'"
proof -
  have "lk_allocationCents (link_core l) = lk_allocationCents (link_core l')" "lk_amount (link_core l) = lk_amount (link_core l')"
    "lk_version (link_core l) = lk_version (link_core l')" "lk_inflow (link_core l) = lk_inflow (link_core l')"
    "lk_expense (link_core l) = lk_expense (link_core l')" using assms by simp_all
  then show "lk_allocationCents l = lk_allocationCents l'" "lk_amount l = lk_amount l'" "lk_version l = lk_version l'"
    "inflow_id l = inflow_id l'" "expense_id l = expense_id l'" "classifyStoredLink l = classifyStoredLink l'"
    "linkVersion l = linkVersion l'"
    by (simp_all add: link_core_def inflow_id_def expense_id_def classifyStoredLink_def linkVersion_def split: option.splits)
qed

lemma fresh_link_core:
  assumes "fresh_link now i x c person old = Inr r"
  shows "\<exists>r'. fresh_link now' i x c person old = Inr r' \<and> link_core r' = link_core r"
  using assms by (auto simp: fresh_link_def res_simps link_core_def)

lemma build_core:
  assumes "buildExplicitLinkRecord now i x c person old v = Inr b"
  shows "\<exists>b'. buildExplicitLinkRecord now' i x c person old v = Inr b' \<and> link_core (bl_record b') = link_core (bl_record b)"
proof (cases old)
  case None
  with assms obtain r where "fresh_link now i x c person None = Inr r" "b = \<lparr>bl_record = r, bl_changed = True, bl_idempotent = False\<rparr>"
    by (auto simp: buildExplicitLinkRecord_def res_simps)
  with fresh_link_core [of now i x c person None r now'] None show ?thesis by (auto simp: buildExplicitLinkRecord_def)
next
  case (Some l)
  with assms obtain cl where cl: "assertExpectedVersion l v = Inr ()" "classifyStoredLink l = Inr cl"
    by (auto simp: buildExplicitLinkRecord_def res_simps)
  show ?thesis
  proof (cases "cl_trusted cl \<and> cl_allocationCents cl = Some c")
    case True
    with assms Some cl show ?thesis by (simp add: buildExplicitLinkRecord_def)
  next
    case False
    with assms Some cl obtain r where r: "fresh_link now i x c person (Some l) = Inr r"
      "b = \<lparr>bl_record = r, bl_changed = True, bl_idempotent = False\<rparr>" and v: "\<not> (cl_trusted cl \<and> v = None)"
      by (auto simp: buildExplicitLinkRecord_def res_simps split: if_splits)
    obtain r' where "fresh_link now' i x c person (Some l) = Inr r'" "link_core r' = link_core r"
      using fresh_link_core [OF r(1)] by blast
    with False Some cl r v show ?thesis by (auto simp: buildExplicitLinkRecord_def)
  qed
qed

lemma apply_core:
  assumes "link_core r' = link_core r"
  shows "map link_core (applyLinkRecord ls r') = map link_core (applyLinkRecord ls r)"
  using link_core_same(4,5) [OF assms] by (induction ls) (simp_all add: assms)

lemma converged_apply:
  "linkRecordConverged (applyLinkRecord ls r) r = ebind (classifyStoredLink r) (\<lambda>cl.
     Inr (cl_trusted cl \<and>
       (case lk_allocationCents r of JNum n \<Rightarrow> map_option js_of_int (cl_allocationCents cl) = Some n | _ \<Rightarrow> False) \<and>
       lk_version r = Some (linkVersion r)))"
  by (simp add: linkRecordConverged_def find_apply)

lemma converged_core:
  "link_core r' = link_core r \<Longrightarrow> linkRecordConverged (applyLinkRecord ls r') r' = linkRecordConverged (applyLinkRecord ls r) r"
  unfolding converged_apply by (frule link_core_same(1), frule link_core_same(3), frule link_core_same(6), drule link_core_same(7)) simp

section \<open>Checking again after the write\<close>

lemma filter_ambiguous_Nil:
  "filter_ambiguous P ls = Inr [] \<longleftrightarrow> (\<forall>l\<in>set ls. \<exists>cl. classifyStoredLink l = Inr cl \<and> \<not> (cl_ambiguous cl \<and> P l))"
  by (induction ls) (auto simp: res_simps split: if_splits)

lemma set_apply: "set (applyLinkRecord ls r) \<subseteq> insert r (set ls)"
  by (induction ls) auto

lemma sum_links_apply:
  assumes "\<And>l. same_pair (inflow_id r, expense_id r) l \<Longrightarrow> \<not> P l"
  shows "sum_links P acc (applyLinkRecord ls r) = sum_links P acc ls"
proof (induction ls arbitrary: acc)
  case Nil
  have "same_pair (inflow_id r, expense_id r) r" by (simp add: same_pair_texts)
  with assms show ?case by simp
next
  case (Cons l ls)
  have "same_pair (inflow_id r, expense_id r) r" by (simp add: same_pair_texts)
  with assms Cons show ?case by auto
qed

lemma apply_same: "applyLinkRecord (applyLinkRecord ls r) r = applyLinkRecord ls r"
  by (induction ls) (auto simp: same_pair_texts)

lemma find_link_apply:
  assumes "id_text (inflow_id r) = id_text i" "id_text (expense_id r) = id_text x"
  shows "find_link (applyLinkRecord ls r) i x = Some r"
proof -
  have "same_pair (i, x) = same_pair (inflow_id r, expense_id r)" using assms by (auto simp: same_pair_texts fun_eq_iff)
  with find_apply [of r ls] show ?thesis by (simp add: find_link_def)
qed

lemma assertLegacy_Inr:
  "assertLegacyAmbiguityAdmission ls i x a = Inr u \<longleftrightarrow>
     ambiguousLegacyLinksOnEndpoint ls i (if a then Some (i, x) else None) = Inr [] \<and>
     ambiguousLegacyLinksOnEndpoint ls x (if a then Some (i, x) else None) = Inr []"
  by (auto simp: assertLegacyAmbiguityAdmission_def Let_def res_simps split: if_splits)

lemma assertLegacy_apply:
  assumes "assertLegacyAmbiguityAdmission ls i x a = Inr u" "classifyStoredLink r = Inr cl" "\<not> cl_ambiguous cl"
  shows "assertLegacyAmbiguityAdmission (applyLinkRecord ls r) i x a = Inr u"
  using assms set_apply [of ls r]
  unfolding assertLegacy_Inr ambiguousLegacyLinksOnEndpoint_def filter_ambiguous_Nil by blast

lemma capacity_apply:
  assumes "id_text (inflow_id r) = id_text i" "id_text (expense_id r) = id_text x"
  shows "validateLinkCapacity a ia xa (applyLinkRecord ls r) i x = validateLinkCapacity a ia xa ls i x"
proof -
  have pair: "same_pair (inflow_id r, expense_id r) = same_pair (i, x)" using assms by (auto simp: same_pair_texts fun_eq_iff)
  have "sumTrustedAllocationsForInflow (applyLinkRecord ls r) i (Some (i, x)) = sumTrustedAllocationsForInflow ls i (Some (i, x))"
    "sumTrustedAllocationsForExpense (applyLinkRecord ls r) x (Some (i, x)) = sumTrustedAllocationsForExpense ls x (Some (i, x))"
    unfolding sumTrustedAllocationsForInflow_def sumTrustedAllocationsForExpense_def
    by (rule sum_links_apply, simp add: excluded_def pair)+
  then show ?thesis by (simp only: validateLinkCapacity_def)
qed

text \<open>What a checked record of a link satisfies, and why the check succeeds again once it is written.\<close>

lemma revalidate_again:
  assumes "revalidateLinkApply e inflowId expenseId v p ls = Inr ad"
    and "id_text (inflow_id r) = id_text (lv_id (ad_inflowLive ad))" "id_text (expense_id r) = id_text (lv_id (ad_expenseLive ad))"
    and "classifyStoredLink r = Inr cl" "\<not> cl_ambiguous cl"
  shows "revalidateLinkApply e inflowId expenseId v p (applyLinkRecord ls r) = Inr (ad\<lparr>ad_existingLink := Some r\<rparr>)"
proof -
  from assms(1) obtain i x cap u where i: "locateEndpoint e inflowId (hint_of (lp_inflowLive p)) = Inr i"
    and x: "locateEndpoint e expenseId (hint_of (lp_expenseLive p)) = Inr x"
    and c: "assertReimbursementEligible x (en_reimbCategoryId e) = Inr ()"
      "assertLiveEndpointsMatchPrepared (lp_inflowLive p) (lp_expenseLive p) i x = Inr ()"
    and leg: "assertLegacyAmbiguityAdmission ls (lv_id i) (lv_id x) (lp_allowSamePairResolution p) = Inr u"
    and cap: "buildCapacityAdmission i x (lp_allocationCents p) ls = Inr cap"
    and ad: "ad = \<lparr>ad_inflowLive = i, ad_expenseLive = x, ad_allocationCents = cp_allocationCents cap, ad_person = lp_person p,
              ad_expectedVersion = v, ad_existingLink = find_link ls (lv_id i) (lv_id x), ad_allowSamePairResolution = False\<rparr>"
    by (auto simp: revalidateLinkApply_def Let_def res_simps)
  have ids: "id_text (inflow_id r) = id_text (lv_id i)" "id_text (expense_id r) = id_text (lv_id x)"
    using assms(2,3) ad by simp_all
  have "buildCapacityAdmission i x (lp_allocationCents p) (applyLinkRecord ls r) = Inr cap"
    using cap by (simp add: buildCapacityAdmission_def capacity_apply [OF ids])
  with assertLegacy_apply [OF leg assms(4,5)] find_link_apply [OF ids, of ls] i x c ad show ?thesis
    by (simp add: revalidateLinkApply_def Let_def)
qed

text \<open>A record that was built and converges allocates what was asked for, to the pair it was built for.\<close>

lemma built_record:
  assumes "buildExplicitLinkRecord now i x c person (find_link ls (lv_id i) (lv_id x)) v = Inr b"
    and "linkRecordConverged (applyLinkRecord ls (bl_record b)) (bl_record b) = Inr True"
  shows "\<exists>cl. classifyStoredLink (bl_record b) = Inr cl \<and> cl_trusted cl \<and> \<not> cl_ambiguous cl \<and> cl_allocationCents cl = Some c \<and>
    id_text (inflow_id (bl_record b)) = id_text (lv_id i) \<and> id_text (expense_id (bl_record b)) = id_text (lv_id x) \<and>
    lk_version (bl_record b) = Some (linkVersion (bl_record b))"
proof -
  let ?old = "find_link ls (lv_id i) (lv_id x)" and ?r = "bl_record b"
  from assms(2) obtain cl where cl: "classifyStoredLink ?r = Inr cl" "cl_trusted cl" "lk_version ?r = Some (linkVersion ?r)"
    by (auto simp: converged_apply res_simps)
  have "\<not> cl_ambiguous cl" using classify_cases [OF cl(1)] cl(2) by auto
  moreover have "cl_allocationCents cl = Some c \<and> id_text (inflow_id ?r) = id_text (lv_id i) \<and>
      id_text (expense_id ?r) = id_text (lv_id x)"
  proof (cases "fresh_link now i x c person ?old = Inr ?r")
    case True
    note F = fresh_link_Inr [OF True]
    then have "cl = (if c \<le> 0 then ambiguous_as ''invalid_stored_cents'' else trusted_as c ''explicit_cents'')"
      using cl(1) by (simp add: classifyStoredLink_def del: requireSafeCents.simps)
    with F cl(2) show ?thesis by (auto split: if_splits)
  next
    case False
    with assms(1) obtain l where l: "?old = Some l" "?r = l" "\<exists>cl. classifyStoredLink l = Inr cl \<and> cl_allocationCents cl = Some c"
      by (auto simp: buildExplicitLinkRecord_def res_simps split: option.splits if_splits)
    then have "same_pair (lv_id i, lv_id x) l" by (auto simp: find_link_def dest: find_SomeD)
    with l cl(1) show ?thesis by (auto simp: same_pair_texts)
  qed
  ultimately show ?thesis using cl by blast
qed

lemma apply_link_Inr:
  "applyPreparedLink env s p d = (ds, Inr ans) \<longleftrightarrow>
    (\<exists>ad b. revalidateLinkApply (le_engine env) (ls_inflowId s) (ls_expenseId s) (ls_expectedVersion s) p (du_links d) = Inr ad \<and>
      buildExplicitLinkRecord (le_clock env 0) (ad_inflowLive ad) (ad_expenseLive ad) (ad_allocationCents ad) (ad_person ad)
        (ad_existingLink ad) (ad_expectedVersion ad) = Inr b \<and>
      linkRecordConverged (applyLinkRecord (du_links d) (bl_record b)) (bl_record b) = Inr True \<and>
      (let r = bl_record b;
           s1 = stamped (le_clock env 1) (s\<lparr>ls_phase := Links_pending, ls_pendingRecord := Some r\<rparr>);
           d1 = writeSaga env s1 d; d2 = d1\<lparr>du_links := applyLinkRecord (du_links d) r\<rparr>;
           s2 = stamped (le_clock env 2) (s1\<lparr>ls_phase := Completed, ls_pendingRecord := None, ls_resultVersion := lk_version r\<rparr>)
       in ds = [d1, d2, writeSaga env s2 d2] \<and>
          ans = Ans_link (ls_inflowId s) (ls_expenseId s) (lp_allocationCents p) (saga_link_key s) (lk_version r) (ls_idempotent s)))"
  by (auto simp: applyPreparedLink_def Let_def res_simps split: sum.splits bool.splits)

lemma du_links_write [simp]: "du_links (writeSaga env s d) = du_links d"
  by (simp add: writeSaga_def)

lemma du_sagas_write [simp]: "du_sagas (writeSaga env s (d\<lparr>du_links := ls\<rparr>)) = du_sagas (writeSaga env s d)"
  by (simp add: writeSaga_def)

section \<open>Recovery\<close>

definition same_saga :: "lsaga \<Rightarrow> lsaga \<Rightarrow> bool" where
  "same_saga s s' \<longleftrightarrow> ls_action s' = ls_action s \<and> ls_inflowId s' = ls_inflowId s \<and> ls_expenseId s' = ls_expenseId s \<and>
     ls_expectedVersion s' = ls_expectedVersion s \<and> ls_idempotent s' = ls_idempotent s \<and> ls_accountId s' = ls_accountId s \<and>
     saga_link_key s' = saga_link_key s"

lemma same_saga_checkpoint [simp]:
  "same_saga s s" "same_saga s (stamped now (s\<lparr>ls_phase := ph, ls_pendingRecord := r\<rparr>))"
  by (simp_all add: same_saga_def saga_link_key_def)

lemma link_from_before:
  assumes "applyPreparedLink env s p d = (ds, Inr ans)" "same_saga s s'" "du_links d' = du_links d" "le_engine env' = le_engine env"
  shows "\<exists>ds'. applyPreparedLink env' s' p d' = (ds', Inr ans) \<and>
    map link_core (du_links (last (d' # ds'))) = map link_core (du_links (last (d # ds)))"
proof -
  obtain ad b where ad: "revalidateLinkApply (le_engine env) (ls_inflowId s) (ls_expenseId s) (ls_expectedVersion s) p (du_links d) = Inr ad"
    and b: "buildExplicitLinkRecord (le_clock env 0) (ad_inflowLive ad) (ad_expenseLive ad) (ad_allocationCents ad) (ad_person ad)
        (ad_existingLink ad) (ad_expectedVersion ad) = Inr b"
    and conv: "linkRecordConverged (applyLinkRecord (du_links d) (bl_record b)) (bl_record b) = Inr True"
    and ds: "du_links (last (d # ds)) = applyLinkRecord (du_links d) (bl_record b)"
    and ans: "ans = Ans_link (ls_inflowId s) (ls_expenseId s) (lp_allocationCents p) (saga_link_key s) (lk_version (bl_record b)) (ls_idempotent s)"
    using assms(1) by (auto simp: apply_link_Inr Let_def)
  obtain b' where b': "buildExplicitLinkRecord (le_clock env' 0) (ad_inflowLive ad) (ad_expenseLive ad) (ad_allocationCents ad) (ad_person ad)
        (ad_existingLink ad) (ad_expectedVersion ad) = Inr b'" and core: "link_core (bl_record b') = link_core (bl_record b)"
    using build_core [OF b] by blast
  have conv': "linkRecordConverged (applyLinkRecord (du_links d) (bl_record b')) (bl_record b') = Inr True"
    using conv converged_core [OF core] by simp
  have "\<exists>ds'. applyPreparedLink env' s' p d' = (ds', Inr ans) \<and> du_links (last (d' # ds')) = applyLinkRecord (du_links d) (bl_record b')"
    using ad b' conv' assms(2-4) ans link_core_same(3) [OF core]
    by (auto simp: apply_link_Inr Let_def same_saga_def intro!: exI [of _ ad] exI [of _ b'])
  with ds apply_core [OF core] show ?thesis by metis
qed

lemma link_from_after:
  assumes "applyPreparedLink env s p d = (ds, Inr ans)" "same_saga s s'" "du_links d' = du_links (last (d # ds))"
    and "le_engine env' = le_engine env" "ls_expectedVersion s = None"
  shows "\<exists>ds'. applyPreparedLink env' s' p d' = (ds', Inr ans) \<and> du_links (last (d' # ds')) = du_links (last (d # ds))"
proof -
  obtain ad b where ad: "revalidateLinkApply (le_engine env) (ls_inflowId s) (ls_expenseId s) None p (du_links d) = Inr ad"
    and b: "buildExplicitLinkRecord (le_clock env 0) (ad_inflowLive ad) (ad_expenseLive ad) (ad_allocationCents ad) (ad_person ad)
        (ad_existingLink ad) (ad_expectedVersion ad) = Inr b"
    and conv: "linkRecordConverged (applyLinkRecord (du_links d) (bl_record b)) (bl_record b) = Inr True"
    and ds: "du_links (last (d # ds)) = applyLinkRecord (du_links d) (bl_record b)"
    and ans: "ans = Ans_link (ls_inflowId s) (ls_expenseId s) (lp_allocationCents p) (saga_link_key s) (lk_version (bl_record b)) (ls_idempotent s)"
    using assms(1,5) by (auto simp: apply_link_Inr Let_def)
  let ?r = "bl_record b"
  have find: "ad_existingLink ad = find_link (du_links d) (lv_id (ad_inflowLive ad)) (lv_id (ad_expenseLive ad))"
    and noversion: "ad_expectedVersion ad = None"
    using ad by (auto simp: revalidateLinkApply_def Let_def res_simps)
  obtain cl where cl: "classifyStoredLink ?r = Inr cl" "cl_trusted cl" "\<not> cl_ambiguous cl"
    "cl_allocationCents cl = Some (ad_allocationCents ad)" "id_text (inflow_id ?r) = id_text (lv_id (ad_inflowLive ad))"
    "id_text (expense_id ?r) = id_text (lv_id (ad_expenseLive ad))"
    using built_record [OF b [unfolded find] conv] by blast
  have ad': "revalidateLinkApply (le_engine env) (ls_inflowId s) (ls_expenseId s) None p (applyLinkRecord (du_links d) ?r) =
    Inr (ad\<lparr>ad_existingLink := Some ?r\<rparr>)"
    using revalidate_again [OF ad cl(5,6,1,3)] .
  have b': "buildExplicitLinkRecord now (ad_inflowLive ad) (ad_expenseLive ad) (ad_allocationCents ad) (ad_person ad) (Some ?r) None =
    Inr \<lparr>bl_record = ?r, bl_changed = False, bl_idempotent = True\<rparr>" for now
    using cl by (simp add: buildExplicitLinkRecord_def assertExpectedVersion_def)
  show ?thesis
    using ad' b' conv assms(2-5) ds ans noversion
    by (auto simp: apply_link_Inr Let_def same_saga_def apply_same
      intro!: exI [of _ "ad\<lparr>ad_existingLink := Some ?r\<rparr>"] exI [of _ "\<lparr>bl_record = ?r, bl_changed = False, bl_idempotent = True\<rparr>"])
qed

lemma interrupted_link:
  assumes d: "sagas_ok d" "map_of (du_sagas d) (ls_id s) = Some s"
    and s: "ls_action s = Act_link p" "\<not> isTerminalSaga s" "ls_expectedVersion s = None"
    and run: "drive env s d = (ds, Inr ans)"
    and crash: "d' \<in> set (crash_points d (drive env s d))" "map_of (du_sagas d') (ls_id s) = Some s'"
    and env: "le_engine env' = le_engine env" "le_external env' = le_external env"
  shows "\<exists>ds'. drive env' s' d' = (ds', Inr ans) \<and>
    map link_core (du_links (last (d' # ds'))) = map link_core (du_links (last (d # ds)))"
proof -
  from run s have ext: "\<exists>u. le_external env (ls_accountId s) [ls_inflowId s, ls_expenseId s] = Inr u"
    and app: "applyPreparedLink env s p d = (ds, Inr ans)"
    by (auto simp: drive_def split: sum.splits)
  obtain r where ds: "ds = (let s1 = stamped (le_clock env 1) (s\<lparr>ls_phase := Links_pending, ls_pendingRecord := Some r\<rparr>);
           d1 = writeSaga env s1 d; d2 = d1\<lparr>du_links := applyLinkRecord (du_links d) r\<rparr>;
           s2 = stamped (le_clock env 2) (s1\<lparr>ls_phase := Completed, ls_pendingRecord := None, ls_resultVersion := lk_version r\<rparr>)
       in [d1, d2, writeSaga env s2 d2])"
    and ans: "ans = Ans_link (ls_inflowId s) (ls_expenseId s) (lp_allocationCents p) (saga_link_key s) (lk_version r) (ls_idempotent s)"
    using app by (auto simp: apply_link_Inr Let_def)
  define s1 where "s1 = stamped (le_clock env 1) (s\<lparr>ls_phase := Links_pending, ls_pendingRecord := Some r\<rparr>)"
  define s2 where "s2 = stamped (le_clock env 2) (s1\<lparr>ls_phase := Completed, ls_pendingRecord := None, ls_resultVersion := lk_version r\<rparr>)"
  define d1 where "d1 = writeSaga env s1 d"
  define d2 where "d2 = d1\<lparr>du_links := applyLinkRecord (du_links d) r\<rparr>"
  have ds: "ds = [d1, d2, writeSaga env s2 d2]" using ds by (simp add: d1_def d2_def s1_def s2_def Let_def)
  have s1: "ls_id s1 = ls_id s" "\<not> isTerminalSaga s1" "same_saga s s1" "ls_action s1 = Act_link p"
    using s by (simp_all add: s1_def isTerminalSaga_def)
  have ok1: "sagas_ok d1" using sagas_ok_write [OF d(1)] by (simp add: d1_def)
  then have ok2: "sagas_ok d2" by (simp add: sagas_ok_def d2_def)
  have go: "drive env' x y = applyPreparedLink env' x p y" if "same_saga s x" "\<not> isTerminalSaga x" for x y
    using that ext env s by (auto simp: drive_def same_saga_def)
  have "d' = d \<or> d' = d1 \<or> d' = d2 \<or> d' = writeSaga env s2 d2" using crash(1) run ds by (auto simp: crash_points_def)
  then show ?thesis
  proof (elim disjE)
    assume "d' = d"
    with crash(2) d(2) have "s' = s" by simp
    with go s link_from_before [OF app, of s d env'] env \<open>d' = d\<close> show ?thesis by simp
  next
    assume "d' = d1"
    with stored_after_write [OF d(1), of env s1 s'] crash(2) s1(1) have "s' = s1" by (simp add: d1_def)
    with go s1 link_from_before [OF app s1(3), of d1 env'] env \<open>d' = d1\<close> show ?thesis by (simp add: d1_def)
  next
    assume d': "d' = d2"
    with stored_after_write [OF d(1), of env s1 s'] crash(2) s1(1) have "s' = s1" by (simp add: d1_def d2_def)
    moreover have "du_links d2 = du_links (last (d # ds))" by (simp add: ds d2_def)
    ultimately show ?thesis using go s1 link_from_after [OF app s1(3) _ env(1) s(3), of d2] d' by auto
  next
    assume d': "d' = writeSaga env s2 d2"
    have "s' = s2" using stored_after_write [OF ok2, of env s2 s'] crash(2) s1(1) d' by (simp add: s2_def)
    moreover have "drive env' s2 d' = ([], Inr (terminalReplay s2))"
      using ext env s1(3) by (auto simp: drive_def s2_def isTerminalSaga_def same_saga_def)
    moreover have "ls_action s2 = Act_link p" "same_saga s s2" "ls_resultVersion s2 = lk_version r"
      using s1(3,4) by (simp_all add: s2_def same_saga_def saga_link_key_def)
    then have "terminalReplay s2 = ans" by (simp add: terminalReplay_def ans same_saga_def s(1))
    ultimately show ?thesis using d' ds by simp
  qed
qed

text \<open>An interrupted saga stays stored until it has finished, so recovery finds it.\<close>

lemma interrupted_stays_active:
  assumes "sagas_ok d" "map_of (du_sagas d) (ls_id s) = Some s" "ls_action s = Act_link p" "\<not> isTerminalSaga s"
    and "drive env s d = (ds, Inr ans)" "d' \<in> set (butlast (d # ds))"
  shows "\<exists>s'. map_of (du_sagas d') (ls_id s) = Some s' \<and> \<not> isTerminalSaga s' \<and> ls_inflowId s' = ls_inflowId s \<and>
    ls_expenseId s' = ls_expenseId s"
proof -
  from assms(3-5) have app: "applyPreparedLink env s p d = (ds, Inr ans)"
    by (auto simp: drive_def split: sum.splits)
  then obtain r d3 where ds: "ds = (let s1 = stamped (le_clock env 1) (s\<lparr>ls_phase := Links_pending, ls_pendingRecord := Some r\<rparr>);
           d1 = writeSaga env s1 d in [d1, d1\<lparr>du_links := applyLinkRecord (du_links d) r\<rparr>, d3])"
    by (auto simp: apply_link_Inr Let_def)
  let ?s1 = "stamped (le_clock env 1) (s\<lparr>ls_phase := Links_pending, ls_pendingRecord := Some r\<rparr>)"
  have "\<not> isTerminalSaga ?s1" by (simp add: isTerminalSaga_def)
  from active_stored_after_write [OF assms(1) this, of env]
  have "map_of (du_sagas (writeSaga env ?s1 d)) (ls_id s) = Some ?s1" by simp
  with \<open>\<not> isTerminalSaga ?s1\<close> assms(2,4,6) ds show ?thesis by (auto simp: Let_def)
qed

text \<open>
  A saga that names a version is another matter. Once its record is written, the link carries the
  next version, and the check of the expected version fails before anything notices that the record
  is already there.
\<close>

lemma versioned_link_stuck:
  assumes run: "applyPreparedLink env s p d = (ds, Inr ans)" and v: "ls_expectedVersion s = Some v"
    and changed: "ans = Ans_link i x c k (Some w) idem" "w \<noteq> v"
    and "same_saga s s'" "du_links d' = du_links (last (d # ds))" "le_engine env' = le_engine env"
  shows "applyPreparedLink env' s' p d' = ([], Inl linkStale)"
proof -
  obtain ad b where ad: "revalidateLinkApply (le_engine env) (ls_inflowId s) (ls_expenseId s) (Some v) p (du_links d) = Inr ad"
    and b: "buildExplicitLinkRecord (le_clock env 0) (ad_inflowLive ad) (ad_expenseLive ad) (ad_allocationCents ad) (ad_person ad)
        (ad_existingLink ad) (ad_expectedVersion ad) = Inr b"
    and conv: "linkRecordConverged (applyLinkRecord (du_links d) (bl_record b)) (bl_record b) = Inr True"
    and ds: "du_links (last (d # ds)) = applyLinkRecord (du_links d) (bl_record b)"
    and w: "lk_version (bl_record b) = Some w"
    using run v changed by (auto simp: apply_link_Inr Let_def)
  let ?r = "bl_record b"
  have find: "ad_existingLink ad = find_link (du_links d) (lv_id (ad_inflowLive ad)) (lv_id (ad_expenseLive ad))"
    and version: "ad_expectedVersion ad = Some v"
    using ad by (auto simp: revalidateLinkApply_def Let_def res_simps)
  obtain cl where cl: "classifyStoredLink ?r = Inr cl" "\<not> cl_ambiguous cl" "id_text (inflow_id ?r) = id_text (lv_id (ad_inflowLive ad))"
    "id_text (expense_id ?r) = id_text (lv_id (ad_expenseLive ad))" "lk_version ?r = Some (linkVersion ?r)"
    using built_record [OF b [unfolded find] conv] by blast
  have "revalidateLinkApply (le_engine env) (ls_inflowId s) (ls_expenseId s) (Some v) p (applyLinkRecord (du_links d) ?r) =
    Inr (ad\<lparr>ad_existingLink := Some ?r\<rparr>)"
    using revalidate_again [OF ad cl(3,4,1,2)] .
  moreover have "assertExpectedVersion ?r (Some v) = Inl linkStale" using cl(5) w changed(2) by (simp add: assertExpectedVersion_def)
  ultimately show ?thesis
    using assms(5-7) ds v version by (simp add: applyPreparedLink_def same_saga_def buildExplicitLinkRecord_def)
qed

section \<open>Capacity under every interleaving of calls and crashes\<close>

definition engine_amount :: "engine \<Rightarrow> string \<Rightarrow> int" where
  "engine_amount e target = (case first_account (en_accounts e) target of None \<Rightarrow> 0 | Some (_, l) \<Rightarrow> tr_amount (lo_transaction l))"

lemma locateExact_id: "locateExactTransactionId rows target = Some l \<Longrightarrow> id_text (tr_id (lo_transaction l)) = target"
  by (induction rows target rule: locateExactTransactionId.induct)
    (auto simp: sameTransactionId_def enrichSplitLeg_def dest!: find_SomeD split: if_splits option.splits)

lemma first_account_id: "first_account accts target = Some (a, l) \<Longrightarrow> id_text (tr_id (lo_transaction l)) = target"
  by (induction accts target rule: first_account.induct) (auto dest: locateExact_id split: option.splits)

lemma locateEndpoint_Inr:
  "locateEndpoint e target h = Inr live \<Longrightarrow> lv_id live = Some target \<and> lv_amountCents live = engine_amount e target"
  by (auto simp: locateEndpoint_def locateTransactionLive_def engine_amount_def enrichLocated_def Let_def
    dest: first_account_id split: option.splits prod.splits)

lemma apply_found: "find (same_pair (inflow_id l, expense_id l)) ls = Some l \<Longrightarrow> applyLinkRecord ls l = ls"
  by (induction ls) (auto split: if_splits)

abbreviation links_within :: "engine \<Rightarrow> durable \<Rightarrow> bool" where
  "links_within e d \<equiv> within_capacity (engine_amount e) (\<lambda>x. - engine_amount e x) (du_links d)"

lemma checked_link_within:
  assumes w: "within_capacity (engine_amount e) (\<lambda>x. - engine_amount e x) ls"
    and ad: "revalidateLinkApply e inflowId expenseId v p ls = Inr ad"
    and b: "buildExplicitLinkRecord now (ad_inflowLive ad) (ad_expenseLive ad) (ad_allocationCents ad) (ad_person ad)
      (ad_existingLink ad) (ad_expectedVersion ad) = Inr b"
  shows "within_capacity (engine_amount e) (\<lambda>x. - engine_amount e x) (applyLinkRecord ls (bl_record b))"
proof -
  obtain i x cap where i: "locateEndpoint e inflowId (hint_of (lp_inflowLive p)) = Inr i"
    and x: "locateEndpoint e expenseId (hint_of (lp_expenseLive p)) = Inr x"
    and cap: "buildCapacityAdmission i x (lp_allocationCents p) ls = Inr cap"
    and ad': "ad_inflowLive ad = i" "ad_expenseLive ad = x" "ad_allocationCents ad = cp_allocationCents cap"
      "ad_existingLink ad = find_link ls (lv_id i) (lv_id x)"
    using ad by (auto simp: revalidateLinkApply_def Let_def res_simps)
  note V = validate_Inr [OF cap [unfolded buildCapacityAdmission_def]]
  show ?thesis
  proof (cases "fresh_link now i x (cp_allocationCents cap) (ad_person ad) (ad_existingLink ad) = Inr (bl_record b)")
    case True
    note F = fresh_link_Inr [OF True]
    show ?thesis
    proof (rule apply_within_capacity [OF w cap [unfolded buildCapacityAdmission_def]])
      show "cp_inflowCapCents cap = engine_amount e (id_text (lv_id i))"
        using V locateEndpoint_Inr [OF i] by (auto simp: amount_of_def split: if_splits)
      show "cp_expenseCapCents cap = - engine_amount e (id_text (lv_id x))"
        using V locateEndpoint_Inr [OF x] by (auto simp: amount_of_def split: if_splits)
    qed (use F V in auto)
  next
    case False
    with b ad' obtain l where l: "find_link ls (lv_id i) (lv_id x) = Some l" "bl_record b = l"
      by (auto simp: buildExplicitLinkRecord_def res_simps split: option.splits if_splits)
    then have "same_pair (lv_id i, lv_id x) l" by (auto simp: find_link_def dest: find_SomeD)
    then have "same_pair (lv_id i, lv_id x) = same_pair (inflow_id l, expense_id l)" by (auto simp: same_pair_texts fun_eq_iff)
    with l have "applyLinkRecord ls l = ls" by (intro apply_found) (simp add: find_link_def)
    with w l show ?thesis by simp
  qed
qed

lemma drive_within:
  assumes "links_within (le_engine env) d" "d' \<in> set (crash_points d (drive env s d))"
  shows "links_within (le_engine env) d'"
proof -
  have rm: "links_within (le_engine env) (x\<lparr>du_links := fst (removeLinkRecord (du_links d) i e)\<rparr>)" for x i e
    using remove_within_capacity [OF assms(1)] by simp
  show ?thesis
  proof (cases "\<exists>p. ls_action s = Act_link p \<and> drive env s d = applyPreparedLink env s p d")
    case True
    then obtain p where p: "drive env s d = applyPreparedLink env s p d" by blast
    show ?thesis
    proof (cases "ebind (revalidateLinkApply (le_engine env) (ls_inflowId s) (ls_expenseId s) (ls_expectedVersion s) p (du_links d))
             (\<lambda>ad. buildExplicitLinkRecord (le_clock env 0) (ad_inflowLive ad) (ad_expenseLive ad)
                     (ad_allocationCents ad) (ad_person ad) (ad_existingLink ad) (ad_expectedVersion ad))")
      case (Inl e)
      with p assms show ?thesis by (simp add: crash_points_def applyPreparedLink_def)
    next
      case (Inr b)
      then obtain ad where "revalidateLinkApply (le_engine env) (ls_inflowId s) (ls_expenseId s) (ls_expectedVersion s) p (du_links d) = Inr ad"
        "buildExplicitLinkRecord (le_clock env 0) (ad_inflowLive ad) (ad_expenseLive ad) (ad_allocationCents ad) (ad_person ad)
          (ad_existingLink ad) (ad_expectedVersion ad) = Inr b" by (auto simp: res_simps)
      from checked_link_within [OF assms(1) this] Inr p assms show ?thesis
        by (auto simp: crash_points_def applyPreparedLink_def Let_def split: sum.splits bool.splits)
    qed
  next
    case False
    with assms rm show ?thesis
      by (auto simp: crash_points_def drive_def applyPreparedUnlink_def Let_def removeLinkRecord_def
        split: sum.splits saga_action.splits if_splits option.splits)
  qed
qed

lemma sagas_ok_links [simp]: "sagas_ok (d\<lparr>du_links := ls\<rparr>) = sagas_ok d"
  by (simp add: sagas_ok_def)

lemma drive_sagas_ok:
  assumes "sagas_ok d" "d' \<in> set (crash_points d (drive env s d))"
  shows "sagas_ok d'"
  using assms
  by (auto simp: crash_points_def drive_def applyPreparedLink_def applyPreparedUnlink_def Let_def sagas_ok_write
    split: sum.splits saga_action.splits if_splits option.splits bool.splits prod.splits)

text \<open>An invariant of single drives is one of every call.\<close>

lemma last_crash_point: "last (d # fst r) \<in> set (crash_points d r)"
  unfolding crash_points_def by (rule last_in_set) simp

lemma resume_drives:
  assumes "resume env d op bind lk i x = Inr (Some run)"
  shows "fst run = [] \<or> (\<exists>s. run = drive env s d)"
  using assms by (auto simp: resume_def res_simps split: option.splits list.splits if_splits)

lemma call_invariant:
  assumes drive: "\<And>clock s d d'. \<lbrakk>I d; d' \<in> set (crash_points d (drive (env\<lparr>le_clock := clock\<rparr>) s d))\<rbrakk> \<Longrightarrow> I d'"
    and wr: "\<And>clock s d. I d \<Longrightarrow> I (writeSaga (env\<lparr>le_clock := clock\<rparr>) s d)"
    and d: "I d"
  shows "d' \<in> set (crash_points d (link env ad op bind newId d)) \<Longrightarrow> I d'"
    and "d' \<in> set (crash_points d (unlink env i x acct v op bind newId d)) \<Longrightarrow> I d'"
    and "d' \<in> set (d # fst (recover env d)) \<Longrightarrow> I d'"
proof -
  have self: "env = env\<lparr>le_clock := le_clock env\<rparr>" by simp
  have start: "I d'" if "d' \<in> set (crash_points d (start_saga (later n env) bind s d))" for n s d'
    using that drive [of "writeSaga (later n env) (bindJournalFields bind s) d" d' "\<lambda>k. le_clock env (n + k)" "bindJournalFields bind s"]
      wr [OF d] d by (auto simp: start_saga_def crash_points_def later_def Let_def split: prod.splits)
  have resumed: "I d'" if "resume env d op bind lk a b = Inr (Some run)" "d' \<in> set (crash_points d run)" for lk a b run d'
    using resume_drives [OF that(1)] that(2) d drive [OF d, of d' "le_clock env"] by (auto simp: crash_points_def)
  show "I d'" if "d' \<in> set (crash_points d (link env ad op bind newId d))"
    using that d start resumed unfolding link_def Let_def
    by (auto split: sum.splits option.splits if_splits simp: crash_points_def)
  show "I d'" if "d' \<in> set (crash_points d (unlink env i x acct v op bind newId d))"
    using that d start resumed unfolding unlink_def
    by (auto split: sum.splits option.splits if_splits simp: crash_points_def)
  have all: "I d'" if "I d0" "d' \<in> set (d0 # fst (drive_all (later n env) ss d0))" for n ss d0 d'
    using that
  proof (induction ss arbitrary: n d0)
    case (Cons s ss)
    have c: "later n env = env\<lparr>le_clock := \<lambda>k. le_clock env (n + k)\<rparr>" by (simp add: later_def)
    have l: "later 3 (later n env) = later (n + 3) env" by (simp add: later_def add.assoc)
    have "I (final_state d0 (drive (later n env) s d0))"
      using drive [OF Cons.prems(1)] last_crash_point unfolding c final_state_def by blast
    with Cons.IH [of _ "n + 3"] Cons.prems drive [OF Cons.prems(1), of d' "\<lambda>k. le_clock env (n + k)" s] show ?case
      by (auto simp: Let_def l c [symmetric] crash_points_def)
  qed simp
  have "later 0 env = env" by (simp add: later_def)
  with all [OF d, of d' 0] show "d' \<in> set (d # fst (recover env d)) \<Longrightarrow> I d'" by (simp add: recover_def)
qed

text \<open>
  The durable states of a server whose engine shows the same transactions: calls with any
  admission, interrupted anywhere, and recoveries.
\<close>

inductive reimb_reach :: "engine \<Rightarrow> durable \<Rightarrow> bool" for e where
  reach_empty: "reimb_reach e \<lparr>du_links = [], du_sagas = []\<rparr>"
| reach_link: "\<lbrakk>reimb_reach e d; le_engine env = e; d' \<in> set (crash_points d (link env ad op bind newId d))\<rbrakk> \<Longrightarrow> reimb_reach e d'"
| reach_unlink: "\<lbrakk>reimb_reach e d; le_engine env = e; d' \<in> set (crash_points d (unlink env i x acct v op bind newId d))\<rbrakk> \<Longrightarrow>
    reimb_reach e d'"
| reach_recover: "\<lbrakk>reimb_reach e d; le_engine env = e; d' \<in> set (d # fst (recover env d))\<rbrakk> \<Longrightarrow> reimb_reach e d'"

definition store_ok :: "engine \<Rightarrow> durable \<Rightarrow> bool" where
  "store_ok e d \<longleftrightarrow> links_within e d \<and> sagas_ok d"

lemma drive_store_ok:
  assumes "store_ok (le_engine env) d" "d' \<in> set (crash_points d (drive (env\<lparr>le_clock := clock\<rparr>) s d))"
  shows "store_ok (le_engine env) d'"
  using assms drive_within [of "env\<lparr>le_clock := clock\<rparr>" d d' s] drive_sagas_ok [of d d' "env\<lparr>le_clock := clock\<rparr>" s]
  by (simp add: store_ok_def)

lemma write_store_ok: "store_ok e d \<Longrightarrow> store_ok e (writeSaga env s d)"
  by (simp add: store_ok_def sagas_ok_write)

lemma reimb_reach_invariant: "reimb_reach e d \<Longrightarrow> store_ok e d"
proof (induction rule: reimb_reach.induct)
  case reach_empty
  show ?case by (simp add: store_ok_def within_capacity_def one_link_per_pair_def sagas_ok_def)
next
  case (reach_link d env d' ad op bind newId)
  with call_invariant(1) [of "store_ok e" env, OF _ _ reach_link(4,3)] drive_store_ok write_store_ok show ?case by blast
next
  case (reach_unlink d env d' i x acct v op bind newId)
  with call_invariant(2) [of "store_ok e" env, OF _ _ reach_unlink(4,3)] drive_store_ok write_store_ok show ?case by blast
next
  case (reach_recover d env d')
  with call_invariant(3) [of "store_ok e" env, OF _ _ reach_recover(4,3)] drive_store_ok write_store_ok show ?case by blast
qed

section \<open>An example\<close>

definition demo_row :: "string \<Rightarrow> int \<Rightarrow> string option \<Rightarrow> txn_row" where
  "demo_row i c cat = \<lparr>tr_id = Some i, tr_parent_id = None, tr_date = Some ''2026-01-01'', tr_amount = c, tr_payee = None,
     tr_imported_payee = None, tr_imported = None, tr_category = cat, tr_account = None, tr_accountId = None, tr_accountName = None\<rparr>"

definition demo_engine :: engine where
  "demo_engine = \<lparr>en_accounts = [(''checking'', [(demo_row ''in'' 5000 None, []), (demo_row ''ex'' (- 3000) (Some ''reimb''), [])])],
     en_payeeNames = (\<lambda>_. None), en_reimbCategoryId = Some ''reimb''\<rparr>"

definition link_demo_env :: lenv where
  "link_demo_env = \<lparr>le_engine = demo_engine, le_clock = (\<lambda>_. ''2026-01-02''), le_newer = (\<lambda>_ _. False), le_external = (\<lambda>_ _. Inr ())\<rparr>"

definition demo_live :: "txn_row \<Rightarrow> live_txn" where
  "demo_live r = enrichLocated ''checking'' \<lparr>lo_transaction = r, lo_parent = None, lo_isLeg = False\<rparr> (\<lambda>_. None) no_hint"

definition demo_inflow :: live_txn where "demo_inflow = demo_live (demo_row ''in'' 5000 None)"
definition demo_expense :: live_txn where "demo_expense = demo_live (demo_row ''ex'' (- 3000) (Some ''reimb''))"

definition demo_plan :: link_plan where
  "demo_plan = \<lparr>lp_allocationCents = 2500, lp_person = None, lp_inflowLive = demo_inflow, lp_expenseLive = demo_expense,
     lp_allowSamePairResolution = False\<rparr>"

definition demo_saga :: "int option \<Rightarrow> lsaga" where
  "demo_saga v = \<lparr>ls_id = ''op'', ls_phase = Prepared, ls_action = Act_link demo_plan, ls_operationIdentity = Some ''op'',
     ls_accountId = Some ''checking'', ls_inflowId = ''in'', ls_expenseId = ''ex'', ls_expectedVersion = v, ls_idempotent = False,
     ls_pendingRecord = None, ls_resultVersion = None, ls_removed = None, ls_startedAt = ''2026-01-02'',
     ls_updatedAt = ''2026-01-02'', ls_terminalAt = None, ls_binding = None\<rparr>"

definition demo_ref :: "string \<Rightarrow> txn_ref" where
  "demo_ref i = \<lparr>rf_id = Some i, rf_date = None, rf_payee = [], rf_amount = JNull, rf_amountCents = JUndef, rf_accountId = None,
     rf_account = [], rf_imported = False, rf_categoryId = None, rf_category = None\<rparr>"

definition demo_link :: rlink where
  "demo_link = \<lparr>lk_linkKey = None, lk_inflow = Some (demo_ref ''in''), lk_expense = Some (demo_ref ''ex''),
     lk_allocationCents = JNum (js_of_int 1000), lk_amount = JNull, lk_person = None, lk_version = Some 1, lk_createdAt = None,
     lk_updatedAt = None\<rparr>"

definition demo_admission :: "int option \<Rightarrow> rlink option \<Rightarrow> link_admission" where
  "demo_admission v l = \<lparr>ad_inflowLive = demo_inflow, ad_expenseLive = demo_expense, ad_allocationCents = 2500, ad_person = None,
     ad_expectedVersion = v, ad_existingLink = l, ad_allowSamePairResolution = False\<rparr>"

definition demo_store :: "int option \<Rightarrow> rlink list \<Rightarrow> durable" where
  "demo_store v ls = \<lparr>du_links = ls, du_sagas = [(''op'', demo_saga v)]\<rparr>"

lemma demo_amounts [simp]:
  "lv_amountCents demo_inflow = 5000" "lv_amountCents demo_expense = - 3000"
  "lv_id demo_inflow = Some ''in''" "lv_id demo_expense = Some ''ex''"
  by code_simp+

lemma demo_store_ok [simp]: "sagas_ok (demo_store v ls)" "map_of (du_sagas (demo_store v ls)) (ls_id (demo_saga v)) = Some (demo_saga v)"
  "ls_action (demo_saga v) = Act_link demo_plan" "\<not> isTerminalSaga (demo_saga v)" "ls_expectedVersion (demo_saga v) = v"
  by (simp_all add: sagas_ok_def demo_store_def demo_saga_def isTerminalSaga_def)

lemma demo_simps [simp]:
  "le_engine link_demo_env = demo_engine" "le_clock link_demo_env n = ''2026-01-02''" "le_external link_demo_env a b = Inr ()"
  "ls_inflowId (demo_saga v) = ''in''" "ls_expenseId (demo_saga v) = ''ex''" "\<not> ls_idempotent (demo_saga v)"
  "lp_allocationCents demo_plan = 2500" "du_links (demo_store v ls) = ls"
  by (simp_all add: link_demo_env_def demo_saga_def demo_plan_def demo_store_def)

lemma demo_checks:
  "locateEndpoint demo_engine ''in'' (hint_of demo_inflow) = Inr demo_inflow"
  "locateEndpoint demo_engine ''ex'' (hint_of demo_expense) = Inr demo_expense"
  "assertReimbursementEligible demo_expense (en_reimbCategoryId demo_engine) = Inr ()"
  by code_simp+

lemma demo_legacy:
  "assertLegacyAmbiguityAdmission [] (Some ''in'') (Some ''ex'') False = Inr ()"
  "assertLegacyAmbiguityAdmission [demo_link] (Some ''in'') (Some ''ex'') False = Inr ()"
  by code_simp+

lemma demo_find:
  "find_link [] (Some ''in'') (Some ''ex'') = None" "find_link [demo_link] (Some ''in'') (Some ''ex'') = Some demo_link"
  by (simp_all add: find_link_def same_pair_def sameTransactionId_def inflow_id_def expense_id_def demo_link_def demo_ref_def)

lemma demo_capacity:
  "\<exists>c. buildCapacityAdmission demo_inflow demo_expense 2500 [] = Inr c \<and> cp_allocationCents c = 2500"
  "\<exists>c. buildCapacityAdmission demo_inflow demo_expense 2500 [demo_link] = Inr c \<and> cp_allocationCents c = 2500"
proof -
  have "case buildCapacityAdmission demo_inflow demo_expense 2500 [] of Inr c \<Rightarrow> cp_allocationCents c = 2500 | _ \<Rightarrow> False"
    "case buildCapacityAdmission demo_inflow demo_expense 2500 [demo_link] of Inr c \<Rightarrow> cp_allocationCents c = 2500 | _ \<Rightarrow> False"
    by code_simp+
  then show "\<exists>c. buildCapacityAdmission demo_inflow demo_expense 2500 [] = Inr c \<and> cp_allocationCents c = 2500"
    "\<exists>c. buildCapacityAdmission demo_inflow demo_expense 2500 [demo_link] = Inr c \<and> cp_allocationCents c = 2500"
    by (auto split: sum.splits)
qed

text \<open>A first link, and the change of a link of version 1, each written by an uninterrupted run.\<close>

lemma demo_runs:
  assumes "(v, ls, old) = (None, [], None) \<or> (v, ls, old) = (Some 1, [demo_link], Some demo_link)"
  shows "\<exists>d1 d2 d3. drive link_demo_env (demo_saga v) (demo_store v ls) =
    ([d1, d2, d3], Inr (Ans_link ''in'' ''ex'' 2500 ''in:ex'' (Some (case old of None \<Rightarrow> 1 | Some _ \<Rightarrow> 2)) False))"
proof -
  have old: "find_link ls (Some ''in'') (Some ''ex'') = old" using assms demo_find by auto
  from assms have "\<exists>c. buildCapacityAdmission demo_inflow demo_expense 2500 ls = Inr c \<and> cp_allocationCents c = 2500"
    and "assertLegacyAmbiguityAdmission ls (Some ''in'') (Some ''ex'') False = Inr ()"
    using demo_capacity demo_legacy by auto
  then have ad: "revalidateLinkApply demo_engine ''in'' ''ex'' v demo_plan ls = Inr (demo_admission v old)"
    using demo_checks old
    by (auto simp: revalidateLinkApply_def Let_def demo_plan_def demo_admission_def assertLiveEndpointsMatchPrepared_def)
  have ver: "linkVersion demo_link = 1" "assertExpectedVersion demo_link (Some 1) = Inr ()" by code_simp+
  have cls: "classifyStoredLink demo_link = Inr (trusted_as 1000 ''explicit_cents'')"
    by (rule classify_explicit) (simp_all add: demo_link_def safe_int_def max_safe_def)
  obtain r where r: "fresh_link ''2026-01-02'' demo_inflow demo_expense 2500 None old = Inr r"
    using fresh_link_exists [of 2500 demo_inflow demo_expense "''2026-01-02''" None old] by (auto simp: safe_int_def max_safe_def)
  have b: "buildExplicitLinkRecord ''2026-01-02'' demo_inflow demo_expense 2500 None old v =
    Inr \<lparr>bl_record = r, bl_changed = True, bl_idempotent = False\<rparr>"
    using assms r ver(2) cls by (auto simp: buildExplicitLinkRecord_def)
  note F = fresh_link_Inr [OF r]
  then have "linkRecordConverged (applyLinkRecord ls r) r = Inr True"
    by (simp add: converged_apply linkVersion_def)
  moreover have "lk_version r = Some (case old of None \<Rightarrow> 1 | Some _ \<Rightarrow> 2)" using F assms ver(1) by auto
  moreover have "saga_link_key (demo_saga v) = ''in:ex''" by (simp add: saga_link_key_def demo_saga_def linkPairKey_def)
  ultimately have "\<exists>d1 d2 d3. applyPreparedLink link_demo_env (demo_saga v) demo_plan (demo_store v ls) =
    ([d1, d2, d3], Inr (Ans_link ''in'' ''ex'' 2500 ''in:ex'' (Some (case old of None \<Rightarrow> 1 | Some _ \<Rightarrow> 2)) False))"
    using ad b by (simp add: apply_link_Inr Let_def demo_env_def demo_store_def)
      (simp add: demo_saga_def demo_plan_def demo_admission_def)
  then show ?thesis by (simp add: drive_def demo_env_def)
qed

lemma demo_store_changed:
  assumes "drive link_demo_env (demo_saga v) (demo_store v ls) = ([d1, d2, d3], Inr ans)"
  shows "d2 \<noteq> demo_store v ls"
proof -
  from assms obtain r where "d2 = (writeSaga link_demo_env (stamped (le_clock link_demo_env 1)
      (demo_saga v\<lparr>ls_phase := Links_pending, ls_pendingRecord := Some r\<rparr>)) (demo_store v ls))\<lparr>du_links := applyLinkRecord ls r\<rparr>"
    by (auto simp: drive_def apply_link_Inr Let_def demo_store_def split: sum.splits)
  moreover have a: "\<not> isTerminalSaga (stamped (le_clock link_demo_env 1) (demo_saga v\<lparr>ls_phase := Links_pending, ls_pendingRecord := Some r\<rparr>))"
    by (simp add: isTerminalSaga_def)
  ultimately have "map_of (du_sagas d2) (ls_id (demo_saga v)) =
      Some (stamped (le_clock link_demo_env 1) (demo_saga v\<lparr>ls_phase := Links_pending, ls_pendingRecord := Some r\<rparr>))"
    using active_stored_after_write [OF demo_store_ok(1) [of v ls] a, of link_demo_env] by simp
  then show ?thesis
    using demo_store_ok(2) [of v ls] by (auto simp: stamped_def Let_def isTerminalSaga_def demo_saga_def)
qed

section \<open>Properties\<close>

text \<open>
  C8: Interrupt the write of a link that names no version at any of its writes, and drive what
  is stored again, any time later: the saga gives the answer the uninterrupted run would have
  given, and the links are the same up to their time stamps; nothing is linked twice.
\<close>

theorem interrupted_link_recovers:
  assumes "sagas_ok d" "map_of (du_sagas d) (ls_id s) = Some s"
    and "ls_action s = Act_link p" "\<not> isTerminalSaga s" "ls_expectedVersion s = None"
    and "drive env s d = (ds, Inr ans)"
    and "d' \<in> set (crash_points d (drive env s d))" "map_of (du_sagas d') (ls_id s) = Some s'"
    and "le_engine env' = le_engine env" "le_external env' = le_external env"
  shows "\<exists>ds'. drive env' s' d' = (ds', Inr ans) \<and>
    map link_core (du_links (final_state d' (drive env' s' d'))) = map link_core (du_links (final_state d (drive env s d)))"
  using interrupted_link [OF assms] assms(6) by (auto simp: final_state_def)

lemma interrupted_link_recovers_witness:
  "\<exists>ds s' d'. d' \<noteq> demo_store None [] \<and>
     drive (later 9 link_demo_env) s' d' = (ds, Inr (Ans_link ''in'' ''ex'' 2500 ''in:ex'' (Some 1) False))"
proof -
  obtain d1 d2 d3 where run: "drive link_demo_env (demo_saga None) (demo_store None []) =
      ([d1, d2, d3], Inr (Ans_link ''in'' ''ex'' 2500 ''in:ex'' (Some 1) False))"
    using demo_runs [of None "[]" None] by auto
  have "d2 \<in> set (butlast (demo_store None [] # [d1, d2, d3]))" by simp
  from interrupted_stays_active [OF demo_store_ok(1-4) run this] obtain s' where
    s': "map_of (du_sagas d2) (ls_id (demo_saga None)) = Some s'" "\<not> isTerminalSaga s'" by blast
  have "d2 \<in> set (crash_points (demo_store None []) (drive link_demo_env (demo_saga None) (demo_store None [])))"
    by (simp add: run crash_points_def)
  from interrupted_link_recovers [OF demo_store_ok(1-5) run this s'(1), of "later 9 link_demo_env"]
  obtain ds where "drive (later 9 link_demo_env) s' d2 = (ds, Inr (Ans_link ''in'' ''ex'' 2500 ''in:ex'' (Some 1) False))"
    by (auto simp: later_def)
  moreover have "d2 \<noteq> demo_store None []" using demo_store_changed [OF run] .
  ultimately show ?thesis by blast
qed



text \<open>
  C7: In every durable state that links, unlinks and recoveries reach, interrupted anywhere and
  whatever was admitted before, the trusted allocations of every transaction stay within its
  amount, and there is one link per pair.
\<close>

theorem links_never_overallocated:
  assumes "reimb_reach e d"
  shows "one_link_per_pair (du_links d) \<and>
    linked_total (of_inflow (Some t)) (du_links d) \<le> max 0 (engine_amount e t) \<and>
    linked_total (of_expense (Some t)) (du_links d) \<le> max 0 (- engine_amount e t)"
  using reimb_reach_invariant [OF assms] unfolding store_ok_def within_capacity_def by (metis id_text_Some)

lemma links_never_overallocated_witness:
  "\<exists>d. reimb_reach demo_engine d \<and> du_sagas d \<noteq> [] \<and> linked_total (of_expense (Some ''ex'')) (du_links d) \<le> 3000"
proof -
  let ?e = "\<lparr>du_links = [], du_sagas = []\<rparr>"
  obtain d1 d2 d3 where run: "drive link_demo_env (demo_saga None) (demo_store None []) =
      ([d1, d2, d3], Inr (Ans_link ''in'' ''ex'' 2500 ''in:ex'' (Some 1) False))"
    using demo_runs [of None "[]" None] by auto
  have "link_saga ''2026-01-02'' ''op'' (Some ''op'') (demo_admission None None) = demo_saga None"
    by (simp add: link_saga_def demo_admission_def demo_saga_def demo_plan_def or_null_def) code_simp
  moreover have "later 2 link_demo_env = link_demo_env" by (simp add: later_def link_demo_env_def)
  moreover have "writeSaga link_demo_env (demo_saga None) ?e = demo_store None []"
    by (simp add: writeSaga_def demo_store_def pruneState_def Let_def) (simp add: demo_saga_def)
  ultimately have start: "start_saga (later 2 link_demo_env) None (link_saga ''2026-01-02'' ''op'' (Some ''op'') (demo_admission None None)) ?e =
      (demo_store None [] # [d1, d2, d3], Inr (Ans_link ''in'' ''ex'' 2500 ''in:ex'' (Some 1) False))"
    using run by (simp add: start_saga_def bindJournalFields_def normalizeJournalBinding_def)
  obtain r where "fresh_link ''2026-01-02'' demo_inflow demo_expense 2500 None None = Inr r"
    using fresh_link_exists [of 2500 demo_inflow demo_expense "''2026-01-02''" None None] by (auto simp: safe_int_def max_safe_def)
  then have "link link_demo_env (demo_admission None None) (Some ''op'') None [] ?e =
      (demo_store None [] # [d1, d2, d3], Inr (Ans_link ''in'' ''ex'' 2500 ''in:ex'' (Some 1) False))"
    using start
    by (simp add: link_def Let_def demo_admission_def resume_def or_null_def assertJournalAdmission_def finished_as_def
      normalizeJournalBinding_def sagasForOperationKey_def find_link_def buildExplicitLinkRecord_def)
  then have "d2 \<in> set (crash_points ?e (link link_demo_env (demo_admission None None) (Some ''op'') None [] ?e))"
    by (simp add: crash_points_def)
  then have reach: "reimb_reach demo_engine d2" by (rule reach_link [OF reach_empty demo_simps(1)])
  have "engine_amount demo_engine ''ex'' = - 3000" by code_simp
  with links_never_overallocated [OF reach, of "''ex''"] have "linked_total (of_expense (Some ''ex'')) (du_links d2) \<le> 3000" by simp
  moreover have "d2 \<in> set (butlast (demo_store None [] # [d1, d2, d3]))" by simp
  then have "du_sagas d2 \<noteq> []" using interrupted_stays_active [OF demo_store_ok(1-4) run] by fastforce
  ultimately show ?thesis using reach by blast
qed

end
