(* ===== verification/TransferClassification.thy ===== *)
theory TransferClassification
  imports JsValue JsString Money "HOL-Library.AList"
begin

text \<open>
  Model of \<open>lib/domain/classification.js\<close>: which part of a transaction is spending, income, a
  transfer between own accounts, or cannot be told yet. A transfer is recognised by the identity the
  budget engine stores (\<open>transfer_id\<close>), and trusted only when both sides name each other and
  nobody else, in different accounts, with opposite amounts.

  The columns of the engine are texts, so a link is a text, \<open>false\<close>, or missing. An amount that is
  missing is \<^term>\<open>NaN\<close>: the code only tests it with \<open>Number.isSafeInteger\<close> and adds it. The regular
  expressions that recognise category names are parameters, as they are of the code.
\<close>

section \<open>Categories\<close>

record patterns =
  pt_incomeGroup :: "string \<Rightarrow> bool"
  pt_moneyMovementGroup :: "string \<Rightarrow> bool"
  pt_reimbursementCategory :: "string \<Rightarrow> bool"
  pt_moneyMovementCategory :: "string \<Rightarrow> bool"

record category_row =
  ct_id :: string
  ct_name :: string

record group_row =
  gp_name :: string
  gp_is_income :: bool
  gp_categories :: "category_row list"

datatype kind = Income | Reimb | MoneyMovement | Spend | Uncat | Transfer | Incomplete

record category_meta =
  cm_name :: string
  cm_group :: string
  cm_kind :: kind
  cm_isIncome :: bool
  cm_isMovement :: bool

definition category_kind :: "patterns \<Rightarrow> bool \<Rightarrow> bool \<Rightarrow> string \<Rightarrow> kind" where
  "category_kind p incomeGroup movementGroup name =
     (if incomeGroup then Income
      else if pt_reimbursementCategory p name then Reimb
      else if movementGroup \<or> pt_moneyMovementCategory p name then MoneyMovement
      else Spend)"

definition group_info ::
  "patterns \<Rightarrow> group_row \<Rightarrow> (string \<times> category_meta) list \<Rightarrow> (string \<times> category_meta) list" where
  "group_info p g catInfo =
     (let incomeGroup = gp_is_income g \<or> pt_incomeGroup p (gp_name g);
          movementGroup = pt_moneyMovementGroup p (gp_name g)
      in fold (\<lambda>category. AList.update (ct_id category)
           \<lparr>cm_name = ct_name category, cm_group = gp_name g,
            cm_kind = category_kind p incomeGroup movementGroup (ct_name category),
            cm_isIncome = incomeGroup, cm_isMovement = movementGroup\<rparr>) (gp_categories g) catInfo)"

definition buildCategoryInfo :: "group_row list \<Rightarrow> patterns \<Rightarrow> (string \<times> category_meta) list" where
  "buildCategoryInfo groups p = fold (group_info p) groups []"

section \<open>Leaves of a transaction\<close>

datatype raw_link = NoLink | FalseLink | LinkText string

fun normalizeTransferId :: "raw_link \<Rightarrow> string option" where
  "normalizeTransferId (LinkText s) = (let normalized = js_trim s in if normalized = [] then None else Some normalized)"
| "normalizeTransferId _ = None"

record leg =
  lg_id :: "string option"
  lg_amount :: jsnum
  lg_category :: "string option"
  lg_notes :: "string option"
  lg_transfer_id :: raw_link
  lg_transferred_id :: raw_link

record transaction =
  tx_id :: string
  tx_amount :: jsnum
  tx_category :: "string option"
  tx_notes :: "string option"
  tx_transfer_id :: raw_link
  tx_transferred_id :: raw_link
  tx_is_parent :: bool
  tx_subtransactions :: "leg list option"

record leaf =
  lf_amount :: jsnum
  lf_catId :: "string option"
  lf_notes :: "string option"
  lf_id :: string
  lf_parentId :: "string option"
  lf_isLeg :: bool
  lf_transferId :: "string option"
  lf_transferredId :: "string option"

definition leg_leaf :: "string \<Rightarrow> nat \<Rightarrow> leg \<Rightarrow> leaf" where
  "leg_leaf txid index l =
     \<lparr>lf_amount = lg_amount l, lf_catId = lg_category l, lf_notes = lg_notes l,
      lf_id = text_or (lg_id l) (txid @ ''-'' @ dec index), lf_parentId = Some txid, lf_isLeg = True,
      lf_transferId = normalizeTransferId (lg_transfer_id l),
      lf_transferredId = normalizeTransferId (lg_transferred_id l)\<rparr>"

definition transactionLeaves :: "transaction \<Rightarrow> leaf list" where
  "transactionLeaves t =
     (if tx_is_parent t \<and> tx_subtransactions t \<noteq> None \<and> the (tx_subtransactions t) \<noteq> []
      then map (\<lambda>(index, l). leg_leaf (tx_id t) index l)
             (enumerate 0 (the (tx_subtransactions t)))
      else if tx_is_parent t then []
      else [\<lparr>lf_amount = tx_amount t, lf_catId = tx_category t, lf_notes = tx_notes t, lf_id = tx_id t,
             lf_parentId = None, lf_isLeg = False,
             lf_transferId = normalizeTransferId (tx_transfer_id t),
             lf_transferredId = normalizeTransferId (tx_transferred_id t)\<rparr>])"

text \<open>A normalized link is never empty, so a link is truthy where it is there.\<close>

definition hasTransferIdentityFields :: "'a leaf_scheme \<Rightarrow> bool" where
  "hasTransferIdentityFields l \<longleftrightarrow> lf_transferId l \<noteq> None \<or> lf_transferredId l \<noteq> None"

section \<open>The index of transfers\<close>

record node =
  nd_transactionId :: string
  nd_accountId :: "string option"
  nd_amount :: jsnum
  nd_transferId :: "string option"
  nd_transferredId :: "string option"
  nd_parentId :: "string option"

record index =
  ix_byTransactionId :: "(string \<times> node) list"
  ix_duplicates :: "string list"
  ix_reverseRefs :: "(string \<times> string list) list"
  ix_nodes :: "node list"

record row =
  rw_accountId :: "string option"
  rw_transaction :: transaction

definition leaf_node :: "row \<Rightarrow> leaf \<Rightarrow> node" where
  "leaf_node r l =
     \<lparr>nd_transactionId = (if lf_id l = [] then tx_id (rw_transaction r) else lf_id l),
      nd_accountId = text_or_none (rw_accountId r), nd_amount = lf_amount l,
      nd_transferId = lf_transferId l, nd_transferredId = lf_transferredId l,
      nd_parentId = text_or_none (lf_parentId l)\<rparr>"

definition row_nodes :: "row \<Rightarrow> node list" where
  "row_nodes r =
     (if tx_id (rw_transaction r) = [] then []
      else map (leaf_node r) (filter hasTransferIdentityFields (transactionLeaves (rw_transaction r))))"

text \<open>The body of the inner loop: a second node of an identity replaces the first and marks it.\<close>

definition index_node :: "node \<Rightarrow> index \<Rightarrow> index" where
  "index_node n ix =
     ix\<lparr>ix_duplicates := (if map_of (ix_byTransactionId ix) (nd_transactionId n) \<noteq> None
                          then List.insert (nd_transactionId n) (ix_duplicates ix) else ix_duplicates ix),
        ix_byTransactionId := AList.update (nd_transactionId n) n (ix_byTransactionId ix),
        ix_nodes := ix_nodes ix @ [n]\<rparr>"

definition bucket :: "(string \<times> string list) list \<Rightarrow> string \<Rightarrow> string list" where
  "bucket refs i = (case map_of refs i of None \<Rightarrow> [] | Some b \<Rightarrow> b)"

definition add_reverse :: "node \<Rightarrow> (string \<times> string list) list \<Rightarrow> (string \<times> string list) list" where
  "add_reverse n refs =
     (case nd_transferId n of None \<Rightarrow> refs
      | Some t \<Rightarrow> AList.update t (bucket refs t @ [nd_transactionId n]) refs)"

definition buildTransferIndex :: "row list \<Rightarrow> index" where
  "buildTransferIndex rows =
     (let ix = fold (\<lambda>r. fold index_node (row_nodes r)) rows
            \<lparr>ix_byTransactionId = [], ix_duplicates = [], ix_reverseRefs = [], ix_nodes = []\<rparr>
      in ix\<lparr>ix_reverseRefs := fold add_reverse (ix_nodes ix) []\<rparr>)"

section \<open>The connected component\<close>

text \<open>
  What the loop pushes for a visited node, in the order it pushes: the node it names and the nodes
  that name it, as far as they are in the window.
\<close>

definition known :: "index \<Rightarrow> string \<Rightarrow> bool" where
  "known ix i \<longleftrightarrow> map_of (ix_byTransactionId ix) i \<noteq> None"

definition pushed :: "index \<Rightarrow> string \<Rightarrow> node \<Rightarrow> string list" where
  "pushed ix i n =
     (case nd_transferId n of None \<Rightarrow> [] | Some t \<Rightarrow> if known ix t then [t] else [])
     @ filter (known ix) (bucket (ix_reverseRefs ix) i)"

function gather_loop :: "index \<Rightarrow> string list \<Rightarrow> string list \<Rightarrow> string list" where
  "gather_loop ix visited [] = visited"
| "gather_loop ix visited (i # stack) =
     (if i \<in> set visited then gather_loop ix visited stack
      else case map_of (ix_byTransactionId ix) i of
        None \<Rightarrow> gather_loop ix (visited @ [i]) stack
      | Some n \<Rightarrow> gather_loop ix (visited @ [i]) (rev (pushed ix i n) @ stack))"
  by pat_completeness auto

text \<open>
  The loop ends: visiting a node of the index leaves one unvisited node less, any other turn
  shortens the stack.
\<close>

definition unvisited :: "index \<Rightarrow> string list \<Rightarrow> nat" where
  "unvisited ix visited = card (fst ` set (ix_byTransactionId ix) - set visited)"

lemma unvisited_append: "unvisited ix (visited @ [i]) \<le> unvisited ix visited"
  by (auto simp: unvisited_def intro!: card_mono)

lemma unvisited_decreases:
  assumes "map_of (ix_byTransactionId ix) i = Some n" "i \<notin> set visited"
  shows "unvisited ix (visited @ [i]) < unvisited ix visited"
proof -
  have "i \<in> fst ` set (ix_byTransactionId ix)"
    using assms(1) by (metis map_of_SomeD fst_conv image_eqI)
  then show ?thesis using assms(2) unfolding unvisited_def by (intro psubset_card_mono) auto
qed

termination gather_loop
proof (relation "measures [\<lambda>(ix, visited, stack). unvisited ix visited, \<lambda>(ix, visited, stack). length stack]",
    goal_cases)
  case (3 ix visited i stack)
  then show ?case using unvisited_append [of ix visited i] by (simp add: le_less)
qed (auto simp: unvisited_decreases simp del: append_assoc)

definition gatherTransferComponent :: "string \<Rightarrow> index \<Rightarrow> string list" where
  "gatherTransferComponent startId ix = gather_loop ix [] [startId]"

definition counterpartNode :: "node \<Rightarrow> index \<Rightarrow> node option" where
  "counterpartNode self ix =
     (case nd_transferId self of None \<Rightarrow> None
      | Some t \<Rightarrow> (case map_of (ix_byTransactionId ix) t of None \<Rightarrow> None
          | Some n \<Rightarrow> if nd_transactionId n \<noteq> t then None else Some n))"

section \<open>A mutual pair\<close>

definition validateMutualTransferPair :: "node \<Rightarrow> node \<Rightarrow> index \<Rightarrow> string option" where
  "validateMutualTransferPair self other ix =
     (if nd_transactionId self \<in> set (ix_duplicates ix) \<or> nd_transactionId other \<in> set (ix_duplicates ix)
      then Some ''transfer_pair_duplicate_id''
      else if nd_transactionId self = nd_transactionId other then Some ''transfer_pair_duplicate_id''
      else if nd_accountId self \<noteq> None \<and> nd_accountId other \<noteq> None \<and> nd_accountId self = nd_accountId other
      then Some ''transfer_pair_same_account''
      else let size = length (gatherTransferComponent (nd_transactionId self) ix) in
      if size \<noteq> 2 then Some (if 2 < size then ''transfer_pair_fan_in'' else ''transfer_pair_cycle_invalid'')
      else if text_or (nd_transferId other) [] \<noteq> nd_transactionId self then Some ''transfer_pair_not_reciprocal''
      else if \<not> js_safe_integer (nd_amount self) \<or> \<not> js_safe_integer (nd_amount other)
      then Some ''transfer_identity_malformed''
      else let a = js_to_int (nd_amount self); b = js_to_int (nd_amount other) in
      if a = 0 \<or> b = 0 then Some ''transfer_pair_amount_mismatch''
      else if sgn a = sgn b then Some ''transfer_pair_sign_mismatch''
      else if \<bar>a\<bar> \<noteq> \<bar>b\<bar> then Some ''transfer_pair_amount_mismatch''
      else if a + b \<noteq> 0 then Some ''transfer_pair_amount_mismatch''
      else None)"

record snapshot =
  sn_linkId :: "string option"
  sn_counterpartTransactionId :: "string option"
  sn_transferredId :: "string option"
  sn_accountId :: "string option"
  sn_counterpartAccountId :: "string option"
  sn_counterpartInWindow :: bool
  sn_pairValid :: bool
  sn_componentSize :: "nat option"

definition buildTransferIdentitySnapshot ::
  "'a leaf_scheme \<Rightarrow> node \<Rightarrow> node option \<Rightarrow> index option \<Rightarrow> bool \<Rightarrow> bool \<Rightarrow> snapshot" where
  "buildTransferIdentitySnapshot l self other ix inWindow valid =
     \<lparr>sn_linkId = (if lf_transferId l \<noteq> None then lf_transferId l else lf_transferredId l),
      sn_counterpartTransactionId = lf_transferId l, sn_transferredId = lf_transferredId l,
      sn_accountId = nd_accountId self, sn_counterpartAccountId = Option.bind other nd_accountId,
      sn_counterpartInWindow = inWindow, sn_pairValid = valid,
      sn_componentSize = map_option (\<lambda>x. length (gatherTransferComponent (nd_transactionId self) x)) ix\<rparr>"

record transfer_context =
  tc_transactionId :: "string option"
  tc_accountId :: "string option"
  tc_transferIndex :: "index option"

datatype assessment =
    NoTransfer
  | MalformedTransfer (as_reason: string) (as_identity: snapshot)
  | ActualTransfer (as_reason: string) (as_identity: snapshot)

definition self_id :: "'a leaf_scheme \<Rightarrow> transfer_context \<Rightarrow> string" where
  "self_id l cx = text_or (tc_transactionId cx) (lf_id l)"

definition self_node :: "'a leaf_scheme \<Rightarrow> transfer_context \<Rightarrow> node" where
  "self_node l cx =
     (case Option.bind (tc_transferIndex cx) (\<lambda>ix. map_of (ix_byTransactionId ix) (self_id l cx)) of
        Some n \<Rightarrow> n
      | None \<Rightarrow> \<lparr>nd_transactionId = self_id l cx, nd_accountId = text_or_none (tc_accountId cx),
          nd_amount = lf_amount l, nd_transferId = lf_transferId l, nd_transferredId = lf_transferredId l,
          nd_parentId = text_or_none (lf_parentId l)\<rparr>)"

definition assessTransferIdentity :: "'a leaf_scheme \<Rightarrow> transfer_context \<Rightarrow> assessment" where
  "assessTransferIdentity l cx =
     (if \<not> hasTransferIdentityFields l then NoTransfer
      else let selfId = self_id l cx; self = self_node l cx; ix = tc_transferIndex cx in
      if lf_transferId l = Some selfId \<and> selfId \<noteq> []
      then MalformedTransfer ''transfer_identity_self_reference''
             (buildTransferIdentitySnapshot l self None ix False False)
      else if (\<exists>x \<in> set_option ix. selfId \<in> set (ix_duplicates x))
      then MalformedTransfer ''transfer_pair_duplicate_id''
             (buildTransferIdentitySnapshot l self None ix False False)
      else case (if lf_transferId l = None then None else Option.bind ix (counterpartNode self)) of
        Some other \<Rightarrow>
          (case validateMutualTransferPair self other (the ix) of
             Some pairError \<Rightarrow> MalformedTransfer pairError
               (buildTransferIdentitySnapshot l self (Some other) ix True False)
           | None \<Rightarrow> ActualTransfer
               (if lf_isLeg l then ''actual_transfer_split_leg'' else ''actual_transfer_identity'')
               (buildTransferIdentitySnapshot l self (Some other) ix True True))
      | None \<Rightarrow> ActualTransfer
          (if lf_isLeg l then ''actual_transfer_split_leg'' else ''actual_transfer_one_sided'')
          (buildTransferIdentitySnapshot l self None ix False False))"

section \<open>Classification of a leaf\<close>

record classified = leaf +
  cl_kind :: kind
  cl_reason :: string
  cl_provenance :: string
  cl_transferIdentity :: "snapshot option"
  cl_countsAsSpending :: bool
  cl_countsAsIncome :: bool
  cl_spendingExcluded :: bool
  cl_needsReview :: bool
  cl_reviewFingerprint :: "string option"

definition incompleteTransferReviewFingerprint :: "string option \<Rightarrow> string \<Rightarrow> string \<Rightarrow> string" where
  "incompleteTransferReviewFingerprint parentId i reason =
     (let i' = text_or parentId (if i = [] then ''unknown'' else i);
          reason' = (if reason = [] then ''transfer_identity_malformed'' else reason)
      in ''transfer_identity:'' @ reason' @ '':'' @ i')"

text \<open>The literal \<open>{...leaf, kind, reason, ...}\<close>.\<close>

definition classify_as ::
  "leaf \<Rightarrow> kind \<Rightarrow> string \<Rightarrow> string \<Rightarrow> snapshot option \<Rightarrow> bool \<Rightarrow> bool \<Rightarrow> bool \<Rightarrow> string option \<Rightarrow> classified" where
  "classify_as l k reason provenance identity spending income review fingerprint =
     leaf.extend l (classified.fields k reason provenance identity spending income (\<not> spending) review fingerprint)"

definition classify_category :: "leaf \<Rightarrow> category_meta option \<Rightarrow> classified" where
  "classify_category l meta =
     (let catKind = (case meta of None \<Rightarrow> Uncat | Some m \<Rightarrow> cm_kind m);
          reason = (case meta of None \<Rightarrow> ''uncategorized'' | Some m \<Rightarrow> ''category:'' @ cm_name m);
          provenance = ''classification:category''
      in if catKind = Income then classify_as l Income reason provenance None False True False None
         else if catKind = Reimb \<or> catKind = MoneyMovement
         then classify_as l catKind reason provenance None False False False None
         else if catKind = Uncat \<and> 0 < js_to_int (lf_amount l)
         then classify_as l Uncat ''uncategorized_inflow'' provenance None False False True None
         else let spendKind = (if catKind = Uncat then Uncat else Spend)
         in classify_as l spendKind reason provenance None True False (spendKind = Uncat) None)"

definition classifyLeaf :: "leaf \<Rightarrow> (string \<times> category_meta) list \<Rightarrow> transfer_context \<Rightarrow> classified res" where
  "classifyLeaf l categoryInfo cx =
     (if \<not> js_safe_integer (lf_amount l)
      then Inl (TypeError ''Actual transaction amounts must be integer cents'')
      else case assessTransferIdentity l cx of
        MalformedTransfer reason identity \<Rightarrow>
          Inr (classify_as l Incomplete reason ''classification:transfer_identity'' (Some identity)
            False False True (Some (incompleteTransferReviewFingerprint (lf_parentId l) (lf_id l) reason)))
      | ActualTransfer reason identity \<Rightarrow>
          Inr (classify_as l Transfer reason ''classification:transfer_identity'' (Some identity)
            False False False None)
      | NoTransfer \<Rightarrow>
          Inr (classify_category l (Option.bind (lf_catId l) (map_of categoryInfo))))"

definition classifyTransactionLeaves ::
  "transaction \<Rightarrow> (string \<times> category_meta) list \<Rightarrow> transfer_context \<Rightarrow> classified list res" where
  "classifyTransactionLeaves t categoryInfo cx =
     emap (\<lambda>l. classifyLeaf l categoryInfo (cx\<lparr>tc_transactionId := Some (lf_id l)\<rparr>)) (transactionLeaves t)"

fun js_less_zero :: "jsnum \<Rightarrow> bool" where
  "js_less_zero (Fin q) = (q < 0)"
| "js_less_zero NegInf = True"
| "js_less_zero _ = False"

definition leafCountsAsRealSpend :: "classified \<Rightarrow> bool" where
  "leafCountsAsRealSpend c \<longleftrightarrow> cl_countsAsSpending c \<and> js_less_zero (lf_amount c)"

definition leafCountsAsRealIncome :: "classified \<Rightarrow> bool" where
  "leafCountsAsRealIncome c \<longleftrightarrow> cl_countsAsIncome c"

section \<open>Totals\<close>

text \<open>
  \<open>spendingCents\<close> is a plain object, so reading a name it does not own finds what it inherits from
  \<open>Object.prototype\<close>: a function (the accessor \<open>__proto__\<close> gives an object), which is truthy and becomes
  \<^term>\<open>NaN\<close> in the subtraction. Assigning a number to \<open>__proto__\<close> has no effect.
\<close>

definition inherited_names :: "string list" where
  "inherited_names = [''constructor'', ''__defineGetter__'', ''__defineSetter__'', ''hasOwnProperty'',
     ''__lookupGetter__'', ''__lookupSetter__'', ''isPrototypeOf'', ''propertyIsEnumerable'', ''toString'',
     ''valueOf'', ''__proto__'', ''toLocaleString'']"

definition counter_of :: "(string \<times> jsnum) list \<Rightarrow> string \<Rightarrow> jsnum" where
  "counter_of m name =
     (case map_of m name of
        Some v \<Rightarrow> if v = NaN \<or> js_is_zero v then Fin 0 else v
      | None \<Rightarrow> if name \<in> set inherited_names then NaN else Fin 0)"

definition spend_in :: "string \<Rightarrow> jsnum \<Rightarrow> (string \<times> jsnum) list \<Rightarrow> (string \<times> jsnum) list" where
  "spend_in name amount m =
     (if name = ''__proto__'' then m else AList.update name (js_sub (counter_of m name) amount) m)"

definition spend_name :: "'a classified_scheme \<Rightarrow> string" where
  "spend_name c =
     (let prefix = ''category:'';
          metaName = (if take (length prefix) (cl_reason c) = prefix then drop (length prefix) (cl_reason c)
                      else ''Uncategorized'')
      in if cl_kind c = Uncat then ''Uncategorized'' else metaName)"

record summary =
  sm_spendingCents :: "(string \<times> jsnum) list"
  sm_totalSpendCents :: jsnum
  sm_totalIncomeCents :: jsnum

definition summary_step :: "summary \<Rightarrow> classified \<Rightarrow> summary" where
  "summary_step sm c =
     (if cl_countsAsIncome c
      then sm\<lparr>sm_totalIncomeCents := js_add (sm_totalIncomeCents sm) (lf_amount c)\<rparr>
      else if \<not> cl_countsAsSpending c then sm
      else sm\<lparr>sm_totalSpendCents := js_sub (sm_totalSpendCents sm) (lf_amount c),
              sm_spendingCents := spend_in (spend_name c) (lf_amount c) (sm_spendingCents sm)\<rparr>)"

definition drop_zero :: "(string \<times> jsnum) list \<Rightarrow> (string \<times> jsnum) list" where
  "drop_zero m = filter (\<lambda>(_, v). \<not> js_is_zero v) m"

definition summarizeClassifiedLeaves :: "classified list \<Rightarrow> summary" where
  "summarizeClassifiedLeaves cs =
     (let sm = foldl summary_step \<lparr>sm_spendingCents = [], sm_totalSpendCents = Fin 0, sm_totalIncomeCents = Fin 0\<rparr> cs
      in sm\<lparr>sm_spendingCents := drop_zero (sm_spendingCents sm)\<rparr>)"

text \<open>A leaf that is classified already (\<open>Inr\<close>) is taken as it is.\<close>

definition classify_if_needed ::
  "(string \<times> category_meta) list \<Rightarrow> transfer_context \<Rightarrow> leaf + classified \<Rightarrow> classified res" where
  "classify_if_needed categoryInfo cx x =
     (case x of Inr c \<Rightarrow> Inr c | Inl l \<Rightarrow> classifyLeaf l categoryInfo cx)"

definition summarizeCents ::
  "(leaf + classified) list \<Rightarrow> (string \<times> category_meta) list \<Rightarrow> transfer_context \<Rightarrow> summary res" where
  "summarizeCents leaves categoryInfo cx =
     ebind (emap (classify_if_needed categoryInfo cx) leaves) (\<lambda>cs. Inr (summarizeClassifiedLeaves cs))"

definition leafHasTransferIdentity :: "leg \<Rightarrow> bool" where
  "leafHasTransferIdentity l \<longleftrightarrow>
     normalizeTransferId (lg_transfer_id l) \<noteq> None \<or> normalizeTransferId (lg_transferred_id l) \<noteq> None"

definition hasActualTransferIdentity :: "transaction option \<Rightarrow> bool" where
  "hasActualTransferIdentity t =
     (case t of None \<Rightarrow> False
      | Some x \<Rightarrow> normalizeTransferId (tx_transfer_id x) \<noteq> None \<or> normalizeTransferId (tx_transferred_id x) \<noteq> None
          \<or> (case tx_subtransactions x of None \<Rightarrow> False | Some ls \<Rightarrow> list_ex leafHasTransferIdentity ls))"

section \<open>The component is what the links reach\<close>

definition link_edges :: "index \<Rightarrow> (string \<times> string) set" where
  "link_edges ix = {(i, j). \<exists>n. map_of (ix_byTransactionId ix) i = Some n \<and> j \<in> set (pushed ix i n)}"

lemma gather_contains: "set visited \<union> set stack \<subseteq> set (gather_loop ix visited stack)"
  by (induction ix visited stack rule: gather_loop.induct) (auto split: option.splits)

lemma gather_sound:
  "set (gather_loop ix visited stack) \<subseteq> set visited \<union> (link_edges ix)\<^sup>* `` set stack"
proof (induction ix visited stack rule: gather_loop.induct)
  case (2 ix visited i stack)
  let ?R = "(link_edges ix)\<^sup>*"
  have split: "set (visited @ [i]) \<union> ?R `` set stack \<subseteq> set visited \<union> ?R `` set (i # stack)" by auto
  show ?case
  proof (cases "i \<in> set visited")
    case False
    show ?thesis
    proof (cases "map_of (ix_byTransactionId ix) i")
      case None
      then show ?thesis using subset_trans [OF 2(2) [OF False None] split] False by simp
    next
      case (Some n)
      have "(i, j) \<in> link_edges ix" if "j \<in> set (pushed ix i n)" for j
        using that Some by (auto simp: link_edges_def)
      then have "?R `` set (pushed ix i n) \<subseteq> ?R `` {i}"
        by (auto intro: converse_rtrancl_into_rtrancl)
      moreover have "set (gather_loop ix (visited @ [i]) (rev (pushed ix i n) @ stack)) \<subseteq>
          set (visited @ [i]) \<union> (?R `` set (pushed ix i n) \<union> ?R `` set stack)"
        using 2(3) [OF False Some] by (simp only: set_append set_rev Image_Un)
      moreover have "?R `` {i} \<subseteq> ?R `` set (i # stack)" by auto
      ultimately have "set (gather_loop ix (visited @ [i]) (rev (pushed ix i n) @ stack)) \<subseteq>
          set visited \<union> ?R `` set (i # stack)" using split by blast
      then show ?thesis using False Some by simp
    qed
  next
    case True
    then show ?thesis using 2(1) by auto
  qed
qed simp

lemma gather_closed:
  assumes "link_edges ix `` set visited \<subseteq> set visited \<union> set stack"
  shows "link_edges ix `` set (gather_loop ix visited stack) \<subseteq> set (gather_loop ix visited stack)"
  using assms
proof (induction ix visited stack rule: gather_loop.induct)
  case (2 ix visited i stack)
  show ?case
  proof (cases "i \<in> set visited")
    case True
    then show ?thesis using 2(1) 2(4) by auto
  next
    case False
    show ?thesis
    proof (cases "map_of (ix_byTransactionId ix) i")
      case None
      then have "link_edges ix `` {i} = {}" by (auto simp: link_edges_def)
      then show ?thesis using 2(2) [OF False None] 2(4) False None by auto
    next
      case (Some n)
      then have "link_edges ix `` {i} = set (pushed ix i n)" by (auto simp: link_edges_def)
      then show ?thesis using 2(3) [OF False Some] 2(4) False Some by auto
    qed
  qed
qed simp

lemma gather_distinct: "distinct visited \<Longrightarrow> distinct (gather_loop ix visited stack)"
  by (induction ix visited stack rule: gather_loop.induct) (auto split: option.splits)

lemma component_reachable:
  "set (gatherTransferComponent i ix) = (link_edges ix)\<^sup>* `` {i}"
proof
  show "set (gatherTransferComponent i ix) \<subseteq> (link_edges ix)\<^sup>* `` {i}"
    using gather_sound [of ix "[]" "[i]"] by (simp add: gatherTransferComponent_def)
  have "link_edges ix `` set (gatherTransferComponent i ix) \<subseteq> set (gatherTransferComponent i ix)"
    unfolding gatherTransferComponent_def by (rule gather_closed) simp
  moreover have "i \<in> set (gatherTransferComponent i ix)"
    using gather_contains [of "[]" "[i]" ix] by (simp add: gatherTransferComponent_def)
  ultimately show "(link_edges ix)\<^sup>* `` {i} \<subseteq> set (gatherTransferComponent i ix)"
    by (metis Image_closed_trancl Image_mono empty_subsetI insert_subset order_refl)
qed

lemma component_distinct: "distinct (gatherTransferComponent i ix)"
  unfolding gatherTransferComponent_def by (rule gather_distinct) simp

section \<open>What the index holds\<close>

definition window_nodes :: "row list \<Rightarrow> node list" where
  "window_nodes rows = concat (map row_nodes rows)"

definition indexed :: "node list \<Rightarrow> index" where
  "indexed ns = fold index_node ns \<lparr>ix_byTransactionId = [], ix_duplicates = [], ix_reverseRefs = [], ix_nodes = []\<rparr>"

lemma fold_concat_map: "fold (\<lambda>r. fold f (g r)) rs s = fold f (concat (map g rs)) s"
  by (induction rs arbitrary: s) simp_all

lemma indexed_snoc: "indexed (ns @ [n]) = index_node n (indexed ns)"
  by (simp add: indexed_def)

lemma indexed_nodes [simp]: "ix_nodes (indexed ns) = ns"
  by (induction ns rule: rev_induct) (simp_all add: indexed_snoc index_node_def, simp add: indexed_def)

lemma lookup_empty [simp]: "map_of (ix_byTransactionId (indexed [])) i = None" "ix_duplicates (indexed []) = []"
  by (simp_all add: indexed_def)

lemma lookup_snoc:
  "map_of (ix_byTransactionId (indexed (ns @ [n]))) i =
     (if i = nd_transactionId n then Some n else map_of (ix_byTransactionId (indexed ns)) i)"
  by (simp add: indexed_snoc index_node_def update_conv')

lemma duplicates_snoc:
  "set (ix_duplicates (indexed (ns @ [n]))) = set (ix_duplicates (indexed ns)) \<union>
     (if map_of (ix_byTransactionId (indexed ns)) (nd_transactionId n) \<noteq> None then {nd_transactionId n} else {})"
  by (simp add: indexed_snoc index_node_def)

lemma lookup_member:
  "map_of (ix_byTransactionId (indexed ns)) i = Some n \<Longrightarrow> n \<in> set ns \<and> nd_transactionId n = i"
  by (induction ns rule: rev_induct) (auto simp: lookup_snoc split: if_splits)

lemma lookup_known:
  "map_of (ix_byTransactionId (indexed ns)) i = None \<longleftrightarrow> i \<notin> nd_transactionId ` set ns"
  by (induction ns rule: rev_induct) (auto simp: lookup_snoc)

lemma lookup_unique:
  "n \<in> set ns \<Longrightarrow> nd_transactionId n \<notin> set (ix_duplicates (indexed ns)) \<Longrightarrow>
     map_of (ix_byTransactionId (indexed ns)) (nd_transactionId n) = Some n"
proof (induction ns rule: rev_induct)
  case (snoc m ns)
  show ?case
  proof (cases "n \<in> set ns")
    case True
    have same: "map_of (ix_byTransactionId (indexed ns)) (nd_transactionId n) = Some n"
      using snoc True by (auto simp: duplicates_snoc)
    then have "nd_transactionId n \<noteq> nd_transactionId m"
      using snoc.prems(2) by (auto simp: duplicates_snoc)
    then show ?thesis using same by (simp add: lookup_snoc)
  next
    case False
    then show ?thesis using snoc.prems by (auto simp: lookup_snoc)
  qed
qed simp

lemma bucket_reverse:
  "bucket (fold add_reverse ns refs) t =
     bucket refs t @ map nd_transactionId (filter (\<lambda>n. nd_transferId n = Some t) ns)"
  by (induction ns arbitrary: refs)
    (auto simp: add_reverse_def bucket_def update_conv' split: option.splits)

lemma built_index:
  "ix_byTransactionId (buildTransferIndex rows) = ix_byTransactionId (indexed (window_nodes rows))"
  "ix_duplicates (buildTransferIndex rows) = ix_duplicates (indexed (window_nodes rows))"
  "ix_nodes (buildTransferIndex rows) = window_nodes rows"
  "bucket (ix_reverseRefs (buildTransferIndex rows)) t =
     map nd_transactionId (filter (\<lambda>n. nd_transferId n = Some t) (window_nodes rows))"
  by (simp_all add: buildTransferIndex_def Let_def fold_concat_map bucket_reverse
      flip: indexed_def window_nodes_def) (simp add: bucket_def)

section \<open>Mutual pairs\<close>

lemma leaf_id_nonempty:
  "l \<in> set (transactionLeaves t) \<Longrightarrow> tx_id t \<noteq> [] \<Longrightarrow> lf_id l \<noteq> []"
  by (auto simp: transactionLeaves_def leg_leaf_def text_or_def split: if_splits option.splits)

lemma window_nodeE:
  assumes "n \<in> set (window_nodes rows)"
  obtains r l where "r \<in> set rows" "tx_id (rw_transaction r) \<noteq> []"
    "l \<in> set (transactionLeaves (rw_transaction r))" "hasTransferIdentityFields l"
    "n = leaf_node r l" "nd_transactionId n = lf_id l" "lf_id l \<noteq> []"
  using assms leaf_id_nonempty
  by (auto simp: window_nodes_def row_nodes_def leaf_node_def split: if_splits)

lemma window_node_id: "n \<in> set (window_nodes rows) \<Longrightarrow> nd_transactionId n \<noteq> []"
  by (erule window_nodeE) simp

lemma validate_None:
  "validateMutualTransferPair n m ix = None \<longleftrightarrow>
     nd_transactionId n \<notin> set (ix_duplicates ix) \<and> nd_transactionId m \<notin> set (ix_duplicates ix) \<and>
     nd_transactionId n \<noteq> nd_transactionId m \<and>
     (nd_accountId n = None \<or> nd_accountId m = None \<or> nd_accountId n \<noteq> nd_accountId m) \<and>
     length (gatherTransferComponent (nd_transactionId n) ix) = 2 \<and>
     text_or (nd_transferId m) [] = nd_transactionId n \<and>
     js_safe_integer (nd_amount n) \<and> js_safe_integer (nd_amount m) \<and>
     js_to_int (nd_amount n) \<noteq> 0 \<and> js_to_int (nd_amount n) + js_to_int (nd_amount m) = 0"
  by (auto simp: validateMutualTransferPair_def Let_def sgn_if)

lemma pushed_iff:
  assumes "ix = buildTransferIndex rows"
  shows "j \<in> set (pushed ix i n) \<longleftrightarrow> known ix j \<and>
    (nd_transferId n = Some j \<or> (\<exists>k \<in> set (window_nodes rows). nd_transferId k = Some i \<and> nd_transactionId k = j))"
  by (auto simp: pushed_def assms built_index split: option.splits)

lemma component_of_pair:
  assumes "nd_transactionId m \<in> (link_edges ix)\<^sup>* `` {nd_transactionId n}"
    "nd_transactionId n \<noteq> nd_transactionId m"
    "length (gatherTransferComponent (nd_transactionId n) ix) = 2"
  shows "(link_edges ix)\<^sup>* `` {nd_transactionId n} = {nd_transactionId n, nd_transactionId m}"
proof -
  have "card ((link_edges ix)\<^sup>* `` {nd_transactionId n}) = 2"
    using assms(3) distinct_card [OF component_distinct] by (metis component_reachable)
  moreover have "{nd_transactionId n, nd_transactionId m} \<subseteq> (link_edges ix)\<^sup>* `` {nd_transactionId n}"
    using assms(1) by auto
  ultimately show ?thesis using assms(2)
    by (metis card_2_iff card_subset_eq card.infinite doubleton_eq_iff zero_neq_numeral)
qed

text \<open>A pair that validates: each names the other, nobody else names either, and the amounts cancel.\<close>

lemma valid_pair_facts:
  assumes ix: "ix = buildTransferIndex rows"
    and self: "map_of (ix_byTransactionId ix) (nd_transactionId n) = Some n"
    and other: "counterpartNode n ix = Some m"
    and valid: "validateMutualTransferPair n m ix = None"
  shows "map_of (ix_byTransactionId ix) (nd_transactionId m) = Some m"
    and "nd_transferId n = Some (nd_transactionId m)"
    and "nd_transferId m = Some (nd_transactionId n)"
    and "counterpartNode m ix = Some n"
    and "validateMutualTransferPair m n ix = None"
    and "{k \<in> set (window_nodes rows). nd_transferId k \<in> {Some (nd_transactionId n), Some (nd_transactionId m)}} = {n, m}"
proof -
  have nm: "nd_transferId n = Some (nd_transactionId m)"
    and m: "map_of (ix_byTransactionId ix) (nd_transactionId m) = Some m"
    using other by (auto simp: counterpartNode_def split: option.splits if_splits)
  have mem: "n \<in> set (window_nodes rows)" "m \<in> set (window_nodes rows)"
    using self m lookup_member by (auto simp: ix built_index)
  note v = valid [unfolded validate_None]
  have mn: "nd_transferId m = Some (nd_transactionId n)"
    using v window_node_id [OF mem(1)] by (auto simp: text_or_def split: option.splits if_splits)
  have e1: "(nd_transactionId n, nd_transactionId m) \<in> link_edges ix"
    using self nm m by (auto simp: link_edges_def pushed_iff [OF ix] known_def)
  have e2: "(nd_transactionId m, nd_transactionId n) \<in> link_edges ix"
    using self mn m by (auto simp: link_edges_def pushed_iff [OF ix] known_def)
  have comp: "(link_edges ix)\<^sup>* `` {nd_transactionId n} = {nd_transactionId n, nd_transactionId m}"
    by (rule component_of_pair) (use e1 v in auto)
  have comp': "(link_edges ix)\<^sup>* `` {nd_transactionId m} = {nd_transactionId n, nd_transactionId m}"
  proof
    show "(link_edges ix)\<^sup>* `` {nd_transactionId m} \<subseteq> {nd_transactionId n, nd_transactionId m}"
      using e1 comp by (auto intro: converse_rtrancl_into_rtrancl)
    show "{nd_transactionId n, nd_transactionId m} \<subseteq> (link_edges ix)\<^sup>* `` {nd_transactionId m}"
      using e2 by auto
  qed
  have "card (set (gatherTransferComponent (nd_transactionId m) ix)) = 2"
    using v by (simp add: component_reachable comp')
  then have "length (gatherTransferComponent (nd_transactionId m) ix) = 2"
    by (metis component_distinct distinct_card)
  then show "validateMutualTransferPair m n ix = None"
    using v nm window_node_id [OF mem(2)] by (auto simp: validate_None text_or_def)
  show "counterpartNode m ix = Some n" using mn self by (simp add: counterpartNode_def)
  have "k \<in> {n, m}" if k: "k \<in> set (window_nodes rows)"
    "nd_transferId k \<in> {Some (nd_transactionId n), Some (nd_transactionId m)}" for k
  proof -
    have "known ix (nd_transactionId k)" using k(1) lookup_known by (auto simp: known_def ix built_index)
    then have edge: "(t, nd_transactionId k) \<in> link_edges ix"
      if "nd_transferId k = Some t" "map_of (ix_byTransactionId ix) t = Some x" for t x
      using that k(1) by (auto simp: link_edges_def pushed_iff [OF ix])
    have "nd_transactionId k \<in> (link_edges ix)\<^sup>* `` {nd_transactionId n}"
      using k(2) edge [OF _ self] edge [OF _ m] e1 by (auto intro: converse_rtrancl_into_rtrancl)
    then have ids: "nd_transactionId k \<in> {nd_transactionId n, nd_transactionId m}" by (simp only: comp)
    have here: "map_of (ix_byTransactionId ix) (nd_transactionId k) = Some k"
    proof -
      have "nd_transactionId k \<notin> set (ix_duplicates ix)" using ids v by auto
      then show ?thesis using lookup_unique [OF k(1)] by (simp add: ix built_index)
    qed
    have "Some k = Some n \<or> Some k = Some m" using ids
    proof
      assume "nd_transactionId k = nd_transactionId n"
      then show ?thesis using here self by (simp only: simp_thms)
    next
      assume "nd_transactionId k \<in> {nd_transactionId m}"
      then show ?thesis using here m by (simp only: simp_thms singleton_iff)
    qed
    then show ?thesis by simp
  qed
  then show "{k \<in> set (window_nodes rows). nd_transferId k \<in> {Some (nd_transactionId n), Some (nd_transactionId m)}} = {n, m}"
    using mem nm mn by auto
  show "map_of (ix_byTransactionId ix) (nd_transactionId m) = Some m" by (rule m)
  show "nd_transferId n = Some (nd_transactionId m)" by (rule nm)
  show "nd_transferId m = Some (nd_transactionId n)" by (rule mn)
qed

section \<open>Both sides of a transfer are classified alike\<close>

lemma classified_fields [simp]:
  "lf_amount (classify_as l k r p i sp inc rv fp) = lf_amount l"
  "lf_id (classify_as l k r p i sp inc rv fp) = lf_id l"
  "cl_kind (classify_as l k r p i sp inc rv fp) = k"
  "cl_reason (classify_as l k r p i sp inc rv fp) = r"
  "cl_transferIdentity (classify_as l k r p i sp inc rv fp) = i"
  "cl_countsAsSpending (classify_as l k r p i sp inc rv fp) = sp"
  "cl_countsAsIncome (classify_as l k r p i sp inc rv fp) = inc"
  "cl_spendingExcluded (classify_as l k r p i sp inc rv fp) = (\<not> sp)"
  "cl_needsReview (classify_as l k r p i sp inc rv fp) = rv"
  "cl_reviewFingerprint (classify_as l k r p i sp inc rv fp) = fp"
  by (simp_all add: classify_as_def leaf.defs classified.defs)

text \<open>The context in which \<open>classifyTransactionLeaves\<close> classifies a leaf of a row.\<close>

definition row_context :: "row list \<Rightarrow> row \<Rightarrow> leaf \<Rightarrow> transfer_context" where
  "row_context rows r l =
     \<lparr>tc_transactionId = Some (lf_id l), tc_accountId = rw_accountId r,
      tc_transferIndex = Some (buildTransferIndex rows)\<rparr>"

definition window_leaf :: "row list \<Rightarrow> row \<Rightarrow> leaf \<Rightarrow> bool" where
  "window_leaf rows r l \<longleftrightarrow> r \<in> set rows \<and> tx_id (rw_transaction r) \<noteq> [] \<and> l \<in> set (transactionLeaves (rw_transaction r))"

definition pair_valid :: "classified \<Rightarrow> bool" where
  "pair_valid c \<longleftrightarrow> cl_kind c = Transfer \<and> (\<exists>s \<in> set_option (cl_transferIdentity c). sn_pairValid s)"

lemma leaf_node_fields [simp]:
  "nd_transferId (leaf_node r l) = lf_transferId l" "nd_amount (leaf_node r l) = lf_amount l"
  "nd_accountId (leaf_node r l) = text_or_none (rw_accountId r)"
  by (simp_all add: leaf_node_def)

lemma window_leaf_node:
  assumes "window_leaf rows r l" "hasTransferIdentityFields l"
  shows "leaf_node r l \<in> set (window_nodes rows)" "nd_transactionId (leaf_node r l) = lf_id l" "lf_id l \<noteq> []"
proof -
  show ne: "lf_id l \<noteq> []" using assms leaf_id_nonempty unfolding window_leaf_def by blast
  then show "nd_transactionId (leaf_node r l) = lf_id l" by (simp add: leaf_node_def)
  show "leaf_node r l \<in> set (window_nodes rows)"
    using assms by (auto simp: window_leaf_def window_nodes_def row_nodes_def)
qed

lemma snapshot_valid [simp]: "sn_pairValid (buildTransferIdentitySnapshot l n m ix w v) = v"
  by (simp add: buildTransferIdentitySnapshot_def)

lemma classify_pair:
  assumes w: "window_leaf rows r l" "hasTransferIdentityFields l" "ix = buildTransferIndex rows"
  shows "(\<exists>c. classifyLeaf l info (row_context rows r l) = Inr c \<and> pair_valid c) \<longleftrightarrow>
    js_safe_integer (lf_amount l) \<and> lf_transferId l \<noteq> Some (lf_id l) \<and> lf_id l \<notin> set (ix_duplicates ix) \<and>
    (\<exists>m. counterpartNode (leaf_node r l) ix = Some m \<and> validateMutualTransferPair (leaf_node r l) m ix = None)"
proof -
  note node = window_leaf_node [OF w(1,2)]
  have sid: "self_id l (row_context rows r l) = lf_id l"
    using node(3) by (simp add: self_id_def row_context_def text_or_def)
  have ctx: "tc_transferIndex (row_context rows r l) = Some ix" by (simp add: row_context_def w(3))
  have self: "self_node l (row_context rows r l) = leaf_node r l" if "lf_id l \<notin> set (ix_duplicates ix)"
    using that lookup_unique [OF node(1)] node(2) by (simp add: self_node_def sid ctx) (simp add: w(3) built_index)
  show ?thesis
    by (cases "lf_transferId l") (auto simp: classifyLeaf_def assessTransferIdentity_def Let_def sid self w(2) node
        pair_valid_def ctx counterpartNode_def split: option.splits if_splits)
qed

lemma pair_valid_identity:
  "classifyLeaf l info cx = Inr c \<Longrightarrow> pair_valid c \<Longrightarrow>
     hasTransferIdentityFields l \<and> lf_amount c = lf_amount l \<and> \<not> cl_countsAsSpending c \<and> \<not> cl_countsAsIncome c"
  by (auto simp: classifyLeaf_def assessTransferIdentity_def classify_category_def pair_valid_def Let_def
      split: assessment.splits if_splits)

lemma transfer_pair:
  assumes w: "window_leaf rows r l" and c: "classifyLeaf l info (row_context rows r l) = Inr c" "pair_valid c"
  shows "\<exists>r' l' c'. window_leaf rows r' l' \<and> classifyLeaf l' info (row_context rows r' l') = Inr c' \<and> pair_valid c' \<and>
    lf_transferId l = Some (lf_id l') \<and> lf_transferId l' = Some (lf_id l) \<and> lf_id l \<noteq> lf_id l' \<and>
    js_to_int (lf_amount c) \<noteq> 0 \<and> js_to_int (lf_amount c) + js_to_int (lf_amount c') = 0 \<and>
    (text_or_none (rw_accountId r) = None \<or> text_or_none (rw_accountId r') = None \<or> rw_accountId r \<noteq> rw_accountId r')"
proof -
  define ix where "ix = buildTransferIndex rows"
  let ?n = "leaf_node r l"
  have idf: "hasTransferIdentityFields l" "lf_amount c = lf_amount l" using pair_valid_identity [OF c] by simp_all
  note node = window_leaf_node [OF w idf(1)]
  from c classify_pair [OF w idf(1) ix_def] obtain m where fresh: "lf_id l \<notin> set (ix_duplicates ix)"
    and m: "counterpartNode ?n ix = Some m" "validateMutualTransferPair ?n m ix = None"
    by blast
  have self: "map_of (ix_byTransactionId ix) (nd_transactionId ?n) = Some ?n"
    using lookup_unique [OF node(1)] fresh node(2) by (simp add: ix_def built_index)
  note p = valid_pair_facts [OF ix_def self m]
  have "m \<in> set (window_nodes rows)" using p(1) lookup_member by (auto simp: ix_def built_index)
  then obtain r' l' where l': "window_leaf rows r' l'" "hasTransferIdentityFields l'" "m = leaf_node r' l'"
    "nd_transactionId m = lf_id l'"
    by (elim window_nodeE) (auto simp: window_leaf_def)
  note v = m(2) [unfolded validate_None]
  have "\<exists>c'. classifyLeaf l' info (row_context rows r' l') = Inr c' \<and> pair_valid c'"
    unfolding classify_pair [OF l'(1,2) ix_def] using v p(2-5) l'(3,4) node(2) by auto
  then obtain c' where c': "classifyLeaf l' info (row_context rows r' l') = Inr c'" "pair_valid c'" by blast
  have "lf_amount c' = lf_amount l'" using pair_valid_identity [OF c'] by simp
  then show ?thesis using l' c' p(2,3) v node(2) idf(2)
    by (intro exI [of _ r'] exI [of _ l'] exI [of _ c']) auto
qed

section \<open>The totals conserve the cents\<close>

definition spending_of :: "'a classified_scheme list \<Rightarrow> 'a classified_scheme list" where
  "spending_of cs = filter (\<lambda>c. cl_countsAsSpending c \<and> \<not> cl_countsAsIncome c) cs"

definition cents_sum :: "'a leaf_scheme list \<Rightarrow> int" where
  "cents_sum cs = (\<Sum>c\<leftarrow>cs. js_to_int (lf_amount c))"

definition cents_bound :: "'a leaf_scheme list \<Rightarrow> int" where
  "cents_bound cs = (\<Sum>c\<leftarrow>cs. \<bar>js_to_int (lf_amount c)\<bar>)"

lemma cents_sum_append [simp]: "cents_sum (xs @ ys) = cents_sum xs + cents_sum ys"
  and cents_sum_single [simp]: "cents_sum [c] = js_to_int (lf_amount c)" "cents_sum [] = 0"
  by (simp_all add: cents_sum_def)

lemma cents_bound_append: "cents_bound (xs @ ys) = cents_bound xs + cents_bound ys"
  by (simp add: cents_bound_def)

lemma cents_bound_nonneg: "0 \<le> cents_bound xs"
  by (auto simp: cents_bound_def intro!: sum_list_nonneg)

lemma cents_sum_bound: "\<bar>cents_sum (filter P cs)\<bar> \<le> cents_bound cs"
  by (induction cs) (auto simp: cents_sum_def cents_bound_def)

lemma safe_sum: "cents_bound cs \<le> max_safe \<Longrightarrow> safe_int (cents_sum (filter P cs)) \<and> safe_int (- cents_sum (filter P cs))"
  using cents_sum_bound [of P cs] by (auto simp: safe_int_def)

definition spend_fold :: "classified list \<Rightarrow> summary" where
  "spend_fold cs = foldl summary_step \<lparr>sm_spendingCents = [], sm_totalSpendCents = Fin 0, sm_totalIncomeCents = Fin 0\<rparr> cs"

abbreviation named :: "string \<Rightarrow> classified list \<Rightarrow> classified list" where
  "named name cs \<equiv> filter (\<lambda>c. spend_name c = name \<and> cl_countsAsSpending c \<and> \<not> cl_countsAsIncome c) cs"

lemma spend_fold_exact:
  assumes "\<forall>c \<in> set cs. js_safe_integer (lf_amount c)" "cents_bound cs \<le> max_safe"
    "spend_name ` set (spending_of cs) \<inter> set inherited_names = {}"
  shows "sm_totalIncomeCents (spend_fold cs) = js_of_int (cents_sum (filter cl_countsAsIncome cs)) \<and>
    sm_totalSpendCents (spend_fold cs) = js_of_int (- cents_sum (spending_of cs)) \<and>
    distinct (map fst (sm_spendingCents (spend_fold cs))) \<and>
    (\<forall>name. map_of (sm_spendingCents (spend_fold cs)) name =
       (if named name cs = [] then None else Some (js_of_int (- cents_sum (named name cs)))))"
  using assms
proof (induction cs rule: rev_induct)
  case Nil
  show ?case by (simp add: spend_fold_def spending_of_def)
next
  case (snoc c cs)
  have cb: "cents_bound cs \<le> max_safe"
    using snoc.prems(2) by (simp add: cents_bound_append) (use cents_bound_nonneg [of "[c]"] in linarith)
  have names: "spend_name ` set (spending_of cs) \<inter> set inherited_names = {}"
    using snoc.prems(3) by (auto simp: spending_of_def)
  have all_safe: "\<forall>c \<in> set cs. js_safe_integer (lf_amount c)" using snoc.prems(1) by simp
  note IH = snoc.IH [OF all_safe cb names]
  have ih: "sm_totalIncomeCents (spend_fold cs) = js_of_int (cents_sum (filter cl_countsAsIncome cs))"
    "sm_totalSpendCents (spend_fold cs) = js_of_int (- cents_sum (spending_of cs))"
    "distinct (map fst (sm_spendingCents (spend_fold cs)))"
    "map_of (sm_spendingCents (spend_fold cs)) name =
       (if named name cs = [] then None else Some (js_of_int (- cents_sum (named name cs))))" for name
    using IH by simp_all
  have safe: "js_safe_integer (lf_amount c)" using snoc.prems by simp
  note s0 = safe_sum [OF cb]
  note s1 = safe_sum [OF snoc.prems(2)]
  have step: "spend_fold (cs @ [c]) = summary_step (spend_fold cs) c" by (simp add: spend_fold_def)
  consider "cl_countsAsIncome c" | "\<not> cl_countsAsIncome c" "\<not> cl_countsAsSpending c"
    | "\<not> cl_countsAsIncome c" "cl_countsAsSpending c" by blast
  then show ?case
  proof cases
    case 1
    have "js_add (js_of_int (cents_sum (filter cl_countsAsIncome cs))) (lf_amount c) =
        js_of_int (cents_sum (filter cl_countsAsIncome cs) + js_to_int (lf_amount c))"
      by (rule js_add_exact [OF safe]) (use s0 [of cl_countsAsIncome] s1 [of cl_countsAsIncome] 1 in auto)
    then show ?thesis using ih 1 by (simp add: step summary_step_def spending_of_def)
  next
    case 2
    then show ?thesis using ih by (simp add: step summary_step_def spending_of_def)
  next
    case 3
    let ?k = "spend_name c"
    have k: "?k \<notin> set inherited_names" using snoc.prems(3) 3 by (auto simp: spending_of_def)
    then have proto: "?k \<noteq> ''__proto__''" by (auto simp: inherited_names_def)
    have total: "js_sub (js_of_int (- cents_sum (spending_of cs))) (lf_amount c) =
        js_of_int (- cents_sum (spending_of cs) - js_to_int (lf_amount c))"
      by (rule js_sub_exact [OF safe]) (use s0 s1 [of "\<lambda>c. cl_countsAsSpending c \<and> \<not> cl_countsAsIncome c"] 3
          in \<open>auto simp: spending_of_def\<close>)
    have "counter_of (sm_spendingCents (spend_fold cs)) ?k = js_of_int (- cents_sum (named ?k cs))"
      using k by (simp add: counter_of_def ih(4))
    moreover have "js_sub (js_of_int (- cents_sum (named ?k cs))) (lf_amount c) =
        js_of_int (- cents_sum (named ?k cs) - js_to_int (lf_amount c))"
      by (rule js_sub_exact [OF safe])
        (use s0 s1 [of "\<lambda>x. spend_name x = ?k \<and> cl_countsAsSpending x \<and> \<not> cl_countsAsIncome x"] 3 in auto)
    ultimately have "spend_in ?k (lf_amount c) (sm_spendingCents (spend_fold cs)) =
        AList.update ?k (js_of_int (- cents_sum (named ?k cs) - js_to_int (lf_amount c))) (sm_spendingCents (spend_fold cs))"
      using proto by (simp add: spend_in_def)
    then show ?thesis using 3 ih total
      by (auto simp: step summary_step_def spending_of_def update_conv' distinct_update)
  qed
qed

lemma cents_by_name:
  "finite A \<Longrightarrow> spend_name ` set xs \<subseteq> A \<Longrightarrow>
     cents_sum xs = (\<Sum>n\<in>A. cents_sum (filter (\<lambda>c. spend_name c = n) xs))"
proof (induction xs)
  case (Cons x xs)
  have "cents_sum (filter (\<lambda>c. spend_name c = n) (x # xs)) =
      (if spend_name x = n then js_to_int (lf_amount x) else 0) + cents_sum (filter (\<lambda>c. spend_name c = n) xs)" for n
    by (simp add: cents_sum_def)
  then have "(\<Sum>n\<in>A. cents_sum (filter (\<lambda>c. spend_name c = n) (x # xs))) =
      (\<Sum>n\<in>A. if spend_name x = n then js_to_int (lf_amount x) else 0) +
      (\<Sum>n\<in>A. cents_sum (filter (\<lambda>c. spend_name c = n) xs))"
    by (simp only: sum.distrib)
  also have "\<dots> = js_to_int (lf_amount x) + cents_sum xs"
    using Cons by (simp add: sum.delta')
  finally show ?case by (simp add: cents_sum_def)
qed simp

lemma alist_sum:
  "distinct (map fst m) \<Longrightarrow> (\<Sum>(k, v)\<leftarrow>m. f v) = (\<Sum>k\<in>fst ` set m. f (the (map_of m k)))"
proof (induction m)
  case (Cons p m)
  obtain k v where p: "p = (k, v)" by (cases p)
  have "(\<Sum>j\<in>fst ` set m. f (the (map_of (p # m) j))) = (\<Sum>j\<in>fst ` set m. f (the (map_of m j)))"
    using Cons.prems p by (intro sum.cong) auto
  then show ?case using Cons p by simp
qed simp

lemma drop_zero_sum: "(\<Sum>(k, v)\<leftarrow>drop_zero m. js_to_int v) = (\<Sum>(k, v)\<leftarrow>m. js_to_int v)"
proof -
  have "js_to_int v = 0" if "js_is_zero v" for v using that by (cases v) auto
  then show ?thesis by (induction m) (auto simp: drop_zero_def)
qed

lemma spending_values:
  assumes "distinct (map fst m)"
    and m: "\<forall>name. map_of m name = (if named name cs = [] then None else Some (js_of_int (- cents_sum (named name cs))))"
  shows "(\<Sum>(name, v)\<leftarrow>drop_zero m. js_to_int v) = - cents_sum (spending_of cs)"
    and "(name, v) \<in> set (drop_zero m) \<longleftrightarrow> v = js_of_int (- cents_sum (named name cs)) \<and> cents_sum (named name cs) \<noteq> 0"
proof -
  have same: "filter (\<lambda>c. spend_name c = n) (spending_of cs) = named n cs" for n
    by (simp add: spending_of_def conj_ac)
  have "n \<in> fst ` set m \<longleftrightarrow> n \<in> spend_name ` set (spending_of cs)" for n
  proof -
    have "n \<in> fst ` set m \<longleftrightarrow> map_of m n \<noteq> None" by (simp add: map_of_eq_None_iff)
    also have "\<dots> \<longleftrightarrow> named n cs \<noteq> []" using m by simp
    also have "\<dots> \<longleftrightarrow> filter (\<lambda>c. spend_name c = n) (spending_of cs) \<noteq> []" by (simp only: same)
    also have "\<dots> \<longleftrightarrow> n \<in> spend_name ` set (spending_of cs)" by (simp add: filter_empty_conv image_iff) blast
    finally show ?thesis .
  qed
  then have dom: "fst ` set m = spend_name ` set (spending_of cs)" by blast
  have "(\<Sum>(k, v)\<leftarrow>m. js_to_int v) = (\<Sum>k\<in>fst ` set m. js_to_int (the (map_of m k)))"
    by (rule alist_sum [OF assms(1)])
  also have "\<dots> = (\<Sum>k\<in>fst ` set m. - cents_sum (named k cs))"
  proof (rule sum.cong [OF refl])
    fix k assume "k \<in> fst ` set m"
    then have "map_of m k \<noteq> None" by (simp add: map_of_eq_None_iff)
    then show "js_to_int (the (map_of m k)) = - cents_sum (named k cs)"
      using m by (simp split: if_splits del: of_int_minus)
  qed
  also have "\<dots> = - cents_sum (spending_of cs)"
    using cents_by_name [of "spend_name ` set (spending_of cs)" "spending_of cs"]
    by (simp add: dom same sum_negf)
  finally show "(\<Sum>(name, v)\<leftarrow>drop_zero m. js_to_int v) = - cents_sum (spending_of cs)"
    by (simp add: drop_zero_sum)
  have "(name, v) \<in> set m \<longleftrightarrow> map_of m name = Some v" using assms(1) by (auto dest: map_of_SomeD)
  then show "(name, v) \<in> set (drop_zero m) \<longleftrightarrow>
      v = js_of_int (- cents_sum (named name cs)) \<and> cents_sum (named name cs) \<noteq> 0"
    using m by (auto simp: drop_zero_def cents_sum_def filter_empty_conv split: if_splits)
qed

text \<open>
  A category that is called like a property every object inherits spoils its own count: the first
  expense makes it \<^term>\<open>NaN\<close>.
\<close>

lemma inherited_name_poisons:
  "0 < q \<Longrightarrow> js_sub (counter_of [] ''constructor'') (Fin q) = NaN"
  by (simp add: counter_of_def inherited_names_def js_sub_def js_add_def)

section \<open>A window with one transfer\<close>

definition demo_tx :: "string \<Rightarrow> int \<Rightarrow> string \<Rightarrow> transaction" where
  "demo_tx i amount link = \<lparr>tx_id = i, tx_amount = js_of_int amount, tx_category = None, tx_notes = None,
     tx_transfer_id = LinkText link, tx_transferred_id = NoLink, tx_is_parent = False, tx_subtransactions = None\<rparr>"

definition demo_rows :: "row list" where
  "demo_rows = [\<lparr>rw_accountId = Some ''checking'', rw_transaction = demo_tx ''t1'' (- 500) ''t2''\<rparr>,
     \<lparr>rw_accountId = Some ''savings'', rw_transaction = demo_tx ''t2'' 500 ''t1''\<rparr>]"

definition demo_leaf :: leaf where
  "demo_leaf = hd (transactionLeaves (rw_transaction (hd demo_rows)))"

definition demo_classified :: classified where
  "demo_classified = (case classifyLeaf demo_leaf [] (row_context demo_rows (hd demo_rows) demo_leaf) of Inr c \<Rightarrow> c)"

lemma demo_classifies:
  "window_leaf demo_rows (hd demo_rows) demo_leaf"
  "classifyLeaf demo_leaf [] (row_context demo_rows (hd demo_rows) demo_leaf) = Inr demo_classified"
  "pair_valid demo_classified"
  by code_simp+
section \<open>Properties\<close>


text \<open>
  C24: where a leaf in the window is taken for one side of a valid transfer, its counterpart is in the
  window too, is taken for the other side, names it back, lies in another account when both accounts
  are known, and moves the opposite amount; so the two sides cancel.
\<close>

theorem transfer_sides_cancel:
  assumes "window_leaf rows r l"
    and "classifyLeaf l info (row_context rows r l) = Inr c" "pair_valid c"
  shows "\<exists>r' l' c'. window_leaf rows r' l' \<and> classifyLeaf l' info (row_context rows r' l') = Inr c' \<and> pair_valid c' \<and>
    lf_transferId l = Some (lf_id l') \<and> lf_transferId l' = Some (lf_id l) \<and> lf_id l \<noteq> lf_id l' \<and>
    js_to_int (lf_amount c) \<noteq> 0 \<and> js_to_int (lf_amount c) + js_to_int (lf_amount c') = 0 \<and>
    (text_or_none (rw_accountId r) = None \<or> text_or_none (rw_accountId r') = None \<or> rw_accountId r \<noteq> rw_accountId r')"
  using assms by (rule transfer_pair)

lemma transfer_sides_cancel_witness:
  "\<exists>r' l' c'. window_leaf demo_rows r' l' \<and> classifyLeaf l' [] (row_context demo_rows r' l') = Inr c' \<and> pair_valid c' \<and>
    lf_transferId l' = Some ''t1'' \<and> js_to_int (lf_amount c') = 500"
proof -
  have "lf_id demo_leaf = ''t1''" "js_to_int (lf_amount demo_classified) = - 500" by code_simp+
  then show ?thesis using transfer_sides_cancel [OF demo_classifies] by auto
qed

text \<open>
  C25: as long as the amounts stay safe integers and no category is called like a property every object
  inherits, the totals are exact: income and spending are the sums of the leaves that count as such,
  every name carries the spending of its leaves, a name without net spending is left out, and the
  spending by name adds up to the total.
\<close>

theorem summary_conserves:
  assumes "\<forall>c \<in> set cs. js_safe_integer (lf_amount c)" "cents_bound cs \<le> max_safe"
    and "spend_name ` set (spending_of cs) \<inter> set inherited_names = {}"
  shows "sm_totalIncomeCents (summarizeClassifiedLeaves cs) = js_of_int (cents_sum (filter cl_countsAsIncome cs)) \<and>
    sm_totalSpendCents (summarizeClassifiedLeaves cs) = js_of_int (- cents_sum (spending_of cs)) \<and>
    (\<Sum>(name, v)\<leftarrow>sm_spendingCents (summarizeClassifiedLeaves cs). js_to_int v) = - cents_sum (spending_of cs) \<and>
    (\<forall>name v. (name, v) \<in> set (sm_spendingCents (summarizeClassifiedLeaves cs)) \<longleftrightarrow>
       v = js_of_int (- cents_sum (named name cs)) \<and> cents_sum (named name cs) \<noteq> 0)"
proof -
  note ex = spend_fold_exact [OF assms]
  have "summarizeClassifiedLeaves cs =
      (spend_fold cs)\<lparr>sm_spendingCents := drop_zero (sm_spendingCents (spend_fold cs))\<rparr>"
    by (simp add: summarizeClassifiedLeaves_def spend_fold_def Let_def)
  then show ?thesis
    using ex spending_values [of "sm_spendingCents (spend_fold cs)" cs] by simp
qed

lemma summary_conserves_witness:
  "sm_totalSpendCents (summarizeClassifiedLeaves [demo_classified, classify_as demo_leaf Spend ''category:Food'' ''classification:category'' None True False False None]) = js_of_int 500"
proof -
  let ?cs = "[demo_classified, classify_as demo_leaf Spend ''category:Food'' ''classification:category'' None True False False None]"
  have safe: "\<forall>c \<in> set ?cs. js_safe_integer (lf_amount c)" by code_simp
  have bound: "cents_bound ?cs \<le> max_safe" by code_simp
  have names: "spend_name ` set (spending_of ?cs) \<inter> set inherited_names = {}" by code_simp
  have sum: "- cents_sum (spending_of ?cs) = 500" by code_simp
  show ?thesis
    using conjunct1 [OF conjunct2 [OF summary_conserves [OF safe bound names]]] by (simp only: sum)
qed

end
