(* ===== verification/ProjectionCompleteness.thy ===== *)
theory ProjectionCompleteness
  imports TransferClassification StableSort
begin

text \<open>
  Model of \<open>lib/domain/projection-completeness.js\<close> and \<open>lib/domain/spending-completeness-views.js\<close>:
  what a projection says when some transfer could not be resolved, the spending summary that then
  only names known subtotals, and the totals per merchant with the check that they conserve the
  spending. The collation of the platform (\<open>localeCompare\<close>) is a parameter.
\<close>

section \<open>Completeness\<close>

record completeness =
  co_complete :: bool
  co_incompleteReasons :: "string list"
  co_unresolvedCount :: int
  co_transferReasons :: "string list"

definition PROJECTION_INCOMPLETE_REASON :: string where
  "PROJECTION_INCOMPLETE_REASON = ''transfer_identity_unresolved''"

definition incomplete_leaf :: "'a classified_scheme \<Rightarrow> bool" where
  "incomplete_leaf c \<longleftrightarrow> cl_kind c = Incomplete \<and> cl_provenance c = ''classification:transfer_identity''"

definition completeness_of :: "bool \<Rightarrow> int \<Rightarrow> string list \<Rightarrow> completeness" where
  "completeness_of complete' unresolved reasons =
     \<lparr>co_complete = complete', co_incompleteReasons = (if complete' then [] else PROJECTION_INCOMPLETE_REASON # reasons),
      co_unresolvedCount = unresolved, co_transferReasons = reasons\<rparr>"

definition projectionCompletenessFromLeaves :: "'a classified_scheme list \<Rightarrow> completeness" where
  "projectionCompletenessFromLeaves cs =
     (let incomplete = filter incomplete_leaf cs;
          reasons = sort (js_dedupe (filter (\<lambda>r. r \<noteq> []) (map cl_reason incomplete)))
      in completeness_of (incomplete = []) (int (length incomplete)) reasons)"

text \<open>A part that is missing is \<^term>\<open>None\<close>.\<close>

definition mergeProjectionCompleteness :: "completeness option list \<Rightarrow> completeness" where
  "mergeProjectionCompleteness parts =
     (let items = map the (filter (\<lambda>p. p \<noteq> None) parts);
          reasons = sort (js_dedupe (concat (map co_transferReasons items)))
      in completeness_of (list_all co_complete items) (\<Sum>p\<leftarrow>items. co_unresolvedCount p) reasons)"

definition attachSpendingProjectionIncompleteness :: "completeness \<Rightarrow> completeness option \<Rightarrow> completeness" where
  "attachSpendingProjectionIncompleteness c spendingProjection =
     (case spendingProjection of
        None \<Rightarrow> c
      | Some p \<Rightarrow>
          if co_incompleteReasons p = [] then c
          else c\<lparr>co_complete := False,
                 co_incompleteReasons := js_dedupe (co_incompleteReasons c @ co_incompleteReasons p)\<rparr>)"

text \<open>A spending view is its completeness and what else it carries.\<close>

record 'a spending_view =
  sv_completeness :: completeness
  sv_rest :: 'a

record 'a views =
  vw_completeness :: completeness
  vw_comparison :: completeness
  vw_current :: "'a spending_view"

definition buildSpendingCompletenessViews ::
  "'a spending_view \<Rightarrow> 'a spending_view \<Rightarrow> completeness option \<Rightarrow> 'a views" where
  "buildSpendingCompletenessViews current previous spendingProjection =
     (let currentCompleteness = attachSpendingProjectionIncompleteness (sv_completeness current) spendingProjection;
          comparison = attachSpendingProjectionIncompleteness
            (mergeProjectionCompleteness [Some (sv_completeness current), Some (sv_completeness previous)])
            spendingProjection
      in \<lparr>vw_completeness = currentCompleteness, vw_comparison = comparison,
          vw_current = current\<lparr>sv_completeness := currentCompleteness\<rparr>\<rparr>)"

section \<open>The spending summary\<close>

record totals =
  to_spendCents :: jsnum
  to_incomeCents :: jsnum

definition totals_step :: "totals \<Rightarrow> 'a classified_scheme \<Rightarrow> totals" where
  "totals_step acc c =
     (if \<not> js_safe_integer (lf_amount c) then acc
      else if cl_countsAsIncome c then acc\<lparr>to_incomeCents := js_add (to_incomeCents acc) (lf_amount c)\<rparr>
      else if cl_countsAsSpending c then acc\<lparr>to_spendCents := js_sub (to_spendCents acc) (lf_amount c)\<rparr>
      else acc)"

definition spending_step :: "(string \<times> jsnum) list \<Rightarrow> 'a classified_scheme \<Rightarrow> (string \<times> jsnum) list" where
  "spending_step m c =
     (if \<not> cl_countsAsSpending c then m
      else spend_in (spend_name c) (lf_amount c) m)"

record spend_summary =
  ss_spending :: "(string \<times> jsnum) list"
  ss_totalSpend :: "jsnum option"
  ss_totalIncome :: "jsnum option"
  ss_knownSpendSubtotal :: "jsnum option"
  ss_knownIncomeSubtotal :: "jsnum option"
  ss_completeness :: completeness

definition spendSummaryFromClassifiedLeaves :: "'a classified_scheme list \<Rightarrow> spend_summary res" where
  "spendSummaryFromClassifiedLeaves cs =
     (let t = foldl totals_step \<lparr>to_spendCents = Fin 0, to_incomeCents = Fin 0\<rparr> cs;
          spendingCents = drop_zero (foldl spending_step [] cs);
          completeness = projectionCompletenessFromLeaves cs
      in ebind (emap (\<lambda>(name, cents). ebind (fromCents_num cents) (\<lambda>d. Inr (name, d))) spendingCents) (\<lambda>spending.
         ebind (fromCents_num (to_spendCents t)) (\<lambda>spend.
         ebind (fromCents_num (to_incomeCents t)) (\<lambda>income.
         if co_complete completeness
         then Inr \<lparr>ss_spending = spending, ss_totalSpend = Some spend, ss_totalIncome = Some income,
           ss_knownSpendSubtotal = None, ss_knownIncomeSubtotal = None, ss_completeness = completeness\<rparr>
         else Inr \<lparr>ss_spending = spending, ss_totalSpend = None, ss_totalIncome = None,
           ss_knownSpendSubtotal = Some spend, ss_knownIncomeSubtotal = Some income,
           ss_completeness = completeness\<rparr>))))"

section \<open>Totals per merchant\<close>

record trend_leaf = classified +
  tl_payee :: "string option"

record merchant =
  me_spendCents :: int
  me_count :: int

definition merchant_step :: "(string \<times> merchant) list \<Rightarrow> trend_leaf \<Rightarrow> (string \<times> merchant) list res" where
  "merchant_step merchants c =
     (if \<not> cl_countsAsSpending c \<or> \<not> js_safe_integer (lf_amount c) then Inr merchants
      else let payee = text_or (tl_payee c) ''(no payee)'';
               cur = (case map_of merchants payee of Some m \<Rightarrow> m | None \<Rightarrow> \<lparr>me_spendCents = 0, me_count = 0\<rparr>)
      in ebind (sumCents [me_spendCents cur, - js_to_int (lf_amount c)]) (\<lambda>s.
         Inr (AList.update payee \<lparr>me_spendCents = s, me_count = me_count cur + 1\<rparr> merchants)))"

fun merchant_fold :: "(string \<times> merchant) list \<Rightarrow> trend_leaf list \<Rightarrow> (string \<times> merchant) list res" where
  "merchant_fold merchants [] = Inr merchants"
| "merchant_fold merchants (c # cs) = ebind (merchant_step merchants c) (\<lambda>m. merchant_fold m cs)"

record trend =
  tr_payee :: string
  tr_spend :: jsnum
  tr_count :: int

text \<open>The comparison of the sort: larger magnitude first, then the larger spend, then the payee.\<close>

definition trend_le :: "(string \<Rightarrow> string \<Rightarrow> bool) \<Rightarrow> trend \<Rightarrow> trend \<Rightarrow> bool" where
  "trend_le collate a b =
     (let x = js_val (tr_spend a); y = js_val (tr_spend b) in
      \<bar>y\<bar> < \<bar>x\<bar> \<or> (\<bar>y\<bar> = \<bar>x\<bar> \<and> (y < x \<or> (y = x \<and> collate (tr_payee a) (tr_payee b)))))"

definition merchantTrendAggregateFromClassifiedLeaves ::
  "(string \<Rightarrow> string \<Rightarrow> bool) \<Rightarrow> trend_leaf list \<Rightarrow> trend list res" where
  "merchantTrendAggregateFromClassifiedLeaves collate cs =
     ebind (merchant_fold [] cs) (\<lambda>merchants.
     ebind (emap (\<lambda>(payee, m). ebind (fromCents (me_spendCents m)) (\<lambda>d.
       Inr \<lparr>tr_payee = payee, tr_spend = d, tr_count = me_count m\<rparr>)) merchants) (\<lambda>rows.
     Inr (sort_by (trend_le collate) rows)))"

record trends =
  ts_all :: "trend list"
  ts_top :: "trend list"
  ts_truncated :: bool
  ts_aggregateSpendCents :: int

definition merchantTrendsFromClassifiedLeaves ::
  "(string \<Rightarrow> string \<Rightarrow> bool) \<Rightarrow> nat \<Rightarrow> trend_leaf list \<Rightarrow> trends res" where
  "merchantTrendsFromClassifiedLeaves collate limit cs =
     ebind (merchantTrendAggregateFromClassifiedLeaves collate cs) (\<lambda>all.
     ebind (emap (\<lambda>r. toCents (JNum (tr_spend r))) all) (\<lambda>cents.
     ebind (sumCents cents) (\<lambda>aggregate.
     Inr \<lparr>ts_all = all, ts_top = take limit all, ts_truncated = (limit < length all),
          ts_aggregateSpendCents = aggregate\<rparr>)))"

definition merchantTrendsConservationOk :: "int \<Rightarrow> jsnum option \<Rightarrow> bool res" where
  "merchantTrendsConservationOk aggregateSpendCents totalSpend =
     (case totalSpend of
        None \<Rightarrow> Inr False
      | Some t \<Rightarrow>
          if \<not> js_is_finite t then Inr False
          else if \<not> safe_int aggregateSpendCents then Inr False
          else ebind (toCents (JNum t)) (\<lambda>c. Inr (aggregateSpendCents = c)))"

section \<open>Completeness of the parts and of the whole\<close>

lemma sorted_dedupe: "set xs = set ys \<Longrightarrow> sort (js_dedupe xs) = sort (js_dedupe (ys :: string list))"
  by (simp add: sorted_distinct_set_unique)

lemma completeness_concat:
  "mergeProjectionCompleteness (map (\<lambda>cs. Some (projectionCompletenessFromLeaves cs)) css) =
     projectionCompletenessFromLeaves (concat css)"
proof -
  have items: "map the (filter (\<lambda>p. p \<noteq> None) (map (\<lambda>cs. Some (projectionCompletenessFromLeaves cs)) css)) =
      map projectionCompletenessFromLeaves css"
    by (induction css) simp_all
  have complete': "list_all co_complete (map projectionCompletenessFromLeaves css) \<longleftrightarrow>
      filter incomplete_leaf (concat css) = []"
    by (induction css) (simp_all add: projectionCompletenessFromLeaves_def completeness_of_def Let_def)
  have unresolved: "(\<Sum>p\<leftarrow>map projectionCompletenessFromLeaves css. co_unresolvedCount p) =
      int (length (filter incomplete_leaf (concat css)))"
    by (induction css) (simp_all add: projectionCompletenessFromLeaves_def completeness_of_def Let_def)
  have reasons: "sort (js_dedupe (concat (map co_transferReasons (map projectionCompletenessFromLeaves css)))) =
      sort (js_dedupe (filter (\<lambda>r. r \<noteq> []) (map cl_reason (filter incomplete_leaf (concat css)))))"
    by (rule sorted_dedupe) (auto simp: projectionCompletenessFromLeaves_def completeness_of_def Let_def)
  show ?thesis
    unfolding mergeProjectionCompleteness_def items Let_def
    by (simp only: complete' unresolved reasons) (simp add: projectionCompletenessFromLeaves_def Let_def)
qed

section \<open>The merchants carry every cent\<close>

lemma update_sum:
  fixes f :: "'a \<Rightarrow> int"
  assumes "distinct (map fst m)"
  shows "(\<Sum>(k', x)\<leftarrow>AList.update k v m. f x) =
    (\<Sum>(k', x)\<leftarrow>m. f x) + f v - (case map_of m k of None \<Rightarrow> 0 | Some x \<Rightarrow> f x)"
  using assms
proof (induction m)
  case (Cons p m)
  obtain j x where p: "p = (j, x)" by (cases p)
  have "map_of m k = None" if "j = k" using Cons.prems p that by (simp add: map_of_eq_None_iff)
  then show ?case using Cons p by (auto split: option.splits)
qed simp

definition counted :: "'a classified_scheme list \<Rightarrow> 'a classified_scheme list" where
  "counted cs = filter (\<lambda>c. cl_countsAsSpending c \<and> js_safe_integer (lf_amount c)) cs"

definition merchant_cents :: "(string \<times> merchant) list \<Rightarrow> int" where
  "merchant_cents ms = (\<Sum>(k, m)\<leftarrow>ms. me_spendCents m)"

definition merchant_bound :: "(string \<times> merchant) list \<Rightarrow> int" where
  "merchant_bound ms = (\<Sum>(k, m)\<leftarrow>ms. \<bar>me_spendCents m\<bar>)"

lemma bound_Cons: "cents_bound (c # cs) = \<bar>js_to_int (lf_amount c)\<bar> + cents_bound cs"
  by (simp add: cents_bound_def)

lemma abs_le_bound: "(k, m) \<in> set ms \<Longrightarrow> \<bar>me_spendCents m\<bar> \<le> merchant_bound ms"
  unfolding merchant_bound_def by (rule member_le_sum_list) force+

lemma merchant_fold_conserves:
  assumes "distinct (map fst ms)" "merchant_bound ms + cents_bound cs \<le> max_safe"
  shows "\<exists>ms'. merchant_fold ms cs = Inr ms' \<and> distinct (map fst ms') \<and>
    merchant_cents ms' = merchant_cents ms - cents_sum (counted cs) \<and>
    merchant_bound ms' \<le> merchant_bound ms + cents_bound cs"
  using assms
proof (induction cs arbitrary: ms)
  case Nil
  then show ?case by (simp add: counted_def cents_bound_def)
next
  case (Cons c cs)
  have nn: "0 \<le> cents_bound cs" by (rule cents_bound_nonneg)
  show ?case
  proof (cases "cl_countsAsSpending c \<and> js_safe_integer (lf_amount c)")
    case False
    have "\<exists>ms'. merchant_fold ms cs = Inr ms' \<and> distinct (map fst ms') \<and>
        merchant_cents ms' = merchant_cents ms - cents_sum (counted cs) \<and>
        merchant_bound ms' \<le> merchant_bound ms + cents_bound cs"
      by (rule Cons.IH) (use Cons.prems in \<open>auto simp: bound_Cons\<close>)
    then show ?thesis using False by (auto simp: merchant_step_def counted_def bound_Cons)
  next
    case True
    define payee where "payee = text_or (tl_payee c) ''(no payee)''"
    define cur where "cur = (case map_of ms payee of Some m \<Rightarrow> m | None \<Rightarrow> \<lparr>me_spendCents = 0, me_count = 0\<rparr>)"
    define a where "a = js_to_int (lf_amount c)"
    have cur_le: "\<bar>me_spendCents cur\<bar> \<le> merchant_bound ms"
    proof (cases "map_of ms payee")
      case None
      have "0 \<le> merchant_bound ms" by (auto simp: merchant_bound_def intro!: sum_list_nonneg)
      then show ?thesis using None by (simp add: cur_def)
    next
      case (Some m)
      then show ?thesis using abs_le_bound [OF map_of_SomeD [OF Some]] by (simp add: cur_def)
    qed
    then have sum: "sumCents [me_spendCents cur, - a] = Inr (me_spendCents cur - a)"
      using Cons.prems(2) nn by (auto simp: sumCents_def safe_int_def bound_Cons a_def)
    let ?ms = "AList.update payee \<lparr>me_spendCents = me_spendCents cur - a, me_count = me_count cur + 1\<rparr> ms"
    have "merchant_step ms c = Inr ?ms"
      using True sum by (simp add: merchant_step_def payee_def cur_def a_def Let_def)
    moreover have d: "distinct (map fst ?ms)" using Cons.prems(1) by (simp add: distinct_update)
    moreover have cents: "merchant_cents ?ms = merchant_cents ms - a"
      unfolding merchant_cents_def by (subst update_sum [OF Cons.prems(1)]) (simp add: cur_def split: option.splits)
    moreover have "merchant_bound ?ms \<le> merchant_bound ms + \<bar>a\<bar>"
      unfolding merchant_bound_def by (subst update_sum [OF Cons.prems(1)]) (auto simp: cur_def split: option.splits)
    moreover have "\<exists>ms'. merchant_fold ?ms cs = Inr ms' \<and> distinct (map fst ms') \<and>
        merchant_cents ms' = merchant_cents ?ms - cents_sum (counted cs) \<and>
        merchant_bound ms' \<le> merchant_bound ?ms + cents_bound cs"
      by (rule Cons.IH [OF d]) (use calculation(4) Cons.prems(2) in \<open>simp add: bound_Cons a_def\<close>)
    ultimately show ?thesis using True
      by (auto simp: counted_def bound_Cons a_def cents_sum_def)
  qed
qed

section \<open>Sorting and summing back\<close>

lemma sumCents_bounded:
  assumes "(\<Sum>v\<leftarrow>vs. \<bar>v\<bar>) \<le> max_safe"
  shows "sumCents vs = Inr (sum_list vs)"
proof -
  have "\<bar>sum_list (take n vs)\<bar> \<le> max_safe" for n
  proof -
    have "\<bar>sum_list (take n vs)\<bar> \<le> (\<Sum>v\<leftarrow>take n vs. \<bar>v\<bar>)" by (rule sum_list_abs)
    also have "\<dots> \<le> (\<Sum>v\<leftarrow>take n vs. \<bar>v\<bar>) + (\<Sum>v\<leftarrow>drop n vs. \<bar>v\<bar>)"
    proof -
      have "0 \<le> (\<Sum>v\<leftarrow>drop n vs. \<bar>v\<bar>)" by (rule sum_list_nonneg) auto
      then show ?thesis by simp
    qed
    also have "\<dots> = (\<Sum>v\<leftarrow>vs. \<bar>v\<bar>)" by (metis append_take_drop_id map_append sum_list_append)
    finally show ?thesis using assms by simp
  qed
  moreover have "\<bar>v\<bar> \<le> (\<Sum>v\<leftarrow>vs. \<bar>v\<bar>)" if "v \<in> set vs" for v
    using that by (intro member_le_sum_list) auto
  then have "\<bar>v\<bar> \<le> max_safe" if "v \<in> set vs" for v using that assms by force
  ultimately show ?thesis by (auto simp: sumCents_def sum_from_Inr_iff safe_int_def)
qed

lemma emap_total: "(\<And>x. x \<in> set xs \<Longrightarrow> f x = Inr (g x)) \<Longrightarrow> emap f xs = Inr (map g xs)"
  by (induction xs) simp_all

definition dollars_of :: "int \<Rightarrow> jsnum" where
  "dollars_of c = (case fromCents c of Inr d \<Rightarrow> d)"

lemma dollars_roundtrip: "\<bar>c\<bar> < 2 ^ 51 \<Longrightarrow> fromCents c = Inr (dollars_of c) \<and> toCents (JNum (dollars_of c)) = Inr c"
  using cents_roundtrip [of c] by (auto simp: dollars_of_def)

lemma trends_conserve:
  assumes "cents_bound cs < 2 ^ 51"
  shows "\<exists>t. merchantTrendsFromClassifiedLeaves collate limit cs = Inr t \<and>
    ts_aggregateSpendCents t = - cents_sum (counted cs)"
proof -
  have small: "(2::int) ^ 51 \<le> max_safe" by (simp add: max_safe_def)
  obtain ms where ms: "merchant_fold [] cs = Inr ms" "distinct (map fst ms)"
    "merchant_cents ms = - cents_sum (counted cs)" "merchant_bound ms \<le> cents_bound cs"
    using merchant_fold_conserves [of "[]" cs] assms small by (auto simp: merchant_bound_def merchant_cents_def)
  define row where "row = (\<lambda>(payee, m :: merchant). \<lparr>tr_payee = payee, tr_spend = dollars_of (me_spendCents m), tr_count = me_count m\<rparr>)"
  have each: "\<bar>me_spendCents m\<bar> < 2 ^ 51" if "(k, m) \<in> set ms" for k m
    using abs_le_bound [OF that] ms(4) assms by linarith
  have rows: "emap (\<lambda>(payee, m). ebind (fromCents (me_spendCents m)) (\<lambda>d.
      Inr \<lparr>tr_payee = payee, tr_spend = d, tr_count = me_count m\<rparr>)) ms = Inr (map row ms)"
    by (rule emap_total) (auto simp: row_def dollars_roundtrip [OF each])
  let ?all = "sort_by (trend_le collate) (map row ms)"
  define cent where "cent = (\<lambda>r :: trend. case toCents (JNum (tr_spend r)) of Inr c \<Rightarrow> c)"
  have cent_row: "cent (row p) = me_spendCents (snd p)" if "p \<in> set ms" for p
    using dollars_roundtrip [OF each, of "fst p" "snd p"] that by (simp add: cent_def row_def case_prod_beta)
  have again: "emap (\<lambda>r. toCents (JNum (tr_spend r))) ?all = Inr (map cent ?all)"
  proof (rule emap_total)
    fix r assume "r \<in> set ?all"
    then obtain p where "p \<in> set ms" "r = row p" by auto
    then show "toCents (JNum (tr_spend r)) = Inr (cent r)"
      using dollars_roundtrip [OF each, of "fst p" "snd p"] by (simp add: cent_def row_def case_prod_beta)
  qed
  have perm: "mset (map cent ?all) = mset (map (me_spendCents \<circ> snd) ms)"
  proof -
    have "map cent (map row ms) = map (me_spendCents \<circ> snd) ms" by (simp add: cent_row)
    then show ?thesis by (metis mset_map mset_sort_by)
  qed
  have "(\<Sum>v\<leftarrow>map cent ?all. \<bar>v\<bar>) = sum_mset (image_mset abs (mset (map cent ?all)))"
    by (simp add: multiset.map_comp comp_assoc flip: sum_mset_sum_list)
  also have "\<dots> = (\<Sum>v\<leftarrow>map (me_spendCents \<circ> snd) ms. \<bar>v\<bar>)"
    by (simp only: perm) (simp add: multiset.map_comp comp_assoc flip: sum_mset_sum_list)
  also have "\<dots> = merchant_bound ms" by (simp add: merchant_bound_def case_prod_unfold comp_def)
  finally have "sumCents (map cent ?all) = Inr (sum_list (map cent ?all))"
    using ms(4) assms small by (intro sumCents_bounded) linarith
  moreover have "sum_list (map cent ?all) = merchant_cents ms"
  proof -
    have "sum_list (map cent ?all) = sum_mset (mset (map cent ?all))" by (simp only: sum_mset_sum_list)
    also have "\<dots> = sum_list (map (me_spendCents \<circ> snd) ms)" by (simp only: perm sum_mset_sum_list)
    finally show ?thesis by (simp add: merchant_cents_def case_prod_unfold comp_def)
  qed
  ultimately show ?thesis
    using ms(1,3) rows again
    by (simp add: merchantTrendsFromClassifiedLeaves_def merchantTrendAggregateFromClassifiedLeaves_def)
qed

lemma totals_exact:
  assumes "\<forall>c \<in> set cs. js_safe_integer (lf_amount c)" "cents_bound cs \<le> max_safe"
  shows "to_spendCents (foldl totals_step \<lparr>to_spendCents = Fin 0, to_incomeCents = Fin 0\<rparr> cs) =
    js_of_int (- cents_sum (spending_of cs))"
  using assms
proof (induction cs rule: rev_induct)
  case Nil
  show ?case by (simp add: spending_of_def cents_sum_def)
next
  case (snoc c cs)
  have cb: "cents_bound cs \<le> max_safe"
    using snoc.prems(2) by (simp add: cents_bound_append) (use cents_bound_nonneg [of "[c]"] in linarith)
  have s0: "safe_int (- cents_sum (spending_of cs))"
    and s1: "safe_int (- cents_sum (spending_of (cs @ [c])))"
    unfolding spending_of_def using safe_sum [OF cb] safe_sum [OF snoc.prems(2)] by blast+
  have ih: "to_spendCents (foldl totals_step \<lparr>to_spendCents = Fin 0, to_incomeCents = Fin 0\<rparr> cs) =
      js_of_int (- cents_sum (spending_of cs))"
    using snoc cb by simp
  show ?case
  proof (cases "cl_countsAsSpending c \<and> \<not> cl_countsAsIncome c")
    case True
    have "js_sub (js_of_int (- cents_sum (spending_of cs))) (lf_amount c) =
        js_of_int (- cents_sum (spending_of cs) - js_to_int (lf_amount c))"
      by (rule js_sub_exact) (use s0 s1 True snoc.prems(1) in \<open>auto simp: spending_of_def cents_sum_def\<close>)
    then show ?thesis using ih True snoc.prems(1)
      by (simp add: totals_step_def [of _ c] spending_of_def cents_sum_def)
  next
    case False
    then show ?thesis using ih by (auto simp: totals_step_def [of _ c] spending_of_def)
  qed
qed

lemma summary_total:
  assumes "spendSummaryFromClassifiedLeaves cs = Inr s"
    and "\<forall>c \<in> set cs. js_safe_integer (lf_amount c)" "cents_bound cs \<le> max_safe"
  shows "ss_totalSpend s =
    (if co_complete (ss_completeness s) then Some (dollars_of (- cents_sum (spending_of cs))) else None)"
proof -
  have "safe_int (- cents_sum (spending_of cs))" unfolding spending_of_def using safe_sum [OF assms(3)] by blast
  then have d: "fromCents_num (js_of_int (- cents_sum (spending_of cs))) = Inr (dollars_of (- cents_sum (spending_of cs)))"
    by (simp add: dollars_of_def fromCents_def fromCents_num_def)
  show ?thesis using assms(1)
    by (auto simp: spendSummaryFromClassifiedLeaves_def Let_def totals_exact [OF assms(2,3)] d res_simps
        simp del: of_int_minus split: if_splits)
qed

lemma conservation_check:
  assumes "\<bar>c\<bar> < 2 ^ 51"
  shows "merchantTrendsConservationOk c (if b then Some (dollars_of c) else None) = Inr b"
proof -
  have "js_is_finite (dollars_of c)"
    using dollars_roundtrip [OF assms] by (auto simp: toCents_num_def split: if_splits)
  moreover have "safe_int c" using assms by (simp add: safe_int_def max_safe_def)
  ultimately show ?thesis
    using dollars_roundtrip [OF assms] by (simp add: merchantTrendsConservationOk_def del: toCents.simps)
qed

section \<open>Properties\<close>

text \<open>
  completeness is compositional: merging what the parts of a projection report gives what the
  projection of all their leaves reports, reasons, their order and the count included.
\<close>

theorem completeness_compositional:
  "mergeProjectionCompleteness (map (\<lambda>cs. Some (projectionCompletenessFromLeaves cs)) css) =
     projectionCompletenessFromLeaves (concat css)"
  by (rule completeness_concat)

text \<open>
  C27: for any collation, the totals per merchant carry every cent of spending through the division to
  dollars, the sort and the conversion back, as long as the amounts stay below \<open>2 ^ 51\<close> cents; the
  check against the total of the same complete summary then holds.
\<close>

theorem merchant_trends_conserve:
  assumes "cents_bound cs < 2 ^ 51" "\<forall>c \<in> set cs. js_safe_integer (lf_amount c)"
    and "\<forall>c \<in> set cs. \<not> (cl_countsAsSpending c \<and> cl_countsAsIncome c)"
  shows "\<exists>t. merchantTrendsFromClassifiedLeaves collate limit cs = Inr t \<and>
    ts_aggregateSpendCents t = - cents_sum (spending_of cs) \<and>
    (\<forall>s. spendSummaryFromClassifiedLeaves cs = Inr s \<longrightarrow>
       merchantTrendsConservationOk (ts_aggregateSpendCents t) (ss_totalSpend s) = Inr (co_complete (ss_completeness s)))"
proof -
  have same: "counted cs = spending_of cs"
    unfolding counted_def spending_of_def by (rule filter_cong) (use assms in auto)
  obtain t where t: "merchantTrendsFromClassifiedLeaves collate limit cs = Inr t"
    "ts_aggregateSpendCents t = - cents_sum (spending_of cs)"
    using trends_conserve [OF assms(1)] same by metis
  moreover have "merchantTrendsConservationOk (ts_aggregateSpendCents t) (ss_totalSpend s) =
      Inr (co_complete (ss_completeness s))" if s: "spendSummaryFromClassifiedLeaves cs = Inr s" for s
  proof -
    have "\<bar>- cents_sum (spending_of cs)\<bar> < 2 ^ 51"
      unfolding spending_of_def abs_minus_cancel by (rule le_less_trans [OF cents_sum_bound assms(1)])
    moreover have "cents_bound cs \<le> max_safe" using assms(1) by (simp add: max_safe_def)
    ultimately show ?thesis
      using conservation_check t(2) by (simp add: summary_total [OF s assms(2)])
  qed
  ultimately show ?thesis by blast
qed

definition demo_trend_leaf :: "string \<Rightarrow> int \<Rightarrow> trend_leaf" where
  "demo_trend_leaf payee amount =
     \<lparr>lf_amount = js_of_int amount, lf_catId = None, lf_notes = None, lf_id = payee, lf_parentId = None, lf_isLeg = False,
      lf_transferId = None, lf_transferredId = None, cl_kind = Spend, cl_reason = ''category:Food'',
      cl_provenance = ''classification:category'', cl_transferIdentity = None, cl_countsAsSpending = True,
      cl_countsAsIncome = False, cl_spendingExcluded = False, cl_needsReview = False, cl_reviewFingerprint = None,
      tl_payee = Some payee\<rparr>"

lemma merchant_trends_conserve_witness:
  "\<exists>t. merchantTrendsFromClassifiedLeaves (\<lambda>_ _. True) 12
     [demo_trend_leaf ''Cafe'' (- 450), demo_trend_leaf ''Shop'' (- 1275), demo_trend_leaf ''Cafe'' 100] = Inr t \<and>
   ts_aggregateSpendCents t = 1625"
proof -
  let ?cs = "[demo_trend_leaf ''Cafe'' (- 450), demo_trend_leaf ''Shop'' (- 1275), demo_trend_leaf ''Cafe'' 100]"
  have bound: "cents_bound ?cs < 2 ^ 51" by code_simp
  have safe: "\<forall>c \<in> set ?cs. js_safe_integer (lf_amount c)" by code_simp
  have apart: "\<forall>c \<in> set ?cs. \<not> (cl_countsAsSpending c \<and> cl_countsAsIncome c)" by code_simp
  have "cents_sum (spending_of ?cs) = - 1625" by code_simp
  then show ?thesis using merchant_trends_conserve [OF bound safe apart, of "\<lambda>_ _. True" 12] by force
qed

end
