(* ===== verification/GoalFeasibility.thy ===== *)
theory GoalFeasibility
  imports Money JsString
begin

text \<open>
  Model of \<open>lib/domain/goal-feasibility.js\<close>: what is left of a savings goal, what it needs per month
  until its deadline, and whether the account it is kept in covers what its goals claim.

  Dates are texts \<open>YYYY-MM-DD\<close> and deadlines that pass the test of the code are \<open>YYYY-MM\<close>, so their
  parts are decimal numbers. A balance that is not a safe integer is any other number.
\<close>

section \<open>Data\<close>

record goal =
  gl_id :: string
  gl_accountId :: "string option"
  gl_target :: jsval
  gl_current :: jsval
  gl_deadline :: "string option"

record goal_account =
  ga_id :: string
  ga_role :: "string option"
  ga_closed :: bool
  ga_hidden :: bool

record account_status =
  st_status :: string
  st_role :: "string option"
  st_missing :: bool
  st_closed :: bool
  st_excluded :: bool

record allocation =
  al_accountId :: string
  al_role :: "string option"
  al_accountStatus :: string
  al_balanceUnavailable :: bool
  al_capacityCents :: "int option"
  al_allocatedCents :: int
  al_unallocatedCents :: "int option"
  al_overAllocatedCents :: "int option"
  al_goalIds :: "string list"

record feasibility =
  fs_remainingCents :: int
  fs_monthlyRequiredCents :: "int option"
  fs_deadlineOverdue :: bool
  fs_accountStatus :: string
  fs_accountRole :: "string option"
  fs_overAllocated :: bool
  fs_overAllocatedCents :: int
  fs_feasible :: "bool option"
  fs_advisoryOnly :: bool

section \<open>A goal alone\<close>

definition sub_cents :: "int \<Rightarrow> int \<Rightarrow> int" where
  "sub_cents a b = js_to_int (js_sub (js_of_int a) (js_of_int b))"

definition current_cents :: "goal \<Rightarrow> int res" where
  "current_cents g = toCents (if nullish (gl_current g) then JNum (Fin 0) else gl_current g)"

definition goalRemainingCents :: "goal \<Rightarrow> int res" where
  "goalRemainingCents g =
     ebind (toCents (gl_target g)) (\<lambda>target. ebind (current_cents g) (\<lambda>current.
       Inr (max 0 (sub_cents target current))))"

definition is_year_month :: "string \<Rightarrow> bool" where
  "is_year_month s \<longleftrightarrow> length s = 7 \<and> list_all is_digit (take 4 s) \<and> s ! 4 = CHR ''-'' \<and> list_all is_digit (drop 5 s)"

definition year_month :: "string \<Rightarrow> int \<times> int" where
  "year_month s = (int (dec_val (take 4 s)), int (dec_val (take 2 (drop 5 s))))"

record pressure =
  pr_months :: "int option"
  pr_overdue :: bool

definition deadlinePressure :: "string \<Rightarrow> string option \<Rightarrow> pressure" where
  "deadlinePressure financeDate deadline =
     (case deadline of
        None \<Rightarrow> \<lparr>pr_months = None, pr_overdue = False\<rparr>
      | Some d \<Rightarrow>
          if \<not> is_year_month d then \<lparr>pr_months = None, pr_overdue = False\<rparr>
          else case (year_month financeDate, year_month d) of ((nowYear, nowMonth), (endYear, endMonth)) \<Rightarrow>
            let monthsRaw = (endYear - nowYear) * 12 + endMonth - nowMonth + 1
            in \<lparr>pr_months = Some (max 1 monthsRaw), pr_overdue = (monthsRaw < 1)\<rparr>)"

definition ceilDiv :: "int \<Rightarrow> int \<Rightarrow> int res" where
  "ceilDiv numerator denominator =
     (if \<not> safe_int numerator \<or> \<not> safe_int denominator \<or> denominator \<le> 0
      then Inl (RangeError ''ceilDiv requires safe integer numerator and positive denominator'')
      else Inr (js_to_int (js_ceil (js_div (js_of_int numerator) (js_of_int denominator)))))"

section \<open>An account and its goals\<close>

definition account_state :: "string \<Rightarrow> string option \<Rightarrow> bool \<Rightarrow> bool \<Rightarrow> bool \<Rightarrow> account_status" where
  "account_state status role isMissing isClosed isExcluded =
     \<lparr>st_status = status, st_role = role, st_missing = isMissing, st_closed = isClosed, st_excluded = isExcluded\<rparr>"

definition accountStatusForGoal :: "goal_account option \<Rightarrow> string option \<Rightarrow> account_status" where
  "accountStatusForGoal account accountId =
     (if text_or_none accountId = None then account_state ''manual'' None False False False
      else case account of
        None \<Rightarrow> account_state ''missing'' None True False False
      | Some a \<Rightarrow>
          if ga_closed a then account_state ''closed'' (text_or_none (ga_role a)) False True False
          else if ga_role a = Some ''excluded'' then account_state ''excluded'' (ga_role a) False False True
          else if ga_hidden a then account_state ''hidden'' (text_or_none (ga_role a)) False False False
          else account_state ''linked'' (text_or_none (ga_role a)) False False False)"

definition linked_goals :: "goal list \<Rightarrow> string \<Rightarrow> goal list" where
  "linked_goals goals accountId = filter (\<lambda>g. gl_accountId g = Some accountId) goals"

text \<open>A missing balance (\<open>null\<close>) is \<^term>\<open>None\<close>.\<close>

definition accountAllocationSummary ::
  "goal list \<Rightarrow> string \<Rightarrow> int option \<Rightarrow> string option \<Rightarrow> string \<Rightarrow> bool \<Rightarrow> allocation res" where
  "accountAllocationSummary goals accountId balanceCents role accountStatus balanceUnavailable =
     (let linked = linked_goals goals accountId in
      ebind (emap current_cents linked) (\<lambda>currents. ebind (sumCents currents) (\<lambda>allocated.
        if balanceUnavailable \<or> balanceCents = None \<or> \<not> safe_int (the balanceCents)
        then Inr \<lparr>al_accountId = accountId, al_role = role, al_accountStatus = accountStatus,
          al_balanceUnavailable = True, al_capacityCents = None, al_allocatedCents = allocated,
          al_unallocatedCents = None, al_overAllocatedCents = None, al_goalIds = map gl_id linked\<rparr>
        else let capacity = max 0 (the balanceCents)
        in Inr \<lparr>al_accountId = accountId, al_role = role, al_accountStatus = accountStatus,
          al_balanceUnavailable = False, al_capacityCents = Some capacity, al_allocatedCents = allocated,
          al_unallocatedCents = Some (max 0 (sub_cents capacity allocated)),
          al_overAllocatedCents = Some (max 0 (sub_cents allocated capacity)), al_goalIds = map gl_id linked\<rparr>)))"

definition over_allocated :: "goal \<Rightarrow> allocation option \<Rightarrow> int" where
  "over_allocated g summary =
     (case summary of
        Some a \<Rightarrow> if text_or_none (gl_accountId g) \<noteq> None \<and> \<not> al_balanceUnavailable a
                  then the (al_overAllocatedCents a) else 0
      | None \<Rightarrow> 0)"

definition goal_feasible :: "goal \<Rightarrow> allocation option \<Rightarrow> account_status option \<Rightarrow> bool option" where
  "goal_feasible g summary accountStatus =
     (let linked = (text_or_none (gl_accountId g) \<noteq> None);
          status = (case accountStatus of Some s \<Rightarrow> st_status s
                    | None \<Rightarrow> if linked then ''linked'' else ''manual'')
      in if \<not> linked then None
         else if (\<exists>a \<in> set_option summary. al_balanceUnavailable a) then None
         else if (\<exists>s \<in> set_option accountStatus. st_missing s \<or> st_closed s) \<or> status = ''excluded''
         then Some False
         else Some (over_allocated g summary = 0))"

definition enrichGoalFeasibility ::
  "string \<Rightarrow> goal \<Rightarrow> allocation option \<Rightarrow> account_status option \<Rightarrow> feasibility res" where
  "enrichGoalFeasibility financeDate g summary accountStatus =
     ebind (goalRemainingCents g) (\<lambda>remaining.
       let p = deadlinePressure financeDate (gl_deadline g);
           linked = (text_or_none (gl_accountId g) \<noteq> None);
           unavailable = (\<exists>a \<in> set_option summary. al_balanceUnavailable a);
           over = over_allocated g summary in
       ebind (case pr_months p of None \<Rightarrow> Inr None | Some m \<Rightarrow> ebind (ceilDiv remaining m) (\<lambda>c. Inr (Some c)))
         (\<lambda>monthly.
       Inr \<lparr>fs_remainingCents = remaining, fs_monthlyRequiredCents = monthly,
         fs_deadlineOverdue = pr_overdue p,
         fs_accountStatus = (case accountStatus of Some s \<Rightarrow> st_status s
            | None \<Rightarrow> if linked then ''linked'' else ''manual''),
         fs_accountRole = (case Option.bind accountStatus st_role of Some r \<Rightarrow> Some r
            | None \<Rightarrow> Option.bind summary al_role),
         fs_overAllocated = (linked \<and> \<not> unavailable \<and> 0 < over),
         fs_overAllocatedCents = (if linked \<and> \<not> unavailable then over else 0),
         fs_feasible = goal_feasible g summary accountStatus, fs_advisoryOnly = True\<rparr>))"

text \<open>\<open>new Map(accounts.map(...))\<close>: the last account of an id counts.\<close>

definition account_by_id :: "goal_account list \<Rightarrow> string \<Rightarrow> goal_account option" where
  "account_by_id accounts i = find (\<lambda>a. ga_id a = i) (rev accounts)"

definition safe_balance :: "jsnum option \<Rightarrow> int option" where
  "safe_balance raw = (case raw of Some n \<Rightarrow> if js_safe_integer n then Some (js_to_int n) else None | None \<Rightarrow> None)"

definition goal_account_ids :: "goal list \<Rightarrow> string list" where
  "goal_account_ids goals = js_dedupe (map the (filter (\<lambda>a. a \<noteq> None) (map (\<lambda>g. text_or_none (gl_accountId g)) goals)))"

definition account_summary ::
  "goal list \<Rightarrow> goal_account list \<Rightarrow> (string \<times> jsnum) list \<Rightarrow> string \<Rightarrow> allocation res" where
  "account_summary goals accounts balances accountId =
     (let status = accountStatusForGoal (account_by_id accounts accountId) (Some accountId);
          raw = map_of balances accountId;
          unavailable = (raw \<noteq> None \<and> safe_balance raw = None)
      in if st_missing status \<or> st_closed status
         then accountAllocationSummary goals accountId (Some 0) (st_role status) (st_status status) False
         else accountAllocationSummary goals accountId (safe_balance raw) (st_role status) (st_status status) unavailable)"

definition buildAccountSummaries ::
  "goal list \<Rightarrow> goal_account list \<Rightarrow> (string \<times> jsnum) list \<Rightarrow> allocation list res" where
  "buildAccountSummaries goals accounts balances =
     emap (account_summary goals accounts balances) (goal_account_ids goals)"

section \<open>The response\<close>

record advisory =
  ad_complete :: bool
  ad_advisoryOnly :: bool
  ad_incompleteReasons :: "string list"
  ad_totalRemainingCents :: int
  ad_monthlyPressureCents :: int
  ad_overAllocatedAccounts :: "allocation list"
  ad_overAllocatedAccountCount :: nat

text \<open>A goal with what \<open>enrichGoalsResponse\<close> adds to it, if it has been enriched.\<close>

definition remaining_of :: "goal \<times> feasibility option \<Rightarrow> int res" where
  "remaining_of gf =
     (case snd gf of
        Some f \<Rightarrow> if safe_int (fs_remainingCents f) then Inr (fs_remainingCents f) else goalRemainingCents (fst gf)
      | None \<Rightarrow> goalRemainingCents (fst gf))"

definition monthly_values :: "(goal \<times> feasibility option) list \<Rightarrow> int list" where
  "monthly_values goals =
     filter safe_int (map the (filter (\<lambda>m. m \<noteq> None) (map (\<lambda>gf. Option.bind (snd gf) fs_monthlyRequiredCents) goals)))"

definition buildGoalAdvisory ::
  "(goal \<times> feasibility option) list \<Rightarrow> allocation list \<Rightarrow> string list \<Rightarrow> advisory res" where
  "buildGoalAdvisory goals summaries incompleteReasons =
     ebind (emap remaining_of goals) (\<lambda>remainings. ebind (sumCents remainings) (\<lambda>totalRemaining.
     ebind (sumCents (monthly_values goals)) (\<lambda>monthly.
       let over = filter (\<lambda>s. \<not> al_balanceUnavailable s \<and> 0 < the (al_overAllocatedCents s)) summaries;
           reasons = js_dedupe (filter (\<lambda>r. r \<noteq> []) incompleteReasons)
       in Inr \<lparr>ad_complete = (reasons = []), ad_advisoryOnly = True, ad_incompleteReasons = reasons,
            ad_totalRemainingCents = totalRemaining, ad_monthlyPressureCents = monthly,
            ad_overAllocatedAccounts = over, ad_overAllocatedAccountCount = length over\<rparr>)))"

record enriched_goal =
  eg_goal :: goal
  eg_monthlyRequired :: "jsnum option"
  eg_feasibility :: feasibility
  eg_remaining :: jsnum

record priced_allocation =
  pa_summary :: allocation
  pa_capacity :: "jsnum option"
  pa_allocated :: jsnum
  pa_unallocated :: "jsnum option"
  pa_overAllocated :: "jsnum option"

record goals_response =
  gr_goals :: "enriched_goal list"
  gr_accountSummaries :: "priced_allocation list"
  gr_goalAdvisory :: advisory

definition opt_dollars :: "int option \<Rightarrow> jsnum option res" where
  "opt_dollars c = (case c of None \<Rightarrow> Inr None | Some v \<Rightarrow> ebind (fromCents v) (\<lambda>d. Inr (Some d)))"

definition enrich_goal ::
  "goal_account list \<Rightarrow> string \<Rightarrow> allocation list \<Rightarrow> goal \<Rightarrow> enriched_goal res" where
  "enrich_goal accounts financeDate summaries g =
     (let account = Option.bind (text_or_none (gl_accountId g)) (account_by_id accounts);
          status = accountStatusForGoal account (gl_accountId g);
          summary = Option.bind (text_or_none (gl_accountId g)) (\<lambda>i. find (\<lambda>s. al_accountId s = i) (rev summaries))
      in ebind (enrichGoalFeasibility financeDate g summary (Some status)) (\<lambda>f.
         ebind (opt_dollars (fs_monthlyRequiredCents f)) (\<lambda>monthly.
         ebind (fromCents (fs_remainingCents f)) (\<lambda>remaining.
         Inr \<lparr>eg_goal = g, eg_monthlyRequired = monthly, eg_feasibility = f, eg_remaining = remaining\<rparr>))))"

definition price_summary :: "allocation \<Rightarrow> priced_allocation res" where
  "price_summary s =
     ebind (opt_dollars (al_capacityCents s)) (\<lambda>capacity. ebind (fromCents (al_allocatedCents s)) (\<lambda>allocated.
     ebind (opt_dollars (al_unallocatedCents s)) (\<lambda>unallocated. ebind (opt_dollars (al_overAllocatedCents s)) (\<lambda>over.
       Inr \<lparr>pa_summary = s, pa_capacity = capacity, pa_allocated = allocated, pa_unallocated = unallocated,
            pa_overAllocated = over\<rparr>))))"

definition enrichGoalsResponse ::
  "goal list \<Rightarrow> goal_account list \<Rightarrow> (string \<times> jsnum) list \<Rightarrow> string \<Rightarrow> string list \<Rightarrow> goals_response res" where
  "enrichGoalsResponse goals accounts balances financeDate balanceIncompleteReasons =
     ebind (buildAccountSummaries goals accounts balances) (\<lambda>summaries.
     ebind (emap (enrich_goal accounts financeDate summaries) goals) (\<lambda>enriched.
     ebind (emap price_summary summaries) (\<lambda>priced.
     ebind (buildGoalAdvisory (map (\<lambda>e. (eg_goal e, Some (eg_feasibility e))) enriched) summaries
       balanceIncompleteReasons) (\<lambda>advisory.
     Inr \<lparr>gr_goals = enriched, gr_accountSummaries = priced, gr_goalAdvisory = advisory\<rparr>))))"

section \<open>Rounding does not change what is compared\<close>

lemma js_sub_ints:
  assumes "safe_int a" "safe_int b"
  shows "sub_cents a b = (if safe_int (a - b) then a - b else js_to_int (round64 (of_int (a - b))))"
proof (cases "safe_int (a - b)")
  case True
  then show ?thesis using js_sub_exact [of "js_of_int b" a] assms by (simp add: sub_cents_def del: of_int_diff)
next
  case False
  then have "\<not> (a = 0 \<and> b = 0)" "b \<noteq> 0" using assms by (auto simp: safe_int_def max_safe_def)
  then show ?thesis using False by (simp add: sub_cents_def js_sub_def js_add_def)
qed

lemma sub_cents_sign:
  assumes "safe_int a" "safe_int b"
  shows "0 < sub_cents a b \<longleftrightarrow> b < a"
proof (cases "safe_int (a - b)")
  case True
  then show ?thesis by (simp add: js_sub_ints [OF assms])
next
  case False
  let ?x = "of_int (a - b) :: rat"
  have big: "2 ^ 53 \<le> \<bar>a - b\<bar>" "\<bar>a - b\<bar> \<le> 2 ^ 54"
    using False assms by (auto simp: safe_int_def max_safe_def)
  have x: "2 ^ 53 \<le> \<bar>?x\<bar>" "\<bar>?x\<bar> \<le> 2 ^ 54"
    using big of_int_le_iff [where 'a = rat, of "2 ^ 53" "\<bar>a - b\<bar>"] of_int_le_iff [where 'a = rat, of "\<bar>a - b\<bar>" "2 ^ 54"]
    by simp_all
  have "(2::rat) powi (- 1022) \<le> 2 powi 53" "(2::rat) powi 54 < 2 powi 1000" by (simp_all only: powi_mono_le powi_mono_less)
  then have n: "2 powi (- 1022) \<le> \<bar>?x\<bar>" "\<bar>?x\<bar> < 2 powi 1000" using x by (auto simp: power_int_def)
  have "\<bar>round_rat ?x - ?x\<bar> \<le> \<bar>?x\<bar> * 2 powi (- 53)" by (rule round_rat_relative_error [OF n(1)])
  also have "\<dots> \<le> 2 ^ 54 * 2 powi (- 53)" using x(2) by (intro mult_right_mono) auto
  finally have e: "\<bar>round_rat ?x - ?x\<bar> \<le> 2" by (simp add: power_int_def power_divide)
  have "sub_cents a b = \<lfloor>round_rat ?x\<rfloor>"
    using False round64_normal [OF n] by (simp add: js_sub_ints [OF assms] del: of_int_diff)
  moreover have "0 < \<lfloor>round_rat ?x\<rfloor> \<longleftrightarrow> 1 \<le> round_rat ?x" by linarith
  moreover have "1 \<le> round_rat ?x \<longleftrightarrow> 0 < ?x"
  proof (cases "0 < ?x")
    case True
    then have "(2::rat) ^ 53 \<le> ?x" using x(1) by linarith
    then have "1 \<le> round_rat ?x" using e by (simp add: abs_le_iff)
    with True show ?thesis by blast
  next
    case False
    then have "?x \<le> - (2 ^ 53 :: rat)" using x(1) by linarith
    then have "\<not> 1 \<le> round_rat ?x" using e by (simp add: abs_le_iff)
    with False show ?thesis by blast
  qed
  ultimately show ?thesis by simp
qed

lemma ceilDiv_exact:
  assumes "ceilDiv n k = Inr m" "0 \<le> n"
  shows "m = - ((- n) div k) \<and> 0 < k"
proof -
  have s: "safe_int n" "safe_int k" "0 < k" using assms(1) by (auto simp: ceilDiv_def split: if_splits)
  show ?thesis
  proof (cases "n = 0")
    case True
    then show ?thesis using assms(1) s by (simp add: ceilDiv_def js_div_def js_zero_def)
  next
    case False
    have b: "1 \<le> n" "n < 2 ^ 53" "k \<le> 2 ^ 53" using False assms(2) s by (auto simp: safe_int_def max_safe_def)
    have "m = \<lceil>round_rat (of_int n / of_int k)\<rceil>"
      using assms(1) s False b(1) by (auto simp: ceilDiv_def round64_quotient [OF b(1,2) s(3) b(3)] Let_def split: if_splits)
    then show ?thesis using ceil_round_div [OF assms(2) b(2) s(3) b(3)] s(3) by simp
  qed
qed

lemma ceil_bounds:
  fixes n k :: int
  assumes "0 < k"
  shows "n \<le> - ((- n) div k) * k" "- ((- n) div k) * k < n + k"
proof -
  have e: "- n = (- n) div k * k + (- n) mod k" by (simp only: div_mult_mod_eq)
  have r: "0 \<le> (- n) mod k" "(- n) mod k < k" using assms by simp_all
  have m: "- ((- n) div k) * k = - ((- n) div k * k)" by (rule mult_minus_left)
  show "n \<le> - ((- n) div k) * k" "- ((- n) div k) * k < n + k" unfolding m using e r by linarith+
qed

section \<open>Allocations of an account\<close>

lemma allocation_facts:
  assumes "accountAllocationSummary goals i balance role status unavailable = Inr a"
  shows "\<exists>currents. emap current_cents (linked_goals goals i) = Inr currents \<and> al_allocatedCents a = sum_list currents \<and>
    al_accountId a = i \<and>
    (al_balanceUnavailable a \<longleftrightarrow> unavailable \<or> balance = None \<or> \<not> safe_int (the balance)) \<and>
    (\<not> al_balanceUnavailable a \<longrightarrow>
       (the (al_overAllocatedCents a) = 0 \<longleftrightarrow> sum_list currents \<le> max 0 (the balance)) \<and> 0 \<le> the (al_overAllocatedCents a))"
proof -
  obtain currents t where c: "emap current_cents (linked_goals goals i) = Inr currents" and t: "sumCents currents = Inr t"
    using assms by (auto simp: accountAllocationSummary_def Let_def res_simps split: if_splits)
  have fields: "al_allocatedCents a = t" "al_accountId a = i"
    "al_balanceUnavailable a \<longleftrightarrow> unavailable \<or> balance = None \<or> \<not> safe_int (the balance)"
    "\<not> al_balanceUnavailable a \<longrightarrow> the (al_overAllocatedCents a) = max 0 (sub_cents t (max 0 (the balance)))"
    using assms c t by (auto simp: accountAllocationSummary_def Let_def split: if_splits)
  have sum: "t = sum_list currents" "safe_int t" using sumCents_Inr [OF t] sumCents_safe [OF t] by simp_all
  have "the (al_overAllocatedCents a) = 0 \<longleftrightarrow> t \<le> max 0 (the balance)"
    "0 \<le> the (al_overAllocatedCents a)" if "\<not> al_balanceUnavailable a"
  proof -
    have "safe_int (max 0 (the balance))" using that fields(3) by (auto simp: safe_int_def max_safe_def max_def)
    from sub_cents_sign [OF sum(2) this]
    show "the (al_overAllocatedCents a) = 0 \<longleftrightarrow> t \<le> max 0 (the balance)"
      "0 \<le> the (al_overAllocatedCents a)" using that fields(4) by auto
  qed
  then show ?thesis using c fields sum(1) by auto
qed

lemma account_summary_id: "account_summary goals accounts balances i = Inr a \<Longrightarrow> al_accountId a = i"
  by (auto simp: account_summary_def Let_def dest!: allocation_facts split: if_splits)

lemma summary_found:
  assumes "buildAccountSummaries goals accounts balances = Inr ss" "i \<in> set (goal_account_ids goals)"
  shows "\<exists>a. find (\<lambda>s. al_accountId s = i) (rev ss) = Some a \<and> account_summary goals accounts balances i = Inr a"
proof -
  note em = assms(1) [unfolded buildAccountSummaries_def]
  obtain y where "y \<in> set ss" "al_accountId y = i"
    using emap_member' [OF em assms(2)] account_summary_id by blast
  then obtain a where f: "find (\<lambda>s. al_accountId s = i) (rev ss) = Some a"
    by (cases "find (\<lambda>s. al_accountId s = i) (rev ss)") (auto simp: find_None_iff)
  then have "a \<in> set ss" "al_accountId a = i" by (auto dest: find_SomeD)
  then show ?thesis using f emap_member [OF em] account_summary_id by blast
qed

lemma account_summary_facts:
  assumes "account_summary goals accounts balances i = Inr a" "i \<noteq> []"
  defines "st \<equiv> accountStatusForGoal (account_by_id accounts i) (Some i)"
  shows "st_missing st \<or> st_closed st \<or>
    (case safe_balance (map_of balances i) of
       None \<Rightarrow> al_balanceUnavailable a
     | Some b \<Rightarrow> \<not> al_balanceUnavailable a \<and> (\<exists>currents. emap current_cents (linked_goals goals i) = Inr currents \<and>
         (the (al_overAllocatedCents a) = 0 \<longleftrightarrow> sum_list currents \<le> max 0 b)))"
proof (cases "st_missing st \<or> st_closed st")
  case False
  have "accountAllocationSummary goals i (safe_balance (map_of balances i)) (st_role st) (st_status st)
      (map_of balances i \<noteq> None \<and> safe_balance (map_of balances i) = None) = Inr a"
    using assms(1) False by (auto simp: account_summary_def st_def Let_def)
  note f = allocation_facts [OF this]
  show ?thesis
  proof (cases "safe_balance (map_of balances i)")
    case None
    then show ?thesis using f by auto
  next
    case (Some b)
    then have "safe_int b"
      by (auto simp: safe_balance_def safe_to_int split: option.splits if_splits)
    then show ?thesis using f Some by auto
  qed
qed blast

lemma status_blocks:
  assumes "i \<noteq> []"
  shows "st_missing (accountStatusForGoal a (Some i)) \<or> st_closed (accountStatusForGoal a (Some i)) \<or>
      st_status (accountStatusForGoal a (Some i)) = ''excluded'' \<longleftrightarrow>
    \<not> (\<exists>x. a = Some x \<and> \<not> ga_closed x \<and> ga_role x \<noteq> Some ''excluded'')"
  using assms by (cases a) (auto simp: accountStatusForGoal_def account_state_def text_or_none_def)

lemma enriched_feasible:
  "enrichGoalFeasibility date g summary st = Inr f \<Longrightarrow> fs_feasible f = goal_feasible g summary st"
  by (auto simp: enrichGoalFeasibility_def Let_def res_simps)

lemma goal_account_idsI:
  assumes "g \<in> set goals" "text_or_none (gl_accountId g) = Some i"
  shows "i \<in> set (goal_account_ids goals)"
proof -
  have "Some i \<in> set (filter (\<lambda>a. a \<noteq> None) (map (\<lambda>g. text_or_none (gl_accountId g)) goals))"
    using assms by (metis (mono_tags, lifting) mem_Collect_eq image_eqI list.set_map set_filter option.distinct(1))
  then show ?thesis unfolding goal_account_ids_def set_js_dedupe by (metis image_eqI list.set_map option.sel)
qed

lemma goal_feasible_iff:
  assumes ss: "buildAccountSummaries goals accounts balances = Inr ss" and g: "g \<in> set goals"
    and e: "enrich_goal accounts date ss g = Inr e"
  shows "eg_goal e = g \<and> (fs_feasible (eg_feasibility e) = Some True \<longleftrightarrow>
    (\<exists>i a b currents. text_or_none (gl_accountId g) = Some i \<and> account_by_id accounts i = Some a \<and>
       \<not> ga_closed a \<and> ga_role a \<noteq> Some ''excluded'' \<and> safe_balance (map_of balances i) = Some b \<and>
       emap current_cents (linked_goals goals i) = Inr currents \<and> sum_list currents \<le> max 0 b))"
proof (cases "text_or_none (gl_accountId g)")
  case None
  then show ?thesis using e
    by (auto simp: enrich_goal_def Let_def res_simps enrichGoalFeasibility_def goal_feasible_def)
next
  case (Some i)
  then have i: "gl_accountId g = Some i" "i \<noteq> []" by (auto simp: text_or_none_def split: if_splits)
  have mem: "i \<in> set (goal_account_ids goals)" using goal_account_idsI [OF g Some] .
  define st where "st = accountStatusForGoal (account_by_id accounts i) (Some i)"
  obtain s where s: "find (\<lambda>s. al_accountId s = i) (rev ss) = Some s" "account_summary goals accounts balances i = Inr s"
    using summary_found [OF ss mem] by blast
  have fe: "eg_goal e = g \<and> fs_feasible (eg_feasibility e) = goal_feasible g (Some s) (Some st)"
  proof -
    have ti: "text_or_none (Some i) = Some i" using i(2) by (simp add: text_or_none_def)
    have "\<exists>f. enrichGoalFeasibility date g (Some s) (Some st) = Inr f \<and> eg_feasibility e = f \<and> eg_goal e = g"
      using e by (auto simp: enrich_goal_def Let_def res_simps i(1) ti s(1) st_def)
    then show ?thesis using enriched_feasible by blast
  qed
  note facts = account_summary_facts [OF s(2) i(2), folded st_def]
  note blocks = status_blocks [OF i(2), of "account_by_id accounts i", folded st_def]
  show ?thesis
  proof (cases "st_missing st \<or> st_closed st \<or> st_status st = ''excluded''")
    case True
    then have "goal_feasible g (Some s) (Some st) \<noteq> Some True" using Some by (auto simp: goal_feasible_def)
    then show ?thesis using fe blocks True Some by auto
  next
    case False
    have "goal_feasible g (Some s) (Some st) =
        (if al_balanceUnavailable s then None else Some (the (al_overAllocatedCents s) = 0))"
      using False Some by (simp add: goal_feasible_def over_allocated_def)
    moreover have "(if al_balanceUnavailable s then None else Some (the (al_overAllocatedCents s) = 0)) = Some True \<longleftrightarrow>
        (\<exists>b currents. safe_balance (map_of balances i) = Some b \<and>
           emap current_cents (linked_goals goals i) = Inr currents \<and> sum_list currents \<le> max 0 b)"
      using facts False by (auto split: option.splits)
    ultimately show ?thesis using fe blocks False Some by auto
  qed
qed

lemma plan_bounds:
  assumes "enrichGoalFeasibility date g summary st = Inr f" "fs_monthlyRequiredCents f = Some m"
  shows "\<exists>k. pr_months (deadlinePressure date (gl_deadline g)) = Some k \<and> 1 \<le> k \<and>
    goalRemainingCents g = Inr (fs_remainingCents f) \<and> fs_remainingCents f \<le> m * k \<and> m * k < fs_remainingCents f + k"
proof -
  obtain k where k: "pr_months (deadlinePressure date (gl_deadline g)) = Some k"
    and r: "goalRemainingCents g = Inr (fs_remainingCents f)" "ceilDiv (fs_remainingCents f) k = Inr m"
    using assms by (auto simp: enrichGoalFeasibility_def Let_def res_simps split: option.splits)
  have "0 \<le> fs_remainingCents f" using r(1) by (auto simp: goalRemainingCents_def res_simps)
  from ceilDiv_exact [OF r(2) this] ceil_bounds [of k "fs_remainingCents f"] k r(1)
  show ?thesis by auto
qed

section \<open>A goal and its account\<close>

definition demo_goal :: goal where
  "demo_goal = \<lparr>gl_id = ''g1'', gl_accountId = Some ''a1'', gl_target = JNum (Fin 1000), gl_current = JNum (Fin 250),
     gl_deadline = Some ''2026-10''\<rparr>"

definition demo_accounts :: "goal_account list" where
  "demo_accounts = [\<lparr>ga_id = ''a1'', ga_role = Some ''savings'', ga_closed = False, ga_hidden = False\<rparr>]"

definition demo_balances :: "(string \<times> jsnum) list" where
  "demo_balances = [(''a1'', js_of_int 30000)]"

lemma demo_current: "current_cents demo_goal = Inr 25000"
  using toCents_whole [of 250] by (simp add: current_cents_def demo_goal_def)

lemma demo_remaining: "goalRemainingCents demo_goal = Inr 75000"
proof -
  have "toCents (gl_target demo_goal) = Inr 100000" using toCents_whole [of 1000] by (simp add: demo_goal_def)
  moreover have "sub_cents 100000 25000 = 75000" by (simp add: js_sub_ints safe_int_def max_safe_def)
  ultimately show ?thesis by (simp add: goalRemainingCents_def demo_current)
qed

lemma demo_pressure:
  "deadlinePressure ''2026-07-15'' (gl_deadline demo_goal) = \<lparr>pr_months = Some 4, pr_overdue = False\<rparr>"
  by code_simp

lemma demo_enriched:
  "\<exists>f m. enrichGoalFeasibility ''2026-07-15'' demo_goal summary st = Inr f \<and> fs_monthlyRequiredCents f = Some m \<and>
     fs_remainingCents f = 75000"
  by (simp add: enrichGoalFeasibility_def demo_remaining demo_pressure ceilDiv_def safe_int_def max_safe_def Let_def)

lemma demo_plan:
  "\<exists>f. enrichGoalFeasibility ''2026-07-15'' demo_goal summary st = Inr f \<and> fs_monthlyRequiredCents f = Some 18750 \<and>
     fs_remainingCents f = 75000"
proof -
  obtain f m where f: "enrichGoalFeasibility ''2026-07-15'' demo_goal summary st = Inr f"
    "fs_monthlyRequiredCents f = Some m" "fs_remainingCents f = 75000"
    using demo_enriched by blast
  then have "m = 18750" using plan_bounds [OF f(1,2)] by (auto simp: demo_pressure)
  with f show ?thesis by blast
qed

definition demo_allocation :: allocation where
  "demo_allocation = \<lparr>al_accountId = ''a1'', al_role = Some ''savings'', al_accountStatus = ''linked'',
     al_balanceUnavailable = False, al_capacityCents = Some 30000, al_allocatedCents = 25000,
     al_unallocatedCents = Some 5000, al_overAllocatedCents = Some 0, al_goalIds = [''g1'']\<rparr>"

lemma demo_summary: "account_summary [demo_goal] demo_accounts demo_balances ''a1'' = Inr demo_allocation"
proof -
  have st: "accountStatusForGoal (account_by_id demo_accounts ''a1'') (Some ''a1'') =
      account_state ''linked'' (Some ''savings'') False False False" by code_simp
  have raw: "map_of demo_balances ''a1'' = Some (js_of_int 30000)" by code_simp
  have linked: "linked_goals [demo_goal] ''a1'' = [demo_goal]" by code_simp
  show ?thesis
    by (simp add: account_summary_def st raw account_state_def accountAllocationSummary_def linked demo_current
        sumCents_def safe_balance_def safe_int_def max_safe_def js_sub_ints demo_allocation_def Let_def)
      (simp add: demo_goal_def)
qed

lemma demo_enriched_goal:
  "\<exists>e. enrich_goal demo_accounts ''2026-07-15'' [demo_allocation] demo_goal = Inr e \<and> eg_goal e = demo_goal \<and>
     fs_monthlyRequiredCents (eg_feasibility e) = Some 18750 \<and> fs_remainingCents (eg_feasibility e) = 75000"
proof -
  let ?st = "accountStatusForGoal (account_by_id demo_accounts ''a1'') (Some ''a1'')"
  obtain f where f: "enrichGoalFeasibility ''2026-07-15'' demo_goal (Some demo_allocation) (Some ?st) = Inr f"
    "fs_monthlyRequiredCents f = Some 18750" "fs_remainingCents f = 75000"
    using demo_plan by blast
  have i: "gl_accountId demo_goal = Some ''a1''" "al_accountId demo_allocation = ''a1''"
    by (simp_all add: demo_goal_def demo_allocation_def)
  show ?thesis
    by (simp add: enrich_goal_def i text_or_none_def f opt_dollars_def fromCents_def fromCents_num_def
        safe_int_def max_safe_def Let_def)
qed

lemma demo_response:
  "\<exists>r e. enrichGoalsResponse [demo_goal] demo_accounts demo_balances ''2026-07-15'' [] = Inr r \<and>
     gr_goals r = [e] \<and> eg_goal e = demo_goal"
proof -
  have ids: "goal_account_ids [demo_goal] = [''a1'']" by code_simp
  obtain e where e: "enrich_goal demo_accounts ''2026-07-15'' [demo_allocation] demo_goal = Inr e" "eg_goal e = demo_goal"
    "fs_monthlyRequiredCents (eg_feasibility e) = Some 18750" "fs_remainingCents (eg_feasibility e) = 75000"
    using demo_enriched_goal by blast
  have p: "\<exists>q. price_summary demo_allocation = Inr q"
    by (simp add: price_summary_def demo_allocation_def opt_dollars_def fromCents_def fromCents_num_def safe_int_def max_safe_def)
  have "\<exists>a. buildGoalAdvisory [(demo_goal, Some (eg_feasibility e))] [demo_allocation] [] = Inr a"
    by (simp add: buildGoalAdvisory_def remaining_of_def monthly_values_def e sumCents_def safe_int_def max_safe_def Let_def)
  with p show ?thesis
    by (auto simp: enrichGoalsResponse_def buildAccountSummaries_def ids demo_summary e)
qed

section \<open>Properties\<close>

text \<open>
  what a goal needs per month is enough and no more: until the deadline it covers what remains,
  and it exceeds that by less than one cent per month.
\<close>

theorem monthly_plan_exact:
  assumes "enrichGoalFeasibility date g summary st = Inr f" "fs_monthlyRequiredCents f = Some m"
  shows "\<exists>k. pr_months (deadlinePressure date (gl_deadline g)) = Some k \<and> 1 \<le> k \<and>
    goalRemainingCents g = Inr (fs_remainingCents f) \<and> fs_remainingCents f \<le> m * k \<and> m * k < fs_remainingCents f + k"
  using assms by (rule plan_bounds)

lemma monthly_plan_exact_witness:
  "\<exists>f. enrichGoalFeasibility ''2026-07-15'' demo_goal None None = Inr f \<and> fs_monthlyRequiredCents f = Some 18750"
proof -
  obtain f m where f: "enrichGoalFeasibility ''2026-07-15'' demo_goal None None = Inr f"
    "fs_monthlyRequiredCents f = Some m" "fs_remainingCents f = 75000"
    using demo_enriched by blast
  then have "m = 18750" using monthly_plan_exact [OF f(1,2)] by (auto simp: demo_pressure)
  with f show ?thesis by blast
qed

text \<open>
  C28: a goal is reported feasible exactly when it is kept in an account that is known, open, not excluded
  and has a balance, and everything all goals claim of that account fits into its balance.
\<close>

theorem feasible_goals_fit:
  assumes "enrichGoalsResponse goals accounts balances date reasons = Inr r" "e \<in> set (gr_goals r)"
  shows "eg_goal e \<in> set goals \<and> (fs_feasible (eg_feasibility e) = Some True \<longleftrightarrow>
    (\<exists>i a b currents. text_or_none (gl_accountId (eg_goal e)) = Some i \<and> account_by_id accounts i = Some a \<and>
       \<not> ga_closed a \<and> ga_role a \<noteq> Some ''excluded'' \<and> safe_balance (map_of balances i) = Some b \<and>
       emap current_cents (linked_goals goals i) = Inr currents \<and> sum_list currents \<le> max 0 b))"
proof -
  obtain ss where ss: "buildAccountSummaries goals accounts balances = Inr ss"
    and en: "emap (enrich_goal accounts date ss) goals = Inr (gr_goals r)"
    using assms(1) by (auto simp: enrichGoalsResponse_def res_simps)
  obtain g where g: "g \<in> set goals" "enrich_goal accounts date ss g = Inr e"
    using emap_member [OF en assms(2)] by blast
  from goal_feasible_iff [OF ss g] g(1) show ?thesis by auto
qed

lemma feasible_goals_fit_witness:
  "\<exists>r e. enrichGoalsResponse [demo_goal] demo_accounts demo_balances ''2026-07-15'' [] = Inr r \<and>
     gr_goals r = [e] \<and> fs_feasible (eg_feasibility e) = Some True"
proof -
  obtain r e where r: "enrichGoalsResponse [demo_goal] demo_accounts demo_balances ''2026-07-15'' [] = Inr r"
    "gr_goals r = [e]" "eg_goal e = demo_goal"
    using demo_response by blast
  have f: "text_or_none (gl_accountId demo_goal) = Some ''a1''"
    "account_by_id demo_accounts ''a1'' = Some (hd demo_accounts)" "\<not> ga_closed (hd demo_accounts)"
    "ga_role (hd demo_accounts) \<noteq> Some ''excluded''" "safe_balance (map_of demo_balances ''a1'') = Some 30000"
    "linked_goals [demo_goal] ''a1'' = [demo_goal]"
    by code_simp+
  have "emap current_cents (linked_goals [demo_goal] ''a1'') = Inr [25000]" by (simp add: f(6) demo_current)
  then have ex: "\<exists>i a b currents. text_or_none (gl_accountId demo_goal) = Some i \<and> account_by_id demo_accounts i = Some a \<and>
       \<not> ga_closed a \<and> ga_role a \<noteq> Some ''excluded'' \<and> safe_balance (map_of demo_balances i) = Some b \<and>
       emap current_cents (linked_goals [demo_goal] i) = Inr currents \<and> sum_list currents \<le> max 0 b"
    using f(1-5) by (intro exI [of _ "''a1''"] exI [of _ "hd demo_accounts"] exI [of _ 30000] exI [of _ "[25000]"]) simp
  have "e \<in> set (gr_goals r)" by (simp add: r(2))
  from feasible_goals_fit [OF r(1) this] have "fs_feasible (eg_feasibility e) = Some True"
    using ex unfolding r(3) by (rule iffD2 [OF conjunct2])
  with r show ?thesis by blast
qed

end
