(* ===== verification/ObligationGraph.thy ===== *)
theory ObligationGraph
  imports LiabilityCycle StableSort "HOL-Library.AList"
begin

text \<open>
  Model of \<open>lib/domain/obligation-graph.js\<close>: the graph of what the household owes and expects in a
  window, from which safe-to-spend, the forecast and the list of bills are read. The builder
  takes the sources one after the other, registers a node per durable identity and the dated
  occurrences of each, removes double reservations, and splits every liability of a credit card into
  parts that are covered by transfers, by bills, or by nothing yet.

  Nodes are objects that later steps change; here a node is found by its durable identity, which is
  its key in the registry. The texts of explanations are constructors with the values they name.
  The environment gives the hash behind identities, the collation of the platform (the sign of
  \<open>localeCompare\<close>), the text of a number, and \<open>Date.parse\<close>.
\<close>

record graph_env =
  ge_hash :: "string list \<Rightarrow> string"
  ge_collate :: "string \<Rightarrow> string \<Rightarrow> int"
  ge_num :: "jsnum \<Rightarrow> string"
  ge_parse :: "string \<Rightarrow> int option"

section \<open>Reasons\<close>

definition OBLIGATION_REASON_ORDER :: "string list" where
  "OBLIGATION_REASON_ORDER =
     [''obligation_duplicate_identity'', ''obligation_occurrence_cap_exceeded'',
      ''obligation_identity_overlap_ambiguous'', ''obligation_recurrence_unresolved'',
      ''obligation_liability_unresolved'', ''obligation_liability_funding_mismatch'',
      ''obligation_funding_account_missing'', ''obligation_transfer_ambiguous'',
      ''obligation_reimbursement_allocation_incomplete'', ''obligation_debt_terms_unsupported'',
      ''obligation_source_stale'']"

definition mergeReasons :: "string list list \<Rightarrow> string list" where
  "mergeReasons parts = filter (\<lambda>r. r \<in> set (concat parts)) OBLIGATION_REASON_ORDER"

definition MAX_OCCURRENCES :: nat where
  "MAX_OCCURRENCES = 100000"

section \<open>Nodes and occurrences\<close>

datatype source_kind =
  Src_recurring | Src_bill | Src_income | Src_debt_manual | Src_credit_liability | Src_budget | Src_transfer
  | Src_reimbursement | Src_transaction

datatype node_kind =
  Recurring_bill | Recurring_subscription | Income_node | Manual_debt | Credit_liability | Budget_reservation
  | Transfer_node | Reimbursement_expected

datatype edge_kind = Funding_partition | Transfer_internal

datatype partition_kind = Future_transfer | Bill_remainder | Residual_liability

datatype role = Economic_expense | Economic_income | Cash_outflow | Cash_inflow | Internal_transfer | Liability_accrual

fun role_text :: "role \<Rightarrow> string" where
  "role_text Economic_expense = ''economic_expense''"
| "role_text Economic_income = ''economic_income''"
| "role_text Cash_outflow = ''cash_outflow''"
| "role_text Cash_inflow = ''cash_inflow''"
| "role_text Internal_transfer = ''internal_transfer''"
| "role_text Liability_accrual = ''liability_accrual''"

fun partition_text :: "partition_kind \<Rightarrow> string" where
  "partition_text Future_transfer = ''future_transfer''"
| "partition_text Bill_remainder = ''bill_remainder''"
| "partition_text Residual_liability = ''residual_liability''"

fun edge_text :: "edge_kind \<Rightarrow> string" where
  "edge_text Funding_partition = ''funding_partition''"
| "edge_text Transfer_internal = ''transfer_internal''"

text \<open>The sentences of \<open>explanation\<close>, in the order of the code.\<close>

datatype sentence =
    Bill_series_audit string | Subscription_outflow string
  | Bill_cycle_evidence string | Bill_payment_evidence string | Bill_due string string
  | Income_stream string
  | Debt_payment string | Interest_portion int | Principal_portion int
  | Internal_movement | Funds_liability string
  | Remaining_budget string | Possible_reimbursement | Historical_activity | Note_text string
  | Reserved_transfer int | Transfer_is_outflow | Remainder_of_bill int
  | Statement_residual int | Balance_residual int
  | Suppressed_duplicate string

record source =
  so_kind :: source_kind
  so_key :: "string option"
  so_id :: "string option"
  so_linkId :: "string option"
  so_accountId :: "string option"
  so_categoryId :: "string option"
  so_transactionId :: "string option"
  so_provenance :: string
  so_paymentRecurringKey :: "string option"

definition plain_source :: "source_kind \<Rightarrow> string \<Rightarrow> source" where
  "plain_source k provenance =
     \<lparr>so_kind = k, so_key = None, so_id = None, so_linkId = None, so_accountId = None, so_categoryId = None,
      so_transactionId = None, so_provenance = provenance, so_paymentRecurringKey = None\<rparr>"

record gnode =
  gn_id :: string
  gn_durableIdentity :: string
  gn_kind :: node_kind
  gn_label :: string
  gn_source :: source
  gn_incompleteReasons :: "string list"
  gn_metadata :: jsval

datatype components =
    No_components
  | Bill_components int "string option"
  | Debt_components int int
  | Partition_components partition_kind int

record funding_link =
  fl_kind :: string
  fl_accountId :: string
  fl_amountCents :: "int option"

record occurrence =
  oc_id :: string
  oc_nodeId :: string
  oc_durableIdentity :: string
  oc_date :: string
  oc_amountCents :: int
  oc_role :: role
  oc_reserved :: bool
  oc_paid :: bool
  oc_auditOnly :: bool
  oc_partition :: "partition_kind option"
  oc_cycleKey :: "string option"
  oc_source :: source
  oc_explanation :: "sentence list"
  oc_dedupeGroup :: string
  oc_components :: components
  oc_fundingLinks :: "funding_link list"
  oc_fromAccountId :: "string option"
  oc_sourceFingerprint :: "string option"
  oc_transactionId :: "string option"
  oc_transferredId :: "string option"
  oc_suppressedBy :: "string option"

text \<open>An occurrence with the properties every source sets; the others are absent.\<close>

definition plain_occurrence ::
  "string \<Rightarrow> gnode \<Rightarrow> string \<Rightarrow> string \<Rightarrow> int \<Rightarrow> role \<Rightarrow> bool \<Rightarrow> bool \<Rightarrow> bool \<Rightarrow> source \<Rightarrow> sentence list \<Rightarrow> string \<Rightarrow> occurrence" where
  "plain_occurrence i node durable date amount r reserved paid audit src notes grp =
     \<lparr>oc_id = i, oc_nodeId = gn_id node, oc_durableIdentity = durable, oc_date = date, oc_amountCents = amount,
      oc_role = r, oc_reserved = reserved, oc_paid = paid, oc_auditOnly = audit, oc_partition = None,
      oc_cycleKey = None, oc_source = src, oc_explanation = notes, oc_dedupeGroup = grp,
      oc_components = No_components, oc_fundingLinks = [], oc_fromAccountId = None, oc_sourceFingerprint = None,
      oc_transactionId = None, oc_transferredId = None, oc_suppressedBy = None\<rparr>"

definition stableHash :: "graph_env \<Rightarrow> string list \<Rightarrow> string" where
  "stableHash env parts = take 16 (ge_hash env parts)"

definition stableNodeId :: "graph_env \<Rightarrow> string \<Rightarrow> string" where
  "stableNodeId env durable = ''node:'' @ stableHash env [''node'', durable]"

definition stableOccurrenceId :: "graph_env \<Rightarrow> string \<Rightarrow> string \<Rightarrow> role \<Rightarrow> string" where
  "stableOccurrenceId env durable date r = ''occ:'' @ stableHash env [''occ'', durable, date, role_text r]"

definition stableEdgeId :: "graph_env \<Rightarrow> string \<Rightarrow> string \<Rightarrow> edge_kind \<Rightarrow> string" where
  "stableEdgeId env fromNodeId toNodeId k = ''edge:'' @ stableHash env [''edge'', fromNodeId, toNodeId, edge_text k]"

section \<open>Input\<close>

record projected =
  pj_date :: string
  pj_amountCents :: jsnum
  pj_paid :: bool
  pj_provenance :: "string option"

record recurring_item =
  ri_durableIdentity :: "string option"
  ri_key :: string
  ri_payee :: "string option"
  ri_cadence :: jsval
  ri_isBill :: bool
  ri_provenance :: "string option"
  ri_projectionUncertain :: bool
  ri_scheduleUncertain :: bool
  ri_projectedOccurrences :: "projected list"

record bill_item =
  bi_durableIdentity :: "string option"
  bi_id :: "string option"
  bi_key :: string
  bi_payee :: "string option"
  bi_dueDate :: string
  bi_amountCents :: jsnum
  bi_paid :: bool
  bi_provenance :: "string option"
  bi_scheduleUncertain :: bool
  bi_liabilityAccountId :: "string option"
  bi_liabilityLinked :: bool
  bi_liabilityCycleKey :: "string option"

record income_stream =
  is_durableIdentity :: "string option"
  is_key :: string
  is_payee :: "string option"
  is_provenance :: "string option"
  is_scheduleUncertain :: bool
  is_projectedOccurrences :: "projected list"

record manual_debt =
  md_durableIdentity :: "string option"
  md_id :: string
  md_name :: "string option"
  md_dueDate :: "string option"
  md_paymentCents :: jsnum
  md_principalCents :: "jsnum option"
  md_balanceCents :: "jsnum option"
  md_interestCents :: "jsnum option"
  md_apr :: jsval
  md_strategy :: jsval

record liability =
  li_durableIdentity :: "string option"
  li_accountId :: string
  li_name :: "string option"
  li_excluded :: bool
  li_eligible :: bool
  li_coverageKind :: "string option"
  li_paymentRecurringKey :: "string option"
  li_quarantineReasons :: "string list"
  li_obligationCents :: jsnum
  li_currentBalanceCents :: "int option"
  li_paymentDueDate :: "string option"
  li_cycleKey :: "string option"
  li_fundingAccountId :: "string option"
  li_observedAt :: "string option"

record transfer_item =
  tf_durableIdentity :: "string option"
  tf_linkId :: string
  tf_label :: "string option"
  tf_provenance :: "string option"
  tf_fromAccountId :: "string option"
  tf_toAccountId :: "string option"
  tf_ambiguous :: bool
  tf_date :: "string option"
  tf_amountCents :: jsnum
  tf_sourceFingerprint :: "string option"
  tf_transactionId :: "string option"
  tf_transferredId :: "string option"
  tf_fundsLiabilityAccountId :: "string option"

record budget_item =
  bu_durableIdentity :: "string option"
  bu_categoryId :: string
  bu_categoryName :: "string option"
  bu_remainingCents :: jsnum
  bu_incompleteReasons :: "string list"

record reimb_item =
  rb_durableIdentity :: "string option"
  rb_id :: string
  rb_label :: "string option"
  rb_provenance :: "string option"
  rb_allocationIncomplete :: bool
  rb_ambiguous :: bool
  rb_expectedDate :: "string option"
  rb_expectedCents :: "jsnum option"

record txn_item =
  ti_durableIdentity :: "string option"
  ti_transactionId :: string
  ti_kind :: "node_kind option"
  ti_label :: "string option"
  ti_date :: "string option"
  ti_amountCents :: jsnum
  ti_explanation :: "sentence list option"

record graph_input =
  gi_generatedAt :: "string option"
  gi_financeDate :: string
  gi_windowStart :: string
  gi_windowEnd :: string
  gi_recurringItems :: "recurring_item list"
  gi_billOccurrences :: "bill_item list"
  gi_incomeStreams :: "income_stream list"
  gi_manualDebts :: "manual_debt list"
  gi_creditLiabilities :: "liability list"
  gi_billCategoryIds :: "string list"
  gi_transfers :: "transfer_item list"
  gi_budgetReservations :: "budget_item list"
  gi_reimbursementExpectations :: "reimb_item list"
  gi_economicTransactions :: "txn_item list"
  gi_operatingAccountIds :: "string list"
  gi_fundingAccountsByLiability :: "(string \<times> string) list"
  gi_billCategoryIdentityIssues :: "(string \<times> string) list"

text \<open>\<open>sortByKeys\<close>: a missing key is the empty text; texts compare by code unit.\<close>

definition sortByKeys :: "('a \<Rightarrow> string list) \<Rightarrow> 'a list \<Rightarrow> 'a list" where
  "sortByKeys keys items = sort_key keys items"

definition normalizeBuildInput :: "graph_input \<Rightarrow> graph_input" where
  "normalizeBuildInput raw = raw\<lparr>
     gi_generatedAt := Some (text_or (gi_generatedAt raw) ''1970-01-01T00:00:00.000Z''),
     gi_recurringItems := sortByKeys (\<lambda>x. [text_or (ri_durableIdentity x) [], ri_key x]) (gi_recurringItems raw),
     gi_billOccurrences := sortByKeys (\<lambda>x. [text_or (bi_durableIdentity x) [], bi_dueDate x]) (gi_billOccurrences raw),
     gi_incomeStreams := sortByKeys (\<lambda>x. [text_or (is_durableIdentity x) [], is_key x]) (gi_incomeStreams raw),
     gi_manualDebts := sortByKeys (\<lambda>x. [text_or (md_durableIdentity x) [], md_id x]) (gi_manualDebts raw),
     gi_creditLiabilities := sortByKeys (\<lambda>x. [text_or (li_durableIdentity x) [], li_accountId x]) (gi_creditLiabilities raw),
     gi_transfers := sortByKeys (\<lambda>x. [text_or (tf_durableIdentity x) [], tf_linkId x]) (gi_transfers raw),
     gi_budgetReservations := sortByKeys (\<lambda>x. [text_or (bu_durableIdentity x) [], bu_categoryId x]) (gi_budgetReservations raw),
     gi_reimbursementExpectations := sortByKeys (\<lambda>x. [text_or (rb_durableIdentity x) [], rb_id x]) (gi_reimbursementExpectations raw),
     gi_economicTransactions := sortByKeys (\<lambda>x. [text_or (ti_durableIdentity x) [], ti_transactionId x]) (gi_economicTransactions raw),
     gi_billCategoryIdentityIssues := sortByKeys (\<lambda>(k, s). [k, s]) (gi_billCategoryIdentityIssues raw)\<rparr>"

section \<open>The builder\<close>

record pending_cycle =
  pc_cycleKey :: string
  pc_nodeId :: string
  pc_durableIdentity :: string
  pc_accountId :: string
  pc_coverageKind :: "string option"
  pc_obligationCents :: int
  pc_currentBalanceCents :: int
  pc_paymentDueDate :: string
  pc_paymentRecurringKey :: "string option"
  pc_observedAt :: "string option"
  pc_fundingAccountId :: string

record cycle_record = cycle +
  cr_accountId :: string
  cr_coverageKind :: "string option"
  cr_obligationCents :: int
  cr_postedPaymentCents :: int
  cr_billCents :: int
  cr_futureTransferCents :: int
  cr_issues :: "string list"

text \<open>\<open>registry\<close> and \<open>state\<close> in one record.\<close>

record builder =
  gb_nodes :: "gnode list"
  gb_duplicates :: "(string \<times> string \<times> string) list"
  gb_occurrences :: "occurrence list"
  gb_capExceeded :: bool
  gb_incompleteReasons :: "string list"
  gb_pendingCycles :: "pending_cycle list"
  gb_cyclePartitions :: "cycle_record list"
  gb_blockBudgetReservations :: bool

definition find_node :: "builder \<Rightarrow> string \<Rightarrow> gnode option" where
  "find_node b durable = find (\<lambda>n. gn_durableIdentity n = durable) (gb_nodes b)"

definition update_node :: "string \<Rightarrow> (gnode \<Rightarrow> gnode) \<Rightarrow> builder \<Rightarrow> builder" where
  "update_node durable f b =
     b\<lparr>gb_nodes := map (\<lambda>n. if gn_durableIdentity n = durable then f n else n) (gb_nodes b)\<rparr>"

text \<open>The node that \<open>registerNode\<close> returns is the one its identity leads to afterwards.\<close>

definition registerNode :: "gnode \<Rightarrow> builder \<Rightarrow> builder" where
  "registerNode node b =
     (case find_node b (gn_durableIdentity node) of
        Some existing \<Rightarrow>
          if gn_id existing \<noteq> gn_id node \<or> gn_kind existing \<noteq> gn_kind node \<or>
             so_kind (gn_source existing) \<noteq> so_kind (gn_source node)
          then update_node (gn_durableIdentity node)
                 (\<lambda>n. n\<lparr>gn_incompleteReasons := js_dedupe (gn_incompleteReasons n @ [''obligation_duplicate_identity''])\<rparr>)
                 (b\<lparr>gb_duplicates := gb_duplicates b @ [(gn_durableIdentity node, gn_id existing, gn_id node)]\<rparr>)
          else b
      | None \<Rightarrow> b\<lparr>gb_nodes := gb_nodes b @ [node]\<rparr>)"

definition registered :: "builder \<Rightarrow> gnode \<Rightarrow> gnode" where
  "registered b node = (case find_node b (gn_durableIdentity node) of Some n \<Rightarrow> n | None \<Rightarrow> node)"

definition mark_node :: "string \<Rightarrow> string list \<Rightarrow> builder \<Rightarrow> builder" where
  "mark_node durable reasons b =
     update_node durable (\<lambda>n. n\<lparr>gn_incompleteReasons := mergeReasons [gn_incompleteReasons n, reasons]\<rparr>) b"

definition mark_graph :: "string list \<Rightarrow> builder \<Rightarrow> builder" where
  "mark_graph reasons b = b\<lparr>gb_incompleteReasons := mergeReasons [gb_incompleteReasons b, reasons]\<rparr>"

definition registerOccurrence :: "occurrence \<Rightarrow> builder \<Rightarrow> builder" where
  "registerOccurrence occ b =
     (if MAX_OCCURRENCES \<le> length (gb_occurrences b) then b\<lparr>gb_capExceeded := True\<rparr>
      else b\<lparr>gb_occurrences := gb_occurrences b @ [occ]\<rparr>)"

definition requireSafeCents :: "jsnum \<Rightarrow> string \<Rightarrow> int res" where
  "requireSafeCents v label =
     (if js_safe_integer v then Inr (js_to_int v)
      else Inl (TypeError (label @ '' must be a safe integer cent amount'')))"

definition magnitude :: "jsnum \<Rightarrow> string \<Rightarrow> int res" where
  "magnitude v label = ebind (requireSafeCents v label) (\<lambda>c. Inr \<bar>c\<bar>)"

definition in_window :: "graph_input \<Rightarrow> string \<Rightarrow> bool" where
  "in_window input date \<longleftrightarrow> gi_windowStart input \<le> date \<and> date \<le> gi_windowEnd input"

text \<open>\<open>!date || date < start || date > end\<close>, negated.\<close>

definition dated_in_window :: "graph_input \<Rightarrow> string option \<Rightarrow> bool" where
  "dated_in_window input date \<longleftrightarrow> (\<exists>d \<in> set_option date. d \<noteq> [] \<and> in_window input d)"

section \<open>Ingesting the sources\<close>

definition recurring_occurrence ::
  "graph_env \<Rightarrow> recurring_item \<Rightarrow> string \<Rightarrow> gnode \<Rightarrow> builder \<Rightarrow> projected \<Rightarrow> builder res" where
  "recurring_occurrence env item durable node b p =
     (let r = (if ri_isBill item then Economic_expense else Cash_outflow) in
      ebind (magnitude (pj_amountCents p) ''projected.amountCents'') (\<lambda>amount.
      Inr (registerOccurrence
        (plain_occurrence (stableOccurrenceId env durable (pj_date p) r) node durable (pj_date p) (- amount) r
           (\<not> ri_isBill item) (pj_paid p) (ri_isBill item)
           ((plain_source Src_recurring (text_or (pj_provenance p) ''inferred''))\<lparr>so_key := Some (ri_key item)\<rparr>)
           [if ri_isBill item then Bill_series_audit (ri_key item) else Subscription_outflow (ri_key item)]
           ((if ri_isBill item then ''bill-series:'' else ''sub-series:'') @ ri_key item)) b)))"

definition recurring_node :: "graph_env \<Rightarrow> recurring_item \<Rightarrow> gnode" where
  "recurring_node env item =
     (let durable = text_or (ri_durableIdentity item) (''recurring:'' @ ri_key item) in
      \<lparr>gn_id = stableNodeId env durable, gn_durableIdentity = durable,
       gn_kind = (if ri_isBill item then Recurring_bill else Recurring_subscription),
       gn_label = text_or (ri_payee item) (ri_key item),
       gn_source = (plain_source Src_recurring (text_or (ri_provenance item) ''inferred''))\<lparr>so_key := Some (ri_key item)\<rparr>,
       gn_incompleteReasons = [],
       gn_metadata = JObj [(''cadence'', ri_cadence item), (''isBill'', JBool (ri_isBill item))]\<rparr>)"

definition ingestRecurring :: "graph_env \<Rightarrow> graph_input \<Rightarrow> builder \<Rightarrow> recurring_item \<Rightarrow> builder res" where
  "ingestRecurring env input b item =
     (let new = recurring_node env item; durable = gn_durableIdentity new; b' = registerNode new b in
      if ri_projectionUncertain item \<or> ri_scheduleUncertain item
      then Inr (mark_node durable [''obligation_recurrence_unresolved''] b')
      else efold (recurring_occurrence env item durable (registered b' new)) b'
             (filter (\<lambda>p. in_window input (pj_date p)) (ri_projectedOccurrences item)))"

definition bill_node :: "graph_env \<Rightarrow> bill_item \<Rightarrow> gnode" where
  "bill_node env bill =
     (let durable = text_or (bi_durableIdentity bill) (''bill:'' @ bi_key bill @ ''|'' @ bi_dueDate bill) in
      \<lparr>gn_id = stableNodeId env durable, gn_durableIdentity = durable, gn_kind = Recurring_bill,
       gn_label = text_or (bi_payee bill) (bi_key bill),
       gn_source = (plain_source Src_bill (text_or (bi_provenance bill) ''inferred''))
         \<lparr>so_id := bi_id bill, so_key := Some (bi_key bill)\<rparr>,
       gn_incompleteReasons = [],
       gn_metadata = JObj [(''dueDate'', JStr (bi_dueDate bill)),
         (''liabilityAccountId'', case text_or_none (bi_liabilityAccountId bill) of None \<Rightarrow> JNull | Some a \<Rightarrow> JStr a)]\<rparr>)"

definition bill_occurrence :: "graph_env \<Rightarrow> bill_item \<Rightarrow> gnode \<Rightarrow> int \<Rightarrow> occurrence" where
  "bill_occurrence env bill node amount =
     (let durable = gn_durableIdentity (bill_node env bill); linked = bi_liabilityLinked bill;
          cycle = text_or_none (bi_liabilityCycleKey bill) in
      (plain_occurrence (stableOccurrenceId env durable (bi_dueDate bill) Cash_outflow) node durable (bi_dueDate bill)
         (- amount) Cash_outflow (\<not> bi_paid bill \<and> \<not> linked) (bi_paid bill) linked
         ((plain_source Src_bill (text_or (bi_provenance bill) ''inferred''))
           \<lparr>so_id := bi_id bill, so_key := Some (bi_key bill)\<rparr>)
         [case cycle of
            Some c \<Rightarrow> Bill_cycle_evidence c
          | None \<Rightarrow> if linked then Bill_payment_evidence (bi_key bill) else Bill_due (bi_dueDate bill) (bi_key bill)]
         (text_or cycle (''bill-series:'' @ bi_key bill)))
      \<lparr>oc_components := (if linked then Bill_components amount cycle else No_components)\<rparr>)"

definition ingestBillOccurrence :: "graph_env \<Rightarrow> graph_input \<Rightarrow> builder \<Rightarrow> bill_item \<Rightarrow> builder res" where
  "ingestBillOccurrence env input b bill =
     (let new = bill_node env bill; b' = registerNode new b in
      if bi_scheduleUncertain bill
      then Inr (mark_node (gn_durableIdentity new) [''obligation_recurrence_unresolved''] b')
      else if \<not> in_window input (bi_dueDate bill) then Inr b'
      else ebind (magnitude (bi_amountCents bill) ''bill.amountCents'') (\<lambda>amount.
        Inr (registerOccurrence (bill_occurrence env bill (registered b' new) amount) b')))"

definition income_node :: "graph_env \<Rightarrow> income_stream \<Rightarrow> gnode" where
  "income_node env stream =
     (let durable = text_or (is_durableIdentity stream) (''income:'' @ is_key stream) in
      \<lparr>gn_id = stableNodeId env durable, gn_durableIdentity = durable, gn_kind = Income_node,
       gn_label = text_or (is_payee stream) (is_key stream),
       gn_source = (plain_source Src_income (text_or (is_provenance stream) ''inferred''))\<lparr>so_key := Some (is_key stream)\<rparr>,
       gn_incompleteReasons = [], gn_metadata = JUndef\<rparr>)"

definition income_occurrence ::
  "graph_env \<Rightarrow> income_stream \<Rightarrow> gnode \<Rightarrow> builder \<Rightarrow> projected \<Rightarrow> builder res" where
  "income_occurrence env stream node b p =
     (let durable = gn_durableIdentity (income_node env stream) in
      ebind (magnitude (pj_amountCents p) ''income.amountCents'') (\<lambda>amount.
      Inr (registerOccurrence
        (plain_occurrence (stableOccurrenceId env durable (pj_date p) Cash_inflow) node durable (pj_date p) amount
           Cash_inflow False False False
           ((plain_source Src_income (text_or (pj_provenance p) ''inferred''))\<lparr>so_key := Some (is_key stream)\<rparr>)
           [Income_stream (is_key stream)] (''income-series:'' @ is_key stream)) b)))"

definition ingestIncome :: "graph_env \<Rightarrow> graph_input \<Rightarrow> builder \<Rightarrow> income_stream \<Rightarrow> builder res" where
  "ingestIncome env input b stream =
     (let new = income_node env stream; b' = registerNode new b in
      if is_scheduleUncertain stream
      then Inr (mark_node (gn_durableIdentity new) [''obligation_recurrence_unresolved''] b')
      else efold (income_occurrence env stream (registered b' new)) b'
             (filter (\<lambda>p. in_window input (pj_date p)) (is_projectedOccurrences stream)))"

text \<open>\<open>a || b\<close> for a number that may be missing.\<close>

definition num_or :: "jsnum option \<Rightarrow> jsnum \<Rightarrow> jsnum" where
  "num_or a b = (case a of None \<Rightarrow> b | Some n \<Rightarrow> if n = NaN \<or> js_is_zero n then b else n)"

definition debt_node :: "graph_env \<Rightarrow> manual_debt \<Rightarrow> gnode" where
  "debt_node env debt =
     (let durable = text_or (md_durableIdentity debt) (''debt:'' @ md_id debt) in
      \<lparr>gn_id = stableNodeId env durable, gn_durableIdentity = durable, gn_kind = Manual_debt,
       gn_label = text_or (md_name debt) (md_id debt),
       gn_source = (plain_source Src_debt_manual ''manual'')\<lparr>so_id := Some (md_id debt)\<rparr>,
       gn_incompleteReasons = [],
       gn_metadata = JObj [(''apr'', md_apr debt), (''strategy'', md_strategy debt)]\<rparr>)"

definition debt_occurrence :: "graph_env \<Rightarrow> manual_debt \<Rightarrow> gnode \<Rightarrow> string \<Rightarrow> int \<Rightarrow> int \<Rightarrow> int \<Rightarrow> occurrence" where
  "debt_occurrence env debt node due principalCents interestCents paymentCents =
     (let durable = gn_durableIdentity (debt_node env debt) in
      (plain_occurrence (stableOccurrenceId env durable due Cash_outflow) node durable due (- paymentCents)
         Cash_outflow True False False ((plain_source Src_debt_manual ''manual'')\<lparr>so_id := Some (md_id debt)\<rparr>)
         (Debt_payment (md_id debt) #
          (if interestCents \<noteq> 0 then [Interest_portion interestCents] else []) @
          (if principalCents \<noteq> 0 then [Principal_portion principalCents] else []))
         (''debt:'' @ md_id debt))
      \<lparr>oc_components := Debt_components principalCents interestCents\<rparr>)"

definition ingestManualDebt :: "graph_env \<Rightarrow> graph_input \<Rightarrow> builder \<Rightarrow> manual_debt \<Rightarrow> builder res" where
  "ingestManualDebt env input b debt =
     (let new = debt_node env debt; durable = gn_durableIdentity new; b' = registerNode new b;
          unsupported = mark_node durable [''obligation_debt_terms_unsupported''] b' in
      case text_or_none (md_dueDate debt) of
        None \<Rightarrow> Inr unsupported
      | Some due \<Rightarrow>
          if \<not> js_safe_integer (md_paymentCents debt) \<or> js_to_int (md_paymentCents debt) \<le> 0 then Inr unsupported
          else if \<not> in_window input due then Inr b'
          else ebind (magnitude (num_or (md_principalCents debt) (num_or (md_balanceCents debt) (Fin 0)))
                 ''debt.principalCents'') (\<lambda>principalCents.
               ebind (magnitude (num_or (md_interestCents debt) (Fin 0)) ''debt.interestCents'') (\<lambda>interestCents.
               ebind (magnitude (md_paymentCents debt) ''debt.paymentCents'') (\<lambda>paymentCents.
               ebind (sumCents [principalCents, interestCents]) (\<lambda>parts.
               if paymentCents \<noteq> parts \<and> (md_interestCents debt \<noteq> None \<or> md_principalCents debt \<noteq> None)
               then Inr unsupported
               else Inr (registerOccurrence (debt_occurrence env debt (registered b' new) due principalCents interestCents
                      paymentCents) b'))))))"

definition liability_node :: "graph_env \<Rightarrow> liability \<Rightarrow> gnode" where
  "liability_node env l =
     (let durable = text_or (li_durableIdentity l) (''liability:credit:'' @ li_accountId l);
          text = (\<lambda>t. case text_or_none t of None \<Rightarrow> JNull | Some s \<Rightarrow> JStr s) in
      \<lparr>gn_id = stableNodeId env durable, gn_durableIdentity = durable, gn_kind = Credit_liability,
       gn_label = text_or (li_name l) (li_accountId l),
       gn_source = (plain_source Src_credit_liability (text_or (li_coverageKind l) ''policy''))
         \<lparr>so_accountId := Some (li_accountId l), so_paymentRecurringKey := text_or_none (li_paymentRecurringKey l)\<rparr>,
       gn_incompleteReasons = li_quarantineReasons l,
       gn_metadata = JObj [(''coverageKind'', text (li_coverageKind l)),
         (''currentBalanceCents'', case li_currentBalanceCents l of None \<Rightarrow> JUndef | Some c \<Rightarrow> JNum (js_of_int c)),
         (''obligationCents'', if li_obligationCents l = NaN then JUndef else JNum (li_obligationCents l)),
         (''paymentDueDate'', text (li_paymentDueDate l)), (''cycleKey'', text (li_cycleKey l))]\<rparr>)"

text \<open>
  A liability without amounts (the bridge leaves them out when a payment link is missing) has \<^term>\<open>NaN\<close>
  as its obligation; it is quarantined, and never becomes a cycle.
\<close>

definition liability_cycle :: "liability \<Rightarrow> gnode \<Rightarrow> string \<Rightarrow> string \<Rightarrow> string \<Rightarrow> pending_cycle" where
  "liability_cycle l node durable due funding =
     \<lparr>pc_cycleKey = text_or (li_cycleKey l) (''liability-cycle:'' @ li_accountId l @ '':'' @ due),
      pc_nodeId = gn_id node, pc_durableIdentity = durable, pc_accountId = li_accountId l,
      pc_coverageKind = li_coverageKind l, pc_obligationCents = js_to_int (li_obligationCents l),
      pc_currentBalanceCents = (case li_currentBalanceCents l of None \<Rightarrow> 0 | Some c \<Rightarrow> c), pc_paymentDueDate = due,
      pc_paymentRecurringKey = text_or_none (li_paymentRecurringKey l), pc_observedAt = text_or_none (li_observedAt l),
      pc_fundingAccountId = funding\<rparr>"

definition ingestCreditLiability :: "graph_env \<Rightarrow> graph_input \<Rightarrow> builder \<Rightarrow> liability \<Rightarrow> builder res" where
  "ingestCreditLiability env input b l =
     (if li_excluded l then Inr b
      else let new = liability_node env l; durable = gn_durableIdentity new; b' = registerNode new b;
               funding = (case text_or_none (li_fundingAccountId l) of
                  Some a \<Rightarrow> Some a
                | None \<Rightarrow> text_or_none (map_of (gi_fundingAccountsByLiability input) (li_accountId l))) in
      if li_quarantineReasons l \<noteq> [] then Inr b'
      else if \<not> li_eligible l \<or> \<not> js_safe_integer (li_obligationCents l) \<or> js_to_int (li_obligationCents l) \<le> 0
      then Inr b'
      else if funding = None \<or> the funding \<notin> set (gi_operatingAccountIds input)
      then Inr (mark_node durable [''obligation_liability_unresolved'', ''obligation_funding_account_missing''] b')
      else case text_or_none (li_paymentDueDate l) of
        None \<Rightarrow> Inr (mark_node durable [''obligation_liability_unresolved''] b')
      | Some due \<Rightarrow>
          if \<not> in_window input due then Inr b'
          else Inr (b'\<lparr>gb_pendingCycles := gb_pendingCycles b' @
                 [liability_cycle l (registered b' new) durable due (the funding)]\<rparr>))"

definition transfer_node :: "graph_env \<Rightarrow> transfer_item \<Rightarrow> gnode" where
  "transfer_node env t =
     (let durable = text_or (tf_durableIdentity t) (''transfer:'' @ tf_linkId t);
          text = (\<lambda>t. case t of None \<Rightarrow> JUndef | Some s \<Rightarrow> JStr s) in
      \<lparr>gn_id = stableNodeId env durable, gn_durableIdentity = durable, gn_kind = Transfer_node,
       gn_label = text_or (tf_label t) (tf_linkId t),
       gn_source = (plain_source Src_transfer (text_or (tf_provenance t) ''actual''))\<lparr>so_linkId := Some (tf_linkId t)\<rparr>,
       gn_incompleteReasons = [],
       gn_metadata = JObj [(''fromAccountId'', text (tf_fromAccountId t)), (''toAccountId'', text (tf_toAccountId t))]\<rparr>)"

definition transfer_occurrence :: "graph_env \<Rightarrow> transfer_item \<Rightarrow> gnode \<Rightarrow> string \<Rightarrow> int \<Rightarrow> occurrence" where
  "transfer_occurrence env t node date amount =
     (let durable = gn_durableIdentity (transfer_node env t); funds = text_or_none (tf_fundsLiabilityAccountId t) in
      (plain_occurrence (stableOccurrenceId env durable date Internal_transfer) node durable date amount
         Internal_transfer False False False
         ((plain_source Src_transfer (text_or (tf_provenance t) ''actual''))\<lparr>so_linkId := Some (tf_linkId t)\<rparr>)
         (Internal_movement # (case funds of None \<Rightarrow> [] | Some a \<Rightarrow> [Funds_liability a])) (''transfer:'' @ tf_linkId t))
      \<lparr>oc_fromAccountId := text_or_none (tf_fromAccountId t), oc_sourceFingerprint := text_or_none (tf_sourceFingerprint t),
       oc_transactionId := text_or_none (tf_transactionId t), oc_transferredId := text_or_none (tf_transferredId t),
       oc_fundingLinks := (case funds of None \<Rightarrow> []
         | Some a \<Rightarrow> [\<lparr>fl_kind = ''liability_funding'', fl_accountId = a, fl_amountCents = Some \<bar>amount\<bar>\<rparr>])\<rparr>)"

definition ingestTransfer :: "graph_env \<Rightarrow> graph_input \<Rightarrow> builder \<Rightarrow> transfer_item \<Rightarrow> builder res" where
  "ingestTransfer env input b t =
     (let new = transfer_node env t; b' = registerNode new b in
      if tf_ambiguous t then Inr (mark_node (gn_durableIdentity new) [''obligation_transfer_ambiguous''] b')
      else if \<not> dated_in_window input (tf_date t) then Inr b'
      else ebind (requireSafeCents (tf_amountCents t) ''transfer.amountCents'') (\<lambda>amount.
        Inr (registerOccurrence (transfer_occurrence env t (registered b' new) (the (tf_date t)) amount) b')))"

definition budget_node :: "graph_env \<Rightarrow> budget_item \<Rightarrow> gnode" where
  "budget_node env bu =
     (let durable = text_or (bu_durableIdentity bu) (''budget:'' @ bu_categoryId bu) in
      \<lparr>gn_id = stableNodeId env durable, gn_durableIdentity = durable, gn_kind = Budget_reservation,
       gn_label = text_or (bu_categoryName bu) (bu_categoryId bu),
       gn_source = (plain_source Src_budget ''actual'')\<lparr>so_categoryId := Some (bu_categoryId bu)\<rparr>,
       gn_incompleteReasons = bu_incompleteReasons bu, gn_metadata = JUndef\<rparr>)"

definition budget_occurrence :: "graph_env \<Rightarrow> graph_input \<Rightarrow> budget_item \<Rightarrow> gnode \<Rightarrow> occurrence" where
  "budget_occurrence env input bu node =
     (let durable = gn_durableIdentity (budget_node env bu); today = gi_financeDate input in
      plain_occurrence (stableOccurrenceId env durable today Cash_outflow) node durable today
        (- js_to_int (bu_remainingCents bu)) Cash_outflow True False False
        ((plain_source Src_budget ''actual'')\<lparr>so_categoryId := Some (bu_categoryId bu)\<rparr>)
        [Remaining_budget (text_or (bu_categoryName bu) (bu_categoryId bu))] (''budget:'' @ bu_categoryId bu))"

definition ingestBudgetReservation :: "graph_env \<Rightarrow> graph_input \<Rightarrow> builder \<Rightarrow> budget_item \<Rightarrow> builder res" where
  "ingestBudgetReservation env input b bu =
     (if gb_blockBudgetReservations b then Inr b
      else let new = budget_node env bu; b' = registerNode new b in
      if \<not> js_safe_integer (bu_remainingCents bu) \<or> js_to_int (bu_remainingCents bu) \<le> 0 then Inr b'
      else if bu_categoryId bu \<in> set (gi_billCategoryIds input)
      then Inr (mark_node (gn_durableIdentity new) [''obligation_identity_overlap_ambiguous''] b')
      else Inr (registerOccurrence (budget_occurrence env input bu (registered b' new)) b'))"

definition reimb_node :: "graph_env \<Rightarrow> reimb_item \<Rightarrow> gnode" where
  "reimb_node env r =
     (let durable = text_or (rb_durableIdentity r) (''reimbursement:expected:'' @ rb_id r) in
      \<lparr>gn_id = stableNodeId env durable, gn_durableIdentity = durable, gn_kind = Reimbursement_expected,
       gn_label = text_or (rb_label r) (rb_id r),
       gn_source = (plain_source Src_reimbursement (text_or (rb_provenance r) ''splitwise''))\<lparr>so_id := Some (rb_id r)\<rparr>,
       gn_incompleteReasons = [], gn_metadata = JUndef\<rparr>)"

definition ingestReimbursement :: "graph_env \<Rightarrow> graph_input \<Rightarrow> builder \<Rightarrow> reimb_item \<Rightarrow> builder res" where
  "ingestReimbursement env input b r =
     (let new = reimb_node env r; durable = gn_durableIdentity new; b' = registerNode new b in
      if rb_allocationIncomplete r \<or> rb_ambiguous r
      then Inr (mark_node durable [''obligation_reimbursement_allocation_incomplete''] b')
      else if \<not> dated_in_window input (rb_expectedDate r) then Inr b'
      else let date = the (rb_expectedDate r) in
        ebind (magnitude (num_or (rb_expectedCents r) (Fin 0)) ''reimb.expectedCents'') (\<lambda>amount.
        Inr (registerOccurrence
          (plain_occurrence (stableOccurrenceId env durable date Cash_inflow) (registered b' new) durable date amount
             Cash_inflow False False False
             ((plain_source Src_reimbursement (text_or (rb_provenance r) ''splitwise''))\<lparr>so_id := Some (rb_id r)\<rparr>)
             [Possible_reimbursement] (''reimbursement:'' @ rb_id r)) b')))"

definition txn_node :: "graph_env \<Rightarrow> txn_item \<Rightarrow> gnode" where
  "txn_node env t =
     (let durable = text_or (ti_durableIdentity t) (''txn:'' @ ti_transactionId t) in
      \<lparr>gn_id = stableNodeId env durable, gn_durableIdentity = durable,
       gn_kind = (case ti_kind t of None \<Rightarrow> Recurring_subscription | Some k \<Rightarrow> k),
       gn_label = text_or (ti_label t) (ti_transactionId t),
       gn_source = (plain_source Src_transaction ''actual'')\<lparr>so_transactionId := Some (ti_transactionId t)\<rparr>,
       gn_incompleteReasons = [], gn_metadata = JUndef\<rparr>)"

definition ingestEconomicTransaction :: "graph_env \<Rightarrow> graph_input \<Rightarrow> builder \<Rightarrow> txn_item \<Rightarrow> builder res" where
  "ingestEconomicTransaction env input b t =
     (let new = txn_node env t; durable = gn_durableIdentity new; b' = registerNode new b in
      if \<not> dated_in_window input (ti_date t) then Inr b'
      else ebind (requireSafeCents (ti_amountCents t) ''txn.amountCents'') (\<lambda>amount.
        let date = the (ti_date t); r = (if amount < 0 then Economic_expense else Economic_income) in
        Inr (registerOccurrence
          (plain_occurrence (stableOccurrenceId env durable date r) (registered b' new) durable date amount r
             False True True
             ((plain_source Src_transaction ''actual'')\<lparr>so_transactionId := Some (ti_transactionId t)\<rparr>)
             (case ti_explanation t of None \<Rightarrow> [Historical_activity] | Some ns \<Rightarrow> ns)
             (''txn:'' @ ti_transactionId t)) b')))"

section \<open>Double reservations\<close>

definition occurrence_le :: "graph_env \<Rightarrow> occurrence \<Rightarrow> occurrence \<Rightarrow> bool" where
  "occurrence_le env a b =
     (let c = ge_collate env (oc_date a) (oc_date b) in
      if c \<noteq> 0 then c < 0 else ge_collate env (oc_id a) (oc_id b) \<le> 0)"

text \<open>
  The reserved occurrences of a group, by position; the first of them in the order of the comparison
  is kept, the others give up their reservation.
\<close>

definition reserved_group :: "occurrence list \<Rightarrow> string \<Rightarrow> (nat \<times> occurrence) list" where
  "reserved_group occs grp = filter (\<lambda>(i, occ). oc_reserved occ \<and> oc_dedupeGroup occ = grp) (enumerate 0 occs)"

definition keeper :: "graph_env \<Rightarrow> occurrence list \<Rightarrow> string \<Rightarrow> nat \<times> occurrence" where
  "keeper env occs grp = hd (sort_by (\<lambda>(_, a) (_, b). occurrence_le env a b) (reserved_group occs grp))"

definition dedupe_occurrence :: "graph_env \<Rightarrow> occurrence list \<Rightarrow> nat \<times> occurrence \<Rightarrow> occurrence" where
  "dedupe_occurrence env occs = (\<lambda>(i, occ).
     if oc_reserved occ \<and> oc_dedupeGroup occ \<noteq> [] \<and> i \<noteq> fst (keeper env occs (oc_dedupeGroup occ))
     then occ\<lparr>oc_reserved := False, oc_suppressedBy := Some (oc_id (snd (keeper env occs (oc_dedupeGroup occ)))),
              oc_explanation := oc_explanation occ @ [Suppressed_duplicate (oc_dedupeGroup occ)]\<rparr>
     else occ)"

definition dedupeOverlappingSources :: "graph_env \<Rightarrow> builder \<Rightarrow> builder" where
  "dedupeOverlappingSources env b =
     b\<lparr>gb_occurrences := map (dedupe_occurrence env (gb_occurrences b)) (enumerate 0 (gb_occurrences b))\<rparr>"

definition reconcileBillBudgetOverlap :: "graph_input \<Rightarrow> builder \<Rightarrow> builder" where
  "reconcileBillBudgetOverlap input b =
     (if (\<exists>occ \<in> set (gb_occurrences b). oc_reserved occ \<and> so_kind (oc_source occ) = Src_budget \<and>
            (\<exists>c \<in> set_option (so_categoryId (oc_source occ)). c \<in> set (gi_billCategoryIds input)))
      then mark_graph [''obligation_identity_overlap_ambiguous''] b else b)"

section \<open>Funding of liabilities\<close>

text \<open>
  A transfer as evidence for a liability. Its amount is any number: the check of safe cents is made
  where it is added. \<open>absCents\<close> on such a number:
\<close>

definition abs_num :: "jsnum \<Rightarrow> jsnum" where
  "abs_num n = (if n = NaN then Fin 0 else js_abs n)"

record linked_transfer =
  lt_linkId :: string
  lt_date :: string
  lt_amountCents :: jsnum
  lt_linkAmountCents :: jsnum
  lt_fromAccountId :: "string option"
  lt_durableIdentity :: "string option"
  lt_sourceFingerprint :: "string option"
  lt_transactionId :: "string option"
  lt_transferredId :: "string option"

definition liabilityTransferEvidenceFingerprint :: "graph_env \<Rightarrow> linked_transfer \<Rightarrow> string \<Rightarrow> string" where
  "liabilityTransferEvidenceFingerprint env t liabilityAccountId =
     (let from' = text_or (lt_fromAccountId t) [];
          amount = ge_num env (abs_num (lt_amountCents t));
          fallback = text_or (lt_transferredId t) [] @ ''|'' @ text_or (lt_transactionId t) [] @ ''|'' @ from' @ ''|'' @ amount;
          sourceKey = text_or (lt_sourceFingerprint t) (text_or (lt_durableIdentity t) fallback)
      in liabilityAccountId @ ''|'' @ from' @ ''|'' @ lt_date t @ ''|'' @ amount @ ''|'' @ sourceKey)"

definition detectTransferEvidenceCollisions :: "graph_env \<Rightarrow> linked_transfer list \<Rightarrow> string \<Rightarrow> bool" where
  "detectTransferEvidenceCollisions env ts liabilityAccountId \<longleftrightarrow>
     (\<exists>a \<in> set ts. \<exists>b \<in> set ts. lt_linkId a \<noteq> lt_linkId b \<and> lt_linkId a \<noteq> [] \<and> lt_linkId b \<noteq> [] \<and>
        liabilityTransferEvidenceFingerprint env a liabilityAccountId =
        liabilityTransferEvidenceFingerprint env b liabilityAccountId)"

definition collect_occurrence ::
  "string \<Rightarrow> occurrence \<Rightarrow> (string \<times> linked_transfer) list \<Rightarrow> (string \<times> linked_transfer) list" where
  "collect_occurrence accountId occ m =
     (if oc_role occ \<noteq> Internal_transfer \<or> oc_reserved occ then m
      else case find (\<lambda>l. fl_accountId l = accountId) (oc_fundingLinks occ) of
        None \<Rightarrow> m
      | Some link \<Rightarrow>
          (case text_or_none (so_linkId (oc_source occ)) of
             None \<Rightarrow> m
           | Some linkId \<Rightarrow> AList.update linkId
               \<lparr>lt_linkId = linkId, lt_date = oc_date occ,
                lt_amountCents = abs_num (num_or (map_option js_of_int (fl_amountCents link)) (js_of_int (oc_amountCents occ))),
                lt_linkAmountCents = (case fl_amountCents link of None \<Rightarrow> NaN | Some c \<Rightarrow> js_of_int c),
                lt_fromAccountId = text_or_none (oc_fromAccountId occ),
                lt_durableIdentity = Some (oc_durableIdentity occ),
                lt_sourceFingerprint = text_or_none (oc_sourceFingerprint occ),
                lt_transactionId = text_or_none (oc_transactionId occ),
                lt_transferredId = text_or_none (oc_transferredId occ)\<rparr> m))"

definition collect_input ::
  "string \<Rightarrow> transfer_item \<Rightarrow> (string \<times> linked_transfer) list \<Rightarrow> (string \<times> linked_transfer) list" where
  "collect_input accountId t m =
     (if tf_ambiguous t \<or> tf_fundsLiabilityAccountId t \<noteq> Some accountId then m
      else if text_or_none (tf_date t) = None \<or> tf_linkId t = [] \<or> map_of m (tf_linkId t) \<noteq> None then m
      else AList.update (tf_linkId t)
        \<lparr>lt_linkId = tf_linkId t, lt_date = the (tf_date t), lt_amountCents = abs_num (tf_amountCents t),
         lt_linkAmountCents = abs_num (tf_amountCents t), lt_fromAccountId = text_or_none (tf_fromAccountId t),
         lt_durableIdentity = text_or_none (tf_durableIdentity t),
         lt_sourceFingerprint = text_or_none (tf_sourceFingerprint t),
         lt_transactionId = text_or_none (tf_transactionId t),
         lt_transferredId = text_or_none (tf_transferredId t)\<rparr> m)"

definition collectLiabilityFundingTransfers :: "graph_input \<Rightarrow> builder \<Rightarrow> string \<Rightarrow> linked_transfer list" where
  "collectLiabilityFundingTransfers input b accountId =
     map snd (fold (collect_input accountId) (gi_transfers input)
       (fold (collect_occurrence accountId) (gb_occurrences b) []))"

record funding_sums =
  fu_posted :: int
  fu_future :: int
  fu_futureDates :: "string list"
  fu_futureDate :: string

definition add_cents :: "int \<Rightarrow> jsnum \<Rightarrow> int res" where
  "add_cents total' n =
     (if \<not> js_safe_integer n then Inl (TypeError ''cents must be safe integers'') else sumCents [total', js_to_int n])"

definition fund_step ::
  "graph_env \<Rightarrow> string \<Rightarrow> pending_cycle \<Rightarrow> funding_sums \<Rightarrow> linked_transfer \<Rightarrow> funding_sums res" where
  "fund_step env financeDate c f t =
     (let amount = abs_num (num_or (Some (lt_linkAmountCents t)) (lt_amountCents t));
          observed = observedDateOnly (ge_parse env) (pc_observedAt c);
          posted = (pc_coverageKind c = Some ''statement'' \<and>
            (\<exists>o' \<in> set_option observed. o' \<noteq> [] \<and> o' < lt_date t \<and> lt_date t \<le> financeDate));
          future = (financeDate < lt_date t \<and> lt_date t \<le> pc_paymentDueDate c)
      in if posted then ebind (add_cents (fu_posted f) amount) (\<lambda>s. Inr (f\<lparr>fu_posted := s\<rparr>))
         else if future then ebind (add_cents (fu_future f) amount) (\<lambda>s.
           Inr (f\<lparr>fu_future := s, fu_futureDates := fu_futureDates f @ [lt_date t], fu_futureDate := lt_date t\<rparr>))
         else Inr f)"

definition cycle_bill :: "pending_cycle \<Rightarrow> occurrence \<Rightarrow> bool" where
  "cycle_bill c occ \<longleftrightarrow>
     (case oc_components occ of Bill_components _ (Some k) \<Rightarrow> k = pc_cycleKey c | _ \<Rightarrow> False)"

definition matching_bills :: "builder \<Rightarrow> pending_cycle \<Rightarrow> occurrence list" where
  "matching_bills b c =
     filter (\<lambda>occ. so_kind (oc_source occ) = Src_bill \<and>
       (cycle_bill c occ \<or> pc_paymentRecurringKey c \<noteq> None \<and> so_key (oc_source occ) = pc_paymentRecurringKey c \<and>
          \<not> oc_paid occ)) (gb_occurrences b)"

record cycle_evidence =
  cv_record :: cycle_record
  cv_partition :: partition
  cv_futureDate :: string

definition linked_ids :: "linked_transfer list \<Rightarrow> string list" where
  "linked_ids linked = filter (\<lambda>i. i \<noteq> []) (map lt_linkId linked)"

definition cycle_issues :: "occurrence list \<Rightarrow> linked_transfer list \<Rightarrow> pending_cycle \<Rightarrow> funding_sums \<Rightarrow> string list" where
  "cycle_issues bills linked c f =
     issue_if (\<exists>occ \<in> set bills. oc_date occ \<noteq> pc_paymentDueDate c) ''due_date_mismatch'' @
     issue_if (\<exists>t \<in> set linked. pc_paymentDueDate c < lt_date t) ''future_transfer_after_due'' @
     issue_if (pc_coverageKind c = Some ''statement'' \<and> absCents (pc_obligationCents c) < fu_posted f) ''overpayment''"

definition evidence_of ::
  "graph_env \<Rightarrow> occurrence list \<Rightarrow> linked_transfer list \<Rightarrow> pending_cycle \<Rightarrow> funding_sums \<Rightarrow> int \<Rightarrow> int \<Rightarrow> evidence" where
  "evidence_of env bills linked c f billCents adjusted =
     (let due = pc_paymentDueDate c in
      \<lparr>ce_adjustedObligationCents = adjusted, ce_billCents = billCents, ce_futureTransferCents = fu_future f,
       ce_billDueDate = Some (if \<exists>occ \<in> set bills. oc_date occ \<noteq> due then oc_date (hd bills) else due),
       ce_liabilityDueDate = Some due, ce_futureTransferDates = fu_futureDates f,
       ce_duplicateTransferLinks = (linked_ids linked \<noteq> [] \<and>
         length (linked_ids linked) \<noteq> length (js_dedupe (linked_ids linked))),
       ce_duplicateBillLinks = (1 < length (filter (cycle_bill c) bills)),
       ce_duplicateEvidenceCollision = detectTransferEvidenceCollisions env linked (pc_accountId c)\<rparr>)"

definition cycle_result ::
  "pending_cycle \<Rightarrow> funding_sums \<Rightarrow> int \<Rightarrow> int \<Rightarrow> string list \<Rightarrow> partition \<Rightarrow> cycle_evidence" where
  "cycle_result c f billCents adjusted issues p =
     \<lparr>cv_record = \<lparr>cy_cycleKey = pc_cycleKey c, cy_quarantined = (issues \<noteq> []),
        cy_adjustedObligationCents = adjusted, cy_reserved = (if issues \<noteq> [] then None else Some p),
        cr_accountId = pc_accountId c, cr_coverageKind = pc_coverageKind c, cr_obligationCents = pc_obligationCents c,
        cr_postedPaymentCents = fu_posted f, cr_billCents = billCents, cr_futureTransferCents = fu_future f,
        cr_issues = issues\<rparr>,
      cv_partition = p, cv_futureDate = fu_futureDate f\<rparr>"

definition assess_cycle :: "graph_env \<Rightarrow> graph_input \<Rightarrow> builder \<Rightarrow> occurrence list \<Rightarrow> pending_cycle \<Rightarrow> cycle_evidence res" where
  "assess_cycle env input b bills c =
     (let due = pc_paymentDueDate c; linked = collectLiabilityFundingTransfers input b (pc_accountId c)
      in ebind (efold (fund_step env (gi_financeDate input) c)
             \<lparr>fu_posted = 0, fu_future = 0, fu_futureDates = [], fu_futureDate = due\<rparr> linked) (\<lambda>f.
         ebind (efold (\<lambda>s occ. sumCents [s, absCents (oc_amountCents occ)]) 0
             (filter (\<lambda>occ. oc_date occ = due \<or> cycle_bill c occ) bills)) (\<lambda>billCents.
         ebind (computeAdjustedObligation (pc_coverageKind c) (pc_obligationCents c) (pc_currentBalanceCents c) (fu_posted f))
           (\<lambda>adjusted.
         ebind (validateCycleEvidence (evidence_of env bills linked c f billCents adjusted)) (\<lambda>(more, p).
         Inr (cycle_result c f billCents adjusted (cycle_issues bills linked c f @ more) p))))))"

definition part_occurrence ::
  "graph_env \<Rightarrow> pending_cycle \<Rightarrow> partition_kind \<Rightarrow> string \<Rightarrow> int \<Rightarrow> sentence list \<Rightarrow> occurrence" where
  "part_occurrence env c k date amount notes =
     (let grp = pc_cycleKey c @ '':'' @ partition_text k in
      \<lparr>oc_id = stableOccurrenceId env grp date Cash_outflow, oc_nodeId = pc_nodeId c,
       oc_durableIdentity = pc_durableIdentity c, oc_date = date, oc_amountCents = - amount, oc_role = Cash_outflow,
       oc_reserved = True, oc_paid = False, oc_auditOnly = False, oc_partition = Some k, oc_cycleKey = Some (pc_cycleKey c),
       oc_source = (plain_source Src_credit_liability (text_or (pc_coverageKind c) ''policy''))
         \<lparr>so_accountId := Some (pc_accountId c), so_paymentRecurringKey := pc_paymentRecurringKey c\<rparr>,
       oc_explanation = notes, oc_dedupeGroup = grp, oc_components = Partition_components k amount,
       oc_fundingLinks = [\<lparr>fl_kind = ''funding_account'', fl_accountId = pc_fundingAccountId c, fl_amountCents = None\<rparr>],
       oc_fromAccountId = None, oc_sourceFingerprint = None, oc_transactionId = None, oc_transferredId = None,
       oc_suppressedBy = None\<rparr>)"

definition register_part :: "bool \<Rightarrow> occurrence \<Rightarrow> builder \<Rightarrow> builder" where
  "register_part present' occ b = (if present' then registerOccurrence occ b else b)"

definition reserve_parts :: "graph_env \<Rightarrow> pending_cycle \<Rightarrow> cycle_evidence \<Rightarrow> builder \<Rightarrow> builder" where
  "reserve_parts env c v b =
     (let p = cv_partition v; due = pc_paymentDueDate c;
          future = pt_futureComponentCents p; bill = pt_billRemainderComponentCents p; rest = pt_residualComponentCents p
      in register_part (0 < rest) (part_occurrence env c Residual_liability due rest
             [if pc_coverageKind c = Some ''statement'' then Statement_residual rest else Balance_residual rest])
        (register_part (0 < bill) (part_occurrence env c Bill_remainder due bill [Remainder_of_bill bill])
        (register_part (0 < future) (part_occurrence env c Future_transfer (cv_futureDate v) future
             [Reserved_transfer future, Transfer_is_outflow]) b)))"

text \<open>
  \<open>billOccs\<close> is read once before the loop; the parts the loop adds are no bills, so reading it in each
  turn gives the same.
\<close>

definition reconcile_cycle :: "graph_env \<Rightarrow> graph_input \<Rightarrow> builder \<Rightarrow> pending_cycle \<Rightarrow> builder res" where
  "reconcile_cycle env input b c =
     ebind (assess_cycle env input b (matching_bills b c) c) (\<lambda>v.
       let b' = b\<lparr>gb_cyclePartitions := gb_cyclePartitions b @ [cv_record v]\<rparr> in
       if cy_quarantined (cv_record v)
       then let g = mark_graph [''obligation_liability_funding_mismatch''] b' in
         Inr (case find (\<lambda>n. gn_id n = pc_nodeId c) (gb_nodes b) of
                None \<Rightarrow> g
              | Some n \<Rightarrow> mark_node (gn_durableIdentity n) [''obligation_liability_funding_mismatch''] g)
       else if cy_adjustedObligationCents (cv_record v) \<le> 0 then Inr b'
       else Inr (reserve_parts env c v b'))"

definition reconcileLiabilityFundingLedger :: "graph_env \<Rightarrow> graph_input \<Rightarrow> builder \<Rightarrow> builder res" where
  "reconcileLiabilityFundingLedger env input b =
     ebind (efold (reconcile_cycle env input) b (gb_pendingCycles b)) (\<lambda>b'.
     ebind (verifyCyclePartitionInvariants (map cycle.truncate (gb_cyclePartitions b'))) (\<lambda>issues.
       Inr (if issues = [] then b' else mark_graph [''obligation_liability_funding_mismatch''] b')))"

section \<open>The graph\<close>

record gedge =
  ed_id :: string
  ed_kind :: edge_kind
  ed_fromNodeId :: string
  ed_occurrenceId :: string
  ed_partition :: "partition_kind option"
  ed_cycleKey :: "string option"
  ed_amountCents :: int
  ed_explanationRef :: string

record completeness =
  gc_complete :: bool
  gc_incompleteReasons :: "string list"
  gc_occurrenceCount :: nat
  gc_reservedOccurrenceCount :: nat

record graph =
  gr_version :: nat
  gr_generatedAt :: string
  gr_financeDate :: string
  gr_window :: "string \<times> string"
  gr_nodes :: "gnode list"
  gr_edges :: "gedge list"
  gr_occurrences :: "occurrence list"
  gr_cyclePartitions :: "cycle_record list"
  gr_incompleteReasons :: "string list"

definition graphCompleteness :: "graph \<Rightarrow> completeness" where
  "graphCompleteness g =
     (let reasons = mergeReasons [gr_incompleteReasons g, concat (map gn_incompleteReasons (gr_nodes g))] in
      \<lparr>gc_complete = (reasons = []), gc_incompleteReasons = reasons,
       gc_occurrenceCount = length (gr_occurrences g),
       gc_reservedOccurrenceCount = length (filter oc_reserved (gr_occurrences g))\<rparr>)"

definition partition_edge :: "graph_env \<Rightarrow> occurrence \<Rightarrow> gedge list" where
  "partition_edge env occ =
     (if oc_partition occ = None \<or> \<not> oc_reserved occ then []
      else [\<lparr>ed_id = stableEdgeId env (oc_nodeId occ) (oc_id occ) Funding_partition, ed_kind = Funding_partition,
             ed_fromNodeId = oc_nodeId occ, ed_occurrenceId = oc_id occ, ed_partition = oc_partition occ,
             ed_cycleKey = text_or_none (oc_cycleKey occ), ed_amountCents = \<bar>oc_amountCents occ\<bar>,
             ed_explanationRef = oc_id occ\<rparr>])"

definition transfer_edge :: "graph_env \<Rightarrow> occurrence \<Rightarrow> gedge" where
  "transfer_edge env occ =
     \<lparr>ed_id = stableEdgeId env (oc_nodeId occ) (oc_id occ) Transfer_internal, ed_kind = Transfer_internal,
      ed_fromNodeId = oc_nodeId occ, ed_occurrenceId = oc_id occ, ed_partition = None, ed_cycleKey = None,
      ed_amountCents = \<bar>oc_amountCents occ\<bar>, ed_explanationRef = oc_id occ\<rparr>"

definition graph_edges :: "graph_env \<Rightarrow> occurrence list \<Rightarrow> gedge list" where
  "graph_edges env occs =
     sortByKeys (\<lambda>e. [ed_id e])
       (concat (map (partition_edge env) occs) @
        map (transfer_edge env) (filter (\<lambda>occ. oc_role occ = Internal_transfer) occs))"

definition empty_builder :: "graph_input \<Rightarrow> builder" where
  "empty_builder input =
     (let block = (gi_billCategoryIdentityIssues input \<noteq> []) in
      \<lparr>gb_nodes = [], gb_duplicates = [], gb_occurrences = [], gb_capExceeded = False,
       gb_incompleteReasons = (if block then mergeReasons [[], [''obligation_identity_overlap_ambiguous'']] else []),
       gb_pendingCycles = [], gb_cyclePartitions = [], gb_blockBudgetReservations = block\<rparr>)"

definition ingest_all :: "graph_env \<Rightarrow> graph_input \<Rightarrow> builder \<Rightarrow> builder res" where
  "ingest_all env input b0 =
     ebind (efold (ingestRecurring env input) b0 (gi_recurringItems input)) (\<lambda>b1.
     ebind (efold (ingestBillOccurrence env input) b1 (gi_billOccurrences input)) (\<lambda>b2.
     ebind (efold (ingestIncome env input) b2 (gi_incomeStreams input)) (\<lambda>b3.
     ebind (efold (ingestManualDebt env input) b3 (gi_manualDebts input)) (\<lambda>b4.
     ebind (efold (ingestCreditLiability env input) b4 (gi_creditLiabilities input)) (\<lambda>b5.
     ebind (efold (ingestTransfer env input) b5 (gi_transfers input)) (\<lambda>b6.
     ebind (efold (ingestBudgetReservation env input) b6 (gi_budgetReservations input)) (\<lambda>b7.
     ebind (efold (ingestReimbursement env input) b7 (gi_reimbursementExpectations input)) (\<lambda>b8.
     efold (ingestEconomicTransaction env input) b8 (gi_economicTransactions input)))))))))"

definition settle_builder :: "graph_env \<Rightarrow> graph_input \<Rightarrow> builder \<Rightarrow> builder res" where
  "settle_builder env input b =
     ebind (reconcileLiabilityFundingLedger env input
       (reconcileBillBudgetOverlap input (dedupeOverlappingSources env b))) (\<lambda>b'.
     let b1 = (if gb_duplicates b' \<noteq> [] then mark_graph [''obligation_duplicate_identity''] b' else b')
     in Inr (if gb_capExceeded b1 then mark_graph [''obligation_occurrence_cap_exceeded''] b1 else b1))"

definition graph_of :: "graph_env \<Rightarrow> graph_input \<Rightarrow> builder \<Rightarrow> graph" where
  "graph_of env input b =
     (let nodes = sortByKeys (\<lambda>n. [gn_durableIdentity n, gn_id n]) (gb_nodes b) in
      \<lparr>gr_version = 1, gr_generatedAt = the (gi_generatedAt input), gr_financeDate = gi_financeDate input,
       gr_window = (gi_windowStart input, gi_windowEnd input), gr_nodes = nodes,
       gr_edges = graph_edges env (gb_occurrences b),
       gr_occurrences = sortByKeys (\<lambda>occ. [oc_date occ, oc_id occ]) (gb_occurrences b),
       gr_cyclePartitions = gb_cyclePartitions b,
       gr_incompleteReasons = mergeReasons (gb_incompleteReasons b # map gn_incompleteReasons nodes)\<rparr>)"

definition buildObligationGraph :: "graph_env \<Rightarrow> graph_input \<Rightarrow> graph res" where
  "buildObligationGraph env raw =
     (let input = normalizeBuildInput raw in
      ebind (ingest_all env input (empty_builder input)) (\<lambda>b.
      ebind (settle_builder env input b) (\<lambda>b'. Inr (graph_of env input b'))))"

section \<open>Reading the graph\<close>

text \<open>A bound of the window that is missing or empty does not restrict.\<close>

definition in_bounds :: "string option \<Rightarrow> string option \<Rightarrow> string \<Rightarrow> bool" where
  "in_bounds start stop date \<longleftrightarrow>
     \<not> (\<exists>s \<in> set_option start. s \<noteq> [] \<and> date < s) \<and> \<not> (\<exists>e \<in> set_option stop. e \<noteq> [] \<and> e < date)"

definition reservedCashOccurrences :: "graph \<Rightarrow> string option \<Rightarrow> string option \<Rightarrow> occurrence list" where
  "reservedCashOccurrences g start stop =
     filter (\<lambda>occ. oc_reserved occ \<and> oc_role occ = Cash_outflow \<and> in_bounds start stop (oc_date occ)) (gr_occurrences g)"

definition reservedOutflowCents :: "graph \<Rightarrow> string option \<Rightarrow> string option \<Rightarrow> (int \<times> occurrence list) res" where
  "reservedOutflowCents g start stop =
     (let occs = reservedCashOccurrences g start stop in
      ebind (sumCents (map (\<lambda>occ. - oc_amountCents occ) occs)) (\<lambda>c. Inr (c, occs)))"

record explanation =
  ex_id :: string
  ex_nodeId :: "string option"
  ex_label :: string
  ex_date :: "string option"
  ex_amountCents :: "int option"
  ex_role :: "role option"
  ex_reserved :: bool
  ex_paid :: bool
  ex_source :: "source option"
  ex_explanation :: "sentence list"
  ex_incompleteReasons :: "string list"
  ex_suppressedBy :: "string option"

definition explainOccurrence :: "graph \<Rightarrow> string \<Rightarrow> explanation" where
  "explainOccurrence g occurrenceId =
     (case find (\<lambda>occ. oc_id occ = occurrenceId) (gr_occurrences g) of
        None \<Rightarrow> \<lparr>ex_id = occurrenceId, ex_nodeId = None, ex_label = ''Unknown occurrence'', ex_date = None,
          ex_amountCents = None, ex_role = None, ex_reserved = False, ex_paid = False, ex_source = None,
          ex_explanation = [], ex_incompleteReasons = [''missing_occurrence''], ex_suppressedBy = None\<rparr>
      | Some occ \<Rightarrow>
          let node = find (\<lambda>n. gn_id n = oc_nodeId occ) (gr_nodes g) in
          \<lparr>ex_id = oc_id occ, ex_nodeId = Some (oc_nodeId occ),
           ex_label = text_or (map_option gn_label node) (oc_durableIdentity occ), ex_date = Some (oc_date occ),
           ex_amountCents = Some (oc_amountCents occ), ex_role = Some (oc_role occ), ex_reserved = oc_reserved occ,
           ex_paid = oc_paid occ, ex_source = Some (oc_source occ), ex_explanation = oc_explanation occ,
           ex_incompleteReasons = (case node of None \<Rightarrow> [] | Some n \<Rightarrow> gn_incompleteReasons n),
           ex_suppressedBy = oc_suppressedBy occ\<rparr>)"

record cash_event =
  ev_date :: string
  ev_amountCents :: int
  ev_label :: string
  ev_kind :: string
  ev_sourceId :: string
  ev_provenance :: string
  ev_reserved :: bool

definition occurrence_event :: "graph \<Rightarrow> occurrence \<Rightarrow> cash_event list" where
  "occurrence_event g occ =
     (let event = (\<lambda>kind reserved. \<lparr>ev_date = oc_date occ, ev_amountCents = oc_amountCents occ,
            ev_label = ex_label (explainOccurrence g (oc_id occ)), ev_kind = kind, ev_sourceId = oc_id occ,
            ev_provenance = (if so_provenance (oc_source occ) = [] then ''inferred'' else so_provenance (oc_source occ)),
            ev_reserved = reserved\<rparr>) in
      if oc_role occ = Internal_transfer then []
      else if oc_role occ = Economic_expense \<or> oc_role occ = Economic_income then []
      else if oc_role occ = Liability_accrual then []
      else if \<not> oc_reserved occ \<and> oc_role occ = Cash_outflow then []
      else if oc_role occ = Cash_inflow \<and> \<not> oc_reserved occ then [event ''income'' False]
      else if oc_role occ = Cash_outflow
      then (if so_kind (oc_source occ) = Src_budget then [] else [event ''bill'' (oc_reserved occ)])
      else [])"

definition forecastCashEventsFromGraph :: "graph \<Rightarrow> string \<Rightarrow> string \<Rightarrow> cash_event list" where
  "forecastCashEventsFromGraph g windowStart windowEnd =
     (if \<not> gc_complete (graphCompleteness g) then []
      else sortByKeys (\<lambda>e. [ev_date e, ev_sourceId e])
        (concat (map (occurrence_event g)
          (filter (\<lambda>occ. \<not> oc_auditOnly occ \<and> windowStart \<le> oc_date occ \<and> oc_date occ \<le> windowEnd)
            (gr_occurrences g)))))"

record bill_row =
  br_id :: string
  br_key :: string
  br_payee :: string
  br_amountCents :: int
  br_dueDate :: string
  br_paid :: bool
  br_reserved :: bool
  br_source :: source
  br_explanation :: "sentence list"

definition billsFromGraph :: "graph \<Rightarrow> string option \<Rightarrow> string option \<Rightarrow> bill_row list" where
  "billsFromGraph g start stop =
     sortByKeys (\<lambda>r. [br_dueDate r, br_id r])
       (map (\<lambda>occ. \<lparr>br_id = text_or (so_id (oc_source occ)) (oc_id occ),
               br_key = text_or (so_key (oc_source occ)) (oc_durableIdentity occ),
               br_payee = ex_label (explainOccurrence g (oc_id occ)), br_amountCents = - oc_amountCents occ,
               br_dueDate = oc_date occ, br_paid = oc_paid occ, br_reserved = oc_reserved occ,
               br_source = oc_source occ, br_explanation = oc_explanation occ\<rparr>)
         (filter (\<lambda>occ. oc_role occ = Cash_outflow \<and>
             (so_kind (oc_source occ) = Src_bill \<or> so_kind (oc_source occ) = Src_recurring) \<and>
             in_bounds start stop (oc_date occ) \<and>
             \<not> (so_kind (oc_source occ) = Src_recurring \<and> take 12 (oc_dedupeGroup occ) \<noteq> ''bill-series:''))
           (gr_occurrences g)))"

text \<open>The dash of the first method text is written with two hyphens here.\<close>

record safe_to_spend =
  sf_valueCents :: "int option"
  sf_complete :: bool
  sf_incompleteReasons :: "string list"
  sf_reservedCents :: int
  sf_reservations :: "explanation list"
  sf_method :: string

definition safeToSpendFromGraph :: "graph \<Rightarrow> int \<Rightarrow> string option \<Rightarrow> string option \<Rightarrow> safe_to_spend res" where
  "safeToSpendFromGraph g operatingCashCents start stop =
     (let completeness = graphCompleteness g in
      ebind (reservedOutflowCents g start stop) (\<lambda>(reserved, occs).
        let reservations = map (\<lambda>occ. explainOccurrence g (oc_id occ)) occs in
        if \<not> gc_complete completeness
        then Inr \<lparr>sf_valueCents = None, sf_complete = False, sf_incompleteReasons = gc_incompleteReasons completeness,
          sf_reservedCents = reserved, sf_reservations = reservations,
          sf_method = ''obligation graph quarantined -- reservations withheld''\<rparr>
        else ebind (sumCents [operatingCashCents, - reserved]) (\<lambda>value.
          Inr \<lparr>sf_valueCents = Some value, sf_complete = True, sf_incompleteReasons = [], sf_reservedCents = reserved,
            sf_reservations = reservations,
            sf_method = ''operating cash minus obligation-graph cash reservations due this month''\<rparr>)))"

text \<open>The first loop keeps the last reserved occurrence of a group and a date.\<close>

fun reservation_issues :: "(string \<times> string) list \<Rightarrow> occurrence list \<Rightarrow> string list" where
  "reservation_issues groups [] = []"
| "reservation_issues groups (occ # occs) =
     (if oc_reserved occ \<and> oc_dedupeGroup occ \<noteq> []
      then let key = oc_dedupeGroup occ @ ''|'' @ oc_date occ; suppressed = present (oc_suppressedBy occ) in
        issue_if ((\<exists>prior \<in> set_option (map_of groups key). prior \<noteq> [] \<and> prior \<noteq> oc_id occ) \<and> \<not> suppressed)
          (''double reservation '' @ key) @
        reservation_issues (if suppressed then groups else AList.update key (oc_id occ) groups) occs
      else reservation_issues groups occs)"

definition verifyGraphInvariants :: "graph \<Rightarrow> string list res" where
  "verifyGraphInvariants g =
     ebind (verifyCyclePartitionInvariants (map cycle.truncate (gr_cyclePartitions g))) (\<lambda>cycleIssues. Inr
       (reservation_issues [] (gr_occurrences g) @
        concat (map (\<lambda>occ. issue_if (oc_nodeId occ \<notin> gn_id ` set (gr_nodes g)) (''orphan occurrence '' @ oc_id occ))
          (gr_occurrences g)) @
        issue_if (MAX_OCCURRENCES < length (gr_occurrences g)) ''occurrence cap exceeded'' @ cycleIssues))"

record graph_summary =
  gs_version :: nat
  gs_nodeCount :: nat
  gs_edgeCount :: nat
  gs_occurrenceCount :: nat
  gs_reservedOutflowCents :: int
  gs_completeness :: completeness

text \<open>
  The summary passes \<open>graph.window\<close>, whose bounds have other names than the parameters they are meant
  for, so nothing is restricted.
\<close>

definition graphSummary :: "graph \<Rightarrow> graph_summary res" where
  "graphSummary g =
     ebind (reservedOutflowCents g None None) (\<lambda>(reserved, _).
       Inr \<lparr>gs_version = gr_version g, gs_nodeCount = length (gr_nodes g), gs_edgeCount = length (gr_edges g),
         gs_occurrenceCount = length (gr_occurrences g), gs_reservedOutflowCents = reserved,
         gs_completeness = graphCompleteness g\<rparr>)"

end
