(* ===== verification/ObligationReservations.thy ===== *)
theory ObligationReservations
  imports ObligationGraph
begin

text \<open>
  What the obligation graph promises: it never grows past its cap without saying so, every occurrence
  belongs to a node and has safe cents of the right sign, a group of sources is reserved once, the
  parts of a liability add up to what is owed, and safe-to-spend is the cash minus the reservations.
\<close>

section \<open>What every source contributes\<close>

text \<open>An occurrence as the ingesting steps make it; \<open>l\<close> starts the keys of liability cycles only.\<close>

definition source_made :: "occurrence \<Rightarrow> bool" where
  "source_made occ \<longleftrightarrow> safe_int (oc_amountCents occ) \<and>
     (oc_role occ = Cash_outflow \<longrightarrow> oc_amountCents occ \<le> 0) \<and> (oc_role occ = Cash_inflow \<longrightarrow> 0 \<le> oc_amountCents occ) \<and>
     oc_partition occ = None \<and> oc_suppressedBy occ = None \<and>
     (oc_reserved occ \<longrightarrow> oc_role occ = Cash_outflow \<and> oc_dedupeGroup occ \<noteq> [] \<and> hd (oc_dedupeGroup occ) \<noteq> CHR ''l'')"

definition node_ids :: "builder \<Rightarrow> string set" where
  "node_ids b = gn_id ` set (gb_nodes b)"

text \<open>What the steps of the first phase keep.\<close>

definition ingest_ok :: "graph_input \<Rightarrow> builder \<Rightarrow> bool" where
  "ingest_ok input b \<longleftrightarrow> length (gb_occurrences b) \<le> MAX_OCCURRENCES \<and>
     (\<forall>occ \<in> set (gb_occurrences b). source_made occ \<and> oc_nodeId occ \<in> node_ids b) \<and>
     (\<forall>c \<in> set (gb_pendingCycles b). pc_nodeId c \<in> node_ids b \<and> safe_int (pc_obligationCents c) \<and>
        hd (pc_cycleKey c) = CHR ''l'' \<and> pc_cycleKey c \<noteq> []) \<and> gb_cyclePartitions b = []"

text \<open>
  The links the bridge makes: a bill that carries the key of a liability cycle is linked to the
  liability, and a cycle is keyed by \<open>liabilityCycleKey\<close>.
\<close>

definition links_ok :: "graph_input \<Rightarrow> bool" where
  "links_ok input \<longleftrightarrow>
     (\<forall>bill \<in> set (gi_billOccurrences input). text_or_none (bi_liabilityCycleKey bill) \<noteq> None \<longrightarrow> bi_liabilityLinked bill) \<and>
     (\<forall>l \<in> set (gi_creditLiabilities input). \<forall>k \<in> set_option (text_or_none (li_cycleKey l)). hd k = CHR ''l'')"

lemma map_ids:
  assumes "\<And>n. gn_id (f n) = gn_id n"
  shows "node_ids (update_node d f b) = node_ids b"
proof -
  have "map gn_id (gb_nodes (update_node d f b)) = map gn_id (gb_nodes b)" by (simp add: update_node_def assms)
  then show ?thesis unfolding node_ids_def by (metis set_map)
qed

lemma node_ids_simps [simp]:
  "node_ids (mark_node d rs b) = node_ids b" "node_ids (mark_graph rs b) = node_ids b"
  "node_ids (registerOccurrence occ b) = node_ids b"
  "node_ids (b\<lparr>gb_pendingCycles := cs\<rparr>) = node_ids b" "node_ids (b\<lparr>gb_cyclePartitions := ps\<rparr>) = node_ids b"
  "node_ids (b\<lparr>gb_duplicates := ds\<rparr>) = node_ids b" "node_ids (b\<lparr>gb_occurrences := os\<rparr>) = node_ids b"
  by (simp_all add: mark_node_def map_ids) (simp_all add: mark_graph_def node_ids_def registerOccurrence_def)

lemma marked_simps [simp]:
  "gb_occurrences (mark_node d rs b) = gb_occurrences b" "gb_pendingCycles (mark_node d rs b) = gb_pendingCycles b"
  "gb_capExceeded (mark_node d rs b) = gb_capExceeded b" "gb_cyclePartitions (mark_node d rs b) = gb_cyclePartitions b"
  "gb_occurrences (mark_graph rs b) = gb_occurrences b" "gb_pendingCycles (mark_graph rs b) = gb_pendingCycles b"
  "gb_capExceeded (mark_graph rs b) = gb_capExceeded b" "gb_cyclePartitions (mark_graph rs b) = gb_cyclePartitions b"
  "gb_nodes (mark_graph rs b) = gb_nodes b" "gb_duplicates (mark_graph rs b) = gb_duplicates b"
  by (simp_all add: mark_node_def mark_graph_def update_node_def)

lemma registerNode_simps [simp]:
  "gb_occurrences (registerNode n b) = gb_occurrences b" "gb_pendingCycles (registerNode n b) = gb_pendingCycles b"
  "gb_capExceeded (registerNode n b) = gb_capExceeded b" "gb_cyclePartitions (registerNode n b) = gb_cyclePartitions b"
  by (simp_all add: registerNode_def update_node_def split: option.splits)

lemma registerNode_ids: "node_ids b \<subseteq> node_ids (registerNode n b)"
proof -
  have "node_ids (update_node d (\<lambda>n. n\<lparr>gn_incompleteReasons := h n\<rparr>) b') = node_ids b'" for d h b' by (rule map_ids) simp
  then show ?thesis by (auto simp: registerNode_def split: option.splits) (auto simp: node_ids_def)
qed

lemma find_node_some: "find_node b d = Some n \<Longrightarrow> gn_id n \<in> node_ids b"
  by (auto simp: find_node_def node_ids_def dest: find_SomeD)

lemma registered_found: "find_node (registerNode n b) (gn_durableIdentity n) \<noteq> None"
proof (cases "find_node b (gn_durableIdentity n)")
  case None
  have "find (\<lambda>m. gn_durableIdentity m = gn_durableIdentity n) (gb_nodes b @ [n]) \<noteq> None"
    unfolding find_None_iff by auto
  moreover have "gb_nodes (registerNode n b) = gb_nodes b @ [n]" using None by (simp add: registerNode_def)
  ultimately show ?thesis by (simp only: find_node_def simp_thms)
next
  case (Some e)
  then have e: "e \<in> set (gb_nodes b)" "gn_durableIdentity e = gn_durableIdentity n"
    by (auto simp: find_node_def dest: find_SomeD)
  have "map gn_durableIdentity (gb_nodes (registerNode n b)) = map gn_durableIdentity (gb_nodes b)"
    using Some by (simp add: registerNode_def update_node_def)
  then have "\<exists>x \<in> set (gb_nodes (registerNode n b)). gn_durableIdentity x = gn_durableIdentity n"
    using e by (metis image_iff list.set_map)
  then show ?thesis unfolding find_node_def find_None_iff by blast
qed

lemma registered_id [simp]: "gn_id (registered (registerNode n b) n) \<in> node_ids (registerNode n b)"
  using registered_found [of n b] by (auto simp: registered_def find_node_some split: option.splits)

lemma registerOccurrence_simps [simp]:
  "gb_pendingCycles (registerOccurrence occ b) = gb_pendingCycles b"
  "gb_cyclePartitions (registerOccurrence occ b) = gb_cyclePartitions b"
  "gb_nodes (registerOccurrence occ b) = gb_nodes b"
  by (simp_all add: registerOccurrence_def)

lemma ok_registerNode: "ingest_ok input b \<Longrightarrow> ingest_ok input (registerNode n b)"
  using registerNode_ids [of b n] by (auto simp: ingest_ok_def)

lemma ok_mark_node: "ingest_ok input b \<Longrightarrow> ingest_ok input (mark_node d rs b)"
  by (simp add: ingest_ok_def)

lemma ok_registerOccurrence:
  "ingest_ok input b \<Longrightarrow> source_made occ \<Longrightarrow> oc_nodeId occ \<in> node_ids b \<Longrightarrow> ingest_ok input (registerOccurrence occ b)"
  by (auto simp: ingest_ok_def) (auto simp: registerOccurrence_def split: if_splits)

lemmas ok_steps = ok_registerNode ok_mark_node ok_registerOccurrence

lemma safe_magnitude: "magnitude v l = Inr c \<Longrightarrow> safe_int c \<and> safe_int (- c) \<and> 0 \<le> c"
  by (auto simp: magnitude_def requireSafeCents_def res_simps split: if_splits dest!: safe_to_int)
    (auto simp: safe_int_def)

lemma safe_required: "requireSafeCents v l = Inr c \<Longrightarrow> safe_int c"
  by (auto simp: requireSafeCents_def safe_to_int split: if_splits)

lemma plain_occurrence_simps [simp]:
  "oc_nodeId (plain_occurrence i n d dt a r rs p au s ns g) = gn_id n"
  "source_made (plain_occurrence i n d dt a r rs p au s ns g) \<longleftrightarrow>
     safe_int a \<and> (r = Cash_outflow \<longrightarrow> a \<le> 0) \<and> (r = Cash_inflow \<longrightarrow> 0 \<le> a) \<and>
     (rs \<longrightarrow> r = Cash_outflow \<and> g \<noteq> [] \<and> hd g \<noteq> CHR ''l'')"
  by (simp_all add: plain_occurrence_def source_made_def)

lemma ingestRecurring_ok:
  assumes "ingestRecurring env input b item = Inr b'" "ingest_ok input b"
  shows "ingest_ok input b'"
proof -
  let ?n = "recurring_node env item" let ?b = "registerNode ?n b"
  have base: "ingest_ok input ?b" by (rule ok_registerNode [OF assms(2)])
  have step: "ingest_ok input t \<and> node_ids t = node_ids ?b"
    if t: "recurring_occurrence env item d (registered ?b ?n) s p = Inr t" and s: "ingest_ok input s \<and> node_ids s = node_ids ?b"
    for s t d p
  proof -
    obtain occ where "t = registerOccurrence occ s" "source_made occ" "oc_nodeId occ = gn_id (registered ?b ?n)"
      using t by (auto simp: recurring_occurrence_def Let_def res_simps dest!: safe_magnitude)
    then show ?thesis using s by (simp add: ok_registerOccurrence)
  qed
  show ?thesis
  proof (cases "ri_projectionUncertain item \<or> ri_scheduleUncertain item")
    case True
    then show ?thesis using assms(1) base by (auto simp: ingestRecurring_def Let_def intro: ok_mark_node)
  next
    case False
    then have "efold (recurring_occurrence env item (gn_durableIdentity ?n) (registered ?b ?n)) ?b
        (filter (\<lambda>p. in_window input (pj_date p)) (ri_projectedOccurrences item)) = Inr b'"
      using assms(1) by (simp add: ingestRecurring_def Let_def)
    then have "ingest_ok input b' \<and> node_ids b' = node_ids ?b"
      by (rule efold_invariant) (use base step in auto)
    then show ?thesis by blast
  qed
qed

lemma ingest_bill_ok:
  assumes "ingestBillOccurrence env input b bill = Inr b'" "ingest_ok input b"
    "text_or_none (bi_liabilityCycleKey bill) \<noteq> None \<longrightarrow> bi_liabilityLinked bill"
  shows "ingest_ok input b'"
proof -
  let ?n = "bill_node env bill" let ?b = "registerNode ?n b"
  have base: "ingest_ok input ?b" by (rule ok_registerNode [OF assms(2)])
  have made: "source_made (bill_occurrence env bill (registered ?b ?n) amount) \<and>
      oc_nodeId (bill_occurrence env bill (registered ?b ?n) amount) = gn_id (registered ?b ?n)"
    if "magnitude (bi_amountCents bill) l = Inr amount" for amount l
    using safe_magnitude [OF that] assms(3)
    by (auto simp: bill_occurrence_def Let_def source_made_def plain_occurrence_def text_or_def text_or_none_def
        split: option.splits if_splits)
  show ?thesis using assms(1) base
    by (auto simp: ingestBillOccurrence_def Let_def res_simps made split: if_splits intro!: ok_steps)
qed

lemma ingest_income_ok:
  assumes "ingestIncome env input b stream = Inr b'" "ingest_ok input b"
  shows "ingest_ok input b'"
proof -
  let ?n = "income_node env stream" let ?b = "registerNode ?n b"
  have base: "ingest_ok input ?b" by (rule ok_registerNode [OF assms(2)])
  have step: "ingest_ok input t \<and> node_ids t = node_ids ?b"
    if t: "income_occurrence env stream (registered ?b ?n) s p = Inr t" and s: "ingest_ok input s \<and> node_ids s = node_ids ?b"
    for s t p
  proof -
    obtain occ where "t = registerOccurrence occ s" "source_made occ" "oc_nodeId occ = gn_id (registered ?b ?n)"
      using t by (auto simp: income_occurrence_def Let_def res_simps dest!: safe_magnitude)
    then show ?thesis using s by (simp add: ok_registerOccurrence)
  qed
  show ?thesis
  proof (cases "is_scheduleUncertain stream")
    case True
    then show ?thesis using assms(1) base by (auto simp: ingestIncome_def Let_def intro: ok_mark_node)
  next
    case False
    then have "efold (income_occurrence env stream (registered ?b ?n)) ?b
        (filter (\<lambda>p. in_window input (pj_date p)) (is_projectedOccurrences stream)) = Inr b'"
      using assms(1) by (simp add: ingestIncome_def Let_def)
    then have "ingest_ok input b' \<and> node_ids b' = node_ids ?b"
      by (rule efold_invariant) (use base step in auto)
    then show ?thesis by blast
  qed
qed

lemma ingest_debt_ok:
  assumes "ingestManualDebt env input b debt = Inr b'" "ingest_ok input b"
  shows "ingest_ok input b'"
proof -
  let ?n = "debt_node env debt" let ?b = "registerNode ?n b"
  have base: "ingest_ok input ?b" by (rule ok_registerNode [OF assms(2)])
  have made: "source_made (debt_occurrence env debt n due pr it amount) \<and>
      oc_nodeId (debt_occurrence env debt n due pr it amount) = gn_id n"
    if "magnitude (md_paymentCents debt) l = Inr amount" for amount l n due pr it
    using safe_magnitude [OF that] by (auto simp: debt_occurrence_def Let_def source_made_def plain_occurrence_def)
  show ?thesis using assms(1) base
    by (auto simp: ingestManualDebt_def Let_def res_simps made split: if_splits option.splits intro!: ok_steps)
qed

lemma ingest_liability_ok:
  assumes "ingestCreditLiability env input b l = Inr b'" "ingest_ok input b"
    "\<forall>k \<in> set_option (text_or_none (li_cycleKey l)). hd k = CHR ''l''"
  shows "ingest_ok input b'"
proof -
  let ?n = "liability_node env l" let ?b = "registerNode ?n b"
  have base: "ingest_ok input ?b" by (rule ok_registerNode [OF assms(2)])
  have cycle: "pc_nodeId (liability_cycle l n d due f) = gn_id n \<and>
      hd (pc_cycleKey (liability_cycle l n d due f)) = CHR ''l'' \<and> pc_cycleKey (liability_cycle l n d due f) \<noteq> [] \<and>
      (js_safe_integer (li_obligationCents l) \<longrightarrow> safe_int (pc_obligationCents (liability_cycle l n d due f)))" for n d due f
    using assms(3) by (auto simp: liability_cycle_def text_or_def text_or_none_def safe_to_int split: option.splits if_splits)
  have pend: "ingest_ok input (?b\<lparr>gb_pendingCycles := gb_pendingCycles b @ [liability_cycle l (registered ?b ?n) d due f]\<rparr>)"
    if "js_safe_integer (li_obligationCents l)" for d due f
    using base cycle that by (auto simp: ingest_ok_def)
  show ?thesis using assms(1,2) base pend
    by (auto simp: ingestCreditLiability_def Let_def split: if_splits option.splits intro!: ok_mark_node)
qed

lemma ingest_transfer_ok:
  assumes "ingestTransfer env input b t = Inr b'" "ingest_ok input b"
  shows "ingest_ok input b'"
proof -
  let ?n = "transfer_node env t" let ?b = "registerNode ?n b"
  have base: "ingest_ok input ?b" by (rule ok_registerNode [OF assms(2)])
  have made: "source_made (transfer_occurrence env t n d amount) \<and> oc_nodeId (transfer_occurrence env t n d amount) = gn_id n"
    if "requireSafeCents (tf_amountCents t) l = Inr amount" for amount l n d
    using safe_required [OF that] by (auto simp: transfer_occurrence_def Let_def source_made_def plain_occurrence_def)
  show ?thesis using assms(1) base
    by (auto simp: ingestTransfer_def Let_def res_simps made split: if_splits option.splits intro!: ok_steps)
qed

lemma ingest_budget_ok:
  assumes "ingestBudgetReservation env input b bu = Inr b'" "ingest_ok input b"
  shows "ingest_ok input b'"
proof -
  let ?n = "budget_node env bu" let ?b = "registerNode ?n b"
  have base: "ingest_ok input ?b" by (rule ok_registerNode [OF assms(2)])
  have made: "source_made (budget_occurrence env input bu n) \<and> oc_nodeId (budget_occurrence env input bu n) = gn_id n"
    if "js_safe_integer (bu_remainingCents bu)" "0 < js_to_int (bu_remainingCents bu)" for n
    using safe_to_int [OF that(1)] that(2) by (auto simp: budget_occurrence_def Let_def safe_int_def)
  show ?thesis using assms base
    by (auto simp: ingestBudgetReservation_def Let_def made split: if_splits option.splits intro!: ok_steps)
qed

lemma ingest_reimbursement_ok:
  assumes "ingestReimbursement env input b r = Inr b'" "ingest_ok input b"
  shows "ingest_ok input b'"
  using assms ok_registerNode [OF assms(2), of "reimb_node env r"]
  by (auto simp: ingestReimbursement_def Let_def res_simps split: if_splits option.splits intro!: ok_steps dest: safe_magnitude)

lemma ingest_transaction_ok:
  assumes "ingestEconomicTransaction env input b t = Inr b'" "ingest_ok input b"
  shows "ingest_ok input b'"
  using assms ok_registerNode [OF assms(2), of "txn_node env t"]
  by (auto simp: ingestEconomicTransaction_def Let_def res_simps split: if_splits option.splits intro!: ok_steps dest: safe_required)

lemma ingest_all_ok:
  assumes "ingest_all env input b0 = Inr b" "ingest_ok input b0" "links_ok input"
  shows "ingest_ok input b"
proof -
  from assms(1) obtain b1 b2 b3 b4 b5 b6 b7 b8 where
    s: "efold (ingestRecurring env input) b0 (gi_recurringItems input) = Inr b1"
    "efold (ingestBillOccurrence env input) b1 (gi_billOccurrences input) = Inr b2"
    "efold (ingestIncome env input) b2 (gi_incomeStreams input) = Inr b3"
    "efold (ingestManualDebt env input) b3 (gi_manualDebts input) = Inr b4"
    "efold (ingestCreditLiability env input) b4 (gi_creditLiabilities input) = Inr b5"
    "efold (ingestTransfer env input) b5 (gi_transfers input) = Inr b6"
    "efold (ingestBudgetReservation env input) b6 (gi_budgetReservations input) = Inr b7"
    "efold (ingestReimbursement env input) b7 (gi_reimbursementExpectations input) = Inr b8"
    "efold (ingestEconomicTransaction env input) b8 (gi_economicTransactions input) = Inr b"
    by (auto simp: ingest_all_def res_simps)
  have 1: "ingest_ok input b1" by (rule efold_invariant [where P = "ingest_ok input", OF s(1) assms(2)]) (rule ingestRecurring_ok)
  have 2: "ingest_ok input b2"
    by (rule efold_invariant [where P = "ingest_ok input", OF s(2) 1]) (use assms(3) in \<open>auto simp: links_ok_def intro: ingest_bill_ok\<close>)
  have 3: "ingest_ok input b3" by (rule efold_invariant [where P = "ingest_ok input", OF s(3) 2]) (rule ingest_income_ok)
  have 4: "ingest_ok input b4" by (rule efold_invariant [where P = "ingest_ok input", OF s(4) 3]) (rule ingest_debt_ok)
  have 5: "ingest_ok input b5"
    by (rule efold_invariant [where P = "ingest_ok input", OF s(5) 4]) (use assms(3) in \<open>auto simp: links_ok_def intro: ingest_liability_ok\<close>)
  have 6: "ingest_ok input b6" by (rule efold_invariant [where P = "ingest_ok input", OF s(6) 5]) (rule ingest_transfer_ok)
  have 7: "ingest_ok input b7" by (rule efold_invariant [where P = "ingest_ok input", OF s(7) 6]) (rule ingest_budget_ok)
  have 8: "ingest_ok input b8" by (rule efold_invariant [where P = "ingest_ok input", OF s(8) 7]) (rule ingest_reimbursement_ok)
  show ?thesis by (rule efold_invariant [where P = "ingest_ok input", OF s(9) 8]) (rule ingest_transaction_ok)
qed

section \<open>One reservation per group\<close>

text \<open>
  Two occurrences that reserve for the same group are parts of a liability cycle, whose identity is
  made of the group and the date.
\<close>

definition apart :: "occurrence \<Rightarrow> occurrence \<Rightarrow> bool" where
  "apart a b \<longleftrightarrow> (oc_reserved a \<and> oc_reserved b \<and> oc_dedupeGroup a = oc_dedupeGroup b \<longrightarrow>
     oc_partition a \<noteq> None \<and> oc_partition b \<noteq> None)"

definition occurrence_ok :: "graph_env \<Rightarrow> string set \<Rightarrow> occurrence \<Rightarrow> bool" where
  "occurrence_ok env ids occ \<longleftrightarrow> oc_nodeId occ \<in> ids \<and> safe_int (oc_amountCents occ) \<and>
     (oc_role occ = Cash_outflow \<longrightarrow> oc_amountCents occ \<le> 0) \<and> (oc_role occ = Cash_inflow \<longrightarrow> 0 \<le> oc_amountCents occ) \<and>
     (oc_reserved occ \<longrightarrow> oc_role occ = Cash_outflow \<and> oc_dedupeGroup occ \<noteq> [] \<and>
        (hd (oc_dedupeGroup occ) = CHR ''l'' \<longleftrightarrow> oc_partition occ \<noteq> None)) \<and>
     (oc_partition occ \<noteq> None \<longrightarrow> oc_reserved occ \<and> oc_id occ = stableOccurrenceId env (oc_dedupeGroup occ) (oc_date occ) Cash_outflow)"

definition builder_ok :: "graph_env \<Rightarrow> builder \<Rightarrow> bool" where
  "builder_ok env b \<longleftrightarrow> length (gb_occurrences b) \<le> MAX_OCCURRENCES \<and>
     (\<forall>occ \<in> set (gb_occurrences b). occurrence_ok env (node_ids b) occ) \<and> sorted_wrt apart (gb_occurrences b) \<and>
     (\<forall>c \<in> set (gb_pendingCycles b). pc_nodeId c \<in> node_ids b \<and> safe_int (pc_obligationCents c) \<and>
        hd (pc_cycleKey c) = CHR ''l'' \<and> pc_cycleKey c \<noteq> [])"

lemma reserved_group_set:
  "(i, occ) \<in> set (reserved_group occs grp) \<longleftrightarrow>
     i < length occs \<and> occ = occs ! i \<and> oc_reserved (occs ! i) \<and> oc_dedupeGroup (occs ! i) = grp"
  by (auto simp: reserved_group_def in_set_enumerate_eq)

lemma keeper_member:
  assumes "i < length occs" "oc_reserved (occs ! i)"
  shows "keeper env occs (oc_dedupeGroup (occs ! i)) \<in> set (reserved_group occs (oc_dedupeGroup (occs ! i)))"
proof -
  let ?g = "reserved_group occs (oc_dedupeGroup (occs ! i))"
  have "(i, occs ! i) \<in> set ?g" using assms by (simp add: reserved_group_set)
  then have "sort_by (\<lambda>(_, a) (_, b). occurrence_le env a b) ?g \<noteq> []"
    by (metis length_0_conv length_sort_by list.set(1) empty_iff)
  then show ?thesis unfolding keeper_def by (metis hd_in_set set_sort_by)
qed

lemma dedupe_nth:
  assumes "i < length (gb_occurrences b)"
  shows "gb_occurrences (dedupeOverlappingSources env b) ! i =
    dedupe_occurrence env (gb_occurrences b) (i, gb_occurrences b ! i)"
  using assms by (simp add: dedupeOverlappingSources_def nth_enumerate_eq)

lemma dedupe_length [simp]:
  "length (gb_occurrences (dedupeOverlappingSources env b)) = length (gb_occurrences b)"
  by (simp add: dedupeOverlappingSources_def)

lemma dedupe_fields [simp]:
  "oc_dedupeGroup (dedupe_occurrence env occs (i, occ)) = oc_dedupeGroup occ"
  "oc_amountCents (dedupe_occurrence env occs (i, occ)) = oc_amountCents occ"
  "oc_id (dedupe_occurrence env occs (i, occ)) = oc_id occ"
  "oc_nodeId (dedupe_occurrence env occs (i, occ)) = oc_nodeId occ"
  "oc_date (dedupe_occurrence env occs (i, occ)) = oc_date occ"
  "oc_role (dedupe_occurrence env occs (i, occ)) = oc_role occ"
  "oc_partition (dedupe_occurrence env occs (i, occ)) = oc_partition occ"
  by (simp_all add: dedupe_occurrence_def)

lemma dedupe_reserved:
  "oc_reserved (dedupe_occurrence env occs (i, occ)) \<longleftrightarrow>
     oc_reserved occ \<and> (oc_dedupeGroup occ = [] \<or> i = fst (keeper env occs (oc_dedupeGroup occ)))"
  by (auto simp: dedupe_occurrence_def)

lemma dedupe_one_per_group:
  assumes "i < length (gb_occurrences b)" "j < length (gb_occurrences b)"
    and "oc_reserved (gb_occurrences (dedupeOverlappingSources env b) ! i)"
    and "oc_reserved (gb_occurrences (dedupeOverlappingSources env b) ! j)"
    and "oc_dedupeGroup (gb_occurrences b ! i) = oc_dedupeGroup (gb_occurrences b ! j)"
    and "oc_dedupeGroup (gb_occurrences b ! i) \<noteq> []"
  shows "i = j"
  using assms by (simp add: dedupe_nth dedupe_reserved)

lemma dedupe_keeps_one:
  assumes "i < length (gb_occurrences b)" "oc_reserved (gb_occurrences b ! i)"
  shows "\<exists>k < length (gb_occurrences b). oc_reserved (gb_occurrences b ! k) \<and>
    oc_dedupeGroup (gb_occurrences b ! k) = oc_dedupeGroup (gb_occurrences b ! i) \<and>
    oc_reserved (gb_occurrences (dedupeOverlappingSources env b) ! k)"
proof -
  let ?k = "fst (keeper env (gb_occurrences b) (oc_dedupeGroup (gb_occurrences b ! i)))"
  have "?k < length (gb_occurrences b) \<and> oc_reserved (gb_occurrences b ! ?k) \<and>
      oc_dedupeGroup (gb_occurrences b ! ?k) = oc_dedupeGroup (gb_occurrences b ! i)"
    using keeper_member [OF assms, of env] reserved_group_set by (metis prod.collapse)
  then show ?thesis by (auto simp: dedupe_nth dedupe_reserved intro!: exI [of _ ?k])
qed

lemma dedupe_ok:
  assumes "ingest_ok input b"
  shows "builder_ok env (dedupeOverlappingSources env b)"
proof -
  have ids: "node_ids (dedupeOverlappingSources env b) = node_ids b" by (simp add: dedupeOverlappingSources_def)
  have made: "source_made (gb_occurrences b ! i) \<and> oc_nodeId (gb_occurrences b ! i) \<in> node_ids b"
    if "i < length (gb_occurrences b)" for i
    using assms that by (simp add: ingest_ok_def)
  have occ: "occurrence_ok env (node_ids b) occ" if "occ \<in> set (gb_occurrences (dedupeOverlappingSources env b))" for occ
  proof -
    from that obtain i where "i < length (gb_occurrences b)"
      "occ = dedupe_occurrence env (gb_occurrences b) (i, gb_occurrences b ! i)"
      by (metis in_set_conv_nth dedupe_length dedupe_nth)
    then show ?thesis using made by (auto simp: occurrence_ok_def source_made_def dedupe_reserved)
  qed
  have "sorted_wrt apart (gb_occurrences (dedupeOverlappingSources env b))"
  proof (simp only: sorted_wrt_iff_nth_less, intro allI impI)
    fix i j assume ij: "i < j" "j < length (gb_occurrences (dedupeOverlappingSources env b))"
    show "apart (gb_occurrences (dedupeOverlappingSources env b) ! i) (gb_occurrences (dedupeOverlappingSources env b) ! j)"
      unfolding apart_def
    proof (intro impI, elim conjE, rule ccontr)
      assume r: "oc_reserved (gb_occurrences (dedupeOverlappingSources env b) ! i)"
        "oc_reserved (gb_occurrences (dedupeOverlappingSources env b) ! j)"
        "oc_dedupeGroup (gb_occurrences (dedupeOverlappingSources env b) ! i) =
         oc_dedupeGroup (gb_occurrences (dedupeOverlappingSources env b) ! j)"
      have lt: "i < length (gb_occurrences b)" "j < length (gb_occurrences b)" using ij by simp_all
      have g: "oc_dedupeGroup (gb_occurrences b ! i) = oc_dedupeGroup (gb_occurrences b ! j)"
        using r(3) lt by (simp add: dedupe_nth)
      have "oc_dedupeGroup (gb_occurrences b ! i) \<noteq> []"
        using made [OF lt(1)] r(1) lt(1) by (simp add: dedupe_nth dedupe_reserved source_made_def)
      from dedupe_one_per_group [OF lt r(1,2) g this] ij(1) show False by simp
    qed
  qed
  with assms occ ids show ?thesis by (simp add: builder_ok_def ingest_ok_def) (simp add: dedupeOverlappingSources_def)
qed

section \<open>The parts of a liability\<close>

lemma partition_returned:
  assumes "computePartition w bill future = Inr p"
  shows "0 \<le> pt_futureComponentCents p \<and> 0 \<le> pt_billRemainderComponentCents p \<and> 0 \<le> pt_residualComponentCents p \<and>
    pt_futureComponentCents p + pt_billRemainderComponentCents p + pt_residualComponentCents p = \<bar>w\<bar> \<and> safe_int w"
proof -
  let ?f = "min (absCents future) (absCents w)"
  let ?r = "min (max (absCents bill - ?f) 0) (absCents w - ?f)"
  let ?s = "max (absCents w - ?f - ?r) 0"
  have nn: "0 \<le> absCents x" for x by (simp add: absCents_def)
  have a: "0 \<le> ?f \<and> 0 \<le> ?r \<and> 0 \<le> ?s \<and> ?f + ?r + ?s = absCents w"
    using partition_arith [OF nn nn nn, of future w bill] by blast
  have "\<exists>c. sumCents [?f, ?r, ?s] = Inr c \<and> Inr \<lparr>pt_futureComponentCents = ?f, pt_billRemainderComponentCents = ?r,
      pt_residualComponentCents = ?s, pt_totalReservedCents = c\<rparr> = (Inr p :: partition res)"
    using assms unfolding computePartition_def Let_def ebind_eq_Inr .
  then obtain c where c: "sumCents [?f, ?r, ?s] = Inr c" and p: "p = \<lparr>pt_futureComponentCents = ?f,
      pt_billRemainderComponentCents = ?r, pt_residualComponentCents = ?s, pt_totalReservedCents = c\<rparr>"
    by (elim exE conjE) (simp only: sum.inject)
  have "c = absCents w"
    using sumCents_Inr [OF c] a by (simp only: sum_list.Cons sum_list.Nil add_0_right add.assoc)
  then have "safe_int w" using sumCents_safe [OF c] by (simp add: safe_int_def absCents_def)
  then show ?thesis using a by (simp only: p partition.select_convs absCents_def simp_thms)
qed

lemma validated_partition:
  assumes "validateCycleEvidence e = Inr (issues, p)"
  shows "\<exists>b f. computePartition (absCents (ce_adjustedObligationCents e)) b f = Inr p"
  using assms by (auto simp: validateCycleEvidence_def Let_def res_simps)

lemma assess_cycle_facts:
  assumes "assess_cycle env input b bills c = Inr v"
  shows "cy_cycleKey (cv_record v) = pc_cycleKey c"
    and "0 \<le> pt_futureComponentCents (cv_partition v)" "0 \<le> pt_billRemainderComponentCents (cv_partition v)"
    and "0 \<le> pt_residualComponentCents (cv_partition v)"
    and "pt_futureComponentCents (cv_partition v) + pt_billRemainderComponentCents (cv_partition v) +
      pt_residualComponentCents (cv_partition v) = \<bar>cy_adjustedObligationCents (cv_record v)\<bar>"
    and "safe_int (cy_adjustedObligationCents (cv_record v))"
    and "\<not> cy_quarantined (cv_record v) \<Longrightarrow> cy_reserved (cv_record v) = Some (cv_partition v)"
proof -
  obtain e more where e: "validateCycleEvidence e = Inr (more, cv_partition v)"
    "ce_adjustedObligationCents e = cy_adjustedObligationCents (cv_record v)"
    and k: "cy_cycleKey (cv_record v) = pc_cycleKey c"
    "\<not> cy_quarantined (cv_record v) \<longrightarrow> cy_reserved (cv_record v) = Some (cv_partition v)"
  proof -
    obtain linked f billCents adjusted more p where
      "validateCycleEvidence (evidence_of env bills linked c f billCents adjusted) = Inr (more, p)"
      "v = cycle_result c f billCents adjusted (cycle_issues bills linked c f @ more) p"
      using assms unfolding assess_cycle_def Let_def ebind_eq_Inr by auto
    then show ?thesis by (intro that) (auto simp: cycle_result_def evidence_of_def Let_def)
  qed
  from validated_partition [OF e(1)] partition_returned
  have "0 \<le> pt_futureComponentCents (cv_partition v) \<and> 0 \<le> pt_billRemainderComponentCents (cv_partition v) \<and>
      0 \<le> pt_residualComponentCents (cv_partition v) \<and>
      pt_futureComponentCents (cv_partition v) + pt_billRemainderComponentCents (cv_partition v) +
      pt_residualComponentCents (cv_partition v) = \<bar>absCents (cy_adjustedObligationCents (cv_record v))\<bar> \<and>
      safe_int (absCents (cy_adjustedObligationCents (cv_record v)))"
    unfolding e(2) by blast
  then show "0 \<le> pt_futureComponentCents (cv_partition v)" "0 \<le> pt_billRemainderComponentCents (cv_partition v)"
    "0 \<le> pt_residualComponentCents (cv_partition v)"
    "pt_futureComponentCents (cv_partition v) + pt_billRemainderComponentCents (cv_partition v) +
      pt_residualComponentCents (cv_partition v) = \<bar>cy_adjustedObligationCents (cv_record v)\<bar>"
    "safe_int (cy_adjustedObligationCents (cv_record v))"
    by (auto simp: absCents_def safe_int_def)
  show "cy_cycleKey (cv_record v) = pc_cycleKey c" by (rule k(1))
  show "\<not> cy_quarantined (cv_record v) \<Longrightarrow> cy_reserved (cv_record v) = Some (cv_partition v)" using k(2) by blast
qed

section \<open>Reconciling the liabilities\<close>

text \<open>What is reserved in parts for a cycle, and what the records of its cycle say must be.\<close>

definition part_cents :: "string \<Rightarrow> occurrence list \<Rightarrow> int" where
  "part_cents k occs =
     (\<Sum>occ\<leftarrow>filter (\<lambda>occ. oc_partition occ \<noteq> None \<and> oc_cycleKey occ = Some k) occs. - oc_amountCents occ)"

definition owed_cents :: "string \<Rightarrow> cycle_record list \<Rightarrow> int" where
  "owed_cents k rs =
     (\<Sum>r\<leftarrow>filter (\<lambda>r. cy_cycleKey r = k \<and> \<not> cy_quarantined r \<and> 0 < cy_adjustedObligationCents r) rs.
        cy_adjustedObligationCents r)"

definition record_ok :: "cycle_record \<Rightarrow> bool" where
  "record_ok r \<longleftrightarrow> safe_int (cy_adjustedObligationCents r) \<and> (\<not> cy_quarantined r \<longrightarrow>
     (\<exists>p. cy_reserved r = Some p \<and> 0 \<le> pt_futureComponentCents p \<and> 0 \<le> pt_billRemainderComponentCents p \<and>
        0 \<le> pt_residualComponentCents p \<and>
        pt_futureComponentCents p + pt_billRemainderComponentCents p + pt_residualComponentCents p =
        \<bar>cy_adjustedObligationCents r\<bar>))"

definition settled :: "graph_env \<Rightarrow> builder \<Rightarrow> bool" where
  "settled env b \<longleftrightarrow> builder_ok env b \<and> (\<forall>r \<in> set (gb_cyclePartitions b). record_ok r) \<and>
     (\<not> gb_capExceeded b \<longrightarrow> (\<forall>k. part_cents k (gb_occurrences b) = owed_cents k (gb_cyclePartitions b)))"

definition pending_ok :: "string set \<Rightarrow> pending_cycle \<Rightarrow> bool" where
  "pending_ok ids c \<longleftrightarrow> pc_nodeId c \<in> ids \<and> hd (pc_cycleKey c) = CHR ''l'' \<and> pc_cycleKey c \<noteq> []"

lemma part_fields [simp]:
  "oc_amountCents (part_occurrence env c k d a ns) = - a" "oc_partition (part_occurrence env c k d a ns) = Some k"
  "oc_cycleKey (part_occurrence env c k d a ns) = Some (pc_cycleKey c)" "oc_role (part_occurrence env c k d a ns) = Cash_outflow"
  "oc_reserved (part_occurrence env c k d a ns)" "oc_nodeId (part_occurrence env c k d a ns) = pc_nodeId c"
  "oc_dedupeGroup (part_occurrence env c k d a ns) = pc_cycleKey c @ '':'' @ partition_text k"
  "oc_date (part_occurrence env c k d a ns) = d"
  "oc_id (part_occurrence env c k d a ns) = stableOccurrenceId env (pc_cycleKey c @ '':'' @ partition_text k) d Cash_outflow"
  by (simp_all add: part_occurrence_def Let_def)

lemma register_part_ok:
  assumes "builder_ok env b" "pending_ok (node_ids b) c" "0 < a \<longrightarrow> safe_int a"
  shows "builder_ok env (register_part (0 < a) (part_occurrence env c k d a ns) b)"
proof (cases "0 < a \<and> length (gb_occurrences b) < MAX_OCCURRENCES")
  case True
  let ?o = "part_occurrence env c k d a ns"
  have occ: "occurrence_ok env (node_ids b) ?o"
    using assms True by (auto simp: occurrence_ok_def pending_ok_def safe_int_def)
  have "apart x ?o" if "x \<in> set (gb_occurrences b)" for x
    using assms(1,2) that by (auto simp: builder_ok_def occurrence_ok_def apart_def pending_ok_def)
  then have "sorted_wrt apart (gb_occurrences b @ [?o])"
    using assms(1) by (simp add: sorted_wrt_append builder_ok_def)
  moreover have "register_part (0 < a) ?o b = b\<lparr>gb_occurrences := gb_occurrences b @ [?o]\<rparr>"
    using True by (simp add: register_part_def registerOccurrence_def)
  ultimately show ?thesis using assms(1) occ True by (simp add: builder_ok_def)
next
  case False
  then show ?thesis using assms(1)
    by (auto simp: register_part_def registerOccurrence_def builder_ok_def node_ids_def)
qed

lemma register_part_simps [simp]:
  "gb_cyclePartitions (register_part t occ b) = gb_cyclePartitions b" "node_ids (register_part t occ b) = node_ids b"
  "gb_pendingCycles (register_part t occ b) = gb_pendingCycles b"
  by (simp_all add: register_part_def)

lemma register_part_cents:
  assumes "\<not> gb_capExceeded (register_part (0 < a) (part_occurrence env c k d a ns) b)" "0 \<le> a"
  shows "\<not> gb_capExceeded b \<and>
    part_cents j (gb_occurrences (register_part (0 < a) (part_occurrence env c k d a ns) b)) =
      part_cents j (gb_occurrences b) + (if j = pc_cycleKey c then a else 0)"
  using assms by (auto simp: register_part_def registerOccurrence_def part_cents_def split: if_splits)

lemma reserve_parts_ok:
  assumes "builder_ok env b" "pending_ok (node_ids b) c"
    and v: "0 \<le> pt_futureComponentCents (cv_partition v)" "0 \<le> pt_billRemainderComponentCents (cv_partition v)"
      "0 \<le> pt_residualComponentCents (cv_partition v)"
      "safe_int (pt_futureComponentCents (cv_partition v) + pt_billRemainderComponentCents (cv_partition v) +
        pt_residualComponentCents (cv_partition v))"
  shows "builder_ok env (reserve_parts env c v b)" "gb_cyclePartitions (reserve_parts env c v b) = gb_cyclePartitions b"
    and "node_ids (reserve_parts env c v b) = node_ids b" "gb_pendingCycles (reserve_parts env c v b) = gb_pendingCycles b"
    and "\<not> gb_capExceeded (reserve_parts env c v b) \<Longrightarrow> \<not> gb_capExceeded b \<and>
      part_cents j (gb_occurrences (reserve_parts env c v b)) = part_cents j (gb_occurrences b) +
        (if j = pc_cycleKey c then pt_futureComponentCents (cv_partition v) +
           pt_billRemainderComponentCents (cv_partition v) + pt_residualComponentCents (cv_partition v) else 0)"
proof -
  have safe: "safe_int (pt_futureComponentCents (cv_partition v))" "safe_int (pt_billRemainderComponentCents (cv_partition v))"
    "safe_int (pt_residualComponentCents (cv_partition v))"
    using v unfolding safe_int_def by linarith+
  show "builder_ok env (reserve_parts env c v b)"
    unfolding reserve_parts_def Let_def by (intro register_part_ok) (simp_all add: assms(1,2) safe)
  show "gb_cyclePartitions (reserve_parts env c v b) = gb_cyclePartitions b"
    "node_ids (reserve_parts env c v b) = node_ids b" "gb_pendingCycles (reserve_parts env c v b) = gb_pendingCycles b"
    by (simp_all add: reserve_parts_def Let_def)
  assume cap: "\<not> gb_capExceeded (reserve_parts env c v b)"
  note c3 = register_part_cents [OF cap [unfolded reserve_parts_def Let_def] v(3)]
  note c2 = register_part_cents [OF conjunct1 [OF c3] v(2)]
  note c1 = register_part_cents [OF conjunct1 [OF c2] v(1)]
  show "\<not> gb_capExceeded b \<and> part_cents j (gb_occurrences (reserve_parts env c v b)) = part_cents j (gb_occurrences b) +
        (if j = pc_cycleKey c then pt_futureComponentCents (cv_partition v) +
           pt_billRemainderComponentCents (cv_partition v) + pt_residualComponentCents (cv_partition v) else 0)"
    using c1 c2 c3 unfolding reserve_parts_def Let_def by simp
qed

lemma owed_append: "owed_cents k (rs @ [r]) = owed_cents k rs +
    (if cy_cycleKey r = k \<and> \<not> cy_quarantined r \<and> 0 < cy_adjustedObligationCents r then cy_adjustedObligationCents r else 0)"
  by (simp add: owed_cents_def)

lemma reconcile_cycle_settled:
  assumes "reconcile_cycle env input b c = Inr b'" "settled env b" "pending_ok (node_ids b) c"
  shows "settled env b' \<and> node_ids b' = node_ids b"
proof -
  obtain v where v: "assess_cycle env input b (matching_bills b c) c = Inr v"
    using assms(1) by (auto simp: reconcile_cycle_def res_simps)
  note f = assess_cycle_facts [OF v]
  let ?r = "cv_record v" and ?p = "cv_partition v"
  let ?b = "b\<lparr>gb_cyclePartitions := gb_cyclePartitions b @ [?r]\<rparr>"
  have rec: "record_ok ?r" using f by (auto simp: record_ok_def)
  have ok: "builder_ok env ?b" using assms(2) by (simp add: settled_def builder_ok_def)
  consider "cy_quarantined ?r" | "\<not> cy_quarantined ?r" "cy_adjustedObligationCents ?r \<le> 0"
    | "\<not> cy_quarantined ?r" "0 < cy_adjustedObligationCents ?r" by linarith
  then show ?thesis
  proof cases
    case 1
    then have "\<exists>d rs. b' = mark_node d rs (mark_graph rs ?b) \<or> b' = mark_graph rs ?b"
      using assms(1) v by (auto simp: reconcile_cycle_def Let_def split: option.splits)
    then show ?thesis using assms(2) rec 1 by (auto simp: settled_def owed_append builder_ok_def)
  next
    case 2
    then have "b' = ?b" using assms(1) v by (simp add: reconcile_cycle_def)
    then show ?thesis using assms(2) rec ok 2 by (auto simp: settled_def owed_append)
  next
    case 3
    then have b': "b' = reserve_parts env c v ?b" using assms(1) v by (simp add: reconcile_cycle_def)
    have "safe_int (pt_futureComponentCents ?p + pt_billRemainderComponentCents ?p + pt_residualComponentCents ?p)"
      using f(5,6) by (simp add: safe_int_def)
    note r = reserve_parts_ok [OF ok _ f(2-4) this, of c, simplified]
    show ?thesis using r assms(2,3) rec f(1,5) 3 by (auto simp: settled_def b' owed_append)
  qed
qed

end
