(* ===== verification/ObligationSettlement.thy ===== *)
theory ObligationSettlement
  imports ObligationReservations
begin

text \<open>
  From the builder to the graph: the invariants of \<open>ObligationReservations\<close> through the settlement of
  the liabilities and into the sorted graph, and the properties of the graph that follow.
\<close>

section \<open>Reasons\<close>

lemma mergeReasons_set: "set (mergeReasons ps) = \<Union> (set ` set ps) \<inter> set OBLIGATION_REASON_ORDER"
  by (auto simp: mergeReasons_def)

lemma mark_graph_reasons [simp]:
  "set (gb_incompleteReasons (mark_graph rs b)) =
     (set (gb_incompleteReasons b) \<union> set rs) \<inter> set OBLIGATION_REASON_ORDER"
  by (simp add: mark_graph_def mergeReasons_set)

lemma mark_node_reasons [simp]: "gb_incompleteReasons (mark_node d rs b) = gb_incompleteReasons b"
  by (simp add: mark_node_def update_node_def)

lemma registerOccurrence_reasons [simp]: "gb_incompleteReasons (registerOccurrence occ b) = gb_incompleteReasons b"
  by (simp add: registerOccurrence_def)

lemma register_part_reasons [simp]: "gb_incompleteReasons (register_part t occ b) = gb_incompleteReasons b"
  by (simp add: register_part_def)

lemma reserve_parts_reasons [simp]: "gb_incompleteReasons (reserve_parts env c v b) = gb_incompleteReasons b"
  by (simp add: reserve_parts_def Let_def)

abbreviation mismatch :: string where
  "mismatch \<equiv> ''obligation_liability_funding_mismatch''"

abbreviation capped :: string where
  "capped \<equiv> ''obligation_occurrence_cap_exceeded''"

lemma reasons_ordered [simp]: "mismatch \<in> set OBLIGATION_REASON_ORDER" "capped \<in> set OBLIGATION_REASON_ORDER"
  by (simp_all add: OBLIGATION_REASON_ORDER_def)

section \<open>Settling\<close>

text \<open>A quarantined cycle leaves its reason on the graph.\<close>

definition quarantine_told :: "builder \<Rightarrow> bool" where
  "quarantine_told b \<longleftrightarrow>
     ((\<exists>r \<in> set (gb_cyclePartitions b). cy_quarantined r) \<longrightarrow> mismatch \<in> set (gb_incompleteReasons b))"

lemma reconcile_cycle_told:
  assumes "reconcile_cycle env input b c = Inr b'" "quarantine_told b"
  shows "quarantine_told b'"
proof -
  obtain v where v: "assess_cycle env input b (matching_bills b c) c = Inr v"
    using assms(1) by (auto simp: reconcile_cycle_def res_simps)
  let ?b = "b\<lparr>gb_cyclePartitions := gb_cyclePartitions b @ [cv_record v]\<rparr>"
  show ?thesis
  proof (cases "cy_quarantined (cv_record v)")
    case True
    then have "\<exists>d. b' = mark_node d [mismatch] (mark_graph [mismatch] ?b) \<or> b' = mark_graph [mismatch] ?b"
      using assms(1) v by (auto simp: reconcile_cycle_def Let_def split: option.splits)
    then show ?thesis by (auto simp: quarantine_told_def)
  next
    case False
    then have "b' = ?b \<or> b' = reserve_parts env c v ?b"
      using assms(1) v by (auto simp: reconcile_cycle_def Let_def split: if_splits)
    then show ?thesis using assms(2) False by (auto simp: quarantine_told_def reserve_parts_def Let_def)
  qed
qed

lemma bill_overlap_simps [simp]:
  "gb_occurrences (reconcileBillBudgetOverlap input b) = gb_occurrences b"
  "gb_pendingCycles (reconcileBillBudgetOverlap input b) = gb_pendingCycles b"
  "gb_cyclePartitions (reconcileBillBudgetOverlap input b) = gb_cyclePartitions b"
  "node_ids (reconcileBillBudgetOverlap input b) = node_ids b"
  by (simp_all add: reconcileBillBudgetOverlap_def)

lemma dedupe_builder_simps [simp]:
  "gb_pendingCycles (dedupeOverlappingSources env b) = gb_pendingCycles b"
  "gb_cyclePartitions (dedupeOverlappingSources env b) = gb_cyclePartitions b"
  "node_ids (dedupeOverlappingSources env b) = node_ids b"
  by (simp_all add: dedupeOverlappingSources_def)

lemma no_parts_yet:
  assumes "ingest_ok input b"
  shows "part_cents k (gb_occurrences (dedupeOverlappingSources env b)) = 0"
proof -
  have "oc_partition occ = None" if o: "occ \<in> set (gb_occurrences (dedupeOverlappingSources env b))" for occ
  proof -
    obtain i where i: "i < length (gb_occurrences b)"
      "occ = gb_occurrences (dedupeOverlappingSources env b) ! i"
      using o by (metis in_set_conv_nth dedupe_length)
    then have "source_made (gb_occurrences b ! i)" using assms by (simp add: ingest_ok_def)
    then show ?thesis using i by (simp add: dedupe_nth source_made_def)
  qed
  then show ?thesis by (auto simp: part_cents_def filter_empty_conv)
qed

lemma settled_start:
  assumes "ingest_ok input b"
  shows "settled env (reconcileBillBudgetOverlap input' (dedupeOverlappingSources env b))"
  using dedupe_ok [OF assms, of env] assms no_parts_yet [OF assms, of _ env]
  by (auto simp: settled_def builder_ok_def ingest_ok_def owed_cents_def)

lemma ledger_settled:
  assumes "reconcileLiabilityFundingLedger env input b = Inr b'" "settled env b" "quarantine_told b"
  shows "settled env b' \<and> quarantine_told b' \<and> node_ids b' = node_ids b"
proof -
  obtain b1 and issues :: "string list" where b1: "efold (reconcile_cycle env input) b (gb_pendingCycles b) = Inr b1"
    and b': "(if issues = [] then b1 else mark_graph [mismatch] b1) = b'"
    using assms(1) unfolding reconcileLiabilityFundingLedger_def ebind_eq_Inr sum.inject by blast
  let ?P = "\<lambda>s. settled env s \<and> quarantine_told s \<and> node_ids s = node_ids b"
  have "?P b1"
  proof (rule efold_invariant [where P = ?P, OF b1])
    show "?P b" using assms by simp
    fix s c t assume c: "c \<in> set (gb_pendingCycles b)" and t: "reconcile_cycle env input s c = Inr t" and s: "?P s"
    have "pending_ok (node_ids s) c"
      using c assms(2) s by (simp add: settled_def builder_ok_def pending_ok_def)
    with t s show "?P t" by (metis reconcile_cycle_settled reconcile_cycle_told)
  qed
  then show ?thesis by (auto simp: b' [symmetric] settled_def builder_ok_def quarantine_told_def)
qed

lemma settle_builder_ok:
  assumes "settle_builder env input b = Inr b'" "ingest_ok input b"
  shows "settled env b'" "quarantine_told b'" "gb_capExceeded b' \<longrightarrow> capped \<in> set (gb_incompleteReasons b')"
proof -
  let ?b0 = "reconcileBillBudgetOverlap input (dedupeOverlappingSources env b)"
  obtain b1 where b1: "reconcileLiabilityFundingLedger env input ?b0 = Inr b1"
    and b': "b' = (let b2 = (if gb_duplicates b1 \<noteq> [] then mark_graph [''obligation_duplicate_identity''] b1 else b1)
      in if gb_capExceeded b2 then mark_graph [capped] b2 else b2)"
    using assms(1) unfolding settle_builder_def ebind_eq_Inr Let_def by blast
  have "quarantine_told ?b0" using assms(2) by (simp add: quarantine_told_def ingest_ok_def)
  from ledger_settled [OF b1 settled_start [OF assms(2)] this]
  have "settled env b1" "quarantine_told b1" by blast+
  then show "settled env b'" "quarantine_told b'"
    unfolding b' by (auto simp: settled_def builder_ok_def quarantine_told_def Let_def)
  show "gb_capExceeded b' \<longrightarrow> capped \<in> set (gb_incompleteReasons b')" by (simp add: b' Let_def)
qed


section \<open>The graph\<close>

text \<open>A symmetric relation between any two elements does not depend on their order.\<close>

lemma sorted_wrt_sym_mset:
  assumes "\<And>x y. R x y \<Longrightarrow> R y x"
  shows "sorted_wrt R xs \<longleftrightarrow> (\<forall>x \<in># mset xs. \<forall>y \<in># mset xs - {#x#}. R x y)"
proof (induction xs)
  case (Cons a xs)
  have "(\<forall>y \<in># mset (a # xs) - {#x#}. R x y) \<longleftrightarrow> R x a \<and> (\<forall>y \<in># mset xs - {#x#}. R x y)"
    if "x \<in> set xs" "x \<noteq> a" for x using that by (simp add: diff_add_mset_swap)
  moreover have "(\<forall>y \<in># mset (a # xs) - {#a#}. R a y) \<longleftrightarrow> (\<forall>y \<in> set xs. R a y)" by simp
  moreover have "(\<forall>y \<in> set xs. R a y) \<Longrightarrow> (\<forall>y \<in># mset xs - {#a#}. R a y)" by (auto dest: in_diffD)
  ultimately show ?case using Cons assms by (metis insert_iff list.simps(15) set_mset_mset sorted_wrt.simps(2))
qed simp

lemma sorted_wrt_sort_key:
  assumes "\<And>x y. R x y \<Longrightarrow> R y x"
  shows "sorted_wrt R (sort_key f xs) \<longleftrightarrow> sorted_wrt R xs"
proof -
  have "sorted_wrt R zs \<longleftrightarrow> (\<forall>x \<in># mset zs. \<forall>y \<in># mset zs - {#x#}. R x y)" for zs
    by (rule sorted_wrt_sym_mset) (rule assms)
  then show ?thesis by (simp only: mset_sort)
qed

lemma links_ok_normalized: "links_ok raw \<Longrightarrow> links_ok (normalizeBuildInput raw)"
  by (simp add: links_ok_def normalizeBuildInput_def sortByKeys_def)

lemma empty_builder_ok: "ingest_ok input (empty_builder input')"
  by (simp add: ingest_ok_def empty_builder_def Let_def)

lemma graph_of_simps [simp]:
  "set (gr_occurrences (graph_of env input b)) = set (gb_occurrences b)"
  "length (gr_occurrences (graph_of env input b)) = length (gb_occurrences b)"
  "mset (gr_occurrences (graph_of env input b)) = mset (gb_occurrences b)"
  "gn_id ` set (gr_nodes (graph_of env input b)) = node_ids b"
  "gr_cyclePartitions (graph_of env input b) = gb_cyclePartitions b"
  by (simp_all add: graph_of_def Let_def sortByKeys_def node_ids_def)

lemma graph_reasons_kept:
  assumes "r \<in> set (gb_incompleteReasons b)" "r \<in> set OBLIGATION_REASON_ORDER"
  shows "\<not> gc_complete (graphCompleteness (graph_of env input b))"
proof -
  have "r \<in> set (gr_incompleteReasons (graph_of env input b))"
    using assms by (simp add: graph_of_def Let_def mergeReasons_set)
  then have "r \<in> set (gc_incompleteReasons (graphCompleteness (graph_of env input b)))"
    using assms(2) by (simp add: graphCompleteness_def Let_def mergeReasons_set)
  then show ?thesis by (auto simp: graphCompleteness_def Let_def)
qed

definition graph_sound :: "graph_env \<Rightarrow> graph \<Rightarrow> bool" where
  "graph_sound env g \<longleftrightarrow> length (gr_occurrences g) \<le> MAX_OCCURRENCES \<and>
     (\<forall>occ \<in> set (gr_occurrences g). occurrence_ok env (gn_id ` set (gr_nodes g)) occ) \<and>
     sorted_wrt apart (gr_occurrences g) \<and> (\<forall>r \<in> set (gr_cyclePartitions g). record_ok r)"

lemma built_graph:
  assumes "buildObligationGraph env raw = Inr g" "links_ok raw"
  obtains b where "g = graph_of env (normalizeBuildInput raw) b" "settled env b" "quarantine_told b"
    "gb_capExceeded b \<longrightarrow> capped \<in> set (gb_incompleteReasons b)"
proof -
  let ?i = "normalizeBuildInput raw"
  obtain b b' where s: "ingest_all env ?i (empty_builder ?i) = Inr b" "settle_builder env ?i b = Inr b'"
    "graph_of env ?i b' = g"
    using assms(1) unfolding buildObligationGraph_def Let_def ebind_eq_Inr sum.inject by blast
  have "ingest_ok ?i b" by (rule ingest_all_ok [OF s(1) empty_builder_ok links_ok_normalized [OF assms(2)]])
  from settle_builder_ok [OF s(2) this] s(3) that show thesis by blast
qed

lemma built_sound:
  assumes "buildObligationGraph env raw = Inr g" "links_ok raw"
  shows "graph_sound env g"
proof -
  obtain b where b: "g = graph_of env (normalizeBuildInput raw) b" "settled env b"
    by (rule built_graph [OF assms])
  have sym: "apart x y \<Longrightarrow> apart y x" for x y by (auto simp: apart_def)
  have "sorted_wrt apart (gr_occurrences g) = sorted_wrt apart (gb_occurrences b)"
    unfolding b(1) graph_of_def Let_def sortByKeys_def by (simp add: sorted_wrt_sort_key [of apart, OF sym])
  then show ?thesis using b(2) by (simp add: graph_sound_def b(1) settled_def builder_ok_def)
qed

lemma apart_once:
  assumes "sorted_wrt apart occs"
  shows "length (filter (\<lambda>occ. oc_reserved occ \<and> oc_partition occ = None \<and> oc_dedupeGroup occ = grp) occs) \<le> 1"
proof (rule ccontr)
  let ?f = "filter (\<lambda>occ. oc_reserved occ \<and> oc_partition occ = None \<and> oc_dedupeGroup occ = grp) occs"
  assume "\<not> length ?f \<le> 1"
  then obtain a b rest where f: "?f = a # b # rest" by (cases ?f rule: list.exhaust [case_names Nil Cons]; cases "tl ?f") auto
  have "sorted_wrt apart ?f" using assms by (rule sorted_wrt_filter)
  then have "apart a b" by (simp add: f)
  moreover have "a \<in> set ?f" "b \<in> set ?f" by (simp_all only: f list.set insert_iff simp_thms)
  then have "oc_reserved a \<and> oc_partition a = None \<and> oc_dedupeGroup a = grp"
    "oc_reserved b \<and> oc_partition b = None \<and> oc_dedupeGroup b = grp" by simp_all
  ultimately show False by (simp add: apart_def)
qed

section \<open>The checks of the program\<close>

lemma reservation_issues_none:
  assumes "sorted_wrt (\<lambda>a b. oc_reserved a \<and> oc_reserved b \<and>
      oc_dedupeGroup a @ ''|'' @ oc_date a = oc_dedupeGroup b @ ''|'' @ oc_date b \<longrightarrow> oc_id a = oc_id b) occs"
    and "\<And>k i occ. map_of groups k = Some i \<Longrightarrow> occ \<in> set occs \<Longrightarrow> oc_reserved occ \<Longrightarrow>
      oc_dedupeGroup occ @ ''|'' @ oc_date occ = k \<Longrightarrow> oc_id occ = i"
  shows "reservation_issues groups occs = []"
  using assms
proof (induction occs arbitrary: groups)
  case (Cons occ occs)
  let ?k = "oc_dedupeGroup occ @ ''|'' @ oc_date occ"
  have later: "reservation_issues groups occs = []" by (rule Cons.IH) (use Cons.prems in auto)
  have "reservation_issues (AList.update ?k (oc_id occ) groups) occs = []" if "oc_reserved occ"
    by (rule Cons.IH) (use Cons.prems that in \<open>auto simp: update_conv' split: if_splits\<close>)
  then show ?case using Cons.prems(2) [of ?k _ occ] later by (auto simp: Let_def issue_if_def)
qed simp

lemma parts_of_date:
  assumes "apart a b" "occurrence_ok env ids a" "occurrence_ok env ids b" "length (oc_date a) = length (oc_date b)"
    and "oc_reserved a" "oc_reserved b" "oc_dedupeGroup a @ ''|'' @ oc_date a = oc_dedupeGroup b @ ''|'' @ oc_date b"
  shows "oc_id a = oc_id b"
proof -
  have "oc_dedupeGroup a = oc_dedupeGroup b" "oc_date a = oc_date b"
    using assms(4,7) by (simp_all add: append_eq_append_conv)
  then show ?thesis using assms by (simp add: apart_def occurrence_ok_def)
qed

lemma records_verified:
  assumes "\<forall>r \<in> set rs. record_ok r"
  shows "verifyCyclePartitionInvariants (map cycle.truncate rs) = Inr []"
  using assms
proof (induction rs)
  case (Cons r rs)
  let ?c = "cy_adjustedObligationCents r"
  have "sumCents (reserved_parts (cy_reserved r)) = Inr ?c" if unq: "\<not> cy_quarantined r" and pos: "0 < ?c"
  proof -
    obtain p where p: "cy_reserved r = Some p" "0 \<le> pt_futureComponentCents p" "0 \<le> pt_billRemainderComponentCents p"
      "0 \<le> pt_residualComponentCents p"
      "pt_futureComponentCents p + pt_billRemainderComponentCents p + pt_residualComponentCents p = \<bar>?c\<bar>"
      using Cons.prems unq by (auto simp: record_ok_def)
    let ?ps = "[pt_futureComponentCents p, pt_billRemainderComponentCents p, pt_residualComponentCents p]"
    have "sum_list ?ps = ?c" using p(5) pos by simp
    moreover have "sumCents ?ps = Inr (sum_list ?ps)"
      by (rule sumCents_nonneg) (use p(2-4) Cons.prems \<open>sum_list ?ps = ?c\<close> in \<open>auto simp: record_ok_def\<close>)
    ultimately show ?thesis by (simp add: p(1) reserved_parts_def)
  qed
  then show ?case using Cons by (simp add: cycle.truncate_def issue_if_def)
qed simp

lemma verified:
  assumes "graph_sound env g" "\<forall>occ \<in> set (gr_occurrences g). length (oc_date occ) = 10"
  shows "verifyGraphInvariants g = Inr []"
proof -
  have "reservation_issues [] (gr_occurrences g) = []"
  proof (rule reservation_issues_none)
    show "sorted_wrt (\<lambda>a b. oc_reserved a \<and> oc_reserved b \<and>
        oc_dedupeGroup a @ ''|'' @ oc_date a = oc_dedupeGroup b @ ''|'' @ oc_date b \<longrightarrow> oc_id a = oc_id b)
        (gr_occurrences g)"
      by (rule sorted_wrt_mono_rel [of _ apart])
        (use assms parts_of_date [of _ _ env "gn_id ` set (gr_nodes g)"] in \<open>auto simp: graph_sound_def\<close>)
  qed simp
  moreover have "\<forall>occ \<in> set (gr_occurrences g). oc_nodeId occ \<in> gn_id ` set (gr_nodes g)"
    using assms(1) by (simp add: graph_sound_def occurrence_ok_def)
  moreover have "verifyCyclePartitionInvariants (map cycle.truncate (gr_cyclePartitions g)) = Inr []"
    by (rule records_verified) (use assms(1) in \<open>simp add: graph_sound_def\<close>)
  ultimately show ?thesis using assms(1)
    by (auto simp: verifyGraphInvariants_def issue_if_def graph_sound_def)
qed

section \<open>Safe to spend\<close>

lemma safe_to_spend_facts:
  assumes "safeToSpendFromGraph g cash start stop = Inr s"
  shows "sf_reservedCents s = (\<Sum>occ \<leftarrow> reservedCashOccurrences g start stop. - oc_amountCents occ)"
    and "sf_complete s = gc_complete (graphCompleteness g)"
    and "sf_complete s \<Longrightarrow> sf_valueCents s = Some (cash - sf_reservedCents s) \<and> sf_incompleteReasons s = []"
    and "\<not> sf_complete s \<Longrightarrow> sf_valueCents s = None \<and> sf_incompleteReasons s \<noteq> []"
proof -
  let ?occs = "reservedCashOccurrences g start stop"
  obtain c where c: "sumCents (map (\<lambda>occ. - oc_amountCents occ) ?occs) = Inr c"
    using assms by (auto simp: safeToSpendFromGraph_def reservedOutflowCents_def Let_def res_simps)
  have r: "sf_reservedCents s = c \<and> sf_complete s = gc_complete (graphCompleteness g) \<and>
     (if sf_complete s then sumCents [cash, - c] = Inr (the (sf_valueCents s)) \<and> sf_valueCents s \<noteq> None \<and>
        sf_incompleteReasons s = []
      else sf_valueCents s = None \<and> sf_incompleteReasons s = gc_incompleteReasons (graphCompleteness g))"
    using assms c by (auto simp: safeToSpendFromGraph_def reservedOutflowCents_def Let_def res_simps split: if_splits)
  have "c = (\<Sum>occ \<leftarrow> ?occs. - oc_amountCents occ)" using sumCents_Inr [OF c] by simp
  with r show "sf_reservedCents s = (\<Sum>occ \<leftarrow> ?occs. - oc_amountCents occ)"
    "sf_complete s = gc_complete (graphCompleteness g)" by simp_all
  show "sf_complete s \<Longrightarrow> sf_valueCents s = Some (cash - sf_reservedCents s) \<and> sf_incompleteReasons s = []"
    using r sumCents_Inr [of "[cash, - c]"] by auto
  show "\<not> sf_complete s \<Longrightarrow> sf_valueCents s = None \<and> sf_incompleteReasons s \<noteq> []"
    using r by (auto simp: graphCompleteness_def Let_def)
qed

lemma reserved_nonneg:
  assumes "graph_sound env g"
  shows "0 \<le> (\<Sum>occ \<leftarrow> reservedCashOccurrences g start stop. - oc_amountCents occ)"
  using assms
  by (intro sum_list_nonneg) (auto simp: reservedCashOccurrences_def graph_sound_def occurrence_ok_def)

section \<open>Parts and obligations\<close>

definition owed_exactly :: "graph \<Rightarrow> bool" where
  "owed_exactly g \<longleftrightarrow> (\<forall>k. part_cents k (gr_occurrences g) =
     (\<Sum>r \<leftarrow> filter (\<lambda>r. cy_cycleKey r = k) (gr_cyclePartitions g). max 0 (cy_adjustedObligationCents r)))"

lemma owed_cents_all:
  assumes "\<forall>r \<in> set rs. \<not> cy_quarantined r"
  shows "owed_cents k rs = (\<Sum>r \<leftarrow> filter (\<lambda>r. cy_cycleKey r = k) rs. max 0 (cy_adjustedObligationCents r))"
  using assms by (induction rs) (auto simp: owed_cents_def)

lemma part_cents_mset: "part_cents k xs = (\<Sum>occ \<in># filter_mset (\<lambda>occ. oc_partition occ \<noteq> None \<and> oc_cycleKey occ = Some k)
    (mset xs). - oc_amountCents occ)"
  by (simp add: part_cents_def flip: mset_filter mset_map sum_mset_sum_list)

lemma complete_owed_exactly:
  assumes "buildObligationGraph env raw = Inr g" "links_ok raw" "gc_complete (graphCompleteness g)"
  shows "owed_exactly g \<and> (\<forall>r \<in> set (gr_cyclePartitions g). \<not> cy_quarantined r)"
proof -
  obtain b where b: "g = graph_of env (normalizeBuildInput raw) b" "settled env b" "quarantine_told b"
    "gb_capExceeded b \<longrightarrow> capped \<in> set (gb_incompleteReasons b)"
    by (rule built_graph [OF assms(1,2)])
  have cap: "\<not> gb_capExceeded b" using b(4) assms(3) graph_reasons_kept [of capped b] by (auto simp: b(1))
  have q: "\<forall>r \<in> set (gb_cyclePartitions b). \<not> cy_quarantined r"
    using b(3) assms(3) graph_reasons_kept [of mismatch b] by (auto simp: b(1) quarantine_told_def)
  have "part_cents k (gr_occurrences g) = part_cents k (gb_occurrences b)" for k
    by (simp add: part_cents_mset b(1))
  then show ?thesis using cap q b(2) by (simp add: owed_exactly_def settled_def b(1) owed_cents_all)
qed

section \<open>A weekly charge and a card\<close>

text \<open>
  A month with a weekly subscription of ten dollars and a credit card that owes fifty, twenty of
  which a transfer covers. The hash keeps identities apart by their last characters.
\<close>

definition month_env :: graph_env where
  "month_env = \<lparr>ge_hash = (\<lambda>ps. rev (concat ps)), ge_collate = (\<lambda>a b. if a < b then -1 else if a = b then 0 else 1),
     ge_num = (\<lambda>_. ''n''), ge_parse = (\<lambda>_. None)\<rparr>"

definition weekly_item :: "string list \<Rightarrow> recurring_item" where
  "weekly_item dates = \<lparr>ri_durableIdentity = None, ri_key = ''gym'', ri_payee = None, ri_cadence = JStr ''weekly'',
     ri_isBill = False, ri_provenance = None, ri_projectionUncertain = False, ri_scheduleUncertain = False,
     ri_projectedOccurrences = map (\<lambda>d. \<lparr>pj_date = d, pj_amountCents = Fin (- 1000), pj_paid = False,
       pj_provenance = None\<rparr>) dates\<rparr>"

definition month_card :: liability where
  "month_card = \<lparr>li_durableIdentity = None, li_accountId = ''visa'', li_name = None, li_excluded = False,
     li_eligible = True, li_coverageKind = Some ''current_balance'', li_paymentRecurringKey = None,
     li_quarantineReasons = [], li_obligationCents = Fin 5000, li_currentBalanceCents = Some (- 5000),
     li_paymentDueDate = Some ''2026-01-20'', li_cycleKey = None, li_fundingAccountId = Some ''cash'',
     li_observedAt = None\<rparr>"

definition month_transfer :: transfer_item where
  "month_transfer = \<lparr>tf_durableIdentity = None, tf_linkId = ''t1'', tf_label = None, tf_provenance = None,
     tf_fromAccountId = Some ''cash'', tf_toAccountId = Some ''visa'', tf_ambiguous = False,
     tf_date = Some ''2026-01-15'', tf_amountCents = Fin (- 2000), tf_sourceFingerprint = None,
     tf_transactionId = None, tf_transferredId = None, tf_fundsLiabilityAccountId = Some ''visa''\<rparr>"

definition month_input :: graph_input where
  "month_input = \<lparr>gi_generatedAt = None, gi_financeDate = ''2026-01-02'', gi_windowStart = ''2026-01-01'',
     gi_windowEnd = ''2026-01-31'', gi_recurringItems = [weekly_item [''2026-01-05'', ''2026-01-12'', ''2026-01-19'']],
     gi_billOccurrences = [], gi_incomeStreams = [], gi_manualDebts = [], gi_creditLiabilities = [month_card],
     gi_billCategoryIds = [], gi_transfers = [month_transfer], gi_budgetReservations = [],
     gi_reimbursementExpectations = [], gi_economicTransactions = [], gi_operatingAccountIds = [''cash''],
     gi_fundingAccountsByLiability = [], gi_billCategoryIdentityIssues = []\<rparr>"

definition month_graph :: graph where
  "month_graph = projr (buildObligationGraph month_env month_input)"

lemma registerOccurrence_code [code]:
  "registerOccurrence occ b =
     (if 100000 \<le> int (length (gb_occurrences b)) then b\<lparr>gb_capExceeded := True\<rparr>
      else b\<lparr>gb_occurrences := gb_occurrences b @ [occ]\<rparr>)"
  by (auto simp: registerOccurrence_def MAX_OCCURRENCES_def)

text \<open>What matters of the graph, in one evaluation.\<close>

definition month_value :: "(bool \<times> (string \<times> int \<times> bool) list \<times> int option option) option" where
  "month_value =
     (case buildObligationGraph month_env month_input of
        Inl _ \<Rightarrow> None
      | Inr g \<Rightarrow> Some (gc_complete (graphCompleteness g),
          map (\<lambda>occ. (oc_date occ, oc_amountCents occ, oc_reserved occ)) (gr_occurrences g),
          (case safeToSpendFromGraph g 100000 None None of Inl _ \<Rightarrow> None | Inr s \<Rightarrow> Some (sf_valueCents s))))"

lemma month_evaluated:
  "month_value = Some (True,
     [(''2026-01-05'', - 1000, True), (''2026-01-12'', - 1000, False), (''2026-01-15'', - 2000, False),
      (''2026-01-15'', - 2000, True), (''2026-01-19'', - 1000, False), (''2026-01-20'', - 3000, True)],
     Some (Some 94000))"
  by code_simp

lemma month_built: "buildObligationGraph month_env month_input = Inr month_graph"
  using month_evaluated by (auto simp: month_value_def month_graph_def split: sum.splits)

lemma month_links: "links_ok month_input"
  by (simp add: links_ok_def month_input_def month_card_def text_or_none_def)

lemma month_complete: "gc_complete (graphCompleteness month_graph)"
  using month_evaluated by (simp add: month_value_def month_built)

lemma month_occurrences:
  "map (\<lambda>occ. (oc_date occ, oc_amountCents occ, oc_reserved occ)) (gr_occurrences month_graph) =
     [(''2026-01-05'', - 1000, True), (''2026-01-12'', - 1000, False), (''2026-01-15'', - 2000, False),
      (''2026-01-15'', - 2000, True), (''2026-01-19'', - 1000, False), (''2026-01-20'', - 3000, True)]"
  using month_evaluated by (simp add: month_value_def month_built)

lemma month_dates: "\<forall>occ \<in> set (gr_occurrences month_graph). length (oc_date occ) = 10"
proof -
  have "\<forall>(d, a, r) \<in> set (map (\<lambda>occ. (oc_date occ, oc_amountCents occ, oc_reserved occ)) (gr_occurrences month_graph)).
      length d = 10"
    unfolding month_occurrences by simp
  then show ?thesis by simp
qed

lemma month_safe:
  obtains s where "safeToSpendFromGraph month_graph 100000 None None = Inr s" "sf_valueCents s = Some 94000"
  using month_evaluated by (auto simp: month_value_def month_built split: sum.splits)

section \<open>Properties of the graph\<close>

text \<open>
  C23: A graph is bounded and closed: at most a hundred thousand occurrences, each of a node of the graph,
  with safe cents; only outflows are reserved, and an outflow is never positive.
\<close>

theorem graph_bounded_and_owned:
  assumes "buildObligationGraph env raw = Inr g" "links_ok raw"
  shows "length (gr_occurrences g) \<le> 100000 \<and>
    (\<forall>occ \<in> set (gr_occurrences g). oc_nodeId occ \<in> gn_id ` set (gr_nodes g) \<and> safe_int (oc_amountCents occ) \<and>
      (oc_reserved occ \<longrightarrow> oc_role occ = Cash_outflow) \<and>
      (oc_role occ = Cash_outflow \<longrightarrow> oc_amountCents occ \<le> 0) \<and> (oc_role occ = Cash_inflow \<longrightarrow> 0 \<le> oc_amountCents occ))"
  using built_sound [OF assms] by (auto simp: graph_sound_def occurrence_ok_def MAX_OCCURRENCES_def)

lemma graph_bounded_and_owned_witness:
  "(\<exists>occ \<in> set (gr_occurrences month_graph). oc_reserved occ) \<and> length (gr_occurrences month_graph) \<le> 100000"
proof -
  have "True \<in> set (map oc_reserved (gr_occurrences month_graph))"
    using arg_cong [OF month_occurrences, of "map (snd \<circ> snd)"] by (simp add: comp_def)
  then show ?thesis using graph_bounded_and_owned [OF month_built month_links] by auto
qed

text \<open>
  C13: Sources that share a group reserve it at most once: whatever bills, subscriptions, debts and budgets
  overlap in a group, one of them is reserved. (The parts of a liability have groups of their own.)
\<close>

theorem group_reserved_once:
  assumes "buildObligationGraph env raw = Inr g" "links_ok raw"
  shows "length (filter (\<lambda>occ. oc_reserved occ \<and> oc_partition occ = None \<and> oc_dedupeGroup occ = grp)
    (gr_occurrences g)) \<le> 1"
  using built_sound [OF assms] by (intro apart_once) (simp add: graph_sound_def)

lemma group_reserved_once_witness:
  "length (filter (\<lambda>occ. oc_reserved occ \<and> oc_partition occ = None \<and> oc_dedupeGroup occ = ''sub-series:gym'')
    (gr_occurrences month_graph)) \<le> 1"
  by (rule group_reserved_once [OF month_built month_links])





text \<open>
  C12: Safe to spend is fail-closed and never more than the cash: of a complete graph it is the operating cash
  minus the sum of the reserved outflows of the window; of an incomplete graph there is no value, and there
  is a reason.
\<close>

theorem safe_to_spend_sound:
  assumes "buildObligationGraph env raw = Inr g" "links_ok raw" "safeToSpendFromGraph g cash start stop = Inr s"
  shows "if gc_complete (graphCompleteness g)
    then sf_valueCents s = Some (cash - (\<Sum>occ \<leftarrow> reservedCashOccurrences g start stop. \<bar>oc_amountCents occ\<bar>)) \<and>
      the (sf_valueCents s) \<le> cash
    else sf_valueCents s = None \<and> sf_incompleteReasons s \<noteq> []"
proof -
  have "\<bar>oc_amountCents occ\<bar> = - oc_amountCents occ" if "occ \<in> set (reservedCashOccurrences g start stop)" for occ
    using built_sound [OF assms(1,2)] that by (auto simp: reservedCashOccurrences_def graph_sound_def occurrence_ok_def)
  then have "(\<Sum>occ \<leftarrow> reservedCashOccurrences g start stop. \<bar>oc_amountCents occ\<bar>) = sf_reservedCents s"
    unfolding safe_to_spend_facts(1) [OF assms(3)] by (intro arg_cong [of _ _ sum_list] map_cong) auto
  then show ?thesis
    using safe_to_spend_facts [OF assms(3)] reserved_nonneg [OF built_sound [OF assms(1,2)], of start stop] by auto
qed

lemma safe_to_spend_sound_witness:
  "\<exists>s. safeToSpendFromGraph month_graph 100000 None None = Inr s \<and> the (sf_valueCents s) \<le> 100000"
proof -
  obtain s where s: "safeToSpendFromGraph month_graph 100000 None None = Inr s" by (rule month_safe)
  have "the (sf_valueCents s) \<le> 100000"
    using safe_to_spend_sound [OF month_built month_links s] unfolding if_P [OF month_complete] by (rule conjunct2)
  with s show ?thesis by blast
qed

text \<open>
  A finding. The group of a subscription has no date, so of the charges of a weekly subscription only the
  first in the window stays reserved: thirty dollars fall due, the complete graph reserves ten, and twenty
  dollars too many are shown as safe to spend.
\<close>

lemma weekly_charges_lose_reservation:
  "gc_complete (graphCompleteness month_graph) \<and>
   (\<Sum>p \<leftarrow> ri_projectedOccurrences (weekly_item [''2026-01-05'', ''2026-01-12'', ''2026-01-19'']).
      \<bar>js_to_int (pj_amountCents p)\<bar>) + 5000 = 8000 \<and>
   (\<exists>s. safeToSpendFromGraph month_graph 100000 None None = Inr s \<and> sf_valueCents s = Some 94000)"
  using month_complete by (auto simp: weekly_item_def intro: month_safe)

end
