(* ===== verification/SafeToSpend.thy ===== *)
theory SafeToSpend
  imports ObligationSettlement
begin

text \<open>
  Model of \<open>lib/safe-to-spend.js\<close>: the ordered list of reasons for which safe-to-spend is withheld, from
  the accounts, the budgets, the recurring items, the credit policies and the obligation graph.
  Parameters that are objects with defaults are records with all fields; \<open>obligationGraph\<close> may be absent.
  \<open>budgets[SAFE_TO_SPEND_INPUTS]\<close> is the optional record of counts.
\<close>

definition SAFE_TO_SPEND_REASON_ORDER :: "string list" where
  "SAFE_TO_SPEND_REASON_ORDER =
     [''transfer_identity_unresolved'', ''obligation_duplicate_identity'', ''obligation_occurrence_cap_exceeded'',
      ''obligation_identity_overlap_ambiguous'', ''account_roles_unassigned'', ''operating_cash_account_missing'',
      ''budget_data_unavailable'', ''obligation_recurrence_unresolved'', ''obligation_liability_unresolved'',
      ''obligation_liability_funding_mismatch'', ''obligation_funding_account_missing'',
      ''obligation_transfer_ambiguous'', ''obligation_reimbursement_allocation_incomplete'',
      ''obligation_debt_terms_unsupported'', ''obligation_source_stale'', ''credit_card_coverage_unknown'',
      ''budget_targets_missing'', ''budget_target_coverage_partial'', ''targetless_category_spending'',
      ''bill_recurrence_unresolved'', ''non_bill_recurrence_unresolved'', ''rollover_treatment_unknown'']"

record sts_account =
  sa_id :: string
  sa_hidden :: bool
  sa_roleSource :: string
  sa_role :: string
  sa_balance :: jsnum

record sts_counts =
  ct_targetedCategoryCount :: nat
  ct_eligibleCategoryCount :: nat
  ct_targetlessSpentCategoryCount :: nat
  ct_unresolvedRolloverCategoryCount :: nat

record sts_policy =
  sp_mode :: string
  sp_quarantineReasons :: "string list"

record sts_recurring =
  sr_key :: string
  sr_status :: string
  sr_isBill :: jsval
  sr_projectionUncertain :: jsval

text \<open>\<open>items\<close> are those of \<open>recurring.items\<close> followed by those of \<open>recurring.hiddenItems\<close>.\<close>

record sts_input =
  st_accounts :: "sts_account list"
  st_visibleAccounts :: "sts_account list option"
  st_operatingAccounts :: "string list"
  st_budgetsUnsupported :: bool
  st_budgetCounts :: "sts_counts option"
  st_items :: "sts_recurring list"
  st_spendingComplete :: "bool option"
  st_graph :: "graph option"
  st_liabilityPolicies :: "(string \<times> sts_policy) list"

definition recurrence_unresolved :: "gnode \<Rightarrow> bool" where
  "recurrence_unresolved n \<longleftrightarrow> ''obligation_recurrence_unresolved'' \<in> set (gn_incompleteReasons n)"

definition graph_nodes :: "graph option \<Rightarrow> gnode list" where
  "graph_nodes g = (case g of None \<Rightarrow> [] | Some h \<Rightarrow> gr_nodes h)"

text \<open>The third loop, on one item: whether it reports.\<close>

definition non_bill_unresolved :: "gnode list \<Rightarrow> sts_recurring \<Rightarrow> bool" where
  "non_bill_unresolved nodes item \<longleftrightarrow>
     sr_status item = ''active'' \<and> \<not> truthy (sr_isBill item) \<and>
     (truthy (sr_projectionUncertain item) \<or>
      (case find (\<lambda>n. so_key (gn_source n) = Some (sr_key item)) nodes of
         None \<Rightarrow> False | Some n \<Rightarrow> recurrence_unresolved n))"

definition legacyRecurrenceReasons :: "sts_recurring list \<Rightarrow> graph option \<Rightarrow> string list" where
  "legacyRecurrenceReasons items g =
     issue_if ((\<exists>item \<in> set items. sr_status item = ''active'' \<and> sr_isBill item = JBool True \<and>
          sr_projectionUncertain item = JBool True) \<or>
        (\<exists>n \<in> set (graph_nodes g). gn_kind n = Recurring_bill \<and> recurrence_unresolved n))
       ''bill_recurrence_unresolved'' @
     issue_if (\<exists>item \<in> set items. non_bill_unresolved (graph_nodes g) item) ''non_bill_recurrence_unresolved''"

text \<open>\<open>Number(account.balance) >= 0\<close>, negated: a balance that is no number counts as owed.\<close>

fun nonneg_num :: "jsnum \<Rightarrow> bool" where
  "nonneg_num NaN \<longleftrightarrow> False"
| "nonneg_num PosInf \<longleftrightarrow> True"
| "nonneg_num NegInf \<longleftrightarrow> False"
| "nonneg_num NegZero \<longleftrightarrow> True"
| "nonneg_num (Fin x) \<longleftrightarrow> 0 \<le> x"

definition card_uncovered :: "(string \<times> sts_policy) list \<Rightarrow> sts_account \<Rightarrow> bool" where
  "card_uncovered policies a \<longleftrightarrow>
     sa_role a = ''credit_card'' \<and> \<not> nonneg_num (sa_balance a) \<and>
     (case map_of policies (sa_id a) of None \<Rightarrow> True | Some p \<Rightarrow> sp_mode p = ''unknown'')"

definition budget_reasons :: "bool \<Rightarrow> sts_counts option \<Rightarrow> string list" where
  "budget_reasons unsupported counts =
     (case if unsupported then None else counts of
        None \<Rightarrow> [''budget_data_unavailable'']
      | Some c \<Rightarrow>
          issue_if (ct_targetedCategoryCount c = 0) ''budget_targets_missing'' @
          issue_if (0 < ct_targetedCategoryCount c \<and> ct_targetedCategoryCount c < ct_eligibleCategoryCount c)
            ''budget_target_coverage_partial'' @
          issue_if (0 < ct_targetlessSpentCategoryCount c) ''targetless_category_spending'' @
          issue_if (0 < ct_unresolvedRolloverCategoryCount c) ''rollover_treatment_unknown'')"

definition found_reasons :: "sts_input \<Rightarrow> string list" where
  "found_reasons i =
     (let visible = (case st_visibleAccounts i of Some as \<Rightarrow> as | None \<Rightarrow> filter (\<lambda>a. \<not> sa_hidden a) (st_accounts i)) in
      issue_if (st_spendingComplete i = Some False) ''transfer_identity_unresolved'' @
      issue_if (\<exists>a \<in> set visible. sa_roleSource a \<noteq> ''explicit'' \<or> sa_role a = ''unknown'') ''account_roles_unassigned'' @
      issue_if (st_operatingAccounts i = []) ''operating_cash_account_missing'' @
      (case st_graph i of None \<Rightarrow> [] | Some g \<Rightarrow> gc_incompleteReasons (graphCompleteness g)) @
      concat (map (\<lambda>(_, p). sp_quarantineReasons p) (st_liabilityPolicies i)) @
      issue_if (\<exists>a \<in> set (st_accounts i). card_uncovered (st_liabilityPolicies i) a) ''credit_card_coverage_unknown'' @
      budget_reasons (st_budgetsUnsupported i) (st_budgetCounts i) @
      legacyRecurrenceReasons (st_items i) (st_graph i))"

definition safeToSpendIncompleteReasons :: "sts_input \<Rightarrow> string list" where
  "safeToSpendIncompleteReasons i =
     (let found = set (found_reasons i); ordered = filter (\<lambda>r. r \<in> found) SAFE_TO_SPEND_REASON_ORDER in
      ordered @ filter (\<lambda>r. r \<in> found \<and> r \<notin> set ordered) OBLIGATION_REASON_ORDER)"

section \<open>What the list says\<close>

lemma reasons_distinct_order: "distinct SAFE_TO_SPEND_REASON_ORDER"
  by (simp add: SAFE_TO_SPEND_REASON_ORDER_def)

lemma graph_reasons_known: "set OBLIGATION_REASON_ORDER \<subseteq> set SAFE_TO_SPEND_REASON_ORDER"
  by (simp add: SAFE_TO_SPEND_REASON_ORDER_def OBLIGATION_REASON_ORDER_def)

text \<open>The second loop adds nothing: every reason of the graph is already in the first order.\<close>

lemma reasons_first_order:
  "safeToSpendIncompleteReasons i = filter (\<lambda>r. r \<in> set (found_reasons i)) SAFE_TO_SPEND_REASON_ORDER"
proof -
  have "filter (\<lambda>r. r \<in> set (found_reasons i) \<and>
      r \<notin> set (filter (\<lambda>r. r \<in> set (found_reasons i)) SAFE_TO_SPEND_REASON_ORDER)) OBLIGATION_REASON_ORDER = []"
    using graph_reasons_known by (auto simp: filter_empty_conv)
  then show ?thesis by (simp only: safeToSpendIncompleteReasons_def Let_def append_Nil2)
qed

definition counts_ready :: "sts_counts \<Rightarrow> bool" where
  "counts_ready c \<longleftrightarrow> 0 < ct_targetedCategoryCount c \<and> ct_eligibleCategoryCount c \<le> ct_targetedCategoryCount c \<and>
     ct_targetlessSpentCategoryCount c = 0 \<and> ct_unresolvedRolloverCategoryCount c = 0"

lemma issue_if_simps [simp]: "issue_if b r = [] \<longleftrightarrow> \<not> b" "set (issue_if b r) \<subseteq> A \<longleftrightarrow> (b \<longrightarrow> r \<in> A)"
  by (cases b; simp add: issue_if_def)+

definition own_reasons :: "string list" where
  "own_reasons =
     [''transfer_identity_unresolved'', ''account_roles_unassigned'', ''operating_cash_account_missing'',
      ''credit_card_coverage_unknown'', ''budget_data_unavailable'', ''budget_targets_missing'',
      ''budget_target_coverage_partial'', ''targetless_category_spending'', ''rollover_treatment_unknown'',
      ''bill_recurrence_unresolved'', ''non_bill_recurrence_unresolved'']"

lemma own_known: "list_all (\<lambda>r. r \<in> set SAFE_TO_SPEND_REASON_ORDER) own_reasons"
  by code_simp

lemma issue_known: "r \<in> set own_reasons \<Longrightarrow> set (issue_if b r) \<subseteq> set SAFE_TO_SPEND_REASON_ORDER"
  using own_known by (simp add: list_all_iff)

text \<open>Policies only quarantine for reasons that have a place in the order.\<close>

definition policies_known :: "sts_input \<Rightarrow> bool" where
  "policies_known i \<longleftrightarrow>
     (\<forall>(_, p) \<in> set (st_liabilityPolicies i). set (sp_quarantineReasons p) \<subseteq> set SAFE_TO_SPEND_REASON_ORDER)"

lemma found_known:
  assumes "policies_known i"
  shows "set (found_reasons i) \<subseteq> set SAFE_TO_SPEND_REASON_ORDER"
proof -
  let ?S = "set SAFE_TO_SPEND_REASON_ORDER"
  have "set (gc_incompleteReasons (graphCompleteness g)) \<subseteq> ?S" for g
    using graph_reasons_known by (auto simp: graphCompleteness_def Let_def mergeReasons_def)
  then have g: "set (case st_graph i of None \<Rightarrow> [] | Some g \<Rightarrow> gc_incompleteReasons (graphCompleteness g)) \<subseteq> ?S"
    by (cases "st_graph i") simp_all
  have p: "set (concat (map (\<lambda>(_, p). sp_quarantineReasons p) (st_liabilityPolicies i))) \<subseteq> ?S"
    using assms by (auto simp: policies_known_def)
  have l: "set (legacyRecurrenceReasons items h) \<subseteq> ?S" for items h
    unfolding legacyRecurrenceReasons_def set_append
    by (intro Un_least issue_known) (simp_all add: own_reasons_def)
  have "set (budget_reasons u None) \<subseteq> ?S" "set (budget_reasons True c) \<subseteq> ?S" for u c
    using own_known by (simp_all add: budget_reasons_def own_reasons_def)
  moreover have "set (budget_reasons False (Some c)) \<subseteq> ?S" for c
    unfolding budget_reasons_def if_False option.case set_append
    by (intro Un_least issue_known) (simp_all add: own_reasons_def)
  ultimately have b: "set (budget_reasons u c) \<subseteq> ?S" for u c by (cases u; cases c) auto
  show ?thesis unfolding found_reasons_def Let_def set_append
    by (intro Un_least g p l b issue_known) (simp_all add: own_reasons_def)
qed

lemma no_reason_means:
  assumes "safeToSpendIncompleteReasons i = []" "policies_known i"
  shows "found_reasons i = []"
proof -
  have "\<forall>r \<in> set SAFE_TO_SPEND_REASON_ORDER. r \<notin> set (found_reasons i)"
    using assms(1) unfolding reasons_first_order filter_empty_conv .
  moreover have "set (found_reasons i) \<subseteq> set SAFE_TO_SPEND_REASON_ORDER" by (rule found_known [OF assms(2)])
  ultimately have "\<forall>r. r \<notin> set (found_reasons i)" by blast
  then show ?thesis using hd_in_set by blast
qed

section \<open>Properties\<close>


text \<open>A household in order: the month of the obligation graph, its card on a policy, a target for every category.\<close>

definition ready_input :: sts_input where
  "ready_input =
     \<lparr>st_accounts = [\<lparr>sa_id = ''cash'', sa_hidden = False, sa_roleSource = ''explicit'', sa_role = ''operating'',
          sa_balance = Fin 1000\<rparr>,
        \<lparr>sa_id = ''visa'', sa_hidden = False, sa_roleSource = ''explicit'', sa_role = ''credit_card'', sa_balance = Fin (- 50)\<rparr>],
      st_visibleAccounts = None, st_operatingAccounts = [''cash''], st_budgetsUnsupported = False,
      st_budgetCounts = Some \<lparr>ct_targetedCategoryCount = 2, ct_eligibleCategoryCount = 2,
        ct_targetlessSpentCategoryCount = 0, ct_unresolvedRolloverCategoryCount = 0\<rparr>,
      st_items = [\<lparr>sr_key = ''gym'', sr_status = ''active'', sr_isBill = JBool False, sr_projectionUncertain = JBool False\<rparr>],
      st_spendingComplete = Some True, st_graph = Some month_graph,
      st_liabilityPolicies = [(''visa'', \<lparr>sp_mode = ''current_balance'', sp_quarantineReasons = []\<rparr>)]\<rparr>"

lemma complete_nodes:
  assumes "gc_complete (graphCompleteness g)" "n \<in> set (gr_nodes g)"
  shows "\<not> recurrence_unresolved n"
proof -
  have "''obligation_recurrence_unresolved'' \<in> set OBLIGATION_REASON_ORDER" by (simp add: OBLIGATION_REASON_ORDER_def)
  then show ?thesis
    using assms by (auto simp: graphCompleteness_def Let_def mergeReasons_def filter_empty_conv recurrence_unresolved_def)
qed

lemma ready_no_reason: "safeToSpendIncompleteReasons ready_input = []"
proof -
  have g: "gc_incompleteReasons (graphCompleteness month_graph) = []"
    using month_complete by (simp add: graphCompleteness_def Let_def)
  have "\<not> non_bill_unresolved (gr_nodes month_graph) \<lparr>sr_key = ''gym'', sr_status = ''active'', sr_isBill = JBool False,
      sr_projectionUncertain = JBool False\<rparr>"
    using complete_nodes [OF month_complete]
    by (auto simp: non_bill_unresolved_def dest!: find_SomeD split: option.split)
  then have "legacyRecurrenceReasons (st_items ready_input) (Some month_graph) = []"
    using complete_nodes [OF month_complete] by (auto simp: legacyRecurrenceReasons_def ready_input_def graph_nodes_def)
  then have "found_reasons ready_input = []"
    by (simp add: found_reasons_def Let_def g ready_input_def card_uncovered_def budget_reasons_def)
  then show ?thesis by (simp add: reasons_first_order)
qed


end
