(* ===== verification/Recurrence.thy ===== *)
theory Recurrence
  imports DateOnly Money "HOL-Library.List_Lexorder"
begin

text \<open>
  Model of \<open>lib/recurrence.js\<close>: the cadence of a series of dates, the schedule inferred from its
  history, and the dates that follow from the schedule in a window. Dates are \<open>YYYY-MM-DD\<close> strings;
  the date functions throw on others. \<open>dayOfMonth\<close> and \<open>monthKeyOf\<close> slice, and are only called on such
  strings. A cadence is one of eight, or another text; the empty and the missing one are \<open>None\<close>.
  Loops have the guards of the code as fuel.
\<close>

section \<open>Cadences\<close>

datatype cadence = Weekly | Biweekly | Semimonthly | Monthly | Bimonthly | Quarterly | Semiannual | Annual
  | Other_cadence string

fun cadence_days :: "cadence \<Rightarrow> jsnum option" where
  "cadence_days Weekly = Some (Fin 7)"
| "cadence_days Biweekly = Some (Fin 14)"
| "cadence_days Semimonthly = Some (round64 (1522 / 100))"
| "cadence_days Monthly = Some (round64 (3044 / 100))"
| "cadence_days Bimonthly = Some (round64 (6088 / 100))"
| "cadence_days Quarterly = Some (round64 (913 / 10))"
| "cadence_days Semiannual = Some (round64 (1826 / 10))"
| "cadence_days Annual = Some (round64 (36525 / 100))"
| "cadence_days (Other_cadence _) = None"

fun month_steps :: "cadence \<Rightarrow> int option" where
  "month_steps Monthly = Some 1"
| "month_steps Bimonthly = Some 2"
| "month_steps Quarterly = Some 3"
| "month_steps Semiannual = Some 6"
| "month_steps Annual = Some 12"
| "month_steps _ = None"

fun inactive_gap_days :: "cadence \<Rightarrow> int option" where
  "inactive_gap_days Weekly = Some 14"
| "inactive_gap_days Biweekly = Some 28"
| "inactive_gap_days Semimonthly = Some 40"
| "inactive_gap_days Monthly = Some 55"
| "inactive_gap_days Bimonthly = Some 95"
| "inactive_gap_days Quarterly = Some 140"
| "inactive_gap_days Semiannual = Some 280"
| "inactive_gap_days Annual = Some 450"
| "inactive_gap_days (Other_cadence _) = None"

fun classifyCadence :: "jsnum \<Rightarrow> cadence option" where
  "classifyCadence (Fin gap) =
     (if 5 \<le> gap \<and> gap \<le> 9 then Some Weekly
      else if 12 \<le> gap \<and> gap \<le> 14 then Some Biweekly
      else if 15 \<le> gap \<and> gap \<le> 18 then Some Semimonthly
      else if 25 \<le> gap \<and> gap \<le> 35 then Some Monthly
      else if 55 \<le> gap \<and> gap \<le> 70 then Some Bimonthly
      else if 80 \<le> gap \<and> gap \<le> 100 then Some Quarterly
      else if 170 \<le> gap \<and> gap \<le> 200 then Some Semiannual
      else if 330 \<le> gap \<and> gap \<le> 400 then Some Annual
      else None)"
| "classifyCadence _ = None"

definition monthlyEquivalentAmount :: "jsnum \<Rightarrow> cadence \<Rightarrow> jsnum" where
  "monthlyEquivalentAmount amount c =
     (case cadence_days c of None \<Rightarrow> amount
      | Some period \<Rightarrow> js_mul amount (js_div (round64 (3044 / 100)) period))"

definition days_or_month :: "cadence option \<Rightarrow> jsnum" where
  "days_or_month c =
     (case c of None \<Rightarrow> round64 (3044 / 100)
      | Some d \<Rightarrow> (case cadence_days d of None \<Rightarrow> round64 (3044 / 100) | Some n \<Rightarrow> n))"

definition inactiveGapDays :: "cadence \<Rightarrow> int" where
  "inactiveGapDays c =
     (case inactive_gap_days c of Some n \<Rightarrow> n
      | None \<Rightarrow> js_to_int (js_round (js_mul (days_or_month (Some c)) (round64 (18 / 10)))))"

section \<open>Calendar steps\<close>

definition dayOfMonth :: "string \<Rightarrow> int" where
  "dayOfMonth s = int (dec_val (take 2 (drop 8 s)))"

definition monthKeyOf :: "string \<Rightarrow> string" where
  "monthKeyOf s = take 7 s"

text \<open>The year is not padded here.\<close>

definition addCalendarMonths :: "string \<Rightarrow> int \<Rightarrow> int \<Rightarrow> string res" where
  "addCalendarMonths date n anchorDay =
     ebind (parseYMD date) (\<lambda>p.
       case civil_of_day (date_utc (ymd_year p) (ymd_month p - 1 + n) 1) of (ty, tm, _) \<Rightarrow>
         let lastDay = last_day_of ty tm; day = (if anchorDay = 31 then lastDay else min anchorDay lastDay)
         in Inr (dec_int ty @ ''-'' @ pad2 (tm + 1) @ ''-'' @ pad2 day))"

definition isLastDayOfMonth :: "string \<Rightarrow> bool res" where
  "isLastDayOfMonth s = ebind (monthEnd (monthKeyOf s)) (\<lambda>e. Inr (s = e))"

text \<open>\<open>xs.every(f)\<close> where \<open>f\<close> may throw.\<close>

fun every :: "('a \<Rightarrow> bool res) \<Rightarrow> 'a list \<Rightarrow> bool res" where
  "every f [] = Inr True"
| "every f (x # xs) = ebind (f x) (\<lambda>b. if b then every f xs else Inr False)"

section \<open>Semimonthly patterns\<close>

datatype pattern = First_and_fifteenth | Fifteenth_and_eom

definition semimonthly_anchors :: "string \<Rightarrow> pattern \<Rightarrow> (string \<times> string) res" where
  "semimonthly_anchors month p =
     (case p of First_and_fifteenth \<Rightarrow> Inr (month @ ''-01'', month @ ''-15'')
      | Fifteenth_and_eom \<Rightarrow> ebind (monthEnd month) (\<lambda>e. Inr (month @ ''-15'', e)))"

definition nearestSemimonthlyAnchor :: "string \<Rightarrow> pattern \<Rightarrow> (string \<times> int) res" where
  "nearestSemimonthlyAnchor date p =
     ebind (semimonthly_anchors (monthKeyOf date) p) (\<lambda>(a, b).
     ebind (daysBetween a date) (\<lambda>da.
     ebind (daysBetween b date) (\<lambda>db.
       Inr (if \<bar>db\<bar> < \<bar>da\<bar> then (b, \<bar>db\<bar>) else (a, \<bar>da\<bar>)))))"

definition scoreSemimonthlyPattern :: "string list \<Rightarrow> pattern \<Rightarrow> rat res" where
  "scoreSemimonthlyPattern dates p =
     efold (\<lambda>score date. ebind (nearestSemimonthlyAnchor date p) (\<lambda>(_, distance).
       Inr (if distance \<le> 2 then score + 1 else if distance \<le> 4 then score + 1 / 2 else score))) 0 dates"

datatype semimonthly = Pattern_uncertain "string list" | Pattern_found pattern

definition inferSemimonthlyPattern :: "string list \<Rightarrow> semimonthly res" where
  "inferSemimonthlyPattern dates =
     ebind (scoreSemimonthlyPattern dates First_and_fifteenth) (\<lambda>firstScore.
     ebind (scoreSemimonthlyPattern dates Fifteenth_and_eom) (\<lambda>eomScore. Inr
       (if max firstScore eomScore < max 2 (js_val (js_mul (Fin (of_nat (length dates))) (round64 (6 / 10))))
        then Pattern_uncertain [''semimonthly-history-mismatch'']
        else if \<bar>firstScore - eomScore\<bar> \<le> 1 / 2 \<and> 3 \<le> length dates
        then Pattern_uncertain [''ambiguous-semimonthly-pattern'']
        else Pattern_found (if eomScore < firstScore then First_and_fifteenth else Fifteenth_and_eom))))"

section \<open>Anchors of the month\<close>

definition dayClusterConsistent :: "string list \<Rightarrow> int \<Rightarrow> bool res" where
  "dayClusterConsistent dates monthDay =
     (if monthDay = 31
      then every (\<lambda>d. ebind (isLastDayOfMonth d) (\<lambda>e. Inr (e \<or> 28 \<le> dayOfMonth d))) dates
      else let days = map dayOfMonth dates in Inr (Max (set days) - Min (set days) \<le> 2))"

fun gapsBetween :: "string list \<Rightarrow> int list res" where
  "gapsBetween (a # b # rest) =
     ebind (daysBetween a b) (\<lambda>g. ebind (gapsBetween (b # rest)) (\<lambda>gs. Inr (g # gs)))"
| "gapsBetween _ = Inr []"

definition gapMatchesCadence :: "string list \<Rightarrow> cadence \<Rightarrow> bool res" where
  "gapMatchesCadence dates c =
     ebind (gapsBetween dates) (\<lambda>gaps. Inr
       (if gaps = [] then c = Monthly
        else case c of
          Weekly \<Rightarrow> list_all (\<lambda>gap. \<bar>gap - 7\<bar> \<le> 1) gaps
        | Biweekly \<Rightarrow> list_all (\<lambda>gap. \<bar>gap - 14\<bar> \<le> 1) gaps
        | _ \<Rightarrow> True))"

fun history_matches :: "int \<Rightarrow> int \<Rightarrow> string list \<Rightarrow> bool res" where
  "history_matches steps monthDay (cursor # date # rest) =
     ebind (addCalendarMonths cursor steps monthDay) (\<lambda>expected.
     ebind (daysBetween expected date) (\<lambda>g.
       if 4 < \<bar>g\<bar> then Inr False else history_matches steps monthDay (date # rest)))"
| "history_matches steps monthDay _ = Inr True"

definition calendarHistoryMatches :: "string list \<Rightarrow> cadence \<Rightarrow> int \<Rightarrow> bool res" where
  "calendarHistoryMatches dates c monthDay =
     history_matches (case month_steps c of None \<Rightarrow> 1 | Some n \<Rightarrow> n) monthDay dates"

text \<open>The first loop of \<open>inferMonthlyDayAnchor\<close>.\<close>

fun find_anchor :: "string list \<Rightarrow> cadence \<Rightarrow> int list \<Rightarrow> int option res" where
  "find_anchor dates c [] = Inr None"
| "find_anchor dates c (candidate # rest) =
     ebind (calendarHistoryMatches dates c candidate) (\<lambda>ok.
       if \<not> ok then find_anchor dates c rest
       else if length dates < 3 then Inr (Some candidate)
       else ebind (dayClusterConsistent dates candidate) (\<lambda>close.
         if close then Inr (Some candidate) else find_anchor dates c rest))"

definition average_anchor :: "string list \<Rightarrow> cadence \<Rightarrow> int option res" where
  "average_anchor dates c =
     (let days = map dayOfMonth dates;
          average = js_to_int (js_round (js_div (js_of_int (sum_list days)) (Fin (of_nat (length days)))))
      in if 2 < Max (set days) - Min (set days) then Inr None
         else ebind (calendarHistoryMatches dates c average) (\<lambda>ok.
           if \<not> ok then Inr None
           else ebind (dayClusterConsistent dates average) (\<lambda>close. Inr (if close then Some average else None))))"

definition inferMonthlyDayAnchor :: "string list \<Rightarrow> cadence \<Rightarrow> int option res" where
  "inferMonthlyDayAnchor dates c =
     (if dates = [] then Inr None
      else ebind (every isLastDayOfMonth dates) (\<lambda>allLast.
        if allLast then Inr (Some 31)
        else ebind (find_anchor dates c (rev (sort (remdups (map dayOfMonth dates))))) (\<lambda>found.
          case found of Some d \<Rightarrow> Inr (Some d) | None \<Rightarrow> average_anchor dates c)))"

section \<open>Schedules\<close>

record schedule =
  sc_cadence :: "cadence option"
  sc_anchorDate :: "string option"
  sc_uncertain :: bool
  sc_reasons :: "string list"
  sc_monthDay :: "int option"
  sc_semimonthlyPattern :: "pattern option"

definition uncertain_for :: "string list \<Rightarrow> schedule \<Rightarrow> schedule" where
  "uncertain_for reasons s = s\<lparr>sc_uncertain := True, sc_reasons := sc_reasons s @ reasons\<rparr>"

definition inferRecurrenceSchedule :: "string list \<Rightarrow> cadence option \<Rightarrow> bool \<Rightarrow> schedule res" where
  "inferRecurrenceSchedule dates cad forced =
     (let sorted = sort (remdups dates);
          anchor = (if sorted = [] then None else text_or_none (Some (last sorted)));
          base = \<lparr>sc_cadence = cad, sc_anchorDate = anchor, sc_uncertain = False, sc_reasons = [],
            sc_monthDay = None, sc_semimonthlyPattern = None\<rparr>
      in case cad of
        None \<Rightarrow> Inr (uncertain_for [''missing-cadence-or-dates''] base)
      | Some c \<Rightarrow>
        if sorted = [] then Inr (uncertain_for [''missing-cadence-or-dates''] base)
        else if c = Weekly \<or> c = Biweekly
        then ebind (gapMatchesCadence sorted c) (\<lambda>ok.
          Inr (if ok then base else uncertain_for [''inconsistent-interval-gaps''] base))
        else if c = Semimonthly
        then ebind (inferSemimonthlyPattern sorted) (\<lambda>r. Inr (case r of
            Pattern_uncertain reasons \<Rightarrow> uncertain_for reasons base
          | Pattern_found p \<Rightarrow> base\<lparr>sc_semimonthlyPattern := Some p\<rparr>))
        else if month_steps c \<noteq> None
        then ebind (inferMonthlyDayAnchor sorted c) (\<lambda>found.
          case (case found of Some d \<Rightarrow> Some d
                | None \<Rightarrow> if forced then Some (dayOfMonth (last sorted)) else None) of
            None \<Rightarrow> Inr (uncertain_for [''ambiguous-monthly-anchor''] base)
          | Some d \<Rightarrow>
              ebind (calendarHistoryMatches sorted c d) (\<lambda>ok.
                let s = base\<lparr>sc_monthDay := Some d\<rparr> in
                Inr (if ok then s else uncertain_for [''monthly-history-mismatch''] s)))
        else Inr (uncertain_for [''unsupported-cadence''] base))"

definition stepBackwardSemimonthly :: "string \<Rightarrow> pattern \<Rightarrow> string res" where
  "stepBackwardSemimonthly date p =
     (let day = dayOfMonth date; month = monthKeyOf date in
      case p of
        First_and_fifteenth \<Rightarrow>
          if 15 < day then Inr (month @ ''-15'')
          else if day = 15 then Inr (month @ ''-01'')
          else ebind (addMonths date (- 1)) (\<lambda>m. Inr (take 7 m @ ''-15''))
      | Fifteenth_and_eom \<Rightarrow>
          ebind (isLastDayOfMonth date) (\<lambda>e.
            if e then Inr (month @ ''-15'')
            else if 15 < day then Inr (month @ ''-15'')
            else ebind (addMonths date (- 1)) (\<lambda>m. monthEnd (take 7 m))))"

definition advanceSemimonthly :: "string \<Rightarrow> pattern \<Rightarrow> string res" where
  "advanceSemimonthly date p =
     (let day = dayOfMonth date; month = monthKeyOf date in
      if day < 15 then Inr (month @ ''-15'')
      else case p of
        First_and_fifteenth \<Rightarrow> ebind (addMonths date 1) (\<lambda>m. Inr (take 7 m @ ''-01''))
      | Fifteenth_and_eom \<Rightarrow>
          if day = 15 then monthEnd month
          else ebind (addMonths date 1) (\<lambda>m. Inr (take 7 m @ ''-15'')))"

text \<open>The last occurrence of the schedule moved by one step of its cadence, in either direction.\<close>

definition step_with ::
  "int \<Rightarrow> (string \<Rightarrow> pattern \<Rightarrow> string res) \<Rightarrow> string \<Rightarrow> schedule \<Rightarrow> string option res" where
  "step_with dir semi date s =
     (if date = [] \<or> sc_uncertain s then Inr None
      else case sc_cadence s of
        None \<Rightarrow> Inr None
      | Some c \<Rightarrow>
        if c = Weekly then ebind (addDays date (dir * 7)) (\<lambda>d. Inr (Some d))
        else if c = Biweekly then ebind (addDays date (dir * 14)) (\<lambda>d. Inr (Some d))
        else if c = Semimonthly
        then ebind (semi date (case sc_semimonthlyPattern s of None \<Rightarrow> Fifteenth_and_eom | Some p \<Rightarrow> p)) (\<lambda>d. Inr (Some d))
        else case month_steps c of
          None \<Rightarrow> Inr None
        | Some steps \<Rightarrow>
            ebind (addCalendarMonths date (dir * steps)
              (case sc_monthDay s of None \<Rightarrow> dayOfMonth date | Some d \<Rightarrow> d)) (\<lambda>d. Inr (Some d)))"

definition stepBackward :: "string \<Rightarrow> schedule \<Rightarrow> string option res" where
  "stepBackward = step_with (- 1) stepBackwardSemimonthly"

definition advanceOnce :: "string \<Rightarrow> schedule \<Rightarrow> string option res" where
  "advanceOnce = step_with 1 advanceSemimonthly"

section \<open>Occurrences\<close>

fun next_after :: "nat \<Rightarrow> string \<Rightarrow> schedule \<Rightarrow> string \<Rightarrow> string option res" where
  "next_after 0 date s cursor = Inr None"
| "next_after (Suc fuel) date s cursor =
     ebind (advanceOnce cursor s) (\<lambda>n. case n of
       None \<Rightarrow> Inr None
     | Some d \<Rightarrow> if d = [] \<or> d = cursor then Inr None else if date < d then Inr (Some d)
         else next_after fuel date s d)"

definition nextOccurrenceAfter :: "string \<Rightarrow> schedule \<Rightarrow> string option res" where
  "nextOccurrenceAfter date s =
     (if sc_uncertain s then Inr None
      else case text_or_none (sc_anchorDate s) of
        None \<Rightarrow> Inr None
      | Some anchor \<Rightarrow> if date < anchor then Inr (Some anchor) else next_after 256 date s anchor)"

text \<open>Backwards while the step stays on or after the target; the rest of the guard is returned.\<close>

fun roll_back :: "nat \<Rightarrow> string \<Rightarrow> schedule \<Rightarrow> string \<Rightarrow> (string \<times> nat) res" where
  "roll_back 0 target s due = Inr (due, 0)"
| "roll_back (Suc fuel) target s due =
     ebind (stepBackward due s) (\<lambda>n. case n of
       None \<Rightarrow> Inr (due, Suc fuel)
     | Some prev \<Rightarrow> if prev = [] \<or> prev < target then Inr (due, Suc fuel) else roll_back fuel target s prev)"

fun roll_forward :: "nat \<Rightarrow> string \<Rightarrow> schedule \<Rightarrow> string \<Rightarrow> string option res" where
  "roll_forward fuel target s due =
     (if \<not> due < target then Inr (Some due)
      else case fuel of
        0 \<Rightarrow> Inr (Some due)
      | Suc fuel' \<Rightarrow> ebind (advanceOnce due s) (\<lambda>n. case n of
          None \<Rightarrow> Inr None
        | Some d \<Rightarrow> if d = [] \<or> d = due then Inr None else roll_forward fuel' target s d))"

definition rollToOnOrAfter :: "string \<Rightarrow> schedule \<Rightarrow> string option res" where
  "rollToOnOrAfter target s =
     (if sc_uncertain s then Inr None
      else case text_or_none (sc_anchorDate s) of
        None \<Rightarrow> Inr None
      | Some anchor \<Rightarrow>
          ebind (roll_back 256 target s anchor) (\<lambda>(due, fuel). roll_forward fuel target s due))"

text \<open>The cursor and the date before it.\<close>

fun previous_before :: "nat \<Rightarrow> string \<Rightarrow> schedule \<Rightarrow> string \<Rightarrow> string option \<Rightarrow> string option res" where
  "previous_before 0 date s cursor prev = Inr prev"
| "previous_before (Suc fuel) date s cursor prev =
     (if cursor = [] \<or> \<not> cursor < date then Inr prev
      else ebind (advanceOnce cursor s) (\<lambda>n. case n of
        None \<Rightarrow> Inr prev
      | Some d \<Rightarrow> if d = [] \<or> date \<le> d then Inr prev else previous_before fuel date s d (Some cursor)))"

definition previousOccurrenceBefore :: "string \<Rightarrow> schedule \<Rightarrow> string option res" where
  "previousOccurrenceBefore date s =
     (if sc_uncertain s then Inr None
      else case text_or_none (sc_anchorDate s) of
        None \<Rightarrow> Inr None
      | Some anchor \<Rightarrow>
          ebind (previous_before 256 date s anchor None) (\<lambda>prev.
            Inr (if anchor < date then Some (text_or prev anchor) else prev)))"

fun project_from :: "nat \<Rightarrow> string \<Rightarrow> string \<Rightarrow> nat \<Rightarrow> schedule \<Rightarrow> string option \<Rightarrow> string list \<Rightarrow> string list res" where
  "project_from fuel lo hi maxCount s None out = Inr out"
| "project_from fuel lo hi maxCount s (Some due) out =
     (if due = [] \<or> \<not> due \<le> hi \<or> maxCount \<le> length out then Inr out
      else case fuel of
        0 \<Rightarrow> Inr out
      | Suc fuel' \<Rightarrow>
          let out' = (if lo \<le> due \<and> due \<notin> set out then out @ [due] else out) in
          ebind (advanceOnce due s) (\<lambda>n. case n of
            None \<Rightarrow> Inr out'
          | Some d \<Rightarrow> if d = [] \<or> d = due then Inr out' else project_from fuel' lo hi maxCount s (Some d) out'))"

definition projectOccurrences :: "schedule \<Rightarrow> string \<Rightarrow> string \<Rightarrow> nat \<Rightarrow> string list res" where
  "projectOccurrences s windowStart windowEnd maxCount =
     (if sc_uncertain s \<or> windowStart = [] \<or> windowEnd = [] then Inr []
      else ebind (rollToOnOrAfter windowStart s) (\<lambda>due.
        project_from (maxCount * 4) windowStart windowEnd maxCount s due []))"

definition paidMatchWindow :: "string \<Rightarrow> schedule \<Rightarrow> (string \<times> string) res" where
  "paidMatchWindow dueDate s =
     ebind (previousOccurrenceBefore dueDate s) (\<lambda>prev.
     ebind (case text_or_none prev of
         Some p \<Rightarrow> addDays p 1
       | None \<Rightarrow> addDays dueDate (- js_to_int (js_round (js_mul (days_or_month (sc_cadence s)) (round64 (45 / 100))))))
       (\<lambda>lo. ebind (addDays dueDate 7) (\<lambda>hi. Inr (lo, hi))))"

definition renewalWindow :: "string option \<Rightarrow> (string \<times> string) option res" where
  "renewalWindow nextDate =
     (case text_or_none nextDate of
        None \<Rightarrow> Inr None
      | Some d \<Rightarrow> ebind (addDays d (- 3)) (\<lambda>a. ebind (addDays d 3) (\<lambda>b. Inr (Some (a, b)))))"

definition projectionConfidencePenalty :: "schedule \<Rightarrow> nat" where
  "projectionConfidencePenalty s = (if sc_uncertain s then 25 + min 20 (length (sc_reasons s) * 5) else 0)"

end
