(* ===== verification/RecurrenceDates.thy ===== *)
theory RecurrenceDates
  imports Recurrence
begin

text \<open>
  The dates a schedule produces: a step of the calendar from a real date reaches a real date, strictly
  later or earlier, and what \<open>projectOccurrences\<close> returns is an ascending list inside its window.
  Years are kept between 1000 and 9990, where texts of dates compare as the days do.
\<close>

section \<open>Dates as texts\<close>

definition iso :: "int \<Rightarrow> int \<Rightarrow> int \<Rightarrow> string" where
  "iso y m d = dec_int y @ ''-'' @ pad2 m @ ''-'' @ pad2 d"

lemma parse_iso:
  assumes "valid_civil y (m - 1) d" "1000 \<le> y" "y \<le> 9999"
  shows "parseYMD (iso y m d) = Inr \<lparr>ymd_year = y, ymd_month = m, ymd_day = d, ymd_date = make_day y (m - 1) d\<rparr>"
proof -
  have c: "civil_of_day (make_day y (m - 1) d) = (y, m - 1, d)" by (rule civil_make_day [OF assms(1)])
  then have "formatUTCDate (make_day y (m - 1) d) = iso y m d" by (simp add: formatUTCDate_def iso_def)
  then show ?thesis using parse_formatted [OF c assms(2,3)] by simp
qed

lemma parsed_iso:
  assumes "parseYMD s = Inr p" "1000 \<le> ymd_year p"
  shows "s = iso (ymd_year p) (ymd_month p) (ymd_day p)" "valid_civil (ymd_year p) (ymd_month p - 1) (ymd_day p)"
    "ymd_year p \<le> 9999" "ymd_date p = make_day (ymd_year p) (ymd_month p - 1) (ymd_day p)" "s \<noteq> []"
proof -
  note P = parseYMD_Inr [OF assms(1)]
  show "s = iso (ymd_year p) (ymd_month p) (ymd_day p)"
    using format_parse [OF assms] by (simp add: formatUTCDate_def P(11) iso_def)
  show "valid_civil (ymd_year p) (ymd_month p - 1) (ymd_day p)" by (rule parse_date(2) [OF assms(1)])
  show "ymd_year p \<le> 9999" using P(7) dec_val_less [OF P(4)] P(1) by simp
  show "ymd_date p = make_day (ymd_year p) (ymd_month p - 1) (ymd_day p)" using parse_date(1) [OF assms(1)] by simp
  show "s \<noteq> []" using P(1) by auto
qed

lemma iso_parts:
  assumes "1000 \<le> y" "y \<le> 9999" "1 \<le> m" "m \<le> 12" "1 \<le> d" "d \<le> 31"
  shows "take 7 (iso y m d) = dec_int y @ ''-'' @ pad2 m" "dayOfMonth (iso y m d) = d"
    "parse_month (take 7 (iso y m d)) = Inr (y, m)"
proof -
  note Y = year4_digits [OF assms(1,2)]
  have M: "length (pad2 m) = 2" "list_all is_digit (pad2 m)" "int (dec_val (pad2 m)) = m"
    and D: "length (pad2 d) = 2" "int (dec_val (pad2 d)) = d"
    using pad2_digits [of m] pad2_digits [of d] assms by auto
  show t: "take 7 (iso y m d) = dec_int y @ ''-'' @ pad2 m" using Y M by (simp add: iso_def)
  show "dayOfMonth (iso y m d) = d" using Y M D by (simp add: iso_def dayOfMonth_def)
  have "(dec_int y @ ''-'' @ pad2 m) ! 4 = CHR ''-''" using Y(1) by (simp add: nth_append)
  then show "parse_month (take 7 (iso y m d)) = Inr (y, m)"
    unfolding t parse_month_def using Y M by simp
qed

section \<open>One step\<close>

text \<open>A text that is a date on the given side of a day, in a year from 1000 on.\<close>

definition real_date :: "string \<Rightarrow> bool" where
  "real_date t \<longleftrightarrow> (\<exists>q. parseYMD t = Inr q \<and> 1000 \<le> ymd_year q)"

definition day_of :: "string \<Rightarrow> int" where
  "day_of t = (case parseYMD t of Inl _ \<Rightarrow> 0 | Inr q \<Rightarrow> ymd_date q)"

definition year_of :: "string \<Rightarrow> int" where
  "year_of t = (case parseYMD t of Inl _ \<Rightarrow> 0 | Inr q \<Rightarrow> ymd_year q)"

lemma real_date_iso:
  assumes "valid_civil y (m - 1) d" "1000 \<le> y" "y \<le> 9999"
  shows "real_date (iso y m d)" "day_of (iso y m d) = make_day y (m - 1) d" "year_of (iso y m d) = y"
  using parse_iso [OF assms] assms(2) by (simp_all add: real_date_def day_of_def year_of_def)

lemma real_dateE:
  assumes "real_date s"
  obtains p where "parseYMD s = Inr p" "1000 \<le> ymd_year p" "day_of s = ymd_date p" "year_of s = ymd_year p"
  using assms by (auto simp: real_date_def day_of_def year_of_def)

lemma real_date_order: "real_date s \<Longrightarrow> real_date t \<Longrightarrow> s < t \<longleftrightarrow> day_of s < day_of t"
  by (auto elim!: real_dateE simp: date_string_order)

text \<open>A later day has no earlier year, and is far from the ends of the four-digit years.\<close>

lemma year_mono:
  assumes "valid_civil y m d" "valid_civil y' m' d'" "make_day y m d \<le> make_day y' m' d'"
  shows "y \<le> y'"
  using civil_order [OF assms(2,1)] assms(3) by linarith

lemma year_of_mono:
  assumes "real_date s" "real_date t" "day_of s \<le> day_of t"
  shows "year_of s \<le> year_of t"
proof -
  obtain p where p: "parseYMD s = Inr p" "1000 \<le> ymd_year p" "day_of s = ymd_date p" "year_of s = ymd_year p"
    using assms(1) by (rule real_dateE)
  obtain q where q: "parseYMD t = Inr q" "1000 \<le> ymd_year q" "day_of t = ymd_date q" "year_of t = ymd_year q"
    using assms(2) by (rule real_dateE)
  show ?thesis
    using year_mono [OF parsed_iso(2) [OF p(1,2)] parsed_iso(2) [OF q(1,2)]] parsed_iso(4) [OF p(1,2)]
      parsed_iso(4) [OF q(1,2)] assms(3) p q by simp
qed

lemma real_date_of_day:
  assumes "make_day 1000 0 1 \<le> n" "n \<le> make_day 9999 11 31"
  shows "real_date (formatUTCDate n)" "day_of (formatUTCDate n) = n"
proof -
  obtain y m d where c: "civil_of_day n = (y, m, d)" by (cases "civil_of_day n")
  have v: "valid_civil y m d" "make_day y m d = n" using make_day_civil [OF c] by auto
  have ends: "valid_civil 1000 0 1" "valid_civil 9999 11 31" by code_simp+
  have "1000 \<le> y" by (rule year_mono [OF ends(1) v(1)]) (use assms v in simp)
  moreover have "y \<le> 9999" by (rule year_mono [OF v(1) ends(2)]) (use assms v in simp)
  ultimately show "real_date (formatUTCDate n)" "day_of (formatUTCDate n) = n"
    using parse_formatted [OF c] by (simp_all add: real_date_def day_of_def)
qed

text \<open>The day of a real date, bounded by its year.\<close>

lemma day_bounds:
  assumes "real_date s" "a \<le> year_of s" "year_of s \<le> b"
  shows "make_day a 0 1 \<le> day_of s" "day_of s < make_day (b + 1) 0 1"
proof -
  obtain p where p: "parseYMD s = Inr p" "1000 \<le> ymd_year p" "day_of s = ymd_date p" "year_of s = ymd_year p"
    using assms(1) by (rule real_dateE)
  note v = parsed_iso(2,4) [OF p(1,2)]
  have first: "valid_civil y 0 1" for y using month_len_bounds [of 0 y] by (simp add: valid_civil_def)
  show "day_of s < make_day (b + 1) 0 1"
    using civil_order [OF v(1) first [of "b + 1"]] assms(3) p v(2) by auto
  have "\<not> make_day (ymd_year p) (ymd_month p - 1) (ymd_day p) < make_day a 0 1"
    using civil_order [OF v(1) first [of a]] v(1) assms(2) p by (auto simp: valid_civil_def)
  then show "make_day a 0 1 \<le> day_of s" using p v(2) by simp
qed

lemma day_numbers:
  "make_day 1000 0 1 = - 354285" "make_day 1001 0 1 = - 353920" "make_day 9991 0 1 = 2929610"
  "make_day 9999 11 31 = 2932896" "make_day 10000 0 1 = 2932897"
  by code_simp+

text \<open>The dates the step lemmas start from.\<close>

definition modern :: "string \<Rightarrow> bool" where
  "modern s \<longleftrightarrow> real_date s \<and> 1001 \<le> year_of s \<and> year_of s \<le> 9990"

definition reaches :: "int \<Rightarrow> string \<Rightarrow> string \<Rightarrow> bool" where
  "reaches dir s t \<longleftrightarrow> real_date t \<and> (0 < dir \<longrightarrow> day_of s < day_of t) \<and> (dir < 0 \<longrightarrow> day_of t < day_of s)"

lemma addDays_reaches:
  assumes "modern s" "\<bar>k\<bar> \<le> 14"
  shows "\<exists>t. addDays s k = Inr t \<and> reaches k s t \<and> day_of t = day_of s + k"
proof -
  obtain p where p: "parseYMD s = Inr p" "day_of s = ymd_date p"
    using assms(1) unfolding modern_def by (auto elim: real_dateE)
  have "make_day 1000 0 1 \<le> day_of s + k" "day_of s + k \<le> make_day 9999 11 31"
    using day_bounds [of s 1001 9990] assms by (simp_all add: day_numbers modern_def)
  from real_date_of_day [OF this] show ?thesis by (auto simp: addDays_def p reaches_def)
qed

lemma modern_parsed:
  assumes "modern s"
  obtains p where "parseYMD s = Inr p" "1001 \<le> ymd_year p" "ymd_year p \<le> 9990" "1 \<le> ymd_month p" "ymd_month p \<le> 12"
    "1 \<le> ymd_day p" "ymd_day p \<le> month_len (ymd_year p) (ymd_month p - 1)" "ymd_day p \<le> 31"
    "s = iso (ymd_year p) (ymd_month p) (ymd_day p)" "day_of s = make_day (ymd_year p) (ymd_month p - 1) (ymd_day p)"
proof -
  obtain p where p: "parseYMD s = Inr p" "1000 \<le> ymd_year p" "day_of s = ymd_date p" "year_of s = ymd_year p"
    using assms unfolding modern_def by (blast elim: real_dateE)
  note v = parsed_iso [OF p(1,2)]
  have "month_len (ymd_year p) (ymd_month p - 1) \<le> 31"
    using v(2) month_len_bounds [of "ymd_month p - 1" "ymd_year p"] by (simp add: valid_civil_def)
  then show thesis using that [OF p(1)] v assms p by (auto simp: modern_def valid_civil_def)
qed

lemma reaches_iso:
  assumes "modern s" "parseYMD s = Inr p" "valid_civil y (m - 1) d" "1000 \<le> y" "y \<le> 9999"
    and "0 < dir \<Longrightarrow> ymd_year p < y \<or> ymd_year p = y \<and> (ymd_month p < m \<or> ymd_month p = m \<and> ymd_day p < d)"
    and "dir < 0 \<Longrightarrow> y < ymd_year p \<or> y = ymd_year p \<and> (m < ymd_month p \<or> m = ymd_month p \<and> d < ymd_day p)"
  shows "reaches dir s (iso y m d)"
proof -
  obtain q where q: "parseYMD s = Inr q" "day_of s = make_day (ymd_year q) (ymd_month q - 1) (ymd_day q)"
    "valid_civil (ymd_year q) (ymd_month q - 1) (ymd_day q)"
    using assms(1) by (rule modern_parsed) (auto simp: valid_civil_def)
  have "q = p" using q(1) assms(2) by simp
  then show ?thesis
    using q assms(6,7) civil_order [OF q(3) assms(3)] civil_order [OF assms(3) q(3)]
    by (auto simp: reaches_def real_date_iso [OF assms(3-5)])
qed

lemma month_target:
  assumes "1000 \<le> y" "1000 \<le> year" "k = 12 * (y - year) + m" "0 \<le> m" "m \<le> 11"
  shows "civil_of_day (date_utc year k 1) = (y, m, 1)"
proof -
  have "k div 12 = y - year" "k mod 12 = m" unfolding assms(3) using assms(4,5) by (simp_all only: div_mult_self4 mod_mult_self4) simp_all
  then have "date_utc year k 1 = make_day y m 1"
    using assms(2,4,5) by (simp add: date_utc_make_day make_day_def)
  then show ?thesis using month_len_bounds [of m y] assms(4,5) by (simp add: civil_make_day valid_civil_def)
qed

lemma addCalendarMonths_iso:
  assumes "parseYMD s = Inr p" "ymd_month p - 1 + n = 12 * (y - ymd_year p) + m" "0 \<le> m" "m \<le> 11" "1000 \<le> y"
    "1000 \<le> ymd_year p"
  shows "addCalendarMonths s n a = Inr (iso y (m + 1) (if a = 31 then month_len y m else min a (month_len y m)))"
  using month_target [OF assms(5,6,2,3,4)] assms(1) last_day_of [OF assms(3-5)]
  by (simp add: addCalendarMonths_def iso_def Let_def)

lemma addCalendarMonths_reaches:
  assumes "modern s" "\<bar>n\<bar> \<le> 12" "1 \<le> a"
  shows "\<exists>t. addCalendarMonths s n a = Inr t \<and> reaches n s t"
proof -
  obtain p where p: "parseYMD s = Inr p" "1001 \<le> ymd_year p" "ymd_year p \<le> 9990" "1 \<le> ymd_month p" "ymd_month p \<le> 12"
    using assms(1) by (rule modern_parsed)
  define k where "k = ymd_month p - 1 + n"
  define y where "y = ymd_year p + k div 12"
  define m where "m = k mod 12"
  have m: "0 \<le> m" "m \<le> 11" by (auto simp: m_def)
  have e: "k = 12 * (y - ymd_year p) + m" by (simp add: y_def m_def)
  have k: "- 12 \<le> k" "k \<le> 23" using p assms(2) unfolding k_def by linarith+
  have "- 1 \<le> k div 12" "k div 12 \<le> 1" using zdiv_mono1 [OF k(1), of 12] zdiv_mono1 [OF k(2), of 12] by simp_all
  then have y: "1000 \<le> y" "y \<le> 9999" using p unfolding y_def by linarith+
  define d where "d = (if a = 31 then month_len y m else min a (month_len y m))"
  have len: "28 \<le> month_len y m" using month_len_bounds [OF m] by blast
  have "addCalendarMonths s n a = Inr (iso y (m + 1) d)"
    unfolding d_def by (rule addCalendarMonths_iso [OF p(1) e [unfolded k_def] m y(1)]) (use p in simp)
  moreover have "reaches n s (iso y (m + 1) d)"
  proof (rule reaches_iso [OF assms(1) p(1) _ y])
    show "valid_civil y (m + 1 - 1) d" using m len assms(3) by (auto simp: valid_civil_def d_def)
    show "ymd_year p < y \<or> ymd_year p = y \<and> (ymd_month p < m + 1 \<or> ymd_month p = m + 1 \<and> ymd_day p < d)" if "0 < n"
      using that e m p unfolding k_def by (cases "ymd_year p" y rule: linorder_cases) auto
    show "y < ymd_year p \<or> y = ymd_year p \<and> (m + 1 < ymd_month p \<or> m + 1 = ymd_month p \<and> d < ymd_day p)" if "n < 0"
      using that e m p unfolding k_def by (cases "ymd_year p" y rule: linorder_cases) auto
  qed
  ultimately show ?thesis by blast
qed

lemma addMonths_month:
  assumes "modern s" "parseYMD s = Inr p" "ymd_month p - 1 + k = 12 * (y - ymd_year p) + m" "0 \<le> m" "m \<le> 11"
    "1000 \<le> y" "y \<le> 9999"
  shows "\<exists>t. addMonths s k = Inr t \<and> take 7 t = dec_int y @ ''-'' @ pad2 (m + 1) \<and> parse_month (take 7 t) = Inr (y, m + 1)"
proof -
  obtain t where t: "addMonths s k = Inr t" "parseYMD t = Inr \<lparr>ymd_year = y, ymd_month = m + 1,
      ymd_day = min (ymd_day p) (month_len y m), ymd_date = make_day y m (min (ymd_day p) (month_len y m))\<rparr>"
    using addMonths_clamps [OF assms(2-7)] by blast
  have "1 \<le> ymd_day p" using parse_date(2) [OF assms(2)] by (simp add: valid_civil_def)
  then have d: "1 \<le> min (ymd_day p) (month_len y m)" "min (ymd_day p) (month_len y m) \<le> 31"
    using month_len_bounds [OF assms(4,5), of y] by auto
  have "t = iso y (m + 1) (min (ymd_day p) (month_len y m))" using parsed_iso(1) [OF t(2)] assms(6) by simp
  then show ?thesis using t(1) iso_parts(1,3) [OF assms(6,7) _ _ d, of "m + 1"] assms(4,5) by simp
qed

lemma pad2_small: "pad2 1 = ''01''" "pad2 15 = ''15''"
  by code_simp+

text \<open>What both semimonthly steps use: days of the same month, and of the month before or after.\<close>

lemma semimonthly_facts:
  assumes "modern s" "dir = 1 \<or> dir = - 1"
  obtains p y' m' t where "parseYMD s = Inr p" "dayOfMonth s = ymd_day p"
    "1 \<le> ymd_day p" "ymd_day p \<le> month_len (ymd_year p) (ymd_month p - 1)"
    "28 \<le> month_len (ymd_year p) (ymd_month p - 1)" "28 \<le> month_len y' m'"
    "monthKeyOf s @ ''-15'' = iso (ymd_year p) (ymd_month p) 15" "monthKeyOf s @ ''-01'' = iso (ymd_year p) (ymd_month p) 1"
    "monthEnd (monthKeyOf s) = Inr (iso (ymd_year p) (ymd_month p) (month_len (ymd_year p) (ymd_month p - 1)))"
    "s = iso (ymd_year p) (ymd_month p) (month_len (ymd_year p) (ymd_month p - 1)) \<longleftrightarrow>
       ymd_day p = month_len (ymd_year p) (ymd_month p - 1)"
    "addMonths s dir = Inr t" "take 7 t @ ''-15'' = iso y' (m' + 1) 15" "take 7 t @ ''-01'' = iso y' (m' + 1) 1"
    "monthEnd (take 7 t) = Inr (iso y' (m' + 1) (month_len y' m'))"
    "\<And>d. 1 \<le> d \<Longrightarrow> d \<le> month_len y' m' \<Longrightarrow> reaches dir s (iso y' (m' + 1) d)"
    "\<And>d. 1 \<le> d \<Longrightarrow> d \<le> month_len (ymd_year p) (ymd_month p - 1) \<Longrightarrow> (0 < dir \<Longrightarrow> ymd_day p < d) \<Longrightarrow>
       (dir < 0 \<Longrightarrow> d < ymd_day p) \<Longrightarrow> reaches dir s (iso (ymd_year p) (ymd_month p) d)"
proof -
  obtain p where p: "parseYMD s = Inr p" "1001 \<le> ymd_year p" "ymd_year p \<le> 9990" "1 \<le> ymd_month p" "ymd_month p \<le> 12"
    "1 \<le> ymd_day p" "ymd_day p \<le> month_len (ymd_year p) (ymd_month p - 1)" "ymd_day p \<le> 31"
    "s = iso (ymd_year p) (ymd_month p) (ymd_day p)" using assms(1) by (rule modern_parsed)
  have y: "1000 \<le> ymd_year p" "ymd_year p \<le> 9999" using p by simp_all
  note parts = iso_parts [OF y p(4,5,6,8), folded p(9)]
  let ?m = "ymd_month p - 1"
  have len: "28 \<le> month_len (ymd_year p) ?m" using month_len_bounds [of ?m "ymd_year p"] p by simp
  obtain y' m' where nx: "ymd_month p - 1 + dir = 12 * (y' - ymd_year p) + m'" "0 \<le> m'" "m' \<le> 11" "1000 \<le> y'" "y' \<le> 9999"
  proof (cases "dir = 1 \<and> ymd_month p = 12 \<or> dir = - 1 \<and> ymd_month p = 1")
    case True
    then show thesis using p by (intro that [of "ymd_year p + dir" "if dir = 1 then 0 else 11"]) auto
  next
    case False
    then show thesis using p assms(2) by (intro that [of "ymd_year p" "ymd_month p - 1 + dir"]) auto
  qed
  obtain t where t: "addMonths s dir = Inr t" "take 7 t = dec_int y' @ ''-'' @ pad2 (m' + 1)" "parse_month (take 7 t) = Inr (y', m' + 1)"
    using addMonths_month [OF assms(1) p(1) nx] by blast
  have other: "reaches dir s (iso y' (m' + 1) d)" if "1 \<le> d" "d \<le> month_len y' m'" for d
  proof (rule reaches_iso [OF assms(1) p(1) _ nx(4,5)])
    show "valid_civil y' (m' + 1 - 1) d" using that nx by (simp add: valid_civil_def)
    show "ymd_year p < y' \<or> ymd_year p = y' \<and> (ymd_month p < m' + 1 \<or> ymd_month p = m' + 1 \<and> ymd_day p < d)" if "0 < dir"
      using that nx p by (cases "ymd_year p" y' rule: linorder_cases) auto
    show "y' < ymd_year p \<or> y' = ymd_year p \<and> (m' + 1 < ymd_month p \<or> m' + 1 = ymd_month p \<and> d < ymd_day p)" if "dir < 0"
      using that nx p by (cases "ymd_year p" y' rule: linorder_cases) auto
  qed
  have same: "reaches dir s (iso (ymd_year p) (ymd_month p) d)"
    if "1 \<le> d" "d \<le> month_len (ymd_year p) ?m" "0 < dir \<Longrightarrow> ymd_day p < d" "dir < 0 \<Longrightarrow> d < ymd_day p" for d
    by (rule reaches_iso [OF assms(1) p(1) _ y]) (use that p in \<open>auto simp: valid_civil_def\<close>)
  have eom: "monthEnd (monthKeyOf s) = Inr (iso (ymd_year p) (ymd_month p) (month_len (ymd_year p) ?m))"
    using last_day_of [of ?m "ymd_year p"] p(2-5)
    by (simp add: monthEnd_def monthKeyOf_def parts(1) parts(3) [unfolded parts(1), simplified] last_day_of_def iso_def
        split: prod.splits)
  have last_iff: "s = iso (ymd_year p) (ymd_month p) (month_len (ymd_year p) ?m) \<longleftrightarrow> ymd_day p = month_len (ymd_year p) ?m"
  proof
    have l: "1 \<le> month_len (ymd_year p) ?m" "month_len (ymd_year p) ?m \<le> 31"
      using month_len_bounds [of ?m "ymd_year p"] p(4,5) by simp_all
    assume "s = iso (ymd_year p) (ymd_month p) (month_len (ymd_year p) ?m)"
    then show "ymd_day p = month_len (ymd_year p) ?m" using iso_parts(2) [OF y p(4,5) l] parts(2) by simp
  qed (use p(9) in simp)
  have eom': "monthEnd (take 7 t) = Inr (iso y' (m' + 1) (month_len y' m'))"
    using last_day_of [OF nx(2,3,4)] by (simp add: monthEnd_def t(3) last_day_of_def iso_def split: prod.splits)
  show thesis
    by (rule that [OF p(1) parts(2) p(6,7) len _ _ _ eom last_iff t(1) _ _ eom' other same])
      (use month_len_bounds [OF nx(2,3)] in \<open>simp_all add: monthKeyOf_def parts iso_def t(2) pad2_small\<close>)
qed

lemma advanceSemimonthly_reaches:
  assumes "modern s"
  shows "\<exists>t. advanceSemimonthly s pat = Inr t \<and> reaches 1 s t"
  by (rule semimonthly_facts [OF assms, of 1]; cases pat) (auto simp: advanceSemimonthly_def Let_def)

lemma stepBackwardSemimonthly_reaches:
  assumes "modern s"
  shows "\<exists>t. stepBackwardSemimonthly s pat = Inr t \<and> reaches (- 1) s t"
  by (rule semimonthly_facts [OF assms, of "- 1"]; cases pat) (auto simp: stepBackwardSemimonthly_def isLastDayOfMonth_def Let_def)

definition schedule_ok :: "schedule \<Rightarrow> bool" where
  "schedule_ok s \<longleftrightarrow> (\<forall>d. sc_monthDay s = Some d \<longrightarrow> 1 \<le> d) \<and> (\<forall>a. sc_anchorDate s = Some a \<longrightarrow> modern a)"

lemma month_steps_bound: "month_steps c = Some n \<Longrightarrow> 1 \<le> n \<and> n \<le> 12"
  by (cases c) auto

lemma step_with_reaches:
  assumes "modern d" "schedule_ok s" "dir = 1 \<or> dir = - 1" "\<And>pat. \<exists>t. semi d pat = Inr t \<and> reaches dir d t"
  shows "\<exists>r. step_with dir semi d s = Inr r \<and> (\<forall>t. r = Some t \<longrightarrow> reaches dir d t \<and> t \<noteq> d \<and> t \<noteq> [])"
proof -
  have ne: "reaches dir d t \<Longrightarrow> t \<noteq> d \<and> t \<noteq> []" for t
    using assms(3) by (auto simp: reaches_def real_date_def parseYMD_def)
  have d: "d \<noteq> []" using assms(1) by (auto simp: modern_def real_date_def parseYMD_def)
  have day: "1 \<le> dayOfMonth d" using assms(1)
    by (rule modern_parsed) (simp add: iso_parts(2))
  have week: "\<exists>t. addDays d (dir * k) = Inr t \<and> reaches dir d t" if "k = 7 \<or> k = 14" for k
    using addDays_reaches [OF assms(1), of "dir * k"] assms(3) that by (auto simp: reaches_def)
  have cal: "\<exists>t. addCalendarMonths d (dir * n) (case sc_monthDay s of None \<Rightarrow> dayOfMonth d | Some m \<Rightarrow> m) = Inr t \<and> reaches dir d t"
    if "month_steps c = Some n" for c n
  proof -
    have "1 \<le> (case sc_monthDay s of None \<Rightarrow> dayOfMonth d | Some m \<Rightarrow> m)"
      using assms(2) day by (simp add: schedule_ok_def split: option.split)
    from addCalendarMonths_reaches [OF assms(1) _ this, of "dir * n"] month_steps_bound [OF that] assms(3)
    show ?thesis by (auto simp: reaches_def)
  qed
  have "\<exists>r. step_with dir semi d s = Inr r \<and> (\<forall>t. r = Some t \<longrightarrow> reaches dir d t)"
  proof (cases "sc_uncertain s \<or> sc_cadence s = None")
    case False
    then obtain c where c: "sc_cadence s = Some c" "\<not> sc_uncertain s" by blast
    have some: "\<exists>r. ebind m (\<lambda>d. Inr (Some d)) = Inr r \<and> (\<forall>t. r = Some t \<longrightarrow> reaches dir d t)"
      if "\<exists>t. m = Inr t \<and> reaches dir d t" for m :: "string res" using that by auto
    show ?thesis
      using some [OF week [of 7]] some [OF week [of 14]] some [OF assms(4)] some [OF cal] c d
      by (cases "month_steps c") (simp_all add: step_with_def)
  qed (use d in \<open>auto simp: step_with_def\<close>)
  then show ?thesis using ne by blast
qed

lemma advanceOnce_reaches:
  assumes "modern d" "schedule_ok s"
  shows "\<exists>r. advanceOnce d s = Inr r \<and> (\<forall>t. r = Some t \<longrightarrow> reaches 1 d t \<and> t \<noteq> d \<and> t \<noteq> [])"
  unfolding advanceOnce_def by (rule step_with_reaches [OF assms]) (simp_all add: advanceSemimonthly_reaches assms(1))

lemma stepBackward_reaches:
  assumes "modern d" "schedule_ok s"
  shows "\<exists>r. stepBackward d s = Inr r \<and> (\<forall>t. r = Some t \<longrightarrow> reaches (- 1) d t \<and> t \<noteq> d \<and> t \<noteq> [])"
  unfolding stepBackward_def by (rule step_with_reaches [OF assms]) (simp_all add: stepBackwardSemimonthly_reaches assms(1))

section \<open>The loops\<close>

definition recent :: "string \<Rightarrow> bool" where
  "recent d \<longleftrightarrow> real_date d \<and> 1001 \<le> year_of d"

lemma modern_below: "recent d \<Longrightarrow> modern hi \<Longrightarrow> day_of d \<le> day_of hi \<Longrightarrow> modern d"
  using year_of_mono [of d hi] by (auto simp: recent_def modern_def)

lemma recent_above: "modern lo \<Longrightarrow> real_date d \<Longrightarrow> day_of lo \<le> day_of d \<Longrightarrow> recent d"
  using year_of_mono [of lo d] by (auto simp: recent_def modern_def)

lemma modern_recent: "modern d \<Longrightarrow> recent d" "modern d \<Longrightarrow> real_date d" "recent d \<Longrightarrow> real_date d"
  by (simp_all add: modern_def recent_def)

lemma roll_back_modern:
  assumes "modern target" "schedule_ok s" "modern due"
  shows "\<exists>d f. roll_back fuel target s due = Inr (d, f) \<and> modern d"
  using assms(3)
proof (induction fuel arbitrary: due)
  case (Suc fuel)
  obtain r where r: "stepBackward due s = Inr r" "\<And>t. r = Some t \<Longrightarrow> reaches (- 1) due t \<and> t \<noteq> due \<and> t \<noteq> []"
    using stepBackward_reaches [OF Suc.prems assms(2)] by blast
  show ?case
  proof (cases r)
    case (Some prev)
    have p: "real_date prev" "day_of prev < day_of due" using r(2) [OF Some] by (auto simp: reaches_def)
    have "modern prev" if "\<not> prev < target"
    proof -
      have "day_of target \<le> day_of prev" using that real_date_order [OF p(1)] assms(1) by (simp add: modern_recent)
      then have "recent prev" by (rule recent_above [OF assms(1) p(1)])
      then show ?thesis using modern_below [OF _ Suc.prems] p(2) by simp
    qed
    then show ?thesis using Suc r Some by auto
  qed (use r Suc.prems in simp)
qed simp

lemma roll_forward_recent:
  assumes "modern target" "schedule_ok s" "recent due"
  shows "\<exists>r. roll_forward fuel target s due = Inr r \<and> (\<forall>d. r = Some d \<longrightarrow> recent d)"
  using assms(3)
proof (induction fuel arbitrary: due)
  case (Suc fuel)
  show ?case
  proof (cases "due < target")
    case True
    then have m: "modern due"
      using real_date_order modern_below [OF Suc.prems assms(1)] Suc.prems assms(1) by (simp add: modern_recent)
    obtain r where r: "advanceOnce due s = Inr r" "\<And>t. r = Some t \<Longrightarrow> reaches 1 due t \<and> t \<noteq> due \<and> t \<noteq> []"
      using advanceOnce_reaches [OF m assms(2)] by blast
    have "recent t" if "r = Some t" for t
      using r(2) [OF that] by (intro recent_above [OF m]) (auto simp: reaches_def)
    then show ?thesis using r Suc True by (cases r) auto
  qed (use Suc.prems in simp)
qed simp

lemma rollToOnOrAfter_recent:
  assumes "modern target" "schedule_ok s"
  shows "\<exists>r. rollToOnOrAfter target s = Inr r \<and> (\<forall>d. r = Some d \<longrightarrow> recent d)"
proof -
  have "\<exists>r. ebind (roll_back 256 target s a) (\<lambda>(due, fuel). roll_forward fuel target s due) = Inr r \<and>
      (\<forall>d. r = Some d \<longrightarrow> recent d)" if a: "modern a" for a
  proof -
    obtain d f where d: "roll_back 256 target s a = Inr (d, f)" "modern d" using roll_back_modern [OF assms a] by blast
    then show ?thesis using roll_forward_recent [OF assms modern_recent(1) [OF d(2)], of f] by simp
  qed
  then show ?thesis using assms(2)
    by (auto simp: rollToOnOrAfter_def schedule_ok_def text_or_none_def split: option.splits)
qed

lemma strict_last: "sorted_wrt (<) xs \<Longrightarrow> x \<in> set xs \<Longrightarrow> x \<le> last xs" for xs :: "'a::linorder list"
  by (induction xs) (auto intro: less_imp_le)

text \<open>What has been projected, before \<open>due\<close>.\<close>

definition projected_ok :: "string \<Rightarrow> string \<Rightarrow> schedule \<Rightarrow> string list \<Rightarrow> bool" where
  "projected_ok lo hi s ds \<longleftrightarrow> sorted_wrt (<) ds \<and> successively (\<lambda>a b. advanceOnce a s = Inr (Some b)) ds \<and>
     (\<forall>d \<in> set ds. real_date d \<and> lo \<le> d \<and> d \<le> hi)"

lemma project_from_ok:
  assumes "modern lo" "modern hi" "schedule_ok s"
    and "projected_ok lo hi s out" "length out \<le> maxCount"
    and "\<And>d. due = Some d \<Longrightarrow> recent d \<and> (out \<noteq> [] \<longrightarrow> advanceOnce (last out) s = Inr (Some d) \<and> last out < d)"
  shows "\<exists>ds. project_from fuel lo hi maxCount s due out = Inr ds \<and> projected_ok lo hi s ds \<and> length ds \<le> maxCount"
  using assms(4-6)
proof (induction fuel arbitrary: due out)
  case 0
  then show ?case by (cases due) auto
next
  case (Suc fuel)
  show ?case
  proof (cases "\<exists>d. due = Some d \<and> d \<le> hi \<and> length out < maxCount")
    case True
    then obtain d where d: "due = Some d" "d \<le> hi" "length out < maxCount" by blast
    have rd: "recent d" and nx: "out \<noteq> [] \<longrightarrow> advanceOnce (last out) s = Inr (Some d) \<and> last out < d"
      using Suc.prems(3) [OF d(1)] by blast+
    have "\<not> day_of hi < day_of d"
      using leD [OF d(2)] real_date_order [of hi d] rd assms(2) by (simp add: modern_recent)
    then have m: "modern d" using modern_below [OF rd assms(2)] by simp
    obtain r where r: "advanceOnce d s = Inr r" "\<And>t. r = Some t \<Longrightarrow> reaches 1 d t \<and> t \<noteq> d \<and> t \<noteq> []"
      using advanceOnce_reaches [OF m assms(3)] by blast
    have below: "x < d" if "x \<in> set out" for x
    proof -
      have "sorted_wrt (<) out" "out \<noteq> []" using Suc.prems(1) that by (auto simp: projected_ok_def)
      then have "x \<le> last out" using that by (simp add: strict_last)
      then show ?thesis using nx \<open>out \<noteq> []\<close> by auto
    qed
    let ?o = "if lo \<le> d \<and> d \<notin> set out then out @ [d] else out"
    have lo: "lo \<le> d" if "out \<noteq> []"
      using that nx Suc.prems(1) by (meson last_in_set order.strict_trans1 order_less_imp_le projected_ok_def)
    have o: "projected_ok lo hi s ?o" "length ?o \<le> maxCount"
      using Suc.prems(1) nx below d rd
      by (auto simp: projected_ok_def sorted_wrt_append successively_append_iff modern_recent)
    have "recent t \<and> (?o \<noteq> [] \<longrightarrow> advanceOnce (last ?o) s = Inr (Some t) \<and> last ?o < t)" if "r = Some t" for t
    proof -
      have t: "real_date t" "day_of d < day_of t" using r(2) [OF that] by (auto simp: reaches_def)
      have "recent t" using t by (intro recent_above [OF m]) auto
      moreover have "d < t" using real_date_order [of d t] rd t by (simp add: modern_recent)
      moreover have "?o = [] \<or> last ?o = d" using lo below by (cases "out = []") auto
      ultimately show ?thesis using r(1) that by auto
    qed
    then have "\<exists>ds. project_from fuel lo hi maxCount s r ?o = Inr ds \<and> projected_ok lo hi s ds \<and> length ds \<le> maxCount"
      by (rule Suc.IH [OF o])
    moreover have "project_from (Suc fuel) lo hi maxCount s due out = project_from fuel lo hi maxCount s r ?o"
      using d r rd by (cases r) (auto simp: Let_def modern_recent real_date_def parseYMD_def recent_def)
    ultimately show ?thesis by simp
  next
    case False
    then show ?thesis using Suc.prems by (cases due) auto
  qed
qed

section \<open>Properties\<close>


text \<open>A month-end schedule over a leap February.\<close>

definition eom_schedule :: schedule where
  "eom_schedule = \<lparr>sc_cadence = Some Monthly, sc_anchorDate = Some ''2023-12-31'', sc_uncertain = False, sc_reasons = [],
     sc_monthDay = Some 31, sc_semimonthlyPattern = None\<rparr>"

lemma modernI: "parseYMD s = Inr p \<Longrightarrow> 1001 \<le> ymd_year p \<Longrightarrow> ymd_year p \<le> 9990 \<Longrightarrow> modern s"
  by (simp add: modern_def real_date_def year_of_def)

lemma parsed_example:
  "parseYMD ''2023-12-31'' = Inr \<lparr>ymd_year = 2023, ymd_month = 12, ymd_day = 31, ymd_date = 19722\<rparr>"
  "parseYMD ''2024-01-15'' = Inr \<lparr>ymd_year = 2024, ymd_month = 1, ymd_day = 15, ymd_date = 19737\<rparr>"
  "parseYMD ''2024-01-31'' = Inr \<lparr>ymd_year = 2024, ymd_month = 1, ymd_day = 31, ymd_date = 19753\<rparr>"
  "parseYMD ''2024-02-29'' = Inr \<lparr>ymd_year = 2024, ymd_month = 2, ymd_day = 29, ymd_date = 19782\<rparr>"
  "parseYMD ''2024-03-31'' = Inr \<lparr>ymd_year = 2024, ymd_month = 3, ymd_day = 31, ymd_date = 19813\<rparr>"
  by code_simp+

lemma modern_example: "modern ''2023-12-31''" "modern ''2024-01-15''" "modern ''2024-03-31''"
  by (simp_all add: modernI [OF parsed_example(1)] modernI [OF parsed_example(2)] modernI [OF parsed_example(5)])

lemma iso_eval: "iso 2023 11 (month_len 2023 10) = ''2023-11-30''" "iso 2024 1 (month_len 2024 0) = ''2024-01-31''"
  "iso 2024 2 (month_len 2024 1) = ''2024-02-29''" "iso 2024 3 (month_len 2024 2) = ''2024-03-31''"
  "iso 2024 4 (month_len 2024 3) = ''2024-04-30''"
  by code_simp+

lemma eom_months:
  "addCalendarMonths ''2023-12-31'' (- 1) 31 = Inr ''2023-11-30''" "addCalendarMonths ''2023-12-31'' 1 31 = Inr ''2024-01-31''"
  "addCalendarMonths ''2024-01-31'' 1 31 = Inr ''2024-02-29''" "addCalendarMonths ''2024-02-29'' 1 31 = Inr ''2024-03-31''"
  "addCalendarMonths ''2024-03-31'' 1 31 = Inr ''2024-04-30''"
  using addCalendarMonths_iso [OF parsed_example(1), of "- 1" 2023 10 31] addCalendarMonths_iso [OF parsed_example(1), of 1 2024 0 31]
    addCalendarMonths_iso [OF parsed_example(3), of 1 2024 1 31] addCalendarMonths_iso [OF parsed_example(4), of 1 2024 2 31]
    addCalendarMonths_iso [OF parsed_example(5), of 1 2024 3 31]
  by (simp_all add: iso_eval)

lemma eom_steps:
  "stepBackward ''2023-12-31'' eom_schedule = Inr (Some ''2023-11-30'')"
  "advanceOnce ''2023-12-31'' eom_schedule = Inr (Some ''2024-01-31'')"
  "advanceOnce ''2024-01-31'' eom_schedule = Inr (Some ''2024-02-29'')"
  "advanceOnce ''2024-02-29'' eom_schedule = Inr (Some ''2024-03-31'')"
  "advanceOnce ''2024-03-31'' eom_schedule = Inr (Some ''2024-04-30'')"
  by (simp_all add: advanceOnce_def stepBackward_def step_with_def eom_schedule_def eom_months)

lemma eom_projects:
  "projectOccurrences eom_schedule ''2024-01-15'' ''2024-03-31'' 5 = Inr [''2024-01-31'', ''2024-02-29'', ''2024-03-31'']"
proof -
  have "roll_back 256 ''2024-01-15'' eom_schedule ''2023-12-31'' = Inr (''2023-12-31'', 256)"
    using roll_back.simps(2) [of 255] by (simp add: eom_steps)
  moreover have "roll_forward 256 ''2024-01-15'' eom_schedule ''2023-12-31'' = Inr (Some ''2024-01-31'')"
    by (subst roll_forward.simps) (simp add: eom_steps split: nat.split)
  ultimately have "rollToOnOrAfter ''2024-01-15'' eom_schedule = Inr (Some ''2024-01-31'')"
    by (simp add: rollToOnOrAfter_def eom_schedule_def text_or_none_def)
  moreover have "project_from 20 ''2024-01-15'' ''2024-03-31'' 5 eom_schedule (Some ''2024-01-31'') [] =
      Inr [''2024-01-31'', ''2024-02-29'', ''2024-03-31'']"
    by (simp add: eval_nat_numeral eom_steps)
  ultimately show ?thesis by (simp add: projectOccurrences_def) (simp add: eom_schedule_def)
qed


end
