(* ===== verification/ObligationInputs.thy ===== *)
theory ObligationInputs
  imports ObligationGraph Recurrence BudgetEnvelope TransferClassification
begin

text \<open>
  Model of \<open>lib/domain/obligation-identities.js\<close> and \<open>lib/obligation-graph-bridge.js\<close>: the input of the
  obligation graph, assembled from recurring items, income, bills, budgets, credit cards, debts,
  reimbursements and the transactions of the window. Objects are records with the fields the code
  reads; amounts in dollars are numbers. The clock behind \<open>generatedAt\<close> is a parameter.
\<close>

section \<open>Identities\<close>

definition recurringDurableIdentity :: "string \<Rightarrow> string" where
  "recurringDurableIdentity key = ''recurring:'' @ key"

definition billDurableIdentity :: "string \<Rightarrow> string \<Rightarrow> string" where
  "billDurableIdentity key dueDate = ''bill:'' @ key @ ''|'' @ dueDate"

definition billSeriesDedupeGroup :: "string \<Rightarrow> string" where
  "billSeriesDedupeGroup key = ''bill-series:'' @ key"

definition subscriptionSeriesDedupeGroup :: "string \<Rightarrow> string" where
  "subscriptionSeriesDedupeGroup key = ''sub-series:'' @ key"

definition budgetDedupeGroup :: "string \<Rightarrow> string" where
  "budgetDedupeGroup categoryId = ''budget:'' @ categoryId"

fun positive_num :: "jsnum \<Rightarrow> bool" where
  "positive_num PosInf \<longleftrightarrow> True"
| "positive_num (Fin x) \<longleftrightarrow> 0 < x"
| "positive_num _ \<longleftrightarrow> False"

text \<open>The override's \<open>categoryId\<close> is any value; the counts are the entries of an object.\<close>

definition resolveRecurringCategoryIdentity :: "jsval \<Rightarrow> (string \<times> jsnum) list \<Rightarrow> string option \<times> string" where
  "resolveRecurringCategoryIdentity categoryId counts =
     (let own = (case categoryId of JStr s \<Rightarrow> js_trim s | _ \<Rightarrow> []) in
      if own \<noteq> [] then (Some own, ''explicit'')
      else case map fst (filter (\<lambda>(i, n). i \<noteq> [] \<and> positive_num n) counts) of
          [] \<Rightarrow> (None, ''missing'')
        | [i] \<Rightarrow> (Some i, ''inferred'')
        | _ \<Rightarrow> (None, ''ambiguous''))"

text \<open>
  A recurring item as \<open>dataModule.js\<close> lists it; \<open>rm_firstProjected\<close> is the date of its first projected
  occurrence, and the history is its dates.
\<close>

record recurring_row =
  rm_key :: string
  rm_payee :: "string option"
  rm_cadence :: "string option"
  rm_status :: string
  rm_isBill :: bool
  rm_forced :: bool
  rm_projectionUncertain :: bool
  rm_amount :: jsnum
  rm_history :: "string list"
  rm_categoryId :: "string option"
  rm_categoryIdentityStatus :: "string option"
  rm_nextRenewal :: "string option"
  rm_firstProjected :: "string option"

definition active_bill :: "recurring_row \<Rightarrow> bool" where
  "active_bill item \<longleftrightarrow> rm_isBill item \<and> rm_status item = ''active''"

definition index_bill :: "recurring_row \<Rightarrow> (string \<times> string) list \<Rightarrow> (string \<times> string) list" where
  "index_bill item m =
     (if \<not> active_bill item then m
      else case text_or_none (rm_categoryId item) of
        None \<Rightarrow> m
      | Some c \<Rightarrow>
          if rm_categoryIdentityStatus item \<in> {Some ''ambiguous'', Some ''missing''} then m
          else AList.update c (rm_key item) m)"

definition buildBillCategoryIndex :: "recurring_row list \<Rightarrow> (string \<times> string) list" where
  "buildBillCategoryIndex items = fold index_bill items []"

definition category_issue :: "recurring_row \<Rightarrow> (string \<times> string) list" where
  "category_issue item =
     (if \<not> active_bill item then []
      else let category = text_or_none (rm_categoryId item);
               status = text_or (rm_categoryIdentityStatus item) (if category \<noteq> None then ''explicit'' else ''missing'')
           in if category = None \<or> status = ''ambiguous'' \<or> status = ''missing'' then [(rm_key item, status)] else [])"

definition collectBillCategoryIdentity :: "recurring_row list \<Rightarrow> string list \<times> (string \<times> string) list" where
  "collectBillCategoryIdentity items =
     (map fst (buildBillCategoryIndex items), concat (map category_issue items))"

definition billRecurringKeyForCategory :: "string option \<Rightarrow> (string \<times> string) list \<Rightarrow> string option" where
  "billRecurringKeyForCategory categoryId billIndex =
     (case text_or_none categoryId of None \<Rightarrow> None | Some c \<Rightarrow> map_of billIndex c)"

definition isBillBackedCategory :: "string option \<Rightarrow> (string \<times> string) list \<Rightarrow> bool" where
  "isBillBackedCategory categoryId billIndex \<longleftrightarrow> text_or_none (billRecurringKeyForCategory categoryId billIndex) \<noteq> None"

section \<open>Projections\<close>

definition cadence_of :: "string option \<Rightarrow> cadence option" where
  "cadence_of c =
     (case text_or_none c of
        None \<Rightarrow> None
      | Some t \<Rightarrow> Some (case map_of [(''weekly'', Weekly), (''biweekly'', Biweekly), (''semimonthly'', Semimonthly),
            (''monthly'', Monthly), (''bimonthly'', Bimonthly), (''quarterly'', Quarterly), (''semiannual'', Semiannual),
            (''annual'', Annual)] t of Some d \<Rightarrow> d | None \<Rightarrow> Other_cadence t))"

text \<open>\<open>toCents(Math.abs(Number(n) || 0))\<close>\<close>

definition dollar_cents :: "jsnum \<Rightarrow> int res" where
  "dollar_cents n = toCents_num (js_abs (if n = NaN \<or> js_is_zero n then Fin 0 else n))"

definition firstUnobservedProjectionStart :: "schedule \<Rightarrow> string \<Rightarrow> string option res" where
  "firstUnobservedProjectionStart s today =
     ebind (case sc_anchorDate s of None \<Rightarrow> Inr None | Some a \<Rightarrow> nextOccurrenceAfter a s) (\<lambda>n. Inr
       (case text_or_none n of None \<Rightarrow> None | Some d \<Rightarrow> Some (if today < d then d else today)))"

datatype projection = Projection_uncertain | Projection_dates "projected list"

definition project_schedule ::
  "schedule \<Rightarrow> jsnum \<Rightarrow> string option \<Rightarrow> string \<Rightarrow> string \<Rightarrow> string \<Rightarrow> projection res" where
  "project_schedule s amount provenance windowStart windowEnd today =
     ebind (firstUnobservedProjectionStart s today) (\<lambda>st. case st of
       None \<Rightarrow> Inr Projection_uncertain
     | Some start \<Rightarrow>
         ebind (projectOccurrences s start windowEnd 128) (\<lambda>dates.
         ebind (dollar_cents amount) (\<lambda>cents. Inr (Projection_dates
           (map (\<lambda>date. \<lparr>pj_date = date, pj_amountCents = js_of_int cents, pj_paid = False, pj_provenance = provenance\<rparr>)
             (filter (\<lambda>date. windowStart \<le> date \<and> date \<le> windowEnd) dates))))))"

definition provenance_of :: "recurring_row \<Rightarrow> string" where
  "provenance_of item = (if rm_forced item then ''manual'' else ''inferred'')"

definition buildRecurringProjections :: "recurring_row \<Rightarrow> string \<Rightarrow> string \<Rightarrow> string \<Rightarrow> projection res" where
  "buildRecurringProjections item windowStart windowEnd today =
     (if rm_status item \<noteq> ''active'' then Inr (Projection_dates [])
      else ebind (inferRecurrenceSchedule (rm_history item) (cadence_of (rm_cadence item)) (rm_forced item)) (\<lambda>s.
        if sc_uncertain s \<or> rm_projectionUncertain item then Inr Projection_uncertain
        else project_schedule s (rm_amount item) (Some (provenance_of item)) windowStart windowEnd today))"

record income_row =
  ir_key :: string
  ir_payee :: "string option"
  ir_cadence :: "string option"
  ir_active :: bool
  ir_amount :: jsnum
  ir_history :: "string list"
  ir_lastPaid :: "string option"

definition buildIncomeProjections :: "income_row \<Rightarrow> string \<Rightarrow> string \<Rightarrow> string \<Rightarrow> projection res" where
  "buildIncomeProjections stream windowStart windowEnd today =
     (if \<not> ir_active stream then Inr (Projection_dates [])
      else let dates = filter (\<lambda>d. d \<noteq> []) (ir_history stream @ (case ir_lastPaid stream of None \<Rightarrow> [] | Some d \<Rightarrow> [d])) in
        ebind (inferRecurrenceSchedule (sort (remdups dates)) (cadence_of (ir_cadence stream)) False) (\<lambda>s.
          if sc_uncertain s then Inr Projection_uncertain
          else project_schedule s (ir_amount stream) (Some ''inferred'') windowStart windowEnd today))"

fun projection_uncertain :: "projection \<Rightarrow> bool" where
  "projection_uncertain Projection_uncertain = True"
| "projection_uncertain (Projection_dates _) = False"

fun projection_dates :: "projection \<Rightarrow> projected list" where
  "projection_dates Projection_uncertain = []"
| "projection_dates (Projection_dates ds) = ds"

section \<open>Budgets\<close>

text \<open>A category is the object \<open>budget-envelope.js\<close> reads, with its identity and name.\<close>

record budget_row =
  bc_id :: string
  bc_name :: "string option"
  bc_fields :: jsval

definition reserve_category :: "string list \<Rightarrow> budget_row \<Rightarrow> budget_item list res" where
  "reserve_category billCategoryIds category =
     (if bc_id category \<in> set billCategoryIds then Inr []
      else ebind (categoryReserveCentsFromCategory (bc_fields category)) (\<lambda>r. Inr (case r of
          None \<Rightarrow> []
        | Some cents \<Rightarrow>
            if \<not> safe_int cents \<or> cents \<le> 0 then []
            else [\<lparr>bu_durableIdentity = Some (''budget:'' @ bc_id category), bu_categoryId = bc_id category,
                   bu_categoryName = bc_name category, bu_remainingCents = js_of_int cents, bu_incompleteReasons = []\<rparr>])))"

definition buildBudgetReservations :: "bool \<Rightarrow> budget_row list list \<Rightarrow> string list \<Rightarrow> (budget_item list \<times> string list) res" where
  "buildBudgetReservations unsupported groups billCategoryIds =
     (if unsupported then Inr ([], [''budget_data_unavailable''])
      else ebind (emap (reserve_category billCategoryIds) (concat groups)) (\<lambda>rs. Inr (concat rs, [])))"

section \<open>Credit cards\<close>

record card = account +
  cd_name :: "string option"

definition resolved_account :: "string \<Rightarrow> jsval \<Rightarrow> card \<Rightarrow> account" where
  "resolved_account financeDate override a =
     (let own = (case jget override ''role'' of JStr s \<Rightarrow> s | _ \<Rightarrow> []); given = ac_role a in
      \<lparr>ac_id = ac_id a, ac_closed = ac_closed a, ac_hidden = ac_hidden a,
       ac_role = (if own \<noteq> [] then own else if given \<noteq> [] then given else ''unknown''),
       ac_balance = ac_balance a, ac_financeDate = Some financeDate\<rparr>)"

definition payment_link_of :: "recurring_row list \<Rightarrow> string option \<Rightarrow> payment_link" where
  "payment_link_of items key =
     (case text_or_none key of
        None \<Rightarrow> \<lparr>pl_linked = False, pl_ambiguous = False, pl_item = None\<rparr>
      | Some k \<Rightarrow> resolvePaymentLink (map (\<lambda>i. (rm_key i, rm_status i)) items) k)"

text \<open>The linked item is the one active item of its key.\<close>

definition linked_item :: "recurring_row list \<Rightarrow> string option \<Rightarrow> recurring_row option" where
  "linked_item items key =
     (if pl_linked (payment_link_of items key)
      then find (\<lambda>i. Some (rm_key i) = key \<and> rm_status i = ''active'') items else None)"

definition unlinked_liability :: "card \<Rightarrow> policy \<Rightarrow> liability" where
  "unlinked_liability a p =
     \<lparr>li_durableIdentity = Some (''liability:credit:'' @ ac_id a), li_accountId = ac_id a, li_name = cd_name a,
      li_excluded = False, li_eligible = True, li_coverageKind = None,
      li_paymentRecurringKey = po_paymentRecurringKey p, li_quarantineReasons = [''obligation_liability_unresolved''],
      li_obligationCents = NaN, li_currentBalanceCents = None, li_paymentDueDate = None, li_cycleKey = None,
      li_fundingAccountId = None, li_observedAt = None\<rparr>"

definition due_date_of :: "recurring_row list \<Rightarrow> policy \<Rightarrow> string option" where
  "due_date_of items p =
     (case text_or_none (po_paymentDueDate p) of
        Some d \<Rightarrow> Some d
      | None \<Rightarrow>
          (case linked_item items (po_paymentRecurringKey p) of
             None \<Rightarrow> None
           | Some i \<Rightarrow> (case text_or_none (rm_nextRenewal i) of
                Some d \<Rightarrow> Some d | None \<Rightarrow> text_or_none (rm_firstProjected i))))"

definition funding_of :: "string list \<Rightarrow> policy \<Rightarrow> string option" where
  "funding_of operatingAccountIds p =
     (case text_or_none (po_fundingAccountId p) of
        Some f \<Rightarrow> Some f
      | None \<Rightarrow> text_or_none (case operatingAccountIds of [] \<Rightarrow> None | i # _ \<Rightarrow> Some i))"

definition linked_liability :: "recurring_row list \<Rightarrow> string list \<Rightarrow> card \<Rightarrow> policy \<Rightarrow> liability" where
  "linked_liability items operatingAccountIds a p =
     (let due = due_date_of items p in
      \<lparr>li_durableIdentity = Some (''liability:credit:'' @ ac_id a), li_accountId = ac_id a, li_name = cd_name a,
       li_excluded = False, li_eligible = po_eligible p, li_coverageKind = po_coverageKind p,
       li_paymentRecurringKey = text_or_none (po_paymentRecurringKey p),
       li_quarantineReasons = po_quarantineReasons p,
       li_obligationCents = (case po_obligationCents p of None \<Rightarrow> NaN | Some c \<Rightarrow> js_of_int c),
       li_currentBalanceCents = po_currentBalanceCents p, li_paymentDueDate = due,
       li_cycleKey = map_option (liabilityCycleKey (ac_id a)) due,
       li_fundingAccountId = funding_of operatingAccountIds p,
       li_observedAt = (case po_observedAt p of JStr t \<Rightarrow> text_or_none (Some t) | _ \<Rightarrow> None)\<rparr>)"

record card_totals =
  cx_liabilities :: "liability list"
  cx_funding :: "(string \<times> string) list"
  cx_policies :: "(string \<times> policy) list"

definition add_card ::
  "(string \<Rightarrow> int option) \<Rightarrow> (string \<times> jsval) list \<Rightarrow> recurring_row list \<Rightarrow> string list \<Rightarrow> string \<Rightarrow> card_totals \<Rightarrow> card \<Rightarrow>
    card_totals res" where
  "add_card parse overrides items operatingAccountIds financeDate t a =
     (let override = (case map_of overrides (ac_id a) of None \<Rightarrow> JObj [] | Some v \<Rightarrow> v) in
      ebind (resolveAccountCreditPolicy parse (resolved_account financeDate override a) override) (\<lambda>p.
        let t' = t\<lparr>cx_policies := AList.update (ac_id a) p (cx_policies t)\<rparr>;
            key = text_or_none (po_paymentRecurringKey p); link = payment_link_of items key;
            funding = funding_of operatingAccountIds p in
        Inr (if po_mode p = Mode_unknown then t'
             else if po_excluded p \<or> \<not> po_eligible p then t'
             else if key \<noteq> None \<and> (\<not> pl_linked link \<or> pl_ambiguous link)
             then t'\<lparr>cx_liabilities := cx_liabilities t @ [unlinked_liability a p]\<rparr>
             else t'\<lparr>cx_liabilities := cx_liabilities t @ [linked_liability items operatingAccountIds a p],
                     cx_funding := (case funding of None \<Rightarrow> cx_funding t
                       | Some f \<Rightarrow> AList.update (ac_id a) f (cx_funding t))\<rparr>)))"

definition buildCreditLiabilities ::
  "(string \<Rightarrow> int option) \<Rightarrow> card list \<Rightarrow> (string \<times> jsval) list \<Rightarrow> recurring_row list \<Rightarrow> string list \<Rightarrow> string \<Rightarrow>
    card_totals res" where
  "buildCreditLiabilities parse accounts overrides items operatingAccountIds financeDate =
     efold (add_card parse overrides items operatingAccountIds financeDate)
       \<lparr>cx_liabilities = [], cx_funding = [], cx_policies = []\<rparr> accounts"

definition liabilityByPaymentKeyMap :: "liability list \<Rightarrow> (string \<times> liability) list" where
  "liabilityByPaymentKeyMap ls =
     fold (\<lambda>l m. case text_or_none (li_paymentRecurringKey l) of None \<Rightarrow> m | Some k \<Rightarrow> AList.update k l m) ls []"

section \<open>Debts and bills\<close>

record debt_row =
  de_id :: string
  de_name :: "string option"
  de_balance :: jsnum
  de_minPayment :: "jsnum option"
  de_dueDate :: "string option"
  de_interestPortionCents :: "jsnum option"
  de_principalPortionCents :: "jsnum option"
  de_apr :: jsval
  de_strategy :: jsval

text \<open>A missing payment is \<open>null\<close>, which is no safe integer, as \<^term>\<open>NaN\<close> is none.\<close>

definition manual_debt_of :: "debt_row \<Rightarrow> manual_debt res" where
  "manual_debt_of d =
     ebind (dollar_cents (de_balance d)) (\<lambda>balance.
     ebind (case de_minPayment d of None \<Rightarrow> Inr None | Some n \<Rightarrow> ebind (dollar_cents n) (\<lambda>c. Inr (Some c))) (\<lambda>payment.
       let interest = map_option js_abs (de_interestPortionCents d);
           principal = (case de_principalPortionCents d of
               Some n \<Rightarrow> js_abs n
             | None \<Rightarrow> (case (interest, payment) of
                   (Some i, Some p) \<Rightarrow> js_sub (js_of_int p) i
                 | _ \<Rightarrow> js_of_int balance))
       in Inr \<lparr>md_durableIdentity = Some (''debt:'' @ de_id d), md_id = de_id d, md_name = de_name d,
            md_dueDate = text_or_none (de_dueDate d),
            md_paymentCents = (case payment of None \<Rightarrow> NaN | Some c \<Rightarrow> js_of_int c),
            md_principalCents = Some principal, md_balanceCents = Some (js_of_int balance), md_interestCents = interest,
            md_apr = de_apr d, md_strategy = de_strategy d\<rparr>))"

definition buildManualDebts :: "debt_row list \<Rightarrow> manual_debt list res" where
  "buildManualDebts debts = emap manual_debt_of debts"

record bill_input =
  bl_id :: "string option"
  bl_key :: string
  bl_payee :: "string option"
  bl_dueDate :: string
  bl_amount :: jsnum
  bl_paid :: bool
  bl_matched :: bool

definition bill_item_of :: "(string \<times> liability) list \<Rightarrow> bill_input \<Rightarrow> bill_item res" where
  "bill_item_of byPaymentKey b =
     ebind (dollar_cents (bl_amount b)) (\<lambda>cents.
       let l = map_of byPaymentKey (bl_key b) in
       Inr \<lparr>bi_durableIdentity = Some (billDurableIdentity (bl_key b) (bl_dueDate b)), bi_id = bl_id b, bi_key = bl_key b,
         bi_payee = bl_payee b, bi_dueDate = bl_dueDate b, bi_amountCents = js_of_int cents, bi_paid = bl_paid b,
         bi_provenance = Some (if bl_matched b then ''known'' else ''inferred''), bi_scheduleUncertain = False,
         bi_liabilityAccountId = (case l of None \<Rightarrow> None | Some x \<Rightarrow> text_or_none (Some (li_accountId x))),
         bi_liabilityLinked = (l \<noteq> None),
         bi_liabilityCycleKey = (case l of None \<Rightarrow> None
           | Some x \<Rightarrow> if li_paymentDueDate x = Some (bl_dueDate b) then text_or_none (li_cycleKey x) else None)\<rparr>)"

definition buildBillOccurrences :: "bill_input list \<Rightarrow> (string \<times> liability) list \<Rightarrow> bill_item list res" where
  "buildBillOccurrences bills byPaymentKey = emap (bill_item_of byPaymentKey) bills"

section \<open>Transactions of the window\<close>

record dated_row = row +
  dr_date :: "string option"

record txn_inputs =
  xi_transfers :: "transfer_item list"
  xi_economic :: "txn_item list"
  xi_seenTransferKeys :: "string list"
  xi_seenEconomicIds :: "string list"

definition first_text :: "string option list \<Rightarrow> string \<Rightarrow> string" where
  "first_text ts z = foldr text_or ts z"

definition transfer_side :: "string \<Rightarrow> dated_row \<Rightarrow> string \<Rightarrow> classified \<Rightarrow> string \<Rightarrow> string list \<Rightarrow> transfer_item" where
  "transfer_side date r txnId l linkId creditAccountIds =
     (let counterpart = text_or_none (Option.bind (cl_transferIdentity l) sn_counterpartAccountId);
          own = text_or_none (rw_accountId r); out = js_less_zero (lf_amount l);
          to' = (if out then counterpart else own);
          transferred = text_or_none (Some (first_text [Option.bind (cl_transferIdentity l) sn_transferredId,
            lf_transferredId l] []));
          amount = dec_int \<bar>js_to_int (lf_amount l)\<bar>
      in \<lparr>tf_durableIdentity = Some (''transfer:'' @ linkId), tf_linkId = linkId, tf_label = Some (''Transfer '' @ linkId),
          tf_provenance = Some ''actual'',
          tf_fromAccountId = (if out then own else if counterpart \<noteq> None then counterpart else own),
          tf_toAccountId = to', tf_ambiguous = False, tf_date = Some date, tf_amountCents = lf_amount l,
          tf_sourceFingerprint = Some (text_or transferred [] @ '':'' @ first_text [counterpart, to'] [] @ '':'' @ amount),
          tf_transactionId = Some (if lf_id l = [] then txnId else lf_id l), tf_transferredId = transferred,
          tf_fundsLiabilityAccountId = (case to' of None \<Rightarrow> None | Some a \<Rightarrow> if a \<in> set creditAccountIds then Some a else None)\<rparr>)"

definition ambiguous_side :: "string \<Rightarrow> dated_row \<Rightarrow> classified \<Rightarrow> string \<Rightarrow> transfer_item" where
  "ambiguous_side date r l linkId =
     \<lparr>tf_durableIdentity = Some (''transfer:'' @ linkId), tf_linkId = linkId, tf_label = None,
      tf_provenance = Some ''actual'', tf_fromAccountId = rw_accountId r,
      tf_toAccountId = text_or_none (Option.bind (cl_transferIdentity l) sn_counterpartAccountId),
      tf_ambiguous = True, tf_date = Some date, tf_amountCents = lf_amount l, tf_sourceFingerprint = None,
      tf_transactionId = None, tf_transferredId = None, tf_fundsLiabilityAccountId = None\<rparr>"

definition purchase_item :: "string \<Rightarrow> string \<Rightarrow> classified \<Rightarrow> txn_item" where
  "purchase_item date economicId l =
     \<lparr>ti_durableIdentity = Some (''txn:'' @ economicId), ti_transactionId = economicId, ti_kind = None,
      ti_label = Some (''Credit purchase '' @ economicId), ti_date = Some date, ti_amountCents = lf_amount l,
      ti_explanation = Some [Note_text ''Credit card purchase -- economic spend only'']\<rparr>"

definition add_leaf ::
  "string \<Rightarrow> dated_row \<Rightarrow> (string \<times> string) list \<Rightarrow> string list \<Rightarrow> classified \<Rightarrow> txn_inputs \<Rightarrow> txn_inputs" where
  "add_leaf date r roles creditAccountIds l x =
     (let txnId = first_text [lf_parentId l, Some (lf_id l)] (tx_id (rw_transaction r)); identity = cl_transferIdentity l in
      if cl_kind l = Transfer
      then let linkId = first_text [Option.bind identity sn_linkId, lf_transferId l, lf_transferredId l] txnId;
               key = ''transfer:'' @ linkId @ '':'' @ first_text [Option.bind identity sn_accountId] (text_or (rw_accountId r) [])
           in if key \<in> set (xi_seenTransferKeys x) then x
              else x\<lparr>xi_seenTransferKeys := key # xi_seenTransferKeys x,
                     xi_transfers := xi_transfers x @ [transfer_side date r txnId l linkId creditAccountIds]\<rparr>
      else if cl_kind l = Incomplete \<and> cl_provenance l = ''classification:transfer_identity''
      then let linkId = first_text [Option.bind identity sn_linkId] txnId; key = ''ambiguous:'' @ linkId @ '':'' @ txnId
           in if key \<in> set (xi_seenTransferKeys x) then x
              else x\<lparr>xi_seenTransferKeys := key # xi_seenTransferKeys x,
                     xi_transfers := xi_transfers x @ [ambiguous_side date r l linkId]\<rparr>
      else if text_or (Option.bind (rw_accountId r) (map_of roles)) ''unknown'' = ''credit_card'' \<and>
              leafCountsAsRealSpend l \<and> \<not> cl_spendingExcluded l
      then let economicId = first_text [Some (lf_id l)] txnId
           in if economicId \<in> set (xi_seenEconomicIds x) then x
              else x\<lparr>xi_seenEconomicIds := economicId # xi_seenEconomicIds x,
                     xi_economic := xi_economic x @ [purchase_item date economicId l]\<rparr>
      else x)"

definition add_row ::
  "index \<Rightarrow> (string \<times> category_meta) list \<Rightarrow> string \<Rightarrow> string \<Rightarrow> (string \<times> string) list \<Rightarrow> string list \<Rightarrow> txn_inputs \<Rightarrow>
    dated_row \<Rightarrow> txn_inputs res" where
  "add_row ix catInfo windowStart windowEnd roles creditAccountIds x r =
     (case text_or_none (dr_date r) of
        None \<Rightarrow> Inr x
      | Some date \<Rightarrow>
          if date < windowStart \<or> windowEnd < date then Inr x
          else ebind (classifyTransactionLeaves (rw_transaction r) catInfo
              \<lparr>tc_transactionId = None, tc_accountId = rw_accountId r, tc_transferIndex = Some ix\<rparr>) (\<lambda>leaves.
            Inr (fold (add_leaf date r roles creditAccountIds) leaves x)))"

definition buildGraphTransactionInputs ::
  "dated_row list \<Rightarrow> (string \<times> category_meta) list \<Rightarrow> string \<Rightarrow> string \<Rightarrow> (string \<times> string) list \<Rightarrow> string list \<Rightarrow>
    (transfer_item list \<times> txn_item list) res" where
  "buildGraphTransactionInputs rows catInfo windowStart windowEnd roles creditAccountIds =
     ebind (efold (add_row (buildTransferIndex (map row.truncate rows)) catInfo windowStart windowEnd roles creditAccountIds)
         \<lparr>xi_transfers = [], xi_economic = [], xi_seenTransferKeys = [], xi_seenEconomicIds = []\<rparr> rows)
       (\<lambda>x. Inr (xi_transfers x, xi_economic x))"

section \<open>Reimbursements\<close>

definition global_reimbursement :: "bool \<Rightarrow> reimb_item" where
  "global_reimbursement linksAmbiguous =
     \<lparr>rb_durableIdentity = Some ''reimbursement:allocation:global'', rb_id = ''allocation-global'',
      rb_label = Some ''Reimbursement allocation'', rb_provenance = None, rb_allocationIncomplete = True,
      rb_ambiguous = linksAmbiguous, rb_expectedDate = None, rb_expectedCents = None\<rparr>"

fun above_half :: "jsnum \<Rightarrow> bool" where
  "above_half PosInf \<longleftrightarrow> True"
| "above_half (Fin x) \<longleftrightarrow> 1 / 2 < x"
| "above_half _ \<longleftrightarrow> False"

definition buildReimbursementExpectations ::
  "jsnum \<Rightarrow> string option \<Rightarrow> bool \<Rightarrow> bool \<Rightarrow> reimb_item list res" where
  "buildReimbursementExpectations totalOwed possibleDate linksAmbiguous allocationIncomplete =
     (if allocationIncomplete \<or> linksAmbiguous then Inr [global_reimbursement linksAmbiguous]
      else if above_half totalOwed
      then ebind (toCents_num totalOwed) (\<lambda>cents.
        Inr [\<lparr>rb_durableIdentity = Some ''reimbursement:expected:aggregate'', rb_id = ''aggregate'',
              rb_label = Some ''Possible reimbursements'', rb_provenance = Some ''splitwise'',
              rb_allocationIncomplete = False, rb_ambiguous = False, rb_expectedDate = text_or_none possibleDate,
              rb_expectedCents = Some (js_of_int cents)\<rparr>])
      else Inr [])"

section \<open>Assembly\<close>

text \<open>\<open>items\<close> are \<open>recurring.items\<close> and then \<open>recurring.hiddenItems\<close>; a link is its two flags.\<close>

record assembly =
  am_generatedAt :: string
  am_financeDate :: string
  am_windowStart :: string
  am_windowEnd :: string
  am_accounts :: "card list"
  am_accountOverrides :: "(string \<times> jsval) list"
  am_items :: "recurring_row list"
  am_streams :: "income_row list"
  am_bills :: "bill_input list"
  am_budgetsUnsupported :: bool
  am_budgetGroups :: "budget_row list list"
  am_debts :: "debt_row list"
  am_totalOwed :: jsnum
  am_possibleDate :: "string option"
  am_reimbLinks :: "(bool \<times> bool) list"
  am_transfers :: "transfer_item list"
  am_economicTransactions :: "txn_item list"
  am_operatingAccountIds :: "string list"

definition recurring_input :: "assembly \<Rightarrow> recurring_row \<Rightarrow> recurring_item res" where
  "recurring_input a item =
     ebind (buildRecurringProjections item (am_windowStart a) (am_windowEnd a) (am_financeDate a)) (\<lambda>p. Inr
       \<lparr>ri_durableIdentity = Some (recurringDurableIdentity (rm_key item)), ri_key = rm_key item,
        ri_payee = rm_payee item, ri_cadence = (case rm_cadence item of None \<Rightarrow> JUndef | Some c \<Rightarrow> JStr c),
        ri_isBill = rm_isBill item, ri_provenance = Some (provenance_of item),
        ri_projectionUncertain = rm_projectionUncertain item,
        ri_scheduleUncertain = (if rm_isBill item then rm_projectionUncertain item else projection_uncertain p),
        ri_projectedOccurrences = (if rm_isBill item then [] else projection_dates p)\<rparr>)"

definition income_input :: "assembly \<Rightarrow> income_row \<Rightarrow> income_stream res" where
  "income_input a stream =
     ebind (buildIncomeProjections stream (am_windowStart a) (am_windowEnd a) (am_financeDate a)) (\<lambda>p. Inr
       \<lparr>is_durableIdentity = Some (''income:'' @ ir_key stream), is_key = ir_key stream, is_payee = ir_payee stream,
        is_provenance = Some ''inferred'', is_scheduleUncertain = projection_uncertain p,
        is_projectedOccurrences = projection_dates p\<rparr>)"

definition transfer_input :: "transfer_item \<Rightarrow> transfer_item" where
  "transfer_input t = t\<lparr>tf_durableIdentity := Some (''transfer:'' @ tf_linkId t),
     tf_provenance := Some (text_or (tf_provenance t) ''actual''),
     tf_fundsLiabilityAccountId := text_or_none (tf_fundsLiabilityAccountId t),
     tf_transactionId := text_or_none (tf_transactionId t), tf_transferredId := text_or_none (tf_transferredId t),
     tf_sourceFingerprint := text_or_none (tf_sourceFingerprint t)\<rparr>"

definition txn_input :: "txn_item \<Rightarrow> txn_item" where
  "txn_input t = t\<lparr>ti_durableIdentity := Some (''txn:'' @ ti_transactionId t), ti_kind := None\<rparr>"

definition assembleObligationGraphInputs ::
  "(string \<Rightarrow> int option) \<Rightarrow> assembly \<Rightarrow> (graph_input \<times> (string \<times> policy) list) res" where
  "assembleObligationGraphInputs parse a =
     ebind (emap (recurring_input a) (am_items a)) (\<lambda>recurringItems.
     ebind (emap (income_input a) (am_streams a)) (\<lambda>incomeStreams.
     let (billCategoryIds, issues) = collectBillCategoryIdentity (am_items a) in
     ebind (buildBudgetReservations (am_budgetsUnsupported a) (am_budgetGroups a) billCategoryIds) (\<lambda>(reservations, _).
     let operatingIds = js_dedupe (am_operatingAccountIds a) in
     ebind (buildCreditLiabilities parse (am_accounts a) (am_accountOverrides a) (am_items a) operatingIds
       (am_financeDate a)) (\<lambda>cards.
     ebind (buildBillOccurrences (am_bills a) (liabilityByPaymentKeyMap (cx_liabilities cards))) (\<lambda>bills.
     ebind (buildManualDebts (am_debts a)) (\<lambda>debts.
     ebind (buildReimbursementExpectations (am_totalOwed a) (am_possibleDate a)
       (\<exists>(ambiguous, _) \<in> set (am_reimbLinks a). ambiguous) (\<exists>(_, incomplete) \<in> set (am_reimbLinks a). incomplete)) (\<lambda>reimb.
     Inr (\<lparr>gi_generatedAt = Some (am_generatedAt a), gi_financeDate = am_financeDate a,
       gi_windowStart = am_windowStart a, gi_windowEnd = am_windowEnd a, gi_recurringItems = recurringItems,
       gi_billOccurrences = bills, gi_incomeStreams = incomeStreams, gi_manualDebts = debts,
       gi_creditLiabilities = cx_liabilities cards, gi_billCategoryIds = billCategoryIds,
       gi_transfers = map transfer_input (am_transfers a), gi_budgetReservations = reservations,
       gi_reimbursementExpectations = reimb, gi_economicTransactions = map txn_input (am_economicTransactions a),
       gi_operatingAccountIds = operatingIds, gi_fundingAccountsByLiability = cx_funding cards,
       gi_billCategoryIdentityIssues = issues\<rparr>, cx_policies cards))))))))"

end
