(* ===== verification/ObligationPipeline.thy ===== *)
theory ObligationPipeline
  imports ObligationInputs ObligationSettlement
begin

text \<open>
  The assembled input and the graph together: the bridge meets the contract the graph is proved under,
  so that what holds of built graphs holds of every graph the server builds.
\<close>

section \<open>The bridge makes good links\<close>

abbreviation keys_marked :: "liability list \<Rightarrow> bool" where
  "keys_marked ls \<equiv> \<forall>l \<in> set ls. \<forall>k \<in> set_option (text_or_none (li_cycleKey l)). hd k = CHR ''l''"

lemma unlinked_marked: "text_or_none (li_cycleKey (unlinked_liability a p)) = None"
  by (simp add: unlinked_liability_def text_or_none_def)

lemma linked_marked:
  assumes "text_or_none (li_cycleKey (linked_liability items ops a p)) = Some k"
  shows "hd k = CHR ''l''"
  using assms by (cases "due_date_of items p")
    (auto simp: linked_liability_def Let_def liabilityCycleKey_def text_or_none_def)

lemma add_card_liabilities:
  assumes "add_card parse ov items ops today t a = Inr t'"
  obtains p where "set (cx_liabilities t') \<subseteq>
    set (cx_liabilities t) \<union> {unlinked_liability a p, linked_liability items ops a p}"
  using assms unfolding add_card_def Let_def ebind_eq_Inr by (fastforce split: if_splits)

lemma add_card_links:
  assumes "add_card parse ov items ops today t a = Inr t'" "keys_marked (cx_liabilities t)"
  shows "keys_marked (cx_liabilities t')"
proof -
  obtain p where p: "set (cx_liabilities t') \<subseteq>
      set (cx_liabilities t) \<union> {unlinked_liability a p, linked_liability items ops a p}"
    using add_card_liabilities [OF assms(1)] .
  show ?thesis
  proof (intro ballI)
    fix l k
    assume "l \<in> set (cx_liabilities t')" and k: "k \<in> set_option (text_or_none (li_cycleKey l))"
    then consider "l \<in> set (cx_liabilities t)" | "l = unlinked_liability a p" | "l = linked_liability items ops a p"
      using p by blast
    then show "hd k = CHR ''l''"
      using k assms(2) by cases (auto simp: unlinked_marked dest: linked_marked)
  qed
qed

lemma assembled_parts:
  assumes "assembleObligationGraphInputs parse a = Inr (i, policies)"
  obtains cards where
    "buildCreditLiabilities parse (am_accounts a) (am_accountOverrides a) (am_items a)
      (js_dedupe (am_operatingAccountIds a)) (am_financeDate a) = Inr cards"
    "buildBillOccurrences (am_bills a) (liabilityByPaymentKeyMap (cx_liabilities cards)) = Inr (gi_billOccurrences i)"
    "gi_creditLiabilities i = cx_liabilities cards"
    "policies = cx_policies cards"
    "gi_windowStart i = am_windowStart a" "gi_windowEnd i = am_windowEnd a" "gi_financeDate i = am_financeDate a"
proof -
  obtain ids :: "string list" and issues where "collectBillCategoryIdentity (am_items a) = (ids, issues)"
    by (cases "collectBillCategoryIdentity (am_items a)") blast
  then show thesis
    using assms unfolding assembleObligationGraphInputs_def ebind_eq_Inr
    by (clarsimp simp: ebind_eq_Inr Let_def) (rule that; simp)
qed

lemma bill_item_linked:
  assumes "bill_item_of byPaymentKey b = Inr item" "text_or_none (bi_liabilityCycleKey item) \<noteq> None"
  shows "bi_liabilityLinked item"
  using assms by (auto simp: bill_item_of_def ebind_eq_Inr Let_def text_or_none_def split: option.splits)

lemma assembled_links_ok:
  assumes "assembleObligationGraphInputs parse a = Inr (i, policies)"
  shows "links_ok i"
proof -
  obtain cards where
    c: "buildCreditLiabilities parse (am_accounts a) (am_accountOverrides a) (am_items a)
        (js_dedupe (am_operatingAccountIds a)) (am_financeDate a) = Inr cards"
    and b: "buildBillOccurrences (am_bills a) (liabilityByPaymentKeyMap (cx_liabilities cards)) = Inr (gi_billOccurrences i)"
    and i: "gi_creditLiabilities i = cx_liabilities cards"
    using assembled_parts [OF assms] .
  have "keys_marked (cx_liabilities cards)"
    by (rule efold_invariant [where P = "\<lambda>t. keys_marked (cx_liabilities t)", OF c [unfolded buildCreditLiabilities_def]])
      (simp, rule add_card_links)
  moreover have "bi_liabilityLinked bill"
    if "bill \<in> set (gi_billOccurrences i)" "text_or_none (bi_liabilityCycleKey bill) \<noteq> None" for bill
    using emap_member [OF b [unfolded buildBillOccurrences_def] that(1)] that(2) bill_item_linked by blast
  ultimately show ?thesis by (auto simp: links_ok_def i)
qed

lemma efold_member:
  assumes "efold f s xs = Inr s'" "x \<in> set xs"
    and "\<And>s t y. f s y = Inr t \<Longrightarrow> Q s \<Longrightarrow> Q t"
    and "\<And>s t. f s x = Inr t \<Longrightarrow> Q t"
  shows "Q s'"
proof -
  obtain ys zs where xs: "xs = ys @ x # zs" using split_list [OF assms(2)] by blast
  obtain t u where t: "f t x = Inr u" and u: "efold f u zs = Inr s'"
    using assms(1) unfolding xs by (auto simp: efold_append ebind_eq_Inr)
  show ?thesis by (rule efold_invariant [where P = Q, OF u assms(4) [OF t]]) (rule assms(3))
qed

text \<open>What an account's policy owes is a liability of the input, quarantined when its payment has no single active item.\<close>

definition card_override :: "assembly \<Rightarrow> card \<Rightarrow> jsval" where
  "card_override a acc = (case map_of (am_accountOverrides a) (ac_id acc) of None \<Rightarrow> JObj [] | Some v \<Rightarrow> v)"

definition owes :: "policy \<Rightarrow> bool" where
  "owes p \<longleftrightarrow> po_mode p \<noteq> Mode_unknown \<and> \<not> po_excluded p \<and> po_eligible p"

lemma add_card_kept:
  assumes "add_card parse ov items ops today t a = Inr t'" "l \<in> set (cx_liabilities t)"
  shows "l \<in> set (cx_liabilities t')"
  using assms unfolding add_card_def Let_def ebind_eq_Inr by (fastforce split: if_splits)

lemma add_card_adds:
  assumes "add_card parse (am_accountOverrides a) items ops today t acc = Inr t'"
    and "resolveAccountCreditPolicy parse (resolved_account today (card_override a acc) acc) (card_override a acc) = Inr p"
    and "owes p"
  shows "(if text_or_none (po_paymentRecurringKey p) = None \<or> pl_linked (payment_link_of items (text_or_none (po_paymentRecurringKey p)))
      then linked_liability items ops acc p else unlinked_liability acc p) \<in> set (cx_liabilities t')"
  using assms
  by (auto simp: add_card_def card_override_def Let_def owes_def payment_link_of_def resolvePaymentLink_def
    split: if_splits option.splits)

section \<open>A small household\<close>

text \<open>A card that owes fifty dollars, paid from the operating account on the renewal date of its payment.\<close>

definition house_payment :: recurring_row where
  "house_payment = \<lparr>rm_key = ''visa-pay'', rm_payee = None, rm_cadence = Some ''monthly'', rm_status = ''active'',
     rm_isBill = True, rm_forced = False, rm_projectionUncertain = False, rm_amount = Fin 50, rm_history = [],
     rm_categoryId = Some ''cards'', rm_categoryIdentityStatus = None, rm_nextRenewal = Some ''2026-01-20'',
     rm_firstProjected = None\<rparr>"

definition house_card :: card where
  "house_card = \<lparr>ac_id = ''visa'', ac_closed = False, ac_hidden = False, ac_role = ''credit_card'',
     ac_balance = Fin (- 50), ac_financeDate = None, cd_name = None\<rparr>"

definition house_override :: jsval where
  "house_override = JObj [(''creditLiabilityCoverage'', JStr ''current_balance''), (''paymentRecurringKey'', JStr ''visa-pay'')]"

definition house_bill :: bill_input where
  "house_bill = \<lparr>bl_id = None, bl_key = ''visa-pay'', bl_payee = None, bl_dueDate = ''2026-01-20'', bl_amount = Fin 30,
     bl_paid = False, bl_matched = True\<rparr>"

definition house :: assembly where
  "house = \<lparr>am_generatedAt = ''2026-01-02T00:00:00Z'', am_financeDate = ''2026-01-02'', am_windowStart = ''2026-01-01'',
     am_windowEnd = ''2026-01-31'', am_accounts = [house_card], am_accountOverrides = [(''visa'', house_override)],
     am_items = [house_payment], am_streams = [], am_bills = [house_bill], am_budgetsUnsupported = False,
     am_budgetGroups = [], am_debts = [], am_totalOwed = Fin 0, am_possibleDate = None, am_reimbLinks = [],
     am_transfers = [], am_economicTransactions = [], am_operatingAccountIds = [''cash'']\<rparr>"

definition house_policy :: policy where
  "house_policy = (bare_policy (resolved_account ''2026-01-02'' house_override house_card) True False Mode_current_balance
     (Some (- 5000)) [])\<lparr>po_paymentRecurringKey := Some ''visa-pay'', po_fundingAccountId := None,
       po_obligationCents := Some 5000, po_coverageKind := Some ''current_balance''\<rparr>"

lemma house_policy_resolved:
  "resolveAccountCreditPolicy (\<lambda>_. None) (resolved_account ''2026-01-02'' house_override house_card) house_override =
     Inr house_policy"
proof -
  have "toCents_num (Fin (- 50)) = Inr (- 5000)" using toCents_whole [of "- 50"] by simp
  moreover have "trimmed (jget house_override ''paymentRecurringKey'') = ''visa-pay''"
    "trimmed (jget house_override ''fundingAccountId'') = []"
    "normalizeCoverageMode (jget house_override ''creditLiabilityCoverage'') = Mode_current_balance"
    "jget house_override ''role'' = JUndef" by code_simp+
  ultimately show ?thesis
    by (simp add: resolveAccountCreditPolicy_def Let_def resolved_account_def house_card_def house_policy_def
        bare_policy_def)
qed

definition house_bill_item :: bill_item where
  "house_bill_item = \<lparr>bi_durableIdentity = Some ''bill:visa-pay|2026-01-20'', bi_id = None, bi_key = ''visa-pay'',
     bi_payee = None, bi_dueDate = ''2026-01-20'', bi_amountCents = Fin 3000, bi_paid = False,
     bi_provenance = Some ''known'', bi_scheduleUncertain = False, bi_liabilityAccountId = Some ''visa'',
     bi_liabilityLinked = True, bi_liabilityCycleKey = Some ''liability-cycle:visa:2026-01-20''\<rparr>"

definition house_liability :: liability where
  "house_liability = \<lparr>li_durableIdentity = Some ''liability:credit:visa'', li_accountId = ''visa'', li_name = None,
     li_excluded = False, li_eligible = True, li_coverageKind = Some ''current_balance'',
     li_paymentRecurringKey = Some ''visa-pay'', li_quarantineReasons = [], li_obligationCents = Fin 5000,
     li_currentBalanceCents = Some (- 5000), li_paymentDueDate = Some ''2026-01-20'',
     li_cycleKey = Some ''liability-cycle:visa:2026-01-20'', li_fundingAccountId = Some ''cash'', li_observedAt = None\<rparr>"

definition house_item :: recurring_item where
  "house_item = \<lparr>ri_durableIdentity = Some ''recurring:visa-pay'', ri_key = ''visa-pay'', ri_payee = None,
     ri_cadence = JStr ''monthly'', ri_isBill = True, ri_provenance = Some ''inferred'',
     ri_projectionUncertain = False, ri_scheduleUncertain = False, ri_projectedOccurrences = []\<rparr>"

definition house_input :: graph_input where
  "house_input = \<lparr>gi_generatedAt = Some ''2026-01-02T00:00:00Z'', gi_financeDate = ''2026-01-02'',
     gi_windowStart = ''2026-01-01'', gi_windowEnd = ''2026-01-31'', gi_recurringItems = [house_item],
     gi_billOccurrences = [house_bill_item], gi_incomeStreams = [], gi_manualDebts = [],
     gi_creditLiabilities = [house_liability], gi_billCategoryIds = [''cards''], gi_transfers = [],
     gi_budgetReservations = [], gi_reimbursementExpectations = [], gi_economicTransactions = [],
     gi_operatingAccountIds = [''cash''], gi_fundingAccountsByLiability = [(''visa'', ''cash'')],
     gi_billCategoryIdentityIssues = []\<rparr>"

lemma house_recurring: "recurring_input house house_payment = Inr house_item"
proof -
  have "\<exists>p. buildRecurringProjections house_payment ''2026-01-01'' ''2026-01-31'' ''2026-01-02'' = Inr p"
    by (cases "cadence_of (Some ''monthly'')")
      (simp_all add: buildRecurringProjections_def house_payment_def inferRecurrenceSchedule_def Let_def uncertain_for_def)
  then show ?thesis
    by (auto simp: recurring_input_def house_def house_payment_def house_item_def recurringDurableIdentity_def provenance_of_def)
qed

lemma house_cards:
  "buildCreditLiabilities (\<lambda>_. None) [house_card] [(''visa'', house_override)] [house_payment] [''cash''] ''2026-01-02'' =
     Inr \<lparr>cx_liabilities = [house_liability], cx_funding = [(''visa'', ''cash'')], cx_policies = [(''visa'', house_policy)]\<rparr>"
proof -
  have "ac_id house_card = ''visa''" "cd_name house_card = None" by (simp_all add: house_card_def)
  moreover have "payment_link_of [house_payment] (Some ''visa-pay'') = \<lparr>pl_linked = True, pl_ambiguous = False,
      pl_item = Some (''visa-pay'', ''active'')\<rparr>" "linked_item [house_payment] (Some ''visa-pay'') = Some house_payment"
    by (simp_all add: payment_link_of_def linked_item_def text_or_none_def resolvePaymentLink_def house_payment_def)
  ultimately show ?thesis using house_policy_resolved
    by (simp add: buildCreditLiabilities_def add_card_def Let_def house_policy_def bare_policy_def resolved_account_def
        text_or_none_def linked_liability_def due_date_of_def funding_of_def house_liability_def liabilityCycleKey_def
        house_payment_def)
qed

lemma house_assembled: "assembleObligationGraphInputs (\<lambda>_. None) house = Inr (house_input, [(''visa'', house_policy)])"
proof -
  have c: "toCents_num (Fin 30) = Inr 3000" using toCents_whole [of 30] by simp
  have b: "buildBillOccurrences [house_bill] (liabilityByPaymentKeyMap [house_liability]) = Inr [house_bill_item]"
    by (simp add: buildBillOccurrences_def liabilityByPaymentKeyMap_def house_liability_def house_bill_def bill_item_of_def
        dollar_cents_def c text_or_none_def billDurableIdentity_def house_bill_item_def)
  have ids: "collectBillCategoryIdentity [house_payment] = ([''cards''], [])" by code_simp
  have i: "emap (recurring_input house) [house_payment] = Inr [house_item]" by (simp add: house_recurring)
  have d: "js_dedupe [''cash''] = [''cash'']" by code_simp
  show ?thesis unfolding assembleObligationGraphInputs_def
    using i b ids house_cards
    by (simp add: house_def d buildBudgetReservations_def buildManualDebts_def buildReimbursementExpectations_def
        house_input_def)
qed

text \<open>What matters of the graph, in one evaluation.\<close>

definition house_value :: "(bool \<times> (string \<times> int) list \<times> int option option) option" where
  "house_value =
     (case buildObligationGraph month_env house_input of
        Inl _ \<Rightarrow> None
      | Inr g \<Rightarrow> Some (gc_complete (graphCompleteness g),
          map (\<lambda>occ. (oc_date occ, oc_amountCents occ)) (filter oc_reserved (gr_occurrences g)),
          (case safeToSpendFromGraph g 100000 None None of Inl _ \<Rightarrow> None | Inr s \<Rightarrow> Some (sf_valueCents s))))"

lemma house_evaluated:
  "house_value = Some (True, [(''2026-01-20'', - 3000), (''2026-01-20'', - 2000)], Some (Some 95000))"
  by code_simp

lemma house_built:
  obtains g where "buildObligationGraph month_env house_input = Inr g" "gc_complete (graphCompleteness g)"
    "map (\<lambda>occ. (oc_date occ, oc_amountCents occ)) (filter oc_reserved (gr_occurrences g)) =
       [(''2026-01-20'', - 3000), (''2026-01-20'', - 2000)]"
    "\<exists>s. safeToSpendFromGraph g 100000 None None = Inr s \<and> sf_valueCents s = Some 95000"
  using house_evaluated by (auto simp: house_value_def split: sum.splits)

section \<open>Properties of the pipeline\<close>



text \<open>
  C14: No card is forgotten: the liabilities of the assembled input hold one for every account whose policy
  owes something, with the obligation of the policy, unless the payment it names has no single active
  recurring item: then the liability is there, quarantined.
\<close>

theorem assembled_cards_covered:
  assumes "assembleObligationGraphInputs parse a = Inr (i, policies)" "acc \<in> set (am_accounts a)"
    and "resolveAccountCreditPolicy parse (resolved_account (am_financeDate a) (card_override a acc) acc)
      (card_override a acc) = Inr p" "owes p"
  shows "\<exists>l \<in> set (gi_creditLiabilities i). li_accountId l = ac_id acc \<and> li_eligible l \<and>
    (if text_or_none (po_paymentRecurringKey p) = None \<or>
        pl_linked (payment_link_of (am_items a) (text_or_none (po_paymentRecurringKey p)))
     then li_quarantineReasons l = po_quarantineReasons p \<and>
       (\<forall>c. po_obligationCents p = Some c \<longrightarrow> li_obligationCents l = js_of_int c)
     else li_quarantineReasons l = [''obligation_liability_unresolved''])"
proof -
  let ?l = "if text_or_none (po_paymentRecurringKey p) = None \<or>
        pl_linked (payment_link_of (am_items a) (text_or_none (po_paymentRecurringKey p)))
      then linked_liability (am_items a) (js_dedupe (am_operatingAccountIds a)) acc p else unlinked_liability acc p"
  obtain cards where
    c: "buildCreditLiabilities parse (am_accounts a) (am_accountOverrides a) (am_items a)
        (js_dedupe (am_operatingAccountIds a)) (am_financeDate a) = Inr cards"
    and i: "gi_creditLiabilities i = cx_liabilities cards"
    using assembled_parts [OF assms(1)] .
  have "?l \<in> set (cx_liabilities cards)"
    by (rule efold_member [OF c [unfolded buildCreditLiabilities_def] assms(2)])
      (erule (1) add_card_kept, erule add_card_adds [OF _ assms(3,4)])
  moreover have "po_eligible p" using assms(4) by (simp add: owes_def)
  ultimately show ?thesis unfolding i
    by (intro bexI [of _ ?l]) (simp_all add: linked_liability_def unlinked_liability_def Let_def)
qed

lemma assembled_cards_covered_witness:
  "\<exists>l \<in> set (gi_creditLiabilities house_input). li_accountId l = ''visa'' \<and> li_obligationCents l = js_of_int 5000"
proof -
  have "card_override house house_card = house_override" "ac_id house_card = ''visa''"
    by (simp_all add: card_override_def house_def house_card_def)
  moreover have "payment_link_of [house_payment] (Some ''visa-pay'') = \<lparr>pl_linked = True, pl_ambiguous = False,
      pl_item = Some (''visa-pay'', ''active'')\<rparr>"
    by (simp add: payment_link_of_def text_or_none_def resolvePaymentLink_def house_payment_def)
  moreover have "owes house_policy" by (simp add: owes_def house_policy_def bare_policy_def)
  moreover have "text_or_none (po_paymentRecurringKey house_policy) = Some ''visa-pay''"
    "po_obligationCents house_policy = Some 5000" by (simp_all add: house_policy_def text_or_none_def)
  ultimately show ?thesis
    using assembled_cards_covered [OF house_assembled, of house_card house_policy] house_policy_resolved
    by (auto simp: house_def)
qed

end
