(* ===== verification/ManualAssets.thy ===== *)
theory ManualAssets
  imports Money JsString StableSort
begin

text \<open>
  Model of \<open>lib/manual-assets-projection.js\<close>: assets and liabilities entered by hand, validated and summed in
  cents, and the revision that stands for them in caches. \<open>String(v)\<close> of other values, \<open>localeCompare\<close> and the
  hash of a JSON text are parameters.
\<close>

record js_env =
  je_text :: "jsval \<Rightarrow> string"
  je_collate :: "string \<Rightarrow> string \<Rightarrow> int"
  je_hash :: "jsval \<Rightarrow> string"

text \<open>\<open>v && typeof v === 'object'\<close>\<close>

fun object_like :: "jsval \<Rightarrow> bool" where
  "object_like (JObj _) = True"
| "object_like (JArr _) = True"
| "object_like _ = False"

definition MANUAL_ASSETS_UNAVAILABLE :: string where
  "MANUAL_ASSETS_UNAVAILABLE = ''manual_assets_unavailable''"

record manual_assets =
  ma_complete :: bool
  ma_incompleteReasons :: "string list"
  ma_items :: "jsval list"
  ma_assets :: "jsnum option"
  ma_liabilities :: "jsnum option"
  ma_net :: "jsnum option"
  ma_assetCents :: "int option"
  ma_liabilityCents :: "int option"

definition unavailable_assets :: "jsval list \<Rightarrow> manual_assets" where
  "unavailable_assets items =
     \<lparr>ma_complete = False, ma_incompleteReasons = [MANUAL_ASSETS_UNAVAILABLE], ma_items = items,
      ma_assets = None, ma_liabilities = None, ma_net = None, ma_assetCents = None, ma_liabilityCents = None\<rparr>"

text \<open>An item that is no object has no finite \<open>value\<close> either.\<close>

definition item_value :: "jsval \<Rightarrow> jsnum option" where
  "item_value item = (case jget item ''value'' of JNum n \<Rightarrow> if js_is_finite n then Some n else None | _ \<Rightarrow> None)"

definition is_liability :: "jsval \<Rightarrow> bool" where
  "is_liability item \<longleftrightarrow> jget item ''kind'' = JStr ''liability''"

text \<open>The loop: \<open>None\<close> is the early return.\<close>

fun sum_items :: "int \<Rightarrow> int \<Rightarrow> jsval list \<Rightarrow> (int \<times> int) option" where
  "sum_items assets liabilities [] = Some (assets, liabilities)"
| "sum_items assets liabilities (item # items) =
     (case item_value item of
        None \<Rightarrow> None
      | Some v \<Rightarrow>
          (case ebind (toCents_num v) (\<lambda>c. sumCents [if is_liability item then liabilities else assets, c]) of
             Inl _ \<Rightarrow> None
           | Inr s \<Rightarrow> if is_liability item then sum_items assets s items else sum_items s liabilities items))"

definition validateManualAssetsStore :: "jsval \<Rightarrow> manual_assets res" where
  "validateManualAssetsStore store =
     (case jget store ''items'' of
        JArr items \<Rightarrow>
          (case sum_items 0 0 items of
             None \<Rightarrow> Inr (unavailable_assets items)
           | Some (a, l) \<Rightarrow>
               ebind (fromCents a) (\<lambda>assets.
               ebind (fromCents l) (\<lambda>liabilities.
               ebind (sumCents [a, - l]) (\<lambda>n.
               ebind (fromCents n) (\<lambda>net. Inr
                 \<lparr>ma_complete = True, ma_incompleteReasons = [], ma_items = items, ma_assets = Some assets,
                  ma_liabilities = Some liabilities, ma_net = Some net, ma_assetCents = Some a,
                  ma_liabilityCents = Some l\<rparr>)))))
      | _ \<Rightarrow> Inr (unavailable_assets []))"

section \<open>The revision\<close>

text \<open>\<open>replace(/\s+/g, ' ')\<close>\<close>

fun collapse_spaces :: "bool \<Rightarrow> string \<Rightarrow> string" where
  "collapse_spaces inside [] = []"
| "collapse_spaces inside (c # s) =
     (if js_space c then (if inside then [] else '' '') @ collapse_spaces True s else c # collapse_spaces False s)"

definition normalizeManualAssetName :: "js_env \<Rightarrow> jsval \<Rightarrow> string" where
  "normalizeManualAssetName env name =
     js_lower (collapse_spaces False (js_trim
       (case name of JStr s \<Rightarrow> s | v \<Rightarrow> if truthy v then je_text env v else [])))"

record asset_tuple =
  at_id :: "string option"
  at_name :: string
  at_kind :: string
  at_valueCents :: int
  at_index :: nat

definition canonicalManualAssetTuple :: "js_env \<Rightarrow> jsval \<Rightarrow> nat \<Rightarrow> asset_tuple option" where
  "canonicalManualAssetTuple env item index =
     (case item_value item of
        None \<Rightarrow> None
      | Some v \<Rightarrow>
          (case toCents_num v of
             Inl _ \<Rightarrow> None
           | Inr cents \<Rightarrow> Some
               \<lparr>at_id = (case jget item ''id'' of JStr s \<Rightarrow> if js_trim s = [] then None else Some (js_trim s) | _ \<Rightarrow> None),
                at_name = normalizeManualAssetName env (jget item ''name''),
                at_kind = (if is_liability item then ''liability'' else ''asset''),
                at_valueCents = cents, at_index = index\<rparr>))"

text \<open>\<open>a || b || c\<close> of comparisons.\<close>

fun first_nonzero :: "int list \<Rightarrow> int" where
  "first_nonzero [] = 0"
| "first_nonzero (x # xs) = (if x \<noteq> 0 then x else first_nonzero xs)"

definition tuple_id :: "asset_tuple \<Rightarrow> string" where
  "tuple_id a = (case at_id a of Some i \<Rightarrow> i | None \<Rightarrow> CHR 0x00 # ''legacy:'' @ dec (at_index a))"

definition compareCanonicalTuples :: "js_env \<Rightarrow> asset_tuple \<Rightarrow> asset_tuple \<Rightarrow> int" where
  "compareCanonicalTuples env a b = first_nonzero
     [je_collate env (tuple_id a) (tuple_id b), je_collate env (at_name a) (at_name b),
      je_collate env (at_kind a) (at_kind b), at_valueCents a - at_valueCents b, int (at_index a) - int (at_index b)]"

definition tuple_json :: "asset_tuple \<Rightarrow> jsval" where
  "tuple_json a = JObj [(''id'', case at_id a of None \<Rightarrow> JNull | Some i \<Rightarrow> JStr i), (''name'', JStr (at_name a)),
     (''kind'', JStr (at_kind a)), (''valueCents'', JNum (js_of_int (at_valueCents a)))]"

definition canonicalManualAssetItems :: "js_env \<Rightarrow> manual_assets option \<Rightarrow> jsval list" where
  "canonicalManualAssetItems env validated =
     (case validated of
        None \<Rightarrow> []
      | Some v \<Rightarrow> if \<not> ma_complete v then []
          else map tuple_json (sort_by (\<lambda>a b. compareCanonicalTuples env a b \<le> 0)
            (List.map_filter (\<lambda>(i, item). canonicalManualAssetTuple env item i) (enumerate 0 (ma_items v)))))"

text \<open>The hash of the text \<open>manual-assets:incomplete\<close> is the hash of that text, not of its JSON.\<close>

definition manualAssetsRevision :: "js_env \<Rightarrow> (string \<Rightarrow> string) \<Rightarrow> manual_assets option \<Rightarrow> string" where
  "manualAssetsRevision env hash_text validated =
     (case validated of
        None \<Rightarrow> hash_text ''manual-assets:incomplete''
      | Some v \<Rightarrow> if \<not> ma_complete v then hash_text ''manual-assets:incomplete''
          else je_hash env (JObj [(''complete'', JBool True), (''items'', JArr (canonicalManualAssetItems env validated))]))"

section \<open>What the sums are\<close>

definition item_cents :: "jsval \<Rightarrow> int" where
  "item_cents item = (case item_value item of None \<Rightarrow> 0 | Some v \<Rightarrow> (case toCents_num v of Inl _ \<Rightarrow> 0 | Inr c \<Rightarrow> c))"

lemma sum_items_exact:
  "sum_items a l items = Some (a', l') \<Longrightarrow>
     a' = a + (\<Sum>i \<leftarrow> filter (\<lambda>i. \<not> is_liability i) items. item_cents i) \<and>
     l' = l + (\<Sum>i \<leftarrow> filter is_liability items. item_cents i)"
  by (induction a l items rule: sum_items.induct)
    (fastforce simp: item_cents_def res_simps dest: sumCents_Inr split: option.splits sum.splits if_splits)+

lemma sum_items_safe:
  "sum_items a l items = Some (a', l') \<Longrightarrow> safe_int a \<Longrightarrow> safe_int l \<Longrightarrow> safe_int a' \<and> safe_int l'"
  by (induction a l items rule: sum_items.induct)
    (auto simp: res_simps dest: sumCents_safe split: option.splits sum.splits if_splits)

lemma validated_exact:
  assumes "validateManualAssetsStore store = Inr m" "ma_complete m"
  shows "ma_assetCents m = Some (\<Sum>i \<leftarrow> filter (\<lambda>i. \<not> is_liability i) (ma_items m). item_cents i) \<and>
    ma_liabilityCents m = Some (\<Sum>i \<leftarrow> filter is_liability (ma_items m). item_cents i)"
  using assms sum_items_exact [of 0 0]
  by (fastforce simp: validateManualAssetsStore_def unavailable_assets_def res_simps split: jsval.splits option.splits)

lemma validated_incomplete:
  assumes "validateManualAssetsStore store = Inr m" "\<not> ma_complete m"
  shows "ma_incompleteReasons m = [MANUAL_ASSETS_UNAVAILABLE]"
  using assms by (auto simp: validateManualAssetsStore_def unavailable_assets_def res_simps split: jsval.splits option.splits)

end
