(* ===== verification/AccountProjection.thy ===== *)
theory AccountProjection
  imports ManualAssets "HOL-Library.AList"
begin

text \<open>
  Model of \<open>lib/account-projection.js\<close>, \<open>lib/metric-provenance.js\<close> and \<open>lib/splitwise-mirror-account.js\<close>:
  which accounts count for a metric, what makes the metric incomplete, and the net worth and cash metrics.
  A \<open>Set\<close> is the list of its elements, an object keyed by account an association list. The files the mirror
  identity is read from are arguments: what they held, or that reading them failed.
\<close>

section \<open>The mirror account of Splitwise\<close>

definition SPLITWISE_MIRROR_IDENTITY_INVALID :: string where
  "SPLITWISE_MIRROR_IDENTITY_INVALID = ''splitwise_mirror_identity_invalid''"

definition SPLITWISE_MIRROR_MIGRATION_REQUIRED :: string where
  "SPLITWISE_MIRROR_MIGRATION_REQUIRED = ''splitwise_mirror_migration_required''"

record raw_account =
  ra_id :: string
  ra_name :: "string option"
  ra_closed :: bool
  ra_offbudget :: bool
  ra_role :: "string option"

text \<open>\<open>String(v)\<close>\<close>

definition js_string :: "js_env \<Rightarrow> jsval \<Rightarrow> string" where
  "js_string env v = (case v of JStr s \<Rightarrow> s | _ \<Rightarrow> je_text env v)"

fun js_values :: "jsval \<Rightarrow> jsval list" where
  "js_values (JObj ps) = map snd ps"
| "js_values (JArr vs) = vs"
| "js_values _ = []"

definition sagas_of :: "jsval \<Rightarrow> jsval list" where
  "sagas_of state =
     (if object_like (jget state ''sagas'') then js_values (jget state ''sagas'')
      else filter (\<lambda>e. object_like e \<and> jget e ''kind'' = JStr ''splitwise_mirror'') (js_values state))"

definition first_truthy :: "jsval list \<Rightarrow> jsval \<Rightarrow> jsval" where
  "first_truthy vs z = foldr (\<lambda>v w. if truthy v then v else w) vs z"

text \<open>\<open>parse\<close> is \<open>Date.parse\<close>, \<open>None\<close> for \<open>NaN\<close>.\<close>

definition latest_mirror :: "js_env \<Rightarrow> (jsval \<Rightarrow> int option) \<Rightarrow> jsval \<Rightarrow> string option \<times> int \<Rightarrow> string option \<times> int" where
  "latest_mirror env parse saga st =
     (let accountId = jget (jget saga ''mirrorRuntime'') ''accountId'';
          updatedAt = (case parse (first_truthy [jget saga ''updatedAt'', jget saga ''createdAt''] (JStr [])) of
            None \<Rightarrow> 0 | Some t \<Rightarrow> t)
      in if truthy accountId \<and> snd st \<le> updatedAt then (Some (js_string env accountId), updatedAt) else st)"

definition readSagaMirrorAccountId :: "js_env \<Rightarrow> (jsval \<Rightarrow> int option) \<Rightarrow> jsval res option \<Rightarrow> string option" where
  "readSagaMirrorAccountId env parse file =
     (case file of
        None \<Rightarrow> None
      | Some (Inl _) \<Rightarrow> None
      | Some (Inr state) \<Rightarrow> fst (fold (latest_mirror env parse) (sagas_of state) (None, 0)))"

definition readOwesConfigMirrorAccountId :: "js_env \<Rightarrow> jsval res option \<Rightarrow> string option" where
  "readOwesConfigMirrorAccountId env file =
     (case file of
        None \<Rightarrow> None
      | Some (Inl _) \<Rightarrow> None
      | Some (Inr cfg) \<Rightarrow>
          (let own = jget cfg ''mirrorAccountId''; i = (if nullish own then jget cfg ''splitwiseMirrorAccountId'' else own)
           in if nullish i then None else text_or_none (Some (js_trim (js_string env i)))))"

definition findLegacyNameCandidates :: "raw_account list \<Rightarrow> string \<Rightarrow> string list" where
  "findLegacyNameCandidates accounts accountName =
     map ra_id (filter (\<lambda>a. js_lower (text_or (ra_name a) []) = js_lower (text_or (Some accountName) ''Splitwise'')) accounts)"

record mirror_identity =
  mi_accountId :: "string option"
  mi_status :: string
  mi_configuredSources :: "(string \<times> string option) list"
  mi_legacyNameCandidates :: "string list"
  mi_migrationRequired :: bool
  mi_incompleteReasons :: "string list"

definition resolveSplitwiseMirrorIdentity ::
  "raw_account list \<Rightarrow> string option \<Rightarrow> string option \<Rightarrow> string option \<Rightarrow> string \<Rightarrow> mirror_identity" where
  "resolveSplitwiseMirrorIdentity accounts env_id saga_id owes_id accountName =
     (let sources = [(''env'', text_or_none (Some (js_trim (text_or env_id [])))), (''saga'', saga_id), (''owesConfig'', owes_id)];
          legacy = findLegacyNameCandidates accounts accountName;
          ids = js_dedupe (List.map_filter (\<lambda>(_, v). text_or_none v) sources);
          result = (\<lambda>i status migrate reasons. \<lparr>mi_accountId = i, mi_status = status, mi_configuredSources = sources,
            mi_legacyNameCandidates = legacy, mi_migrationRequired = migrate, mi_incompleteReasons = reasons\<rparr>)
      in case ids of
           [i] \<Rightarrow> if i \<in> ra_id ` set accounts then result (Some i) ''valid'' False []
                  else result None ''invalid'' True [SPLITWISE_MIRROR_IDENTITY_INVALID]
         | [] \<Rightarrow> if legacy \<noteq> [] then result None ''migration_required'' True [SPLITWISE_MIRROR_MIGRATION_REQUIRED]
                 else result None ''not_configured'' False []
         | _ \<Rightarrow> result None ''disagreement'' True [SPLITWISE_MIRROR_IDENTITY_INVALID])"

definition isSplitwiseMirrorAccount :: "string \<Rightarrow> string option \<Rightarrow> bool" where
  "isSplitwiseMirrorAccount accountId mirror \<longleftrightarrow> text_or_none mirror = Some accountId"

section \<open>Metrics and roles\<close>

datatype account_metric = Display_list | Net_worth_live | Net_worth_history | Operating_cash | Liquid_cash
  | Forecast_cash | Spending_attribution | Obligation_graph | Goal_feasibility | Notifications_cash

definition NET_WORTH_ROLES :: "string list" where
  "NET_WORTH_ROLES = [''operating_cash'', ''protected_savings'', ''credit_card'', ''loan'', ''investment'']"

definition OPERATING_CASH_ROLES :: "string list" where
  "OPERATING_CASH_ROLES = [''operating_cash'']"

definition LIQUID_CASH_ROLES :: "string list" where
  "LIQUID_CASH_ROLES = [''operating_cash'', ''protected_savings'']"

definition metricNeedsRoleAssignment :: "account_metric \<Rightarrow> bool" where
  "metricNeedsRoleAssignment m \<longleftrightarrow> m \<in> {Net_worth_live, Net_worth_history, Operating_cash, Liquid_cash, Forecast_cash,
     Spending_attribution, Notifications_cash}"

definition balance_dependent :: "account_metric \<Rightarrow> bool" where
  "balance_dependent m \<longleftrightarrow> m \<in> {Net_worth_live, Operating_cash, Liquid_cash, Forecast_cash}"

definition normalizeBalanceCents :: "jsval \<Rightarrow> int option" where
  "normalizeBalanceCents v =
     (case v of
        JNum n \<Rightarrow>
          if \<not> js_is_finite n then None
          else let cents = (if js_is_zero n \<or> of_int \<lfloor>js_val n\<rfloor> = js_val n then n else js_round n) in
            if js_safe_integer cents then Some (js_to_int cents) else None
      | _ \<Rightarrow> None)"

text \<open>The fields whose JSON text is the signature.\<close>

definition topologySignature :: "raw_account \<Rightarrow> string \<times> string \<times> bool \<times> bool \<times> string" where
  "topologySignature a =
     (ra_id a, case ra_name a of None \<Rightarrow> [] | Some n \<Rightarrow> n, ra_closed a, ra_offbudget a,
      case ra_role a of None \<Rightarrow> ''unknown'' | Some r \<Rightarrow> r)"

definition detectDuplicateAccountTopology :: "raw_account list \<Rightarrow> (string \<times> nat \<times> bool) list" where
  "detectDuplicateAccountTopology accounts =
     List.map_filter (\<lambda>i. let rows = filter (\<lambda>a. ra_id a = i) accounts in
       if length rows \<le> 1 then None
       else Some (i, length rows, list_ex (\<lambda>r. topologySignature r \<noteq> topologySignature (hd rows)) rows))
     (js_dedupe (map ra_id accounts))"

definition detectDuplicateAccountIds :: "raw_account list \<Rightarrow> string list" where
  "detectDuplicateAccountIds accounts = map fst (detectDuplicateAccountTopology accounts)"

fun first_occurrences :: "string list \<Rightarrow> string list \<Rightarrow> raw_account list \<Rightarrow> raw_account list" where
  "first_occurrences duplicates seen [] = []"
| "first_occurrences duplicates seen (a # rest) =
     (if ra_id a \<notin> set duplicates then a # first_occurrences duplicates seen rest
      else if ra_id a \<in> set seen then first_occurrences duplicates seen rest
      else a # first_occurrences duplicates (ra_id a # seen) rest)"

definition firstOccurrenceAccounts :: "raw_account list \<Rightarrow> string list \<Rightarrow> raw_account list" where
  "firstOccurrenceAccounts accounts duplicates = first_occurrences duplicates [] accounts"

record override =
  ov_role :: "string option"
  ov_name :: "string option"
  ov_hidden :: bool

definition no_override :: override where
  "no_override = \<lparr>ov_role = None, ov_name = None, ov_hidden = False\<rparr>"

definition given_role :: "raw_account \<Rightarrow> override \<Rightarrow> string option" where
  "given_role a ov =
     (case text_or_none (ov_role ov) of
        Some r \<Rightarrow> Some r
      | None \<Rightarrow> (case text_or_none (ra_role a) of None \<Rightarrow> None | Some r \<Rightarrow> if r = ''unknown'' then None else Some r))"

definition effectiveRole :: "raw_account \<Rightarrow> override \<Rightarrow> string" where
  "effectiveRole a ov = (case given_role a ov of None \<Rightarrow> ''unknown'' | Some r \<Rightarrow> r)"

definition displayNameForAccount :: "raw_account \<Rightarrow> override \<Rightarrow> string" where
  "displayNameForAccount a ov =
     text_or (map_option js_trim (ov_name ov)) (text_or (ra_name a) (ra_id a))"

record account_row =
  rw_id :: string
  rw_actualName :: string
  rw_name :: string
  rw_offbudget :: bool
  rw_closed :: bool
  rw_balance :: "jsnum option"
  rw_balanceCents :: "int option"
  rw_balanceUnavailable :: bool
  rw_hidden :: bool
  rw_role :: string
  rw_roleSource :: string
  rw_splitwiseMirror :: bool
  rw_excludedRole :: bool

definition enrichAccountRow ::
  "raw_account \<Rightarrow> override \<Rightarrow> int option \<Rightarrow> bool \<Rightarrow> string option \<Rightarrow> account_row res" where
  "enrichAccountRow a ov balanceCents unavailable mirror =
     ebind (case balanceCents of None \<Rightarrow> Inr None | Some c \<Rightarrow> ebind (fromCents c) (\<lambda>d. Inr (Some d))) (\<lambda>balance. Inr
       \<lparr>rw_id = ra_id a, rw_actualName = text_or (ra_name a) (ra_id a), rw_name = displayNameForAccount a ov,
        rw_offbudget = ra_offbudget a, rw_closed = ra_closed a, rw_balance = balance, rw_balanceCents = balanceCents,
        rw_balanceUnavailable = unavailable, rw_hidden = ov_hidden ov, rw_role = effectiveRole a ov,
        rw_roleSource = (if given_role a ov = None then ''unknown'' else ''explicit''),
        rw_splitwiseMirror = isSplitwiseMirrorAccount (ra_id a) mirror,
        rw_excludedRole = (effectiveRole a ov = ''excluded'')\<rparr>)"

definition isDecisionExcluded :: "account_row \<Rightarrow> bool" where
  "isDecisionExcluded row \<longleftrightarrow> rw_hidden row \<or> rw_excludedRole row"

definition unknownRoleBlocksMetric :: "account_metric \<Rightarrow> account_row \<Rightarrow> bool" where
  "unknownRoleBlocksMetric m row =
     (if rw_role row \<noteq> ''unknown'' then False
      else if rw_closed row \<and> m = Net_worth_history then False
      else case m of
        Net_worth_live \<Rightarrow> \<not> rw_closed row \<and> \<not> isDecisionExcluded row \<and> \<not> rw_splitwiseMirror row
      | Net_worth_history \<Rightarrow> \<not> rw_closed row \<and> \<not> isDecisionExcluded row \<and> \<not> rw_splitwiseMirror row
      | Operating_cash \<Rightarrow> \<not> rw_closed row \<and> \<not> rw_hidden row
      | Forecast_cash \<Rightarrow> \<not> rw_closed row \<and> \<not> rw_hidden row
      | Liquid_cash \<Rightarrow> \<not> rw_closed row \<and> \<not> rw_hidden row
      | Spending_attribution \<Rightarrow> \<not> rw_closed row \<and> \<not> rw_offbudget row \<and> \<not> isDecisionExcluded row
      | Notifications_cash \<Rightarrow> \<not> rw_closed row \<and> \<not> rw_hidden row \<and> \<not> rw_offbudget row
      | _ \<Rightarrow> False)"

definition unknownReasonForMetric :: "account_metric \<Rightarrow> string" where
  "unknownReasonForMetric m =
     (case m of
        Net_worth_live \<Rightarrow> ''net_worth_role_unknown''
      | Net_worth_history \<Rightarrow> ''net_worth_role_unknown''
      | Operating_cash \<Rightarrow> ''operating_cash_role_unknown''
      | Forecast_cash \<Rightarrow> ''operating_cash_role_unknown''
      | Liquid_cash \<Rightarrow> ''liquid_cash_role_unknown''
      | Spending_attribution \<Rightarrow> ''spending_role_unknown''
      | _ \<Rightarrow> ''account_roles_unassigned'')"

definition splitwiseReasonsForMetric :: "account_metric \<Rightarrow> mirror_identity option \<Rightarrow> string list" where
  "splitwiseReasonsForMetric m identity =
     (case identity of
        None \<Rightarrow> []
      | Some i \<Rightarrow>
          if \<not> metricNeedsRoleAssignment m then []
          else if mi_incompleteReasons i \<noteq> [] then mi_incompleteReasons i
          else if mi_migrationRequired i \<and> mi_legacyNameCandidates i \<noteq> [] then [SPLITWISE_MIRROR_MIGRATION_REQUIRED]
          else [])"

definition includeForMetric :: "account_metric \<Rightarrow> account_row \<Rightarrow> bool" where
  "includeForMetric m row =
     (if rw_splitwiseMirror row then m = Spending_attribution \<and> \<not> rw_closed row \<and> \<not> rw_offbudget row
      else case m of
        Display_list \<Rightarrow> \<not> rw_closed row \<and> \<not> rw_splitwiseMirror row
      | Net_worth_live \<Rightarrow> \<not> rw_closed row \<and> \<not> isDecisionExcluded row \<and> rw_role row \<in> set NET_WORTH_ROLES
      | Net_worth_history \<Rightarrow> \<not> isDecisionExcluded row \<and> rw_role row \<in> set NET_WORTH_ROLES
      | Operating_cash \<Rightarrow> \<not> rw_closed row \<and> \<not> rw_hidden row \<and> rw_role row \<in> set OPERATING_CASH_ROLES
      | Forecast_cash \<Rightarrow> \<not> rw_closed row \<and> \<not> rw_hidden row \<and> rw_role row \<in> set OPERATING_CASH_ROLES
      | Liquid_cash \<Rightarrow> \<not> rw_closed row \<and> \<not> rw_hidden row \<and> rw_role row \<in> set LIQUID_CASH_ROLES
      | Spending_attribution \<Rightarrow> \<not> rw_closed row \<and> \<not> rw_offbudget row \<and> \<not> isDecisionExcluded row
      | Obligation_graph \<Rightarrow> \<not> rw_closed row \<and> \<not> isDecisionExcluded row
      | Goal_feasibility \<Rightarrow> \<not> rw_closed row
      | Notifications_cash \<Rightarrow>
          \<not> rw_closed row \<and> \<not> rw_hidden row \<and> \<not> rw_offbudget row \<and> rw_role row \<in> set OPERATING_CASH_ROLES)"

definition visibleForMetric :: "account_metric \<Rightarrow> account_row \<Rightarrow> bool" where
  "visibleForMetric m row =
     (if m = Display_list then \<not> rw_hidden row else if m = Goal_feasibility then True else includeForMetric m row)"

record inclusion_flags =
  if_netWorth :: bool
  if_operatingCash :: bool
  if_liquidCash :: bool
  if_spending :: bool
  if_obligations :: bool
  if_forecast :: bool

definition buildInclusionFlags :: "account_row \<Rightarrow> inclusion_flags" where
  "buildInclusionFlags row =
     \<lparr>if_netWorth = includeForMetric Net_worth_live row, if_operatingCash = includeForMetric Operating_cash row,
      if_liquidCash = includeForMetric Liquid_cash row, if_spending = includeForMetric Spending_attribution row,
      if_obligations = includeForMetric Obligation_graph row, if_forecast = includeForMetric Forecast_cash row\<rparr>"

section \<open>The projection\<close>

record projection_input =
  pi_accountsRaw :: "raw_account list"
  pi_balancesById :: "(string \<times> jsval) list"
  pi_balanceUnavailableIds :: "string list"
  pi_duplicateAccountIds :: "string list"
  pi_overrides :: "(string \<times> override) list"
  pi_metric :: "account_metric option"
  pi_mirrorAccountId :: "string option"
  pi_mirrorIdentity :: "mirror_identity option"
  pi_financeDate :: "string option"

definition balance_of :: "projection_input \<Rightarrow> string \<Rightarrow> int option" where
  "balance_of inp i =
     (case map_of (pi_balancesById inp) i of
        Some (JNum n) \<Rightarrow> if js_safe_integer n then Some (js_to_int n) else None
      | _ \<Rightarrow> None)"

text \<open>What the revision hashes; \<open>overrides\<close> goes into the text as it is and is given as JSON.\<close>

definition opt_json :: "string option \<Rightarrow> jsval" where
  "opt_json v = (case v of None \<Rightarrow> JNull | Some s \<Rightarrow> JStr s)"

definition account_json :: "(string \<times> jsval) list \<Rightarrow> raw_account \<Rightarrow> jsval" where
  "account_json balances a =
     JObj [(''id'', JStr (ra_id a)), (''closed'', JBool (ra_closed a)), (''offbudget'', JBool (ra_offbudget a)),
       (''balanceCents'', case map_of balances (ra_id a) of None \<Rightarrow> JNull | Some v \<Rightarrow> if nullish v then JNull else v)]"

definition accountProjectionRevision :: "js_env \<Rightarrow> jsval \<Rightarrow> projection_input \<Rightarrow> string" where
  "accountProjectionRevision env overrides_json inp =
     je_hash env (JObj
       [(''overrides'', overrides_json),
        (''accounts'', JArr (map (account_json (pi_balancesById inp))
          (sort_by (\<lambda>a b. je_collate env (ra_id a) (ra_id b) \<le> 0) (pi_accountsRaw inp)))),
        (''splitwiseMirrorAccountId'', opt_json (pi_mirrorAccountId inp)),
        (''splitwiseMirrorIdentity'', case pi_mirrorIdentity inp of
           None \<Rightarrow> JNull
         | Some i \<Rightarrow> JObj [(''status'', JStr (mi_status i)), (''accountId'', opt_json (mi_accountId i)),
             (''configuredSources'', JObj (map (\<lambda>(k, v). (k, opt_json v)) (mi_configuredSources i)))])])"

text \<open>Fields that are constant, or copies of arguments, are left out of the results.\<close>

record projection_scope =
  ps_metric :: account_metric
  ps_financeDate :: "string option"
  ps_mirrorAccountId :: "string option"
  ps_mirrorIdentity :: "(string \<times> (string \<times> string option) list \<times> string list \<times> bool) option"
  ps_resolvedBy :: string
  ps_duplicateAccountIds :: "string list"
  ps_includesClosedAccountHistory :: bool

record account_projection =
  ap_accounts :: "account_row list"
  ap_includedIds :: "string list"
  ap_visibleIds :: "string list"
  ap_excludedReasons :: "(string \<times> string) list"
  ap_incompleteReasons :: "string list"
  ap_revision :: string
  ap_scope :: projection_scope
  ap_displayNameById :: "(string \<times> string) list"

text \<open>\<open>if (!xs.includes(x)) xs.push(x)\<close>\<close>

definition push_new :: "'a \<Rightarrow> 'a list \<Rightarrow> 'a list" where
  "push_new x xs = (if x \<in> set xs then xs else xs @ [x])"

definition override_of :: "projection_input \<Rightarrow> raw_account \<Rightarrow> override" where
  "override_of inp a = (case map_of (pi_overrides inp) (ra_id a) of None \<Rightarrow> no_override | Some ov \<Rightarrow> ov)"

definition project_row :: "projection_input \<Rightarrow> raw_account \<Rightarrow> account_row res" where
  "project_row inp a =
     (let balance = balance_of inp (ra_id a) in
      enrichAccountRow a (override_of inp a) balance
        (ra_id a \<in> set (pi_balanceUnavailableIds inp) \<or> balance = None) (pi_mirrorAccountId inp))"

definition role_reasons :: "projection_input \<Rightarrow> account_metric \<Rightarrow> account_row list \<Rightarrow> string list" where
  "role_reasons inp m rows =
     (let needs = metricNeedsRoleAssignment m;
          r0 = (if js_dedupe (pi_duplicateAccountIds inp) \<noteq> [] \<and> needs then [''account_identity_duplicate''] else []);
          r1 = fold push_new (splitwiseReasonsForMetric m (pi_mirrorIdentity inp)) r0
      in if needs
         then fold (\<lambda>row r. if unknownRoleBlocksMetric m row then push_new (unknownReasonForMetric m) r else r) rows r1
         else r1)"

definition excluded_reason :: "account_metric \<Rightarrow> account_row \<Rightarrow> string option" where
  "excluded_reason m row =
     (if rw_hidden row then Some ''hidden''
      else if rw_excludedRole row then Some ''excluded''
      else if rw_splitwiseMirror row \<and> m \<noteq> Spending_attribution then Some ''splitwise_mirror''
      else if rw_closed row \<and> m = Net_worth_live then Some ''closed''
      else None)"

definition balance_reasons :: "account_metric \<Rightarrow> account_row list \<Rightarrow> string list \<Rightarrow> string list \<Rightarrow> string list" where
  "balance_reasons m rows included r =
     (if balance_dependent m \<and> list_ex (\<lambda>row. rw_id row \<in> set included \<and> rw_balanceCents row = None) rows
      then push_new ''account_balance_unavailable'' r else r)"

definition projectAccounts :: "js_env \<Rightarrow> jsval \<Rightarrow> projection_input \<Rightarrow> account_projection res" where
  "projectAccounts env overrides_json inp =
     (case pi_metric inp of
        None \<Rightarrow> Inl (PlainError ''metric required'')
      | Some m \<Rightarrow>
          (let duplicates = js_dedupe (pi_duplicateAccountIds inp) in
           ebind (emap (project_row inp) (firstOccurrenceAccounts (pi_accountsRaw inp) duplicates)) (\<lambda>rows.
             let included = js_dedupe (map rw_id (filter (includeForMetric m) rows)) in Inr
             \<lparr>ap_accounts = rows, ap_includedIds = included,
              ap_visibleIds = js_dedupe (map rw_id (filter (visibleForMetric m) rows)),
              ap_excludedReasons = fold (\<lambda>row out. case excluded_reason m row of None \<Rightarrow> out
                | Some r \<Rightarrow> AList.update (rw_id row) r out) rows [],
              ap_incompleteReasons = balance_reasons m rows included (role_reasons inp m rows),
              ap_revision = accountProjectionRevision env overrides_json inp,
              ap_scope = \<lparr>ps_metric = m, ps_financeDate = pi_financeDate inp, ps_mirrorAccountId = pi_mirrorAccountId inp,
                ps_mirrorIdentity = map_option (\<lambda>i. (mi_status i, mi_configuredSources i, mi_legacyNameCandidates i,
                  mi_migrationRequired i)) (pi_mirrorIdentity inp),
                ps_resolvedBy = (if text_or_none (pi_mirrorAccountId inp) = None then ''none'' else ''configured_identity''),
                ps_duplicateAccountIds = duplicates,
                ps_includesClosedAccountHistory = (m = Net_worth_history)\<rparr>,
              ap_displayNameById = fold (\<lambda>row out. AList.update (rw_id row) (rw_name row) out) rows []\<rparr>)))"

definition accountFilter :: "account_projection \<Rightarrow> raw_account \<Rightarrow> bool" where
  "accountFilter p a \<longleftrightarrow> ra_id a \<in> set (ap_includedIds p)"

section \<open>The metrics\<close>

datatype metric_source = Actual_account string string | Manual_assets_source | Manual_liabilities_source

record metric_value =
  mv_value :: "jsnum option"
  mv_valueCents :: "int option"
  mv_complete :: bool
  mv_incompleteReasons :: "string list"
  mv_metric :: string
  mv_asOf :: string
  mv_financeDate :: "string option"
  mv_sources :: "metric_source list"
  mv_method :: string
  mv_excludes :: "string list"

definition metricValue ::
  "string \<Rightarrow> (jsnum \<times> int) option \<Rightarrow> bool \<Rightarrow> string \<Rightarrow> string option \<Rightarrow> metric_source list \<Rightarrow> string \<Rightarrow> string list \<Rightarrow>
    string list \<Rightarrow> metric_value" where
  "metricValue metric val is_complete asOf financeDate sources method excludes reasons =
     \<lparr>mv_value = (if is_complete then map_option fst val else None),
      mv_valueCents = (if is_complete then map_option snd val else None), mv_complete = is_complete,
      mv_incompleteReasons = (if is_complete then [] else js_dedupe (filter (\<lambda>r. r \<noteq> []) reasons)),
      mv_metric = metric, mv_asOf = asOf, mv_financeDate = financeDate, mv_sources = sources, mv_method = method,
      mv_excludes = excludes\<rparr>"

definition included_rows :: "account_projection \<Rightarrow> account_row list" where
  "included_rows p = filter (\<lambda>row. rw_id row \<in> set (ap_includedIds p)) (ap_accounts p)"

definition sumIncludedBalanceCents :: "account_projection \<Rightarrow> int res" where
  "sumIncludedBalanceCents p =
     ebind (emap (\<lambda>row. case rw_balanceCents row of
         None \<Rightarrow> Inl (PlainError ''sumIncludedBalanceCents requires complete balances'') | Some c \<Rightarrow> Inr c) (included_rows p))
       sumCents"

definition account_sources :: "account_projection \<Rightarrow> metric_source list" where
  "account_sources p = map (\<lambda>row. Actual_account (rw_id row) (rw_role row)) (included_rows p)"

definition net_worth_excludes :: "string list" where
  "net_worth_excludes = [''hidden accounts'', ''excluded roles'', ''splitwise mirror ledger'']"

definition buildNetWorthMetric ::
  "account_projection \<Rightarrow> manual_assets \<Rightarrow> string \<Rightarrow> string option \<Rightarrow> string \<Rightarrow> metric_value res" where
  "buildNetWorthMetric p assets asOf financeDate metric =
     (let reasons = (if ma_complete assets then ap_incompleteReasons p
          else fold push_new (ma_incompleteReasons assets) (ap_incompleteReasons p)) in
      if reasons \<noteq> []
      then Inr (metricValue metric None False asOf financeDate [] ''account-projection'' net_worth_excludes reasons)
      else
        ebind (sumIncludedBalanceCents p) (\<lambda>ledger.
        let assetCents = (case ma_assetCents assets of None \<Rightarrow> 0 | Some c \<Rightarrow> c);
            liabilityCents = (case ma_liabilityCents assets of None \<Rightarrow> 0 | Some c \<Rightarrow> c) in
        ebind (sumCents [ledger, assetCents, - liabilityCents]) (\<lambda>cents.
        ebind (fromCents cents) (\<lambda>dollars. Inr
          (metricValue metric (Some (dollars, cents)) True asOf financeDate
            (account_sources p @ (if 0 < assetCents then [Manual_assets_source] else []) @
              (if 0 < liabilityCents then [Manual_liabilities_source] else []))
            ''account-projection'' net_worth_excludes [])))))"

definition buildBalanceMetric ::
  "account_projection \<Rightarrow> string \<Rightarrow> string \<Rightarrow> string option \<Rightarrow> metric_value res" where
  "buildBalanceMetric p metric asOf financeDate =
     (if ap_incompleteReasons p \<noteq> []
      then Inr (metricValue metric None False asOf financeDate [] ''account-projection'' [] (ap_incompleteReasons p))
      else
        ebind (sumIncludedBalanceCents p) (\<lambda>cents.
        ebind (fromCents cents) (\<lambda>dollars. Inr
          (metricValue metric (Some (dollars, cents)) True asOf financeDate (account_sources p) ''account-projection''
            ((if metric = ''liquid_cash'' then [] else [''protected savings'']) @ [''credit availability'', ''investments'']) []))))"

record account_listing =
  al_id :: string
  al_name :: string
  al_offbudget :: bool
  al_balance :: "jsnum option"
  al_hidden :: bool
  al_role :: string
  al_roleSource :: string
  al_inclusion :: inclusion_flags

definition attachInclusionToAccountRow :: "account_row \<Rightarrow> account_listing" where
  "attachInclusionToAccountRow row =
     \<lparr>al_id = rw_id row, al_name = rw_name row, al_offbudget = rw_offbudget row, al_balance = rw_balance row,
      al_hidden = rw_hidden row, al_role = rw_role row, al_roleSource = rw_roleSource row,
      al_inclusion = buildInclusionFlags row\<rparr>"

section \<open>What is counted\<close>

lemma project_row_facts:
  assumes "project_row inp a = Inr row"
  shows "rw_id row = ra_id a" "rw_closed row = ra_closed a" "rw_balanceCents row = balance_of inp (ra_id a)"
    "rw_excludedRole row \<longleftrightarrow> rw_role row = ''excluded''"
    "rw_splitwiseMirror row = isSplitwiseMirrorAccount (ra_id a) (pi_mirrorAccountId inp)"
    "rw_hidden row = ov_hidden (override_of inp a)" "rw_role row = effectiveRole a (override_of inp a)"
  using assms by (auto simp: project_row_def enrichAccountRow_def Let_def ebind_eq_Inr)

lemma first_occurrences_filter:
  "filter (\<lambda>a. ra_id a = i) (first_occurrences dup seen accs) =
     (if i \<notin> set dup then filter (\<lambda>a. ra_id a = i) accs
      else if i \<in> set seen then [] else take 1 (filter (\<lambda>a. ra_id a = i) accs))"
  by (induction dup seen accs rule: first_occurrences.induct) (auto simp: filter_empty_conv)

lemma not_duplicate_once:
  assumes "i \<notin> set (detectDuplicateAccountIds accs)"
  shows "length (filter (\<lambda>a. ra_id a = i) accs) \<le> 1"
proof (rule ccontr)
  assume *: "\<not> length (filter (\<lambda>a. ra_id a = i) accs) \<le> 1"
  then have "filter (\<lambda>a. ra_id a = i) accs \<noteq> []" by auto
  then have "i \<in> set (js_dedupe (map ra_id accs))" by (force simp: filter_empty_conv)
  with * have "i \<in> set (detectDuplicateAccountIds accs)"
    by (force simp: detectDuplicateAccountIds_def detectDuplicateAccountTopology_def List.map_filter_def Let_def image_iff)
  with assms show False by simp
qed

lemma distinct_if_once:
  assumes "\<And>i. length (filter (\<lambda>a. f a = i) xs) \<le> 1"
  shows "distinct (map f xs)"
  using assms
proof (induction xs)
  case (Cons x xs)
  have "length (filter (\<lambda>a. f a = i) xs) \<le> 1" for i using Cons.prems [of i] by (simp split: if_splits)
  moreover have "f x \<notin> f ` set xs"
    using Cons.prems [of "f x"] by (auto simp: filter_empty_conv)
  ultimately show ?case using Cons.IH by simp
qed simp

lemma first_occurrences_distinct:
  "distinct (map ra_id (firstOccurrenceAccounts accs (detectDuplicateAccountIds accs)))"
proof (rule distinct_if_once)
  fix i
  show "length (filter (\<lambda>a. ra_id a = i) (firstOccurrenceAccounts accs (detectDuplicateAccountIds accs))) \<le> 1"
    using not_duplicate_once [of i accs] by (auto simp: firstOccurrenceAccounts_def first_occurrences_filter)
qed

lemma first_occurrences_subset: "set (firstOccurrenceAccounts accs dup) \<subseteq> set accs"
proof -
  have "set (first_occurrences dup seen accs) \<subseteq> set accs" for seen
    by (induction dup seen accs rule: first_occurrences.induct) auto
  then show ?thesis by (simp add: firstOccurrenceAccounts_def)
qed

lemma set_push_new [simp]: "set (push_new x xs) = insert x (set xs)"
  by (auto simp: push_new_def)

lemma push_new_not_Nil [simp]: "push_new x xs \<noteq> []"
  by (cases xs) (auto simp: push_new_def)

lemma set_fold_push_new: "set (fold push_new ys xs) = set ys \<union> set xs"
  by (induction ys arbitrary: xs) auto

lemma set_role_fold:
  "set (fold (\<lambda>row r. if blocks row then push_new z r else r) rows r) = set r \<union> (if \<exists>row \<in> set rows. blocks row then {z} else {})"
  by (induction rows arbitrary: r) auto

definition row_of :: "projection_input \<Rightarrow> raw_account \<Rightarrow> account_row" where
  "row_of inp a = projr (project_row inp a)"

lemma fromCents_safe: "safe_int c \<Longrightarrow> \<exists>d. fromCents c = Inr d"
  by (auto simp: fromCents_def fromCents_num_def safe_int_def)

lemma balance_of_safe: "balance_of inp i = Some c \<Longrightarrow> safe_int c"
proof -
  assume "balance_of inp i = Some c"
  then obtain n where "js_safe_integer n" "c = js_to_int n"
    by (auto simp: balance_of_def split: option.splits jsval.splits if_splits)
  then show ?thesis by (cases n) (auto simp: safe_int_def max_safe_def)
qed

lemma project_row_total: "project_row inp a = Inr (row_of inp a)"
proof -
  have "\<exists>row. project_row inp a = Inr row"
    using balance_of_safe [of inp "ra_id a"] fromCents_safe
    by (cases "balance_of inp (ra_id a)") (fastforce simp: project_row_def enrichAccountRow_def Let_def)+
  then show ?thesis by (auto simp: row_of_def)
qed

lemmas row_of_simps [simp] = project_row_facts [OF project_row_total]

lemma emap_always: "(\<And>x. f x = Inr (g x)) \<Longrightarrow> emap f xs = Inr (map g xs)"
  by (induction xs) simp_all

text \<open>What stops a metric: accounts counted twice, a doubtful mirror, unknown roles, missing balances.\<close>

definition metric_ready :: "projection_input \<Rightarrow> account_metric \<Rightarrow> bool" where
  "metric_ready inp m \<longleftrightarrow>
     distinct (map ra_id (pi_accountsRaw inp)) \<and> splitwiseReasonsForMetric m (pi_mirrorIdentity inp) = [] \<and>
     (\<forall>a \<in> set (pi_accountsRaw inp). \<not> unknownRoleBlocksMetric m (row_of inp a) \<and>
       (includeForMetric m (row_of inp a) \<longrightarrow> balance_of inp (ra_id a) \<noteq> None))"

lemma no_duplicates_iff: "detectDuplicateAccountIds accs = [] \<longleftrightarrow> distinct (map ra_id accs)"
proof
  assume "detectDuplicateAccountIds accs = []"
  then show "distinct (map ra_id accs)" using not_duplicate_once [of _ accs] by (intro distinct_if_once) simp
next
  assume d: "distinct (map ra_id accs)"
  have "length (filter (\<lambda>a. ra_id a = i) accs) \<le> 1" for i
  proof -
    have "length (filter (\<lambda>a. ra_id a = i) accs) = length (filter (\<lambda>j. j = i) (map ra_id accs))"
      by (simp add: filter_map comp_def)
    also have "\<dots> \<le> 1" using distinct_length_filter [OF d, of "\<lambda>j. j = i"]
      card_mono [of "{i}" "{j. j = i} \<inter> set (map ra_id accs)"] by simp
    finally show ?thesis .
  qed
  then show "detectDuplicateAccountIds accs = []"
    by (auto simp: detectDuplicateAccountIds_def detectDuplicateAccountTopology_def List.map_filter_def Let_def filter_empty_conv)
qed

lemma first_occurrences_none: "firstOccurrenceAccounts accs [] = accs"
proof -
  have "first_occurrences [] seen accs = accs" for seen by (induction accs) simp_all
  then show ?thesis by (simp add: firstOccurrenceAccounts_def)
qed

lemma projection_fields:
  assumes "projectAccounts env overrides_json inp = Inr p" "pi_metric inp = Some m"
  shows "ap_accounts p = map (row_of inp) (firstOccurrenceAccounts (pi_accountsRaw inp) (js_dedupe (pi_duplicateAccountIds inp)))"
    and "set (ap_includedIds p) = rw_id ` {row \<in> set (ap_accounts p). includeForMetric m row}"
    and "ap_incompleteReasons p = balance_reasons m (ap_accounts p) (ap_includedIds p) (role_reasons inp m (ap_accounts p))"
  using assms by (auto simp: projectAccounts_def Let_def emap_always [OF project_row_total])

lemma included_iff:
  assumes "distinct (map rw_id rows)" "row \<in> set rows"
  shows "rw_id row \<in> rw_id ` {r \<in> set rows. P r} \<longleftrightarrow> P row"
  using assms by (auto simp: distinct_map inj_on_def)

lemma role_reasons_Nil_iff:
  assumes "metricNeedsRoleAssignment m"
  shows "role_reasons inp m rows = [] \<longleftrightarrow> js_dedupe (pi_duplicateAccountIds inp) = [] \<and>
    splitwiseReasonsForMetric m (pi_mirrorIdentity inp) = [] \<and> (\<forall>row \<in> set rows. \<not> unknownRoleBlocksMetric m row)"
proof -
  have "role_reasons inp m rows = [] \<longleftrightarrow> set (role_reasons inp m rows) = {}" by simp
  also have "\<dots> \<longleftrightarrow> js_dedupe (pi_duplicateAccountIds inp) = [] \<and>
    splitwiseReasonsForMetric m (pi_mirrorIdentity inp) = [] \<and> (\<forall>row \<in> set rows. \<not> unknownRoleBlocksMetric m row)"
    using assms by (auto simp: role_reasons_def Let_def set_role_fold set_fold_push_new simp del: set_empty split: if_splits)
  finally show ?thesis .
qed

lemma js_dedupe_Nil_iff [simp]: "js_dedupe xs = [] \<longleftrightarrow> xs = []"
  by (cases xs) simp_all

lemma projection_complete_iff:
  assumes "projectAccounts env overrides_json inp = Inr p" "pi_metric inp = Some m"
    and "pi_duplicateAccountIds inp = detectDuplicateAccountIds (pi_accountsRaw inp)"
    and "metricNeedsRoleAssignment m" "balance_dependent m"
  shows "ap_incompleteReasons p = [] \<longleftrightarrow> metric_ready inp m"
proof (cases "distinct (map ra_id (pi_accountsRaw inp))")
  case False
  then have "pi_duplicateAccountIds inp \<noteq> []" using assms(3) no_duplicates_iff by simp
  then have "role_reasons inp m (ap_accounts p) \<noteq> []" using role_reasons_Nil_iff [OF assms(4)] by auto
  then show ?thesis using False by (simp add: projection_fields(3) [OF assms(1,2)] balance_reasons_def metric_ready_def)
next
  case True
  then have none: "pi_duplicateAccountIds inp = []" using assms(3) no_duplicates_iff by simp
  then have rows: "ap_accounts p = map (row_of inp) (pi_accountsRaw inp)"
    by (simp add: projection_fields(1) [OF assms(1,2)] first_occurrences_none)
  have inc: "ra_id a \<in> set (ap_includedIds p) \<longleftrightarrow> includeForMetric m (row_of inp a)"
    if "a \<in> set (pi_accountsRaw inp)" for a
    using included_iff [of "ap_accounts p" "row_of inp a" "includeForMetric m"] True that
    by (simp add: projection_fields(2) [OF assms(1,2)] rows comp_def)
  have "ap_incompleteReasons p = [] \<longleftrightarrow> role_reasons inp m (ap_accounts p) = [] \<and>
      (\<forall>a \<in> set (pi_accountsRaw inp). includeForMetric m (row_of inp a) \<longrightarrow> balance_of inp (ra_id a) \<noteq> None)"
    using inc assms(5)
    by (auto simp: projection_fields(3) [OF assms(1,2)] balance_reasons_def rows list_ex_iff split: if_splits)
  also have "\<dots> \<longleftrightarrow> metric_ready inp m"
    using True none by (auto simp: role_reasons_Nil_iff [OF assms(4)] rows metric_ready_def)
  finally show ?thesis .
qed

lemma included_sum:
  assumes "projectAccounts env overrides_json inp = Inr p" "pi_metric inp = Some m"
    and "pi_duplicateAccountIds inp = detectDuplicateAccountIds (pi_accountsRaw inp)" "metric_ready inp m"
    and "sumIncludedBalanceCents p = Inr c"
  shows "c = (\<Sum>a \<leftarrow> filter (\<lambda>a. includeForMetric m (row_of inp a)) (pi_accountsRaw inp). the (balance_of inp (ra_id a)))"
proof -
  have d: "distinct (map ra_id (pi_accountsRaw inp))" using assms(4) by (simp add: metric_ready_def)
  then have none: "pi_duplicateAccountIds inp = []" using assms(3) no_duplicates_iff by simp
  have rows: "ap_accounts p = map (row_of inp) (pi_accountsRaw inp)"
    by (simp add: projection_fields(1) [OF assms(1,2)] none first_occurrences_none)
  have "included_rows p = filter (includeForMetric m) (ap_accounts p)"
    unfolding included_rows_def projection_fields(2) [OF assms(1,2)]
    by (intro filter_cong refl included_iff) (use d in \<open>simp_all add: rows comp_def\<close>)
  then have rows': "included_rows p = map (row_of inp) (filter (\<lambda>a. includeForMetric m (row_of inp a)) (pi_accountsRaw inp))"
    by (simp add: rows filter_map comp_def)
  let ?f = "\<lambda>row. case rw_balanceCents row of
     None \<Rightarrow> Inl (PlainError ''sumIncludedBalanceCents requires complete balances'') | Some c \<Rightarrow> Inr c"
  obtain cs where cs: "emap ?f (included_rows p) = Inr cs" "sumCents cs = Inr c"
    using assms(5) by (auto simp: sumIncludedBalanceCents_def ebind_eq_Inr)
  have "emap ?f rows = Inr cs \<Longrightarrow> cs = map (\<lambda>r. the (rw_balanceCents r)) rows" for rows
    by (induction rows arbitrary: cs) (auto simp: ebind_eq_Inr split: option.splits)
  from this [OF cs(1)] show ?thesis using sumCents_Inr [OF cs(2)] by (simp add: rows' comp_def)
qed

section \<open>Properties\<close>

text \<open>
  The accounts that count for net worth, in terms of what the user sees: open, not hidden, not the Splitwise
  mirror, and of one of the five roles.
\<close>

definition net_worth_account :: "projection_input \<Rightarrow> raw_account \<Rightarrow> bool" where
  "net_worth_account inp a \<longleftrightarrow> \<not> ra_closed a \<and> \<not> ov_hidden (override_of inp a) \<and>
     \<not> isSplitwiseMirrorAccount (ra_id a) (pi_mirrorAccountId inp) \<and>
     effectiveRole a (override_of inp a) \<in> set NET_WORTH_ROLES"

lemma net_worth_account_iff: "includeForMetric Net_worth_live (row_of inp a) \<longleftrightarrow> net_worth_account inp a"
  by (auto simp: includeForMetric_def net_worth_account_def isDecisionExcluded_def NET_WORTH_ROLES_def)

lemma mv_complete_metricValue [simp]:
  "mv_complete (metricValue n v c t d s mt e r) = c" "mv_valueCents (metricValue n v c t d s mt e r) = (if c then map_option snd v else None)"
  "mv_incompleteReasons (metricValue n v c t d s mt e r) = (if c then [] else js_dedupe (filter (\<lambda>r. r \<noteq> []) r))"
  by (simp_all add: metricValue_def)

lemma fold_push_new_Nil_iff [simp]: "fold push_new rs xs = [] \<longleftrightarrow> rs = [] \<and> xs = []"
  using set_fold_push_new [of rs xs] by (metis Un_empty set_empty)

lemma net_worth_cases:
  assumes "buildNetWorthMetric p assets asOf financeDate metric = Inr v"
  shows "mv_complete v \<longleftrightarrow> ap_incompleteReasons p = [] \<and> (ma_complete assets \<or> ma_incompleteReasons assets = [])"
    and "\<not> mv_complete v \<Longrightarrow> mv_valueCents v = None"
    and "mv_complete v \<Longrightarrow> \<exists>ledger. sumIncludedBalanceCents p = Inr ledger \<and>
      mv_valueCents v = Some (ledger + (case ma_assetCents assets of None \<Rightarrow> 0 | Some c \<Rightarrow> c) -
        (case ma_liabilityCents assets of None \<Rightarrow> 0 | Some c \<Rightarrow> c))"
proof -
  let ?reasons = "if ma_complete assets then ap_incompleteReasons p
    else fold push_new (ma_incompleteReasons assets) (ap_incompleteReasons p)"
  have n: "?reasons = [] \<longleftrightarrow> ap_incompleteReasons p = [] \<and> (ma_complete assets \<or> ma_incompleteReasons assets = [])"
    by auto
  have *: "if ?reasons \<noteq> [] then \<not> mv_complete v \<and> mv_valueCents v = None
    else mv_complete v \<and> (\<exists>ledger. sumIncludedBalanceCents p = Inr ledger \<and>
      mv_valueCents v = Some (ledger + (case ma_assetCents assets of None \<Rightarrow> 0 | Some c \<Rightarrow> c) -
        (case ma_liabilityCents assets of None \<Rightarrow> 0 | Some c \<Rightarrow> c)))"
  proof (cases "?reasons = []")
    case False
    then show ?thesis using assms by (auto simp: buildNetWorthMetric_def Let_def)
  next
    case True
    then obtain ledger cents where "sumIncludedBalanceCents p = Inr ledger"
      "sumCents [ledger, case ma_assetCents assets of None \<Rightarrow> 0 | Some c \<Rightarrow> c,
        - (case ma_liabilityCents assets of None \<Rightarrow> 0 | Some c \<Rightarrow> c)] = Inr cents"
      "mv_complete v" "mv_valueCents v = Some cents"
      using assms unfolding buildNetWorthMetric_def Let_def by (auto simp only: simp_thms ebind_eq_Inr if_False not_not mv_complete_metricValue sum.inject option.map snd_conv if_True)
    then show ?thesis using True sumCents_Inr by fastforce
  qed
  from * n show "mv_complete v \<longleftrightarrow> ap_incompleteReasons p = [] \<and> (ma_complete assets \<or> ma_incompleteReasons assets = [])"
    by presburger
  from * show "\<not> mv_complete v \<Longrightarrow> mv_valueCents v = None" by presburger
  from * show "mv_complete v \<Longrightarrow> \<exists>ledger. sumIncludedBalanceCents p = Inr ledger \<and>
      mv_valueCents v = Some (ledger + (case ma_assetCents assets of None \<Rightarrow> 0 | Some c \<Rightarrow> c) -
        (case ma_liabilityCents assets of None \<Rightarrow> 0 | Some c \<Rightarrow> c))"
    by presburger
qed

text \<open>
  C16: Net worth is exact or withheld: it is complete exactly when no account is listed twice, the Splitwise
  mirror is settled, every open account in sight has a known role, every counted account has a balance and
  the manual assets are valid; then it is the sum of the balances of the counted accounts, each once, plus the
  manual assets minus the manual liabilities, to the cent. Otherwise there is no value.
\<close>

theorem net_worth_exact:
  assumes "projectAccounts env overrides_json inp = Inr p" "pi_metric inp = Some Net_worth_live"
    and "pi_duplicateAccountIds inp = detectDuplicateAccountIds (pi_accountsRaw inp)"
    and "validateManualAssetsStore store = Inr assets"
    and "buildNetWorthMetric p assets asOf financeDate metric = Inr v"
  shows "(mv_complete v \<longleftrightarrow> ma_complete assets \<and> distinct (map ra_id (pi_accountsRaw inp)) \<and>
      splitwiseReasonsForMetric Net_worth_live (pi_mirrorIdentity inp) = [] \<and>
      (\<forall>a \<in> set (pi_accountsRaw inp).
        (effectiveRole a (override_of inp a) = ''unknown'' \<longrightarrow> ra_closed a \<or> ov_hidden (override_of inp a) \<or>
          isSplitwiseMirrorAccount (ra_id a) (pi_mirrorAccountId inp)) \<and>
        (net_worth_account inp a \<longrightarrow> balance_of inp (ra_id a) \<noteq> None))) \<and>
    mv_valueCents v = (if \<not> mv_complete v then None else Some
      ((\<Sum>a \<leftarrow> filter (net_worth_account inp) (pi_accountsRaw inp). the (balance_of inp (ra_id a))) +
       (\<Sum>i \<leftarrow> filter (\<lambda>i. \<not> is_liability i) (ma_items assets). item_cents i) -
       (\<Sum>i \<leftarrow> filter is_liability (ma_items assets). item_cents i)))"
proof -
  have m: "metricNeedsRoleAssignment Net_worth_live" "balance_dependent Net_worth_live"
    by (simp_all add: metricNeedsRoleAssignment_def balance_dependent_def)
  have c: "mv_complete v \<longleftrightarrow> metric_ready inp Net_worth_live \<and> ma_complete assets"
    using net_worth_cases(1) [OF assms(5)] validated_incomplete [OF assms(4)]
      projection_complete_iff [OF assms(1-3) m] by (cases "ma_complete assets") auto
  have r: "metric_ready inp Net_worth_live \<longleftrightarrow> distinct (map ra_id (pi_accountsRaw inp)) \<and>
      splitwiseReasonsForMetric Net_worth_live (pi_mirrorIdentity inp) = [] \<and>
      (\<forall>a \<in> set (pi_accountsRaw inp).
        (effectiveRole a (override_of inp a) = ''unknown'' \<longrightarrow> ra_closed a \<or> ov_hidden (override_of inp a) \<or>
          isSplitwiseMirrorAccount (ra_id a) (pi_mirrorAccountId inp)) \<and>
        (net_worth_account inp a \<longrightarrow> balance_of inp (ra_id a) \<noteq> None))"
    unfolding metric_ready_def net_worth_account_iff by (auto simp: unknownRoleBlocksMetric_def isDecisionExcluded_def)
  have "mv_valueCents v = Some
      ((\<Sum>a \<leftarrow> filter (net_worth_account inp) (pi_accountsRaw inp). the (balance_of inp (ra_id a))) +
       (\<Sum>i \<leftarrow> filter (\<lambda>i. \<not> is_liability i) (ma_items assets). item_cents i) -
       (\<Sum>i \<leftarrow> filter is_liability (ma_items assets). item_cents i))" if "mv_complete v"
    using net_worth_cases(3) [OF assms(5) that] included_sum [OF assms(1-3)] validated_exact [OF assms(4)] that c
    by (auto simp: net_worth_account_iff)
  then show ?thesis using c r net_worth_cases(2) [OF assms(5)] by auto
qed

definition two_accounts :: projection_input where
  "two_accounts = \<lparr>pi_accountsRaw =
      [\<lparr>ra_id = ''checking'', ra_name = None, ra_closed = False, ra_offbudget = False, ra_role = Some ''operating_cash''\<rparr>,
       \<lparr>ra_id = ''visa'', ra_name = None, ra_closed = False, ra_offbudget = False, ra_role = None\<rparr>],
     pi_balancesById = [(''checking'', JNum (Fin 1000)), (''visa'', JNum (Fin (- 300)))], pi_balanceUnavailableIds = [],
     pi_duplicateAccountIds = [],
     pi_overrides = [(''visa'', \<lparr>ov_role = Some ''credit_card'', ov_name = None, ov_hidden = False\<rparr>)],
     pi_metric = Some Net_worth_live, pi_mirrorAccountId = None, pi_mirrorIdentity = None, pi_financeDate = None\<rparr>"

definition plain_env :: js_env where
  "plain_env = \<lparr>je_text = (\<lambda>_. ''other''), je_collate = (\<lambda>a b. if a < b then - 1 else if a = b then 0 else 1),
     je_hash = (\<lambda>_. ''hash'')\<rparr>"

lemma net_worth_exact_witness:
  "\<exists>p assets v. projectAccounts plain_env JNull two_accounts = Inr p \<and>
     validateManualAssetsStore (JObj [(''items'', JArr [])]) = Inr assets \<and>
     buildNetWorthMetric p assets [] None [] = Inr v \<and> mv_complete v \<and> mv_valueCents v = Some 700"
proof -
  let ?accs = "pi_accountsRaw two_accounts"
  have accs: "distinct (map ra_id ?accs)" by (simp add: two_accounts_def)
  then have dup: "pi_duplicateAccountIds two_accounts = detectDuplicateAccountIds ?accs"
    using no_duplicates_iff [of ?accs] by (simp add: two_accounts_def)
  have m: "pi_metric two_accounts = Some Net_worth_live" by (simp add: two_accounts_def)
  obtain p where p: "projectAccounts plain_env JNull two_accounts = Inr p"
    by (simp add: projectAccounts_def m emap_always [OF project_row_total] Let_def)
  have bal: "balance_of two_accounts ''checking'' = Some 1000" "balance_of two_accounts ''visa'' = Some (- 300)"
    by (simp_all add: balance_of_def two_accounts_def safe_int_def max_safe_def)
  have ready: "metric_ready two_accounts Net_worth_live"
    using accs unfolding metric_ready_def net_worth_account_iff
    by (auto simp: two_accounts_def unknownRoleBlocksMetric_def effectiveRole_def given_role_def override_of_def
        text_or_none_def no_override_def splitwiseReasonsForMetric_def bal [unfolded two_accounts_def])
  have counted: "filter (net_worth_account two_accounts) ?accs = ?accs"
    by (simp add: two_accounts_def net_worth_account_def effectiveRole_def given_role_def override_of_def text_or_none_def
        no_override_def isSplitwiseMirrorAccount_def NET_WORTH_ROLES_def)
  obtain assets where a: "validateManualAssetsStore (JObj [(''items'', JArr [])]) = Inr assets"
    "ma_assetCents assets = Some 0" "ma_liabilityCents assets = Some 0" "ma_complete assets" "ma_items assets = []"
    using fromCents_safe [of 0] by (auto simp: validateManualAssetsStore_def sumCents_def safe_int_def max_safe_def)
  have none: "ap_incompleteReasons p = []"
    using projection_complete_iff [OF p m dup] ready by (simp add: metricNeedsRoleAssignment_def balance_dependent_def)
  have rows: "ap_accounts p = map (row_of two_accounts) ?accs"
    using projection_fields(1) [OF p m] by (simp add: two_accounts_def first_occurrences_none)
  have inc: "set (ap_includedIds p) = {''checking'', ''visa''}"
  proof -
    have "{row \<in> row_of two_accounts ` set ?accs. includeForMetric Net_worth_live row} = row_of two_accounts ` set ?accs"
      using counted by (auto simp: net_worth_account_iff filter_id_conv)
    then have "set (ap_includedIds p) = ra_id ` set ?accs"
      by (simp add: projection_fields(2) [OF p m] rows image_image)
    then show ?thesis by (simp add: two_accounts_def)
  qed
  have "sumIncludedBalanceCents p = Inr 700"
    by (simp add: sumIncludedBalanceCents_def included_rows_def rows inc)
      (simp add: two_accounts_def bal [unfolded two_accounts_def] sumCents_def safe_int_def max_safe_def)
  then obtain v where v: "buildNetWorthMetric p assets [] None [] = Inr v"
    using fromCents_safe [of 700] none a
    by (auto simp: buildNetWorthMetric_def Let_def sumCents_def safe_int_def max_safe_def)
  have "mv_complete v" using net_worth_cases(1) [OF v] none a by simp
  moreover have "(\<Sum>a \<leftarrow> ?accs. the (balance_of two_accounts (ra_id a))) = 700"
    by (simp add: two_accounts_def bal [unfolded two_accounts_def])
  ultimately have "mv_valueCents v = Some 700"
    using net_worth_exact [OF p m dup a(1) v] a(5) counted by simp
  with p a v \<open>mv_complete v\<close> show ?thesis by blast
qed

end
