(* ===== verification/ReviewFingerprint.thy ===== *)
theory ReviewFingerprint
  imports ManualAssets "HOL-Library.AList"
begin

text \<open>
  Model of \<open>lib/review-task-fingerprint.js\<close>: the stable key of a review task, which survives edits, and the hash of
  what the user saw. Objects are records of the fields read, an absent or \<open>null\<close> field is \<open>None\<close>; the content that
  is hashed is the JSON object of the code. The hash, JSON text, \<open>String(n)\<close>, collation, and the Unicode
  decomposition behind \<open>normalize\<close> are parameters.
\<close>

record review_env =
  re_hash :: "jsval \<Rightarrow> string"
  re_json :: "jsval \<Rightarrow> string"
  re_number :: "jsnum \<Rightarrow> string"
  re_collate :: "string \<Rightarrow> string \<Rightarrow> int"
  re_decompose :: "string \<Rightarrow> string"

definition REVIEW_CONTENT_VERSION :: int where
  "REVIEW_CONTENT_VERSION = 1"

definition amountCentsFromDollars :: "jsnum option \<Rightarrow> jsnum" where
  "amountCentsFromDollars amount =
     (case amount of
        None \<Rightarrow> Fin 0
      | Some n \<Rightarrow> if js_is_finite n then js_round (js_mul n (Fin 100)) else Fin 0)"

section \<open>Transactions\<close>

text \<open>\<open>imported_id ?? importedId\<close> and \<open>payeeId ?? payee_id\<close> are one field each.\<close>

record review_txn =
  rx_id :: "string option"
  rx_importedId :: "string option"
  rx_payeeId :: "string option"
  rx_payee :: "string option"
  rx_parentId :: "string option"
  rx_isLeg :: bool
  rx_amount :: "jsnum option"
  rx_date :: "string option"
  rx_accountId :: "string option"
  rx_categoryId :: "string option"
  rx_cleared :: "bool option"

definition trimmed_or_none :: "string option \<Rightarrow> string option" where
  "trimmed_or_none v = text_or_none (map_option js_trim v)"

definition txnImportedId :: "review_txn option \<Rightarrow> string option" where
  "txnImportedId txn = Option.bind txn (\<lambda>t. trimmed_or_none (rx_importedId t))"

definition txnPayeeId :: "review_txn option \<Rightarrow> string option" where
  "txnPayeeId txn = Option.bind txn (\<lambda>t. trimmed_or_none (rx_payeeId t))"

definition normalizePayeeText :: "review_env \<Rightarrow> string option \<Rightarrow> string" where
  "normalizePayeeText env payee = js_trim (collapse_spaces False (js_lower (re_decompose env (text_or payee []))))"

text \<open>The kind of the reference and its value.\<close>

definition payeeIdentityRef :: "review_env \<Rightarrow> review_txn option \<Rightarrow> string \<times> string" where
  "payeeIdentityRef env txn =
     (case txnPayeeId txn of
        Some i \<Rightarrow> (''payeeId'', i)
      | None \<Rightarrow> (''payee'', normalizePayeeText env (Option.bind txn rx_payee)))"

definition count_id :: "string \<Rightarrow> (string \<times> nat) list \<Rightarrow> (string \<times> nat) list" where
  "count_id i m = AList.update i (case map_of m i of None \<Rightarrow> 1 | Some n \<Rightarrow> n + 1) m"

definition buildImportedIdCounts :: "review_txn list \<Rightarrow> (string \<times> nat) list" where
  "buildImportedIdCounts txns = fold count_id (List.map_filter (\<lambda>t. txnImportedId (Some t)) txns) []"

record finger_context =
  fc_counts :: "(string \<times> nat) list option"
  fc_parentById :: "(string \<times> review_txn) list"
  fc_largeThreshold :: "jsnum option"

definition no_context :: finger_context where
  "no_context = \<lparr>fc_counts = None, fc_parentById = [], fc_largeThreshold = None\<rparr>"

definition importedAnchorUnique :: "string \<Rightarrow> finger_context \<Rightarrow> bool" where
  "importedAnchorUnique importedId ctx \<longleftrightarrow> importedId \<noteq> [] \<and>
     (case fc_counts ctx of None \<Rightarrow> True | Some counts \<Rightarrow> map_of counts importedId = Some 1)"

text \<open>The anchor of a transaction that is no leg, and of any.\<close>

definition whole_anchor :: "review_txn \<Rightarrow> finger_context \<Rightarrow> string" where
  "whole_anchor t ctx =
     (case txnImportedId (Some t) of
        None \<Rightarrow> ''id:'' @ text_or (rx_id t) ''unknown''
      | Some i \<Rightarrow> if importedAnchorUnique i ctx then ''imported:'' @ i
          else ''id:'' @ text_or (rx_id t) ''unknown'' @ '':ambiguousImport:'' @ i)"

definition parentStableAnchor :: "string \<Rightarrow> finger_context \<Rightarrow> string" where
  "parentStableAnchor parentId ctx =
     (case map_of (fc_parentById ctx) parentId of None \<Rightarrow> ''id:'' @ parentId | Some p \<Rightarrow> whole_anchor p ctx)"

definition stableEntityAnchor :: "review_txn option \<Rightarrow> finger_context \<Rightarrow> string" where
  "stableEntityAnchor txn ctx =
     (case txn of
        None \<Rightarrow> ''unknown''
      | Some t \<Rightarrow>
          (case (rx_isLeg t, text_or_none (rx_parentId t)) of
             (True, Some parent) \<Rightarrow> ''leg:'' @ parentStableAnchor parent ctx @ '':'' @ text_or (rx_id t) ''unknown''
           | _ \<Rightarrow> whole_anchor t ctx))"

definition contentEntityAnchor :: "review_env \<Rightarrow> review_txn option \<Rightarrow> finger_context \<Rightarrow> string" where
  "contentEntityAnchor env txn ctx =
     (case txn of
        None \<Rightarrow> ''unknown''
      | Some t \<Rightarrow>
          let stable = stableEntityAnchor txn ctx; (kind, v) = payeeIdentityRef env txn in
          if \<not> rx_isLeg t \<or> text_or_none (rx_parentId t) = None then stable
          else stable @ '':'' @ re_number env (amountCentsFromDollars (rx_amount t)) @ '':'' @ text_or (rx_categoryId t) [] @
            '':'' @ kind @ '':'' @ v @ '':'' @ text_or (rx_date t) [])"

section \<open>Tasks\<close>

record review_allocation =
  ro_person :: "string option"
  ro_expense :: "review_txn option"
  ro_amount :: "jsnum option"
  ro_kind :: "string option"

text \<open>
  \<open>rt_stableKey\<close> and the fields after it are those \<open>enrichReviewTask\<close> adds; \<open>priceChange?.x ?? x\<close> is one field.
\<close>

record review_task =
  rt_kind :: string
  rt_id :: "string option"
  rt_date :: "string option"
  rt_amount :: "jsnum option"
  rt_transaction :: "review_txn option"
  rt_key :: "string option"
  rt_suggestionId :: "string option"
  rt_month :: "string option"
  rt_transferReason :: "string option"
  rt_transferIdentity :: jsval
  rt_person :: "string option"
  rt_inflow :: "review_txn option"
  rt_inflowId :: "string option"
  rt_allocations :: "review_allocation list"
  rt_allocationKind :: "string option"
  rt_kind_alloc :: "string option"
  rt_from :: "jsnum option"
  rt_to :: "jsnum option"
  rt_pct :: "jsnum option"
  rt_unresolvedItems :: "review_txn list"
  rt_fingerprintContext :: "finger_context option"
  rt_stableKey :: string
  rt_stableKeyHash :: "string option"
  rt_contentHash :: string
  rt_contentVersion :: int

definition null_of :: "jsval \<Rightarrow> jsval" where
  "null_of v = (if nullish v then JNull else v)"

definition transferIdentityContentHash :: "review_env \<Rightarrow> jsval \<Rightarrow> string" where
  "transferIdentityContentHash env identity = re_hash env
     (if \<not> object_like identity then JNull
      else JObj (map (\<lambda>k. (k, null_of (jget identity k)))
          [''linkId'', ''counterpartTransactionId'', ''transferredId'', ''accountId'', ''counterpartAccountId''] @
        map (\<lambda>k. (k, JBool (truthy (jget identity k)))) [''counterpartInWindow'', ''pairValid''] @
        map (\<lambda>k. (k, null_of (jget identity k))) [''componentSize'', ''reason'']))"

definition sort_json :: "review_env \<Rightarrow> jsval list \<Rightarrow> jsval list" where
  "sort_json env = sort_by (\<lambda>a b. re_collate env (re_json env a) (re_json env b) \<le> 0)"

definition task_context :: "review_task \<Rightarrow> finger_context \<Rightarrow> finger_context" where
  "task_context task ctx = (case rt_fingerprintContext task of None \<Rightarrow> ctx | Some c \<Rightarrow> c)"

definition reconciliationUnresolvedEntries :: "review_env \<Rightarrow> review_task \<Rightarrow> jsval list" where
  "reconciliationUnresolvedEntries env task = sort_json env (map (\<lambda>t. JObj
     [(''anchor'', JStr (stableEntityAnchor (Some t) (task_context task no_context))),
      (''amountCents'', JNum (amountCentsFromDollars (rx_amount t))), (''id'', JStr (text_or (rx_id t) [])),
      (''importedId'', case txnImportedId (Some t) of None \<Rightarrow> JNull | Some i \<Rightarrow> JStr i)]) (rt_unresolvedItems task))"

definition or_else :: "'a option \<Rightarrow> 'a option \<Rightarrow> 'a option" where
  "or_else a b = (case a of None \<Rightarrow> b | Some x \<Rightarrow> Some x)"

definition text_else :: "string option \<Rightarrow> string option \<Rightarrow> string" where
  "text_else a b = text_or a (text_or b [])"

definition no_txn :: "string option \<Rightarrow> review_txn" where
  "no_txn i = \<lparr>rx_id = i, rx_importedId = None, rx_payeeId = None, rx_payee = None, rx_parentId = None, rx_isLeg = False,
     rx_amount = None, rx_date = None, rx_accountId = None, rx_categoryId = None, rx_cleared = None\<rparr>"

definition repaymentAllocationEntries :: "review_env \<Rightarrow> review_task \<Rightarrow> finger_context \<Rightarrow> jsval list" where
  "repaymentAllocationEntries env task ctx = sort_json env (map (\<lambda>a.
     let expense = (case ro_expense a of None \<Rightarrow> no_txn None | Some t \<Rightarrow> t) in JObj
     [(''person'', JStr (text_else (ro_person a) (rt_person task))),
      (''expenseAnchor'', JStr (stableEntityAnchor (Some expense) ctx)),
      (''amountCents'', JNum (amountCentsFromDollars (or_else (ro_amount a) (or_else (rx_amount expense) (rt_amount task))))),
      (''allocationKind'', JStr (text_else (ro_kind a) (rt_allocationKind task)))]) (rt_allocations task))"

definition txn_content :: "review_env \<Rightarrow> review_task \<Rightarrow> finger_context \<Rightarrow> (string \<times> jsval) list" where
  "txn_content env task ctx =
     (let txn = rt_transaction task; (kind, v) = payeeIdentityRef env txn in
      [(''anchor'', JStr (stableEntityAnchor txn ctx)), (''contentAnchor'', JStr (contentEntityAnchor env txn ctx)),
       (''date'', JStr (text_else (rt_date task) (Option.bind txn rx_date))),
       (''amountCents'', JNum (amountCentsFromDollars (or_else (Option.bind txn rx_amount) (rt_amount task)))),
       (''payee'', JObj [(''kind'', JStr kind), (''value'', JStr v)]),
       (''accountId'', JStr (text_or (Option.bind txn rx_accountId) [])),
       (''categoryId'', JStr (text_or (Option.bind txn rx_categoryId) []))])"

definition cleared_content :: "review_task \<Rightarrow> string \<times> jsval" where
  "cleared_content task = (''cleared'', JBool (Option.bind (rt_transaction task) rx_cleared \<noteq> Some False))"

definition canonicalReviewContent :: "review_env \<Rightarrow> review_task \<Rightarrow> finger_context \<Rightarrow> jsval" where
  "canonicalReviewContent env task ctx =
     (let kind = rt_kind task; fctx = task_context task ctx; txn = rt_transaction task;
          base = [(''v'', JNum (js_of_int REVIEW_CONTENT_VERSION)), (''kind'', JStr kind)];
          cents = (\<lambda>n. JNum (amountCentsFromDollars n)) in
      JObj (base @
        (if kind = ''uncategorized'' \<or> kind = ''pending'' then txn_content env task fctx @ [cleared_content task]
         else if kind = ''large_charge''
         then txn_content env task fctx @ [(''thresholdCents'', JNum (js_round (js_mul
           (case fc_largeThreshold ctx of None \<Rightarrow> Fin 200 | Some n \<Rightarrow> n) (Fin 100))))]
         else if kind = ''missing_receipt'' then txn_content env task fctx
         else if kind = ''repayment''
         then let inflow = (case rt_inflow task of Some t \<Rightarrow> t | None \<Rightarrow> no_txn (rt_inflowId task)) in
           [(''person'', JStr (text_or (rt_person task) [])),
            (''inflowAnchor'', JStr (stableEntityAnchor (Some inflow) fctx)),
            (''inflowAmountCents'', cents (or_else (rx_amount inflow) (rt_amount task))),
            (''allocations'', JArr (repaymentAllocationEntries env task fctx)),
            (''allocationKind'', JStr (text_else (rt_allocationKind task) (rt_kind_alloc task)))]
         else if kind = ''price_change''
         then [(''recurringKey'', JStr (text_or (rt_key task) [])), (''fromCents'', cents (rt_from task)),
               (''toCents'', cents (rt_to task)), (''pct'', JNum (case rt_pct task of None \<Rightarrow> Fin 0 | Some n \<Rightarrow> n))]
         else if kind = ''reconciliation''
         then [(''month'', JStr (text_or (rt_month task) [])),
               (''unresolved'', JArr (reconciliationUnresolvedEntries env task))]
         else if kind = ''transfer_identity''
         then [(''reason'', JStr (text_or (rt_transferReason task) [])),
               (''anchor'', JStr (stableEntityAnchor txn fctx)), (''contentAnchor'', JStr (contentEntityAnchor env txn fctx)),
               (''identityHash'', JStr (transferIdentityContentHash env (rt_transferIdentity task)))]
         else [(''anchor'', JStr (text_or (text_or_none (Some (rt_stableKey task))) (text_or (rt_id task) ''unknown'')))])))"

definition reviewTaskContentHash :: "review_env \<Rightarrow> review_task \<Rightarrow> finger_context \<Rightarrow> string" where
  "reviewTaskContentHash env task ctx = re_hash env (canonicalReviewContent env task ctx)"

text \<open>\<open>id.replace(/^repayment:/, '').split('@')[0]\<close>\<close>

definition drop_prefix :: "string \<Rightarrow> string \<Rightarrow> string" where
  "drop_prefix p s = (if take (length p) s = p then drop (length p) s else s)"

definition before_at :: "string \<Rightarrow> string" where
  "before_at s = takeWhile (\<lambda>c. c \<noteq> CHR ''@'') s"

definition suggestion_of :: "review_task \<Rightarrow> string" where
  "suggestion_of task = text_or (rt_suggestionId task) (before_at (drop_prefix ''repayment:'' (text_or (rt_id task) [])))"

definition reviewTaskStableKey :: "review_task \<Rightarrow> finger_context \<Rightarrow> string" where
  "reviewTaskStableKey task ctx =
     (let kind = rt_kind task; fctx = task_context task ctx in
      if kind \<in> {''uncategorized'', ''large_charge'', ''missing_receipt'', ''pending''}
      then kind @ '':'' @ stableEntityAnchor (rt_transaction task) fctx
      else if kind = ''repayment'' then ''repayment:'' @ suggestion_of task
      else if kind = ''price_change'' then ''price:'' @ text_or (rt_key task) []
      else if kind = ''reconciliation'' then ''reconcile:'' @ text_or (rt_month task) []
      else if kind = ''transfer_identity''
      then ''transfer_identity:'' @ text_or (rt_transferReason task) [] @ '':'' @ stableEntityAnchor (rt_transaction task) fctx
      else text_or (rt_id task) ''unknown'')"

definition stableKeyDigest :: "review_env \<Rightarrow> string \<Rightarrow> string" where
  "stableKeyDigest env stableKey = re_hash env (JStr stableKey)"

definition reviewTaskPublicId :: "review_env \<Rightarrow> string \<Rightarrow> string \<Rightarrow> string" where
  "reviewTaskPublicId env stableKey contentHash = stableKeyDigest env stableKey @ ''@'' @ contentHash"

definition buildReviewFingerprintContext :: "review_txn list \<Rightarrow> finger_context" where
  "buildReviewFingerprintContext txns =
     \<lparr>fc_counts = Some (buildImportedIdCounts txns),
      fc_parentById = fold (\<lambda>t m. case rx_id t of None \<Rightarrow> m | Some i \<Rightarrow> AList.update i t m) txns [],
      fc_largeThreshold = None\<rparr>"

definition enrichReviewTask ::
  "review_env \<Rightarrow> review_txn list \<Rightarrow> jsnum option \<Rightarrow> (string \<times> nat) list option \<Rightarrow> review_task \<Rightarrow> review_task" where
  "enrichReviewTask env txns largeThreshold importedIdCounts task =
     (let ctx0 = buildReviewFingerprintContext txns;
          ctx = ctx0\<lparr>fc_largeThreshold := largeThreshold, fc_counts := or_else importedIdCounts (fc_counts ctx0)\<rparr>;
          draft = task\<lparr>rt_fingerprintContext := Some ctx\<rparr>;
          stableKey = reviewTaskStableKey draft ctx; contentHash = reviewTaskContentHash env draft ctx
      in task\<lparr>rt_stableKey := stableKey, rt_stableKeyHash := Some (stableKeyDigest env stableKey),
           rt_contentHash := contentHash, rt_contentVersion := REVIEW_CONTENT_VERSION,
           rt_id := Some (reviewTaskPublicId env stableKey contentHash)\<rparr>)"

section \<open>Keys of stored dispositions\<close>

definition hex64 :: "string \<Rightarrow> bool" where
  "hex64 s \<longleftrightarrow> length s = 64 \<and> list_all (\<lambda>c. c \<in> set ''abcdef0123456789'') s"

definition starts_with :: "string \<Rightarrow> string \<Rightarrow> bool" where
  "starts_with p s \<longleftrightarrow> take (length p) s = p"

definition txn_kinds :: "string list" where
  "txn_kinds = [''uncategorized'', ''large_charge'', ''missing_receipt'', ''pending'']"

text \<open>\<open>.\<close> does not match a line terminator, so a key that holds one has no match.\<close>

definition no_newline :: "string \<Rightarrow> bool" where
  "no_newline s \<longleftrightarrow> list_all (\<lambda>c. (of_char c :: nat) \<noteq> 10 \<and> (of_char c :: nat) \<noteq> 13) s"

definition tail_after :: "string \<Rightarrow> string \<Rightarrow> string option" where
  "tail_after p s =
     (if starts_with (p @ '':'') s \<and> length p + 1 < length s \<and> no_newline (drop (length p + 1) s)
      then Some (drop (length p + 1) s) else None)"

definition legacyTxnIdFromKey :: "string \<Rightarrow> string option" where
  "legacyTxnIdFromKey legacyKey =
     (case List.map_filter (\<lambda>k. tail_after k legacyKey) txn_kinds of
        [] \<Rightarrow> None
      | rest # _ \<Rightarrow>
          if CHR ''@'' \<in> set rest \<or> hex64 rest then None
          else if starts_with ''id:'' rest then Some (hd (js_split (CHR '':'') (drop 3 rest)))
          else if starts_with ''imported:'' rest then None
          else if starts_with ''leg:'' rest then text_or_none (Some (last (js_split (CHR '':'') rest)))
          else Some rest)"

definition legacyRepaymentIdFromKey :: "string \<Rightarrow> string option" where
  "legacyRepaymentIdFromKey legacyKey = tail_after ''repayment'' legacyKey"

section \<open>Evidence of deletion\<close>

text \<open>Targets and imported ids, in the order of first occurrence.\<close>

definition expandTransactionTargetEvidence :: "review_txn list \<Rightarrow> string list \<times> string list" where
  "expandTransactionTargetEvidence txns =
     (js_dedupe (concat (map (\<lambda>t. (case rx_id t of None \<Rightarrow> [] | Some i \<Rightarrow> [i]) @
        (case rx_parentId t of None \<Rightarrow> [] | Some i \<Rightarrow> [i])) txns)),
      js_dedupe (List.map_filter (\<lambda>t. txnImportedId (Some t)) txns))"

end
