(* ===== verification/ReviewDisposition.thy ===== *)
theory ReviewDisposition
  imports ReviewFingerprint
begin

text \<open>
  Model of \<open>lib/review-disposition.js\<close>: what the user decided about review tasks, kept by stable key with the hash of
  the content decided on. The stored records are JSON values, the buckets their objects. \<open>Date.parse\<close> and
  \<open>toISOString\<close> are parameters. Functions that normalize a state they are given take a normalized state here:
  normalizing again changes nothing (\<open>normalize_again\<close>).
\<close>

record review_state =
  rv_contentVersion :: jsnum
  rv_dispositions :: "(string \<times> jsval) list"
  rv_legacyDispositions :: "(string \<times> jsval) list"

record disposition_env =
  rd_review :: review_env
  rd_parse :: "jsval \<Rightarrow> int option"
  rd_iso :: "int \<Rightarrow> string"

definition MAX_NEW_DISPOSITION_ENTRIES :: nat where
  "MAX_NEW_DISPOSITION_ENTRIES = 10000"

definition HIDDEN_DISPOSITIONS :: "string list" where
  "HIDDEN_DISPOSITIONS = [''acknowledge'', ''dismiss'', ''resolved'']"

definition stale_disposition :: js_error where
  "stale_disposition = AppError ''REVIEW_DISPOSITION_STALE'' 409"

definition unknown_disposition :: js_error where
  "unknown_disposition = AppError ''REVIEW_DISPOSITION_UNKNOWN'' 404"

definition ambiguous_disposition :: js_error where
  "ambiguous_disposition = AppError ''REVIEW_DISPOSITION_AMBIGUOUS'' 409"

definition legacy_refetch :: js_error where
  "legacy_refetch = AppError ''REVIEW_DISPOSITION_LEGACY_REFETCH'' 409"

definition disposition_capacity :: js_error where
  "disposition_capacity = AppError ''REVIEW_DISPOSITION_CAPACITY'' 409"

section \<open>The stored state\<close>

text \<open>Cloning through JSON gives a JSON value back as it is.\<close>

definition preserveLegacyDispositionValue :: "jsval \<Rightarrow> jsval option" where
  "preserveLegacyDispositionValue raw = (case raw of JStr s \<Rightarrow> Some raw | JObj _ \<Rightarrow> Some raw | _ \<Rightarrow> None)"

definition normalizeActiveDispositionRecord :: "jsval \<Rightarrow> jsval option" where
  "normalizeActiveDispositionRecord raw =
     (case raw of
        JStr s \<Rightarrow> Some (JObj [(''disposition'', JStr (if s = ''hidden'' then ''acknowledge'' else s)),
          (''at'', JStr ''1970-01-01T00:00:00.000Z'')])
      | JObj _ \<Rightarrow> Some raw
      | _ \<Rightarrow> None)"

definition emptyReviewState :: review_state where
  "emptyReviewState = \<lparr>rv_contentVersion = js_of_int REVIEW_CONTENT_VERSION, rv_dispositions = [], rv_legacyDispositions = []\<rparr>"

fun entries :: "jsval \<Rightarrow> (string \<times> jsval) list" where
  "entries (JObj ps) = ps"
| "entries _ = []"

fun is_integer :: "jsval \<Rightarrow> bool" where
  "is_integer (JNum NegZero) = True"
| "is_integer (JNum (Fin x)) = (of_int \<lfloor>x\<rfloor> = x)"
| "is_integer _ = False"

definition legacy_entries :: "(string \<times> jsval) list \<Rightarrow> (string \<times> jsval) list" where
  "legacy_entries ps = List.map_filter (\<lambda>(k, v).
     if k \<in> {''schemaVersion'', ''contentVersion'', ''legacyDispositions''} then None
     else map_option (Pair k) (preserveLegacyDispositionValue v)) ps"

definition normalizeReviewState :: "jsval \<Rightarrow> review_state" where
  "normalizeReviewState raw =
     (if \<not> is_object raw then emptyReviewState
      else if jget raw ''schemaVersion'' = JNum (Fin 2)
      then \<lparr>rv_contentVersion = (case jget raw ''contentVersion'' of
               JNum n \<Rightarrow> if is_integer (JNum n) then n else js_of_int REVIEW_CONTENT_VERSION
             | _ \<Rightarrow> js_of_int REVIEW_CONTENT_VERSION),
            rv_dispositions = entries (jget raw ''dispositions''),
            rv_legacyDispositions = entries (jget raw ''legacyDispositions'')\<rparr>
      else emptyReviewState\<lparr>rv_legacyDispositions :=
        legacy_entries (entries (if is_object (jget raw ''dispositions'') then jget raw ''dispositions'' else raw))\<rparr>)"

definition state_json :: "review_state \<Rightarrow> jsval" where
  "state_json s = JObj [(''schemaVersion'', JNum (Fin 2)), (''contentVersion'', JNum (rv_contentVersion s)),
     (''dispositions'', JObj (rv_dispositions s)), (''legacyDispositions'', JObj (rv_legacyDispositions s))]"

definition reviewStateRevision :: "disposition_env \<Rightarrow> review_state \<Rightarrow> string" where
  "reviewStateRevision env s = re_hash (rd_review env)
     (JObj [(''contentVersion'', JNum (rv_contentVersion s)),
       (''dispositionKeys'', JArr (map JStr (sort (map fst (rv_dispositions s))))),
       (''legacyKeys'', JArr (map JStr (sort (map fst (rv_legacyDispositions s)))))])"

section \<open>The index of tasks\<close>

record task_index =
  tx_byStableKey :: "(string \<times> review_task) list"
  tx_byStableKeyDigest :: "(string \<times> review_task) list"
  tx_byLegacyKey :: "(string \<times> review_task) list"
  tx_byTxnId :: "(string \<times> review_task list) list"
  tx_bySuggestionId :: "(string \<times> review_task) list"

definition task_txn_id :: "review_task \<Rightarrow> string option" where
  "task_txn_id task = text_or_none (Option.bind (rt_transaction task) rx_id)"

text \<open>The keys a task is found by, each with the map it is put in, in the order of the code.\<close>

definition legacy_keys_of :: "review_task \<Rightarrow> string list" where
  "legacy_keys_of task =
     [rt_stableKey task] @ (case rt_id task of None \<Rightarrow> [] | Some i \<Rightarrow> [i]) @
     (case task_txn_id task of None \<Rightarrow> []
      | Some i \<Rightarrow> if rt_kind task \<in> set txn_kinds then [rt_kind task @ '':'' @ i] else []) @
     (if rt_kind task = ''repayment'' \<and> suggestion_of task \<noteq> [] then [''repayment:'' @ suggestion_of task] else []) @
     (case text_or_none (rt_key task) of None \<Rightarrow> []
      | Some k \<Rightarrow> if rt_kind task = ''price_change'' then [''price:'' @ k] else []) @
     (case text_or_none (rt_month task) of None \<Rightarrow> []
      | Some m \<Rightarrow> if rt_kind task = ''reconciliation'' then [''reconcile:'' @ m] else [])"

definition index_task :: "review_env \<Rightarrow> review_task \<Rightarrow> task_index \<Rightarrow> task_index" where
  "index_task env task ix =
     ix\<lparr>tx_byStableKey := AList.update (rt_stableKey task) task (tx_byStableKey ix),
        tx_byStableKeyDigest := AList.update (stableKeyDigest env (rt_stableKey task)) task
          (case text_or_none (rt_stableKeyHash task) of None \<Rightarrow> tx_byStableKeyDigest ix
           | Some h \<Rightarrow> AList.update h task (tx_byStableKeyDigest ix)),
        tx_byLegacyKey := fold (\<lambda>k. AList.update k task) (legacy_keys_of task) (tx_byLegacyKey ix),
        tx_byTxnId := (case task_txn_id task of None \<Rightarrow> tx_byTxnId ix
          | Some i \<Rightarrow> AList.update i ((case map_of (tx_byTxnId ix) i of None \<Rightarrow> [] | Some ts \<Rightarrow> ts) @ [task]) (tx_byTxnId ix)),
        tx_bySuggestionId := (if rt_kind task = ''repayment'' \<and> suggestion_of task \<noteq> []
          then AList.update (suggestion_of task) task (tx_bySuggestionId ix) else tx_bySuggestionId ix)\<rparr>"

definition buildReviewTaskIndex :: "review_env \<Rightarrow> review_task list \<Rightarrow> task_index" where
  "buildReviewTaskIndex env tasks = fold (index_task env) tasks
     \<lparr>tx_byStableKey = [], tx_byStableKeyDigest = [], tx_byLegacyKey = [], tx_byTxnId = [], tx_bySuggestionId = []\<rparr>"

record parsed_id =
  pr_legacy :: bool
  pr_legacyKey :: string
  pr_stableKey :: "string option"
  pr_digest :: "string option"
  pr_contentHash :: "string option"
  pr_task :: "review_task option"
  pr_mappedFromLegacy :: bool

definition legacy_id :: "string \<Rightarrow> parsed_id" where
  "legacy_id raw = \<lparr>pr_legacy = True, pr_legacyKey = raw, pr_stableKey = None, pr_digest = None, pr_contentHash = None,
     pr_task = None, pr_mappedFromLegacy = False\<rparr>"

text \<open>Around the last \<open>@\<close>, when there is one: what precedes it and what follows.\<close>

definition split_last_at :: "string \<Rightarrow> (string \<times> string) option" where
  "split_last_at s =
     (if CHR ''@'' \<in> set s
      then Some (rev (tl (dropWhile (\<lambda>c. c \<noteq> CHR ''@'') (rev s))), rev (takeWhile (\<lambda>c. c \<noteq> CHR ''@'') (rev s)))
      else None)"

definition parseReviewTaskId :: "string \<Rightarrow> task_index \<Rightarrow> parsed_id" where
  "parseReviewTaskId raw ix =
     (case split_last_at raw of
        None \<Rightarrow> legacy_id raw
      | Some (prefix, hash) \<Rightarrow>
          if prefix = [] \<or> hash = [] \<or> \<not> hex64 hash then legacy_id raw
          else case (if hex64 prefix then map_of (tx_byStableKeyDigest ix) prefix else None) of
            Some task \<Rightarrow> (legacy_id raw)\<lparr>pr_legacy := False, pr_stableKey := Some (rt_stableKey task),
              pr_digest := Some prefix, pr_contentHash := Some hash, pr_task := Some task\<rparr>
          | None \<Rightarrow>
              if CHR '':'' \<in> set prefix
              then (legacy_id raw)\<lparr>pr_legacy := False, pr_stableKey := Some prefix, pr_contentHash := Some hash\<rparr>
              else legacy_id raw)"

definition tasks_by_txn :: "task_index \<Rightarrow> string \<Rightarrow> review_task list" where
  "tasks_by_txn ix i = (case map_of (tx_byTxnId ix) i of None \<Rightarrow> [] | Some ts \<Rightarrow> ts)"

definition resolve_legacy :: "string \<Rightarrow> task_index \<Rightarrow> review_task res" where
  "resolve_legacy key ix =
     (case map_of (tx_byLegacyKey ix) key of
        Some task \<Rightarrow> Inr task
      | None \<Rightarrow>
          let matches = (case text_or_none (legacyTxnIdFromKey key) of
                None \<Rightarrow> []
              | Some i \<Rightarrow> filter (\<lambda>t. starts_with (rt_kind t @ '':'') key) (tasks_by_txn ix i)) in
          if length matches = 1 then Inr (hd matches)
          else if 1 < length matches then Inl ambiguous_disposition
          else case Option.bind (text_or_none (legacyRepaymentIdFromKey key)) (map_of (tx_bySuggestionId ix)) of
            Some task \<Rightarrow> Inr task
          | None \<Rightarrow> Inl unknown_disposition)"

definition resolveTaskForDispositionId :: "string \<Rightarrow> task_index \<Rightarrow> (review_task \<times> parsed_id) res" where
  "resolveTaskForDispositionId i ix =
     (let parsed = parseReviewTaskId i ix in
      if \<not> pr_legacy parsed
      then (case (case pr_task parsed of Some t \<Rightarrow> Some t
                | None \<Rightarrow> Option.bind (text_or_none (pr_stableKey parsed)) (map_of (tx_byStableKey ix))) of
              Some task \<Rightarrow> Inr (task, parsed)
            | None \<Rightarrow> Inl unknown_disposition)
      else ebind (resolve_legacy (pr_legacyKey parsed) ix) (\<lambda>task.
        Inr (task, parsed\<lparr>pr_mappedFromLegacy := True\<rparr>)))"

section \<open>What a disposition hides\<close>

definition dispositionCanHide :: "jsval \<Rightarrow> bool" where
  "dispositionCanHide r \<longleftrightarrow> (case jget r ''contentHash'' of JStr h \<Rightarrow> hex64 h | _ \<Rightarrow> False)"

definition dispositionRecordMatchesTask :: "jsval \<Rightarrow> review_task \<Rightarrow> bool" where
  "dispositionRecordMatchesTask r task \<longleftrightarrow>
     rt_contentHash task \<noteq> [] \<and> dispositionCanHide r \<and> jget r ''contentHash'' = JStr (rt_contentHash task) \<and>
     \<not> (truthy (jget r ''kind'') \<and> jget r ''kind'' \<noteq> JStr (rt_kind task))"

definition legacy_task :: "review_task \<Rightarrow> task_index \<Rightarrow> string \<Rightarrow> review_task option" where
  "legacy_task task ix key =
     (case map_of (tx_byLegacyKey ix) key of
        Some t \<Rightarrow> Some t
      | None \<Rightarrow>
          (case text_or_none (legacyTxnIdFromKey key) of
             None \<Rightarrow> None
           | Some i \<Rightarrow>
               if starts_with (rt_kind task @ '':'') key
               then (case filter (\<lambda>t. rt_kind t = rt_kind task) (tasks_by_txn ix i) of [t] \<Rightarrow> Some t | _ \<Rightarrow> None)
               else None))"

definition lookupDispositionForTask :: "review_state \<Rightarrow> review_task \<Rightarrow> task_index \<Rightarrow> jsval option" where
  "lookupDispositionForTask s task ix =
     (case find (\<lambda>r. dispositionRecordMatchesTask r task)
         ((case map_of (rv_dispositions s) (rt_stableKey task) of None \<Rightarrow> [] | Some r \<Rightarrow> [r])) of
        Some r \<Rightarrow> normalizeActiveDispositionRecord r
      | None \<Rightarrow> map_option snd (find (\<lambda>(key, r).
          (case legacy_task task ix key of None \<Rightarrow> False | Some t \<Rightarrow> rt_stableKey t = rt_stableKey task) \<and>
          is_object r \<and> dispositionRecordMatchesTask r task) (rv_legacyDispositions s)))"

definition countMigrationRequired :: "review_state \<Rightarrow> nat" where
  "countMigrationRequired s =
     length (filter (\<lambda>(_, r). \<not> dispositionCanHide r) (rv_legacyDispositions s)) +
     length (filter (\<lambda>(_, r). \<not> dispositionCanHide r) (rv_dispositions s))"

text \<open>When a snooze ends; \<open>Date.parse(record.until || '')\<close>\<close>

definition snooze_until :: "disposition_env \<Rightarrow> jsval \<Rightarrow> int option" where
  "snooze_until env r = rd_parse env (if truthy (jget r ''until'') then jget r ''until'' else JStr [])"

definition is_snooze :: "jsval \<Rightarrow> bool" where
  "is_snooze r \<longleftrightarrow> jget r ''disposition'' = JStr ''snooze''"

definition snoozed :: "disposition_env \<Rightarrow> int \<Rightarrow> jsval \<Rightarrow> bool" where
  "snoozed env now r \<longleftrightarrow> (case snooze_until env r of None \<Rightarrow> False | Some t \<Rightarrow> now < t)"

definition expired :: "disposition_env \<Rightarrow> int \<Rightarrow> jsval \<Rightarrow> bool" where
  "expired env now r \<longleftrightarrow> (case snooze_until env r of None \<Rightarrow> False | Some t \<Rightarrow> t \<le> now)"

definition isReviewTaskVisible :: "disposition_env \<Rightarrow> review_task \<Rightarrow> review_state \<Rightarrow> int \<Rightarrow> task_index \<Rightarrow> bool" where
  "isReviewTaskVisible env task s now ix =
     (case lookupDispositionForTask s task ix of
        None \<Rightarrow> True
      | Some r \<Rightarrow>
          if is_snooze r then \<not> snoozed env now r
          else if jget r ''disposition'' \<notin> JStr ` set HIDDEN_DISPOSITIONS then True
          else \<not> dispositionRecordMatchesTask r task)"

definition filterVisibleReviewTasks :: "disposition_env \<Rightarrow> review_task list \<Rightarrow> review_state \<Rightarrow> int \<Rightarrow> review_task list" where
  "filterVisibleReviewTasks env tasks s now =
     filter (\<lambda>t. isReviewTaskVisible env t s now (buildReviewTaskIndex (rd_review env) tasks)) tasks"

section \<open>Snoozes\<close>

datatype bucket = Dispositions | Legacy_dispositions

fun bucket_of :: "review_state \<Rightarrow> bucket \<Rightarrow> (string \<times> jsval) list" where
  "bucket_of s Dispositions = rv_dispositions s"
| "bucket_of s Legacy_dispositions = rv_legacyDispositions s"

fun update_bucket :: "bucket \<Rightarrow> ((string \<times> jsval) list \<Rightarrow> (string \<times> jsval) list) \<Rightarrow> review_state \<Rightarrow> review_state" where
  "update_bucket Dispositions f s = s\<lparr>rv_dispositions := f (rv_dispositions s)\<rparr>"
| "update_bucket Legacy_dispositions f s = s\<lparr>rv_legacyDispositions := f (rv_legacyDispositions s)\<rparr>"

record snooze_key =
  sk_bucket :: bucket
  sk_key :: string
  sk_until :: jsval

definition collectExpiredSnoozeKeys :: "disposition_env \<Rightarrow> review_state \<Rightarrow> int \<Rightarrow> snooze_key list" where
  "collectExpiredSnoozeKeys env s now =
     concat (map (\<lambda>b. map (\<lambda>(k, r). \<lparr>sk_bucket = b, sk_key = k, sk_until = jget r ''until''\<rparr>)
       (filter (\<lambda>(k, r). is_snooze r \<and> expired env now r) (bucket_of s b))) [Dispositions, Legacy_dispositions])"

definition kept_record :: "disposition_env \<Rightarrow> int \<Rightarrow> jsval \<Rightarrow> bool" where
  "kept_record env now r \<longleftrightarrow> \<not> is_snooze r \<or> snoozed env now r"

definition pruneExpiredReviewSnoozes :: "disposition_env \<Rightarrow> review_state \<Rightarrow> int \<Rightarrow> review_state \<times> bool" where
  "pruneExpiredReviewSnoozes env s now =
     (s\<lparr>rv_dispositions := filter (\<lambda>(_, r). kept_record env now r) (rv_dispositions s),
        rv_legacyDispositions := filter (\<lambda>(_, r). kept_record env now r) (rv_legacyDispositions s)\<rparr>,
      list_ex (\<lambda>(_, r). \<not> kept_record env now r) (rv_dispositions s @ rv_legacyDispositions s))"

definition maintain_key ::
  "disposition_env \<Rightarrow> int \<Rightarrow> snooze_key \<Rightarrow> review_state \<times> bool \<Rightarrow> review_state \<times> bool" where
  "maintain_key env now e st =
     (let (s, changed) = st in
      case map_of (bucket_of s (sk_bucket e)) (sk_key e) of
        None \<Rightarrow> st
      | Some r \<Rightarrow>
          if \<not> truthy r \<or> \<not> is_snooze r \<or> \<not> expired env now r then st
          else if truthy (sk_until e) \<and> sk_until e \<noteq> jget r ''until'' then st
          else (update_bucket (sk_bucket e) (AList.delete (sk_key e)) s, True))"

record maintenance =
  mt_state :: review_state
  mt_changed :: bool
  mt_conflict :: bool

definition compareAndSwapReviewStateMaintenance ::
  "disposition_env \<Rightarrow> review_state \<Rightarrow> string option \<Rightarrow> snooze_key list \<Rightarrow> int \<Rightarrow> maintenance" where
  "compareAndSwapReviewStateMaintenance env s expectedRevision keys now =
     (if text_or_none expectedRevision \<noteq> None \<and> Some (reviewStateRevision env s) \<noteq> expectedRevision
      then \<lparr>mt_state = s, mt_changed = False, mt_conflict = True\<rparr>
      else let (s1, changed) = fold (maintain_key env now) keys (s, False);
               (s2, pruned) = pruneExpiredReviewSnoozes env s1 now
        in \<lparr>mt_state = (if pruned then s2 else s1), mt_changed = (changed \<or> pruned), mt_conflict = False\<rparr>)"

section \<open>Deciding\<close>

definition assertNewDispositionCapacity :: "review_state \<Rightarrow> string \<Rightarrow> unit res" where
  "assertNewDispositionCapacity s stableKey =
     (if (case map_of (rv_dispositions s) stableKey of None \<Rightarrow> False | Some r \<Rightarrow> truthy r) then Inr ()
      else if int MAX_NEW_DISPOSITION_ENTRIES \<le> int (length (rv_dispositions s)) + int (length (rv_legacyDispositions s))
      then Inl disposition_capacity else Inr ())"

record disposition_request =
  dq_id :: string
  dq_disposition :: string
  dq_until :: "string option"
  dq_note :: "string option"
  dq_contentHash :: "string option"

record disposition_admission =
  dm_state :: review_state
  dm_revision :: string
  dm_task :: "(review_task \<times> parsed_id) option"

definition id_required :: js_error where
  "id_required = PlainError ''review task id required''"

definition preflightReviewDispositionAdmission ::
  "disposition_env \<Rightarrow> review_state \<Rightarrow> disposition_request \<Rightarrow> task_index \<Rightarrow> disposition_admission res" where
  "preflightReviewDispositionAdmission env s q ix =
     (if dq_id q = [] then Inl id_required
      else if dq_disposition q = ''clear''
      then Inr \<lparr>dm_state = s, dm_revision = reviewStateRevision env s, dm_task = None\<rparr>
      else ebind (resolveTaskForDispositionId (dq_id q) ix) (\<lambda>(task, parsed).
        let given = text_or_none (dq_contentHash q) in
        if (pr_legacy parsed \<or> pr_mappedFromLegacy parsed) \<and> given = None then Inl legacy_refetch
        else if given \<noteq> None \<and> given \<noteq> Some (rt_contentHash task) then Inl stale_disposition
        else if \<not> pr_legacy parsed \<and> text_or_none (pr_contentHash parsed) \<noteq> None \<and>
          pr_contentHash parsed \<noteq> Some (rt_contentHash task) then Inl stale_disposition
        else ebind (assertNewDispositionCapacity s (rt_stableKey task)) (\<lambda>_. Inr
          \<lparr>dm_state = s, dm_revision = reviewStateRevision env s, dm_task = Some (task, parsed)\<rparr>)))"

definition disposition_record :: "disposition_env \<Rightarrow> review_task \<Rightarrow> disposition_request \<Rightarrow> int \<Rightarrow> jsval" where
  "disposition_record env task q now = JObj
     ([(''disposition'', JStr (dq_disposition q)), (''at'', JStr (rd_iso env now)), (''kind'', JStr (rt_kind task)),
       (''contentHash'', JStr (rt_contentHash task)), (''contentVersion'', JNum (js_of_int (rt_contentVersion task))),
       (''stableKey'', JStr (rt_stableKey task)),
       (''stableKeyHash'', JStr (text_or (rt_stableKeyHash task) (stableKeyDigest (rd_review env) (rt_stableKey task))))] @
      (case text_or_none (dq_until q) of None \<Rightarrow> [] | Some u \<Rightarrow> [(''until'', JStr u)]) @
      (case text_or_none (dq_note q) of None \<Rightarrow> [] | Some n \<Rightarrow> [(''note'', JStr n)]))"

text \<open>\<open>delete bucket[k]\<close> when there is a key.\<close>

definition forget :: "string option \<Rightarrow> (string \<times> 'a) list \<Rightarrow> (string \<times> 'a) list" where
  "forget k m = (case k of None \<Rightarrow> m | Some i \<Rightarrow> AList.delete i m)"

definition clear_disposition :: "disposition_env \<Rightarrow> review_state \<Rightarrow> string \<Rightarrow> task_index \<Rightarrow> int \<Rightarrow> review_state" where
  "clear_disposition env s i ix now =
     (let parsed = parseReviewTaskId i ix;
          own = (if pr_legacy parsed then None else text_or_none (pr_stableKey parsed));
          digested = map_option rt_stableKey
            (Option.bind (text_or_none (pr_digest parsed)) (map_of (tx_byStableKeyDigest ix)));
          s1 = s\<lparr>rv_dispositions := forget digested (forget own (rv_dispositions s)),
                 rv_legacyDispositions := AList.delete (text_or (Some (pr_legacyKey parsed)) i) (rv_legacyDispositions s)\<rparr>
      in fst (pruneExpiredReviewSnoozes env s1 now))"

record disposition_result =
  dr_state :: review_state
  dr_id :: "string option"
  dr_disposition :: string
  dr_stableKey :: "string option"

definition applyReviewDisposition ::
  "disposition_env \<Rightarrow> review_state \<Rightarrow> disposition_request \<Rightarrow> task_index \<Rightarrow> int \<Rightarrow> disposition_admission option \<Rightarrow>
    disposition_result res" where
  "applyReviewDisposition env s q ix now preflight =
     (if dq_id q = [] then Inl id_required
      else ebind (case preflight of Some ad \<Rightarrow> Inr ad | None \<Rightarrow> preflightReviewDispositionAdmission env s q ix) (\<lambda>ad.
        if dq_disposition q = ''clear''
        then Inr \<lparr>dr_state = clear_disposition env (dm_state ad) (dq_id q) ix now, dr_id = Some (dq_id q),
          dr_disposition = dq_disposition q, dr_stableKey = None\<rparr>
        else ebind (case dm_task ad of Some tp \<Rightarrow> Inr tp | None \<Rightarrow> resolveTaskForDispositionId (dq_id q) ix) (\<lambda>(task, parsed).
          let s1 = (dm_state ad)\<lparr>rv_dispositions := AList.update (rt_stableKey task) (disposition_record env task q now)
                     (rv_dispositions (dm_state ad)),
                   rv_legacyDispositions := forget (text_or_none (Some (pr_legacyKey parsed))) (rv_legacyDispositions (dm_state ad))\<rparr>
          in Inr \<lparr>dr_state = fst (pruneExpiredReviewSnoozes env s1 now), dr_id = rt_id task,
            dr_disposition = dq_disposition q, dr_stableKey = Some (rt_stableKey task)\<rparr>)))"

section \<open>Following the transactions\<close>

definition ends_with :: "string \<Rightarrow> string \<Rightarrow> bool" where
  "ends_with p s \<longleftrightarrow> length p \<le> length s \<and> drop (length s - length p) s = p"

text \<open>\<open>String(record.k)\<close> for a truthy field; records keep texts in these fields.\<close>

definition text_field :: "jsval \<Rightarrow> string \<Rightarrow> string option" where
  "text_field r k = (case jget r k of JStr s \<Rightarrow> text_or_none (Some s) | _ \<Rightarrow> None)"

definition key_refers :: "string list \<Rightarrow> string list \<Rightarrow> string list \<Rightarrow> string \<Rightarrow> jsval \<Rightarrow> bool" where
  "key_refers targets imports keys key r \<longleftrightarrow>
     key \<in> set keys \<or> (\<exists>k \<in> set_option (text_field r ''stableKey''). k \<in> set keys) \<or>
     list_ex (\<lambda>i. js_includes ('':id:'' @ i) key \<or> js_includes ('':leg:'' @ i @ '':'') key \<or>
       js_includes ('':imported:'' @ i) key \<or> ends_with ('':'' @ i) key \<or>
       list_ex (\<lambda>k. key = k @ '':'' @ i) txn_kinds) targets \<or>
     list_ex (\<lambda>i. js_includes ('':imported:'' @ i) key \<or> js_includes (''ambiguousImport:'' @ i) key) imports"

text \<open>Dropping the entries of both buckets that meet a condition, and how many there were.\<close>

definition drop_entries :: "(string \<Rightarrow> jsval \<Rightarrow> bool) \<Rightarrow> review_state \<Rightarrow> review_state \<times> nat" where
  "drop_entries refers s =
     (s\<lparr>rv_dispositions := filter (\<lambda>(k, r). \<not> refers k r) (rv_dispositions s),
        rv_legacyDispositions := filter (\<lambda>(k, r). \<not> refers k r) (rv_legacyDispositions s)\<rparr>,
      length (filter (\<lambda>(k, r). refers k r) (rv_dispositions s)) +
      length (filter (\<lambda>(k, r). refers k r) (rv_legacyDispositions s)))"

definition invalidateReviewDispositionsForTargets ::
  "review_state \<Rightarrow> string list \<Rightarrow> string list \<Rightarrow> string list \<Rightarrow> review_state \<times> nat" where
  "invalidateReviewDispositionsForTargets s targets imports keys = drop_entries (key_refers targets imports keys) s"

definition names_evidence :: "string list \<Rightarrow> string list \<Rightarrow> string \<Rightarrow> bool" where
  "names_evidence targets imports key \<longleftrightarrow>
     list_ex (\<lambda>i. js_includes ('':id:'' @ i) key \<or> js_includes ('':imported:'' @ i) key \<or> ends_with ('':'' @ i) key \<or>
       list_ex (\<lambda>k. key = k @ '':'' @ i \<or> key = k @ '':id:'' @ i) txn_kinds \<or>
       key = ''repayment:sg_'' @ i \<or> key = ''repayment:'' @ i) targets \<or>
     list_ex (\<lambda>i. js_includes ('':imported:'' @ i) key \<or> js_includes (''ambiguousImport:'' @ i) key) imports"

text \<open>
  The test of \<open>:leg:\<close> keys by a regular expression asks for the end \<open>:id\<close>, which is tested before it. The code calls
  itself on the stored stable key, or else the stable id, without a record.
\<close>

definition dispositionRefersToEvidence :: "string list \<Rightarrow> string list \<Rightarrow> string \<Rightarrow> jsval \<Rightarrow> bool" where
  "dispositionRefersToEvidence targets imports key r \<longleftrightarrow>
     names_evidence targets imports key \<or>
     (case text_field r ''stableKey'' of
        Some k \<Rightarrow> names_evidence targets imports k
      | None \<Rightarrow> (case text_field r ''stableId'' of Some k \<Rightarrow> names_evidence targets imports k | None \<Rightarrow> False))"

definition rewriteReviewDispositionsForDeletion ::
  "review_state \<Rightarrow> string list \<times> string list \<Rightarrow> review_state \<times> nat" where
  "rewriteReviewDispositionsForDeletion s evidence = drop_entries (dispositionRefersToEvidence (fst evidence) (snd evidence)) s"

section \<open>Replacement of transactions\<close>

text \<open>\<open>s.split(p).join(q)\<close>, for a text \<open>p\<close> that is not empty.\<close>

function replace_all :: "string \<Rightarrow> string \<Rightarrow> string \<Rightarrow> string" where
  "replace_all p q s =
     (if p = [] \<or> s = [] then s
      else if starts_with p s then q @ replace_all p q (drop (length p) s)
      else hd s # replace_all p q (tl s))"
  by auto
termination by (relation "measure (\<lambda>(p, q, s). length s)") (auto simp: neq_Nil_conv)

declare replace_all.simps [simp del]

text \<open>
  \<open>:leg:((?:[^:]+(?::[^:]+)*)):old$\<close>: a \<open>:leg:\<close>, one or more segments that are not empty, and the old identifier, in
  which no character is special to a regular expression.
\<close>

definition leg_suffix :: "string \<Rightarrow> string \<Rightarrow> bool" where
  "leg_suffix old t \<longleftrightarrow> starts_with '':leg:'' t \<and> ends_with ('':'' @ old) (drop 5 t) \<and>
     (let mid = take (length t - 6 - length old) (drop 5 t) in
      mid \<noteq> [] \<and> list_all (\<lambda>w. w \<noteq> []) (js_split (CHR '':'') mid))"

fun tails :: "'a list \<Rightarrow> 'a list list" where
  "tails [] = [[]]"
| "tails (x # xs) = (x # xs) # tails xs"

definition replace_leg :: "string \<Rightarrow> string \<Rightarrow> string \<Rightarrow> string" where
  "replace_leg old new s =
     (if list_ex (leg_suffix old) (tails s) then take (length s - length old) s @ new else s)"

definition rewriteStableKeyWithIdMap :: "string \<Rightarrow> (string \<times> string) list \<Rightarrow> string" where
  "rewriteStableKeyWithIdMap key idMap =
     fold (\<lambda>(old, new) s. replace_leg old new (replace_all ('':id:'' @ old) ('':id:'' @ new) s)) idMap key"

definition rewrite_legacy_id :: "string \<times> string \<Rightarrow> string \<Rightarrow> string" where
  "rewrite_legacy_id m key =
     (let (old, new) = m;
          step = (\<lambda>k s. let s1 = (if s = k @ '':'' @ old then k @ '':'' @ new else s) in
            if s1 = k @ '':id:'' @ old then k @ '':id:'' @ new else s1);
          s = fold step txn_kinds key;
          s' = (if s = ''repayment:sg_'' @ old then ''repayment:sg_'' @ new else s)
      in if s' = ''repayment:'' @ old then ''repayment:'' @ new else s')"

definition rewriteLegacyKeyWithIdMap :: "string \<Rightarrow> (string \<times> string) list \<Rightarrow> string" where
  "rewriteLegacyKeyWithIdMap key idMap = fold rewrite_legacy_id idMap key"

definition assignWithoutLoss ::
  "review_env \<Rightarrow> string \<Rightarrow> jsval \<Rightarrow> string \<Rightarrow> (string \<times> jsval) list \<Rightarrow> (string \<times> jsval) list res" where
  "assignWithoutLoss env key v label target =
     (case map_of target key of
        Some w \<Rightarrow>
          if re_json env w \<noteq> re_json env v
          then Inl (PlainError (label @ '' reference migration would overwrite distinct evidence''))
          else Inr (AList.update key v target)
      | None \<Rightarrow> Inr (AList.update key v target))"

definition strip_identity :: "jsval \<Rightarrow> jsval" where
  "strip_identity v = JObj (filter (\<lambda>(k, _). k \<noteq> ''anchor'' \<and> k \<noteq> ''contentAnchor'') (entries v))"

definition reviewTaskSemanticContentEqual :: "review_env \<Rightarrow> review_task \<Rightarrow> review_task \<Rightarrow> bool" where
  "reviewTaskSemanticContentEqual env a b \<longleftrightarrow>
     rt_kind a = rt_kind b \<and>
     (rt_contentHash a = rt_contentHash b \<or>
      re_json env (strip_identity (canonicalReviewContent env a (task_context a no_context))) =
      re_json env (strip_identity (canonicalReviewContent env b (task_context b no_context))))"

definition task_by_key :: "task_index \<Rightarrow> string \<Rightarrow> review_task option" where
  "task_by_key ix key =
     (case map_of (tx_byStableKey ix) key of Some t \<Rightarrow> Some t | None \<Rightarrow> map_of (tx_byLegacyKey ix) key)"

text \<open>
  The record \<open>nextRecord\<close>: the fields of the task set in place, or added in this order. Setting a property of a
  text throws (the code is strict). No record is an array.
\<close>

definition carried_record :: "review_env \<Rightarrow> jsval \<Rightarrow> review_task \<Rightarrow> jsval res" where
  "carried_record env r task =
     (if \<not> is_object r then Inl (TypeError ''Cannot create property'')
      else Inr (JObj (fold (\<lambda>(k, v). AList.update k v)
     [(''kind'', JStr (rt_kind task)), (''contentHash'', JStr (rt_contentHash task)),
      (''contentVersion'', JNum (js_of_int (rt_contentVersion task))), (''stableKey'', JStr (rt_stableKey task)),
      (''stableKeyHash'', JStr (text_or (rt_stableKeyHash task) (stableKeyDigest env (rt_stableKey task))))] (entries r))))"

definition after_task :: "task_index \<Rightarrow> (string \<times> string) list \<Rightarrow> string \<Rightarrow> review_task option \<Rightarrow> review_task option" where
  "after_task after idMap nextKey before =
     (case task_by_key after nextKey of
        Some t \<Rightarrow> Some t
      | None \<Rightarrow> Option.bind before (\<lambda>b. map_of (tx_byStableKey after) (rewriteStableKeyWithIdMap (rt_stableKey b) idMap)))"

definition next_key :: "string \<Rightarrow> (string \<times> string) list \<Rightarrow> string" where
  "next_key key idMap =
     (if js_includes '':id:'' key \<or> js_includes '':leg:'' key \<or> js_includes '':imported:'' key
      then rewriteStableKeyWithIdMap key idMap else rewriteLegacyKeyWithIdMap key idMap)"

definition rewrite_entry ::
  "review_env \<Rightarrow> (string \<times> string) list \<Rightarrow> task_index \<Rightarrow> task_index \<Rightarrow> string \<Rightarrow> (string \<times> jsval) list \<times> nat \<Rightarrow>
    string \<times> jsval \<Rightarrow> ((string \<times> jsval) list \<times> nat) res" where
  "rewrite_entry env idMap before after label st e =
     (let (out, count_changed) = st; (key, r) = e; nextKey = next_key key idMap;
          beforeTask = task_by_key before key in
      case after_task after idMap nextKey beforeTask of
        None \<Rightarrow> Inr (out, count_changed + 1)
      | Some t \<Rightarrow>
          if nullish r then Inl (TypeError ''Cannot read properties'')
          else let explicit = (jget r ''contentHash'' = JStr (rt_contentHash t));
              semantic = (case beforeTask of None \<Rightarrow> False | Some b \<Rightarrow> reviewTaskSemanticContentEqual env b t);
              same_hash = (case beforeTask of None \<Rightarrow> False | Some b \<Rightarrow> rt_contentHash b = rt_contentHash t) in
          if same_hash \<or> semantic
          then ebind (carried_record env r t) (\<lambda>c. ebind (assignWithoutLoss env (rt_stableKey t) c label out) (\<lambda>out'. Inr
            (out', if nextKey \<noteq> key \<or> rt_stableKey t \<noteq> key then count_changed + 1 else count_changed)))
          else if \<not> explicit \<and> truthy (jget r ''contentHash'') then Inr (out, count_changed + 1)
          else if \<not> explicit \<and> beforeTask \<noteq> None then Inr (out, count_changed + 1)
          else ebind (carried_record env r t) (\<lambda>c. ebind (assignWithoutLoss env (rt_stableKey t) c label out) (\<lambda>out'. Inr
            (out', if nextKey \<noteq> key then count_changed + 1 else count_changed))))"

definition rewriteReviewDispositionsForReplacement ::
  "review_env \<Rightarrow> review_state \<Rightarrow> (string \<times> string) list \<Rightarrow> review_task list \<Rightarrow> review_task list \<Rightarrow>
    (review_state \<times> nat) res" where
  "rewriteReviewDispositionsForReplacement env s idMap tasksBefore tasksAfter =
     (let before = buildReviewTaskIndex env tasksBefore; after = buildReviewTaskIndex env tasksAfter in
      ebind (efold (rewrite_entry env idMap before after ''review disposition'') ([], 0) (rv_dispositions s)) (\<lambda>(d, n).
      ebind (efold (rewrite_entry env idMap before after ''legacy review disposition'') ([], n) (rv_legacyDispositions s)) (\<lambda>(l, n').
      Inr (s\<lparr>rv_dispositions := d, rv_legacyDispositions := l\<rparr>, n'))))"

section \<open>Lookups\<close>

lemma normalize_again:
  assumes "is_integer (JNum (rv_contentVersion s))"
  shows "normalizeReviewState (state_json s) = s"
  using assms by (simp add: normalizeReviewState_def state_json_def)

lemma normalized_integer: "is_integer (JNum (rv_contentVersion (normalizeReviewState raw)))"
proof -
  have "is_integer (JNum (js_of_int REVIEW_CONTENT_VERSION))" by (simp add: REVIEW_CONTENT_VERSION_def)
  then show ?thesis
    by (auto simp: normalizeReviewState_def emptyReviewState_def split: jsval.splits)
qed

lemma lookup_sound:
  assumes "lookupDispositionForTask s task ix = Some r"
  shows "(\<exists>k. (k, r) \<in> set (rv_dispositions s @ rv_legacyDispositions s)) \<and> dispositionRecordMatchesTask r task"
proof (cases "find (\<lambda>r. dispositionRecordMatchesTask r task)
    (case map_of (rv_dispositions s) (rt_stableKey task) of None \<Rightarrow> [] | Some r \<Rightarrow> [r])")
  case None
  then show ?thesis using assms
    by (fastforce simp: lookupDispositionForTask_def find_Some_iff in_set_conv_nth)
next
  case (Some x)
  then have m: "dispositionRecordMatchesTask x task" "map_of (rv_dispositions s) (rt_stableKey task) = Some x"
    by (auto simp: find_Some_iff split: option.splits)
  from m(1) have "is_object x" by (cases x) (auto simp: dispositionRecordMatchesTask_def dispositionCanHide_def)
  then have "r = x" using assms Some
    by (cases x) (auto simp: lookupDispositionForTask_def normalizeActiveDispositionRecord_def)
  then show ?thesis using m by (auto dest: map_of_SomeD)
qed

lemma lookup_direct:
  assumes "map_of (rv_dispositions s) (rt_stableKey task) = Some r" "dispositionRecordMatchesTask r task"
  shows "lookupDispositionForTask s task ix = Some r"
proof -
  have "is_object r" using assms(2) by (cases r) (auto simp: dispositionRecordMatchesTask_def dispositionCanHide_def)
  then show ?thesis using assms by (cases r) (auto simp: lookupDispositionForTask_def normalizeActiveDispositionRecord_def)
qed

lemma map_of_filter_kept:
  "map_of m k = Some v \<Longrightarrow> P (k, v) \<Longrightarrow> map_of (filter P m) k = Some v"
  by (induction m) (auto split: if_splits)

lemma record_matches:
  assumes "hex64 (rt_contentHash task)"
  shows "dispositionRecordMatchesTask (disposition_record env task q now) task"
  using assms by (auto simp: dispositionRecordMatchesTask_def dispositionCanHide_def disposition_record_def hex64_def)

lemma pruned_length:
  "length (rv_dispositions (fst (pruneExpiredReviewSnoozes env s now))) +
     length (rv_legacyDispositions (fst (pruneExpiredReviewSnoozes env s now))) \<le>
   length (rv_dispositions s) + length (rv_legacyDispositions s)"
  by (simp add: pruneExpiredReviewSnoozes_def add_mono)

section \<open>Properties\<close>

definition demo_env :: disposition_env where
  "demo_env = \<lparr>rd_review = \<lparr>re_hash = (\<lambda>_. ''h''), re_json = (\<lambda>_. ''{}''), re_number = (\<lambda>_. ''0''),
     re_collate = (\<lambda>_ _. 0), re_decompose = (\<lambda>s. s)\<rparr>, rd_parse = (\<lambda>_. None), rd_iso = (\<lambda>_. ''now'')\<rparr>"

definition demo_task :: review_task where
  "demo_task = \<lparr>rt_kind = ''uncategorized'', rt_id = None, rt_date = None, rt_amount = None,
     rt_transaction = Some (no_txn (Some ''t1'')), rt_key = None, rt_suggestionId = None, rt_month = None,
     rt_transferReason = None, rt_transferIdentity = JUndef, rt_person = None, rt_inflow = None, rt_inflowId = None,
     rt_allocations = [], rt_allocationKind = None, rt_kind_alloc = None, rt_from = None, rt_to = None, rt_pct = None,
     rt_unresolvedItems = [], rt_fingerprintContext = None, rt_stableKey = ''uncategorized:id:t1'',
     rt_stableKeyHash = None, rt_contentHash = replicate 64 CHR ''a'', rt_contentVersion = 1\<rparr>"

definition demo_request :: disposition_request where
  "demo_request = \<lparr>dq_id = ''uncategorized:t1'', dq_disposition = ''dismiss'', dq_until = None, dq_note = None,
     dq_contentHash = Some (replicate 64 CHR ''a'')\<rparr>"

definition demo_index :: task_index where
  "demo_index = buildReviewTaskIndex (rd_review demo_env) [demo_task]"

lemma demo_hex: "hex64 (rt_contentHash demo_task)"
  by (simp add: demo_task_def hex64_def list_all_iff)

lemma demo_resolved: "\<exists>parsed. resolveTaskForDispositionId (dq_id demo_request) demo_index = Inr (demo_task, parsed) \<and>
    pr_contentHash parsed = None"
proof -
  have "parseReviewTaskId ''uncategorized:t1'' ix = legacy_id ''uncategorized:t1''" for ix
    by (simp add: parseReviewTaskId_def split_last_at_def)
  moreover have "map_of (tx_byLegacyKey demo_index) ''uncategorized:t1'' = Some demo_task"
    by (simp add: demo_index_def buildReviewTaskIndex_def index_task_def legacy_keys_of_def task_txn_id_def text_or_none_def
        txn_kinds_def demo_task_def no_txn_def)
  ultimately show ?thesis
    by (simp add: resolveTaskForDispositionId_def resolve_legacy_def legacy_id_def demo_request_def)
qed

lemma demo_applied: "\<exists>res. applyReviewDisposition demo_env emptyReviewState demo_request demo_index 0 None = Inr res"
proof -
  obtain parsed where "resolveTaskForDispositionId (dq_id demo_request) demo_index = Inr (demo_task, parsed)"
      "text_or_none (pr_contentHash parsed) = None"
    using demo_resolved by (auto simp: text_or_none_def)
  moreover have "dq_id demo_request \<noteq> []" "dq_disposition demo_request \<noteq> ''clear''"
    "text_or_none (dq_contentHash demo_request) = Some (rt_contentHash demo_task)"
    by (simp_all add: demo_request_def demo_task_def text_or_none_def)
  moreover have "assertNewDispositionCapacity emptyReviewState k = Inr ()" for k
    by (simp add: assertNewDispositionCapacity_def emptyReviewState_def MAX_NEW_DISPOSITION_ENTRIES_def)
  ultimately show ?thesis
    by (auto simp: applyReviewDisposition_def preflightReviewDispositionAdmission_def Let_def)
qed

text \<open>
  C17: A task is hidden only by a decision on the very content it shows now: when it is not visible there is a
  stored record with its content hash that is a running snooze or one of the hiding decisions. A task whose
  content has changed since is shown again.
\<close>

theorem hidden_only_as_seen:
  assumes "\<not> isReviewTaskVisible env task s now ix"
  shows "\<exists>(k, r) \<in> set (rv_dispositions s @ rv_legacyDispositions s).
    jget r ''contentHash'' = JStr (rt_contentHash task) \<and> hex64 (rt_contentHash task) \<and>
    (if jget r ''disposition'' = JStr ''snooze'' then (\<exists>t. snooze_until env r = Some t \<and> now < t)
     else jget r ''disposition'' \<in> {JStr ''acknowledge'', JStr ''dismiss'', JStr ''resolved''})"
proof -
  obtain r where r: "lookupDispositionForTask s task ix = Some r"
    using assms by (auto simp: isReviewTaskVisible_def split: option.splits)
  obtain k where "(k, r) \<in> set (rv_dispositions s @ rv_legacyDispositions s)"
    and m: "dispositionRecordMatchesTask r task" using lookup_sound [OF r] by blast
  moreover have "jget r ''contentHash'' = JStr (rt_contentHash task) \<and> hex64 (rt_contentHash task)"
    using m by (auto simp: dispositionRecordMatchesTask_def dispositionCanHide_def)
  moreover have "if jget r ''disposition'' = JStr ''snooze'' then (\<exists>t. snooze_until env r = Some t \<and> now < t)
     else jget r ''disposition'' \<in> {JStr ''acknowledge'', JStr ''dismiss'', JStr ''resolved''}"
    using assms r by (auto simp: isReviewTaskVisible_def is_snooze_def snoozed_def HIDDEN_DISPOSITIONS_def
        split: if_splits option.splits)
  ultimately show ?thesis by fastforce
qed

lemma demo_hidden:
  assumes "applyReviewDisposition demo_env emptyReviewState demo_request demo_index 0 None = Inr res"
  shows "\<not> isReviewTaskVisible demo_env demo_task (dr_state res) 7 demo_index"
proof -
  let ?r = "disposition_record demo_env demo_task demo_request 0"
  obtain parsed where "resolveTaskForDispositionId (dq_id demo_request) demo_index = Inr (demo_task, parsed)"
    using demo_resolved by blast
  moreover have "dq_disposition demo_request = ''dismiss''" by (simp add: demo_request_def)
  moreover from this have "kept_record demo_env 0 ?r" "jget ?r ''disposition'' = JStr ''dismiss''"
    by (simp_all add: kept_record_def is_snooze_def disposition_record_def)
  ultimately have "map_of (rv_dispositions (dr_state res)) (rt_stableKey demo_task) = Some ?r"
    using assms
    by (auto simp: applyReviewDisposition_def preflightReviewDispositionAdmission_def Let_def ebind_eq_Inr
        pruneExpiredReviewSnoozes_def emptyReviewState_def split: if_splits)
  from lookup_direct [OF this record_matches [OF demo_hex]] \<open>jget ?r _ = _\<close> show ?thesis
    using record_matches [OF demo_hex] by (simp add: isReviewTaskVisible_def is_snooze_def HIDDEN_DISPOSITIONS_def)
qed

lemma hidden_only_as_seen_witness:
  "\<exists>res. applyReviewDisposition demo_env emptyReviewState demo_request demo_index 0 None = Inr res \<and>
     (\<exists>(k, r) \<in> set (rv_dispositions (dr_state res) @ rv_legacyDispositions (dr_state res)).
        jget r ''contentHash'' = JStr (rt_contentHash demo_task))"
proof -
  obtain res where res: "applyReviewDisposition demo_env emptyReviewState demo_request demo_index 0 None = Inr res"
    using demo_applied by blast
  then show ?thesis using hidden_only_as_seen [OF demo_hidden [OF res]] by blast
qed

lemma applied:
  assumes "applyReviewDisposition env s q ix now None = Inr res" "dq_disposition q \<noteq> ''clear''"
  obtains task parsed where "resolveTaskForDispositionId (dq_id q) ix = Inr (task, parsed)"
    "dr_state res = fst (pruneExpiredReviewSnoozes env
      (s\<lparr>rv_dispositions := AList.update (rt_stableKey task) (disposition_record env task q now) (rv_dispositions s),
         rv_legacyDispositions := forget (text_or_none (Some (pr_legacyKey parsed))) (rv_legacyDispositions s)\<rparr>) now)"
    "assertNewDispositionCapacity s (rt_stableKey task) = Inr ()" "dr_stableKey res = Some (rt_stableKey task)"
    "dq_contentHash q \<in> {None, Some [], Some (rt_contentHash task)}"
proof -
  obtain ad where ad: "preflightReviewDispositionAdmission env s q ix = Inr ad"
    using assms by (auto simp: applyReviewDisposition_def ebind_eq_Inr split: if_splits)
  obtain task parsed where t: "resolveTaskForDispositionId (dq_id q) ix = Inr (task, parsed)" "dm_state ad = s"
    "dm_task ad = Some (task, parsed)" "assertNewDispositionCapacity s (rt_stableKey task) = Inr ()"
    "text_or_none (dq_contentHash q) \<in> {None, Some (rt_contentHash task)}"
    using ad assms(2) by (auto simp: preflightReviewDispositionAdmission_def Let_def ebind_eq_Inr split: if_splits)
  have "dq_contentHash q \<in> {None, Some [], Some (rt_contentHash task)}"
    using t(5) by (auto simp: text_or_none_def split: if_splits)
  moreover have "dq_id q \<noteq> []" using ad by (auto simp: preflightReviewDispositionAdmission_def)
  moreover from calculation(2) have "res = \<lparr>dr_state = fst (pruneExpiredReviewSnoozes env
      (s\<lparr>rv_dispositions := AList.update (rt_stableKey task) (disposition_record env task q now) (rv_dispositions s),
         rv_legacyDispositions := forget (text_or_none (Some (pr_legacyKey parsed))) (rv_legacyDispositions s)\<rparr>) now),
      dr_id = rt_id task, dr_disposition = dq_disposition q, dr_stableKey = Some (rt_stableKey task)\<rparr>"
    using assms ad t(2,3) by (simp add: applyReviewDisposition_def Let_def)
  ultimately show ?thesis by (intro that [OF t(1) _ t(4)]) simp_all
qed

text \<open>
  C19: A decision takes effect and stays within the store's capacity: after acknowledging, dismissing or resolving
  a task it is hidden from then on, in every index and at every time; and a store that held at most ten thousand
  records still does.
\<close>

theorem decision_takes_effect:
  assumes "applyReviewDisposition env s q ix now None = Inr res"
    and "dq_disposition q \<in> {''acknowledge'', ''dismiss'', ''resolved''}"
    and "resolveTaskForDispositionId (dq_id q) ix = Inr (task, parsed)" "hex64 (rt_contentHash task)"
  shows "\<not> isReviewTaskVisible env task (dr_state res) now' ix' \<and>
    (length (rv_dispositions s) + length (rv_legacyDispositions s) \<le> 10000 \<longrightarrow>
      length (rv_dispositions (dr_state res)) + length (rv_legacyDispositions (dr_state res)) \<le> 10000)"
proof (intro conjI impI)
  let ?r = "disposition_record env task q now"
  let ?d = "AList.update (rt_stableKey task) ?r (rv_dispositions s)"
  have clear: "dq_disposition q \<noteq> ''clear''" using assms(2) by auto
  obtain task' parsed' where a: "resolveTaskForDispositionId (dq_id q) ix = Inr (task', parsed')"
    and st': "dr_state res = fst (pruneExpiredReviewSnoozes env
      (s\<lparr>rv_dispositions := AList.update (rt_stableKey task') (disposition_record env task' q now) (rv_dispositions s),
         rv_legacyDispositions := forget (text_or_none (Some (pr_legacyKey parsed'))) (rv_legacyDispositions s)\<rparr>) now)"
    and cap': "assertNewDispositionCapacity s (rt_stableKey task') = Inr ()"
    by (rule applied [OF assms(1) clear])
  have "task' = task" using a assms(3) by simp
  note st = st' [unfolded this] and cap = cap' [unfolded this]
  have disp: "jget ?r ''disposition'' = JStr (dq_disposition q)" by (simp add: disposition_record_def)
  then have kept: "kept_record env now ?r" using assms(2) by (auto simp: kept_record_def is_snooze_def)
  then have "map_of (rv_dispositions (dr_state res)) (rt_stableKey task) = Some ?r"
    by (simp add: st pruneExpiredReviewSnoozes_def map_of_filter_kept update_conv')
  then have "lookupDispositionForTask (dr_state res) task ix' = Some ?r"
    by (rule lookup_direct [OF _ record_matches [OF assms(4)]])
  then show "\<not> isReviewTaskVisible env task (dr_state res) now' ix'"
    using assms(2) disp record_matches [OF assms(4)]
    by (auto simp: isReviewTaskVisible_def is_snooze_def HIDDEN_DISPOSITIONS_def)
  assume small: "length (rv_dispositions s) + length (rv_legacyDispositions s) \<le> 10000"
  have upd: "length (AList.update k v m) = (if k \<in> fst ` set m then length m else Suc (length m))"
    for k :: string and v :: jsval and m by (induction m) auto
  have "rt_stableKey task \<in> fst ` set (rv_dispositions s) \<or>
      length (rv_dispositions s) + length (rv_legacyDispositions s) < 10000"
    using cap by (auto simp: assertNewDispositionCapacity_def MAX_NEW_DISPOSITION_ENTRIES_def rev_image_eqI
        dest!: map_of_SomeD split: if_splits option.splits)
  then have "length ?d + length (rv_legacyDispositions s) \<le> 10000" using small by (auto simp: upd)
  moreover have "length (forget k m) \<le> length m" for k and m :: "(string \<times> jsval) list"
    by (cases k) (simp_all add: forget_def AList.delete_eq)
  ultimately have "length ?d + length (forget (text_or_none (Some (pr_legacyKey parsed'))) (rv_legacyDispositions s)) \<le> 10000"
    using add_left_mono order_trans by blast
  then show "length (rv_dispositions (dr_state res)) + length (rv_legacyDispositions (dr_state res)) \<le> 10000"
    unfolding st by (intro order_trans [OF pruned_length]) simp
qed

lemma decision_takes_effect_witness:
  "\<exists>res. applyReviewDisposition demo_env emptyReviewState demo_request demo_index 0 None = Inr res \<and>
     \<not> isReviewTaskVisible demo_env demo_task (dr_state res) 99 demo_index"
proof -
  obtain res parsed where res: "applyReviewDisposition demo_env emptyReviewState demo_request demo_index 0 None = Inr res"
    and t: "resolveTaskForDispositionId (dq_id demo_request) demo_index = Inr (demo_task, parsed)"
    using demo_applied demo_resolved by blast
  moreover have "dq_disposition demo_request \<in> {''acknowledge'', ''dismiss'', ''resolved''}" by (simp add: demo_request_def)
  ultimately show ?thesis using decision_takes_effect [OF res _ t demo_hex] by blast
qed

text \<open>
  C20: A replacement without review tasks, as \<open>dataModule.js\<close> calls it, forgets every decision of the user, of
  whatever transaction: both buckets are empty afterwards.
\<close>

theorem replacement_without_tasks_forgets:
  "rewriteReviewDispositionsForReplacement env s idMap [] [] =
     Inr (s\<lparr>rv_dispositions := [], rv_legacyDispositions := []\<rparr>,
       length (rv_dispositions s) + length (rv_legacyDispositions s))"
proof -
  let ?ix = "buildReviewTaskIndex env []"
  have e: "rewrite_entry env idMap ?ix ?ix label (out, n) e = Inr (out, n + 1)" for label out n e
    by (cases e) (simp add: rewrite_entry_def buildReviewTaskIndex_def task_by_key_def after_task_def)
  have "efold (rewrite_entry env idMap ?ix ?ix label) ([], n) es = Inr ([], n + length es)" for label n es
    by (induction es arbitrary: n) (simp_all add: e)
  then show ?thesis by (simp add: rewriteReviewDispositionsForReplacement_def)
qed

end
