(* ===== verification/DeletionReferences.thy ===== *)
theory DeletionReferences
  imports ReviewDisposition
begin

text \<open>
  Model of \<open>lib/transaction-deletion-references.js\<close>, of the evidence functions of \<open>review-task-fingerprint.js\<close> and
  \<open>review-disposition.js\<close>, and of the functions of \<open>dataModule.js\<close> that hand them to the deletion saga: what the six
  side stores keep about a transaction is dropped when it is deleted. The stores are JSON values; nothing they hold is
  \<open>undefined\<close>.
\<close>

section \<open>Evidence\<close>

record leg_snapshot =
  lg_id :: string
  lg_parent_id :: "string option"
  lg_date :: string
  lg_amount :: jsval
  lg_category :: "string option"
  lg_notes :: "string option"
  lg_payee :: "string option"
  lg_transfer_id :: "string option"
  lg_imported_id :: "string option"

record txn_snapshot =
  ds_id :: string
  ds_parent_id :: "string option"
  ds_date :: string
  ds_amount :: jsval
  ds_category :: "string option"
  ds_notes :: "string option"
  ds_payee :: "string option"
  ds_cleared :: bool
  ds_imported_id :: "string option"
  ds_imported_payee :: "string option"
  ds_transfer_id :: "string option"
  ds_is_parent :: bool
  ds_subtransactions :: "leg_snapshot list"

datatype evidence =
    Snapshot_evidence txn_snapshot
  | Transactions_evidence "review_txn list"
  | List_evidence "string list"
  | Ids_evidence "string list"
  | No_evidence

definition expandDeletionSnapshotEvidence :: "txn_snapshot \<Rightarrow> string list \<times> string list" where
  "expandDeletionSnapshotEvidence s = expandTransactionTargetEvidence
     ((no_txn (Some (ds_id s)))\<lparr>rx_importedId := text_or_none (ds_imported_id s)\<rparr> #
      map (\<lambda>l. (no_txn (Some (lg_id l)))\<lparr>rx_importedId := text_or_none (lg_imported_id l),
        rx_parentId := Some (ds_id s), rx_isLeg := True\<rparr>) (ds_subtransactions s))"

definition ids_evidence :: "string list \<Rightarrow> string list \<times> string list" where
  "ids_evidence ids = expandTransactionTargetEvidence (map (\<lambda>i. no_txn (Some i)) ids)"

definition normalizeDeletionTargetEvidence :: "evidence \<Rightarrow> (string list \<times> string list) res" where
  "normalizeDeletionTargetEvidence e =
     (case e of
        Snapshot_evidence s \<Rightarrow> Inr (expandDeletionSnapshotEvidence s)
      | List_evidence ids \<Rightarrow> Inr (ids_evidence ids)
      | Transactions_evidence ts \<Rightarrow> Inr (expandTransactionTargetEvidence ts)
      | Ids_evidence ids \<Rightarrow> Inr (ids_evidence ids)
      | No_evidence \<Rightarrow> Inl (PlainError ''transaction deletion reference evidence required''))"

text \<open>The function of the same name in \<open>review-disposition.js\<close> knows fewer forms.\<close>

definition review_evidence :: "evidence \<Rightarrow> string list \<times> string list" where
  "review_evidence e =
     (case e of
        List_evidence ids \<Rightarrow> (ids, [])
      | Snapshot_evidence s \<Rightarrow> expandDeletionSnapshotEvidence s
      | Transactions_evidence ts \<Rightarrow> expandTransactionTargetEvidence ts
      | _ \<Rightarrow> ([], []))"

definition targetSet :: "evidence \<Rightarrow> string list res" where
  "targetSet e = ebind (normalizeDeletionTargetEvidence e) (\<lambda>(targets, _).
     if targets = [] then Inl (PlainError ''transaction deletion reference targets required'') else Inr targets)"

section \<open>The stores\<close>

record ref_stores =
  rs_receipts :: jsval
  rs_links :: jsval
  rs_suggestions :: jsval
  rs_reconciliation :: jsval
  rs_phantomSeen :: jsval
  rs_reviewState :: jsval

fun is_array :: "jsval \<Rightarrow> bool" where
  "is_array (JArr _) = True"
| "is_array _ = False"

fun elems :: "jsval \<Rightarrow> jsval list" where
  "elems (JArr vs) = vs"
| "elems _ = []"

definition require :: "bool \<Rightarrow> string \<Rightarrow> unit res" where
  "require b message = (if b then Inr () else Inl (PlainError message))"

definition assertStores :: "ref_stores \<Rightarrow> unit res" where
  "assertStores s =
     ebind (require (is_object (rs_receipts s) \<and> is_object (jget (rs_receipts s) ''byTxn'')) ''invalid receipts reference store'') (\<lambda>_.
     ebind (require (list_all (\<lambda>(_, v). is_array v) (entries (jget (rs_receipts s) ''byTxn''))) ''invalid receipts reference bucket'') (\<lambda>_.
     ebind (require (is_object (rs_links s) \<and> is_array (jget (rs_links s) ''links'')) ''invalid reimbursement links reference store'') (\<lambda>_.
     ebind (require (is_object (rs_suggestions s) \<and> is_object (jget (rs_suggestions s) ''confirmed'') \<and>
       is_array (jget (rs_suggestions s) ''dismissed'')) ''invalid reimbursement suggestions reference store'') (\<lambda>_.
     ebind (require (is_object (rs_reconciliation s) \<and> is_object (jget (rs_reconciliation s) ''months'')) ''invalid reconciliation reference store'') (\<lambda>_.
     ebind (require (is_object (rs_phantomSeen s) \<and> is_object (jget (rs_phantomSeen s) ''seen'')) ''invalid phantom-seen reference store'') (\<lambda>_.
     require (nullish (rs_reviewState s) \<or> is_object (rs_reviewState s) \<and> is_object (jget (rs_reviewState s) ''dispositions'') \<and>
       is_object (jget (rs_reviewState s) ''legacyDispositions'')) ''invalid review-state reference store''))))))"

text \<open>\<open>{ ...v, k: x }\<close>\<close>

definition jset :: "jsval \<Rightarrow> string \<Rightarrow> jsval \<Rightarrow> jsval" where
  "jset v k x = JObj (AList.update k x (entries v))"

text \<open>\<open>str\<close> is \<open>String(v)\<close> for values that are no strings.\<close>

definition refersTo :: "(jsval \<Rightarrow> string) \<Rightarrow> string list \<Rightarrow> jsval \<Rightarrow> bool" where
  "refersTo str targets v \<longleftrightarrow> \<not> nullish v \<and> (case v of JStr s \<Rightarrow> s | _ \<Rightarrow> str v) \<in> set targets"

section \<open>Rewriting\<close>

definition receipt_refers :: "(jsval \<Rightarrow> string) \<Rightarrow> string list \<Rightarrow> jsval \<Rightarrow> bool" where
  "receipt_refers str targets r = refersTo str targets (jget r ''txnId'')"

definition kept_receipts :: "(jsval \<Rightarrow> string) \<Rightarrow> string list \<Rightarrow> string \<times> jsval \<Rightarrow> jsval list" where
  "kept_receipts str targets e =
     (if fst e \<in> set targets then [] else filter (\<lambda>r. \<not> receipt_refers str targets r) (elems (snd e)))"

definition removed_receipts :: "(jsval \<Rightarrow> string) \<Rightarrow> string list \<Rightarrow> string \<times> jsval \<Rightarrow> jsval list" where
  "removed_receipts str targets e =
     (if fst e \<in> set targets then elems (snd e) else filter (receipt_refers str targets) (elems (snd e)))"

definition valid_file :: "jsval \<Rightarrow> bool" where
  "valid_file r \<longleftrightarrow> nullish (jget r ''file'') \<or> (case jget r ''file'' of JStr _ \<Rightarrow> True | _ \<Rightarrow> False)"

definition files_of :: "jsval list \<Rightarrow> string list" where
  "files_of rs = List.map_filter (\<lambda>r. case jget r ''file'' of JStr f \<Rightarrow> Some f | _ \<Rightarrow> None) rs"

text \<open>The store, the files to delete, and how many receipts went. Any receipt with an invalid file throws.\<close>

definition rewriteReceipts ::
  "(jsval \<Rightarrow> string) \<Rightarrow> string list \<Rightarrow> jsval \<Rightarrow> (jsval \<times> string list \<times> nat) res" where
  "rewriteReceipts str targets store =
     (let byTxn = entries (jget store ''byTxn'');
          removed = concat (map (removed_receipts str targets) byTxn);
          kept = concat (map (kept_receipts str targets) byTxn) in
      if \<not> list_all valid_file (removed @ kept) then Inl (PlainError ''invalid receipt file reference'')
      else Inr (jset store ''byTxn'' (JObj (List.map_filter (\<lambda>e.
          if kept_receipts str targets e = [] then None else Some (fst e, JArr (kept_receipts str targets e))) byTxn)),
        sort (filter (\<lambda>f. f \<notin> set (files_of kept)) (js_dedupe (files_of removed))), length removed))"

definition link_refers :: "(jsval \<Rightarrow> string) \<Rightarrow> string list \<Rightarrow> jsval \<Rightarrow> bool" where
  "link_refers str targets l \<longleftrightarrow> refersTo str targets (jget (jget l ''inflow'') ''id'') \<or>
     refersTo str targets (jget (jget l ''expense'') ''id'')"

definition rewriteLinks :: "(jsval \<Rightarrow> string) \<Rightarrow> string list \<Rightarrow> jsval \<Rightarrow> jsval \<times> nat" where
  "rewriteLinks str targets store =
     (let links = elems (jget store ''links''); kept = filter (\<lambda>l. \<not> link_refers str targets l) links in
      (if length kept = length links then store else jset store ''links'' (JArr kept),
       length (filter (link_refers str targets) links)))"

definition allocationRefersToTarget :: "(jsval \<Rightarrow> string) \<Rightarrow> string list \<Rightarrow> jsval \<Rightarrow> bool" where
  "allocationRefersToTarget str targets v \<longleftrightarrow>
     refersTo str targets (jget v ''inflowId'') \<or> refersTo str targets (jget v ''expenseId'') \<or> link_refers str targets v"

definition suggestionRefersToTarget :: "(jsval \<Rightarrow> string) \<Rightarrow> string list \<Rightarrow> string \<Rightarrow> jsval \<Rightarrow> bool" where
  "suggestionRefersToTarget str targets key v \<longleftrightarrow>
     starts_with ''sg_'' key \<and> drop 3 key \<in> set targets \<or> allocationRefersToTarget str targets v"

definition rewrite_confirmed :: "(jsval \<Rightarrow> string) \<Rightarrow> string list \<Rightarrow> string \<times> jsval \<Rightarrow> (string \<times> jsval) list \<times> nat" where
  "rewrite_confirmed str targets e =
     (let (key, v) = e; allocations = jget v ''allocations'' in
      if suggestionRefersToTarget str targets key v then ([], 1)
      else if \<not> is_array allocations then ([e], 0)
      else let kept = filter (\<lambda>a. \<not> allocationRefersToTarget str targets a) (elems allocations) in
        (if length kept = length (elems allocations) then [e] else [(key, jset v ''allocations'' (JArr kept))],
         length (filter (allocationRefersToTarget str targets) (elems allocations))))"

definition rewriteSuggestions :: "(jsval \<Rightarrow> string) \<Rightarrow> string list \<Rightarrow> jsval \<Rightarrow> jsval \<times> nat" where
  "rewriteSuggestions str targets store =
     (let dismissed = elems (jget store ''dismissed''); confirmed = entries (jget store ''confirmed'');
          kept = filter (\<lambda>v. \<not> refersTo str targets v) dismissed;
          next = concat (map (fst \<circ> rewrite_confirmed str targets) confirmed) in
      (if length kept = length dismissed \<and> next = confirmed then store
       else jset (jset store ''dismissed'' (JArr kept)) ''confirmed'' (JObj next),
       length (filter (refersTo str targets) dismissed) +
       sum_list (map (snd \<circ> rewrite_confirmed str targets) confirmed)))"

definition kept_keys :: "string list \<Rightarrow> (string \<times> jsval) list \<Rightarrow> (string \<times> jsval) list" where
  "kept_keys targets m = filter (\<lambda>(k, _). k \<notin> set targets) m"

definition rewrite_month :: "string list \<Rightarrow> string \<times> jsval \<Rightarrow> (string \<times> jsval) \<times> nat" where
  "rewrite_month targets e =
     (let (month, v) = e; items = entries (jget v ''items'') in
      if \<not> is_object v \<or> \<not> is_object (jget v ''items'') then (e, 0)
      else (if kept_keys targets items = items then e
            else (month, jset v ''items'' (JObj (kept_keys targets items))),
            length items - length (kept_keys targets items)))"

definition rewriteReconciliation :: "string list \<Rightarrow> jsval \<Rightarrow> jsval \<times> nat" where
  "rewriteReconciliation targets store =
     (let months = entries (jget store ''months''); next = map (fst \<circ> rewrite_month targets) months in
      (if next = months then store else jset store ''months'' (JObj next),
       sum_list (map (snd \<circ> rewrite_month targets) months)))"

definition rewritePhantomSeen :: "string list \<Rightarrow> jsval \<Rightarrow> jsval \<times> nat" where
  "rewritePhantomSeen targets store =
     (let seen = entries (jget store ''seen'') in
      (if kept_keys targets seen = seen then store else jset store ''seen'' (JObj (kept_keys targets seen)),
       length seen - length (kept_keys targets seen)))"

definition rewriteReviewState :: "evidence \<Rightarrow> jsval \<Rightarrow> jsval \<times> nat" where
  "rewriteReviewState e store =
     (case rewriteReviewDispositionsForDeletion (normalizeReviewState store) (review_evidence e) of
        (s, n) \<Rightarrow> (state_json s, n))"

record deletion_rewrite =
  dw_stores :: ref_stores
  dw_receiptFilesToDelete :: "string list"
  dw_stats :: "nat list"

text \<open>The counts are those of receipts, links, suggestions, reconciliation, phantoms, review state.\<close>

definition rewriteTransactionDeletionReferences ::
  "(jsval \<Rightarrow> string) \<Rightarrow> ref_stores \<Rightarrow> evidence \<Rightarrow> deletion_rewrite res" where
  "rewriteTransactionDeletionReferences str s e =
     ebind (assertStores s) (\<lambda>_.
     ebind (targetSet e) (\<lambda>targets.
     ebind (rewriteReceipts str targets (rs_receipts s)) (\<lambda>(receipts, files, n).
       let links = rewriteLinks str targets (rs_links s); suggestions = rewriteSuggestions str targets (rs_suggestions s);
           reconciliation = rewriteReconciliation targets (rs_reconciliation s);
           phantoms = rewritePhantomSeen targets (rs_phantomSeen s); review = rewriteReviewState e (rs_reviewState s)
       in Inr \<lparr>dw_stores = \<lparr>rs_receipts = receipts, rs_links = fst links, rs_suggestions = fst suggestions,
           rs_reconciliation = fst reconciliation, rs_phantomSeen = fst phantoms, rs_reviewState = fst review\<rparr>,
         dw_receiptFilesToDelete = files,
         dw_stats = [n, snd links, snd suggestions, snd reconciliation, snd phantoms, snd review]\<rparr>)))"

section \<open>Rewriting twice\<close>

lemma jget_jset [simp]: "jget (jset v k x) k' = (if k' = k then x else jget v k')"
proof -
  have "jget v k' = (case map_of (entries v) k' of None \<Rightarrow> JUndef | Some w \<Rightarrow> w)" by (cases v) simp_all
  then show ?thesis by (simp add: jset_def update_conv')
qed

lemma is_object_jset [simp]: "is_object (jset v k x)"
  by (simp add: jset_def)

lemma jset_same:
  assumes "is_object v" "jget v k = x" "x \<noteq> JUndef"
  shows "jset v k x = v"
proof -
  obtain ps where v: "v = JObj ps" using assms(1) by (cases v) simp_all
  then have "map_of ps k = Some x" using assms(2,3) by (auto split: option.splits)
  then show ?thesis by (simp add: v jset_def update_triv)
qed

lemma map_filter_idem:
  assumes "\<And>x y. f x = Some y \<Longrightarrow> f y = Some y"
  shows "List.map_filter f (List.map_filter f xs) = List.map_filter f xs"
  by (induction xs) (auto simp: List.map_filter_def assms split: option.splits)

lemma files_filter: "set (files_of (filter P rs)) \<subseteq> set (files_of rs)"
  by (auto simp: files_of_def List.map_filter_def)

lemma receipts_again:
  assumes "rewriteReceipts str targets store = Inr (store', files, n)"
  shows "rewriteReceipts str targets store' = Inr (store', [], 0) \<and> is_object store' \<and>
    is_object (jget store' ''byTxn'') \<and> list_all (\<lambda>(_, v). is_array v) (entries (jget store' ''byTxn'')) \<and>
    (\<forall>f \<in> set files. f \<notin> set (files_of (concat (map (elems \<circ> snd) (entries (jget store' ''byTxn''))))))"
proof -
  let ?kept = "kept_receipts str targets"
  let ?f = "\<lambda>e. if ?kept e = [] then None else Some (fst e, JArr (?kept e))"
  define byTxn where "byTxn = entries (jget store ''byTxn'')"
  define byTxn' where "byTxn' = List.map_filter ?f byTxn"
  have store': "store' = jset store ''byTxn'' (JObj byTxn')"
    and valid: "list_all valid_file (concat (map ?kept byTxn))"
    and files: "files = sort (filter (\<lambda>f. f \<notin> set (files_of (concat (map ?kept byTxn))))
      (js_dedupe (files_of (concat (map (removed_receipts str targets) byTxn)))))"
    using assms by (auto simp: rewriteReceipts_def Let_def byTxn_def byTxn'_def split: if_splits)
  have again: "?kept e' = elems (snd e')" "removed_receipts str targets e' = []" "elems (snd e') \<noteq> []" "is_array (snd e')"
    if "e' \<in> set byTxn'" for e'
    using that by (auto simp: byTxn'_def List.map_filter_def kept_receipts_def removed_receipts_def filter_empty_conv split: if_splits)
  have "concat (map (elems \<circ> snd) byTxn') = concat (map ?kept byTxn)"
    unfolding byTxn'_def by (induction byTxn) (auto simp: List.map_filter_def)
  then have els: "concat (map (elems \<circ> snd) byTxn') = concat (map ?kept byTxn)" .
  have "concat (map ?kept byTxn') = concat (map (elems \<circ> snd) byTxn')"
    using again(1) by (intro arg_cong [of _ _ concat] map_cong) auto
  then have k: "concat (map ?kept byTxn') = concat (map ?kept byTxn)" using els by simp
  have r: "concat (map (removed_receipts str targets) byTxn') = []" using again(2) by simp
  have m: "List.map_filter ?f byTxn' = byTxn'"
    unfolding byTxn'_def by (rule map_filter_idem) (auto simp: kept_receipts_def split: if_splits)
  have b: "entries (jget store' ''byTxn'') = byTxn'" by (simp add: store')
  have j: "jset store' ''byTxn'' (JObj byTxn') = store'" by (rule jset_same) (simp_all add: store')
  have "rewriteReceipts str targets store' = Inr (store', [], 0)"
    unfolding rewriteReceipts_def Let_def b r k m j using valid by (simp add: files_of_def List.map_filter_def)
  moreover have "\<forall>f \<in> set files. f \<notin> set (files_of (concat (map (elems \<circ> snd) byTxn')))"
    by (auto simp: files els)
  ultimately show ?thesis using again(4) by (auto simp: store' list_all_iff)
qed

lemma filter_length_eq: "length (filter P xs) = length xs \<longleftrightarrow> filter P xs = xs"
  by (metis filter_id_conv length_filter_less less_irrefl)

lemma links_again:
  assumes "is_object store" "is_array (jget store ''links'')"
  shows "rewriteLinks str targets (fst (rewriteLinks str targets store)) = (fst (rewriteLinks str targets store), 0) \<and>
    is_object (fst (rewriteLinks str targets store)) \<and> is_array (jget (fst (rewriteLinks str targets store)) ''links'')"
  using assms by (auto simp: rewriteLinks_def Let_def filter_length_eq filter_empty_conv filter_id_conv)

lemma kept_keys_again: "kept_keys targets (kept_keys targets m) = kept_keys targets m"
  by (simp add: kept_keys_def)

lemma phantoms_again:
  assumes "is_object store" "is_object (jget store ''seen'')"
  shows "rewritePhantomSeen targets (fst (rewritePhantomSeen targets store)) = (fst (rewritePhantomSeen targets store), 0) \<and>
    is_object (fst (rewritePhantomSeen targets store)) \<and> is_object (jget (fst (rewritePhantomSeen targets store)) ''seen'')"
  using assms by (auto simp: rewritePhantomSeen_def Let_def kept_keys_again)

lemma month_again: "rewrite_month targets (fst (rewrite_month targets e)) = (fst (rewrite_month targets e), 0)"
proof -
  obtain month v where e: "e = (month, v)" by (cases e)
  show ?thesis
    by (cases "is_object v \<and> is_object (jget v ''items'')") (auto simp: e rewrite_month_def Let_def kept_keys_again)
qed

lemma reconciliation_again:
  assumes "is_object store" "is_object (jget store ''months'')"
  shows "rewriteReconciliation targets (fst (rewriteReconciliation targets store)) =
      (fst (rewriteReconciliation targets store), 0) \<and>
    is_object (fst (rewriteReconciliation targets store)) \<and>
    is_object (jget (fst (rewriteReconciliation targets store)) ''months'')"
proof -
  have "map (fst \<circ> rewrite_month targets) (map (fst \<circ> rewrite_month targets) ms) = map (fst \<circ> rewrite_month targets) ms"
    "sum_list (map (snd \<circ> rewrite_month targets) (map (fst \<circ> rewrite_month targets) ms)) = 0" for ms
    by (simp_all add: month_again comp_def)
  moreover have "sum_list (map (snd \<circ> rewrite_month targets) ms) = 0" if "map (fst \<circ> rewrite_month targets) ms = ms" for ms
    using calculation(2) [of ms] that by simp
  ultimately show ?thesis using assms by (auto simp: rewriteReconciliation_def Let_def)
qed

lemma confirmed_again:
  assumes "e' \<in> set (fst (rewrite_confirmed str targets e))"
  shows "rewrite_confirmed str targets e' = ([e'], 0)"
proof -
  obtain key v where e: "e = (key, v)" by (cases e)
  let ?as = "elems (jget v ''allocations'')"
  let ?kept = "filter (\<lambda>a. \<not> allocationRefersToTarget str targets a) ?as"
  have same: "suggestionRefersToTarget str targets key (jset v ''allocations'' x) = suggestionRefersToTarget str targets key v"
    for x by (simp add: suggestionRefersToTarget_def allocationRefersToTarget_def link_refers_def)
  have keep: "\<not> suggestionRefersToTarget str targets key v"
    using assms by (auto simp: e rewrite_confirmed_def Let_def split: if_splits)
  show ?thesis
  proof (cases "is_array (jget v ''allocations'')")
    case False
    then show ?thesis using assms keep by (auto simp: e rewrite_confirmed_def Let_def)
  next
    case True
    then have e': "e' = (if length ?kept = length ?as then e else (key, jset v ''allocations'' (JArr ?kept)))"
      using assms keep by (auto simp: e rewrite_confirmed_def Let_def split: if_splits)
    show ?thesis
    proof (cases "length ?kept = length ?as")
      case True
      then have "e' = e" "filter (allocationRefersToTarget str targets) ?as = []"
        using e' by (auto simp: filter_length_eq filter_id_conv filter_empty_conv)
      then show ?thesis using True keep \<open>is_array (jget v ''allocations'')\<close> by (simp add: e rewrite_confirmed_def Let_def)
    next
      case False
      then have "e' = (key, jset v ''allocations'' (JArr ?kept))" using e' by simp
      then show ?thesis using keep same by (simp add: rewrite_confirmed_def Let_def filter_empty_conv)
    qed
  qed
qed

lemma confirmed_list_again:
  fixes es :: "(string \<times> jsval) list" and str :: "jsval \<Rightarrow> string" and targets :: "string list"
  defines "after \<equiv> concat (map (fst \<circ> rewrite_confirmed str targets) es)"
  shows "concat (map (fst \<circ> rewrite_confirmed str targets) after) = after"
    and "sum_list (map (snd \<circ> rewrite_confirmed str targets) after) = 0"
proof -
  have *: "rewrite_confirmed str targets e' = ([e'], 0)" if "e' \<in> set after" for e'
    using that confirmed_again unfolding after_def by fastforce
  have m: "map (fst \<circ> rewrite_confirmed str targets) after = map (\<lambda>e. [e]) after"
    "map (snd \<circ> rewrite_confirmed str targets) after = map (\<lambda>_. 0) after" using * by (auto intro: map_cong)
  show "concat (map (fst \<circ> rewrite_confirmed str targets) after) = after" unfolding m by simp
  show "sum_list (map (snd \<circ> rewrite_confirmed str targets) after) = 0" unfolding m by simp
qed

lemma suggestions_again:
  fixes str :: "jsval \<Rightarrow> string" and targets :: "string list"
  assumes "is_object store" "is_object (jget store ''confirmed'')" "is_array (jget store ''dismissed'')"
  defines "store' \<equiv> fst (rewriteSuggestions str targets store)"
  shows "rewriteSuggestions str targets store' = (store', 0) \<and> is_object store' \<and>
    is_object (jget store' ''confirmed'') \<and> is_array (jget store' ''dismissed'')"
proof -
  let ?d = "elems (jget store ''dismissed'')" and ?c = "entries (jget store ''confirmed'')"
  let ?kept = "filter (\<lambda>v. \<not> refersTo str targets v) ?d"
  let ?next = "concat (map (fst \<circ> rewrite_confirmed str targets) ?c)"
  show ?thesis
  proof (cases "length ?kept = length ?d \<and> ?next = ?c")
    case True
    then have st: "store' = store" by (simp add: store'_def rewriteSuggestions_def Let_def)
    have "filter (refersTo str targets) ?d = []" using True by (auto simp: filter_length_eq filter_id_conv filter_empty_conv)
    moreover have "sum_list (map (snd \<circ> rewrite_confirmed str targets) ?c) = 0"
      using confirmed_list_again(2) [of str targets ?c] True by simp
    ultimately show ?thesis unfolding st using True assms(1-3) by (simp add: rewriteSuggestions_def Let_def)
  next
    case False
    then have st: "store' = jset (jset store ''dismissed'' (JArr ?kept)) ''confirmed'' (JObj ?next)"
      by (simp only: store'_def rewriteSuggestions_def Let_def fst_conv if_False)
    have d: "elems (jget store' ''dismissed'') = ?kept" and c: "entries (jget store' ''confirmed'') = ?next"
      by (simp_all add: st)
    have "rewriteSuggestions str targets store' = (store', 0)"
      unfolding rewriteSuggestions_def Let_def d c confirmed_list_again by (simp add: filter_empty_conv)
    then show ?thesis by (simp add: st)
  qed
qed

lemma review_again:
  "rewriteReviewState e (fst (rewriteReviewState e store)) = (fst (rewriteReviewState e store), 0) \<and>
   is_object (fst (rewriteReviewState e store)) \<and>
   is_object (jget (fst (rewriteReviewState e store)) ''dispositions'') \<and>
   is_object (jget (fst (rewriteReviewState e store)) ''legacyDispositions'')"
proof -
  define s where "s = normalizeReviewState store"
  have i: "is_integer (JNum (rv_contentVersion s))" unfolding s_def by (rule normalized_integer)
  obtain s' n where d: "rewriteReviewDispositionsForDeletion s (review_evidence e) = (s', n)" by (cases "rewriteReviewDispositionsForDeletion s (review_evidence e)")
  then have "is_integer (JNum (rv_contentVersion s'))" "rewriteReviewDispositionsForDeletion s' (review_evidence e) = (s', 0)"
    using i by (auto simp: rewriteReviewDispositionsForDeletion_def drop_entries_def filter_empty_conv)
  then show ?thesis by (simp add: rewriteReviewState_def d [unfolded s_def] normalize_again) (simp add: state_json_def)
qed

section \<open>Properties\<close>


definition demo_stores :: ref_stores where
  "demo_stores = \<lparr>
     rs_receipts = JObj [(''byTxn'', JObj [(''t1'', JArr [JObj [(''txnId'', JStr ''t1''), (''file'', JStr ''a.jpg'')]]),
       (''t2'', JArr [JObj [(''txnId'', JStr ''t2''), (''file'', JStr ''b.jpg'')]])])],
     rs_links = JObj [(''links'', JArr [JObj [(''inflow'', JObj [(''id'', JStr ''t1'')])]])],
     rs_suggestions = JObj [(''confirmed'', JObj []), (''dismissed'', JArr [JStr ''t1''])],
     rs_reconciliation = JObj [(''months'', JObj [])], rs_phantomSeen = JObj [(''seen'', JObj [(''t1'', JNull)])],
     rs_reviewState = JNull\<rparr>"

definition demo_rewrite :: deletion_rewrite where
  "demo_rewrite = projr (rewriteTransactionDeletionReferences (\<lambda>_. ''other'') demo_stores (List_evidence [''t1'']))"

lemma demo_rewritten:
  "(case rewriteTransactionDeletionReferences (\<lambda>_. ''other'') demo_stores (List_evidence [''t1'']) of Inl _ \<Rightarrow> None
    | Inr w \<Rightarrow> Some (dw_receiptFilesToDelete w, dw_stats w)) = Some ([''a.jpg''], [1, 1, 1, 0, 1, 0])"
  by code_simp


end
