(* ===== verification/Spec2Isabelle.thy ===== *)
theory Spec2Isabelle
  imports Prelude Binary64 JsValue JsString Money DateOnly CentAllocation BudgetForecast
    AdmissionConfig RequestAdmission AdmissionController OperationJournal OperationExecutor
    RequestOperation SplitAllocation BoundedList OtaUpdate
    LiabilityCycle BudgetEnvelope SerialQueue ActualCoordinator ReimbursementAllocation
    ReimbursementAdmission ReimbursementSaga TransferClassification ProjectionCompleteness
    GoalFeasibility StableSort ObligationGraph ObligationReservations ObligationSettlement SafeToSpend
    Recurrence RecurrenceDates ObligationInputs ObligationPipeline
    ManualAssets AccountProjection ReviewFingerprint ReviewDisposition DeletionReferences
begin

text \<open>
  A verification development of DarkFinances: the deterministic core of the finance dashboard
  (\<open>finance-dashboard/lib\<close>, a Node server in front of the budget engine Actual) and of the state
  machines its app keeps on the phone (\<open>finance-app/src/lib\<close>).

  \<^bold>\<open>The program.\<close> A request of the app reaches the server, is admitted to a lane
  (\<open>request-admission.js\<close>), and, when it changes money, runs under an idempotency key: the executor
  (\<open>operation-executor.js\<close>) looks the key up in a durable journal (\<open>operation-journal.js\<close>), runs the
  handler on the serial mutation queue (\<open>serial-queue.js\<close>) and records how far its effects got. The app
  keeps its own record of every request until it knows the outcome (\<open>request-operation-state.js\<close>), so
  that a retry sends the same key. Reads go through the coordinator of the budget engine
  (\<open>actual-coordinator.js\<close>), which serializes holds and stamps cached projections with a generation.
  The projections themselves are cent arithmetic on calendar dates: money, allocations, envelopes,
  liabilities, forecasts, and the reimbursement links between inflows and expenses.

  \<^bold>\<open>The theories.\<close> They follow this layering; each opens with the files it models.

  \<^item> \<open>Prelude\<close> (results as sums, first-throw sequencing), \<open>Binary64\<close> (IEEE doubles as rounded rationals),
    \<open>JsValue\<close>, \<open>JsString\<close>: the language.
  \<^item> \<open>Money\<close>, \<open>CentAllocation\<close>, \<open>BudgetForecast\<close>, \<open>DateOnly\<close>: the arithmetic. Dollars and cents convert exactly
    where the code says so, allocations conserve every cent, dates agree with the Gregorian calendar.
  \<^item> \<open>BudgetEnvelope\<close>, \<open>LiabilityCycle\<close>, \<open>ReimbursementAllocation\<close>, \<open>SplitAllocation\<close>, \<open>BoundedList\<close>: domain rules. What is
    reserved, owed, linked or listed adds up; capacities are never exceeded.
  \<^item> \<open>TransferClassification\<close>, \<open>ProjectionCompleteness\<close>, \<open>GoalFeasibility\<close>: projections. The two sides of a transfer
    cancel, summaries and trends conserve what they gather, a goal is feasible exactly when it fits.
  \<^item> \<open>StableSort\<close>, \<open>ObligationGraph\<close>, \<open>ObligationReservations\<close>, \<open>ObligationSettlement\<close>, \<open>SafeToSpend\<close>: what the
    household owes in a window. The first models the builder and the readers of the graph, the second the
    invariants each step of the builder keeps, the third carries them to the graph: a group of
    sources is reserved once, the parts of a liability add up, the graph passes the program's own check, and
    safe-to-spend is the cash minus the reservations or nothing.
  \<^item> \<open>AdmissionConfig\<close>, \<open>RequestAdmission\<close>, \<open>AdmissionController\<close>: admission. Limits hold and counters are exact in
    every state the controller can reach; every request settles once.
  \<^item> \<open>OperationJournal\<close>, \<open>OperationExecutor\<close>, \<open>RequestOperation\<close>: idempotent mutations. The journal stays valid,
    entries move forward, an answer agrees with the journal, applied work is never recorded as failed.
  \<^item> \<open>SerialQueue\<close>, \<open>ActualCoordinator\<close>: ordering. The locale \<open>serial_lane\<close> states what clients rely on; the queue
    interprets it, and the coordinator's cache shows the present world between holds.
  \<^item> \<open>ReimbursementAdmission\<close>, \<open>ReimbursementSaga\<close>: the crash-safe write of a reimbursement link. A call is the list of
    durable states it passes through; every interruption is a prefix. Links never exceed an amount, an
    interrupted link is finished by recovery, and an interrupted change of a link is not (a finding).
  \<^item> \<open>OtaUpdate\<close>: the reducer behind the update banner of the app.

  \<^bold>\<open>Conventions.\<close> A record is an object, a datatype an enumeration; an absent property is \<open>None\<close>. A throw is
  \<open>Inl\<close>. Safe integers are \<^typ>\<open>int\<close> with the checks of the code written out, other numbers are \<open>jsnum\<close>.
  Everything between two awaits is one step; what other code does meanwhile enters as further steps
  or as a parameter. Clocks, hashes, key factories, \<open>Date.parse\<close>, collation, the file system and the
  budget engine are parameters, with what the code relies on as named hypotheses. Loops of the code
  are total functions by a measure, except where a comment names the fuel and the lemma that it is enough.

  \<^bold>\<open>Not modelled.\<close> \<open>dataModule.js\<close> and \<open>server.js\<close> are glue between the engine, express and the modules
  above; the user interface of the app and of the browser, the generated API client and the tooling
  (\<open>ops\<close>, \<open>scripts\<close>, \<open>actual-tools\<close>: shell, tar, systemd, release signing) are input and output. The transaction
  sagas (replacement, deletion, bulk, repayment confirmation), the account and
  review projections, and the schemas of the runtime state are core logic that
  is still to come; the manifest lists each with its state.
\<close>

end
